(* ===== verification/Prelude.thy ===== *)
theory Prelude
  imports Main "HOL-Library.Word" "HOL-Library.AList" "HOL-Library.Sublist" "HOL-Library.Char_ord"
    "HOL-Library.List_Lexorder"
begin

text \<open>
  Shared vocabulary of the development: machine integers, Go errors as values, Go maps as
  association lists, the functions of Go's \<^verbatim>\<open>strings\<close> package that the sources call, and
  decimal printing and reading.  The lemma collections \<open>gomap\<close>, \<open>gostr\<close> and \<open>dec\<close> carry the
  component proofs.
\<close>

unbundle bit_operations_syntax

type_synonym u8 = "8 word"
type_synonym u16 = "16 word"
type_synonym u32 = "32 word"

named_theorems gomap "laws of Go maps as association lists"
named_theorems gostr "laws of Go string functions"
named_theorems dec "laws of decimal printing and reading"
named_theorems ev "equations that evaluate the model on concrete inputs"

section \<open>Errors\<close>

text \<open>
  An error value is the text given to \<^verbatim>\<open>fmt.Errorf\<close>, a wrapped error (\<^verbatim>\<open>%w\<close>), an
  \<^verbatim>\<open>errors.Join\<close>, a failure of an external operation (database, socket, device; the number
  is the failure's identity), or one of the sentinel values the sources declare with
  \<^verbatim>\<open>errors.New\<close>.  A fallible function returns \<open>err + 'a\<close>.
\<close>

datatype err =
    Errorf string
  | Wrap string err
  | Join "err list"
  | External nat
  | ErrRecordNotFound
  | ErrUniqueViolation
  | ErrDuplicateAddress
  | ErrSubnetIPUnavailable
  | ErrIPAllocationUnavailable
  | ErrPortForwardConflict
  | ErrPortForwardNotFound
  | PortForwardListenPortError int
  | ErrMapSlugConflict
  | ErrMapIPUnavailable
  | ErrPeerNotFound
  | ErrGroupNotFound
  | ErrHostnameExists
  | ErrPeerIPUnavailable
  | ErrAllowedGroupNotFound
  | ErrSelfLink
  | ErrInvalidAdminPassword
  | ErrAdminSessionRevoked
  | ErrAlreadyConfigured
  | ErrImportWhenConfigured
  | ErrSetupTokenRequired
  | ErrNetworkUnavailable
  | ErrPortsExhausted
  | RuntimeMutationError string err
  | RuntimeRecoveryError string err
  | RuntimeStoppedError string err

section \<open>Results\<close>

fun is_ok :: "'e + 'a \<Rightarrow> bool" where
  "is_ok (Inl _) = False"
| "is_ok (Inr _) = True"

definition res_bind :: "'e + 'a \<Rightarrow> ('a \<Rightarrow> 'e + 'b) \<Rightarrow> 'e + 'b" where
  "res_bind r f = (case r of Inl e \<Rightarrow> Inl e | Inr x \<Rightarrow> f x)"

lemma res_bind_simps [simp]:
  "res_bind (Inl e) f = Inl e"
  "res_bind (Inr x) f = f x"
  by (simp_all add: res_bind_def)

lemma res_bind_eq_Inr:
  "res_bind r f = Inr y \<longleftrightarrow> (\<exists>x. r = Inr x \<and> f x = Inr y)"
  by (cases r) auto

lemma is_ok_iff: "is_ok r \<longleftrightarrow> (\<exists>x. r = Inr x)"
  by (cases r) auto

section \<open>Go maps\<close>

text \<open>
  A Go map is an association list with distinct keys.  Lookup is \<open>map_of\<close>; assignment and
  \<^verbatim>\<open>delete\<close> are those of \<^verbatim>\<open>HOL-Library.AList\<close>; \<^verbatim>\<open>range\<close> runs through the list.  Go leaves
  the order of \<^verbatim>\<open>range\<close> open, so no theorem of the development depends on it.  A Go set
  \<^verbatim>\<open>map[K]struct{}\<close> is a list of its keys.  A nil map reads like an empty one.
\<close>

type_synonym ('k, 'v) gomap = "('k \<times> 'v) list"
type_synonym 'k goset = "'k list"

abbreviation mget :: "('k, 'v) gomap \<Rightarrow> 'k \<Rightarrow> 'v option" where
  "mget m k \<equiv> map_of m k"

abbreviation mput :: "'k \<Rightarrow> 'v \<Rightarrow> ('k, 'v) gomap \<Rightarrow> ('k, 'v) gomap" where
  "mput \<equiv> AList.update"

abbreviation mdel :: "'k \<Rightarrow> ('k, 'v) gomap \<Rightarrow> ('k, 'v) gomap" where
  "mdel \<equiv> AList.delete"

abbreviation mdistinct :: "('k, 'v) gomap \<Rightarrow> bool" where
  "mdistinct m \<equiv> distinct (map fst m)"

lemma mget_mput [gomap, simp]: "mget (mput k v m) j = (if j = k then Some v else mget m j)"
  by (simp add: update_conv')

lemma mget_mdel [gomap, simp]: "mget (mdel k m) j = (if j = k then None else mget m j)"
  by (simp add: delete_conv')

lemma mdistinct_mput [gomap, intro, simp]: "mdistinct m \<Longrightarrow> mdistinct (mput k v m)"
  by (rule distinct_update)

lemma mdistinct_mdel [gomap, intro, simp]: "mdistinct m \<Longrightarrow> mdistinct (mdel k m)"
  by (rule distinct_delete)

lemma keys_mput [gomap, simp]: "fst ` set (mput k v m) = insert k (fst ` set m)"
  by (induction m) auto

lemma keys_mdel [gomap]: "fst ` set (mdel a xs) = fst ` set xs - {a}"
  by (auto simp: AList.delete_eq)

lemma set_mput_subset: "set (mput k v m) \<subseteq> insert (k, v) (set m)"
  by (induction m) auto

lemma set_mdel_subset: "set (mdel k m) \<subseteq> set m"
  by (auto simp: AList.delete_eq)

lemma mput_not_Nil [simp]: "mput k v m \<noteq> []"
  by (cases m) auto

lemma mdistinct_filter [gomap, intro, simp]: "mdistinct m \<Longrightarrow> mdistinct (filter P m)"
  by (induction m) auto

lemma mget_filter [gomap]:
  "mdistinct m \<Longrightarrow> mget (filter P m) k = (case mget m k of None \<Rightarrow> None
     | Some v \<Rightarrow> if P (k, v) then Some v else None)"
proof (induction m)
  case Nil
  then show ?case by simp
next
  case (Cons a m)
  have none: "mget (filter P m) (fst a) = None" "mget m (fst a) = None"
    using Cons.prems by (auto simp: map_of_eq_None_iff)
  from Cons show ?case
    by (cases a) (use none in \<open>auto split: option.splits\<close>)
qed

lemma mget_eq_in_set: "mdistinct m \<Longrightarrow> mget m k = Some v \<longleftrightarrow> (k, v) \<in> set m"
  by (simp add: map_of_eq_Some_iff)

lemma set_mput: "(k, v) \<in> set (mput a b xs) \<Longrightarrow> mdistinct xs \<Longrightarrow> (k = a \<and> v = b) \<or> (k \<noteq> a \<and> (k, v) \<in> set xs)"
  by (metis mdistinct_mput mget_eq_in_set mget_mput option.inject)

lemma set_mdel: "(k, v) \<in> set (mdel a xs) \<Longrightarrow> (k, v) \<in> set xs \<and> k \<noteq> a"
  by (auto simp: AList.delete_eq)

lemma mget_Some_key: "mget m k = Some v \<Longrightarrow> k \<in> fst ` set m"
  by (metis map_of_eq_None_iff option.distinct(1))

text \<open>Building a map by inserting a list of pairs, later pairs winning.\<close>

lemma mget_fold_mput:
  "mget (fold (\<lambda>(k, v). mput k v) ps m) k =
     (case mget (rev ps) k of None \<Rightarrow> mget m k | Some v \<Rightarrow> Some v)"
proof (induction ps arbitrary: m)
  case Nil
  then show ?case by simp
next
  case (Cons p ps)
  then show ?case
    by (cases p) (auto simp: map_of_append map_add_def split: option.splits)
qed

lemma mdistinct_fold_mput: "mdistinct m \<Longrightarrow> mdistinct (fold (\<lambda>(k, v). mput k v) ps m)"
  by (induction ps arbitrary: m) (auto simp: case_prod_beta)

lemma find_SomeD: "find P xs = Some x \<Longrightarrow> x \<in> set xs \<and> P x"
  by (induction xs) (auto split: if_splits)

text \<open>Go sets.\<close>

lemma set_fold_insert: "set (fold List.insert xs s) = set xs \<union> set s"
  by (induction xs arbitrary: s) auto

lemma distinct_fold_insert: "distinct s \<Longrightarrow> distinct (fold List.insert xs s)"
  by (induction xs arbitrary: s) auto

end
