(* ===== verification/Go_Strings.thy ===== *)
theory Go_Strings
  imports Prelude
begin

text \<open>
  The functions of Go's \<^verbatim>\<open>strings\<close>, \<^verbatim>\<open>strconv\<close> and \<^verbatim>\<open>unicode/utf8\<close> packages that the sources
  call.  A Go string is its list of bytes.  \<^verbatim>\<open>ToLower\<close> and \<^verbatim>\<open>TrimSpace\<close> are exact on ASCII
  text; on other valid UTF-8 they leave the non-ASCII bytes alone, which differs from Go only for
  letters outside ASCII (kept as they are) and for Unicode white space at the ends (not trimmed).
\<close>

section \<open>Characters\<close>

abbreviation NL :: char where "NL \<equiv> CHR 0x0A"

definition is_space :: "char \<Rightarrow> bool" where
  "is_space c = (let n = (of_char c :: nat) in (9 \<le> n \<and> n \<le> 13) \<or> n = 32)"

definition is_digit :: "char \<Rightarrow> bool" where
  "is_digit c = (let n = (of_char c :: nat) in 48 \<le> n \<and> n \<le> 57)"

definition is_lower :: "char \<Rightarrow> bool" where
  "is_lower c = (let n = (of_char c :: nat) in 97 \<le> n \<and> n \<le> 122)"

definition is_upper :: "char \<Rightarrow> bool" where
  "is_upper c = (let n = (of_char c :: nat) in 65 \<le> n \<and> n \<le> 90)"

definition lower_char :: "char \<Rightarrow> char" where
  "lower_char c = (if is_upper c then char_of ((of_char c :: nat) + 32) else c)"

definition digit_char :: "nat \<Rightarrow> char" where
  "digit_char d = char_of (48 + d)"

definition digit_val :: "char \<Rightarrow> nat" where
  "digit_val c = (of_char c :: nat) - 48"

lemma of_char_lt_256: "(of_char c :: nat) < 256"
  by (metis char_of_nat nat_of_char_less_256)

lemma of_char_digit_char [dec, simp]: "d < 10 \<Longrightarrow> (of_char (digit_char d) :: nat) = 48 + d"
  by (simp add: digit_char_def)

lemma is_digit_digit_char [dec, simp]: "d < 10 \<Longrightarrow> is_digit (digit_char d)"
  by (simp add: is_digit_def)

lemma digit_val_digit_char [dec, simp]: "d < 10 \<Longrightarrow> digit_val (digit_char d) = d"
  by (simp add: digit_val_def)

lemma digit_char_digit_val [dec, simp]: "is_digit c \<Longrightarrow> digit_char (digit_val c) = c"
  by (simp add: is_digit_def digit_char_def digit_val_def Let_def)

lemma digit_val_less [dec, simp]: "is_digit c \<Longrightarrow> digit_val c < 10"
  by (simp add: is_digit_def digit_val_def Let_def less_diff_conv2)

lemma digit_char_neq_dot [dec, simp]: "d < 10 \<Longrightarrow> digit_char d \<noteq> CHR ''.''"
  by (auto dest: arg_cong [where f = "of_char :: char \<Rightarrow> nat"])

lemma not_upper_lower_char [gostr, simp]: "\<not> is_upper (lower_char c)"
proof (cases "is_upper c")
  case True
  then have "(of_char (lower_char c) :: nat) = of_char c + 32"
    by (simp add: lower_char_def is_upper_def Let_def)
  with True show ?thesis by (simp add: is_upper_def Let_def)
next
  case False
  then show ?thesis by (simp add: lower_char_def)
qed

lemma lower_char_idem [gostr, simp]: "lower_char (lower_char c) = lower_char c"
  using not_upper_lower_char [of c] by (simp add: lower_char_def split: if_splits)

section \<open>Strings\<close>

definition trim_space :: "string \<Rightarrow> string" where
  "trim_space s = rev (dropWhile is_space (rev (dropWhile is_space s)))"

definition to_lower :: "string \<Rightarrow> string" where
  "to_lower s = map lower_char s"

definition has_prefix :: "string \<Rightarrow> string \<Rightarrow> bool" where
  "has_prefix s p = (take (length p) s = p)"

definition has_suffix :: "string \<Rightarrow> string \<Rightarrow> bool" where
  "has_suffix s p = (length p \<le> length s \<and> drop (length s - length p) s = p)"

definition trim_prefix :: "string \<Rightarrow> string \<Rightarrow> string" where
  "trim_prefix s p = (if has_prefix s p then drop (length p) s else s)"

definition trim_suffix :: "string \<Rightarrow> string \<Rightarrow> string" where
  "trim_suffix s p = (if has_suffix s p then take (length s - length p) s else s)"

fun str_contains :: "string \<Rightarrow> string \<Rightarrow> bool" where
  "str_contains [] p = (p = [])"
| "str_contains (c # s) p = (has_prefix (c # s) p \<or> str_contains s p)"

text \<open>\<^verbatim>\<open>strings.Split\<close> with a one-byte separator.\<close>

fun split_on :: "char \<Rightarrow> string \<Rightarrow> string list" where
  "split_on c [] = [[]]"
| "split_on c (x # xs) =
     (if x = c then [] # split_on c xs
      else (case split_on c xs of [] \<Rightarrow> [[x]] | y # ys \<Rightarrow> (x # y) # ys))"

text \<open>\<^verbatim>\<open>strings.Join\<close>.\<close>

fun join_with :: "string \<Rightarrow> string list \<Rightarrow> string" where
  "join_with sep [] = []"
| "join_with sep [x] = x"
| "join_with sep (x # y # ys) = x @ sep @ join_with sep (y # ys)"

text \<open>\<^verbatim>\<open>strings.Cut\<close> with a one-byte separator.\<close>

fun cut_at :: "char \<Rightarrow> string \<Rightarrow> (string \<times> string) option" where
  "cut_at c [] = None"
| "cut_at c (x # xs) =
     (if x = c then Some ([], xs) else map_option (\<lambda>(a, b). (x # a, b)) (cut_at c xs))"

text \<open>\<^verbatim>\<open>utf8.RuneCountInString\<close> on valid UTF-8: the bytes that are not continuation bytes.\<close>

definition rune_count :: "string \<Rightarrow> nat" where
  "rune_count s = length (filter (\<lambda>c. \<not> (128 \<le> (of_char c :: nat) \<and> (of_char c :: nat) < 192)) s)"

text \<open>\<^verbatim>\<open>%q\<close>: the text in double quotes with Go's escapes; bytes above 127 stay as they are.\<close>

definition hex_digit :: "nat \<Rightarrow> char" where
  "hex_digit d = (if d < 10 then char_of (48 + d) else char_of (87 + d))"

definition quote_char :: "char \<Rightarrow> string" where
  "quote_char c = (let n = (of_char c :: nat) in
     if n = 34 \<or> n = 92 then [char_of (92::nat), c]
     else if 7 \<le> n \<and> n \<le> 13 then [char_of (92::nat), ''abtnvfr'' ! (n - 7)]
     else if n < 32 \<or> n = 127 then char_of (92::nat) # ''x'' @ [hex_digit (n div 16), hex_digit (n mod 16)]
     else [c])"

definition go_quote :: "string \<Rightarrow> string" where
  "go_quote s = char_of (34::nat) # concat (map quote_char s) @ [char_of (34::nat)]"

lemma split_on_not_Nil [gostr, simp]: "split_on c s \<noteq> []"
  by (induction s) (auto split: list.splits)

lemma join_with_Cons: "xs \<noteq> [] \<Longrightarrow> join_with sep (x # xs) = x @ sep @ join_with sep xs"
  by (cases xs) auto

lemma join_split [gostr]: "join_with [c] (split_on c s) = s"
proof (induction s)
  case Nil
  then show ?case by simp
next
  case (Cons x xs)
  obtain y ys where ys: "split_on c xs = y # ys"
    by (meson list.exhaust split_on_not_Nil)
  from Cons ys show ?case
    by (cases ys) (auto simp: join_with_Cons)
qed

lemma split_no_sep: "c \<notin> set s \<Longrightarrow> split_on c s = [s]"
  by (induction s) auto

lemma split_append_sep: "c \<notin> set s \<Longrightarrow> split_on c (s @ c # t) = s # split_on c t"
  by (induction s) auto

lemma split_join: "ls \<noteq> [] \<Longrightarrow> \<forall>l \<in> set ls. c \<notin> set l \<Longrightarrow> split_on c (join_with [c] ls) = ls"
proof (induction ls rule: induct_list012)
  case (2 x)
  then show ?case by (simp add: split_no_sep)
next
  case (3 x y zs)
  then show ?case by (simp add: split_append_sep)
qed simp

lemma split_parts_no_sep: "p \<in> set (split_on c s) \<Longrightarrow> c \<notin> set p"
proof (induction s arbitrary: p)
  case Nil
  then show ?case by simp
next
  case (Cons x xs)
  obtain y ys where ys: "split_on c xs = y # ys"
    by (meson list.exhaust split_on_not_Nil)
  from Cons ys show ?case by (auto split: if_splits)
qed

lemma cut_at_Some: "cut_at c s = Some (a, b) \<Longrightarrow> s = a @ c # b \<and> c \<notin> set a"
  by (induction s arbitrary: a b) (auto split: if_splits)

lemma cut_at_append [gostr, simp]: "c \<notin> set a \<Longrightarrow> cut_at c (a @ c # b) = Some (a, b)"
  by (induction a) auto

lemma cut_at_None [gostr]: "cut_at c s = None \<longleftrightarrow> c \<notin> set s"
  by (induction s) auto

lemma length_trim_space [gostr]: "length (trim_space s) \<le> length s"
proof -
  have "length (dropWhile is_space (rev (dropWhile is_space s))) \<le> length (rev (dropWhile is_space s))"
    by (rule length_dropWhile_le)
  also have "\<dots> \<le> length s" by (simp add: length_dropWhile_le)
  finally show ?thesis by (simp add: trim_space_def)
qed

lemma trim_space_id: "(s = [] \<or> \<not> is_space (hd s) \<and> \<not> is_space (last s)) \<Longrightarrow> trim_space s = s"
proof (cases "s = []")
  case False
  assume "s = [] \<or> \<not> is_space (hd s) \<and> \<not> is_space (last s)"
  with False have "dropWhile is_space s = s" "dropWhile is_space (rev s) = rev s"
    by (simp_all add: dropWhile_eq_self_iff hd_rev)
  then show ?thesis by (simp add: trim_space_def)
qed (simp add: trim_space_def)

lemma trim_space_ends:
  assumes "trim_space s \<noteq> []"
  shows "\<not> is_space (hd (trim_space s)) \<and> \<not> is_space (last (trim_space s))"
proof -
  let ?t = "dropWhile is_space s"
  let ?u = "dropWhile is_space (rev ?t)"
  have u: "?u \<noteq> []" using assms by (simp add: trim_space_def)
  have last: "\<not> is_space (last (trim_space s))"
    using hd_dropWhile [OF u] u by (simp add: trim_space_def last_rev)
  have t: "?t \<noteq> []" using u by (metis dropWhile.simps(1) rev.simps(1))
  obtain v where "rev ?t = v @ ?u" using takeWhile_dropWhile_id [of is_space "rev ?t"] by metis
  then have "?t = rev ?u @ rev v" by (metis rev_append rev_rev_ident)
  then have "hd (rev ?u) = hd ?t" using u by (metis hd_append2 rev_is_Nil_conv)
  then have "\<not> is_space (hd (trim_space s))"
    using hd_dropWhile [OF t] by (simp add: trim_space_def)
  with last show ?thesis by simp
qed

lemma trim_space_idem [gostr, simp]: "trim_space (trim_space s) = trim_space s"
  by (metis trim_space_ends trim_space_id)

lemma set_trim_space: "set (trim_space s) \<subseteq> set s"
  by (metis (no_types, lifting) set_dropWhileD set_rev subsetI trim_space_def)

lemma length_to_lower [gostr, simp]: "length (to_lower s) = length s"
  by (simp add: to_lower_def)

lemma to_lower_idem [gostr, simp]: "to_lower (to_lower s) = to_lower s"
  by (simp add: to_lower_def comp_def)

lemma has_suffix_append [gostr, simp]: "has_suffix (s @ p) p"
  by (simp add: has_suffix_def)

lemma has_suffix_iff: "has_suffix s p \<longleftrightarrow> (\<exists>t. s = t @ p)"
  by (metis append_take_drop_id has_suffix_append has_suffix_def)

lemma trim_suffix_append [gostr, simp]: "trim_suffix (s @ p) p = s"
  by (simp add: trim_suffix_def)

lemma has_prefix_append [gostr, simp]: "has_prefix (p @ s) p"
  by (simp add: has_prefix_def)

lemma has_prefix_iff: "has_prefix s p \<longleftrightarrow> (\<exists>t. s = p @ t)"
  by (metis append_take_drop_id has_prefix_append has_prefix_def)

lemma trim_prefix_append [gostr, simp]: "trim_prefix (p @ s) p = s"
  by (simp add: trim_prefix_def)

lemma str_contains_iff: "str_contains s p \<longleftrightarrow> (\<exists>a b. s = a @ p @ b)"
proof (induction s)
  case Nil
  then show ?case by auto
next
  case (Cons c s)
  have "(\<exists>a b. c # s = a @ p @ b) \<longleftrightarrow> (\<exists>b. c # s = p @ b) \<or> (\<exists>a b. s = a @ p @ b)"
    by (metis append_Cons append_Nil list.exhaust list.inject)
  with Cons show ?case by (simp add: has_prefix_iff)
qed

lemma str_contains_char: "str_contains s [c] \<longleftrightarrow> c \<in> set s"
  by (auto simp: str_contains_iff in_set_conv_decomp)

section \<open>Decimal numbers\<close>

text \<open>\<^verbatim>\<open>%d\<close> of a natural number, of an integer, and reading digits back.\<close>

fun itoa :: "nat \<Rightarrow> string" where
  "itoa n = (if n < 10 then [digit_char n] else itoa (n div 10) @ [digit_char (n mod 10)])"

declare itoa.simps [simp del]

definition itoa_int :: "int \<Rightarrow> string" where
  "itoa_int i = (if i < 0 then ''-'' @ itoa (nat (- i)) else itoa (nat i))"

definition digits_val :: "string \<Rightarrow> nat" where
  "digits_val s = foldl (\<lambda>n c. 10 * n + digit_val c) 0 s"

lemma itoa_small [dec, simp]: "n < 10 \<Longrightarrow> itoa n = [digit_char n]"
  by (simp add: itoa.simps)

lemma itoa_step: "10 \<le> n \<Longrightarrow> itoa n = itoa (n div 10) @ [digit_char (n mod 10)]"
  by (subst itoa.simps) simp

lemma itoa_snoc [dec]: "0 < n \<Longrightarrow> d < 10 \<Longrightarrow> itoa (10 * n + d) = itoa n @ [digit_char d]"
  by (subst itoa.simps) simp

lemma itoa_not_Nil [dec, simp]: "itoa n \<noteq> []"
  by (subst itoa.simps) simp

lemma itoa_digits [dec, simp]: "c \<in> set (itoa n) \<Longrightarrow> is_digit c"
proof (induction n rule: itoa.induct)
  case (1 n)
  then show ?case by (subst (asm) (2) itoa.simps) (auto split: if_splits)
qed

lemma digits_val_itoa [dec, simp]: "digits_val (itoa n) = n"
proof (induction n rule: itoa.induct)
  case (1 n)
  then show ?case
    by (subst itoa.simps) (auto simp: digits_val_def)
qed

lemma itoa_inject [dec, simp]: "itoa m = itoa n \<longleftrightarrow> m = n"
  by (metis digits_val_itoa)

lemma digit_char_eval [ev]:
  "digit_char 0 = CHR ''0''" "digit_char (Suc 0) = CHR ''1''" "digit_char 1 = CHR ''1''"
  "digit_char 2 = CHR ''2''" "digit_char 3 = CHR ''3''" "digit_char 4 = CHR ''4''"
  "digit_char 5 = CHR ''5''" "digit_char 6 = CHR ''6''" "digit_char 7 = CHR ''7''"
  "digit_char 8 = CHR ''8''" "digit_char 9 = CHR ''9''"
  by code_simp+

lemmas string_eval [ev] = itoa_step is_digit_def digit_val_def is_space_def is_lower_def is_upper_def
  lower_char_def trim_space_def to_lower_def has_prefix_def has_suffix_def trim_prefix_def
  trim_suffix_def rune_count_def itoa_int_def hex_digit_def quote_char_def go_quote_def

lemmas chr_eval = char_of_def bit_Suc_0_iff Let_def

lemma is_digit_no_dot [dec, simp]: "is_digit c \<Longrightarrow> c \<noteq> CHR ''.''"
  by (auto simp: is_digit_def)

lemma dot_notin_itoa [dec, simp]: "CHR ''.'' \<notin> set (itoa n)"
  using is_digit_no_dot itoa_digits by blast

end
