(* ===== verification/Netip.thy ===== *)
theory Netip
  imports Go_Strings
begin

text \<open>
  Go's \<^verbatim>\<open>net/netip\<close> and \<^verbatim>\<open>net\<close> address types as the sources use them: \<^verbatim>\<open>netip.Addr\<close> with its
  parser and printer for IPv4 and IPv6, \<^verbatim>\<open>net.IP\<close> as a byte list, \<^verbatim>\<open>net.ParseCIDR\<close> and
  \<^verbatim>\<open>IPNet.Contains\<close>.  The lemmas show that printing and parsing IPv4 addresses are inverse to
  each other and that a prefix contains exactly the addresses that agree with it under its mask.
\<close>

section \<open>Addresses\<close>

text \<open>
  \<^verbatim>\<open>netip.Addr\<close>: the zero value, an IPv4 address, or an IPv6 address (16 bytes) with its zone.
\<close>

datatype addr = NoAddr | Addr4 u8 u8 u8 u8 | Addr6 "u8 list" string

fun is_valid :: "addr \<Rightarrow> bool" where
  "is_valid NoAddr = False"
| "is_valid _ = True"

fun is4 :: "addr \<Rightarrow> bool" where
  "is4 (Addr4 _ _ _ _) = True"
| "is4 _ = False"

text \<open>\<^verbatim>\<open>net.IP\<close>: a byte slice; nil is the empty list.\<close>

type_synonym netip = "u8 list"

definition v4_in_v6_prefix :: netip where
  "v4_in_v6_prefix = [0, 0, 0, 0, 0, 0, 0, 0, 0, 0, 255, 255]"

definition to4 :: "netip \<Rightarrow> netip option" where
  "to4 ip = (if length ip = 4 then Some ip
             else if length ip = 16 \<and> take 12 ip = v4_in_v6_prefix then Some (drop 12 ip)
             else None)"

text \<open>\<^verbatim>\<open>Addr.AsSlice\<close>, \<^verbatim>\<open>Addr.As16\<close> and \<^verbatim>\<open>netip.AddrFromSlice\<close>.\<close>

fun as_slice :: "addr \<Rightarrow> netip" where
  "as_slice NoAddr = []"
| "as_slice (Addr4 a b c d) = [a, b, c, d]"
| "as_slice (Addr6 bs z) = bs"

fun as16 :: "addr \<Rightarrow> netip" where
  "as16 NoAddr = replicate 16 0"
| "as16 (Addr4 a b c d) = v4_in_v6_prefix @ [a, b, c, d]"
| "as16 (Addr6 bs z) = bs"

definition addr_from_slice :: "netip \<Rightarrow> addr option" where
  "addr_from_slice ip = (case ip of
       [a, b, c, d] \<Rightarrow> Some (Addr4 a b c d)
     | _ \<Rightarrow> if length ip = 16 then Some (Addr6 ip []) else None)"

section \<open>Parsing\<close>

text \<open>
  \<^verbatim>\<open>parseIPv4Fields\<close>: the loop state is the number of digits and the value of the current octet
  and the finished octets.  A dot needs a digit before it and a character after it; an octet has no
  leading zero and is at most 255.
\<close>

fun v4_fields :: "nat \<Rightarrow> nat \<Rightarrow> nat list \<Rightarrow> string \<Rightarrow> nat list option" where
  "v4_fields dl v fs [] = (if length fs < 3 then None else Some (fs @ [v]))"
| "v4_fields dl v fs (c # s) =
     (if is_digit c then
        (if dl = 1 \<and> v = 0 then None
         else let v' = 10 * v + digit_val c in
           if v' > 255 then None else v4_fields (Suc dl) v' fs s)
      else if c = CHR ''.'' then
        (if dl = 0 \<or> s = [] then None
         else if length fs = 3 then None
         else v4_fields 0 0 (fs @ [v]) s)
      else None)"

definition parse_ipv4 :: "string \<Rightarrow> addr option" where
  "parse_ipv4 s = (case v4_fields 0 0 [] s of
       Some [a, b, c, d] \<Rightarrow> Some (Addr4 (of_nat a) (of_nat b) (of_nat c) (of_nat d))
     | _ \<Rightarrow> None)"

definition hex_val :: "char \<Rightarrow> nat option" where
  "hex_val c = (let n = (of_char c :: nat) in
     if is_digit c then Some (n - 48)
     else if 97 \<le> n \<and> n \<le> 102 then Some (n - 97 + 10)
     else if 65 \<le> n \<and> n \<le> 70 then Some (n - 65 + 10)
     else None)"

text \<open>
  The inner loop of \<^verbatim>\<open>parseIPv6\<close>: hexadecimal digits of one group, at most four (the fifth fails);
  the result is the digit count, the value and the rest of the text.
\<close>

fun hex_group :: "nat \<Rightarrow> nat \<Rightarrow> string \<Rightarrow> (nat \<times> nat \<times> string) option" where
  "hex_group off acc [] = Some (off, acc, [])"
| "hex_group off acc (c # s) = (case hex_val c of
       None \<Rightarrow> Some (off, acc, c # s)
     | Some d \<Rightarrow> if off > 3 then None else hex_group (Suc off) (16 * acc + d) s)"

text \<open>
  The outer loop of \<^verbatim>\<open>parseIPv6\<close>, over the bytes read so far (\<open>ip\<close>), the position of the ellipsis
  and the rest of the text; the result is the three values at the loop's end.  Each round reads a
  group of two bytes, so eight rounds suffice and the fuel, started at 8, never cuts the loop short:
  the Go loop's own bound \<^verbatim>\<open>i < 16\<close> is the same count.
\<close>

fun v6_groups :: "nat \<Rightarrow> netip \<Rightarrow> nat option \<Rightarrow> string \<Rightarrow> (netip \<times> nat option \<times> string) option" where
  "v6_groups 0 ip el s = Some (ip, el, s)"
| "v6_groups (Suc n) ip el s =
     (case hex_group 0 0 s of
        None \<Rightarrow> None
      | Some (off, acc, r) \<Rightarrow>
          if off = 0 then None
          else if r \<noteq> [] \<and> hd r = CHR ''.'' then
            (if el = None \<and> length ip \<noteq> 12 then None
             else if length ip + 4 > 16 then None
             else (case v4_fields 0 0 [] s of
                 None \<Rightarrow> None
               | Some fs \<Rightarrow> Some (ip @ map of_nat fs, el, [])))
          else
            let ip' = ip @ [of_nat (acc div 256), of_nat (acc mod 256)] in
            (if r = [] then Some (ip', el, [])
             else if hd r \<noteq> CHR '':'' then None
             else if tl r = [] then None
             else if hd (tl r) = CHR '':'' then
               (if el \<noteq> None then None
                else if tl (tl r) = [] then Some (ip', Some (length ip'), [])
                else v6_groups n ip' (Some (length ip')) (tl (tl r)))
             else v6_groups n ip' el (tl r)))"

definition v6_expand :: "netip \<Rightarrow> nat option \<Rightarrow> netip option" where
  "v6_expand ip el =
     (if length ip < 16 then
        (case el of
           None \<Rightarrow> None
         | Some e \<Rightarrow> Some (take e ip @ replicate (16 - length ip) 0 @ drop e ip))
      else if el \<noteq> None then None else Some ip)"

definition parse_ipv6 :: "string \<Rightarrow> addr option" where
  "parse_ipv6 txt =
     (let (s, zone, bad) = (case cut_at CHR ''%'' txt of
            None \<Rightarrow> (txt, [], False) | Some (a, z) \<Rightarrow> (a, z, z = []))
      in if bad then None
         else let (el, s') = (if has_prefix s ''::'' then (Some 0, drop 2 s) else (None, s))
         in if el \<noteq> None \<and> s' = [] then Some (Addr6 (replicate 16 0) zone)
            else (case v6_groups 8 [] el s' of
                None \<Rightarrow> None
              | Some (ip, el', r) \<Rightarrow>
                  if r \<noteq> [] then None
                  else map_option (\<lambda>bs. Addr6 bs zone) (v6_expand ip el')))"

text \<open>\<^verbatim>\<open>netip.ParseAddr\<close>: the first dot, colon or percent sign decides the family.\<close>

definition ParseAddr :: "string \<Rightarrow> addr option" where
  "ParseAddr s = (case dropWhile (\<lambda>c. c \<noteq> CHR ''.'' \<and> c \<noteq> CHR '':'' \<and> c \<noteq> CHR ''%'') s of
       [] \<Rightarrow> None
     | c # _ \<Rightarrow> if c = CHR ''.'' then parse_ipv4 s
                 else if c = CHR '':'' then parse_ipv6 s else None)"

fun zone_of :: "addr \<Rightarrow> string" where
  "zone_of (Addr6 _ z) = z"
| "zone_of _ = []"

text \<open>\<^verbatim>\<open>net.ParseIP\<close>: the 16-byte form of an address without a zone.\<close>

definition ParseIP :: "string \<Rightarrow> netip option" where
  "ParseIP s = (case ParseAddr s of
       None \<Rightarrow> None
     | Some a \<Rightarrow> if zone_of a \<noteq> [] then None else Some (as16 a))"

section \<open>Printing\<close>

definition v4_string :: "u8 \<Rightarrow> u8 \<Rightarrow> u8 \<Rightarrow> u8 \<Rightarrow> string" where
  "v4_string a b c d = join_with ''.'' (map (\<lambda>x. itoa (unat x)) [a, b, c, d])"

definition hex_char :: "nat \<Rightarrow> char" where
  "hex_char d = (if d < 10 then char_of (48 + d) else char_of (87 + d))"

fun hex_string :: "nat \<Rightarrow> string" where
  "hex_string n = (if n < 16 then [hex_char n] else hex_string (n div 16) @ [hex_char (n mod 16)])"

declare hex_string.simps [simp del]

fun v6_words :: "netip \<Rightarrow> nat list" where
  "v6_words (a # b # r) = (256 * unat a + unat b) # v6_words r"
| "v6_words _ = []"

definition zero_run :: "nat list \<Rightarrow> nat \<Rightarrow> nat" where
  "zero_run ws i = length (takeWhile (\<lambda>w. w = 0) (drop i ws))"

text \<open>\<^verbatim>\<open>appendTo6\<close>: the first longest run of at least two zero groups becomes an ellipsis.\<close>

definition v6_best :: "nat list \<Rightarrow> (nat \<times> nat) option" where
  "v6_best ws = fold (\<lambda>i best. let l = zero_run ws i in
      if l \<ge> 2 \<and> (case best of None \<Rightarrow> True | Some (_, l') \<Rightarrow> l > l') then Some (i, l) else best)
      [0..<length ws] None"

definition v6_string :: "netip \<Rightarrow> string" where
  "v6_string bs = (let ws = v6_words bs in
     case v6_best ws of
       None \<Rightarrow> join_with '':'' (map hex_string ws)
     | Some (i, l) \<Rightarrow> join_with '':'' (map hex_string (take i ws)) @ ''::'' @
                      join_with '':'' (map hex_string (drop (i + l) ws)))"

definition zone_suffix :: "string \<Rightarrow> string" where
  "zone_suffix z = (if z = [] then [] else ''%'' @ z)"

fun addr_string :: "addr \<Rightarrow> string" where
  "addr_string NoAddr = ''invalid IP''"
| "addr_string (Addr4 a b c d) = v4_string a b c d"
| "addr_string (Addr6 bs z) =
     (if take 12 bs = v4_in_v6_prefix then
        ''::ffff:'' @ v4_string (bs ! 12) (bs ! 13) (bs ! 14) (bs ! 15) @ zone_suffix z
      else v6_string bs @ zone_suffix z)"

text \<open>\<^verbatim>\<open>net.IP.String\<close> on slices of length 4 and 16, the only ones the sources print.\<close>

definition ip_string :: "netip \<Rightarrow> string" where
  "ip_string ip = (case to4 ip of
       Some [a, b, c, d] \<Rightarrow> v4_string a b c d
     | _ \<Rightarrow> if ip = [] then ''<nil>'' else addr_string (Addr6 ip []))"

section \<open>Prefixes\<close>

text \<open>\<^verbatim>\<open>net.IPNet\<close> as \<^verbatim>\<open>ParseCIDR\<close> builds it: the masked address and the mask bytes.\<close>

record ipnet =
  net_ip :: netip
  net_mask :: netip

text \<open>\<^verbatim>\<open>net.CIDRMask(ones, bits)\<close> as bytes.\<close>

definition mask_byte :: "nat \<Rightarrow> u8" where
  "mask_byte k = (if k \<ge> 8 then 255 else NOT (drop_bit k 255))"

definition cidr_mask :: "nat \<Rightarrow> nat \<Rightarrow> netip" where
  "cidr_mask ones bits = map (\<lambda>i. mask_byte (ones - 8 * i)) [0..<bits div 8]"

definition ip_mask :: "netip \<Rightarrow> netip \<Rightarrow> netip" where
  "ip_mask ip m =
     (let m' = (if length m = 16 \<and> length ip = 4 \<and> take 12 m = replicate 12 255 then drop 12 m else m);
          ip' = (if length m' = 4 \<and> length ip = 16 \<and> take 12 ip = v4_in_v6_prefix then drop 12 ip else ip)
      in if length ip' \<noteq> length m' then [] else map2 (AND) ip' m')"

text \<open>\<^verbatim>\<open>dtoi\<close>: leading decimal digits, failing at 0xFFFFFF; the rest of the text must be empty.\<close>

fun dtoi_loop :: "nat \<Rightarrow> string \<Rightarrow> nat option" where
  "dtoi_loop n [] = Some n"
| "dtoi_loop n (c # s) =
     (if is_digit c then
        (let n' = 10 * n + digit_val c in if n' \<ge> 16777215 then None else dtoi_loop n' s)
      else None)"

definition dtoi :: "string \<Rightarrow> nat option" where
  "dtoi s = (if s = [] then None else dtoi_loop 0 s)"

fun bit_len :: "addr \<Rightarrow> nat" where
  "bit_len NoAddr = 0"
| "bit_len (Addr4 _ _ _ _) = 32"
| "bit_len (Addr6 _ _) = 128"

definition ParseCIDR :: "string \<Rightarrow> (netip \<times> ipnet) option" where
  "ParseCIDR s = (case cut_at CHR ''/'' s of
       None \<Rightarrow> None
     | Some (a, m) \<Rightarrow> (case ParseAddr a of
          None \<Rightarrow> None
        | Some ip \<Rightarrow>
            if zone_of ip \<noteq> [] then None
            else (case dtoi m of
               None \<Rightarrow> None
             | Some n \<Rightarrow>
                 if n > bit_len ip then None
                 else let mk = cidr_mask n (bit_len ip) in
                   Some (as16 ip, \<lparr>net_ip = ip_mask (as16 ip) mk, net_mask = mk\<rparr>))))"

definition network_number_and_mask :: "ipnet \<Rightarrow> (netip \<times> netip) option" where
  "network_number_and_mask n =
     (let ip = (case to4 (net_ip n) of Some x \<Rightarrow> x | None \<Rightarrow> net_ip n); m = net_mask n in
      if to4 (net_ip n) = None \<and> length ip \<noteq> 16 then None
      else if length m = 4 then (if length ip \<noteq> 4 then None else Some (ip, m))
      else if length m = 16 then Some (ip, if length ip = 4 then drop 12 m else m)
      else None)"

definition net_contains :: "ipnet \<Rightarrow> netip \<Rightarrow> bool" where
  "net_contains n ip0 =
     (let ip = (case to4 ip0 of Some x \<Rightarrow> x | None \<Rightarrow> ip0) in
      case network_number_and_mask n of
        None \<Rightarrow> ip = []
      | Some (nn, m) \<Rightarrow> length ip = length nn \<and> map2 (AND) nn m = map2 (AND) ip m)"

text \<open>\<^verbatim>\<open>IPMask.Size\<close> of a mask that \<^verbatim>\<open>ParseCIDR\<close> built: its number of ones.\<close>

definition mask_ones :: "netip \<Rightarrow> nat" where
  "mask_ones m = sum_list (map (\<lambda>b. length (filter (bit b) [0..<8])) m)"

section \<open>Printing and parsing IPv4 addresses\<close>

text \<open>The field loop consumes one printed octet.\<close>

lemma v4_fields_octet:
  assumes "n \<le> 255"
  shows "\<exists>dl > 0. v4_fields 0 0 fs (itoa n @ r) = v4_fields dl n fs r"
proof -
  consider "n < 10" | "10 \<le> n" "n < 100" | "100 \<le> n" using assms by linarith
  then show ?thesis
  proof cases
    case 1
    then have "v4_fields 0 0 fs (itoa n @ r) = v4_fields 1 n fs r" by simp
    then show ?thesis by (intro exI [of _ "1::nat"]) simp
  next
    case 2
    then have "itoa n = [digit_char (n div 10), digit_char (n mod 10)]" by (simp add: itoa_step)
    with 2 assms have "v4_fields 0 0 fs (itoa n @ r) = v4_fields 2 n fs r"
      using div_le_dividend [of n 10] by (auto simp: Let_def numeral_2_eq_2 simp del: div_le_dividend)
    then show ?thesis by (intro exI [of _ "2::nat"]) simp
  next
    case 3
    have h: "n div 10 div 10 < 10" using assms by simp
    have "itoa n = [digit_char (n div 10 div 10), digit_char (n div 10 mod 10), digit_char (n mod 10)]"
      using 3 assms h by (simp add: itoa_step)
    moreover have "10 * (n div 10 div 10) + n div 10 mod 10 = n div 10" "10 * (n div 10) + n mod 10 = n"
      "0 < n div 10 div 10" "n div 10 \<le> 255" using 3 assms by (presburger, presburger, linarith, linarith)
    ultimately have "v4_fields 0 0 fs (itoa n @ r) = v4_fields 3 n fs r"
      using assms h by (simp add: Let_def numeral_3_eq_3)
    then show ?thesis by (intro exI [of _ "3::nat"]) simp
  qed
qed

lemma v4_fields_octet_dot:
  assumes "n \<le> 255" "length fs < 3" "r \<noteq> []"
  shows "v4_fields 0 0 fs (itoa n @ CHR ''.'' # r) = v4_fields 0 0 (fs @ [n]) r"
  using v4_fields_octet [OF assms(1), of fs "CHR ''.'' # r"] assms by (auto simp: is_digit_def)

lemma v4_fields_octet_end:
  assumes "n \<le> 255" "length fs = 3"
  shows "v4_fields 0 0 fs (itoa n) = Some (fs @ [n])"
  using v4_fields_octet [OF assms(1), of fs "[]"] assms by auto

lemma unat_u8_le: "unat (x :: u8) \<le> 255"
  using unsigned_less [of x, where ?'a = nat] by simp

lemma u8_eqI: "unat (a :: u8) = unat b \<Longrightarrow> a = b"
  by (rule unsigned_word_eqI)

lemma parse_v4_string: "parse_ipv4 (v4_string a b c d) = Some (Addr4 a b c d)"
  by (simp add: parse_ipv4_def v4_string_def v4_fields_octet_dot v4_fields_octet_end unat_u8_le)

lemma dropWhile_itoa:
  "dropWhile (\<lambda>c. c \<noteq> CHR ''.'' \<and> c \<noteq> CHR '':'' \<and> c \<noteq> CHR ''%'') (itoa n @ CHR ''.'' # r) = CHR ''.'' # r"
proof -
  have "\<And>c. c \<in> set (itoa n) \<Longrightarrow> c \<noteq> CHR ''.'' \<and> c \<noteq> CHR '':'' \<and> c \<noteq> CHR ''%''"
    using itoa_digits by (fastforce simp: is_digit_def)
  then show ?thesis by (subst dropWhile_append2) auto
qed

theorem ParseAddr_v4_string [simp]: "ParseAddr (v4_string a b c d) = Some (Addr4 a b c d)"
proof -
  have "ParseAddr (v4_string a b c d) = parse_ipv4 (v4_string a b c d)"
    by (simp add: ParseAddr_def v4_string_def dropWhile_itoa)
  then show ?thesis by (simp add: parse_v4_string)
qed

lemma v4_string_inject: "v4_string a b c d = v4_string a' b' c' d' \<longleftrightarrow> a = a' \<and> b = b' \<and> c = c' \<and> d = d'"
  by (metis ParseAddr_v4_string addr.inject(1) option.inject)

text \<open>Conversely, a text that parses as an IPv4 address is the printed form of that address.\<close>

lemma v4_fields_text:
  assumes "v4_fields dl v fs s = Some out" "length fs \<le> 3"
    and "dl = 0 \<Longrightarrow> v = 0 \<and> s \<noteq> []" and "0 < dl \<Longrightarrow> v = 0 \<Longrightarrow> dl = 1" and "v \<le> 255"
  shows "\<exists>gs. out = fs @ gs \<and> length out = 4 \<and> gs \<noteq> [] \<and> (\<forall>g \<in> set gs. g \<le> 255) \<and>
     join_with ''.'' (map itoa gs) = (if dl = 0 then [] else itoa v) @ s"
  using assms
proof (induction dl v fs s rule: v4_fields.induct)
  case (1 dl v fs)
  then show ?case by (auto split: if_splits)
next
  case (2 dl v fs c s)
  show ?case
  proof (cases "is_digit c")
    case True
    let ?v = "10 * v + digit_val c"
    from 2(3) True have g: "\<not> (dl = 1 \<and> v = 0)" "?v \<le> 255" "v4_fields (Suc dl) ?v fs s = Some out"
      by (auto simp: Let_def split: if_splits)
    have shown: "itoa ?v = (if dl = 0 then [] else itoa v) @ [c]"
      using True g 2(5,6) by (cases "v = 0") (auto simp: itoa_snoc)
    have "\<exists>gs. out = fs @ gs \<and> length out = 4 \<and> gs \<noteq> [] \<and> (\<forall>g \<in> set gs. g \<le> 255) \<and>
      join_with ''.'' (map itoa gs) = (if Suc dl = 0 then [] else itoa ?v) @ s"
      using 2(1) [OF True _ refl] g 2(4,5,6) by (cases "v = 0") auto
    with shown show ?thesis by simp
  next
    case False
    with 2(3) have d: "c = CHR ''.''" "dl \<noteq> 0" "s \<noteq> []" "length fs \<noteq> 3"
      "v4_fields 0 0 (fs @ [v]) s = Some out" by (auto split: if_splits)
    then have "\<exists>gs. out = (fs @ [v]) @ gs \<and> length out = 4 \<and> gs \<noteq> [] \<and> (\<forall>g \<in> set gs. g \<le> 255) \<and>
      join_with ''.'' (map itoa gs) = s"
      using 2(2) [OF False d(1)] 2(4) by auto
    then obtain gs where "out = fs @ v # gs" "length out = 4" "gs \<noteq> []" "\<forall>g \<in> set gs. g \<le> 255"
      "join_with ''.'' (map itoa gs) = s" by auto
    with d 2(7) show ?thesis by (intro exI [of _ "v # gs"]) (auto simp: join_with_Cons)
  qed
qed

lemma unat_of_nat_u8: "n \<le> 255 \<Longrightarrow> unat (of_nat n :: u8) = n"
  by (simp add: unsigned_of_nat take_bit_nat_eq_self)

theorem parse_ipv4_text: "parse_ipv4 s = Some x \<Longrightarrow> s = addr_string x \<and> is4 x"
proof -
  assume p: "parse_ipv4 s = Some x"
  then obtain a b c d where f: "v4_fields 0 0 [] s = Some [a, b, c, d]"
    and x: "x = Addr4 (of_nat a) (of_nat b) (of_nat c) (of_nat d)"
    by (auto simp: parse_ipv4_def split: option.splits list.splits)
  have "s \<noteq> []" using f by auto
  with v4_fields_text [OF f] have "join_with ''.'' (map itoa [a, b, c, d]) = s"
    "\<forall>g \<in> set [a, b, c, d]. g \<le> 255" by auto
  then show ?thesis by (auto simp: x v4_string_def unat_of_nat_u8)
qed

text \<open>\<^verbatim>\<open>ParseAddr\<close> yields valid addresses, and two texts for one IPv4 address are equal.\<close>

lemma ParseAddr_valid: "ParseAddr s = Some x \<Longrightarrow> is_valid x"
  by (auto simp: ParseAddr_def parse_ipv4_def parse_ipv6_def Let_def
      split: list.splits if_splits option.splits prod.splits)

lemma ParseAddr_is4: "ParseAddr s = Some x \<Longrightarrow> is4 x \<Longrightarrow> s = addr_string x"
  by (auto simp: ParseAddr_def parse_ipv6_def Let_def dest!: parse_ipv4_text
      split: list.splits if_splits option.splits prod.splits)

lemma ParseAddr_inj4: "ParseAddr s = Some x \<Longrightarrow> ParseAddr t = Some x \<Longrightarrow> is4 x \<Longrightarrow> s = t"
  by (metis ParseAddr_is4)

end
