(* ===== verification/Policy.thy ===== *)
theory Policy
  imports Netip
begin

text \<open>
  Package \<^verbatim>\<open>domain/policy\<close>: from peers, groups, group links and service maps to the portable access
  policy.  The main result says which destinations end up on a peer's block list: exactly the peers
  its group may not open traffic to and exactly the map addresses its group is not allowed to use.
\<close>

section \<open>Data\<close>

record PeerEndpoint =
  pe_ID :: nat
  pe_Name :: string
  pe_DNSName :: string
  pe_WGIP :: string
  pe_GroupID :: nat
  pe_Enabled :: bool

record GroupAccess =
  ga_ID :: nat
  ga_AllowIntraGroup :: bool

text \<open>The lookup table of \<^verbatim>\<open>GroupAccessPolicy\<close>; \<open>None\<close> is the nil map.\<close>

record GroupAccessPolicy =
  gap_byID :: "(nat, bool) gomap option"

record GroupLinkPair =
  gl_From :: nat
  gl_To :: nat
  gl_Bidirectional :: bool

record MapAccess =
  ma_VirtualIP :: string
  ma_AllowedGroupIDs :: "nat goset"

record MapAccessPolicy =
  map_byVIP :: "(addr, MapAccess) gomap option"

record TransparentPeer =
  tp_WGIP :: addr
  tp_GroupID :: nat

record TransparentSpec =
  ts_Peers :: "TransparentPeer list"
  ts_UniLinks :: "GroupLinkPair list"

record AccessPolicySpec =
  ap_Blocked :: "(addr, addr list) gomap"
  ap_Transparent :: TransparentSpec

section \<open>Groups and links\<close>

definition NewGroupAccessPolicy :: "GroupAccess list \<Rightarrow> GroupAccessPolicy" where
  "NewGroupAccessPolicy groups =
     \<lparr>gap_byID = Some (fold (\<lambda>g. mput (ga_ID g) (ga_AllowIntraGroup g)) groups [])\<rparr>"

definition AllowsIntraGroup :: "GroupAccessPolicy \<Rightarrow> nat \<Rightarrow> bool" where
  "AllowsIntraGroup p groupID =
     (if groupID = 0 then False
      else case gap_byID p of
        None \<Rightarrow> True
      | Some m \<Rightarrow> (case mget m groupID of Some allow \<Rightarrow> allow | None \<Rightarrow> True))"

fun findLinkBetween :: "nat \<Rightarrow> nat \<Rightarrow> GroupLinkPair list \<Rightarrow> GroupLinkPair option" where
  "findLinkBetween a b [] = None"
| "findLinkBetween a b (l # links) =
     (if gl_Bidirectional l then
        (if gl_From l = a \<and> gl_To l = b \<or> gl_From l = b \<and> gl_To l = a then Some l
         else findLinkBetween a b links)
      else if gl_From l = a \<and> gl_To l = b then Some l
      else if gl_From l = b \<and> gl_To l = a then Some l
      else findLinkBetween a b links)"

fun link_loop :: "nat \<Rightarrow> nat \<Rightarrow> GroupLinkPair list \<Rightarrow> bool" where
  "link_loop from to [] = False"
| "link_loop from to (l # links) =
     (if gl_Bidirectional l then
        (if gl_From l = from \<and> gl_To l = to \<or> gl_From l = to \<and> gl_To l = from then True
         else link_loop from to links)
      else if gl_From l = from \<and> gl_To l = to then True
      else link_loop from to links)"

definition LinkAllowsInit :: "nat \<Rightarrow> nat \<Rightarrow> GroupLinkPair list \<Rightarrow> GroupAccessPolicy \<Rightarrow> bool" where
  "LinkAllowsInit fromGroup toGroup links groups =
     (if fromGroup = 0 \<or> toGroup = 0 then False
      else if fromGroup = toGroup then AllowsIntraGroup groups fromGroup
      else link_loop fromGroup toGroup links)"

definition GroupsCanAccess :: "nat \<Rightarrow> nat \<Rightarrow> GroupLinkPair list \<Rightarrow> GroupAccessPolicy \<Rightarrow> bool" where
  "GroupsCanAccess a b links groups = (LinkAllowsInit a b links groups \<or> LinkAllowsInit b a links groups)"

definition allowDirectPeerIP ::
    "PeerEndpoint \<Rightarrow> PeerEndpoint \<Rightarrow> GroupLinkPair list \<Rightarrow> GroupAccessPolicy \<Rightarrow> bool" where
  "allowDirectPeerIP p q links groups =
     (if pe_GroupID p = 0 \<or> pe_GroupID q = 0 then False
      else if pe_GroupID p = pe_GroupID q then AllowsIntraGroup groups (pe_GroupID p)
      else case findLinkBetween (pe_GroupID p) (pe_GroupID q) links of
        None \<Rightarrow> False | Some l \<Rightarrow> gl_Bidirectional l)"

definition needsTransparentRelay ::
    "PeerEndpoint \<Rightarrow> PeerEndpoint \<Rightarrow> GroupLinkPair list \<Rightarrow> GroupAccessPolicy \<Rightarrow> bool" where
  "needsTransparentRelay p q links groups =
     (if pe_GroupID p = 0 \<or> pe_GroupID q = 0 \<or> pe_GroupID p = pe_GroupID q then False
      else if \<not> LinkAllowsInit (pe_GroupID p) (pe_GroupID q) links groups then False
      else \<not> allowDirectPeerIP p q links groups)"

section \<open>Map access\<close>

definition NewMapAccessPolicy :: "MapAccess list \<Rightarrow> MapAccessPolicy" where
  "NewMapAccessPolicy maps =
     \<lparr>map_byVIP = Some (fold (\<lambda>r m. case ParseAddr (ma_VirtualIP r) of
          None \<Rightarrow> m
        | Some a \<Rightarrow> if \<not> is_valid a then m else mput a r m) maps [])\<rparr>"

definition PeerMayAccessMap :: "MapAccessPolicy \<Rightarrow> nat \<Rightarrow> addr \<Rightarrow> bool" where
  "PeerMayAccessMap p peerGroupID vip =
     (if peerGroupID = 0 \<or> \<not> is_valid vip then False
      else case map_byVIP p of None \<Rightarrow> False
      | Some m \<Rightarrow> (case mget m vip of None \<Rightarrow> False
         | Some r \<Rightarrow> if ma_AllowedGroupIDs r = [] then False
                     else peerGroupID \<in> set (ma_AllowedGroupIDs r)))"

definition AllowedGroupIDSet :: "nat list \<Rightarrow> nat goset" where
  "AllowedGroupIDSet ids =
     (if ids = [] then [] else fold (\<lambda>i out. if i = 0 then out else List.insert i out) ids [])"

definition NewMapAccess :: "string \<Rightarrow> nat list \<Rightarrow> MapAccess" where
  "NewMapAccess virtualIP allowedGroupIDs =
     \<lparr>ma_VirtualIP = virtualIP, ma_AllowedGroupIDs = AllowedGroupIDSet allowedGroupIDs\<rparr>"

definition GroupInAllowedSet :: "nat goset \<Rightarrow> nat \<Rightarrow> bool" where
  "GroupInAllowedSet allowed groupID =
     (if groupID = 0 \<or> allowed = [] then False else groupID \<in> set allowed)"

section \<open>The specification built for the data plane\<close>

definition BuildTransparentSpec :: "PeerEndpoint list \<Rightarrow> GroupLinkPair list \<Rightarrow> TransparentSpec" where
  "BuildTransparentSpec peers links =
     \<lparr>ts_Peers = concat (map (\<lambda>p. if \<not> pe_Enabled p \<or> pe_GroupID p = 0 then []
          else case ParseAddr (pe_WGIP p) of None \<Rightarrow> []
            | Some ip \<Rightarrow> [\<lparr>tp_WGIP = ip, tp_GroupID = pe_GroupID p\<rparr>]) peers),
      ts_UniLinks = filter (\<lambda>l. \<not> gl_Bidirectional l) links\<rparr>"

text \<open>The two inner loops of \<^verbatim>\<open>BuildAccessPolicySpec\<close>: what peer \<open>p\<close> must not reach.\<close>

definition blocked_for ::
    "PeerEndpoint list \<Rightarrow> GroupLinkPair list \<Rightarrow> GroupAccessPolicy \<Rightarrow> MapAccessPolicy \<Rightarrow> PeerEndpoint \<Rightarrow> addr list" where
  "blocked_for peers links groups maps p =
     concat (map (\<lambda>q.
       if \<not> pe_Enabled q \<or> pe_ID q = pe_ID p \<or> pe_GroupID q = 0 then []
       else case ParseAddr (pe_WGIP q) of
         None \<Rightarrow> []
       | Some toIP \<Rightarrow>
           if allowDirectPeerIP p q links groups then []
           else if needsTransparentRelay p q links groups then []
           else if LinkAllowsInit (pe_GroupID p) (pe_GroupID q) links groups then []
           else [toIP]) peers) @
     filter (\<lambda>vip. \<not> PeerMayAccessMap maps (pe_GroupID p) vip)
       (case map_byVIP maps of None \<Rightarrow> [] | Some m \<Rightarrow> map fst m)"

text \<open>One turn of the outer loop.\<close>

definition add_blocked ::
    "PeerEndpoint list \<Rightarrow> GroupLinkPair list \<Rightarrow> GroupAccessPolicy \<Rightarrow> MapAccessPolicy \<Rightarrow> PeerEndpoint \<Rightarrow>
     (addr, addr list) gomap \<Rightarrow> (addr, addr list) gomap" where
  "add_blocked peers links groups maps p m =
     (if \<not> pe_Enabled p \<or> pe_GroupID p = 0 then m
      else case ParseAddr (pe_WGIP p) of
        None \<Rightarrow> m
      | Some fromIP \<Rightarrow>
          let blocked = blocked_for peers links groups maps p in
          if blocked \<noteq> [] then mput fromIP blocked m else m)"

definition BuildAccessPolicySpec ::
    "PeerEndpoint list \<Rightarrow> GroupLinkPair list \<Rightarrow> GroupAccessPolicy \<Rightarrow> MapAccessPolicy \<Rightarrow> err + AccessPolicySpec" where
  "BuildAccessPolicySpec peers links groups maps =
     Inr \<lparr>ap_Blocked = fold (add_blocked peers links groups maps) peers [],
          ap_Transparent = BuildTransparentSpec peers links\<rparr>"

section \<open>Links\<close>

lemma link_loop_iff:
  "link_loop a b links \<longleftrightarrow>
     (\<exists>l \<in> set links. gl_From l = a \<and> gl_To l = b \<or> gl_Bidirectional l \<and> gl_From l = b \<and> gl_To l = a)"
  by (induction links) auto

lemma LinkAllowsInit_iff:
  "LinkAllowsInit a b links gs \<longleftrightarrow> a \<noteq> 0 \<and> b \<noteq> 0 \<and>
     (if a = b then AllowsIntraGroup gs a
      else \<exists>l \<in> set links. gl_From l = a \<and> gl_To l = b \<or> gl_Bidirectional l \<and> gl_From l = b \<and> gl_To l = a)"
  by (simp add: LinkAllowsInit_def link_loop_iff)

lemma findLinkBetween_find:
  "findLinkBetween a b links = find (\<lambda>l. gl_From l = a \<and> gl_To l = b \<or> gl_From l = b \<and> gl_To l = a) links"
proof (induction links)
  case Nil
  show ?case by simp
next
  case (Cons l links)
  show ?case
    unfolding findLinkBetween.simps(2) find.simps(2) Cons.IH
    by (cases "gl_Bidirectional l"; cases "gl_From l = a"; cases "gl_To l = b"; cases "gl_From l = b"; cases "gl_To l = a")
      (simp_all only: simp_thms if_True if_False HOL.if_cancel)
qed

lemma findLinkBetween_sym: "findLinkBetween a b links = findLinkBetween b a links"
  unfolding findLinkBetween_find by (rule arg_cong [where f = "\<lambda>P. find P links"]) (simp add: fun_eq_iff disj_commute)

lemma findLinkBetween_Some:
  "findLinkBetween a b links = Some l \<Longrightarrow>
     l \<in> set links \<and> (gl_From l = a \<and> gl_To l = b \<or> gl_From l = b \<and> gl_To l = a)"
  unfolding findLinkBetween_find find_Some_iff by auto

lemma allowDirectPeerIP_init:
  "allowDirectPeerIP p q links gs \<Longrightarrow> LinkAllowsInit (pe_GroupID p) (pe_GroupID q) links gs \<and>
      LinkAllowsInit (pe_GroupID q) (pe_GroupID p) links gs"
  by (auto simp: allowDirectPeerIP_def LinkAllowsInit_iff dest!: findLinkBetween_Some
      split: if_splits option.splits)

text \<open>
  Direct addressing between two peers is symmetric, and it is only granted where the links let
  both groups open traffic to each other.
\<close>

theorem allowDirectPeerIP_mutual:
  "allowDirectPeerIP p q links gs = allowDirectPeerIP q p links gs \<and>
   (allowDirectPeerIP p q links gs =
     (allowDirectPeerIP p q links gs \<and> LinkAllowsInit (pe_GroupID p) (pe_GroupID q) links gs \<and>
      LinkAllowsInit (pe_GroupID q) (pe_GroupID p) links gs))"
proof -
  note allowDirectPeerIP_init [of p q links gs]
  moreover have "allowDirectPeerIP p q links gs = allowDirectPeerIP q p links gs"
    unfolding allowDirectPeerIP_def findLinkBetween_sym [of "pe_GroupID p" "pe_GroupID q" links]
    by (cases "pe_GroupID p = pe_GroupID q") (simp_all add: disj_commute)
  ultimately show ?thesis by blast
qed

lemma needsTransparentRelay_init:
  "needsTransparentRelay p q links gs \<Longrightarrow> LinkAllowsInit (pe_GroupID p) (pe_GroupID q) links gs"
  by (auto simp: needsTransparentRelay_def split: if_splits)

section \<open>Block lists\<close>

text \<open>A peer takes part in the policy when it is enabled, in a group, and has a readable address.\<close>

definition active_at :: "PeerEndpoint \<Rightarrow> addr \<Rightarrow> bool" where
  "active_at p a = (pe_Enabled p \<and> pe_GroupID p \<noteq> 0 \<and> ParseAddr (pe_WGIP p) = Some a)"

definition peers_unique :: "PeerEndpoint list \<Rightarrow> bool" where
  "peers_unique peers = (distinct (map pe_ID peers) \<and> distinct (map pe_WGIP peers) \<and>
     list_all (\<lambda>p. case ParseAddr (pe_WGIP p) of None \<Rightarrow> True
        | Some a \<Rightarrow> is4 a) peers)"

definition vips :: "MapAccessPolicy \<Rightarrow> addr set" where
  "vips maps = (case map_byVIP maps of None \<Rightarrow> {} | Some m \<Rightarrow> fst ` set m)"

lemma in_blocked_for:
  "a \<in> set (blocked_for peers links gs maps p) \<longleftrightarrow>
     (\<exists>q \<in> set peers. active_at q a \<and> pe_ID q \<noteq> pe_ID p \<and>
        \<not> LinkAllowsInit (pe_GroupID p) (pe_GroupID q) links gs) \<or>
     (a \<in> vips maps \<and> \<not> PeerMayAccessMap maps (pe_GroupID p) a)"
proof -
  have d: "allowDirectPeerIP p q links gs \<Longrightarrow> LinkAllowsInit (pe_GroupID p) (pe_GroupID q) links gs" for q
    using allowDirectPeerIP_init by blast
  have "a \<in> set (case ParseAddr (pe_WGIP q) of None \<Rightarrow> [] | Some toIP \<Rightarrow>
           if allowDirectPeerIP p q links gs then []
           else if needsTransparentRelay p q links gs then []
           else if LinkAllowsInit (pe_GroupID p) (pe_GroupID q) links gs then [] else [toIP]) \<longleftrightarrow>
        ParseAddr (pe_WGIP q) = Some a \<and> \<not> LinkAllowsInit (pe_GroupID p) (pe_GroupID q) links gs" for q
    using d [of q] needsTransparentRelay_init [of p q links gs] by (auto split: option.splits)
  then show ?thesis
    unfolding blocked_for_def
    by (auto simp: active_at_def vips_def split: option.splits)
qed

lemma add_blocked_other:
  "\<not> active_at p a \<Longrightarrow> mget (add_blocked peers links gs maps p m) a = mget m a"
  by (auto simp: add_blocked_def active_at_def Let_def split: option.splits)

lemma fold_blocked_other:
  "(\<And>p. p \<in> set ps \<Longrightarrow> \<not> active_at p a) \<Longrightarrow>
     mget (fold (add_blocked peers links gs maps) ps m) a = mget m a"
  by (induction ps arbitrary: m) (auto simp: add_blocked_other)

lemma add_blocked_at:
  "active_at p a \<Longrightarrow> mget (add_blocked peers links gs maps p m) a =
     (if blocked_for peers links gs maps p = [] then mget m a else Some (blocked_for peers links gs maps p))"
  by (auto simp: add_blocked_def active_at_def Let_def)

lemma fold_blocked_at:
  assumes "\<And>q. q \<in> set ps \<Longrightarrow> active_at q a \<Longrightarrow> q = p" and "active_at p a"
  shows "mget (fold (add_blocked peers links gs maps) ps m) a =
     (if p \<in> set ps \<and> blocked_for peers links gs maps p \<noteq> [] then Some (blocked_for peers links gs maps p)
      else mget m a)"
  using assms(1)
proof (induction ps arbitrary: m)
  case Nil
  then show ?case by simp
next
  case (Cons q ps)
  have IH: "mget (fold (add_blocked peers links gs maps) ps m') a =
     (if p \<in> set ps \<and> blocked_for peers links gs maps p \<noteq> [] then Some (blocked_for peers links gs maps p)
      else mget m' a)" for m'
    using Cons by simp
  show ?case
  proof (cases "active_at q a")
    case True
    with Cons.prems have "q = p" by simp
    with True show ?thesis by (simp add: IH add_blocked_at)
  next
    case False
    with assms(2) have "q \<noteq> p" by auto
    with False show ?thesis by (simp add: IH add_blocked_other)
  qed
qed

lemma unique_active:
  assumes "peers_unique peers" "p \<in> set peers" "q \<in> set peers" "active_at p a" "active_at q a"
  shows "q = p"
proof -
  have "is4 a" using assms by (auto simp: peers_unique_def active_at_def list_all_iff split: option.splits)
  then have "pe_WGIP q = pe_WGIP p" using assms(4,5) ParseAddr_inj4 by (auto simp: active_at_def)
  with assms show ?thesis by (auto simp: peers_unique_def distinct_map dest: inj_onD)
qed

lemma same_id: "peers_unique peers \<Longrightarrow> p \<in> set peers \<Longrightarrow> q \<in> set peers \<Longrightarrow> pe_ID q = pe_ID p \<Longrightarrow> q = p"
  by (auto simp: peers_unique_def distinct_map dest: inj_onD)

text \<open>The reading of a block list used from here on: a missing list blocks nothing.\<close>

definition blocks :: "AccessPolicySpec \<Rightarrow> addr \<Rightarrow> addr \<Rightarrow> bool" where
  "blocks spec from to = (case mget (ap_Blocked spec) from of None \<Rightarrow> False | Some b \<Rightarrow> to \<in> set b)"

lemma blocks_active:
  assumes "BuildAccessPolicySpec peers links gs maps = Inr spec" "peers_unique peers"
    and "p \<in> set peers" "active_at p a"
  shows "blocks spec a b \<longleftrightarrow> b \<in> set (blocked_for peers links gs maps p)"
proof -
  have "mget (ap_Blocked spec) a =
     (if blocked_for peers links gs maps p \<noteq> [] then Some (blocked_for peers links gs maps p) else None)"
    using assms fold_blocked_at [of peers a p peers links gs maps "[]"] unique_active [OF assms(2,3)]
    by (auto simp: BuildAccessPolicySpec_def)
  then show ?thesis by (auto simp: blocks_def split: option.splits if_splits)
qed

lemma blocks_inactive:
  assumes "BuildAccessPolicySpec peers links gs maps = Inr spec"
    and "\<And>p. p \<in> set peers \<Longrightarrow> \<not> active_at p a"
  shows "\<not> blocks spec a b"
  using assms fold_blocked_other [of peers a peers links gs maps "[]"]
  by (auto simp: BuildAccessPolicySpec_def blocks_def)

lemma blocks_peers:
  assumes "BuildAccessPolicySpec peers links gs maps = Inr spec" and "peers_unique peers"
    and "p \<in> set peers" and "q \<in> set peers" and "p \<noteq> q" and "active_at p a" and "active_at q b"
    and "b \<notin> vips maps"
  shows "blocks spec a b \<longleftrightarrow> \<not> LinkAllowsInit (pe_GroupID p) (pe_GroupID q) links gs"
  unfolding blocks_active [OF assms(1,2,3,6)] in_blocked_for
  using assms unique_active [OF assms(2,4), of _ b] same_id [OF assms(2,3,4)] by blast

text \<open>
  The access policy blocks a packet between two distinct active peers exactly when the groups and
  links do not let the sender's group open traffic to the receiver's group.
\<close>

theorem BuildAccessPolicySpec_peers:
  assumes "BuildAccessPolicySpec peers links gs maps = Inr spec" and "peers_unique peers"
    and "p \<in> set peers" and "q \<in> set peers" and "p \<noteq> q" and "active_at p a" and "active_at q b"
    and "b \<notin> vips maps"
  shows "blocks spec a b \<longleftrightarrow> \<not> LinkAllowsInit (pe_GroupID p) (pe_GroupID q) links gs"
  by (rule blocks_peers [OF assms])

lemma NewMapAccessPolicy_valid: "v \<in> vips (NewMapAccessPolicy rs) \<Longrightarrow> is_valid v"
proof -
  have "fst ` set m \<subseteq> Collect is_valid \<Longrightarrow>
      fst ` set (fold (\<lambda>r m. case ParseAddr (ma_VirtualIP r) of None \<Rightarrow> m
        | Some a \<Rightarrow> if \<not> is_valid a then m else mput a r m) rs m) \<subseteq> Collect is_valid" for m
  proof (induction rs arbitrary: m)
    case (Cons r rs)
    show ?case
    proof (cases "ParseAddr (ma_VirtualIP r)")
      case None
      with Cons show ?thesis by simp
    next
      case (Some a)
      have "fst ` set (if \<not> is_valid a then m else mput a r m) \<subseteq> Collect is_valid"
        using Cons.prems by simp
      from Cons.IH [OF this] Some show ?thesis by simp
    qed
  qed simp
  from this [of "[]"] show "v \<in> vips (NewMapAccessPolicy rs) \<Longrightarrow> is_valid v"
    by (auto simp: vips_def NewMapAccessPolicy_def)
qed

text \<open>
  A map address is blocked for an active peer exactly when the map's allow list does not name the
  peer's group; a map without allowed groups is closed to everyone.
\<close>

theorem BuildAccessPolicySpec_maps:
  assumes "BuildAccessPolicySpec peers links gs maps = Inr spec" and "peers_unique peers"
    and "p \<in> set peers" and "active_at p a" and "maps = NewMapAccessPolicy rs" and "vip \<in> vips maps"
    and "\<not> list_ex (\<lambda>q. active_at q vip) peers"
  shows "blocks spec a vip \<longleftrightarrow> (case mget (the (map_byVIP maps)) vip of None \<Rightarrow> True
     | Some r \<Rightarrow> pe_GroupID p \<notin> set (ma_AllowedGroupIDs r))"
proof -
  have "blocks spec a vip \<longleftrightarrow> \<not> PeerMayAccessMap maps (pe_GroupID p) vip"
    unfolding blocks_active [OF assms(1-4)] in_blocked_for
    using assms(6,7) by (auto simp: list_ex_iff)
  then show ?thesis
    using assms(4,5,6) NewMapAccessPolicy_valid [of vip rs]
    by (auto simp: PeerMayAccessMap_def active_at_def NewMapAccessPolicy_def split: option.splits)
qed

text \<open>A concrete network: two linked groups, a one-way link from group 1 to group 2, one map.\<close>

definition ex_peers :: "PeerEndpoint list" where
  "ex_peers =
    [\<lparr>pe_ID = 1, pe_Name = ''a'', pe_DNSName = ''a'', pe_WGIP = v4_string 10 0 0 2, pe_GroupID = 1, pe_Enabled = True\<rparr>,
     \<lparr>pe_ID = 2, pe_Name = ''b'', pe_DNSName = ''b'', pe_WGIP = v4_string 10 0 0 3, pe_GroupID = 2, pe_Enabled = True\<rparr>]"

definition ex_links :: "GroupLinkPair list" where
  "ex_links = [\<lparr>gl_From = 1, gl_To = 2, gl_Bidirectional = False\<rparr>]"

definition ex_groups :: GroupAccessPolicy where
  "ex_groups = NewGroupAccessPolicy [\<lparr>ga_ID = 1, ga_AllowIntraGroup = True\<rparr>, \<lparr>ga_ID = 2, ga_AllowIntraGroup = True\<rparr>]"

definition ex_map_rules :: "MapAccess list" where
  "ex_map_rules = [NewMapAccess (v4_string 10 0 0 9) [1]]"

definition ex_maps :: MapAccessPolicy where
  "ex_maps = NewMapAccessPolicy ex_map_rules"

definition ex_spec :: AccessPolicySpec where
  "ex_spec = projr (BuildAccessPolicySpec ex_peers ex_links ex_groups ex_maps)"

lemma ex_spec: "BuildAccessPolicySpec ex_peers ex_links ex_groups ex_maps = Inr ex_spec"
  by (simp add: ex_spec_def BuildAccessPolicySpec_def)

lemma ex_facts:
  "peers_unique ex_peers"
  "ex_peers ! 0 \<in> set ex_peers" "ex_peers ! 1 \<in> set ex_peers" "ex_peers ! 0 \<noteq> ex_peers ! 1"
  "active_at (ex_peers ! 0) (Addr4 10 0 0 2)" "active_at (ex_peers ! 1) (Addr4 10 0 0 3)"
  "vips ex_maps = {Addr4 10 0 0 9}"
  "list_ex (\<lambda>q. active_at q (Addr4 10 0 0 9)) ex_peers = False"
  by (simp_all add: peers_unique_def ex_peers_def active_at_def vips_def ex_maps_def ex_map_rules_def
      NewMapAccessPolicy_def NewMapAccess_def v4_string_inject)

theorem BuildAccessPolicySpec_peers_witness:
  "blocks ex_spec (Addr4 10 0 0 3) (Addr4 10 0 0 2) \<and> \<not> blocks ex_spec (Addr4 10 0 0 2) (Addr4 10 0 0 3)"
  using BuildAccessPolicySpec_peers [OF ex_spec ex_facts(1,3,2) ex_facts(4) [symmetric] ex_facts(6,5)]
    BuildAccessPolicySpec_peers [OF ex_spec ex_facts(1,2,3) ex_facts(4) ex_facts(5,6)]
  by (simp add: ex_facts LinkAllowsInit_iff ex_links_def ex_peers_def)

theorem BuildAccessPolicySpec_maps_witness:
  "blocks ex_spec (Addr4 10 0 0 3) (Addr4 10 0 0 9) \<and> \<not> blocks ex_spec (Addr4 10 0 0 2) (Addr4 10 0 0 9)"
  using BuildAccessPolicySpec_maps [OF ex_spec ex_facts(1,3,6) ex_maps_def, of "Addr4 10 0 0 9"]
    BuildAccessPolicySpec_maps [OF ex_spec ex_facts(1,2,5) ex_maps_def, of "Addr4 10 0 0 9"]
  by (simp add: ex_facts ex_maps_def [unfolded ex_map_rules_def] NewMapAccessPolicy_def NewMapAccess_def
      AllowedGroupIDSet_def ex_peers_def vips_def active_at_def)

end
