(* ===== verification/Packet.thy ===== *)
theory Packet
  imports Netip "HOL-Library.Monad_Syntax"
begin

text \<open>
  \<^verbatim>\<open>vpn/snat/packet.go\<close>: reading and rewriting IPv4 packets in place.  A packet is its byte list;
  an operation that would index or slice out of range in Go panics, which is the value \<open>None\<close> here
  (slices are taken to have no spare capacity).  The lemmas show that a rewritten packet parses to
  the new endpoints and that both Internet checksums verify afterwards.
\<close>

section \<open>Big-endian integers\<close>

definition be16 :: "u8 \<Rightarrow> u8 \<Rightarrow> u16" where
  "be16 a b = push_bit 8 (ucast a) OR ucast b"

definition put16 :: "u16 \<Rightarrow> u8 list" where
  "put16 w = [ucast (drop_bit 8 w), ucast w]"

lemma unat_u8_bound: "unat (a :: u8) < 256"
  using unsigned_less [of a, where 'a = nat] by simp

lemma unat_u16_bound: "unat (a :: u16) < 65536"
  using unsigned_less [of a, where 'a = nat] by simp

lemma unat_u32_bound: "unat (a :: u32) < 4294967296"
  using unsigned_less [of a, where 'a = nat] by simp

lemma unat_be16: "unat (be16 a b) = 256 * unat a + unat b"
proof -
  have "\<not> bit (push_bit 8 (ucast a :: u16)) n \<or> \<not> bit (ucast b :: u16) n" for n
    by (auto simp: bit_simps dest: bit_imp_le_length)
  then have "be16 a b = push_bit 8 (ucast a) + ucast b"
    unfolding be16_def by (rule disjunctive_add [symmetric])
  moreover have "unat (push_bit 8 (ucast a :: u16)) = 256 * unat a"
    using unat_u8_bound [of a] by (simp add: push_bit_eq_mult unat_word_ariths unsigned_ucast_eq take_bit_eq_mod)
  moreover have "unat (ucast b :: u16) = unat b"
    using unat_u8_bound [of b] by (simp add: unsigned_ucast_eq take_bit_eq_mod)
  ultimately show ?thesis
    using unat_u8_bound [of a] unat_u8_bound [of b] by (simp add: unat_word_ariths)
qed

lemma be16_put16 [simp]: "be16 (ucast (drop_bit 8 w)) (ucast w) = (w :: u16)"
  by (rule bit_word_eqI) (auto simp: be16_def bit_simps)

lemma length_put16 [simp]: "length (put16 w) = 2"
  by (simp add: put16_def)

section \<open>Writing into a packet\<close>

definition write_at :: "nat \<Rightarrow> u8 list \<Rightarrow> u8 list \<Rightarrow> u8 list option" where
  "write_at i bs p = (if i + length bs \<le> length p then Some (take i p @ bs @ drop (i + length bs) p) else None)"

lemma write_at_Some:
  "write_at i bs p = Some q \<longleftrightarrow> i + length bs \<le> length p \<and> q = take i p @ bs @ drop (i + length bs) p"
  by (auto simp: write_at_def)

lemma write_at_length: "write_at i bs p = Some q \<Longrightarrow> length q = length p"
  by (auto simp: write_at_Some)

lemma write_at_nth:
  "write_at i bs p = Some q \<Longrightarrow> j < length p \<Longrightarrow>
     q ! j = (if i \<le> j \<and> j < i + length bs then bs ! (j - i) else p ! j)"
  by (auto simp: write_at_Some nth_append min_def)

lemma write_at_other:
  "write_at i bs p = Some q \<Longrightarrow> j < length p \<Longrightarrow> j < i \<or> i + length bs \<le> j \<Longrightarrow> q ! j = p ! j"
  by (auto simp: write_at_nth)

lemma write_at_ok: "i + length bs \<le> length p \<Longrightarrow> \<exists>q. write_at i bs p = Some q"
  by (simp add: write_at_def)

section \<open>Parsing\<close>

definition protoTCP :: u8 where "protoTCP = 6"
definition protoUDP :: u8 where "protoUDP = 17"

definition ihl_of :: "u8 list \<Rightarrow> nat" where
  "ihl_of p = unat (p ! 0 AND 15) * 4"

definition src_of :: "u8 list \<Rightarrow> addr" where
  "src_of p = Addr4 (p ! 12) (p ! 13) (p ! 14) (p ! 15)"

definition dst_of :: "u8 list \<Rightarrow> addr" where
  "dst_of p = Addr4 (p ! 16) (p ! 17) (p ! 18) (p ! 19)"

definition sport_of :: "u8 list \<Rightarrow> u16" where
  "sport_of p = be16 (p ! ihl_of p) (p ! (ihl_of p + 1))"

definition dport_of :: "u8 list \<Rightarrow> u16" where
  "dport_of p = be16 (p ! (ihl_of p + 2)) (p ! (ihl_of p + 3))"

type_synonym endpoints = "addr \<times> addr \<times> u8 \<times> u16 \<times> u16"

definition parseIPv4Transport :: "u8 list \<Rightarrow> endpoints option" where
  "parseIPv4Transport p =
     (if length p < 20 \<or> drop_bit 4 (p ! 0) \<noteq> 4 then None
      else if length p < ihl_of p then None
      else if p ! 9 = protoTCP then
        (if length p < ihl_of p + 14 then None
         else Some (src_of p, dst_of p, p ! 9, sport_of p, dport_of p))
      else if p ! 9 = protoUDP then
        (if length p < ihl_of p + 8 then None
         else Some (src_of p, dst_of p, p ! 9, sport_of p, dport_of p))
      else None)"

lemma ihl_of_le: "ihl_of p \<le> 60"
proof -
  have "p ! 0 AND 15 = take_bit 4 (p ! 0)" by (simp add: take_bit_eq_mask mask_eq_exp_minus_1)
  then have "unat (p ! 0 AND 15) < 16" by (simp add: take_bit_eq_mod unat_mod)
  then show ?thesis by (simp add: ihl_of_def)
qed

section \<open>Rewriting\<close>

text \<open>\<^verbatim>\<open>Addr.As4\<close> panics on an address that is neither IPv4 nor an IPv4-mapped IPv6 address.\<close>

fun as4 :: "addr \<Rightarrow> u8 list option" where
  "as4 (Addr4 a b c d) = Some [a, b, c, d]"
| "as4 (Addr6 bs z) = to4 bs"
| "as4 NoAddr = None"

definition rewriteEndpoints :: "u8 list \<Rightarrow> addr \<Rightarrow> addr \<Rightarrow> u16 \<Rightarrow> u16 \<Rightarrow> u8 list option" where
  "rewriteEndpoints packet src dst sport dport = do {
     src4 \<leftarrow> as4 src;
     dst4 \<leftarrow> as4 dst;
     packet \<leftarrow> write_at 12 src4 packet;
     packet \<leftarrow> write_at 16 dst4 packet;
     let ihl = ihl_of packet;
     if packet ! 9 = protoTCP \<or> packet ! 9 = protoUDP then do {
       packet \<leftarrow> write_at ihl (put16 sport) packet;
       write_at (ihl + 2) (put16 dport) packet
     } else Some packet
   }"

section \<open>Checksums\<close>

text \<open>The accumulation loop over 16-bit words with an odd last byte, and the carry folding loop.\<close>

fun ck_sum :: "u32 \<Rightarrow> u8 list \<Rightarrow> u32" where
  "ck_sum acc (a # b # rest) = ck_sum (acc + ucast (be16 a b)) rest"
| "ck_sum acc [a] = acc + push_bit 8 (ucast a)"
| "ck_sum acc [] = acc"

lemma unat_hi16: "unat (drop_bit 16 (s :: u32)) = unat s div 65536"
  by (simp add: drop_bit_eq_div unat_div)

lemma hi16_pos: "drop_bit 16 (s :: u32) > 0 \<longleftrightarrow> 65536 \<le> unat s"
proof -
  have "drop_bit 16 s > 0 \<longleftrightarrow> unat (drop_bit 16 s) \<noteq> 0"
    by (metis unat_eq_zero word_greater_zero_iff)
  also have "\<dots> \<longleftrightarrow> 65536 \<le> unat s"
    by (simp only: unat_hi16 div_eq_0_iff) auto
  finally show ?thesis .
qed

lemma fold_carry_less:
  assumes "drop_bit 16 (s :: u32) > 0"
  shows "unat ((s AND 0xffff) + drop_bit 16 s) < unat s"
    and "unat ((s AND 0xffff) + drop_bit 16 s) = unat s mod 65536 + unat s div 65536"
proof -
  note hi = unat_hi16 [of s]
  have "s AND 0xffff = take_bit 16 s" by (simp add: take_bit_eq_mask mask_eq_exp_minus_1)
  then have lo: "unat (s AND 0xffff) = unat s mod 65536"
    by (simp add: take_bit_eq_mod unat_mod)
  have "unat s div 65536 < 65536" using unat_u32_bound [of s] by (simp add: less_mult_imp_div_less)
  moreover have "unat s mod 65536 < 65536" by simp
  ultimately have "unat s mod 65536 + unat s div 65536 < 2 ^ 32" by (simp add: trans_less_add1)
  then show eq: "unat ((s AND 0xffff) + drop_bit 16 s) = unat s mod 65536 + unat s div 65536"
    by (simp add: unat_word_ariths hi lo)
  have "0 < unat s div 65536" using assms by (simp add: hi16_pos div_greater_zero_iff)
  moreover have "unat s = unat s div 65536 * 65536 + unat s mod 65536" by simp
  ultimately show "unat ((s AND 0xffff) + drop_bit 16 s) < unat s" unfolding eq by linarith
qed

function fold_carry :: "u32 \<Rightarrow> u32" where
  "fold_carry s = (if drop_bit 16 s > 0 then fold_carry ((s AND 0xffff) + drop_bit 16 s) else s)"
  by auto
termination
  by (relation "measure unat") (use fold_carry_less(1) in auto)

declare fold_carry.simps [simp del]

definition ipChecksum :: "u8 list \<Rightarrow> u16" where
  "ipChecksum b = NOT (ucast (fold_carry (ck_sum 0 b)))"

definition pseudoChecksum :: "addr \<Rightarrow> addr \<Rightarrow> u8 \<Rightarrow> u8 list \<Rightarrow> u16" where
  "pseudoChecksum src dst proto segment =
     ipChecksum (as_slice src @ as_slice dst @ [0, proto] @ put16 (of_nat (length segment)) @ segment)"

definition fixIPv4Checksum :: "u8 list \<Rightarrow> u8 list option" where
  "fixIPv4Checksum packet = do {
     let ihl = ihl_of packet;
     packet \<leftarrow> write_at 10 [0, 0] packet;
     if ihl > length packet then None
     else write_at 10 (put16 (ipChecksum (take ihl packet))) packet
   }"

definition total_len :: "u8 list \<Rightarrow> nat" where
  "total_len packet = unat (be16 (packet ! 2) (packet ! 3))"

text \<open>Clearing the checksum field at \<open>off\<close> and storing the checksum over the pseudo header and segment.\<close>

definition store_checksum :: "u8 list \<Rightarrow> u8 \<Rightarrow> nat \<Rightarrow> nat \<Rightarrow> nat \<Rightarrow> u8 list option" where
  "store_checksum packet proto ihl payloadLen off = do {
     let src = src_of packet;
     let dst = dst_of packet;
     packet \<leftarrow> write_at (ihl + off) [0, 0] packet;
     if ihl + payloadLen > length packet then None
     else write_at (ihl + off) (put16 (pseudoChecksum src dst proto (take payloadLen (drop ihl packet)))) packet
   }"

definition fixTransportChecksum :: "u8 list \<Rightarrow> u8 \<Rightarrow> u8 list option" where
  "fixTransportChecksum packet proto =
     (let ihl = ihl_of packet; totalLen = total_len packet in
      if totalLen \<le> ihl then Some packet
      else let payloadLen = totalLen - ihl in
        if proto = protoUDP then
          (if payloadLen < 8 then Some packet else store_checksum packet protoUDP ihl payloadLen 6)
        else if proto = protoTCP then
          (if payloadLen < 20 then Some packet else store_checksum packet protoTCP ihl payloadLen 16)
        else Some packet)"

section \<open>Checksum arithmetic\<close>

text \<open>The specification of the sum: plain numbers, no wrap-around.\<close>

fun word_sum :: "u8 list \<Rightarrow> nat" where
  "word_sum (a # b # rest) = 256 * unat a + unat b + word_sum rest"
| "word_sum [a] = 256 * unat a"
| "word_sum [] = 0"

lemma word_sum_bound: "word_sum b \<le> 65535 * ((length b + 1) div 2)"
proof (induction b rule: word_sum.induct)
  case (1 a b rest)
  then show ?case using unat_u8_bound [of a] unat_u8_bound [of b] by simp
next
  case (2 a)
  then show ?case using unat_u8_bound [of a] by simp
qed simp

lemma word_sum_append: "even (length xs) \<Longrightarrow> word_sum (xs @ ys) = word_sum xs + word_sum ys"
  by (induction xs rule: word_sum.induct) auto

lemma word_sum_put16 [simp]: "word_sum (put16 w) = unat w"
proof -
  have "unat (be16 (ucast (drop_bit 8 w)) (ucast w)) =
      256 * unat (ucast (drop_bit 8 w) :: u8) + unat (ucast w :: u8)"
    by (rule unat_be16)
  then show ?thesis by (simp add: put16_def)
qed

lemma unat_ck_sum: "unat acc + word_sum b < 2 ^ 32 \<Longrightarrow> unat (ck_sum acc b) = unat acc + word_sum b"
proof (induction acc b rule: ck_sum.induct)
  case (1 acc a b rest)
  have w: "unat (ucast (be16 a b) :: u32) = 256 * unat a + unat b"
    using unat_u16_bound [of "be16 a b"] by (simp add: unsigned_ucast_eq take_bit_eq_mod unat_be16)
  have "unat (acc + ucast (be16 a b)) = unat acc + (256 * unat a + unat b)"
    using 1(2) by (simp add: unat_word_ariths w)
  with 1 show ?case by simp
next
  case (2 acc a)
  have "unat (push_bit 8 (ucast a :: u32)) = 256 * unat a"
    using unat_u8_bound [of a] by (simp add: push_bit_eq_mult unat_word_ariths unsigned_ucast_eq take_bit_eq_mod)
  with 2 show ?case by (simp add: unat_word_ariths)
qed simp

lemma unat_fold_carry: "unat (fold_carry s) = (if unat s = 0 then 0 else (unat s - 1) mod 65535 + 1)"
proof (induction s rule: fold_carry.induct)
  case (1 s)
  show ?case
  proof (cases "drop_bit 16 s > 0")
    case True
    let ?t = "(s AND 0xffff) + drop_bit 16 s"
    have t: "unat ?t = unat s mod 65536 + unat s div 65536" by (rule fold_carry_less(2) [OF True])
    have hi: "0 < unat s div 65536" using True by (simp add: hi16_pos div_greater_zero_iff)
    have "unat s = unat s div 65536 * 65536 + unat s mod 65536" by simp
    then have "unat s - 1 = (unat s mod 65536 + unat s div 65536 - 1) + 65535 * (unat s div 65536)"
      using hi by linarith
    then have "(unat s - 1) mod 65535 = (unat ?t - 1) mod 65535" by (simp add: t)
    moreover have "unat ?t \<noteq> 0" "unat s \<noteq> 0" using hi t by auto
    ultimately show ?thesis using 1 [OF True] True by (simp add: fold_carry.simps [of s])
  next
    case False
    then have "unat s < 65536" by (simp add: hi16_pos)
    with False show ?thesis by (simp add: fold_carry.simps [of s])
  qed
qed

definition ones_sum :: "nat \<Rightarrow> nat" where
  "ones_sum n = (if n = 0 then 0 else (n - 1) mod 65535 + 1)"

lemma unat_not16: "unat (NOT (w :: u16)) = 65535 - unat w"
proof -
  have "NOT w = - 1 - w" by (simp add: not_eq_complement)
  moreover have "w \<le> - 1" by simp
  ultimately have "unat (NOT w) = unat (- 1 :: u16) - unat w" by (simp only: unat_sub)
  moreover have "unat (- 1 :: u16) = 65535" by (simp add: unsigned_minus_1_eq_mask mask_eq_exp_minus_1)
  ultimately show ?thesis by simp
qed

lemma unat_ipChecksum:
  assumes "length b \<le> 131000"
  shows "unat (ipChecksum b) = 65535 - ones_sum (word_sum b)"
proof -
  have "word_sum b < 2 ^ 32" using word_sum_bound [of b] assms by simp
  then have "unat (ck_sum 0 b) = word_sum b" using unat_ck_sum [of 0 b] by simp
  then have f: "unat (fold_carry (ck_sum 0 b)) = ones_sum (word_sum b)"
    by (simp add: unat_fold_carry ones_sum_def)
  have "ones_sum (word_sum b) \<le> 65535"
    by (simp add: ones_sum_def Suc_le_eq)
  then have "unat (ucast (fold_carry (ck_sum 0 b)) :: u16) = ones_sum (word_sum b)"
    by (simp add: unsigned_ucast_eq take_bit_eq_mod f)
  then show ?thesis by (simp add: ipChecksum_def unat_not16)
qed

lemma ones_sum_complete: "ones_sum (n + (65535 - ones_sum n)) = 65535"
proof (cases "n = 0")
  case True
  then show ?thesis by (simp add: ones_sum_def)
next
  case False
  let ?q = "(n - 1) div 65535"
  have m: "(n - 1) mod 65535 < 65535" by simp
  have d: "n - 1 = 65535 * ?q + (n - 1) mod 65535" by simp
  have o: "ones_sum n = (n - 1) mod 65535 + 1" using False by (simp add: ones_sum_def)
  from False m d have "n + (65535 - ones_sum n) = 65535 * ?q + 65535"
    unfolding o by linarith
  then have "n + (65535 - ones_sum n) - 1 = 65534 + 65535 * ?q" by simp
  then have "(n + (65535 - ones_sum n) - 1) mod 65535 = 65534" by (simp only: mod_mult_self2) simp
  with False show ?thesis by (simp add: ones_sum_def)
qed

lemma ipChecksum_verifies:
  assumes "even (length xs)" and "length (xs @ [0, 0] @ ys) \<le> 131000"
  shows "ipChecksum (xs @ put16 (ipChecksum (xs @ [0, 0] @ ys)) @ ys) = 0"
proof -
  let ?c = "ipChecksum (xs @ [0, 0] @ ys)"
  have s0: "word_sum (xs @ [0, 0] @ ys) = word_sum xs + word_sum ys"
    using assms(1) by (simp add: word_sum_append)
  have "word_sum (put16 ?c @ ys) = unat ?c + word_sum ys"
    using word_sum_append [of "put16 ?c" ys] by simp
  then have "word_sum (xs @ put16 ?c @ ys) = word_sum xs + word_sum ys + (65535 - ones_sum (word_sum xs + word_sum ys))"
    using unat_ipChecksum [OF assms(2)] s0 word_sum_append [OF assms(1), of "put16 ?c @ ys"] by simp
  then have "unat (ipChecksum (xs @ put16 ?c @ ys)) = 0"
    using unat_ipChecksum [of "xs @ put16 ?c @ ys"] assms(2) by (simp add: ones_sum_complete)
  then show ?thesis by (simp only: unat_eq_0 unat_eq_zero)
qed

section \<open>Rewritten packets\<close>

text \<open>
  Packets as WireGuard delivers them: a TCP or UDP datagram with a header of at least 20 bytes whose
  total length does not exceed the buffer.
\<close>

definition good_packet :: "u8 list \<Rightarrow> bool" where
  "good_packet p = (parseIPv4Transport p \<noteq> None \<and> 20 \<le> ihl_of p \<and> total_len p \<le> length p)"

text \<open>The three calls that both directions of the relay make on a packet.\<close>

definition rewrite_packet :: "u8 list \<Rightarrow> addr \<Rightarrow> addr \<Rightarrow> u16 \<Rightarrow> u16 \<Rightarrow> u8 \<Rightarrow> u8 list option" where
  "rewrite_packet packet src dst sport dport proto = do {
     packet \<leftarrow> rewriteEndpoints packet src dst sport dport;
     packet \<leftarrow> fixIPv4Checksum packet;
     fixTransportChecksum packet proto
   }"

lemma segment_of_write:
  assumes "i + length bs \<le> length p" and "k \<le> i" and "i + length bs \<le> k + l"
  shows "take l (drop k (take i p @ bs @ drop (i + length bs) p)) =
     take (i - k) (drop k p) @ bs @ take (l + k - (i + length bs)) (drop (i + length bs) p)"
proof -
  have "min (length p) i = i" using assms by simp
  with assms show ?thesis by (simp add: drop_take)
qed

lemma store_checksum_verifies:
  assumes "store_checksum p proto ihl l off = Some q" and "even off" and "off + 2 \<le> l"
    and "20 \<le> ihl" and "l < 65536"
  shows "pseudoChecksum (src_of q) (dst_of q) proto (take l (drop ihl q)) = 0"
proof -
  let ?i = "ihl + off"
  obtain p' where p': "write_at ?i [0, 0] p = Some p'" and len: "ihl + l \<le> length p'"
    and q: "write_at ?i (put16 (pseudoChecksum (src_of p) (dst_of p) proto (take l (drop ihl p')))) p' = Some q"
    using assms(1) by (auto simp: store_checksum_def Let_def split: Option.bind_splits if_splits)
  let ?ck = "pseudoChecksum (src_of p) (dst_of p) proto (take l (drop ihl p'))"
  let ?hdr = "as_slice (src_of p) @ as_slice (dst_of p) @ [0, proto] @ put16 (of_nat l)"
  let ?A = "take off (drop ihl p')" and ?B = "take (l + ihl - (?i + 2)) (drop (?i + 2) p')"
  have lens: "length p' = length p" "length q = length p"
    using write_at_length p' q by auto
  have seg: "take l (drop ihl p') = ?A @ [0, 0] @ ?B"
  proof -
    have "take l (drop ihl p') = take off (drop ihl p) @ [0, 0] @ take (l + ihl - (?i + 2)) (drop (?i + 2) p)"
      using p' assms(3) segment_of_write [of ?i "[0, 0]" p ihl l] by (auto simp: write_at_Some)
    moreover have "?A = take off (drop ihl p)" "?B = take (l + ihl - (?i + 2)) (drop (?i + 2) p)"
      using p' by (auto simp: write_at_Some drop_take)
    ultimately show ?thesis by simp
  qed
  have seg': "take l (drop ihl q) = ?A @ put16 ?ck @ ?B"
    using q assms(3) segment_of_write [of ?i "put16 ?ck" p' ihl l] by (auto simp: write_at_Some)
  have addrs: "src_of q = src_of p" "dst_of q = dst_of p"
    using assms(4) write_at_nth [OF p'] write_at_nth [OF q] len lens by (auto simp: src_of_def dst_of_def)
  have l: "length (take l (drop ihl p')) = l" "length (take l (drop ihl q)) = l"
    using len lens by auto
  have "ipChecksum ((?hdr @ ?A) @ put16 (ipChecksum ((?hdr @ ?A) @ [0, 0] @ ?B)) @ ?B) = 0"
  proof (rule ipChecksum_verifies)
    have "length ?A = off" using assms(3) len by simp
    then show "even (length (?hdr @ ?A))" using assms(2) by (simp add: src_of_def dst_of_def)
    have "length (?A @ [0, 0] @ ?B) = l" using l(1) seg by simp
    then show "length ((?hdr @ ?A) @ [0, 0] @ ?B) \<le> 131000"
      using assms(5) by (simp add: src_of_def dst_of_def)
  qed
  moreover have "?ck = ipChecksum ((?hdr @ ?A) @ [0, 0] @ ?B)"
    unfolding pseudoChecksum_def l(1) unfolding seg by simp
  ultimately have "ipChecksum ((?hdr @ ?A) @ put16 ?ck @ ?B) = 0" by (simp only:)
  moreover have "pseudoChecksum (src_of q) (dst_of q) proto (take l (drop ihl q)) =
      ipChecksum (?hdr @ take l (drop ihl q))"
    unfolding pseudoChecksum_def l(2) addrs by simp
  ultimately show ?thesis by (simp only: seg' append_assoc)
qed

lemma fixIPv4Checksum_verifies:
  assumes "fixIPv4Checksum p = Some q" and "20 \<le> ihl_of p"
  shows "ipChecksum (take (ihl_of q) q) = 0"
proof -
  let ?h = "ihl_of p"
  obtain p' where p': "write_at 10 [0, 0] p = Some p'" and len: "?h \<le> length p'"
    and q: "write_at 10 (put16 (ipChecksum (take ?h p'))) p' = Some q"
    using assms(1) by (auto simp: fixIPv4Checksum_def Let_def split: Option.bind_splits if_splits)
  have "0 < length p" using len assms(2) write_at_length [OF p'] by linarith
  then have h: "ihl_of q = ?h"
    using write_at_nth [OF p', of 0] write_at_nth [OF q, of 0] write_at_length [OF p'] len assms(2)
    by (simp add: ihl_of_def)
  let ?A = "take 10 p'" and ?B = "take (?h - 12) (drop 12 p')"
  have hdr: "take ?h p' = ?A @ [0, 0] @ ?B"
    using p' assms(2) segment_of_write [of 10 "[0, 0]" p 0 ?h]
    by (auto simp: write_at_Some)
  have hdr': "take ?h q = ?A @ put16 (ipChecksum (take ?h p')) @ ?B"
    using q assms(2) segment_of_write [of 10 "put16 (ipChecksum (take ?h p'))" p' 0 ?h]
    by (auto simp: write_at_Some)
  note ihl_of_le [of p]
  moreover have "length ?A = 10" using len assms(2) by simp
  ultimately have "ipChecksum (?A @ put16 (ipChecksum (?A @ [0, 0] @ ?B)) @ ?B) = 0"
    by (intro ipChecksum_verifies) auto
  then show ?thesis using h hdr hdr' by simp
qed

definition seg_min :: "u8 \<Rightarrow> nat" where
  "seg_min proto = (if proto = protoUDP then 8 else 20)"

definition checksums_ok :: "u8 list \<Rightarrow> bool" where
  "checksums_ok q = (ipChecksum (take (ihl_of q) q) = 0 \<and>
     (ihl_of q + seg_min (q ! 9) \<le> total_len q \<longrightarrow>
      pseudoChecksum (src_of q) (dst_of q) (q ! 9) (take (total_len q - ihl_of q) (drop (ihl_of q) q)) = 0))"

lemma good_packetD:
  assumes "good_packet p"
  shows "drop_bit 4 (p ! 0) = 4" "p ! 9 = protoTCP \<or> p ! 9 = protoUDP" "20 \<le> ihl_of p"
    "ihl_of p + 8 \<le> length p" "p ! 9 = protoTCP \<Longrightarrow> ihl_of p + 14 \<le> length p"
    "total_len p \<le> length p"
    "parseIPv4Transport p = Some (src_of p, dst_of p, p ! 9, sport_of p, dport_of p)"
  using assms by (auto simp: good_packet_def parseIPv4Transport_def split: if_splits)

lemma good_packetI:
  assumes "drop_bit 4 (p ! 0) = 4" "p ! 9 = protoTCP \<or> p ! 9 = protoUDP" "20 \<le> ihl_of p"
    "ihl_of p + 8 \<le> length p" "p ! 9 = protoTCP \<Longrightarrow> ihl_of p + 14 \<le> length p"
    "total_len p \<le> length p"
  shows "good_packet p"
  using assms by (auto simp: good_packet_def parseIPv4Transport_def)

text \<open>The fields at fixed offsets survive writes elsewhere.\<close>

lemma fields_eq:
  assumes "length q = length p" "20 \<le> length p" "\<And>j. j < 20 \<Longrightarrow> j \<noteq> 10 \<Longrightarrow> j \<noteq> 11 \<Longrightarrow> q ! j = p ! j"
  shows "ihl_of q = ihl_of p" "total_len q = total_len p" "src_of q = src_of p" "dst_of q = dst_of p"
    "q ! 0 = p ! 0" "q ! 9 = p ! 9"
  using assms by (simp_all add: ihl_of_def total_len_def src_of_def dst_of_def)

lemma rewriteEndpoints_effect:
  assumes "good_packet p"
  shows "\<exists>q. rewriteEndpoints p (Addr4 a b c d) (Addr4 e f g h) sp dp = Some q \<and> good_packet q \<and>
     length q = length p \<and> q ! 9 = p ! 9 \<and> src_of q = Addr4 a b c d \<and> dst_of q = Addr4 e f g h \<and>
     sport_of q = sp \<and> dport_of q = dp \<and> ihl_of q = ihl_of p \<and> total_len q = total_len p \<and>
     drop (ihl_of p + 4) q = drop (ihl_of p + 4) p"
proof -
  note g = good_packetD [OF assms]
  let ?i = "ihl_of p"
  obtain p1 where p1: "write_at 12 [a, b, c, d] p = Some p1"
    using write_at_ok [of 12 "[a, b, c, d]" p] g by auto
  note l1 = write_at_length [OF p1] and n1 = write_at_nth [OF p1]
  obtain p2 where p2: "write_at 16 [e, f, g, h] p1 = Some p2"
    using write_at_ok [of 16 "[e, f, g, h]" p1] g l1 by auto
  note l2 = write_at_length [OF p2] and n2 = write_at_nth [OF p2]
  obtain p3 where p3: "write_at ?i (put16 sp) p2 = Some p3"
    using write_at_ok [of ?i "put16 sp" p2] g l1 l2 by auto
  note l3 = write_at_length [OF p3] and n3 = write_at_nth [OF p3]
  obtain q where q: "write_at (?i + 2) (put16 dp) p3 = Some q"
    using write_at_ok [of "?i + 2" "put16 dp" p3] g l1 l2 l3 by auto
  note l4 = write_at_length [OF q] and n4 = write_at_nth [OF q]
  note ls = l1 l2 l3 l4
  have n: "q ! j = (if ?i + 2 \<le> j \<and> j < ?i + 4 then put16 dp ! (j - (?i + 2))
      else if ?i \<le> j \<and> j < ?i + 2 then put16 sp ! (j - ?i)
      else if 16 \<le> j \<and> j < 20 then [e, f, g, h] ! (j - 16)
      else if 12 \<le> j \<and> j < 16 then [a, b, c, d] ! (j - 12) else p ! j)" if "j < length p" for j
    using that n1 [of j] n2 [of j] n3 [of j] n4 [of j] by (simp add: ls numeral_eq_Suc)
  have n20: "q ! j = (if 16 \<le> j then [e, f, g, h] ! (j - 16) else if 12 \<le> j then [a, b, c, d] ! (j - 12) else p ! j)"
    if "j < 20" for j
    using that n [of j] g(3,4) by simp
  have "0 < length p" using g(3,4) by linarith
  then have low: "p2 ! 0 = p ! 0" "p2 ! 9 = p ! 9"
    using n1 [of 0] n2 [of 0] n1 [of 9] n2 [of 9] g by (auto simp: ls)
  have i2: "ihl_of p2 = ?i" using low by (simp add: ihl_of_def)
  have iq: "ihl_of q = ?i" using n20 [of 0] by (simp add: ihl_of_def)
  have r: "rewriteEndpoints p (Addr4 a b c d) (Addr4 e f g h) sp dp = Some q"
    using g(2) low by (simp add: rewriteEndpoints_def p1 p2 i2 p3 q [simplified])
  have tl: "total_len q = total_len p" using n20 [of 2] n20 [of 3] by (simp add: total_len_def)
  have s: "src_of q = Addr4 a b c d"
    using n20 [of 12] n20 [of 13] n20 [of 14] n20 [of 15] by (simp add: src_of_def)
  have d: "dst_of q = Addr4 e f g h"
    using n20 [of 16] n20 [of 17] n20 [of 18] n20 [of 19] by (simp add: dst_of_def)
  have sp: "sport_of q = sp" using n [of ?i] n [of "?i + 1"] g by (simp add: sport_of_def iq put16_def)
  have dp: "dport_of q = dp" using n [of "?i + 2"] n [of "?i + 3"] g by (simp add: dport_of_def iq put16_def)
  have nine: "q ! 9 = p ! 9" "q ! 0 = p ! 0" using n20 [of 9] n20 [of 0] by auto
  have rest: "drop (?i + 4) q = drop (?i + 4) p"
    by (rule nth_equalityI) (use n g(3) in \<open>auto simp: ls\<close>)
  have "good_packet q" using g by (intro good_packetI) (simp_all add: nine iq ls tl)
  with r s d sp dp nine iq tl rest ls show ?thesis by auto
qed

lemma fixIPv4Checksum_effect:
  assumes "good_packet p"
  shows "\<exists>q. fixIPv4Checksum p = Some q \<and> length q = length p \<and>
     (\<forall>j < length p. j \<noteq> 10 \<and> j \<noteq> 11 \<longrightarrow> q ! j = p ! j)"
proof -
  note g = good_packetD [OF assms]
  obtain p1 where p1: "write_at 10 [0, 0] p = Some p1"
    using write_at_ok [of 10 "[0, 0]" p] g by auto
  note l1 = write_at_length [OF p1]
  obtain q where q: "write_at 10 (put16 (ipChecksum (take (ihl_of p) p1))) p1 = Some q"
    using write_at_ok [of 10 "put16 (ipChecksum (take (ihl_of p) p1))" p1] g l1 by auto
  have "fixIPv4Checksum p = Some q"
    using g l1 by (simp add: fixIPv4Checksum_def p1 q)
  moreover have "q ! j = p ! j" if "j < length p" "j \<noteq> 10" "j \<noteq> 11" for j
  proof -
    have "j < 10 \<or> 12 \<le> j" using that by linarith
    with that show ?thesis using write_at_other [OF p1, of j] write_at_other [OF q, of j] by (auto simp: l1)
  qed
  ultimately show ?thesis using l1 write_at_length [OF q] by auto
qed

lemma store_checksum_effect:
  assumes "ihl + l \<le> length p" and "off + 2 \<le> l"
  shows "\<exists>q. store_checksum p proto ihl l off = Some q \<and> length q = length p \<and>
     (\<forall>j < length p. j < ihl + off \<or> ihl + off + 2 \<le> j \<longrightarrow> q ! j = p ! j)"
proof -
  obtain p1 where p1: "write_at (ihl + off) [0, 0] p = Some p1"
    using write_at_ok [of "ihl + off" "[0, 0]" p] assms by auto
  note l1 = write_at_length [OF p1]
  let ?w = "put16 (pseudoChecksum (src_of p) (dst_of p) proto (take l (drop ihl p1)))"
  obtain q where q: "write_at (ihl + off) ?w p1 = Some q"
    using write_at_ok [of "ihl + off" ?w p1] assms l1 by auto
  have "store_checksum p proto ihl l off = Some q"
    using assms l1 by (simp add: store_checksum_def p1 q)
  moreover have "q ! j = p ! j" if "j < length p" "j < ihl + off \<or> ihl + off + 2 \<le> j" for j
    using that write_at_other [OF p1, of j] write_at_other [OF q, of j] by (auto simp: l1)
  ultimately show ?thesis using l1 write_at_length [OF q] by auto
qed

lemma total_len_lt: "total_len p < 65536"
  by (simp add: total_len_def unat_u16_bound)

lemma fixTransportChecksum_effect:
  assumes "good_packet p"
  shows "\<exists>q. fixTransportChecksum p (p ! 9) = Some q \<and> length q = length p \<and>
     (\<forall>j < ihl_of p + 6. q ! j = p ! j) \<and>
     (ihl_of p + seg_min (p ! 9) \<le> total_len p \<longrightarrow>
       pseudoChecksum (src_of q) (dst_of q) (p ! 9) (take (total_len p - ihl_of p) (drop (ihl_of p) q)) = 0)"
proof (cases "ihl_of p + seg_min (p ! 9) \<le> total_len p")
  case False
  then have "fixTransportChecksum p (p ! 9) = Some p"
    using good_packetD(2) [OF assms]
    by (auto simp: fixTransportChecksum_def Let_def seg_min_def split: if_splits)
  with False show ?thesis by auto
next
  case True
  note g = good_packetD [OF assms]
  let ?off = "if p ! 9 = protoUDP then 6 else 16" and ?l = "total_len p - ihl_of p"
  have min: "8 \<le> seg_min (p ! 9)" "?off + 2 \<le> ?l" using True by (auto simp: seg_min_def)
  have eq: "fixTransportChecksum p (p ! 9) = store_checksum p (p ! 9) (ihl_of p) ?l ?off"
    using g(2) True by (auto simp: fixTransportChecksum_def Let_def seg_min_def protoUDP_def protoTCP_def)
  obtain q where q: "store_checksum p (p ! 9) (ihl_of p) ?l ?off = Some q" "length q = length p"
    "\<forall>j < length p. j < ihl_of p + ?off \<or> ihl_of p + ?off + 2 \<le> j \<longrightarrow> q ! j = p ! j"
    using store_checksum_effect [of "ihl_of p" ?l p ?off "p ! 9"] g(6) min by auto
  have "pseudoChecksum (src_of q) (dst_of q) (p ! 9) (take ?l (drop (ihl_of p) q)) = 0"
    using q(1) min g(3) total_len_lt [of p] by (intro store_checksum_verifies [OF q(1)]) auto
  moreover have "\<forall>j < ihl_of p + 6. q ! j = p ! j" using q(3) g(4) by auto
  ultimately show ?thesis using q eq by auto
qed

lemma rewrite_packet_spec:
  assumes "good_packet p" and "parseIPv4Transport p = Some (s0, d0, proto, sp0, dp0)"
  shows "\<exists>q. rewrite_packet p (Addr4 a b c d) (Addr4 e f g h) sp dp proto = Some q \<and> good_packet q \<and>
     parseIPv4Transport q = Some (Addr4 a b c d, Addr4 e f g h, proto, sp, dp) \<and>
     length q = length p \<and> checksums_ok q"
proof -
  have proto: "proto = p ! 9" using good_packetD(7) [OF assms(1)] assms(2) by simp
  obtain p1 where p1: "rewriteEndpoints p (Addr4 a b c d) (Addr4 e f g h) sp dp = Some p1" "good_packet p1"
     "length p1 = length p" "p1 ! 9 = p ! 9" "src_of p1 = Addr4 a b c d" "dst_of p1 = Addr4 e f g h"
     "sport_of p1 = sp" "dport_of p1 = dp"
    using rewriteEndpoints_effect [OF assms(1)] by blast
  note g1 = good_packetD [OF p1(2)]
  obtain p2 where p2: "fixIPv4Checksum p1 = Some p2" "length p2 = length p1"
     "\<forall>j < length p1. j \<noteq> 10 \<and> j \<noteq> 11 \<longrightarrow> p2 ! j = p1 ! j"
    using fixIPv4Checksum_effect [OF p1(2)] by blast
  have f2: "ihl_of p2 = ihl_of p1" "total_len p2 = total_len p1" "src_of p2 = src_of p1"
     "dst_of p2 = dst_of p1" "p2 ! 0 = p1 ! 0" "p2 ! 9 = p1 ! 9"
    using fields_eq [of p2 p1] p2 g1(3,4) by auto
  have g2: "good_packet p2" using g1 by (intro good_packetI) (simp_all add: f2 p2(2))
  obtain q where q: "fixTransportChecksum p2 (p2 ! 9) = Some q" "length q = length p2"
     "\<forall>j < ihl_of p2 + 6. q ! j = p2 ! j"
     "ihl_of p2 + seg_min (p2 ! 9) \<le> total_len p2 \<longrightarrow>
       pseudoChecksum (src_of q) (dst_of q) (p2 ! 9) (take (total_len p2 - ihl_of p2) (drop (ihl_of p2) q)) = 0"
    using fixTransportChecksum_effect [OF g2] by blast
  note gd2 = good_packetD [OF g2]
  have fq: "ihl_of q = ihl_of p2" "total_len q = total_len p2" "src_of q = src_of p2"
     "dst_of q = dst_of p2" "q ! 0 = p2 ! 0" "q ! 9 = p2 ! 9"
    using fields_eq [of q p2] q gd2(3,4) by auto
  have ports: "sport_of q = sp" "dport_of q = dp"
    using q(3) p2(3) g1(3,4) p1(7,8) by (auto simp: sport_of_def dport_of_def fq(1) f2(1))
  have gq: "good_packet q" using gd2 by (intro good_packetI) (simp_all add: fq q(2))
  have "take (ihl_of q) q = take (ihl_of p2) p2"
    using q(2,3) gd2(4) fq(1) by (intro nth_equalityI) auto
  then have ck: "checksums_ok q"
    using fixIPv4Checksum_verifies [OF p2(1) g1(3)] q(4) by (simp add: checksums_ok_def fq)
  have "rewrite_packet p (Addr4 a b c d) (Addr4 e f g h) sp dp proto = Some q"
    using q(1) by (simp add: rewrite_packet_def p1(1) p2(1) proto f2 p1(4))
  moreover have "parseIPv4Transport q = Some (Addr4 a b c d, Addr4 e f g h, proto, sp, dp)"
    using good_packetD(7) [OF gq] by (simp add: fq f2 p1 ports proto)
  ultimately show ?thesis using gq ck q(2) p2(2) p1(3) by auto
qed


text \<open>A UDP datagram 10.0.0.2:12345 to 10.0.0.3:80 with an empty payload.\<close>

definition ex_udp :: "u8 list" where
  "ex_udp = [0x45, 0, 0, 28, 0, 0, 0, 0, 64, 17, 0, 0, 10, 0, 0, 2, 10, 0, 0, 3, 0x30, 0x39, 0, 80, 0, 8, 0, 0]"

lemma ex_udp_parse:
  "good_packet ex_udp"
  "parseIPv4Transport ex_udp = Some (Addr4 10 0 0 2, Addr4 10 0 0 3, 17, 12345, 80)"
  "dst_of ex_udp = Addr4 10 0 0 3" "src_of ex_udp = Addr4 10 0 0 2"
  by (simp_all add: good_packet_def parseIPv4Transport_def ihl_of_def total_len_def src_of_def dst_of_def
      sport_of_def dport_of_def be16_def ex_udp_def protoTCP_def protoUDP_def)


text \<open>
  \<^verbatim>\<open>parseIPv4Transport\<close> does not require a header length of at least 20: with a length of 0 the
  "ports" are the first four bytes of the IP header, which a rewrite then overwrites.
\<close>

lemma parse_accepts_short_header:
  "parseIPv4Transport [0x40, 0, 0, 20, 0, 0, 0, 0, 64, 17, 0, 0, 0, 0, 0, 0, 0, 0, 0, 0] = Some (Addr4 0 0 0 0, Addr4 0 0 0 0, 17, 0x4000, 20)"
  by (simp add: parseIPv4Transport_def ihl_of_def src_of_def dst_of_def sport_of_def dport_of_def be16_def
      protoTCP_def protoUDP_def)

end
