(* ===== verification/Snat.thy ===== *)
theory Snat
  imports Packet
begin

text \<open>
  \<^verbatim>\<open>vpn/snat\<close>: the ephemeral port pool and the transparent relay table for one-way group links.  A
  session is shared by the two lookup maps through a pointer; the model keeps the sessions in a store
  and lets both maps hold its index.  The clock and the random source are arguments.  The invariant
  says that both maps and the set of ports in use always agree; from it follow that different flows
  never share a hub port and that a reply finds its way back to the client that opened the flow.
\<close>

section \<open>The port pool (\<^verbatim>\<open>ports.go\<close>)\<close>

definition EphemeralPortMin :: nat where "EphemeralPortMin = 20000"
definition EphemeralPortMax :: nat where "EphemeralPortMax = 65000"
definition SessionIdle :: int where "SessionIdle = 2 * 60 * 1000000000"

record ephemeralPortPool =
  pp_reserved :: "u16 goset"
  pp_inUse :: "u16 goset"

definition newEphemeralPortPool :: ephemeralPortPool where
  "newEphemeralPortPool = \<lparr>pp_reserved = [], pp_inUse = []\<rparr>"

definition resetInUse :: "ephemeralPortPool \<Rightarrow> ephemeralPortPool" where
  "resetInUse p = p\<lparr>pp_inUse := []\<rparr>"

definition reserveHubPorts :: "ephemeralPortPool \<Rightarrow> int list \<Rightarrow> ephemeralPortPool" where
  "reserveHubPorts p ports =
     fold (\<lambda>port p. if port \<ge> 0 \<and> port \<le> 65535
        then p\<lparr>pp_reserved := List.insert (of_int port) (pp_reserved p)\<rparr> else p) ports p"

text \<open>
  \<^verbatim>\<open>crypto/rand.Int\<close> with bound \<open>span\<close>: the \<open>i\<close>-th call fails or yields some number, reduced to the
  interval below the bound.
\<close>

type_synonym random = "nat \<Rightarrow> err + nat"

definition rand_Int :: "random \<Rightarrow> nat \<Rightarrow> nat \<Rightarrow> err + nat" where
  "rand_Int rnd i span = (case rnd i of Inl e \<Rightarrow> Inl e | Inr n \<Rightarrow> Inr (n mod span))"

fun pick_loop :: "random \<Rightarrow> nat \<Rightarrow> nat \<Rightarrow> ephemeralPortPool \<Rightarrow> err + (u16 \<times> ephemeralPortPool)" where
  "pick_loop rnd 0 i p = Inl ErrPortsExhausted"
| "pick_loop rnd (Suc left) i p =
     (case rand_Int rnd i (EphemeralPortMax - EphemeralPortMin + 1) of
        Inl e \<Rightarrow> Inl e
      | Inr n \<Rightarrow>
          let port = of_nat (EphemeralPortMin + n) in
          if port \<in> set (pp_reserved p) then pick_loop rnd left (Suc i) p
          else if port \<in> set (pp_inUse p) then pick_loop rnd left (Suc i) p
          else Inr (port, p\<lparr>pp_inUse := List.insert port (pp_inUse p)\<rparr>))"

definition pick :: "random \<Rightarrow> ephemeralPortPool \<Rightarrow> err + (u16 \<times> ephemeralPortPool)" where
  "pick rnd p = pick_loop rnd 256 0 p"

section \<open>The relay table (\<^verbatim>\<open>transparent.go\<close>)\<close>

record flowKey =
  fk_client :: addr
  fk_server :: addr
  fk_clientPort :: u16
  fk_serverPort :: u16
  fk_proto :: u8

record snatSession =
  ss_key :: flowKey
  ss_hubPort :: u16
  ss_lastSeen :: int

record TransparentTable =
  tt_hubIP :: addr
  tt_peerGrp :: "(addr, nat) gomap"
  tt_uniLinks :: "(nat, nat goset) gomap"
  tt_sessions :: "snatSession list"
  tt_byFlow :: "(flowKey, nat) gomap"
  tt_byPort :: "(u16, nat) gomap"
  tt_ports :: ephemeralPortPool

definition NewTransparentTable :: TransparentTable where
  "NewTransparentTable = \<lparr>tt_hubIP = NoAddr, tt_peerGrp = [], tt_uniLinks = [], tt_sessions = [],
     tt_byFlow = [], tt_byPort = [], tt_ports = newEphemeralPortPool\<rparr>"

definition SetHubIP :: "TransparentTable \<Rightarrow> addr \<Rightarrow> TransparentTable" where
  "SetHubIP t a = t\<lparr>tt_hubIP := a\<rparr>"

definition RegisterPeer :: "TransparentTable \<Rightarrow> addr \<Rightarrow> nat \<Rightarrow> TransparentTable" where
  "RegisterPeer t ip groupID = t\<lparr>tt_peerGrp := mput ip groupID (tt_peerGrp t)\<rparr>"

definition RegisterUniLink :: "TransparentTable \<Rightarrow> nat \<Rightarrow> nat \<Rightarrow> TransparentTable" where
  "RegisterUniLink t fromGroup toGroup =
     (let to = (case mget (tt_uniLinks t) fromGroup of None \<Rightarrow> [] | Some g \<Rightarrow> g)
      in t\<lparr>tt_uniLinks := mput fromGroup (List.insert toGroup to) (tt_uniLinks t)\<rparr>)"

definition ReserveHubPorts :: "TransparentTable \<Rightarrow> int list \<Rightarrow> TransparentTable" where
  "ReserveHubPorts t ports = t\<lparr>tt_ports := reserveHubPorts (tt_ports t) ports\<rparr>"

definition Reset :: "TransparentTable \<Rightarrow> TransparentTable" where
  "Reset t = t\<lparr>tt_byFlow := [], tt_byPort := [], tt_ports := resetInUse (tt_ports t)\<rparr>"

definition needsSNAT :: "TransparentTable \<Rightarrow> addr \<Rightarrow> addr \<Rightarrow> bool" where
  "needsSNAT t src dst =
     (case (mget (tt_peerGrp t) src, mget (tt_peerGrp t) dst) of
        (Some sg, Some dg) \<Rightarrow>
          if sg = dg then False
          else (case mget (tt_uniLinks t) sg of None \<Rightarrow> False | Some to \<Rightarrow> dg \<in> set to)
      | _ \<Rightarrow> False)"

definition touch :: "TransparentTable \<Rightarrow> nat \<Rightarrow> int \<Rightarrow> TransparentTable" where
  "touch t r now = t\<lparr>tt_sessions := (tt_sessions t)[r := (tt_sessions t ! r)\<lparr>ss_lastSeen := now\<rparr>]\<rparr>"

text \<open>
  One session is dropped from the three places that know it; \<^verbatim>\<open>gcLocked\<close> does so for every idle
  session.
\<close>

definition drop_session :: "flowKey \<Rightarrow> nat \<Rightarrow> TransparentTable \<Rightarrow> TransparentTable" where
  "drop_session k r t =
     (let port = ss_hubPort (tt_sessions t ! r) in
      t\<lparr>tt_byPort := mdel port (tt_byPort t), tt_byFlow := mdel k (tt_byFlow t),
        tt_ports := (tt_ports t)\<lparr>pp_inUse := removeAll port (pp_inUse (tt_ports t))\<rparr>\<rparr>)"

definition gc_entry :: "int \<Rightarrow> flowKey \<times> nat \<Rightarrow> TransparentTable \<Rightarrow> TransparentTable" where
  "gc_entry now e t = (case e of (k, r) \<Rightarrow>
     if now - ss_lastSeen (tt_sessions t ! r) > SessionIdle then drop_session k r t else t)"

definition snat_gc :: "TransparentTable \<Rightarrow> int \<Rightarrow> TransparentTable" where
  "snat_gc t now = fold (gc_entry now) (tt_byFlow t) t"

text \<open>
  The two packet handlers return the table, the packet as rewritten in place, and the flag; \<open>None\<close> is
  a panic.
\<close>

definition ProcessIngressFromWG ::
    "TransparentTable \<Rightarrow> int \<Rightarrow> u8 list \<Rightarrow> (TransparentTable \<times> u8 list \<times> bool) option" where
  "ProcessIngressFromWG t now packet =
     (if tt_hubIP t = NoAddr then Some (t, packet, False)
      else case parseIPv4Transport packet of
        None \<Rightarrow> Some (t, packet, False)
      | Some (src, dst, proto, sport, dport) \<Rightarrow>
          if dst \<noteq> tt_hubIP t then Some (t, packet, False)
          else case mget (tt_byPort t) dport of
            Some r \<Rightarrow> do {
              let t = touch t r now;
              let key = ss_key (tt_sessions t ! r);
              packet \<leftarrow> rewrite_packet packet src (fk_client key) sport (fk_clientPort key) proto;
              Some (t, packet, True)
            }
          | None \<Rightarrow> Some (t, packet, False))"

text \<open>The session lookup and creation of the egress path.\<close>

definition add_session :: "TransparentTable \<Rightarrow> flowKey \<Rightarrow> u16 \<Rightarrow> int \<Rightarrow> TransparentTable" where
  "add_session t key port now =
     (let r = length (tt_sessions t) in
      t\<lparr>tt_sessions := tt_sessions t @ [\<lparr>ss_key = key, ss_hubPort = port, ss_lastSeen = now\<rparr>],
        tt_byFlow := mput key r (tt_byFlow t),
        tt_byPort := mput port r (tt_byPort t)\<rparr>)"

definition egress_session ::
    "TransparentTable \<Rightarrow> int \<Rightarrow> random \<Rightarrow> flowKey \<Rightarrow> err + (TransparentTable \<times> nat)" where
  "egress_session t now rnd key =
     (case mget (tt_byFlow t) key of
        Some r \<Rightarrow> Inr (t, r)
      | None \<Rightarrow>
         (case pick rnd (tt_ports t) of
            Inl e \<Rightarrow> Inl e
          | Inr (port, ports) \<Rightarrow>
              Inr (add_session (t\<lparr>tt_ports := ports\<rparr>) key port now, length (tt_sessions t))))"

definition ProcessEgressToWG ::
    "TransparentTable \<Rightarrow> int \<Rightarrow> random \<Rightarrow> u8 list \<Rightarrow> (TransparentTable \<times> u8 list \<times> bool) option" where
  "ProcessEgressToWG t now rnd packet =
     (if tt_hubIP t = NoAddr then Some (t, packet, False)
      else case parseIPv4Transport packet of
        None \<Rightarrow> Some (t, packet, False)
      | Some (src, dst, proto, sport, dport) \<Rightarrow>
          if \<not> needsSNAT t src dst then Some (t, packet, False)
          else let key = \<lparr>fk_client = src, fk_server = dst, fk_clientPort = sport, fk_serverPort = dport,
                          fk_proto = proto\<rparr> in
            (case egress_session t now rnd key of
               Inl e \<Rightarrow> Some (t, packet, False)
             | Inr (t, r) \<Rightarrow> do {
                 let t = touch t r now;
                 packet \<leftarrow> rewrite_packet packet (tt_hubIP t) dst (ss_hubPort (tt_sessions t ! r)) dport proto;
                 Some (snat_gc t now, packet, True)
               }))"

section \<open>Picking a port\<close>

definition port_of_draw :: "nat \<Rightarrow> u16" where
  "port_of_draw n = of_nat (20000 + n mod 45001)"

definition free_port :: "ephemeralPortPool \<Rightarrow> u16 \<Rightarrow> bool" where
  "free_port p port = (port \<notin> set (pp_reserved p) \<and> port \<notin> set (pp_inUse p) \<and>
     EphemeralPortMin \<le> unat port \<and> unat port \<le> EphemeralPortMax)"

lemma unat_port_of_draw: "unat (port_of_draw n) = 20000 + n mod 45001"
proof -
  have "n mod 45001 < 45001" by simp
  then have "20000 + n mod 45001 < 65536" by linarith
  then show ?thesis by (simp only: port_of_draw_def unsigned_of_nat take_bit_eq_mod) simp
qed

lemma pick_loop_Suc:
  "pick_loop rnd (Suc left) i p =
     (case rnd i of Inl e \<Rightarrow> Inl e
      | Inr n \<Rightarrow> if free_port p (port_of_draw n)
          then Inr (port_of_draw n, p\<lparr>pp_inUse := List.insert (port_of_draw n) (pp_inUse p)\<rparr>)
          else pick_loop rnd left (Suc i) p)"
proof -
  have "20000 \<le> unat (port_of_draw n)" "unat (port_of_draw n) \<le> 65000" for n
  proof -
    have "n mod 45001 < 45001" by simp
    then show "20000 \<le> unat (port_of_draw n)" "unat (port_of_draw n) \<le> 65000"
      unfolding unat_port_of_draw by linarith+
  qed
  then have range: "EphemeralPortMin \<le> unat (port_of_draw n) \<and> unat (port_of_draw n) \<le> EphemeralPortMax" for n
    by (simp add: EphemeralPortMin_def EphemeralPortMax_def)
  have draw: "of_nat (EphemeralPortMin + n mod (EphemeralPortMax - EphemeralPortMin + 1)) = port_of_draw n" for n
    by (simp add: port_of_draw_def EphemeralPortMin_def EphemeralPortMax_def)
  show ?thesis
    by (cases "rnd i") (simp_all only: pick_loop.simps rand_Int_def sum.case Let_def draw free_port_def range, simp_all)
qed

declare pick_loop.simps(2) [simp del]

lemma pick_loop_Inr:
  "pick_loop rnd left i p = Inr (port, p') \<Longrightarrow>
     free_port p port \<and> p' = p\<lparr>pp_inUse := List.insert port (pp_inUse p)\<rparr>"
  by (induction left arbitrary: i) (auto simp: pick_loop_Suc split: sum.splits if_splits)

lemma pick_loop_finds:
  assumes "k < left" "\<And>j. j \<le> k \<Longrightarrow> \<exists>n. rnd (i + j) = Inr n"
    and "rnd (i + k) = Inr n" "free_port p (port_of_draw n)"
  shows "is_ok (pick_loop rnd left i p)"
  using assms
proof (induction left arbitrary: i k)
  case (Suc left)
  obtain n0 where n0: "rnd i = Inr n0" using Suc.prems(2) [of 0] by auto
  show ?case
  proof (cases "free_port p (port_of_draw n0)")
    case True
    with n0 show ?thesis by (simp add: pick_loop_Suc)
  next
    case False
    with n0 Suc.prems obtain k' where k: "k = Suc k'" by (cases k) auto
    have "\<exists>n. rnd (Suc i + j) = Inr n" if "j \<le> k'" for j using Suc.prems(2) [of "Suc j"] that k by simp
    then have "is_ok (pick_loop rnd left (Suc i) p)"
      using Suc.IH [of k' "Suc i"] Suc.prems k by simp
    with False n0 show ?thesis by (simp add: pick_loop_Suc)
  qed
qed simp

lemma pick_Inr:
  "pick rnd p = Inr (port, p') \<Longrightarrow> free_port p port \<and> p' = p\<lparr>pp_inUse := List.insert port (pp_inUse p)\<rparr>"
  unfolding pick_def by (rule pick_loop_Inr)

text \<open>
  The port pool succeeds as soon as one of its 256 draws hits a port that is neither reserved nor
  in use, and the port it hands out is such a port of the range 20000..65000, marked as in use.
\<close>

theorem pick_correct:
  assumes "k < 256" and "list_all (\<lambda>j. is_ok (rnd j)) [0..<Suc k]" and "rnd k = Inr n"
    and "free_port p (port_of_draw n)"
  shows "\<exists>port p'. pick rnd p = Inr (port, p') \<and> free_port p port \<and> \<not> free_port p' port"
proof -
  have "\<exists>n. rnd (0 + j) = Inr n" if "j \<le> k" for j
    using assms(2) that by (auto simp: list_all_iff is_ok_iff)
  with pick_loop_finds [of k 256 rnd 0 n p] assms have "is_ok (pick rnd p)" by (simp add: pick_def)
  then obtain port p' where pk: "pick rnd p = Inr (port, p')" by (auto simp: is_ok_iff)
  with pick_Inr [OF pk] show ?thesis by (auto simp: free_port_def)
qed

theorem pick_correct_witness:
  "\<exists>port p'. pick (\<lambda>i. Inr (if i = 0 then 0 else 7)) \<lparr>pp_reserved = [20000], pp_inUse = []\<rparr> = Inr (port, p') \<and>
     free_port \<lparr>pp_reserved = [20000], pp_inUse = []\<rparr> port \<and> \<not> free_port p' port"
  by (rule pick_correct [where k = 1 and n = 7])
    (simp_all add: free_port_def port_of_draw_def EphemeralPortMin_def EphemeralPortMax_def)

section \<open>The table invariant\<close>

definition snat_inv :: "TransparentTable \<Rightarrow> bool" where
  "snat_inv t \<longleftrightarrow> mdistinct (tt_byFlow t) \<and> mdistinct (tt_byPort t) \<and>
     (\<forall>k r. mget (tt_byFlow t) k = Some r \<longrightarrow> r < length (tt_sessions t) \<and> ss_key (tt_sessions t ! r) = k \<and>
        mget (tt_byPort t) (ss_hubPort (tt_sessions t ! r)) = Some r) \<and>
     (\<forall>p r. mget (tt_byPort t) p = Some r \<longrightarrow> r < length (tt_sessions t) \<and> ss_hubPort (tt_sessions t ! r) = p \<and>
        mget (tt_byFlow t) (ss_key (tt_sessions t ! r)) = Some r) \<and>
     (\<forall>p. p \<in> set (pp_inUse (tt_ports t)) \<longleftrightarrow> mget (tt_byPort t) p \<noteq> None) \<and>
     (\<forall>p \<in> set (pp_inUse (tt_ports t)). EphemeralPortMin \<le> unat p \<and> unat p \<le> EphemeralPortMax)"

lemma snat_invD:
  assumes "snat_inv t"
  shows "mdistinct (tt_byFlow t)" "mdistinct (tt_byPort t)"
    "mget (tt_byFlow t) k = Some r \<Longrightarrow> r < length (tt_sessions t)"
    "mget (tt_byFlow t) k = Some r \<Longrightarrow> ss_key (tt_sessions t ! r) = k"
    "mget (tt_byFlow t) k = Some r \<Longrightarrow> mget (tt_byPort t) (ss_hubPort (tt_sessions t ! r)) = Some r"
    "mget (tt_byPort t) p = Some r \<Longrightarrow> r < length (tt_sessions t)"
    "mget (tt_byPort t) p = Some r \<Longrightarrow> ss_hubPort (tt_sessions t ! r) = p"
    "mget (tt_byPort t) p = Some r \<Longrightarrow> mget (tt_byFlow t) (ss_key (tt_sessions t ! r)) = Some r"
    "p \<in> set (pp_inUse (tt_ports t)) \<longleftrightarrow> mget (tt_byPort t) p \<noteq> None"
    "p \<in> set (pp_inUse (tt_ports t)) \<Longrightarrow> EphemeralPortMin \<le> unat p \<and> unat p \<le> EphemeralPortMax"
  using assms unfolding snat_inv_def by blast+

lemma snat_invI:
  assumes "mdistinct (tt_byFlow t)" "mdistinct (tt_byPort t)"
    and "\<And>k r. mget (tt_byFlow t) k = Some r \<Longrightarrow> r < length (tt_sessions t) \<and> ss_key (tt_sessions t ! r) = k \<and>
        mget (tt_byPort t) (ss_hubPort (tt_sessions t ! r)) = Some r"
    and "\<And>p r. mget (tt_byPort t) p = Some r \<Longrightarrow> r < length (tt_sessions t) \<and> ss_hubPort (tt_sessions t ! r) = p \<and>
        mget (tt_byFlow t) (ss_key (tt_sessions t ! r)) = Some r"
    and "\<And>p. p \<in> set (pp_inUse (tt_ports t)) \<longleftrightarrow> mget (tt_byPort t) p \<noteq> None"
    and "\<And>p. p \<in> set (pp_inUse (tt_ports t)) \<Longrightarrow> EphemeralPortMin \<le> unat p \<and> unat p \<le> EphemeralPortMax"
  shows "snat_inv t"
  using assms unfolding snat_inv_def by blast

lemma snat_inv_New: "snat_inv NewTransparentTable"
  by (simp add: snat_inv_def NewTransparentTable_def newEphemeralPortPool_def)

lemma pp_inUse_reserve [simp]: "pp_inUse (reserveHubPorts p ports) = pp_inUse p"
  unfolding reserveHubPorts_def by (induction ports arbitrary: p) auto

lemma snat_inv_admin:
  "snat_inv t \<Longrightarrow> snat_inv (SetHubIP t a)"
  "snat_inv t \<Longrightarrow> snat_inv (RegisterPeer t ip g)"
  "snat_inv t \<Longrightarrow> snat_inv (RegisterUniLink t g1 g2)"
  "snat_inv t \<Longrightarrow> snat_inv (ReserveHubPorts t ports)"
  "snat_inv t \<Longrightarrow> snat_inv (Reset t)"
  by (simp_all add: snat_inv_def SetHubIP_def RegisterPeer_def RegisterUniLink_def ReserveHubPorts_def
      Reset_def resetInUse_def Let_def)

lemma touch_sel [simp]:
  "tt_hubIP (touch t r now) = tt_hubIP t" "tt_byFlow (touch t r now) = tt_byFlow t"
  "tt_byPort (touch t r now) = tt_byPort t" "tt_ports (touch t r now) = tt_ports t"
  "tt_peerGrp (touch t r now) = tt_peerGrp t" "tt_uniLinks (touch t r now) = tt_uniLinks t"
  "length (tt_sessions (touch t r now)) = length (tt_sessions t)"
  by (simp_all add: touch_def)

lemma touch_session [simp]:
  "ss_key (tt_sessions (touch t r now) ! i) = ss_key (tt_sessions t ! i)"
  "ss_hubPort (tt_sessions (touch t r now) ! i) = ss_hubPort (tt_sessions t ! i)"
proof -
  have "r < length (tt_sessions t) \<and> i = r \<or> tt_sessions (touch t r now) ! i = tt_sessions t ! i"
    by (cases "r < length (tt_sessions t)"; cases "i = r") (auto simp: touch_def list_update_beyond)
  then show "ss_key (tt_sessions (touch t r now) ! i) = ss_key (tt_sessions t ! i)"
    "ss_hubPort (tt_sessions (touch t r now) ! i) = ss_hubPort (tt_sessions t ! i)"
    by (auto simp: touch_def)
qed

lemma snat_inv_touch: "snat_inv t \<Longrightarrow> snat_inv (touch t r now)"
  by (simp add: snat_inv_def)

lemma snat_inv_drop:
  assumes inv: "snat_inv t" and k: "mget (tt_byFlow t) k = Some r"
  shows "snat_inv (drop_session k r t)"
proof -
  note d = snat_invD [OF inv]
  let ?port = "ss_hubPort (tt_sessions t ! r)"
  have other: "ss_hubPort (tt_sessions t ! r') \<noteq> ?port" if "mget (tt_byFlow t) k' = Some r'" "k' \<noteq> k" for k' r'
    using d(4,5) [OF that(1)] d(4,5) [OF k] that(2) by (metis option.inject)
  have keys: "ss_key (tt_sessions t ! r') \<noteq> k" if "mget (tt_byPort t) p = Some r'" "p \<noteq> ?port" for p r'
    using d(7,8) [OF that(1)] k that(2) by (metis option.inject)
  show ?thesis
  proof (rule snat_invI)
    fix k' r'
    assume "mget (tt_byFlow (drop_session k r t)) k' = Some r'"
    then have k': "mget (tt_byFlow t) k' = Some r'" "k' \<noteq> k"
      by (simp_all add: drop_session_def Let_def split: if_splits)
    from d(3-5) [OF k'(1)] other [OF k'] show "r' < length (tt_sessions (drop_session k r t)) \<and>
        ss_key (tt_sessions (drop_session k r t) ! r') = k' \<and>
        mget (tt_byPort (drop_session k r t)) (ss_hubPort (tt_sessions (drop_session k r t) ! r')) = Some r'"
      by (simp add: drop_session_def Let_def)
  next
    fix p r'
    assume "mget (tt_byPort (drop_session k r t)) p = Some r'"
    then have p: "mget (tt_byPort t) p = Some r'" "p \<noteq> ?port"
      by (simp_all add: drop_session_def Let_def split: if_splits)
    from d(6-8) [OF p(1)] keys [OF p] show "r' < length (tt_sessions (drop_session k r t)) \<and>
        ss_hubPort (tt_sessions (drop_session k r t) ! r') = p \<and>
        mget (tt_byFlow (drop_session k r t)) (ss_key (tt_sessions (drop_session k r t) ! r')) = Some r'"
      by (simp add: drop_session_def Let_def)
  next
    show "mdistinct (tt_byFlow (drop_session k r t))" "mdistinct (tt_byPort (drop_session k r t))"
      using d(1,2) by (simp_all add: drop_session_def Let_def)
  next
    fix p
    show "p \<in> set (pp_inUse (tt_ports (drop_session k r t))) \<longleftrightarrow> mget (tt_byPort (drop_session k r t)) p \<noteq> None"
      using d(9) [of p] by (simp add: drop_session_def Let_def)
    show "p \<in> set (pp_inUse (tt_ports (drop_session k r t))) \<Longrightarrow> EphemeralPortMin \<le> unat p \<and> unat p \<le> EphemeralPortMax"
      using d(10) [of p] by (simp add: drop_session_def Let_def)
  qed
qed

lemma drop_session_sel [simp]:
  "tt_sessions (drop_session k r t) = tt_sessions t" "tt_hubIP (drop_session k r t) = tt_hubIP t"
  "tt_byFlow (drop_session k r t) = mdel k (tt_byFlow t)"
  "tt_peerGrp (drop_session k r t) = tt_peerGrp t" "tt_uniLinks (drop_session k r t) = tt_uniLinks t"
  by (simp_all add: drop_session_def Let_def)

definition idle :: "TransparentTable \<Rightarrow> int \<Rightarrow> nat \<Rightarrow> bool" where
  "idle t now r = (now - ss_lastSeen (tt_sessions t ! r) > SessionIdle)"

lemma gc_fold:
  assumes "snat_inv t" and "mdistinct es" and "\<And>k r. (k, r) \<in> set es \<Longrightarrow> mget (tt_byFlow t) k = Some r"
  shows "snat_inv (fold (gc_entry now) es t) \<and> tt_sessions (fold (gc_entry now) es t) = tt_sessions t \<and>
     tt_hubIP (fold (gc_entry now) es t) = tt_hubIP t \<and> tt_peerGrp (fold (gc_entry now) es t) = tt_peerGrp t \<and>
     tt_uniLinks (fold (gc_entry now) es t) = tt_uniLinks t \<and>
     (\<forall>k. mget (tt_byFlow (fold (gc_entry now) es t)) k =
       (if \<exists>r. (k, r) \<in> set es \<and> idle t now r then None else mget (tt_byFlow t) k))"
  using assms
proof (induction es arbitrary: t)
  case Nil
  then show ?case by simp
next
  case (Cons e es)
  obtain k r where e: "e = (k, r)" by (cases e)
  have kr: "mget (tt_byFlow t) k = Some r" using Cons.prems e by simp
  have notin: "(k, r') \<notin> set es" for r' using Cons.prems(2) e by force
  have de: "mdistinct es" using Cons.prems(2) by simp
  show ?case
  proof (cases "idle t now r")
    case True
    let ?u = "drop_session k r t"
    have step: "gc_entry now e t = ?u" using True by (simp add: gc_entry_def e idle_def)
    have ok: "mget (tt_byFlow ?u) k' = Some r'" if "(k', r') \<in> set es" for k' r'
      using Cons.prems(3) [of k' r'] that notin by auto
    have "idle ?u now = idle t now" by (simp add: idle_def fun_eq_iff)
    with Cons.IH [OF snat_inv_drop [OF Cons.prems(1) kr] de ok] True notin show ?thesis
      by (auto simp: step [unfolded e] e)
  next
    case False
    then have step: "gc_entry now e t = t" by (simp add: gc_entry_def e idle_def)
    have ok: "\<And>k' r'. (k', r') \<in> set es \<Longrightarrow> mget (tt_byFlow t) k' = Some r'"
      using Cons.prems(3) by simp
    from Cons.IH [OF Cons.prems(1) de ok] False show ?thesis by (auto simp: step [unfolded e] e)
  qed
qed

lemma snat_gc_spec:
  assumes "snat_inv t"
  shows "snat_inv (snat_gc t now)" "tt_sessions (snat_gc t now) = tt_sessions t"
    "tt_hubIP (snat_gc t now) = tt_hubIP t" "tt_peerGrp (snat_gc t now) = tt_peerGrp t"
    "tt_uniLinks (snat_gc t now) = tt_uniLinks t"
    "mget (tt_byFlow (snat_gc t now)) k =
       (case mget (tt_byFlow t) k of None \<Rightarrow> None | Some r \<Rightarrow> if idle t now r then None else Some r)"
proof -
  note d = snat_invD(1) [OF assms]
  have in_flow: "(k, r) \<in> set (tt_byFlow t) \<longleftrightarrow> mget (tt_byFlow t) k = Some r" for k r
    using d by (simp add: map_of_eq_Some_iff)
  note gc = gc_fold [OF assms d, of now, folded snat_gc_def]
  show "snat_inv (snat_gc t now)" "tt_sessions (snat_gc t now) = tt_sessions t"
    "tt_hubIP (snat_gc t now) = tt_hubIP t" "tt_peerGrp (snat_gc t now) = tt_peerGrp t"
    "tt_uniLinks (snat_gc t now) = tt_uniLinks t"
    using gc in_flow by auto
  have "mget (tt_byFlow (snat_gc t now)) k =
     (if \<exists>r. mget (tt_byFlow t) k = Some r \<and> idle t now r then None else mget (tt_byFlow t) k)"
    using gc in_flow by simp
  then show "mget (tt_byFlow (snat_gc t now)) k =
       (case mget (tt_byFlow t) k of None \<Rightarrow> None | Some r \<Rightarrow> if idle t now r then None else Some r)"
    by (auto split: option.splits)
qed

lemma egress_session_old:
  "mget (tt_byFlow t) key = Some r \<Longrightarrow> egress_session t now rnd key = Inr (t, r)"
  by (simp add: egress_session_def)

lemma egress_session_new:
  assumes "mget (tt_byFlow t) key = None" and "egress_session t now rnd key = Inr (t', r)"
  shows "\<exists>port. free_port (tt_ports t) port \<and> r = length (tt_sessions t) \<and>
    t' = add_session (t\<lparr>tt_ports := (tt_ports t)\<lparr>pp_inUse := List.insert port (pp_inUse (tt_ports t))\<rparr>\<rparr>) key port now"
proof -
  obtain port ports where "pick rnd (tt_ports t) = Inr (port, ports)"
    using assms by (auto simp: egress_session_def split: sum.splits)
  with pick_Inr [OF this] assms show ?thesis by (auto simp: egress_session_def)
qed

lemma snat_inv_new_session:
  assumes inv: "snat_inv t" and key: "mget (tt_byFlow t) key = None" and fp: "free_port (tt_ports t) port"
    and r: "r = length (tt_sessions t)"
    and t0: "t' = add_session (t\<lparr>tt_ports := (tt_ports t)\<lparr>pp_inUse := List.insert port (pp_inUse (tt_ports t))\<rparr>\<rparr>) key port now"
  shows "snat_inv t'"
proof -
  note d = snat_invD [OF inv]
  note t' = t0 [unfolded add_session_def Let_def, simplified]
  have port: "mget (tt_byPort t) port = None" using fp d(9) [of port] by (auto simp: free_port_def)
  have old: "tt_sessions t' ! r' = tt_sessions t ! r'" if "r' < length (tt_sessions t)" for r'
    using that by (simp add: t' nth_append)
  have new: "tt_sessions t' ! r = \<lparr>ss_key = key, ss_hubPort = port, ss_lastSeen = now\<rparr>"
    by (simp add: t' r)
  show ?thesis
  proof (rule snat_invI)
    fix k r' assume k: "mget (tt_byFlow t') k = Some r'"
    show "r' < length (tt_sessions t') \<and> ss_key (tt_sessions t' ! r') = k \<and>
        mget (tt_byPort t') (ss_hubPort (tt_sessions t' ! r')) = Some r'"
    proof (cases "k = key")
      case True
      with k have "r' = r" by (simp add: t' r)
      with new True show ?thesis by (simp add: t' r)
    next
      case False
      with k have k': "mget (tt_byFlow t) k = Some r'" by (simp add: t')
      from d(3-5) [OF k'] old [of r'] port show ?thesis by (auto simp: t')
    qed
  next
    fix p r' assume p: "mget (tt_byPort t') p = Some r'"
    show "r' < length (tt_sessions t') \<and> ss_hubPort (tt_sessions t' ! r') = p \<and>
        mget (tt_byFlow t') (ss_key (tt_sessions t' ! r')) = Some r'"
    proof (cases "p = port")
      case True
      with p have "r' = r" by (simp add: t' r)
      with new True show ?thesis by (simp add: t' r)
    next
      case False
      with p have p': "mget (tt_byPort t) p = Some r'" by (simp add: t')
      from d(6-8) [OF p'] old [of r'] key show ?thesis by (auto simp: t')
    qed
  next
    show "mdistinct (tt_byFlow t')" "mdistinct (tt_byPort t')" using d(1,2) by (simp_all add: t')
  next
    fix p
    show "p \<in> set (pp_inUse (tt_ports t')) \<longleftrightarrow> mget (tt_byPort t') p \<noteq> None"
      using d(9) [of p] by (simp add: t')
    show "p \<in> set (pp_inUse (tt_ports t')) \<Longrightarrow> EphemeralPortMin \<le> unat p \<and> unat p \<le> EphemeralPortMax"
      using d(10) [of p] fp by (auto simp: t' free_port_def)
  qed
qed

lemma egress_session_spec:
  assumes inv: "snat_inv t" and e: "egress_session t now rnd key = Inr (t', r)"
  shows "snat_inv t'" "mget (tt_byFlow t') key = Some r" "tt_hubIP t' = tt_hubIP t"
proof -
  have "snat_inv t' \<and> mget (tt_byFlow t') key = Some r \<and> tt_hubIP t' = tt_hubIP t"
  proof (cases "mget (tt_byFlow t) key")
    case (Some r0)
    with egress_session_old [OF Some] e inv show ?thesis by auto
  next
    case None
    from egress_session_new [OF None e] obtain port where new: "free_port (tt_ports t) port" "r = length (tt_sessions t)"
      "t' = add_session (t\<lparr>tt_ports := (tt_ports t)\<lparr>pp_inUse := List.insert port (pp_inUse (tt_ports t))\<rparr>\<rparr>) key port now"
      by blast
    from snat_inv_new_session [OF inv None new] new(2) show ?thesis
      unfolding new(3) by (simp add: add_session_def Let_def)
  qed
  then show "snat_inv t'" "mget (tt_byFlow t') key = Some r" "tt_hubIP t' = tt_hubIP t" by auto
qed

lemma snat_inv_ingress:
  "snat_inv t \<Longrightarrow> ProcessIngressFromWG t now p = Some (t', q, b) \<Longrightarrow> snat_inv t'"
  by (auto simp: ProcessIngressFromWG_def Let_def snat_inv_touch
      split: if_splits option.splits prod.splits Option.bind_splits)

lemma snat_inv_egress:
  assumes "snat_inv t" and "ProcessEgressToWG t now rnd p = Some (t', q, b)"
  shows "snat_inv t'"
  using assms egress_session_spec(1) [OF assms(1)] snat_gc_spec(1) [OF snat_inv_touch]
  by (auto simp: ProcessEgressToWG_def Let_def split: if_splits option.splits prod.splits sum.splits Option.bind_splits)

text \<open>The table as a state machine: everything the program ever does with a table.\<close>

inductive snat_reach :: "TransparentTable \<Rightarrow> bool" where
  new: "snat_reach NewTransparentTable"
| hub: "snat_reach t \<Longrightarrow> snat_reach (SetHubIP t a)"
| peer: "snat_reach t \<Longrightarrow> snat_reach (RegisterPeer t ip g)"
| link: "snat_reach t \<Longrightarrow> snat_reach (RegisterUniLink t g1 g2)"
| reserve: "snat_reach t \<Longrightarrow> snat_reach (ReserveHubPorts t ports)"
| reset: "snat_reach t \<Longrightarrow> snat_reach (Reset t)"
| ingress: "snat_reach t \<Longrightarrow> ProcessIngressFromWG t now p = Some (t', q, b) \<Longrightarrow> snat_reach t'"
| egress: "snat_reach t \<Longrightarrow> ProcessEgressToWG t now rnd p = Some (t', q, b) \<Longrightarrow> snat_reach t'"

lemma snat_reach_inv: "snat_reach t \<Longrightarrow> snat_inv t"
  by (induction rule: snat_reach.induct)
    (auto intro: snat_inv_New snat_inv_admin snat_inv_ingress snat_inv_egress)

text \<open>
  C9: whatever sequence of registrations, resets, expiries and packets a relay table goes through, no
  two live flows ever share a hub port, every live hub port leads back to its own flow, and it lies in
  the ephemeral range.
\<close>

theorem snat_ports_unique:
  assumes "snat_reach t" and "mget (tt_byFlow t) k1 = Some r1" and "mget (tt_byFlow t) k2 = Some r2"
    and "ss_hubPort (tt_sessions t ! r1) = ss_hubPort (tt_sessions t ! r2)"
  shows "k1 = k2 \<and> r1 = r2 \<and> mget (tt_byPort t) (ss_hubPort (tt_sessions t ! r1)) = Some r1 \<and>
     20000 \<le> unat (ss_hubPort (tt_sessions t ! r1)) \<and> unat (ss_hubPort (tt_sessions t ! r1)) \<le> 65000"
proof -
  note d = snat_invD [OF snat_reach_inv [OF assms(1)]]
  have p: "mget (tt_byPort t) (ss_hubPort (tt_sessions t ! r1)) = Some r1" by (rule d(5) [OF assms(2)])
  have "mget (tt_byPort t) (ss_hubPort (tt_sessions t ! r1)) = Some r2"
    unfolding assms(4) by (rule d(5) [OF assms(3)])
  with p have r: "r1 = r2" by (simp only: option.inject)
  have k: "k1 = k2" using d(4) [OF assms(2)] d(4) [OF assms(3)] unfolding r by (rule trans [OF sym])
  have "ss_hubPort (tt_sessions t ! r1) \<in> set (pp_inUse (tt_ports t))" unfolding d(9) p by simp
  from d(10) [OF this] p r k show ?thesis unfolding EphemeralPortMin_def EphemeralPortMax_def by blast
qed

lemma egress_success:
  assumes inv: "snat_inv t" and hub: "tt_hubIP t = Addr4 h1 h2 h3 h4"
    and good: "good_packet p" and parse: "parseIPv4Transport p = Some (c, s, proto, cp, sp)"
    and e: "ProcessEgressToWG t now rnd p = Some (t', q, True)"
  shows "\<exists>hp r. good_packet q \<and> parseIPv4Transport q = Some (tt_hubIP t, s, proto, hp, sp) \<and> checksums_ok q \<and>
     mget (tt_byPort t') hp = Some r \<and> fk_client (ss_key (tt_sessions t' ! r)) = c \<and>
     fk_clientPort (ss_key (tt_sessions t' ! r)) = cp \<and> tt_hubIP t' = tt_hubIP t \<and> snat_inv t'"
proof -
  let ?key = "\<lparr>fk_client = c, fk_server = s, fk_clientPort = cp, fk_serverPort = sp, fk_proto = proto\<rparr>"
  from e hub parse obtain t1 r where t1: "egress_session t now rnd ?key = Inr (t1, r)"
    and q: "rewrite_packet p (tt_hubIP t1) s (ss_hubPort (tt_sessions t1 ! r)) sp proto = Some q"
    and t': "t' = snat_gc (touch t1 r now) now"
    by (auto simp: ProcessEgressToWG_def Let_def split: if_splits sum.splits Option.bind_splits)
  note s1 = egress_session_spec [OF inv t1]
  have inv1: "snat_inv (touch t1 r now)" by (rule snat_inv_touch [OF s1(1)])
  note gc = snat_gc_spec [OF inv1, of now]
  note d1 = snat_invD [OF s1(1)]
  have "ss_lastSeen (tt_sessions (touch t1 r now) ! r) = now"
    using d1(3) [OF s1(2)] by (simp add: touch_def)
  then have "mget (tt_byFlow t') ?key = Some r"
    using s1(2) by (simp add: t' gc(6) idle_def SessionIdle_def)
  from snat_invD(4,5) [OF gc(1) this [unfolded t']]
  have k: "ss_key (tt_sessions t' ! r) = ?key" "mget (tt_byPort t') (ss_hubPort (tt_sessions t1 ! r)) = Some r"
    by (simp_all add: t' gc(2))
  obtain e1 e2 e3 e4 where "s = Addr4 e1 e2 e3 e4"
    using good_packetD(7) [OF good] parse by (auto simp: dst_of_def)
  with rewrite_packet_spec [OF good parse, of h1 h2 h3 h4 e1 e2 e3 e4 "ss_hubPort (tt_sessions t1 ! r)" sp] q s1(3) hub
  have "good_packet q \<and> parseIPv4Transport q = Some (tt_hubIP t, s, proto, ss_hubPort (tt_sessions t1 ! r), sp) \<and> checksums_ok q"
    by auto
  with k gc(1,3) s1(3) show ?thesis by (auto simp: t')
qed

lemma egress_outcome:
  assumes inv: "snat_inv t" and hub: "tt_hubIP t = Addr4 h1 h2 h3 h4"
    and good: "good_packet p" and parse: "parseIPv4Transport p = Some (c, s, proto, cp, sp)"
  shows "\<exists>t' q b. ProcessEgressToWG t now rnd p = Some (t', q, b) \<and>
     (b \<longleftrightarrow> needsSNAT t c s \<and>
       is_ok (egress_session t now rnd \<lparr>fk_client = c, fk_server = s, fk_clientPort = cp, fk_serverPort = sp, fk_proto = proto\<rparr>)) \<and>
     (b \<or> t' = t \<and> q = p)"
proof -
  let ?key = "\<lparr>fk_client = c, fk_server = s, fk_clientPort = cp, fk_serverPort = sp, fk_proto = proto\<rparr>"
  obtain e1 e2 e3 e4 where s: "s = Addr4 e1 e2 e3 e4"
    using good_packetD(7) [OF good] parse by (auto simp: dst_of_def)
  show ?thesis
  proof (cases "needsSNAT t c s")
    case False
    with hub parse show ?thesis by (auto simp: ProcessEgressToWG_def)
  next
    case True
    show ?thesis
    proof (cases "egress_session t now rnd ?key")
      case (Inl e)
      with True hub parse show ?thesis by (auto simp: ProcessEgressToWG_def Let_def)
    next
      case (Inr x)
      obtain t1 r where x: "x = (t1, r)" by (cases x)
      note s1 = egress_session_spec [OF inv Inr [unfolded x]]
      obtain q where "rewrite_packet p (tt_hubIP t1) s (ss_hubPort (tt_sessions t1 ! r)) sp proto = Some q"
        using rewrite_packet_spec [OF good parse, of h1 h2 h3 h4 e1 e2 e3 e4] s1(3) hub s by auto
      with True Inr x hub parse s1(3) show ?thesis by (auto simp: ProcessEgressToWG_def Let_def)
    qed
  qed
qed

text \<open>What an incoming packet for a live hub port turns into, whoever sent it.\<close>

lemma ingress_to_client:
  assumes inv: "snat_inv t" and hub: "tt_hubIP t \<noteq> NoAddr"
    and good: "good_packet p" and parse: "parseIPv4Transport p = Some (src, tt_hubIP t, proto, sport, hp)"
    and r: "mget (tt_byPort t) hp = Some r"
    and client: "fk_client (ss_key (tt_sessions t ! r)) = Addr4 c1 c2 c3 c4"
  shows "\<exists>q. ProcessIngressFromWG t now p = Some (touch t r now, q, True) \<and> good_packet q \<and> checksums_ok q \<and>
     parseIPv4Transport q = Some (src, Addr4 c1 c2 c3 c4, proto, sport, fk_clientPort (ss_key (tt_sessions t ! r)))"
proof -
  obtain s1 s2 s3 s4 where src: "src = Addr4 s1 s2 s3 s4"
    using good_packetD(7) [OF good] parse by (auto simp: src_of_def)
  obtain q where "rewrite_packet p src (Addr4 c1 c2 c3 c4) sport (fk_clientPort (ss_key (tt_sessions t ! r))) proto = Some q"
      "good_packet q" "checksums_ok q"
      "parseIPv4Transport q = Some (src, Addr4 c1 c2 c3 c4, proto, sport, fk_clientPort (ss_key (tt_sessions t ! r)))"
    using rewrite_packet_spec [OF good parse, of s1 s2 s3 s4 c1 c2 c3 c4 sport] src by blast
  with hub parse r client show ?thesis by (auto simp: ProcessIngressFromWG_def Let_def)
qed

text \<open>
  An outgoing packet of a one-way link either passes unchanged or is rewritten without panicking:
  it is rewritten exactly when the relay applies to its addresses and a session exists or can be
  opened.
\<close>

theorem ProcessEgressToWG_outcome:
  assumes "snat_reach t" and "tt_hubIP t = Addr4 h1 h2 h3 h4"
    and "good_packet p" and "parseIPv4Transport p = Some (c, s, proto, cp, sp)"
    and "key = \<lparr>fk_client = c, fk_server = s, fk_clientPort = cp, fk_serverPort = sp, fk_proto = proto\<rparr>"
  shows "\<exists>t' q b. ProcessEgressToWG t now rnd p = Some (t', q, b) \<and>
     (b = (needsSNAT t c s \<and> (mget (tt_byFlow t) key \<noteq> None \<or> is_ok (pick rnd (tt_ports t))))) \<and>
     (b \<or> t' = t \<and> q = p)"
proof -
  have "is_ok (egress_session t now rnd key) \<longleftrightarrow> mget (tt_byFlow t) key \<noteq> None \<or> is_ok (pick rnd (tt_ports t))"
    by (auto simp: egress_session_def split: option.splits sum.splits)
  with egress_outcome [OF snat_reach_inv [OF assms(1)] assms(2-4), of now rnd] assms(5) show ?thesis by simp
qed

text \<open>
  C8: the relay is transparent to the client.  After an outgoing packet from client port \<open>cp\<close> to server
  port \<open>sp\<close> was rewritten to the hub's address and some hub port, every later reply of the server
  to that hub port is delivered to the client's address and port with the server as its source, and
  with valid checksums.
\<close>

theorem snat_roundtrip:
  assumes "snat_reach t" and "tt_hubIP t = Addr4 h1 h2 h3 h4"
    and "good_packet p" and "parseIPv4Transport p = Some (c, s, proto, cp, sp)"
    and "ProcessEgressToWG t now rnd p = Some (t', q, True)"
  shows "\<exists>hp. parseIPv4Transport q = Some (tt_hubIP t, s, proto, hp, sp) \<and>
     (\<forall>reply now'. good_packet reply \<and> parseIPv4Transport reply = Some (s, tt_hubIP t, proto, sp, hp) \<longrightarrow>
       (\<exists>t'' back. ProcessIngressFromWG t' now' reply = Some (t'', back, True) \<and>
          parseIPv4Transport back = Some (s, c, proto, sp, cp) \<and> checksums_ok back))"
proof -
  obtain hp r where e: "parseIPv4Transport q = Some (tt_hubIP t, s, proto, hp, sp)"
     "mget (tt_byPort t') hp = Some r" "fk_client (ss_key (tt_sessions t' ! r)) = c"
     "fk_clientPort (ss_key (tt_sessions t' ! r)) = cp" "tt_hubIP t' = tt_hubIP t" "snat_inv t'"
    using egress_success [OF snat_reach_inv [OF assms(1)] assms(2-5)] by blast
  obtain c1 c2 c3 c4 where c: "c = Addr4 c1 c2 c3 c4"
    using good_packetD(7) [OF assms(3)] assms(4) by (auto simp: src_of_def)
  have "\<exists>t'' back. ProcessIngressFromWG t' now' reply = Some (t'', back, True) \<and>
      parseIPv4Transport back = Some (s, c, proto, sp, cp) \<and> checksums_ok back"
    if "good_packet reply" "parseIPv4Transport reply = Some (s, tt_hubIP t, proto, sp, hp)" for reply now'
    using ingress_to_client [OF e(6) _ that(1) _ e(2), of s proto sp c1 c2 c3 c4 now'] that(2) e c assms(2) by auto
  with e(1) show ?thesis by blast
qed

text \<open>A hub 10.0.0.1 with a one-way link from group 1 to group 2, and the peers of \<open>ex_udp\<close>.\<close>

definition ex_table :: TransparentTable where
  "ex_table = RegisterUniLink (RegisterPeer (RegisterPeer (SetHubIP NewTransparentTable (Addr4 10 0 0 1))
     (Addr4 10 0 0 2) 1) (Addr4 10 0 0 3) 2) 1 2"

lemma ex_table_reach: "snat_reach ex_table"
  unfolding ex_table_def by (intro snat_reach.link snat_reach.peer snat_reach.hub snat_reach.new)

lemma ex_table:
  "tt_hubIP ex_table = Addr4 10 0 0 1"
  "needsSNAT ex_table (Addr4 10 0 0 2) (Addr4 10 0 0 3)" "tt_byFlow ex_table = []"
  "tt_ports ex_table = newEphemeralPortPool"
  unfolding ex_table_def
  by (simp_all add: SetHubIP_def RegisterPeer_def RegisterUniLink_def NewTransparentTable_def
      needsSNAT_def)

lemma ex_pick: "is_ok (pick (\<lambda>_. Inr 0) newEphemeralPortPool)"
  unfolding pick_def
  by (rule pick_loop_finds [of 0 _ _ _ 0])
    (simp_all add: unat_port_of_draw newEphemeralPortPool_def free_port_def EphemeralPortMin_def EphemeralPortMax_def)

theorem ProcessEgressToWG_outcome_witness:
  "\<exists>t' q b. ProcessEgressToWG ex_table 0 (\<lambda>_. Inr 0) ex_udp = Some (t', q, b) \<and> b"
  using ProcessEgressToWG_outcome [OF ex_table_reach ex_table(1) ex_udp_parse(1,2) refl, of 0 "\<lambda>_. Inr 0"] ex_table ex_pick by auto

lemma ex_egress: "\<exists>t' q. ProcessEgressToWG ex_table 0 (\<lambda>_. Inr 0) ex_udp = Some (t', q, True)"
  using egress_outcome [OF snat_reach_inv [OF ex_table_reach] ex_table(1) ex_udp_parse(1,2), of 0 "\<lambda>_. Inr 0"] ex_table ex_pick
  by (auto simp: egress_session_def is_ok_iff)

theorem snat_roundtrip_witness:
  "\<exists>t' q hp. ProcessEgressToWG ex_table 0 (\<lambda>_. Inr 0) ex_udp = Some (t', q, True) \<and>
     parseIPv4Transport q = Some (Addr4 10 0 0 1, Addr4 10 0 0 3, 17, hp, 80)"
  using ex_egress snat_roundtrip [OF ex_table_reach ex_table(1) ex_udp_parse(1,2)] ex_table(1) by metis

theorem snat_ports_unique_witness:
  "\<exists>(t :: TransparentTable) r k. mget (tt_byFlow t) k = Some r \<and> mget (tt_byPort t) (ss_hubPort (tt_sessions t ! r)) = Some r"
proof -
  obtain t q where e: "ProcessEgressToWG ex_table 0 (\<lambda>_. Inr 0) ex_udp = Some (t, q, True)"
    using ex_egress by blast
  have reach: "snat_reach t" by (rule snat_reach.egress [OF ex_table_reach e])
  obtain hp r where "mget (tt_byPort t) hp = Some r"
    using egress_success [OF snat_reach_inv [OF ex_table_reach] ex_table(1) ex_udp_parse(1,2) e] by blast
  from snat_invD(8) [OF snat_reach_inv [OF reach] this]
  have k: "mget (tt_byFlow t) (ss_key (tt_sessions t ! r)) = Some r" .
  from snat_ports_unique [OF reach k k refl] k show ?thesis by blast
qed

end
