(* ===== verification/Tun.thy ===== *)
theory Tun
  imports Snat
begin

text \<open>
  \<^verbatim>\<open>vpn/tun\<close>: the packet filter between WireGuard and the hub's network stack.  Three parts: the
  block lists (\<^verbatim>\<open>access.go\<close>), the memory of allowed flows (\<^verbatim>\<open>conntrack.go\<close>), and the device
  wrapper (\<^verbatim>\<open>tun.go\<close>).  The interfaces of the first two are locales; the filter's guarantee is
  proved over every sequence of operations.
\<close>

section \<open>Block lists (\<^verbatim>\<open>access.go\<close>)\<close>

record peerRule =
  pr_Blocked :: "addr goset"

record RuleSet =
  rs_Rules :: "(addr, peerRule) gomap"

definition NewRuleSet :: RuleSet where
  "NewRuleSet = \<lparr>rs_Rules = []\<rparr>"

definition SetBlocked :: "RuleSet \<Rightarrow> addr \<Rightarrow> addr list \<Rightarrow> RuleSet" where
  "SetBlocked s peerIP blockedIPs =
     (if blockedIPs = [] then s
      else s\<lparr>rs_Rules := mput peerIP \<lparr>pr_Blocked = fold List.insert blockedIPs []\<rparr> (rs_Rules s)\<rparr>)"

definition CanAccess :: "RuleSet \<Rightarrow> addr \<Rightarrow> addr \<Rightarrow> bool" where
  "CanAccess s from to =
     (if \<not> is_valid from \<or> \<not> is_valid to then True
      else case mget (rs_Rules s) from of
        None \<Rightarrow> True
      | Some rule \<Rightarrow> if pr_Blocked rule = [] then True else to \<notin> set (pr_Blocked rule))"

text \<open>
  What a client may rely on: a new table blocks nothing, and blocking a list for one source replaces
  that source's decisions by the list (an empty list changes nothing) and leaves the others alone.
\<close>

locale acl =
  fixes new :: 'r and set_blocked :: "'r \<Rightarrow> addr \<Rightarrow> addr list \<Rightarrow> 'r" and can :: "'r \<Rightarrow> addr \<Rightarrow> addr \<Rightarrow> bool"
  assumes can_new: "can new a b"
    and can_set: "bs \<noteq> [] \<Longrightarrow> can (set_blocked r p bs) p b = (\<not> (is_valid p \<and> is_valid b \<and> b \<in> set bs))"
    and can_other: "a \<noteq> p \<Longrightarrow> can (set_blocked r p bs) a b = can r a b"
    and can_none: "can (set_blocked r p []) a b = can r a b"
begin

definition load :: "(addr, addr list) gomap \<Rightarrow> 'r \<Rightarrow> 'r" where
  "load m r = fold (\<lambda>(src, blocked) r. set_blocked r src blocked) m r"

lemma load_other: "a \<notin> fst ` set m \<Longrightarrow> can (load m r) a b = can r a b"
  unfolding load_def
proof (induction m arbitrary: r)
  case (Cons e m)
  then show ?case by (cases e) (auto simp: can_other)
qed simp

lemma load_from:
  assumes "mdistinct m"
  shows "can (load m r) a b =
     (case mget m a of None \<Rightarrow> can r a b
      | Some bs \<Rightarrow> if bs = [] then can r a b else \<not> (is_valid a \<and> is_valid b \<and> b \<in> set bs))"
  using assms
proof (induction m arbitrary: r)
  case Nil
  then show ?case by (simp add: load_def)
next
  case (Cons e m)
  obtain p bs where e: "e = (p, bs)" by (cases e)
  have step: "load (e # m) r = load m (set_blocked r p bs)" by (simp add: load_def e)
  show ?case
  proof (cases "a = p")
    case True
    with Cons.prems have "a \<notin> fst ` set m" by (simp add: e)
    then show ?thesis
      unfolding step using True by (cases "bs = []") (simp_all add: load_other can_set can_none e)
  next
    case False
    with Cons show ?thesis unfolding step by (simp add: e can_other split: option.splits)
  qed
qed

lemma load_new:
  "mdistinct m \<Longrightarrow> can (load m new) a b =
     (\<not> (is_valid a \<and> is_valid b \<and> (case mget m a of None \<Rightarrow> False | Some bs \<Rightarrow> b \<in> set bs)))"
  by (auto simp: load_from can_new split: option.splits)

end

lemma fold_insert_Nil [simp]: "fold List.insert xs [] = [] \<longleftrightarrow> xs = []"
  using set_fold_insert [of xs "[]"] by (metis set_empty sup_bot_right)

interpretation rules: acl NewRuleSet SetBlocked CanAccess
  by unfold_locales
    (auto simp: NewRuleSet_def SetBlocked_def CanAccess_def set_fold_insert split: option.splits)

section \<open>Remembered flows (\<^verbatim>\<open>conntrack.go\<close>)\<close>

type_synonym flow4 = "addr \<times> addr"

record connTrack =
  ct_flows :: "(flow4, int) gomap"
  ct_ttl :: int

definition newConnTrack :: "int \<Rightarrow> connTrack" where
  "newConnTrack ttl = \<lparr>ct_flows = [], ct_ttl = ttl\<rparr>"

definition ct_gc :: "int \<Rightarrow> connTrack \<Rightarrow> connTrack" where
  "ct_gc now ct = ct\<lparr>ct_flows := filter (\<lambda>(k, exp). \<not> now - exp > ct_ttl ct) (ct_flows ct)\<rparr>"

definition remember :: "int \<Rightarrow> flow4 \<Rightarrow> connTrack \<Rightarrow> connTrack" where
  "remember now fl ct = ct_gc now (ct\<lparr>ct_flows := mput fl now (ct_flows ct)\<rparr>)"

definition allowsReturn :: "int \<Rightarrow> addr \<Rightarrow> addr \<Rightarrow> connTrack \<Rightarrow> connTrack \<times> bool" where
  "allowsReturn now src dst ct =
     (case mget (ct_flows ct) (dst, src) of
        None \<Rightarrow> (ct, False)
      | Some exp \<Rightarrow>
          if now - exp > ct_ttl ct then (ct\<lparr>ct_flows := mdel (dst, src) (ct_flows ct)\<rparr>, False)
          else (ct, True))"

definition ct_reset :: "connTrack \<Rightarrow> connTrack" where
  "ct_reset ct = ct\<lparr>ct_flows := []\<rparr>"

text \<open>
  The contract of a flow memory, with \<open>seen\<close> as its abstract content: a query is answered yes only
  from a recorded time that is not older than the limit, a recorded flow is answered yes until the
  limit, and neither recording nor querying invents entries.
\<close>

locale flow_memory =
  fixes empty :: "'s \<Rightarrow> 's" and note_flow :: "int \<Rightarrow> 'k \<Rightarrow> 's \<Rightarrow> 's" and ask :: "int \<Rightarrow> 'k \<Rightarrow> 's \<Rightarrow> 's \<times> bool"
    and seen :: "'s \<Rightarrow> 'k \<Rightarrow> int option" and ttl :: "'s \<Rightarrow> int" and ok :: "'s \<Rightarrow> bool"
  assumes seen_empty: "seen (empty s) k = None"
    and seen_note: "ok s \<Longrightarrow> seen (note_flow now k s) j = Some t \<Longrightarrow> j = k \<and> t = now \<or> seen s j = Some t"
    and note_seen: "ok s \<Longrightarrow> 0 \<le> ttl s \<Longrightarrow> seen (note_flow now k s) k = Some now"
    and seen_ask: "ok s \<Longrightarrow> seen (fst (ask now k s)) j = Some t \<Longrightarrow> seen s j = Some t"
    and ask_iff: "ok s \<Longrightarrow> snd (ask now k s) = (\<exists>t. seen s k = Some t \<and> now - t \<le> ttl s)"
    and ttl_same: "ttl (empty s) = ttl s" "ttl (note_flow now k s) = ttl s" "ttl (fst (ask now k s)) = ttl s"
    and ok_same: "ok (empty s)" "ok s \<Longrightarrow> ok (note_flow now k s)" "ok s \<Longrightarrow> ok (fst (ask now k s))"
begin

text \<open>Every entry of the memory is a member of the history \<open>h\<close>.\<close>

definition backed :: "(int \<times> 'k) set \<Rightarrow> 's \<Rightarrow> bool" where
  "backed h s \<longleftrightarrow> ok s \<and> (\<forall>k t. seen s k = Some t \<longrightarrow> (t, k) \<in> h)"

lemma backed_empty: "backed h (empty s)"
  by (simp add: backed_def seen_empty ok_same)

lemma backed_note: "backed h s \<Longrightarrow> backed (insert (now, k) h) (note_flow now k s)"
  unfolding backed_def using seen_note ok_same(2) by blast

lemma backed_ask: "backed h s \<Longrightarrow> backed h (fst (ask now k s))"
  unfolding backed_def using seen_ask ok_same(3) by blast

lemma backed_mono: "backed h s \<Longrightarrow> h \<subseteq> h' \<Longrightarrow> backed h' s"
  unfolding backed_def by blast

lemma ask_backed: "backed h s \<Longrightarrow> snd (ask now k s) \<Longrightarrow> \<exists>t. (t, k) \<in> h \<and> now - t \<le> ttl s"
  unfolding backed_def using ask_iff by blast

lemma note_then_ask:
  "ok s \<Longrightarrow> 0 \<le> ttl s \<Longrightarrow> t \<le> t + ttl s \<Longrightarrow> now \<le> t + ttl s \<Longrightarrow> snd (ask now k (note_flow t k s))"
  using ask_iff [of "note_flow t k s" now k] note_seen [of s t k] ok_same(2) [of s t k] ttl_same(2) by simp

end

lemma mget_ct_gc:
  "mdistinct (ct_flows ct) \<Longrightarrow> mget (ct_flows (ct_gc now ct)) k =
     (case mget (ct_flows ct) k of None \<Rightarrow> None | Some t \<Rightarrow> if now - t > ct_ttl ct then None else Some t)"
  by (auto simp: ct_gc_def mget_filter split: option.splits)

interpretation flows: flow_memory ct_reset remember "\<lambda>now k. allowsReturn now (snd k) (fst k)"
  "\<lambda>ct. mget (ct_flows ct)" ct_ttl "\<lambda>ct. mdistinct (ct_flows ct)"
proof unfold_locales
  fix s :: connTrack and now k j t
  assume d: "mdistinct (ct_flows s)"
  then have d': "mdistinct (ct_flows (s\<lparr>ct_flows := mput k now (ct_flows s)\<rparr>))" by simp
  show "mget (ct_flows (remember now k s)) j = Some t \<Longrightarrow> j = k \<and> t = now \<or> mget (ct_flows s) j = Some t"
    unfolding remember_def mget_ct_gc [OF d'] by (auto split: option.splits if_splits)
  show "0 \<le> ct_ttl s \<Longrightarrow> mget (ct_flows (remember now k s)) k = Some now"
    unfolding remember_def mget_ct_gc [OF d'] by simp
  show "mget (ct_flows (fst (allowsReturn now (snd k) (fst k) s))) j = Some t \<Longrightarrow> mget (ct_flows s) j = Some t"
    by (auto simp: allowsReturn_def split: option.splits if_splits)
  show "snd (allowsReturn now (snd k) (fst k) s) = (\<exists>t. mget (ct_flows s) k = Some t \<and> now - t \<le> ct_ttl s)"
    by (auto simp: allowsReturn_def split: option.splits)
  show "mdistinct (ct_flows (remember now k s))" using d' by (auto simp: remember_def ct_gc_def)
  show "mdistinct (ct_flows (fst (allowsReturn now (snd k) (fst k) s)))"
    using d by (auto simp: allowsReturn_def split: option.splits)
qed (auto simp: ct_reset_def remember_def ct_gc_def allowsReturn_def split: option.splits)

section \<open>The device wrapper (\<^verbatim>\<open>tun.go\<close>)\<close>

record AccessPolicy =
  acp_Rules :: "RuleSet option"
  acp_Transparent :: "TransparentTable option"

record TUN =
  tun_hubIP :: addr
  tun_access :: RuleSet
  tun_transparent :: TransparentTable
  tun_reservedHubPorts :: "int list"
  tun_mapVIPs :: "addr goset"
  tun_ct :: connTrack

definition NewTUN :: "addr \<Rightarrow> TUN" where
  "NewTUN hubIP = \<lparr>tun_hubIP = hubIP, tun_access = NewRuleSet, tun_transparent = NewTransparentTable,
     tun_reservedHubPorts = [], tun_mapVIPs = [], tun_ct = newConnTrack SessionIdle\<rparr>"

definition SetAccessPolicy :: "TUN \<Rightarrow> AccessPolicy option \<Rightarrow> TUN" where
  "SetAccessPolicy f policy =
     (let f = (case policy of
          None \<Rightarrow> f\<lparr>tun_access := NewRuleSet, tun_transparent := NewTransparentTable\<rparr>
        | Some p \<Rightarrow>
           (let f = (case acp_Rules p of Some r \<Rightarrow> f\<lparr>tun_access := r\<rparr> | None \<Rightarrow> f\<lparr>tun_access := NewRuleSet\<rparr>)
            in case acp_Transparent p of
                 Some t \<Rightarrow> f\<lparr>tun_transparent := SetHubIP t (tun_hubIP f)\<rparr>
               | None \<Rightarrow> f\<lparr>tun_transparent := SetHubIP NewTransparentTable (tun_hubIP f)\<rparr>));
          f = f\<lparr>tun_ct := ct_reset (tun_ct f)\<rparr>
      in f\<lparr>tun_transparent := Snat.ReserveHubPorts (Reset (tun_transparent f)) (tun_reservedHubPorts f)\<rparr>)"

definition SetAccessRules :: "TUN \<Rightarrow> RuleSet \<Rightarrow> TUN" where
  "SetAccessRules f rules = SetAccessPolicy f (Some \<lparr>acp_Rules = Some rules, acp_Transparent = None\<rparr>)"

definition tun_ReserveHubPorts :: "TUN \<Rightarrow> int list \<Rightarrow> TUN" where
  "tun_ReserveHubPorts f ports =
     f\<lparr>tun_reservedHubPorts := ports, tun_transparent := Snat.ReserveHubPorts (tun_transparent f) ports\<rparr>"

definition SetMapVIPs :: "TUN \<Rightarrow> addr list \<Rightarrow> TUN" where
  "SetMapVIPs f vips =
     f\<lparr>tun_mapVIPs := fold (\<lambda>vip m. if is_valid vip then List.insert vip m else m) vips []\<rparr>"

definition isMapVIP :: "TUN \<Rightarrow> addr \<Rightarrow> bool" where
  "isMapVIP f a = (a \<in> set (tun_mapVIPs f))"

definition shouldDrop :: "TUN \<Rightarrow> int \<Rightarrow> u8 list \<Rightarrow> TUN \<times> bool" where
  "shouldDrop f now packet =
     (if length packet < 20 then (f, False)
      else if drop_bit 4 (packet ! 0) \<noteq> 4 then (f, False)
      else if length packet < ihl_of packet then (f, False)
      else let src = src_of packet; dst = dst_of packet in
        if src = tun_hubIP f \<or> dst = tun_hubIP f \<or> isMapVIP f src \<or> isMapVIP f dst then (f, False)
        else if CanAccess (tun_access f) src dst then
          (f\<lparr>tun_ct := remember now (src, dst) (tun_ct f)\<rparr>, False)
        else let (ct, back) = allowsReturn now src dst (tun_ct f);
                 f = f\<lparr>tun_ct := ct\<rparr>
             in if back then (f, False) else (f, True))"

text \<open>
  \<^verbatim>\<open>Read\<close> after the inner device returned: every non-empty buffer goes through the relay.  Each
  buffer comes with the time and the random source of its processing.  \<open>None\<close> is a panic.
\<close>

fun tun_read_bufs :: "TUN \<Rightarrow> (int \<times> random \<times> u8 list) list \<Rightarrow> (TUN \<times> u8 list list) option" where
  "tun_read_bufs f [] = Some (f, [])"
| "tun_read_bufs f ((now, rnd, packet) # bufs) =
     (if packet = [] then do {
        (f, rest) \<leftarrow> tun_read_bufs f bufs;
        Some (f, packet # rest)
      } else do {
        (t, packet, _) \<leftarrow> ProcessEgressToWG (tun_transparent f) now rnd packet;
        (f, rest) \<leftarrow> tun_read_bufs (f\<lparr>tun_transparent := t\<rparr>) bufs;
        Some (f, packet # rest)
      })"

definition tun_Read :: "TUN \<Rightarrow> nat \<Rightarrow> err option \<Rightarrow> (int \<times> random \<times> u8 list) list \<Rightarrow>
    (TUN \<times> u8 list list \<times> nat \<times> err option) option" where
  "tun_Read f n e bufs =
     (if e \<noteq> None \<or> n = 0 then Some (f, map (snd \<circ> snd) bufs, n, e)
      else do {
        (f, out) \<leftarrow> tun_read_bufs f bufs;
        Some (f, out, n, e)
      })"

text \<open>One buffer of \<^verbatim>\<open>Write\<close>: the packet to hand on, if any.\<close>

definition tun_write_one :: "TUN \<Rightarrow> int \<Rightarrow> u8 list \<Rightarrow> (TUN \<times> u8 list option) option" where
  "tun_write_one f now packet = do {
     (t, packet, handled) \<leftarrow> ProcessIngressFromWG (tun_transparent f) now packet;
     let f = f\<lparr>tun_transparent := t\<rparr>;
     if handled then Some (f, Some packet)
     else let (f, dropit) = shouldDrop f now packet in
       if dropit then Some (f, None) else Some (f, Some packet)
   }"

fun tun_write_bufs :: "TUN \<Rightarrow> (int \<times> u8 list) list \<Rightarrow> (TUN \<times> u8 list list) option" where
  "tun_write_bufs f [] = Some (f, [])"
| "tun_write_bufs f ((now, packet) # bufs) = do {
     (f, out) \<leftarrow> tun_write_one f now packet;
     (f, rest) \<leftarrow> tun_write_bufs f bufs;
     Some (f, (case out of None \<Rightarrow> rest | Some p \<Rightarrow> p # rest))
   }"

text \<open>\<open>inner\<close> is the wrapped device's \<^verbatim>\<open>Write\<close>.\<close>

definition tun_Write :: "(u8 list list \<Rightarrow> nat \<times> err option) \<Rightarrow> TUN \<Rightarrow> (int \<times> u8 list) list \<Rightarrow>
    (TUN \<times> nat \<times> err option) option" where
  "tun_Write inner f bufs = do {
     (f, filtered) \<leftarrow> tun_write_bufs f bufs;
     if filtered = [] then Some (f, length bufs, None)
     else let (n, e) = inner filtered in Some (f, n, e)
   }"

section \<open>What the filter guarantees\<close>

definition ipv4_packet :: "u8 list \<Rightarrow> bool" where
  "ipv4_packet p = (20 \<le> length p \<and> drop_bit 4 (p ! 0) = 4 \<and> ihl_of p \<le> length p)"

definition exempt :: "TUN \<Rightarrow> u8 list \<Rightarrow> bool" where
  "exempt f p = (src_of p = tun_hubIP f \<or> dst_of p = tun_hubIP f \<or> isMapVIP f (src_of p) \<or> isMapVIP f (dst_of p))"

lemma shouldDrop_ipv4:
  assumes "ipv4_packet p"
  shows "shouldDrop f now p =
    (if exempt f p then (f, False)
     else if CanAccess (tun_access f) (src_of p) (dst_of p)
       then (f\<lparr>tun_ct := remember now (src_of p, dst_of p) (tun_ct f)\<rparr>, False)
     else (f\<lparr>tun_ct := fst (allowsReturn now (src_of p) (dst_of p) (tun_ct f))\<rparr>,
           \<not> snd (allowsReturn now (src_of p) (dst_of p) (tun_ct f))))"
  using assms by (auto simp: shouldDrop_def ipv4_packet_def exempt_def Let_def split: prod.splits)

lemma shouldDrop_other: "\<not> ipv4_packet p \<Longrightarrow> shouldDrop f now p = (f, False)"
  by (auto simp: shouldDrop_def ipv4_packet_def)

text \<open>
  The device as a state machine.  The second component is the history: the allowed packets written
  since the policy was last set, as time and (source, destination).
\<close>

definition note_write :: "TUN \<Rightarrow> int \<Rightarrow> u8 list \<Rightarrow> (int \<times> flow4) set \<Rightarrow> (int \<times> flow4) set" where
  "note_write f now p h =
     (if ipv4_packet p \<and> CanAccess (tun_access f) (src_of p) (dst_of p)
      then insert (now, (src_of p, dst_of p)) h else h)"

inductive tun_run :: "TUN \<Rightarrow> (int \<times> flow4) set \<Rightarrow> bool" where
  start: "tun_run (NewTUN hub) {}"
| policy: "tun_run f h \<Longrightarrow> tun_run (SetAccessPolicy f p) {}"
| reserve: "tun_run f h \<Longrightarrow> tun_run (tun_ReserveHubPorts f ports) h"
| vips: "tun_run f h \<Longrightarrow> tun_run (SetMapVIPs f vs) h"
| wr: "tun_run f h \<Longrightarrow> tun_write_one f now p = Some (f', out) \<Longrightarrow> tun_run f' (note_write f now p h)"
| rd: "tun_run f h \<Longrightarrow> tun_read_bufs f bufs = Some (f', out) \<Longrightarrow> tun_run f' h"

definition tun_inv :: "TUN \<Rightarrow> (int \<times> flow4) set \<Rightarrow> bool" where
  "tun_inv f h \<longleftrightarrow> flows.backed h (tun_ct f) \<and> ct_ttl (tun_ct f) = SessionIdle \<and>
     (\<forall>t k. (t, k) \<in> h \<longrightarrow> CanAccess (tun_access f) (fst k) (snd k))"

lemma SetAccessPolicy_ct [simp]: "tun_ct (SetAccessPolicy f p) = ct_reset (tun_ct f)"
  by (auto simp: SetAccessPolicy_def Let_def split: option.splits)

lemma read_bufs_ct:
  "tun_read_bufs f bufs = Some (f', out) \<Longrightarrow>
     tun_ct f' = tun_ct f \<and> tun_access f' = tun_access f \<and> tun_hubIP f' = tun_hubIP f \<and> tun_mapVIPs f' = tun_mapVIPs f"
  by (induction f bufs arbitrary: f' out rule: tun_read_bufs.induct)
    (fastforce split: if_splits Option.bind_splits prod.splits)+

lemma tun_inv_shouldDrop:
  assumes "tun_inv f h"
  shows "tun_inv (fst (shouldDrop f now p)) (note_write f now p h)"
proof (cases "ipv4_packet p")
  case False
  with assms show ?thesis by (simp add: shouldDrop_other note_write_def)
next
  case True
  note sd = shouldDrop_ipv4 [OF True, of f now]
  have b: "flows.backed h (tun_ct f)" using assms by (simp add: tun_inv_def)
  show ?thesis
  proof (cases "CanAccess (tun_access f) (src_of p) (dst_of p)")
    case True
    have "flows.backed (insert (now, (src_of p, dst_of p)) h) (tun_ct (fst (shouldDrop f now p)))"
      using flows.backed_note [OF b, of now "(src_of p, dst_of p)"] flows.backed_mono [OF b] True sd
      by (auto simp: subset_insertI)
    with assms True \<open>ipv4_packet p\<close> sd show ?thesis
      by (auto simp: tun_inv_def note_write_def flows.ttl_same)
  next
    case False
    have "flows.backed h (tun_ct (fst (shouldDrop f now p)))"
      using flows.backed_ask [OF b, of now "(dst_of p, src_of p)"] b False sd by auto
    with assms False sd flows.ttl_same(3) [of now "(dst_of p, src_of p)" "tun_ct f"] show ?thesis
      by (auto simp: tun_inv_def note_write_def)
  qed
qed

lemma tun_inv_relay: "tun_inv (f\<lparr>tun_transparent := t\<rparr>) h = tun_inv f h"
  by (simp add: tun_inv_def)

lemma note_write_relay [simp]: "note_write (f\<lparr>tun_transparent := t\<rparr>) now p h = note_write f now p h"
  by (simp add: note_write_def)

lemma tun_inv_note: "tun_inv f h \<Longrightarrow> tun_inv f (note_write f now p h)"
  unfolding tun_inv_def note_write_def
  by (auto intro: flows.backed_mono [OF _ subset_insertI])

lemma ingress_unhandled:
  "ProcessIngressFromWG t now p = Some (t', q, False) \<Longrightarrow> t' = t \<and> q = p"
  by (auto simp: ProcessIngressFromWG_def Let_def split: if_splits option.splits prod.splits Option.bind_splits)

lemma tun_write_one_cases:
  assumes "tun_write_one f now p = Some (f', out)"
  obtains (relay) t q where "ProcessIngressFromWG (tun_transparent f) now p = Some (t, q, True)"
      "f' = f\<lparr>tun_transparent := t\<rparr>" "out = Some q"
  | (filter) "ProcessIngressFromWG (tun_transparent f) now p = Some (tun_transparent f, p, False)"
      "f' = fst (shouldDrop f now p)" "out = (if snd (shouldDrop f now p) then None else Some p)"
proof -
  from assms obtain t q b where i: "ProcessIngressFromWG (tun_transparent f) now p = Some (t, q, b)"
    by (auto simp: tun_write_one_def split: Option.bind_splits)
  show thesis
  proof (cases b)
    case True
    with i assms relay show thesis by (auto simp: tun_write_one_def Let_def)
  next
    case False
    with ingress_unhandled i have "t = tun_transparent f" "q = p" by auto
    with i False assms filter show thesis
      by (auto simp: tun_write_one_def Let_def split: prod.splits if_splits)
  qed
qed

lemma tun_run_inv: "tun_run f h \<Longrightarrow> tun_inv f h"
proof (induction rule: tun_run.induct)
  case (start hub)
  then show ?case
    by (simp add: tun_inv_def flows.backed_def NewTUN_def newConnTrack_def)
next
  case (policy f h p)
  then show ?case by (simp add: tun_inv_def flows.backed_empty flows.ttl_same)
next
  case (wr f h now p f' out)
  from wr(2) show ?case
  proof (cases rule: tun_write_one_cases)
    case (relay t q)
    with tun_inv_note [OF wr(3)] show ?thesis by (simp add: tun_inv_relay)
  next
    case filter
    with tun_inv_shouldDrop [OF wr(3)] show ?thesis by simp
  qed
next
  case (rd f h bufs f' out)
  with read_bufs_ct [OF rd(2)] show ?case by (simp add: tun_inv_def)
qed (simp_all add: tun_inv_def tun_ReserveHubPorts_def SetMapVIPs_def)

lemma filter_passes:
  assumes "tun_run f h" and "ipv4_packet p" and "\<not> exempt f p"
    and "ProcessIngressFromWG (tun_transparent f) now p = Some (t, p', False)"
    and "tun_write_one f now p = Some (f', out)"
  shows "out = Some p \<and> CanAccess (tun_access f) (src_of p) (dst_of p) \<or>
     out = Some p \<and> \<not> CanAccess (tun_access f) (src_of p) (dst_of p) \<and>
       (\<exists>t0. (t0, (dst_of p, src_of p)) \<in> h \<and> now - t0 \<le> SessionIdle \<and>
         CanAccess (tun_access f) (dst_of p) (src_of p)) \<or>
     out = None \<and> \<not> CanAccess (tun_access f) (src_of p) (dst_of p)"
proof -
  have "out = (if snd (shouldDrop f now p) then None else Some p)"
    using assms(5,4) by (cases rule: tun_write_one_cases) auto
  then have out: "out = (if CanAccess (tun_access f) (src_of p) (dst_of p) then Some p
      else if snd (allowsReturn now (src_of p) (dst_of p) (tun_ct f)) then Some p else None)"
    using assms(3) shouldDrop_ipv4 [OF assms(2), of f now] by simp
  have inv: "tun_inv f h" by (rule tun_run_inv [OF assms(1)])
  have ret: "\<exists>t0. (t0, (dst_of p, src_of p)) \<in> h \<and> now - t0 \<le> SessionIdle \<and>
      CanAccess (tun_access f) (dst_of p) (src_of p)"
    if "snd (allowsReturn now (src_of p) (dst_of p) (tun_ct f))"
  proof -
    from flows.ask_backed [of h "tun_ct f" now "(dst_of p, src_of p)"] inv that
    obtain t0 where t0: "(t0, (dst_of p, src_of p)) \<in> h" "now - t0 \<le> SessionIdle"
      by (auto simp: tun_inv_def)
    from inv t0(1) have "CanAccess (tun_access f) (dst_of p) (src_of p)" by (fastforce simp: tun_inv_def)
    with t0 show ?thesis by blast
  qed
  show ?thesis
  proof (cases "CanAccess (tun_access f) (src_of p) (dst_of p)")
    case True
    with out show ?thesis by simp
  next
    case False
    with out ret show ?thesis by (cases "snd (allowsReturn now (src_of p) (dst_of p) (tun_ct f))") simp_all
  qed
qed

text \<open>
  In every reachable state of the filter, a packet between two peers that the relay does not take
  is handed on only if the policy lets its source reach its destination, or if within the last two
  minutes and under the same policy a packet was written in the opposite direction, which the policy
  allowed.
\<close>

theorem tun_filter_safe:
  assumes "tun_run f h" and "ipv4_packet p" and "\<not> exempt f p"
    and "ProcessIngressFromWG (tun_transparent f) now p = Some (t, p', False)"
    and "tun_write_one f now p = Some (f', Some q)"
  shows "q = p \<and> (CanAccess (tun_access f) (src_of p) (dst_of p) \<or>
     (\<exists>t0. (t0, (dst_of p, src_of p)) \<in> h \<and> now - t0 \<le> 120000000000 \<and>
        CanAccess (tun_access f) (dst_of p) (src_of p)))"
  using filter_passes [OF assms(1-5)] by (auto simp: SessionIdle_def)

text \<open>
  The filter never drops a packet the policy allows, and it always drops a forbidden packet when
  nothing was written in the opposite direction since the policy was set.
\<close>

theorem tun_filter_complete:
  assumes "tun_run f h" and "ipv4_packet p" and "\<not> exempt f p"
    and "ProcessIngressFromWG (tun_transparent f) now p = Some (t, p', False)"
    and "tun_write_one f now p = Some (f', out)" and "(dst_of p, src_of p) \<notin> snd ` h"
  shows "(out = Some p) = CanAccess (tun_access f) (src_of p) (dst_of p) \<and>
     (out = None) = (\<not> CanAccess (tun_access f) (src_of p) (dst_of p))"
  using filter_passes [OF assms(1-5)] assms(6) by force

text \<open>A hub that blocks 10.0.0.3 from reaching 10.0.0.2, and a packet of the other direction.\<close>

definition ex_tun :: TUN where
  "ex_tun = SetAccessRules (NewTUN (Addr4 10 0 0 1)) (SetBlocked NewRuleSet (Addr4 10 0 0 3) [Addr4 10 0 0 2])"

lemma ex_tun_run: "tun_run ex_tun {}"
  unfolding ex_tun_def SetAccessRules_def by (rule tun_run.policy [OF tun_run.start])

lemma ex_udp_ipv4: "ipv4_packet ex_udp"
  using good_packetD [OF ex_udp_parse(1)] by (simp add: ipv4_packet_def)

lemma ex_tun_parts:
  "tun_hubIP ex_tun = Addr4 10 0 0 1" "tun_mapVIPs ex_tun = []"
  "tun_access ex_tun = SetBlocked NewRuleSet (Addr4 10 0 0 3) [Addr4 10 0 0 2]"
  by (simp_all add: ex_tun_def SetAccessRules_def SetAccessPolicy_def NewTUN_def)

lemma ex_tun_ingress:
  "tt_hubIP t = Addr4 10 0 0 1 \<Longrightarrow> ProcessIngressFromWG t now ex_udp = Some (t, ex_udp, False)"
  by (simp add: ProcessIngressFromWG_def ex_udp_parse)

lemma ex_tun_relay: "tt_hubIP (tun_transparent ex_tun) = Addr4 10 0 0 1"
  by (simp add: ex_tun_def SetAccessRules_def SetAccessPolicy_def NewTUN_def Let_def Reset_def
      Snat.ReserveHubPorts_def SetHubIP_def)

lemma ex_tun_write: "\<exists>f'. tun_write_one ex_tun 5 ex_udp = Some (f', Some ex_udp)"
proof -
  have "CanAccess (tun_access ex_tun) (src_of ex_udp) (dst_of ex_udp)"
    by (simp add: ex_tun_parts ex_udp_parse CanAccess_def SetBlocked_def NewRuleSet_def)
  then have "snd (shouldDrop ex_tun 5 ex_udp) = False" by (simp add: shouldDrop_ipv4 [OF ex_udp_ipv4])
  then show ?thesis
    by (auto simp: tun_write_one_def ex_tun_ingress ex_tun_relay split: prod.splits)
qed

lemma ex_tun_exempt: "\<not> exempt ex_tun ex_udp"
  by (simp add: exempt_def ex_tun_parts isMapVIP_def ex_udp_parse)

theorem tun_filter_safe_witness:
  "\<exists>f'. tun_write_one ex_tun 5 ex_udp = Some (f', Some ex_udp) \<and>
     CanAccess (tun_access ex_tun) (src_of ex_udp) (dst_of ex_udp)"
proof -
  obtain f' where w: "tun_write_one ex_tun 5 ex_udp = Some (f', Some ex_udp)" using ex_tun_write by blast
  from tun_filter_safe [OF ex_tun_run ex_udp_ipv4 ex_tun_exempt ex_tun_ingress [OF ex_tun_relay] w] w
  show ?thesis by auto
qed

theorem tun_filter_complete_witness:
  "\<exists>f' out. tun_write_one ex_tun 5 ex_udp = Some (f', out) \<and>
     (out = Some ex_udp) = CanAccess (tun_access ex_tun) (src_of ex_udp) (dst_of ex_udp)"
proof -
  obtain f' where w: "tun_write_one ex_tun 5 ex_udp = Some (f', Some ex_udp)" using ex_tun_write by blast
  from tun_filter_complete [OF ex_tun_run ex_udp_ipv4 ex_tun_exempt ex_tun_ingress [OF ex_tun_relay] w] w
  show ?thesis by auto
qed

end
