(* ===== verification/Policy_Apply.thy ===== *)
theory Policy_Apply
  imports Policy Tun
begin

text \<open>
  \<^verbatim>\<open>vpn/policy\<close>: turning the portable policy of the control plane into the data plane's tables.  The
  refinement lemmas say that the tables decide exactly what the portable policy says, and the
  end-to-end theorems connect the links an administrator draws with the packets the hub hands on.
\<close>

definition applyTransparent :: "TransparentSpec \<Rightarrow> TransparentTable" where
  "applyTransparent spec =
     (let tbl = fold (\<lambda>p tbl. if tp_GroupID p = 0 \<or> \<not> is_valid (tp_WGIP p) then tbl
            else RegisterPeer tbl (tp_WGIP p) (tp_GroupID p)) (ts_Peers spec) NewTransparentTable
      in fold (\<lambda>l tbl. if gl_Bidirectional l then tbl else RegisterUniLink tbl (gl_From l) (gl_To l))
           (ts_UniLinks spec) tbl)"

definition Apply :: "AccessPolicySpec \<Rightarrow> AccessPolicy" where
  "Apply spec =
     (let rules = fold (\<lambda>(src, blocked) rules. SetBlocked rules src blocked) (ap_Blocked spec) NewRuleSet
      in \<lparr>acp_Rules = Some rules, acp_Transparent = Some (applyTransparent (ap_Transparent spec))\<rparr>)"

definition ApplyRules :: "AccessPolicySpec \<Rightarrow> RuleSet" where
  "ApplyRules spec = the (acp_Rules (Apply spec))"

definition ApplyTransparent :: "TransparentSpec \<Rightarrow> TransparentTable" where
  "ApplyTransparent spec = applyTransparent spec"

section \<open>Refinement\<close>

lemma Apply_load: "acp_Rules (Apply spec) = Some (rules.load (ap_Blocked spec) NewRuleSet)"
  by (simp add: Apply_def rules.load_def)

lemma mdistinct_Blocked:
  assumes "BuildAccessPolicySpec peers links gs maps = Inr spec"
  shows "mdistinct (ap_Blocked spec)"
proof -
  have "mdistinct m \<Longrightarrow> mdistinct (fold (add_blocked peers links gs maps) ps m)" for ps m
    by (induction ps arbitrary: m) (auto simp: add_blocked_def Let_def split: option.splits)
  from this [of "[]" peers] assms show ?thesis by (auto simp: BuildAccessPolicySpec_def)
qed

lemma CanAccess_Apply:
  assumes "BuildAccessPolicySpec peers links gs maps = Inr spec" and "is_valid a" "is_valid b"
  shows "CanAccess (the (acp_Rules (Apply spec))) a b = (\<not> blocks spec a b)"
  unfolding Apply_load option.sel rules.load_new [OF mdistinct_Blocked [OF assms(1)]] blocks_def
  using assms(2,3) by (simp split: option.splits)

lemma peerGrp_RegisterPeer:
  "mget (tt_peerGrp (fold (\<lambda>p tbl. if tp_GroupID p = 0 \<or> \<not> is_valid (tp_WGIP p) then tbl
       else RegisterPeer tbl (tp_WGIP p) (tp_GroupID p)) ps t)) a =
     (case find (\<lambda>p. tp_WGIP p = a \<and> tp_GroupID p \<noteq> 0 \<and> is_valid a) (rev ps) of
        Some p \<Rightarrow> Some (tp_GroupID p) | None \<Rightarrow> mget (tt_peerGrp t) a)"
proof (induction ps arbitrary: t)
  case (Cons p ps)
  have app: "find P (xs @ ys) = (case find P xs of None \<Rightarrow> find P ys | Some x \<Rightarrow> Some x)" for P xs ys
    by (induction xs) auto
  from Cons show ?case
    by (auto simp: app RegisterPeer_def split: option.splits)
qed simp

lemma uniLinks_RegisterUniLink:
  "(\<exists>to. mget (tt_uniLinks (fold (\<lambda>l tbl. if gl_Bidirectional l then tbl
        else RegisterUniLink tbl (gl_From l) (gl_To l)) ls t)) g = Some to \<and> d \<in> set to) \<longleftrightarrow>
     (\<exists>l \<in> set ls. \<not> gl_Bidirectional l \<and> gl_From l = g \<and> gl_To l = d) \<or>
     (\<exists>to. mget (tt_uniLinks t) g = Some to \<and> d \<in> set to)"
proof (induction ls arbitrary: t)
  case (Cons l ls)
  have "(\<exists>to. mget (tt_uniLinks (RegisterUniLink t a b)) g = Some to \<and> d \<in> set to) \<longleftrightarrow>
      a = g \<and> b = d \<or> (\<exists>to. mget (tt_uniLinks t) g = Some to \<and> d \<in> set to)" for t a b
    by (auto simp: RegisterUniLink_def Let_def split: option.splits)
  with Cons show ?case by (simp add: conj_disj_distribL) blast
qed simp

lemma peerGrp_uniLinks [simp]:
  "tt_peerGrp (fold (\<lambda>l tbl. if gl_Bidirectional l then tbl else RegisterUniLink tbl (gl_From l) (gl_To l)) ls t) = tt_peerGrp t"
  by (induction ls arbitrary: t) (auto simp: RegisterUniLink_def Let_def)

lemma uniLinks_peers [simp]:
  "tt_uniLinks (fold (\<lambda>p tbl. if tp_GroupID p = 0 \<or> \<not> is_valid (tp_WGIP p) then tbl
       else RegisterPeer tbl (tp_WGIP p) (tp_GroupID p)) ps t) = tt_uniLinks t"
  by (induction ps arbitrary: t) (auto simp: RegisterPeer_def)

text \<open>At most one link between two groups, in whatever direction (what the store maintains).\<close>

definition links_unique :: "GroupLinkPair list \<Rightarrow> bool" where
  "links_unique links = (\<forall>l \<in> set links. \<forall>m \<in> set links.
     {gl_From l, gl_To l} = {gl_From m, gl_To m} \<longrightarrow> l = m)"

lemma find_tpeers:
  assumes "peers_unique peers" "p \<in> set peers" "active_at p a"
  shows "find (\<lambda>x. tp_WGIP x = a \<and> tp_GroupID x \<noteq> 0 \<and> is_valid a) (rev (ts_Peers (BuildTransparentSpec peers links)))
     = Some \<lparr>tp_WGIP = a, tp_GroupID = pe_GroupID p\<rparr>"
proof -
  let ?ps = "rev (ts_Peers (BuildTransparentSpec peers links))"
  have mem: "set ?ps = (\<Union>q \<in> set peers. {x. active_at q (tp_WGIP x) \<and> x = \<lparr>tp_WGIP = tp_WGIP x, tp_GroupID = pe_GroupID q\<rparr>})"
  proof -
    have "set (if \<not> pe_Enabled q \<or> pe_GroupID q = 0 then []
        else case ParseAddr (pe_WGIP q) of None \<Rightarrow> [] | Some ip \<Rightarrow> [\<lparr>tp_WGIP = ip, tp_GroupID = pe_GroupID q\<rparr>]) =
        {x. active_at q (tp_WGIP x) \<and> x = \<lparr>tp_WGIP = tp_WGIP x, tp_GroupID = pe_GroupID q\<rparr>}" for q
      by (cases "ParseAddr (pe_WGIP q)") (auto simp: active_at_def)
    then show ?thesis
      by (simp only: BuildTransparentSpec_def TransparentSpec.select_convs set_rev set_concat set_map image_image)
  qed
  have valid: "is_valid a" using assms(3) ParseAddr_valid by (auto simp: active_at_def)
  have "\<lparr>tp_WGIP = a, tp_GroupID = pe_GroupID p\<rparr> \<in> set ?ps" unfolding mem using assms by auto
  then have "find (\<lambda>x. tp_WGIP x = a \<and> tp_GroupID x \<noteq> 0 \<and> is_valid a) ?ps \<noteq> None"
    unfolding find_None_iff using assms(3) valid by (force simp: active_at_def)
  then obtain x where x: "find (\<lambda>x. tp_WGIP x = a \<and> tp_GroupID x \<noteq> 0 \<and> is_valid a) ?ps = Some x" by auto
  from find_SomeD [OF this] have "x \<in> set ?ps" and xa: "tp_WGIP x = a" by blast+
  from this(1) obtain q where "q \<in> set peers" "active_at q a" "x = \<lparr>tp_WGIP = a, tp_GroupID = pe_GroupID q\<rparr>"
    unfolding mem using xa by auto
  with unique_active [OF assms(1,2) _ assms(3)] x show ?thesis by auto
qed

lemma needsSNAT_Apply:
  assumes "peers_unique peers" "p \<in> set peers" "q \<in> set peers" "active_at p a" "active_at q b"
  shows "needsSNAT (applyTransparent (BuildTransparentSpec peers links)) a b \<longleftrightarrow>
     pe_GroupID p \<noteq> pe_GroupID q \<and>
     (\<exists>l \<in> set links. \<not> gl_Bidirectional l \<and> gl_From l = pe_GroupID p \<and> gl_To l = pe_GroupID q)"
proof -
  let ?t = "applyTransparent (BuildTransparentSpec peers links)"
  have "mget (tt_peerGrp ?t) a = Some (pe_GroupID p)" "mget (tt_peerGrp ?t) b = Some (pe_GroupID q)"
    using find_tpeers [OF assms(1,2,4)] find_tpeers [OF assms(1,3,5)]
    by (simp_all add: applyTransparent_def Let_def peerGrp_RegisterPeer)
  then have "needsSNAT ?t a b \<longleftrightarrow> pe_GroupID p \<noteq> pe_GroupID q \<and>
      (\<exists>to. mget (tt_uniLinks ?t) (pe_GroupID p) = Some to \<and> pe_GroupID q \<in> set to)"
    by (auto simp: needsSNAT_def split: option.splits)
  then show ?thesis
    unfolding applyTransparent_def Let_def uniLinks_RegisterUniLink
    by (auto simp: BuildTransparentSpec_def NewTransparentTable_def)
qed

lemma relay_link:
  assumes "links_unique links" and "pe_GroupID p \<noteq> 0" "pe_GroupID q \<noteq> 0" "pe_GroupID p \<noteq> pe_GroupID q"
  shows "needsTransparentRelay p q links gs \<longleftrightarrow>
     (\<exists>l \<in> set links. \<not> gl_Bidirectional l \<and> gl_From l = pe_GroupID p \<and> gl_To l = pe_GroupID q)"
proof -
  have uniq: "l = m" if "l \<in> set links" "m \<in> set links"
      "gl_From l = pe_GroupID p \<and> gl_To l = pe_GroupID q \<or> gl_From l = pe_GroupID q \<and> gl_To l = pe_GroupID p"
      "gl_From m = pe_GroupID p \<and> gl_To m = pe_GroupID q \<or> gl_From m = pe_GroupID q \<and> gl_To m = pe_GroupID p" for l m
  proof -
    have "{gl_From l, gl_To l} = {gl_From m, gl_To m}" using that(3,4) by auto
    with that(1,2) assms(1) show ?thesis unfolding links_unique_def by blast
  qed
  show ?thesis
  proof (cases "findLinkBetween (pe_GroupID p) (pe_GroupID q) links")
    case None
    then have "\<not> (\<exists>l \<in> set links. gl_From l = pe_GroupID p \<and> gl_To l = pe_GroupID q \<or>
        gl_From l = pe_GroupID q \<and> gl_To l = pe_GroupID p)"
      by (auto simp: findLinkBetween_find find_None_iff)
    then show ?thesis using assms by (auto simp: needsTransparentRelay_def LinkAllowsInit_iff)
  next
    case (Some l)
    note l = findLinkBetween_Some [OF Some]
    then have all: "m = l" if "m \<in> set links"
      "gl_From m = pe_GroupID p \<and> gl_To m = pe_GroupID q \<or> gl_From m = pe_GroupID q \<and> gl_To m = pe_GroupID p" for m
      using uniq that by blast
    have d: "allowDirectPeerIP p q links gs = gl_Bidirectional l"
      using assms Some by (simp add: allowDirectPeerIP_def)
    have i: "LinkAllowsInit (pe_GroupID p) (pe_GroupID q) links gs \<longleftrightarrow>
        gl_From l = pe_GroupID p \<and> gl_To l = pe_GroupID q \<or> gl_Bidirectional l"
      using assms(2-4) l all by (auto simp: LinkAllowsInit_iff)
    show ?thesis
      using assms(2-4) l all unfolding needsTransparentRelay_def d i by auto
  qed
qed

text \<open>
  C13: with at most one link between two groups, the relay table built for the data plane rewrites
  packets from one active peer to another exactly when the policy asks for the transparent relay.
\<close>

theorem Apply_relay:
  assumes "peers_unique peers" and "links_unique links" and "p \<in> set peers" and "q \<in> set peers"
    and "active_at p a" and "active_at q b"
  shows "needsSNAT (applyTransparent (BuildTransparentSpec peers links)) a b =
     needsTransparentRelay p q links gs"
proof (cases "pe_GroupID p = pe_GroupID q")
  case True
  then show ?thesis
    unfolding needsSNAT_Apply [OF assms(1,3-6)] by (simp add: needsTransparentRelay_def)
next
  case False
  have "pe_GroupID p \<noteq> 0" "pe_GroupID q \<noteq> 0" using assms(5,6) by (auto simp: active_at_def)
  from relay_link [OF assms(2) this False] False show ?thesis
    unfolding needsSNAT_Apply [OF assms(1,3-6)] by simp
qed

theorem Apply_relay_witness:
  "needsSNAT (applyTransparent (BuildTransparentSpec ex_peers ex_links)) (Addr4 10 0 0 2) (Addr4 10 0 0 3) =
     needsTransparentRelay (ex_peers ! 0) (ex_peers ! 1) ex_links ex_groups"
  by (rule Apply_relay [OF ex_facts(1) _ ex_facts(2,3,5,6)]) (simp add: links_unique_def ex_links_def)

section \<open>From links to packets\<close>

text \<open>The state of the filter right after a policy was pushed, and what ran since.\<close>

lemma access_after_policy:
  "tun_access (SetAccessPolicy f (Some (Apply spec))) = the (acp_Rules (Apply spec))"
  by (simp add: SetAccessPolicy_def Apply_def Let_def)

lemma active_valid: "active_at p a \<Longrightarrow> is_valid a"
  using ParseAddr_valid by (auto simp: active_at_def)

lemma CanAccess_links:
  assumes "BuildAccessPolicySpec peers links gs maps = Inr spec" and "peers_unique peers"
    and "p \<in> set peers" "q \<in> set peers" "p \<noteq> q" "active_at p a" "active_at q b" "b \<notin> vips maps"
  shows "CanAccess (the (acp_Rules (Apply spec))) a b = LinkAllowsInit (pe_GroupID p) (pe_GroupID q) links gs"
  using CanAccess_Apply [OF assms(1) active_valid [OF assms(6)] active_valid [OF assms(7)]]
    blocks_peers [OF assms] by simp

text \<open>
  C1: end to end.  After a policy push, and before any traffic, the hub hands on a packet between two
  active peers if and only if the administrator's groups and links let the sender's group open
  traffic to the receiver's group.
\<close>

theorem policy_enforced:
  assumes "tun_run f0 h0" and "BuildAccessPolicySpec peers links gs maps = Inr spec" and "peers_unique peers"
    and "f = SetAccessPolicy f0 (Some (Apply spec))"
    and "p \<in> set peers" and "q \<in> set peers" and "p \<noteq> q"
    and "active_at p (src_of pkt)" and "active_at q (dst_of pkt)" and "dst_of pkt \<notin> vips maps"
    and "ipv4_packet pkt" and "\<not> exempt f pkt"
    and "tun_write_one f now pkt = Some (f', out)"
    and "ProcessIngressFromWG (tun_transparent f) now pkt = Some (t, pkt', False)"
  shows "(out = Some pkt) = LinkAllowsInit (pe_GroupID p) (pe_GroupID q) links gs \<and>
     (out = None) = (\<not> LinkAllowsInit (pe_GroupID p) (pe_GroupID q) links gs)"
proof -
  have run: "tun_run f {}" unfolding assms(4) by (rule tun_run.policy [OF assms(1)])
  have "CanAccess (tun_access f) (src_of pkt) (dst_of pkt) = LinkAllowsInit (pe_GroupID p) (pe_GroupID q) links gs"
    unfolding assms(4) access_after_policy by (rule CanAccess_links [OF assms(2,3,5-10)])
  with filter_passes [OF run assms(11,12,14,13)] show ?thesis by auto
qed


text \<open>The network of \<open>ex_peers\<close> behind the hub 10.0.0.1, with the packet \<open>ex_udp\<close> from group 1 to group 2.\<close>

definition ex_hub :: TUN where
  "ex_hub = SetAccessPolicy (NewTUN (Addr4 10 0 0 1)) (Some (Apply ex_spec))"

lemma ex_hub_parts:
  "tun_hubIP ex_hub = Addr4 10 0 0 1" "tun_mapVIPs ex_hub = []"
  "tun_access ex_hub = the (acp_Rules (Apply ex_spec))"
  "tt_hubIP (tun_transparent ex_hub) = Addr4 10 0 0 1"
  by (simp_all add: ex_hub_def SetAccessPolicy_def NewTUN_def Apply_def Let_def Reset_def
      Snat.ReserveHubPorts_def SetHubIP_def)

lemma ex_hub_exempt: "\<not> exempt ex_hub ex_udp"
  by (simp add: exempt_def ex_hub_parts isMapVIP_def ex_udp_parse)

lemma ex_hub_active:
  "active_at (ex_peers ! 0) (src_of ex_udp)" "active_at (ex_peers ! 1) (dst_of ex_udp)"
  "src_of ex_udp \<notin> vips ex_maps" "dst_of ex_udp \<notin> vips ex_maps"
  using ex_facts by (simp_all add: ex_udp_parse)

lemma ex_hub_run: "tun_run ex_hub {}"
  unfolding ex_hub_def by (rule tun_run.policy [OF tun_run.start])

lemma ex_hub_init: "LinkAllowsInit (pe_GroupID (ex_peers ! 0)) (pe_GroupID (ex_peers ! 1)) ex_links ex_groups"
  by (simp add: LinkAllowsInit_iff ex_peers_def ex_links_def)

lemma ex_hub_write: "\<exists>f'. tun_write_one ex_hub now ex_udp = Some (f', Some ex_udp)"
proof -
  have "CanAccess (tun_access ex_hub) (src_of ex_udp) (dst_of ex_udp)"
    unfolding ex_hub_parts
      CanAccess_links [OF ex_spec ex_facts(1,2,3,4) ex_hub_active(1,2,4)] by (rule ex_hub_init)
  then have "snd (shouldDrop ex_hub now ex_udp) = False" by (simp add: shouldDrop_ipv4 [OF ex_udp_ipv4])
  then show ?thesis
    by (auto simp: tun_write_one_def ex_tun_ingress ex_hub_parts split: prod.splits)
qed

theorem policy_enforced_witness:
  "\<exists>f' out. tun_write_one ex_hub 5 ex_udp = Some (f', out) \<and> out = Some ex_udp"
proof -
  obtain f' where w: "tun_write_one ex_hub 5 ex_udp = Some (f', Some ex_udp)" using ex_hub_write by blast
  from policy_enforced [OF tun_run.start ex_spec ex_facts(1) ex_hub_def ex_facts(2,3,4) ex_hub_active(1,2,4)
      ex_udp_ipv4 ex_hub_exempt w ex_tun_ingress [OF ex_hub_parts(4)]] ex_hub_init w
  show ?thesis by blast
qed


section \<open>Unsolicited traffic against a one-way link\<close>

text \<open>
  The flow memory records addresses only, not ports or protocols.  After one packet from group 1 to
  group 2 the hub therefore hands on any packet of the opposite direction for two minutes, although
  the link does not let group 2 open traffic to group 1.
\<close>

definition ex_back :: "u8 list" where
  "ex_back = [0x45, 0, 0, 28, 0, 0, 0, 0, 64, 17, 0, 0, 10, 0, 0, 3, 10, 0, 0, 2, 0x11, 0x22, 0x33, 0x44, 0, 8, 0, 0]"

lemma ex_back_parts:
  "ipv4_packet ex_back" "src_of ex_back = Addr4 10 0 0 3" "dst_of ex_back = Addr4 10 0 0 2"
  "parseIPv4Transport ex_back = Some (Addr4 10 0 0 3, Addr4 10 0 0 2, 17, 0x1122, 0x3344)"
  by (simp_all add: ipv4_packet_def parseIPv4Transport_def ihl_of_def src_of_def dst_of_def
      sport_of_def dport_of_def be16_def ex_back_def protoTCP_def protoUDP_def)

lemma oneway_link_return_traffic:
  "\<not> LinkAllowsInit (pe_GroupID (ex_peers ! 1)) (pe_GroupID (ex_peers ! 0)) ex_links ex_groups \<and>
   (\<exists>f1. tun_write_one ex_hub 0 ex_udp = Some (f1, Some ex_udp) \<and>
      (\<exists>f2. tun_write_one f1 1 ex_back = Some (f2, Some ex_back)))"
proof -
  have can: "CanAccess (tun_access ex_hub) (src_of ex_udp) (dst_of ex_udp)"
    unfolding ex_hub_parts CanAccess_links [OF ex_spec ex_facts(1,2,3,4) ex_hub_active(1,2,4)] by (rule ex_hub_init)
  define f1 where "f1 = ex_hub\<lparr>tun_ct := remember 0 (src_of ex_udp, dst_of ex_udp) (tun_ct ex_hub)\<rparr>"
  have sd: "shouldDrop ex_hub 0 ex_udp = (f1, False)"
    using can ex_hub_exempt by (simp add: shouldDrop_ipv4 [OF ex_udp_ipv4] f1_def)
  then have w1: "tun_write_one ex_hub 0 ex_udp = Some (f1, Some ex_udp)"
    by (simp add: tun_write_one_def ex_tun_ingress ex_hub_parts)
  have "flows.backed {} (tun_ct ex_hub)" "ct_ttl (tun_ct ex_hub) = SessionIdle"
    using tun_run_inv [OF ex_hub_run] by (simp_all add: tun_inv_def)
  then have ret: "snd (allowsReturn 1 (Addr4 10 0 0 3) (Addr4 10 0 0 2) (tun_ct f1))"
    using flows.note_then_ask [of "tun_ct ex_hub" 0 1 "(Addr4 10 0 0 2, Addr4 10 0 0 3)"]
    by (simp add: f1_def ex_udp_parse flows.backed_def SessionIdle_def)
  have "\<not> snd (shouldDrop f1 1 ex_back)"
    using ret by (simp add: shouldDrop_ipv4 [OF ex_back_parts(1)] ex_back_parts)
  moreover have "ProcessIngressFromWG (tun_transparent f1) 1 ex_back = Some (tun_transparent f1, ex_back, False)"
    by (simp add: ProcessIngressFromWG_def f1_def ex_hub_parts ex_back_parts)
  ultimately have "\<exists>f2. tun_write_one f1 1 ex_back = Some (f2, Some ex_back)"
    by (auto simp: tun_write_one_def split: prod.splits)
  with w1 show ?thesis by (auto simp: LinkAllowsInit_iff ex_links_def ex_peers_def)
qed

end
