(* ===== verification/Act.thy ===== *)
theory Act
  imports Prelude
begin

text \<open>
  A program runs on a state and may fail: a Go function with an error result, the state being what it
  reads and writes.
\<close>

type_synonym ('s, 'a) act = "'s \<Rightarrow> (err + 'a) \<times> 's"

definition ret :: "'a \<Rightarrow> ('s, 'a) act" where "ret x = (\<lambda>s. (Inr x, s))"
definition fail :: "err \<Rightarrow> ('s, 'a) act" where "fail e = (\<lambda>s. (Inl e, s))"

definition andthen :: "('s, 'a) act \<Rightarrow> ('a \<Rightarrow> ('s, 'b) act) \<Rightarrow> ('s, 'b) act" where
  "andthen m f = (\<lambda>s. case m s of (Inl e, s') \<Rightarrow> (Inl e, s') | (Inr x, s') \<Rightarrow> f x s')"

text \<open>\<open>attempt m\<close>: go on with the error as a value.\<close>

definition attempt :: "('s, 'a) act \<Rightarrow> ('s, err + 'a) act" where
  "attempt m = (\<lambda>s. case m s of (r, s') \<Rightarrow> (Inr r, s'))"

definition lift_res :: "err + 'a \<Rightarrow> ('s, 'a) act" where
  "lift_res r = (\<lambda>s. (r, s))"

fun for_each :: "'a list \<Rightarrow> ('a \<Rightarrow> ('s, unit) act) \<Rightarrow> ('s, unit) act" where
  "for_each [] f = ret ()"
| "for_each (x # xs) f = andthen (f x) (\<lambda>_. for_each xs f)"

lemma andthen_cases:
  assumes "andthen m f s = (r, s')"
  obtains (err) e where "m s = (Inl e, s')" "r = Inl e"
  | (ok) x s1 where "m s = (Inr x, s1)" "f x s1 = (r, s')"
  using assms by (cases "m s"; cases "fst (m s)") (auto simp: andthen_def)

end
