(* ===== verification/Db.thy ===== *)
theory Db
  imports Act "HOL-Library.Multiset"
begin

text \<open>
  The rows the store keeps (\<^verbatim>\<open>repo/models.go\<close>, \<^verbatim>\<open>repo/maps.go\<close>) and the way the store talks to its
  database.  GORM and SQLite are not part of the program: the statement executor is an argument of
  every store operation, and \<open>sql_ok\<close> names what the store relies on, which is the documented
  behaviour of SQL: a statement that fails changes nothing; a statement that succeeds selects,
  inserts, updates or deletes the rows it names and leaves the unique indexes declared in the models
  intact.  A failing transaction is rolled back.
\<close>

section \<open>Rows\<close>

record Admin =
  ad_ID :: nat
  ad_Username :: string
  ad_PasswordHash :: string
  ad_TokenVersion :: int

record Settings =
  se_ID :: nat
  se_ServerPublicKey :: string
  se_ServerPrivateKey :: string
  se_Endpoint :: string
  se_ListenPort :: int
  se_WGSubnet :: string
  se_HubIP :: string
  se_DNSIP :: string
  se_DNSSuffix :: string
  se_MTU :: int
  se_StatusInterval :: int
  se_UpstreamDNS :: "string list"

record Peer =
  p_ID :: nat
  p_Name :: string
  p_PublicKey :: string
  p_PrivateKey :: string
  p_WGIP :: string
  p_GroupID :: nat
  p_Enabled :: bool
  p_DNSName :: string
  p_LastHandshake :: int
  p_RxBytes :: int
  p_TxBytes :: int
  p_CreatedAt :: int

text \<open>The canvas coordinates are floats in the source; the store only copies them.\<close>

record PeerGroup =
  g_ID :: nat
  g_Name :: string
  g_PosX :: int
  g_PosY :: int
  g_AllowIntraGroup :: bool

record GroupLink =
  l_ID :: nat
  l_From :: nat
  l_To :: nat
  l_Bidirectional :: bool

record DNSRecord =
  d_ID :: nat
  d_Hostname :: string
  d_IP :: string
  d_PeerID :: "nat option"
  d_Manual :: bool

record PortForward =
  f_ID :: nat
  f_Name :: string
  f_ListenPort :: int
  f_Protocol :: string
  f_TargetHost :: string
  f_TargetPort :: int

record ServiceMap =
  m_ID :: nat
  m_Name :: string
  m_Slug :: string
  m_TargetHost :: string
  m_VirtualIP :: string

record MapGroupAllow =
  a_MapID :: nat
  a_GroupID :: nat
  a_Position :: int

datatype row =
    RAdmin Admin | RSettings Settings | RPeer Peer | RGroup PeerGroup | RLink GroupLink
  | RDNS DNSRecord | RForward PortForward | RMap ServiceMap | RAllow MapGroupAllow

datatype table = TAdmin | TSettings | TPeer | TGroup | TLink | TDNS | TForward | TMap | TAllow

type_synonym db = "row list"

fun table_of :: "row \<Rightarrow> table" where
  "table_of (RAdmin _) = TAdmin"
| "table_of (RSettings _) = TSettings"
| "table_of (RPeer _) = TPeer"
| "table_of (RGroup _) = TGroup"
| "table_of (RLink _) = TLink"
| "table_of (RDNS _) = TDNS"
| "table_of (RForward _) = TForward"
| "table_of (RMap _) = TMap"
| "table_of (RAllow _) = TAllow"

text \<open>The primary key; an allow row is keyed by its map and group.\<close>

fun key_of :: "row \<Rightarrow> nat \<times> nat" where
  "key_of (RAdmin x) = (ad_ID x, 0)"
| "key_of (RSettings x) = (se_ID x, 0)"
| "key_of (RPeer x) = (p_ID x, 0)"
| "key_of (RGroup x) = (g_ID x, 0)"
| "key_of (RLink x) = (l_ID x, 0)"
| "key_of (RDNS x) = (d_ID x, 0)"
| "key_of (RForward x) = (f_ID x, 0)"
| "key_of (RMap x) = (m_ID x, 0)"
| "key_of (RAllow x) = (a_MapID x, a_GroupID x)"

fun set_id :: "nat \<Rightarrow> row \<Rightarrow> row" where
  "set_id i (RAdmin x) = RAdmin (x\<lparr>ad_ID := i\<rparr>)"
| "set_id i (RSettings x) = RSettings (x\<lparr>se_ID := i\<rparr>)"
| "set_id i (RPeer x) = RPeer (x\<lparr>p_ID := i\<rparr>)"
| "set_id i (RGroup x) = RGroup (x\<lparr>g_ID := i\<rparr>)"
| "set_id i (RLink x) = RLink (x\<lparr>l_ID := i\<rparr>)"
| "set_id i (RDNS x) = RDNS (x\<lparr>d_ID := i\<rparr>)"
| "set_id i (RForward x) = RForward (x\<lparr>f_ID := i\<rparr>)"
| "set_id i (RMap x) = RMap (x\<lparr>m_ID := i\<rparr>)"
| "set_id i (RAllow x) = RAllow x"

section \<open>Tables\<close>

definition t_admins :: "db \<Rightarrow> Admin list" where
  "t_admins db = List.map_filter (\<lambda>r. case r of RAdmin x \<Rightarrow> Some x | _ \<Rightarrow> None) db"
definition t_settings :: "db \<Rightarrow> Settings list" where
  "t_settings db = List.map_filter (\<lambda>r. case r of RSettings x \<Rightarrow> Some x | _ \<Rightarrow> None) db"
definition t_peers :: "db \<Rightarrow> Peer list" where
  "t_peers db = List.map_filter (\<lambda>r. case r of RPeer x \<Rightarrow> Some x | _ \<Rightarrow> None) db"
definition t_groups :: "db \<Rightarrow> PeerGroup list" where
  "t_groups db = List.map_filter (\<lambda>r. case r of RGroup x \<Rightarrow> Some x | _ \<Rightarrow> None) db"
definition t_links :: "db \<Rightarrow> GroupLink list" where
  "t_links db = List.map_filter (\<lambda>r. case r of RLink x \<Rightarrow> Some x | _ \<Rightarrow> None) db"
definition t_dns_records :: "db \<Rightarrow> DNSRecord list" where
  "t_dns_records db = List.map_filter (\<lambda>r. case r of RDNS x \<Rightarrow> Some x | _ \<Rightarrow> None) db"
definition t_forwards :: "db \<Rightarrow> PortForward list" where
  "t_forwards db = List.map_filter (\<lambda>r. case r of RForward x \<Rightarrow> Some x | _ \<Rightarrow> None) db"
definition t_maps :: "db \<Rightarrow> ServiceMap list" where
  "t_maps db = List.map_filter (\<lambda>r. case r of RMap x \<Rightarrow> Some x | _ \<Rightarrow> None) db"
definition t_allows :: "db \<Rightarrow> MapGroupAllow list" where
  "t_allows db = List.map_filter (\<lambda>r. case r of RAllow x \<Rightarrow> Some x | _ \<Rightarrow> None) db"

lemmas table_defs = t_admins_def t_settings_def t_peers_def t_groups_def t_links_def t_dns_records_def t_forwards_def
  t_maps_def t_allows_def

text \<open>The unique indexes of the models: one row per key, and the columns tagged \<^verbatim>\<open>uniqueIndex\<close>.\<close>

definition uniq_ok :: "db \<Rightarrow> bool" where
  "uniq_ok db = (distinct (map (\<lambda>r. (table_of r, key_of r)) db) \<and>
     distinct (map ad_Username (t_admins db)) \<and>
     distinct (map p_Name (t_peers db)) \<and> distinct (map p_PublicKey (t_peers db)) \<and> distinct (map p_WGIP (t_peers db)) \<and>
     distinct (map g_Name (t_groups db)) \<and>
     distinct (map (\<lambda>l. (l_From l, l_To l)) (t_links db)) \<and>
     distinct (map d_Hostname (t_dns_records db)) \<and>
     distinct (map (\<lambda>f. (f_ListenPort f, f_Protocol f)) (t_forwards db)) \<and>
     distinct (map m_Slug (t_maps db)) \<and> distinct (map m_VirtualIP (t_maps db)))"

section \<open>Statements\<close>

text \<open>
  The statements GORM issues for the calls of the store: a query with its \<^verbatim>\<open>WHERE\<close> clause, an
  insert (the key is assigned by the database unless it is given), \<^verbatim>\<open>Save\<close> (update the row with
  the same key, or insert it), \<^verbatim>\<open>Updates\<close> of the matching rows, and a delete.
\<close>

datatype stmt =
    Select table "row \<Rightarrow> bool"
  | Insert row
  | Save row
  | Update table "row \<Rightarrow> bool" "row \<Rightarrow> row"
  | Delete table "row \<Rightarrow> bool"

type_synonym sql = "nat \<Rightarrow> stmt \<Rightarrow> db \<Rightarrow> db \<times> (err + row list)"

text \<open>What a successful statement does: the rows before and after, and the rows returned.\<close>

fun sem :: "stmt \<Rightarrow> db \<Rightarrow> db \<Rightarrow> row list \<Rightarrow> bool" where
  "sem (Select t P) db db' rows = (db' = db \<and> mset rows = mset (filter (\<lambda>r. table_of r = t \<and> P r) db))"
| "sem (Insert r) db db' rows =
     (\<exists>i. i \<noteq> 0 \<and> (let r' = (if fst (key_of r) = 0 then set_id i r else r) in
        (table_of r', key_of r') \<notin> (\<lambda>x. (table_of x, key_of x)) ` set db \<and> db' = db @ [r'] \<and> rows = [r']))"
| "sem (Save r) db db' rows =
     (if (table_of r, key_of r) \<in> (\<lambda>x. (table_of x, key_of x)) ` set db
      then db' = map (\<lambda>x. if table_of x = table_of r \<and> key_of x = key_of r then r else x) db \<and> rows = [r]
      else db' = db @ [r] \<and> rows = [r])"
| "sem (Update t P f) db db' rows =
     (db' = map (\<lambda>x. if table_of x = t \<and> P x then f x else x) db \<and> rows = [])"
| "sem (Delete t P) db db' rows = (db' = filter (\<lambda>x. \<not> (table_of x = t \<and> P x)) db \<and> rows = [])"

definition sql_ok :: "sql \<Rightarrow> bool" where
  "sql_ok exec = (\<forall>n s db. uniq_ok db \<longrightarrow> (case exec n s db of
       (db', Inl e) \<Rightarrow> db' = db
     | (db', Inr rows) \<Rightarrow> uniq_ok db' \<and> sem s db db' rows))"

section \<open>Programs\<close>

text \<open>The store's programs run on the statement counter and the database.\<close>

type_synonym st = "nat \<times> db"
type_synonym 'a prog = "(st, 'a) act"

definition run :: "sql \<Rightarrow> stmt \<Rightarrow> row list prog" where
  "run exec q = (\<lambda>(n, db). case exec n q db of (db', r) \<Rightarrow> (r, (Suc n, db')))"

definition transaction :: "'a prog \<Rightarrow> 'a prog" where
  "transaction m = (\<lambda>(n, db). case m (n, db) of
      (Inl e, (n', db')) \<Rightarrow> (Inl e, (n', db))
    | (Inr x, s') \<Rightarrow> (Inr x, s'))"

text \<open>\<^verbatim>\<open>First\<close>: the matching row with the smallest key, or \<^verbatim>\<open>ErrRecordNotFound\<close>.\<close>

definition first_by_key :: "row list \<Rightarrow> row option" where
  "first_by_key rows = (case sort_key (\<lambda>r. fst (key_of r)) rows of [] \<Rightarrow> None | r # _ \<Rightarrow> Some r)"

definition first_row :: "sql \<Rightarrow> table \<Rightarrow> (row \<Rightarrow> bool) \<Rightarrow> row prog" where
  "first_row exec t P = andthen (run exec (Select t P)) (\<lambda>rows.
     case first_by_key rows of None \<Rightarrow> fail ErrRecordNotFound | Some r \<Rightarrow> ret r)"

definition count_rows :: "sql \<Rightarrow> table \<Rightarrow> (row \<Rightarrow> bool) \<Rightarrow> nat prog" where
  "count_rows exec t P = andthen (run exec (Select t P)) (\<lambda>rows. ret (length rows))"

definition exec_stmt :: "sql \<Rightarrow> stmt \<Rightarrow> unit prog" where
  "exec_stmt exec q = andthen (run exec q) (\<lambda>_. ret ())"

text \<open>
  \<^verbatim>\<open>Create\<close>: columns tagged with a default take it when the value is the zero value, here the two
  flags that default to true.  The stored row is returned.
\<close>

fun gorm_defaults :: "row \<Rightarrow> row" where
  "gorm_defaults (RPeer x) = RPeer (x\<lparr>p_Enabled := True\<rparr>)"
| "gorm_defaults (RGroup x) = RGroup (x\<lparr>g_AllowIntraGroup := True\<rparr>)"
| "gorm_defaults r = r"

definition create :: "sql \<Rightarrow> row \<Rightarrow> row prog" where
  "create exec r = andthen (run exec (Insert (gorm_defaults r))) (\<lambda>rows.
     case rows of r' # _ \<Rightarrow> ret r' | [] \<Rightarrow> fail ErrRecordNotFound)"

section \<open>Typed access\<close>

text \<open>\<^verbatim>\<open>WHERE\<close> clauses on one table, and rows read back at their type.\<close>

fun on_admin :: "(Admin \<Rightarrow> bool) \<Rightarrow> row \<Rightarrow> bool" where
  "on_admin P (RAdmin x) = P x" | "on_admin P _ = False"
fun on_settings :: "(Settings \<Rightarrow> bool) \<Rightarrow> row \<Rightarrow> bool" where
  "on_settings P (RSettings x) = P x" | "on_settings P _ = False"
fun on_peer :: "(Peer \<Rightarrow> bool) \<Rightarrow> row \<Rightarrow> bool" where
  "on_peer P (RPeer x) = P x" | "on_peer P _ = False"
fun on_group :: "(PeerGroup \<Rightarrow> bool) \<Rightarrow> row \<Rightarrow> bool" where
  "on_group P (RGroup x) = P x" | "on_group P _ = False"
fun on_link :: "(GroupLink \<Rightarrow> bool) \<Rightarrow> row \<Rightarrow> bool" where
  "on_link P (RLink x) = P x" | "on_link P _ = False"
fun on_dns :: "(DNSRecord \<Rightarrow> bool) \<Rightarrow> row \<Rightarrow> bool" where
  "on_dns P (RDNS x) = P x" | "on_dns P _ = False"
fun on_forward :: "(PortForward \<Rightarrow> bool) \<Rightarrow> row \<Rightarrow> bool" where
  "on_forward P (RForward x) = P x" | "on_forward P _ = False"
fun on_map :: "(ServiceMap \<Rightarrow> bool) \<Rightarrow> row \<Rightarrow> bool" where
  "on_map P (RMap x) = P x" | "on_map P _ = False"
fun on_allow :: "(MapGroupAllow \<Rightarrow> bool) \<Rightarrow> row \<Rightarrow> bool" where
  "on_allow P (RAllow x) = P x" | "on_allow P _ = False"

definition first_admin :: "sql \<Rightarrow> (Admin \<Rightarrow> bool) \<Rightarrow> Admin prog" where
  "first_admin exec P = andthen (first_row exec TAdmin (on_admin P)) (\<lambda>r. case r of RAdmin x \<Rightarrow> ret x | _ \<Rightarrow> fail ErrRecordNotFound)"
definition first_settings :: "sql \<Rightarrow> Settings prog" where
  "first_settings exec = andthen (first_row exec TSettings (\<lambda>_. True)) (\<lambda>r. case r of RSettings x \<Rightarrow> ret x | _ \<Rightarrow> fail ErrRecordNotFound)"
definition first_peer :: "sql \<Rightarrow> (Peer \<Rightarrow> bool) \<Rightarrow> Peer prog" where
  "first_peer exec P = andthen (first_row exec TPeer (on_peer P)) (\<lambda>r. case r of RPeer x \<Rightarrow> ret x | _ \<Rightarrow> fail ErrRecordNotFound)"
definition first_group :: "sql \<Rightarrow> (PeerGroup \<Rightarrow> bool) \<Rightarrow> PeerGroup prog" where
  "first_group exec P = andthen (first_row exec TGroup (on_group P)) (\<lambda>r. case r of RGroup x \<Rightarrow> ret x | _ \<Rightarrow> fail ErrRecordNotFound)"
definition first_link :: "sql \<Rightarrow> (GroupLink \<Rightarrow> bool) \<Rightarrow> GroupLink prog" where
  "first_link exec P = andthen (first_row exec TLink (on_link P)) (\<lambda>r. case r of RLink x \<Rightarrow> ret x | _ \<Rightarrow> fail ErrRecordNotFound)"
definition first_forward :: "sql \<Rightarrow> (PortForward \<Rightarrow> bool) \<Rightarrow> PortForward prog" where
  "first_forward exec P = andthen (first_row exec TForward (on_forward P)) (\<lambda>r. case r of RForward x \<Rightarrow> ret x | _ \<Rightarrow> fail ErrRecordNotFound)"
definition first_map :: "sql \<Rightarrow> (ServiceMap \<Rightarrow> bool) \<Rightarrow> ServiceMap prog" where
  "first_map exec P = andthen (first_row exec TMap (on_map P)) (\<lambda>r. case r of RMap x \<Rightarrow> ret x | _ \<Rightarrow> fail ErrRecordNotFound)"

definition find_rows :: "sql \<Rightarrow> table \<Rightarrow> row list prog" where
  "find_rows exec t = run exec (Select t (\<lambda>_. True))"

section \<open>Reasoning\<close>

text \<open>
  Triples over the database: from \<open>P\<close>, a successful run ends in \<open>Q\<close> (with its result) and a failing
  run in \<open>E\<close>.  The rules below take a program apart along its structure.
\<close>

definition hoare :: "(db \<Rightarrow> bool) \<Rightarrow> 'a prog \<Rightarrow> ('a \<Rightarrow> db \<Rightarrow> bool) \<Rightarrow> (db \<Rightarrow> bool) \<Rightarrow> bool" where
  "hoare P m Q E \<longleftrightarrow> (\<forall>n db n' db'. P db \<longrightarrow>
     (\<forall>x. m (n, db) = (Inr x, (n', db')) \<longrightarrow> Q x db') \<and> (\<forall>e. m (n, db) = (Inl e, (n', db')) \<longrightarrow> E db'))"

lemma hoareI:
  assumes "\<And>n db x n' db'. P db \<Longrightarrow> m (n, db) = (Inr x, (n', db')) \<Longrightarrow> Q x db'"
    and "\<And>n db e n' db'. P db \<Longrightarrow> m (n, db) = (Inl e, (n', db')) \<Longrightarrow> E db'"
  shows "hoare P m Q E"
  unfolding hoare_def using assms by blast

lemma hoareD:
  assumes "hoare P m Q E" and "P db"
  shows "m (n, db) = (Inr x, (n', db')) \<Longrightarrow> Q x db'" and "m (n, db) = (Inl e, (n', db')) \<Longrightarrow> E db'"
  using assms unfolding hoare_def by blast+

named_theorems hoare_intro "structural rules for triples"

lemma hoare_ret [hoare_intro]: "(\<And>db. P db \<Longrightarrow> Q x db) \<Longrightarrow> hoare P (ret x) Q E"
  by (rule hoareI) (auto simp: ret_def)

lemma hoare_fail [hoare_intro]: "(\<And>db. P db \<Longrightarrow> E db) \<Longrightarrow> hoare P (fail e) Q E"
  by (rule hoareI) (auto simp: fail_def)

lemma hoare_lift:
  "(\<And>db x. P db \<Longrightarrow> r = Inr x \<Longrightarrow> Q x db) \<Longrightarrow> (\<And>db. P db \<Longrightarrow> E db) \<Longrightarrow> hoare P (lift_res r) Q E"
  by (rule hoareI) (auto simp: lift_res_def)

lemma hoare_andthen:
  assumes "hoare P m R E" and "\<And>x. hoare (R x) (f x) Q E"
  shows "hoare P (andthen m f) Q E"
proof (rule hoareI)
  fix n db x n' db' assume P: "P db" and a: "andthen m f (n, db) = (Inr x, (n', db'))"
  from a show "Q x db'"
  proof (cases rule: andthen_cases)
    case (ok y s1)
    obtain n1 db1 where s1: "s1 = (n1, db1)" by (cases s1)
    from hoareD(1) [OF assms(1) P ok(1) [unfolded s1]] have "R y db1" .
    from hoareD(1) [OF assms(2) this ok(2) [unfolded s1]] show ?thesis .
  qed simp
next
  fix n db e n' db' assume P: "P db" and a: "andthen m f (n, db) = (Inl e, (n', db'))"
  from a show "E db'"
  proof (cases rule: andthen_cases)
    case (err e')
    from hoareD(2) [OF assms(1) P err(1)] show ?thesis .
  next
    case (ok y s1)
    obtain n1 db1 where s1: "s1 = (n1, db1)" by (cases s1)
    from hoareD(1) [OF assms(1) P ok(1) [unfolded s1]] have "R y db1" .
    from hoareD(2) [OF assms(2) this ok(2) [unfolded s1]] show ?thesis .
  qed
qed

lemma hoare_attempt:
  assumes "hoare P m (\<lambda>x. Q (Inr x)) (\<lambda>db. \<forall>e. Q (Inl e) db)"
  shows "hoare P (attempt m) Q E"
proof (rule hoareI)
  fix n db x n' db' assume P: "P db" and "attempt m (n, db) = (Inr x, (n', db'))"
  then have "m (n, db) = (x, (n', db'))" by (auto simp: attempt_def split: prod.splits)
  with hoareD [OF assms P] show "Q x db'" by (cases x) blast+
qed (auto simp: attempt_def split: prod.splits)

lemma hoare_weaken:
  assumes "hoare P m Q E" "\<And>db. P' db \<Longrightarrow> P db" "\<And>x db. Q x db \<Longrightarrow> Q' x db" "\<And>db. E db \<Longrightarrow> E' db"
  shows "hoare P' m Q' E'"
  using assms unfolding hoare_def by blast

lemma hoare_assume: "(\<And>db0. P db0 \<Longrightarrow> hoare (\<lambda>db. db = db0) m Q E) \<Longrightarrow> hoare P m Q E"
  unfolding hoare_def by blast

lemma hoare_if [hoare_intro]:
  "(b \<Longrightarrow> hoare P m Q E) \<Longrightarrow> (\<not> b \<Longrightarrow> hoare P m' Q E) \<Longrightarrow> hoare P (if b then m else m') Q E"
  by simp

lemma sql_okD:
  assumes "sql_ok exec" "uniq_ok db"
  shows "exec n q db = (db', Inl e) \<Longrightarrow> db' = db"
    and "exec n q db = (db', Inr rows) \<Longrightarrow> uniq_ok db' \<and> sem q db db' rows"
proof -
  have "case exec n q db of (db', Inl e) \<Rightarrow> db' = db | (db', Inr rows) \<Rightarrow> uniq_ok db' \<and> sem q db db' rows"
    using assms unfolding sql_ok_def by (elim allE impE) assumption+
  then show "exec n q db = (db', Inl e) \<Longrightarrow> db' = db"
    and "exec n q db = (db', Inr rows) \<Longrightarrow> uniq_ok db' \<and> sem q db db' rows" by simp_all
qed

lemma hoare_run:
  assumes "sql_ok exec" and "\<And>db. P db \<Longrightarrow> uniq_ok db \<and> E db"
    and "\<And>db db' rows. P db \<Longrightarrow> uniq_ok db' \<Longrightarrow> sem q db db' rows \<Longrightarrow> Q rows db'"
  shows "hoare P (run exec q) Q E"
proof (rule hoareI)
  fix n db x n' db' assume P: "P db" and "run exec q (n, db) = (Inr x, (n', db'))"
  then have "exec n q db = (db', Inr x)" by (auto simp: run_def split: prod.splits)
  from sql_okD(2) [OF assms(1) _ this] assms(2) [OF P] assms(3) [OF P] show "Q x db'" by blast
next
  fix n db e n' db' assume P: "P db" and "run exec q (n, db) = (Inl e, (n', db'))"
  then have "exec n q db = (db', Inl e)" by (auto simp: run_def split: prod.splits)
  from sql_okD(1) [OF assms(1) _ this] assms(2) [OF P] show "E db'" by blast
qed

text \<open>A failed transaction leaves the database it started from.\<close>

lemma hoare_transaction:
  assumes "\<And>db0. P db0 \<Longrightarrow> hoare (\<lambda>db. db = db0) m Q (\<lambda>_. True)" and "\<And>db. P db \<Longrightarrow> E db"
  shows "hoare P (transaction m) Q E"
proof (rule hoareI)
  fix n db x n' db' assume P: "P db" and "transaction m (n, db) = (Inr x, (n', db'))"
  then have "m (n, db) = (Inr x, (n', db'))" by (auto simp: transaction_def split: prod.splits sum.splits)
  from hoareD(1) [OF assms(1) [OF P] refl this] show "Q x db'" .
next
  fix n db e n' db' assume P: "P db" and "transaction m (n, db) = (Inl e, (n', db'))"
  then have "db' = db" by (auto simp: transaction_def split: prod.splits sum.splits)
  with assms(2) [OF P] show "E db'" by simp
qed

lemma hoare_for_each:
  assumes "\<And>x. x \<in> set xs \<Longrightarrow> hoare I (f x) (\<lambda>_. I) E"
  shows "hoare I (for_each xs f) (\<lambda>_. I) E"
  using assms
proof (induction xs)
  case Nil
  then show ?case by (simp add: hoare_ret)
next
  case (Cons x xs)
  have "hoare I (f x) (\<lambda>_. I) E" using Cons.prems by simp
  then show ?case using Cons by (auto intro: hoare_andthen)
qed

lemma first_by_key_Some: "first_by_key rows = Some r \<Longrightarrow> r \<in> set rows"
  by (auto simp: first_by_key_def split: list.splits)
    (metis list.set_intros(1) set_sort)

lemma first_by_key_None: "first_by_key rows = None \<longleftrightarrow> rows = []"
  by (auto simp: first_by_key_def split: list.splits) (metis set_empty set_sort)

lemma set_select: "mset rows = {#r \<in># mset db. P r#} \<Longrightarrow> set rows = {r \<in> set db. P r}"
  by (metis mset_filter set_filter set_mset_mset)

lemma length_select: "mset rows = {#r \<in># mset db. P r#} \<Longrightarrow> length rows = length (filter P db)"
  by (metis mset_filter size_mset)

lemma hoare_first:
  assumes "sql_ok exec" and "\<And>db. P db \<Longrightarrow> uniq_ok db \<and> E db"
    and "\<And>db r. P db \<Longrightarrow> r \<in> set db \<Longrightarrow> table_of r = t \<Longrightarrow> W r \<Longrightarrow> Q r db"
  shows "hoare P (first_row exec t W) Q E"
  unfolding first_row_def
proof (rule hoare_andthen)
  show "hoare P (run exec (Select t W)) (\<lambda>rows db. P db \<and> set rows = {r \<in> set db. table_of r = t \<and> W r}) E"
    using assms(2) by (intro hoare_run [OF assms(1)]) (simp_all add: set_select)
next
  fix rows
  show "hoare (\<lambda>db. P db \<and> set rows = {r \<in> set db. table_of r = t \<and> W r})
     (case first_by_key rows of None \<Rightarrow> fail ErrRecordNotFound | Some r \<Rightarrow> ret r) Q E"
  proof (cases "first_by_key rows")
    case None
    with assms(2) show ?thesis by (auto intro: hoare_fail)
  next
    case (Some r)
    with first_by_key_Some [OF Some] assms(3) show ?thesis by (auto intro!: hoare_ret)
  qed
qed

lemma hoare_count:
  assumes "sql_ok exec" and "\<And>db. P db \<Longrightarrow> uniq_ok db \<and> E db"
    and "\<And>db. P db \<Longrightarrow> Q (length (filter (\<lambda>r. table_of r = t \<and> W r) db)) db"
  shows "hoare P (count_rows exec t W) Q E"
  unfolding count_rows_def
proof (rule hoare_andthen)
  show "hoare P (run exec (Select t W)) (\<lambda>rows db. Q (length rows) db) E"
  proof (rule hoare_run [OF assms(1)])
    fix db db' rows assume P: "P db" and "sem (Select t W) db db' rows"
    then have "db' = db" "length rows = length (filter (\<lambda>r. table_of r = t \<and> W r) db)"
      by (auto intro!: length_select)
    with assms(3) [OF P] show "Q (length rows) db'" by simp
  qed (rule assms(2))
qed (auto intro: hoare_ret)

lemma hoare_stmt:
  assumes "sql_ok exec" and "\<And>db. P db \<Longrightarrow> uniq_ok db \<and> E db"
    and "\<And>db db' rows. P db \<Longrightarrow> uniq_ok db' \<Longrightarrow> sem q db db' rows \<Longrightarrow> Q () db'"
  shows "hoare P (exec_stmt exec q) Q E"
  unfolding exec_stmt_def
proof (rule hoare_andthen)
  show "hoare P (run exec q) (\<lambda>_. Q ()) E" by (rule hoare_run [OF assms(1)]) (fact assms(2), fact assms(3))
qed (auto intro: hoare_ret)

end
