(* ===== verification/Subnet.thy ===== *)
theory Subnet
  imports Netip
begin

text \<open>
  Host addresses of a subnet: \<^verbatim>\<open>NthHostIP\<close> and \<^verbatim>\<open>FirstHostIP\<close> of
  \<^verbatim>\<open>internal/config/subnet.go\<close>, which increment a byte array with ripple carry, and
  \<^verbatim>\<open>nextFreeHostInSubnet\<close> of \<^verbatim>\<open>internal/repo/ip_alloc.go\<close>, which adds an index to the network
  address byte by byte and searches for the first free candidate.  The byte loops are shown equal
  to arithmetic modulo \<open>2 ^ 32\<close>, and the search is shown sound, least and complete.
\<close>

section \<open>Operations\<close>

text \<open>The loop \<^verbatim>\<open>for j := len(host)-1; j >= 0; j--\<close> runs over the reversed byte list.\<close>

fun inc_rev :: "netip \<Rightarrow> netip" where
  "inc_rev [] = []"
| "inc_rev (b # bs) = (if b + 1 \<noteq> 0 then (b + 1) # bs else 0 # inc_rev bs)"

definition inc_host :: "netip \<Rightarrow> netip" where
  "inc_host ip = rev (inc_rev (rev ip))"

definition NthHostIP :: "string \<Rightarrow> int \<Rightarrow> err + string" where
  "NthHostIP subnet n =
     (if n < 1 then Inl (Errorf ''host index must be >= 1'')
      else (case ParseCIDR subnet of
          None \<Rightarrow> Inl (Errorf ''parse subnet'')
        | Some (ip, ipNet) \<Rightarrow> (case to4 ip of
              None \<Rightarrow> Inl (Errorf ''only IPv4 subnets are supported'')
            | Some ip4 \<Rightarrow>
                let host = (inc_host ^^ nat n) ip4 in
                if \<not> net_contains ipNet host
                then Inl (Errorf (''subnet '' @ subnet @ '' has no host at index '' @ itoa_int n))
                else Inr (ip_string host))))"

definition FirstHostIP :: "string \<Rightarrow> err + string" where
  "FirstHostIP subnet = NthHostIP subnet 1"

text \<open>The loop \<^verbatim>\<open>for j := 3; j >= 0 && carry > 0; j--\<close>.\<close>

fun add_rev :: "netip \<Rightarrow> nat \<Rightarrow> netip" where
  "add_rev [] carry = []"
| "add_rev (b # bs) carry =
     (if carry = 0 then b # bs
      else let s = unat b + carry in of_nat (s mod 256) # add_rev bs (s div 256))"

definition add_host :: "netip \<Rightarrow> nat \<Rightarrow> netip" where
  "add_host ip i = rev (add_rev (rev ip) i)"

text \<open>The search loop \<^verbatim>\<open>for i := 2; i < maxHosts; i++\<close>; \<open>used\<close> is the key set of the Go map.\<close>

function free_host_loop :: "ipnet \<Rightarrow> netip \<Rightarrow> string goset \<Rightarrow> nat \<Rightarrow> nat \<Rightarrow> err + string" where
  "free_host_loop ipNet base used i maxHosts =
     (if i < maxHosts then
        (let candidate = add_host base i in
         if \<not> net_contains ipNet candidate then Inl ErrSubnetIPUnavailable
         else if ip_string candidate \<notin> set used then Inr (ip_string candidate)
         else free_host_loop ipNet base used (Suc i) maxHosts)
      else Inl ErrSubnetIPUnavailable)"
  by pat_completeness auto
termination
  by (relation "measure (\<lambda>(_, _, _, i, m). m - i)") auto

declare free_host_loop.simps [simp del]

text \<open>
  \<^verbatim>\<open>ones := uint(32 - mask)\<close> wraps for a mask longer than 32 bits (an IPv4-mapped IPv6 prefix),
  and \<^verbatim>\<open>1 << ones\<close> is then 0, so the loop does not run.
\<close>

definition max_hosts :: "nat \<Rightarrow> nat" where
  "max_hosts msize = (if msize \<le> 32 then 2 ^ (32 - msize) else 0)"

definition nextFreeHostInSubnet :: "string \<Rightarrow> string goset \<Rightarrow> err + string" where
  "nextFreeHostInSubnet subnet used =
     (case ParseCIDR subnet of
        None \<Rightarrow> Inl (Errorf ''invalid CIDR address'')
      | Some (_, ipNet) \<Rightarrow> (case to4 (net_ip ipNet) of
            None \<Rightarrow> Inl (Errorf ''only IPv4 subnets supported'')
          | Some base \<Rightarrow>
              let msize = mask_ones (net_mask ipNet) in
              if msize \<le> 32 \<and> 32 - msize < 2 then Inl ErrSubnetIPUnavailable
              else free_host_loop ipNet base used 2 (max_hosts msize)))"

section \<open>Byte loops are arithmetic\<close>

text \<open>The number a little-endian byte list stands for, and the value of an IPv4 address.\<close>

fun le_val :: "netip \<Rightarrow> nat" where
  "le_val [] = 0"
| "le_val (b # bs) = unat b + 256 * le_val bs"

definition ip_val :: "netip \<Rightarrow> nat" where
  "ip_val ip = le_val (rev ip)"

lemma le_val_bound: "le_val bs < 256 ^ length bs"
proof (induction bs)
  case Nil
  then show ?case by simp
next
  case (Cons b bs)
  have "unat b \<le> 255" by (rule unat_u8_le)
  with Cons show ?case by simp
qed

lemma le_val_inject: "length as = length bs \<Longrightarrow> le_val as = le_val bs \<Longrightarrow> as = bs"
proof (induction as bs rule: list_induct2)
  case Nil
  then show ?case by simp
next
  case (Cons a as b bs)
  have "unat a \<le> 255" "unat b \<le> 255" by (rule unat_u8_le)+
  moreover have eq: "unat a + 256 * le_val as = unat b + 256 * le_val bs" using Cons.prems by simp
  ultimately have "le_val as = le_val bs" by linarith
  with eq Cons.IH show ?case by (simp add: u8_eqI)
qed

lemma length_add_rev [simp]: "length (add_rev bs c) = length bs"
  by (induction bs c rule: add_rev.induct) (auto simp: Let_def)

lemma le_val_add_rev: "le_val (add_rev bs c) = (le_val bs + c) mod 256 ^ length bs"
proof (induction bs c rule: add_rev.induct)
  case (1 carry)
  then show ?case by simp
next
  case (2 b bs c)
  show ?case
  proof (cases "c = 0")
    case True
    then show ?thesis using le_val_bound [of "b # bs"] by simp
  next
    case False
    let ?s = "unat b + c" and ?M = "256 ^ length bs :: nat"
    have IH: "le_val (add_rev bs (?s div 256)) = (le_val bs + ?s div 256) mod ?M"
      using 2 False by simp
    have "unat (of_nat (?s mod 256) :: u8) = ?s mod 256" by (rule unat_of_nat_u8) simp
    then have "le_val (add_rev (b # bs) c) = ?s mod 256 + 256 * ((le_val bs + ?s div 256) mod ?M)"
      using False IH by (simp add: Let_def)
    also have "\<dots> = (?s + 256 * le_val bs) mod (256 * ?M)"
    proof -
      have "(?s + 256 * le_val bs) div 256 = le_val bs + ?s div 256" by simp
      then show ?thesis by (simp only: mod_mult2_eq) simp
    qed
    finally show ?thesis by (simp add: algebra_simps)
  qed
qed

lemma inc_rev_add_rev: "inc_rev bs = add_rev bs 1"
proof (induction bs)
  case Nil
  then show ?case by simp
next
  case (Cons b bs)
  have add0: "add_rev xs 0 = xs" for xs by (cases xs) auto
  show ?case
  proof (cases "b + 1 = 0")
    case True
    then have "b = 255" by (simp add: eq_neg_iff_add_eq_0 [symmetric])
    then have "unat b = 255" by simp
    with Cons True show ?thesis by (simp add: Let_def)
  next
    case False
    have "unat b \<noteq> 255"
    proof
      assume "unat b = 255"
      then have "b = 255" by (intro u8_eqI) simp
      with False show False by simp
    qed
    then have "unat b + 1 < 256" using unat_u8_le [of b] by linarith
    moreover then have "of_nat (unat b + 1) = b + 1" by simp
    ultimately show ?thesis using False add0 by (simp add: Let_def)
  qed
qed

lemma length_inc_host [simp]: "length (inc_host ip) = length ip"
  by (simp add: inc_host_def inc_rev_add_rev)

lemma length_add_host [simp]: "length (add_host ip i) = length ip"
  by (simp add: add_host_def)

lemma ip_val_add_host: "length ip = 4 \<Longrightarrow> ip_val (add_host ip i) = (ip_val ip + i) mod 2 ^ 32"
  by (simp add: ip_val_def add_host_def le_val_add_rev)

lemma ip_val_inc_host: "length ip = 4 \<Longrightarrow> ip_val (inc_host ip) = (ip_val ip + 1) mod 2 ^ 32"
  by (simp add: ip_val_def inc_host_def inc_rev_add_rev le_val_add_rev)

lemma inc_host_pow:
  "length ip = 4 \<Longrightarrow> length ((inc_host ^^ n) ip) = 4 \<and> ip_val ((inc_host ^^ n) ip) = (ip_val ip + n) mod 2 ^ 32"
proof (induction n)
  case 0
  then show ?case using le_val_bound [of "rev ip"] by (simp add: ip_val_def)
next
  case (Suc n)
  then show ?case by (simp add: ip_val_inc_host mod_Suc_eq)
qed

lemma ip_val_bound: "length ip = 4 \<Longrightarrow> ip_val ip < 2 ^ 32"
  using le_val_bound [of "rev ip"] by (simp add: ip_val_def)

lemma ip_val_inject: "length a = 4 \<Longrightarrow> length b = 4 \<Longrightarrow> ip_val a = ip_val b \<Longrightarrow> a = b"
  using le_val_inject [of "rev a" "rev b"] by (simp add: ip_val_def)

section \<open>Prefix containment is a comparison of leading bits\<close>

lemma mask_byte_and:
  assumes "k \<le> 8"
  shows "unat (b AND mask_byte k) = 2 ^ (8 - k) * (unat b div 2 ^ (8 - k))"
proof -
  have ff: "(255 :: u8) = -1" by simp
  have idx: "8 + (n + k - 8) - k = n" if "\<not> k + n < 8" for n using that by simp
  have "b AND mask_byte k = push_bit (8 - k) (drop_bit (8 - k) b)"
    using assms by (intro bit_word_eqI)
      (auto simp: mask_byte_def ff bit_simps idx not_less simp del: word_eq_numeral_iff_iszero)
  also have "unat \<dots> = take_bit 8 (2 ^ (8 - k) * (unat b div 2 ^ (8 - k)))"
  proof -
    have "take_bit 8 (unat b) = unat b" using unat_u8_le [of b] by (intro take_bit_nat_eq_self) simp
    then show ?thesis
      by (simp only: unsigned_push_bit_eq unsigned_drop_bit_eq)
        (simp add: push_bit_eq_mult drop_bit_eq_div mult.commute)
  qed
  also have "\<dots> = 2 ^ (8 - k) * (unat b div 2 ^ (8 - k))"
  proof (rule take_bit_nat_eq_self)
    have "2 ^ (8 - k) * (unat b div 2 ^ (8 - k)) \<le> unat b" by simp
    also have "\<dots> < 2 ^ 8" using unat_u8_le [of b] by simp
    finally show "2 ^ (8 - k) * (unat b div 2 ^ (8 - k)) < 2 ^ 8" .
  qed
  finally show ?thesis .
qed

lemma mask_byte_full: "8 \<le> k \<Longrightarrow> b AND mask_byte k = b"
proof -
  have ff: "(255 :: u8) = -1" by simp
  assume "8 \<le> k"
  then show ?thesis by (simp add: mask_byte_def ff del: word_eq_numeral_iff_iszero)
qed

lemma mask_byte_agree:
  "k \<le> 8 \<Longrightarrow> b AND mask_byte k = c AND mask_byte k \<longleftrightarrow> unat b div 2 ^ (8 - k) = unat c div 2 ^ (8 - k)"
  by (auto dest: arg_cong [where f = unat] intro!: u8_eqI simp: mask_byte_and)

lemma mask_byte_0 [simp]: "mask_byte 0 = 0"
  by (simp add: mask_byte_def)

lemma length4: "length xs = 4 \<Longrightarrow> \<exists>a b c d. xs = [a, b, c, d]"
  by (auto simp: numeral_eq_Suc length_Suc_conv)

lemma ip_val_4: "ip_val [a, b, c, d] = ((unat a * 256 + unat b) * 256 + unat c) * 256 + unat d"
  by (simp add: ip_val_def)

lemma div_head: "(r::nat) < m \<Longrightarrow> 0 < m \<Longrightarrow> (x * m + r) div (m * p) = x div p"
  by (simp add: div_mult2_eq)

lemma cidr_mask_32: "cidr_mask k 32 = [mask_byte k, mask_byte (k - 8), mask_byte (k - 16), mask_byte (k - 24)]"
  by (simp add: cidr_mask_def upt_rec)

text \<open>The first \<open>k\<close> bits of two addresses agree.\<close>

definition same_prefix :: "nat \<Rightarrow> netip \<Rightarrow> netip \<Rightarrow> bool" where
  "same_prefix k x y \<longleftrightarrow> ip_val x div 2 ^ (32 - k) = ip_val y div 2 ^ (32 - k)"

lemma pow_split: "k \<le> m \<Longrightarrow> m + j = 32 \<Longrightarrow> (2::nat) ^ (32 - k) = 2 ^ j * 2 ^ (m - k)"
  by (simp add: power_add [symmetric])

lemma div_split:
  assumes "j \<le> 8" "(b::nat) < 256" "b' < 256"
  shows "(x * 256 + b) div 2 ^ j = (y * 256 + b') div 2 ^ j \<longleftrightarrow> x = y \<and> b div 2 ^ j = b' div 2 ^ j"
proof -
  let ?q = "2 ^ (8 - j) :: nat"
  have p: "?q * 2 ^ j = 256" using assms by (simp add: power_add [symmetric])
  have d: "(z * 256 + e) div 2 ^ j = z * ?q + e div 2 ^ j" for z e :: nat
  proof -
    have "z * 256 + e = e + z * ?q * 2 ^ j" using p by (simp add: mult.assoc)
    then have "(z * 256 + e) div 2 ^ j = (e + z * ?q * 2 ^ j) div 2 ^ j" by (rule arg_cong)
    also have "\<dots> = z * ?q + e div 2 ^ j" by (rule div_mult_self1) simp
    finally show ?thesis .
  qed
  have lt: "e div 2 ^ j < ?q" if "e < 256" for e :: nat
    using that p by (simp add: less_mult_imp_div_less)
  have "x * ?q + b div 2 ^ j = y * ?q + b' div 2 ^ j \<longleftrightarrow> x = y \<and> b div 2 ^ j = b' div 2 ^ j"
  proof
    assume eq: "x * ?q + b div 2 ^ j = y * ?q + b' div 2 ^ j"
    then have "(x * ?q + b div 2 ^ j) div ?q = (y * ?q + b' div 2 ^ j) div ?q" by simp
    then have "x = y" using lt assms by simp
    with eq show "x = y \<and> b div 2 ^ j = b' div 2 ^ j" by simp
  qed simp
  with d show ?thesis by simp
qed

lemma split_eq: "a < 256 \<Longrightarrow> b < 256 \<Longrightarrow> (x::nat) * 256 + a = y * 256 + b \<longleftrightarrow> x = y \<and> a = b"
  using div_split [of 0 a b x y] by simp

lemma masked_eq_iff:
  assumes "k \<le> 32" "length x = 4" "length y = 4"
  shows "map2 (AND) x (cidr_mask k 32) = map2 (AND) y (cidr_mask k 32) \<longleftrightarrow> same_prefix k x y"
proof -
  obtain a b c d where x: "x = [a, b, c, d]" using length4 assms by blast
  obtain a' b' c' d' where y: "y = [a', b', c', d']" using length4 assms by blast
  have lt: "unat (z :: u8) < 256" for z using unat_u8_le [of z] by simp
  have u8: "unat z = unat w \<longleftrightarrow> z = w" for z w :: u8 using u8_eqI by blast
  have low: "unat z * 256 + unat w < 65536" "unat v * 65536 + (unat z * 256 + unat w) < 16777216"
    for v z w :: u8 using lt [of z] lt [of w] lt [of v] by linarith+
  note iv = same_prefix_def x y ip_val_4
  consider "k \<le> 8" | "8 < k" "k \<le> 16" | "16 < k" "k \<le> 24" | "24 < k" using assms by linarith
  then show ?thesis
  proof cases
    case 1
    have "(2::nat) ^ (32 - k) = 16777216 * 2 ^ (8 - k)" using pow_split [of k 8 24] 1 by simp
    moreover have "((u * 256 + v) * 256 + w) * 256 + z = u * 16777216 + (v * 65536 + (w * 256 + z))"
      for u v w z :: nat by simp
    ultimately have "same_prefix k x y \<longleftrightarrow> unat a div 2 ^ (8 - k) = unat a' div 2 ^ (8 - k)"
      by (simp only: iv div_head [OF low(2)])
    with 1 show ?thesis by (simp add: x y cidr_mask_32 mask_byte_agree)
  next
    case 2
    have "(2::nat) ^ (32 - k) = 65536 * 2 ^ (16 - k)" using pow_split [of k 16 16] 2 by simp
    moreover have "((u * 256 + v) * 256 + w) * 256 + z = (u * 256 + v) * 65536 + (w * 256 + z)"
      for u v w z :: nat by simp
    ultimately have "same_prefix k x y \<longleftrightarrow> unat a = unat a' \<and> unat b div 2 ^ (16 - k) = unat b' div 2 ^ (16 - k)"
      using 2 by (simp only: iv div_head [OF low(1)]) (simp add: div_split lt)
    with 2 u8 show ?thesis by (simp add: x y cidr_mask_32 mask_byte_full mask_byte_agree)
  next
    case 3
    then have j: "24 - k \<le> 8" by simp
    have "(2::nat) ^ (32 - k) = 256 * 2 ^ (24 - k)" using pow_split [of k 24 8] 3 by simp
    then have "same_prefix k x y \<longleftrightarrow> unat a = unat a' \<and> unat b = unat b' \<and> unat c div 2 ^ (24 - k) = unat c' div 2 ^ (24 - k)"
      by (simp only: iv div_head [OF lt] div_split [OF j lt lt] split_eq [OF lt lt]) simp
    with 3 u8 show ?thesis by (simp add: x y cidr_mask_32 mask_byte_full mask_byte_agree)
  next
    case 4
    then have j: "32 - k \<le> 8" by simp
    then have "same_prefix k x y \<longleftrightarrow> unat a = unat a' \<and> unat b = unat b' \<and> unat c = unat c' \<and> unat d div 2 ^ (32 - k) = unat d' div 2 ^ (32 - k)"
      by (simp only: iv div_split [OF j lt lt] split_eq [OF lt lt]) simp
    with 4 assms u8 show ?thesis by (simp add: x y cidr_mask_32 mask_byte_full mask_byte_agree)
  qed
qed

section \<open>IPv4 networks\<close>

text \<open>The network \<^verbatim>\<open>ParseCIDR\<close> builds for an IPv4 prefix of length \<open>k\<close>.\<close>

definition v4_net :: "netip \<Rightarrow> nat \<Rightarrow> ipnet" where
  "v4_net ip k = \<lparr>net_ip = map2 (AND) ip (cidr_mask k 32), net_mask = cidr_mask k 32\<rparr>"

lemma length_cidr_mask_32 [simp]: "length (cidr_mask k 32) = 4"
  by (simp add: cidr_mask_32)

lemma map2_and_idem: "map2 (AND) (map2 (AND) x m) m = map2 (AND) (x :: netip) m"
proof (induction x arbitrary: m)
  case (Cons a x)
  then show ?case by (cases m) (auto simp: and.assoc)
qed simp

lemma to4_len4 [simp]: "length ip = 4 \<Longrightarrow> to4 ip = Some ip"
  by (simp add: to4_def)

lemma net_contains_v4_net:
  assumes "k \<le> 32" "length ip = 4" "length x = 4"
  shows "net_contains (v4_net ip k) x \<longleftrightarrow> same_prefix k ip x"
proof -
  have "network_number_and_mask (v4_net ip k) = Some (map2 (AND) ip (cidr_mask k 32), cidr_mask k 32)"
    using assms by (simp add: network_number_and_mask_def v4_net_def)
  then show ?thesis
    using assms by (simp add: net_contains_def map2_and_idem masked_eq_iff)
qed

lemma ip_val_and_le:
  assumes "length ip = 4" "length m = 4" shows "ip_val (map2 (AND) ip m) \<le> ip_val ip"
proof -
  obtain a b c d where ip: "ip = [a, b, c, d]" using length4 assms by blast
  obtain p q r t where m: "m = [p, q, r, t]" using length4 assms by blast
  have le: "unat (x AND y) \<le> unat x" for x y :: u8
    using word_and_le2 [of x y] by (simp add: word_le_nat_alt)
  show ?thesis unfolding ip m
    using le [of a p] le [of b q] le [of c r] le [of d t] by (simp add: ip_val_4)
qed

lemma ip_val_masked:
  assumes "k \<le> 32" "length ip = 4"
  shows "ip_val (map2 (AND) ip (cidr_mask k 32)) = 2 ^ (32 - k) * (ip_val ip div 2 ^ (32 - k))"
proof -
  let ?P = "2 ^ (32 - k) :: nat" and ?base = "map2 (AND) ip (cidr_mask k 32)"
  let ?v = "?P * (ip_val ip div ?P)"
  define z where "z = add_host [0, 0, 0, 0] ?v"
  have "?v \<le> ip_val ip" by simp
  then have "?v < 2 ^ 32" using ip_val_bound [OF assms(2)] by linarith
  then have z: "length z = 4" "ip_val z = ?v" by (simp_all add: z_def ip_val_add_host ip_val_4)
  then have zp: "same_prefix k ip z" by (simp add: same_prefix_def)
  then have "?base = map2 (AND) z (cidr_mask k 32)"
    using assms z by (simp add: masked_eq_iff)
  then have up: "ip_val ?base \<le> ?v" using ip_val_and_le [of z] z by simp
  have "same_prefix k ?base ip"
    using assms masked_eq_iff [of k ?base ip] by (simp add: map2_and_idem)
  then have "?v = ?P * (ip_val ?base div ?P)" by (simp add: same_prefix_def)
  also have "\<dots> \<le> ip_val ?base" by simp
  finally show ?thesis using up by simp
qed

lemma host_in_net:
  assumes "k \<le> 32" "length ip = 4" "i < 2 ^ (32 - k)"
  defines "base \<equiv> map2 (AND) ip (cidr_mask k 32)"
  shows "ip_val (add_host base i) = ip_val base + i" "net_contains (v4_net ip k) (add_host base i)"
proof -
  let ?P = "2 ^ (32 - k) :: nat"
  have b: "length base = 4" "ip_val base = ?P * (ip_val ip div ?P)"
    using assms ip_val_masked [of k ip] by (simp_all add: base_def)
  have "ip_val ip < 2 ^ 32" using assms ip_val_bound by simp
  also have "(2 ^ 32 :: nat) = 2 ^ k * ?P" using assms by (simp add: power_add [symmetric])
  finally have "ip_val ip div ?P < 2 ^ k" by (simp add: less_mult_imp_div_less)
  then have "ip_val base + ?P \<le> ?P * 2 ^ k"
    using b by (metis Suc_leI mult.commute mult_Suc mult_le_mono2 add.commute)
  then have "ip_val base + i < 2 ^ 32"
    using assms \<open>2 ^ 32 = 2 ^ k * ?P\<close> by (simp add: mult.commute)
  then show v: "ip_val (add_host base i) = ip_val base + i"
    using b by (simp add: ip_val_add_host)
  have "same_prefix k ip (add_host base i)"
    using assms(3) b by (simp add: same_prefix_def v)
  then show "net_contains (v4_net ip k) (add_host base i)"
    using assms b by (simp add: net_contains_v4_net)
qed

lemma mask_byte_ones: "length (filter (bit (mask_byte k)) [0..<8]) = min 8 k"
proof (cases "k \<ge> 8")
  case True
  then show ?thesis by (simp add: mask_byte_def upt_rec)
next
  case False
  then consider "k = 0" | "k = 1" | "k = 2" | "k = 3" | "k = 4" | "k = 5" | "k = 6" | "k = 7" by linarith
  then show ?thesis by cases (simp_all add: mask_byte_def upt_rec)
qed

lemma mask_ones_cidr_mask: "k \<le> 32 \<Longrightarrow> mask_ones (cidr_mask k 32) = k"
  by (simp add: mask_ones_def cidr_mask_32 mask_byte_ones)

section \<open>The search\<close>

lemma free_host_loop_find:
  assumes "\<And>j. i \<le> j \<Longrightarrow> j < m \<Longrightarrow> net_contains n (add_host base j)"
  shows "free_host_loop n base used i m =
     (case List.find (\<lambda>j. ip_string (add_host base j) \<notin> set used) [i..<m] of
        None \<Rightarrow> Inl ErrSubnetIPUnavailable
      | Some j \<Rightarrow> Inr (ip_string (add_host base j)))"
  using assms
proof (induction n base used i m rule: free_host_loop.induct)
  case (1 n base used i m)
  show ?case
  proof (cases "i < m")
    case True
    with 1 show ?thesis
      by (subst free_host_loop.simps) (simp add: Let_def upt_conv_Cons)
  next
    case False
    then show ?thesis by (simp add: free_host_loop.simps)
  qed
qed

text \<open>What \<^verbatim>\<open>ParseCIDR\<close> returns, by address family.\<close>

lemma ParseCIDR_Some:
  assumes "ParseCIDR s = Some (ip, n)"
  obtains (v4) a b c d k where "k \<le> 32" "ip = v4_in_v6_prefix @ [a, b, c, d]" "n = v4_net [a, b, c, d] k"
  | (v6) bs k where "k \<le> 128" "ip = bs" "n = \<lparr>net_ip = ip_mask bs (cidr_mask k 128), net_mask = cidr_mask k 128\<rparr>"
proof -
  from assms obtain x k where x: "is_valid x" "k \<le> bit_len x" "ip = as16 x"
    "n = \<lparr>net_ip = ip_mask (as16 x) (cidr_mask k (bit_len x)), net_mask = cidr_mask k (bit_len x)\<rparr>"
    by (auto simp: ParseCIDR_def Let_def not_less dest: ParseAddr_valid split: option.splits if_splits prod.splits)
  show thesis
  proof (cases x)
    case (Addr4 a b c d)
    have "ip_mask (as16 x) (cidr_mask k 32) = map2 (AND) [a, b, c, d] (cidr_mask k 32)"
      by (simp add: Addr4 ip_mask_def v4_in_v6_prefix_def)
    with x Addr4 show thesis by (intro v4) (auto simp: v4_net_def)
  next
    case (Addr6 bs z)
    with x show thesis by (intro v6) auto
  qed (use x in simp)
qed

lemma length_cidr_mask [simp]: "length (cidr_mask k bits) = bits div 8"
  by (simp add: cidr_mask_def)

lemma v6_short_prefix_no_v4:
  assumes "k \<le> 32" shows "to4 (ip_mask bs (cidr_mask k 128)) = None"
proof (cases "length bs = 16")
  case True
  then have "ip_mask bs (cidr_mask k 128) = map2 (AND) bs (cidr_mask k 128)"
    by (simp add: ip_mask_def)
  moreover have "map2 (AND) bs (cidr_mask k 128) ! 10 = 0"
    using assms True by (simp add: cidr_mask_def)
  moreover have "v4_in_v6_prefix ! 10 = 255" by (simp add: v4_in_v6_prefix_def)
  ultimately show ?thesis using True
    by (auto simp: to4_def dest: arg_cong [where f = "\<lambda>xs. xs ! 10"])
next
  case False
  have "take 12 (cidr_mask k 128) \<noteq> replicate 12 255"
  proof
    assume "take 12 (cidr_mask k 128) = replicate 12 255"
    then have "take 12 (cidr_mask k 128) ! 10 = replicate 12 (255 :: u8) ! 10" by (rule arg_cong)
    then show False using assms by (simp add: cidr_mask_def)
  qed
  with False have "ip_mask bs (cidr_mask k 128) = []" by (auto simp: ip_mask_def Let_def)
  then show ?thesis by (simp add: to4_def)
qed

text \<open>
  The indices of the hosts of a subnet whose address text is not in \<open>used\<close>, in the order of the
  search: the abstract specification of the allocator.
\<close>

definition free_hosts :: "netip \<Rightarrow> nat \<Rightarrow> string goset \<Rightarrow> nat list" where
  "free_hosts base k used = filter (\<lambda>i. ip_string (add_host base i) \<notin> set used) [2..<2 ^ (32 - k)]"

lemma find_filter: "List.find P xs = (case filter P xs of [] \<Rightarrow> None | x # _ \<Rightarrow> Some x)"
  by (induction xs) auto

theorem nextFreeHostInSubnet_v4:
  assumes "ParseCIDR subnet = Some (ip16, v4_net ip k)" "k \<le> 32" "length ip = 4"
  shows "nextFreeHostInSubnet subnet used =
     (case free_hosts (net_ip (v4_net ip k)) k used of
        [] \<Rightarrow> Inl ErrSubnetIPUnavailable
      | i # _ \<Rightarrow> Inr (ip_string (add_host (net_ip (v4_net ip k)) i)))"
proof -
  let ?n = "v4_net ip k" and ?base = "net_ip (v4_net ip k)"
  have n: "?base = map2 (AND) ip (cidr_mask k 32)" "net_mask ?n = cidr_mask k 32" "length ?base = 4"
    using assms by (simp_all add: v4_net_def)
  have loop: "free_host_loop ?n ?base used 2 (2 ^ (32 - k)) =
     (case free_hosts ?base k used of [] \<Rightarrow> Inl ErrSubnetIPUnavailable
      | i # _ \<Rightarrow> Inr (ip_string (add_host ?base i)))"
    using assms n by (subst free_host_loop_find)
      (auto intro: host_in_net(2) simp: free_hosts_def find_filter split: list.splits)
  show ?thesis
  proof (cases "32 - k < 2")
    case True
    then have "k = 31 \<or> k = 32" using assms by linarith
    then have "free_hosts ?base k used = []" by (auto simp: free_hosts_def)
    with True assms n show ?thesis
      by (simp add: nextFreeHostInSubnet_def mask_ones_cidr_mask)
  next
    case False
    with assms n loop show ?thesis
      by (simp add: nextFreeHostInSubnet_def mask_ones_cidr_mask max_hosts_def)
  qed
qed

lemma nextFreeHostInSubnet_InrE:
  assumes "nextFreeHostInSubnet subnet used = Inr t"
  obtains ip16 ip k i where "ParseCIDR subnet = Some (ip16, v4_net ip k)" "k \<le> 32" "length ip = 4"
    "free_hosts (net_ip (v4_net ip k)) k used \<noteq> []"
    "i = hd (free_hosts (net_ip (v4_net ip k)) k used)" "t = ip_string (add_host (net_ip (v4_net ip k)) i)"
proof -
  from assms obtain ip16 n where p: "ParseCIDR subnet = Some (ip16, n)"
    by (auto simp: nextFreeHostInSubnet_def split: option.splits)
  then show thesis
  proof (cases rule: ParseCIDR_Some)
    case (v4 a b c d k)
    then have q: "ParseCIDR subnet = Some (ip16, v4_net [a, b, c, d] k)" using p by simp
    with nextFreeHostInSubnet_v4 [OF q] assms v4 show thesis
      by (intro that [OF q]) (auto split: list.splits)
  next
    case (v6 bs k)
    show thesis
    proof (cases "k \<le> 32")
      case True
      with v6 p assms show thesis by (simp add: nextFreeHostInSubnet_def v6_short_prefix_no_v4)
    next
      case False
      have "[0..<16] = [0, 1, 2, 3, 4] @ [5..<16::nat]" by (simp add: upt_rec)
      then have "mask_ones (cidr_mask k 128) > 32"
        using False by (simp add: mask_ones_def cidr_mask_def comp_def mask_byte_ones)
      with v6 p assms show thesis
        by (auto simp: nextFreeHostInSubnet_def max_hosts_def free_host_loop.simps split: option.splits if_splits)
    qed
  qed
qed

lemma ip_string_4: "length ip = 4 \<Longrightarrow> ParseAddr (ip_string ip) = addr_from_slice ip"
  using length4 [of ip] by (auto simp: ip_string_def addr_from_slice_def)

lemma ip_string_inject: "length a = 4 \<Longrightarrow> length b = 4 \<Longrightarrow> ip_string a = ip_string b \<longleftrightarrow> a = b"
  using length4 [of a] length4 [of b] by (auto simp: ip_string_def v4_string_inject)

lemma host_strings_inj:
  assumes "k \<le> 32" "length ip = 4"
  shows "inj_on (\<lambda>i. ip_string (add_host (net_ip (v4_net ip k)) i)) {2..<2 ^ (32 - k)}"
proof (rule inj_onI)
  fix i j :: nat
  let ?b = "map2 (AND) ip (cidr_mask k 32)"
  assume ij: "i \<in> {2..<2 ^ (32 - k)}" "j \<in> {2..<2 ^ (32 - k)}"
    and "ip_string (add_host (net_ip (v4_net ip k)) i) = ip_string (add_host (net_ip (v4_net ip k)) j)"
  then have "add_host ?b i = add_host ?b j"
    using assms by (simp add: v4_net_def ip_string_inject)
  moreover have "ip_val (add_host ?b i) = ip_val ?b + i" "ip_val (add_host ?b j) = ip_val ?b + j"
    using ij by (intro host_in_net(1) [OF assms]; simp)+
  ultimately show "i = j" by (metis add_left_cancel)
qed

section \<open>Properties\<close>

lemma nextFree_fresh:
  assumes "nextFreeHostInSubnet subnet used = Inr t"
  shows "t \<notin> set used"
  using assms
proof (rule nextFreeHostInSubnet_InrE)
  fix ip16 ip k i
  assume "free_hosts (net_ip (v4_net ip k)) k used \<noteq> []"
    "i = hd (free_hosts (net_ip (v4_net ip k)) k used)" "t = ip_string (add_host (net_ip (v4_net ip k)) i)"
  then have "i \<in> set (free_hosts (net_ip (v4_net ip k)) k used)" by simp
  then show "t \<notin> set used" using \<open>t = _\<close> by (auto simp: free_hosts_def)
qed

text \<open>What the store relies on when it hands out an address: the address is not a used one.\<close>

locale address_pool =
  fixes alloc :: "string \<Rightarrow> string goset \<Rightarrow> err + string"
  assumes fresh: "alloc subnet used = Inr ip \<Longrightarrow> ip \<notin> set used"
begin

lemma fresh_for: "alloc subnet used = Inr ip \<Longrightarrow> X \<subseteq> set used \<Longrightarrow> ip \<notin> X"
  using fresh by blast

lemma sequence_distinct:
  "alloc subnet used = Inr a \<Longrightarrow> alloc subnet' used' = Inr b \<Longrightarrow> insert a (set used) \<subseteq> set used' \<Longrightarrow> a \<noteq> b"
  using fresh by blast

end

interpretation pool: address_pool nextFreeHostInSubnet
  by unfold_locales (rule nextFree_fresh)

text \<open>
  C11: an address handed out by \<^verbatim>\<open>nextFreeHostInSubnet\<close> lies in the subnet, is the network
  address plus an index of at least 2, is not in use, and every smaller index is in use.
\<close>

theorem nextFreeHostInSubnet_sound:
  assumes "nextFreeHostInSubnet subnet used = Inr t"
  shows "\<exists>ip16 n h i. ParseCIDR subnet = Some (ip16, n) \<and> 2 \<le> i \<and> length h = 4 \<and>
     t = ip_string h \<and> ip_val h = ip_val (net_ip n) + i \<and> net_contains n h \<and> t \<notin> set used \<and>
     (\<forall>j. 2 \<le> j \<and> j < i \<longrightarrow> ip_string (add_host (net_ip n) j) \<in> set used)"
  using assms
proof (rule nextFreeHostInSubnet_InrE)
  fix ip16 ip k i
  let ?n = "v4_net ip k"
  assume p: "ParseCIDR subnet = Some (ip16, ?n)" and k: "k \<le> 32" and ip: "length ip = 4"
    and ne: "free_hosts (net_ip ?n) k used \<noteq> []" and i: "i = hd (free_hosts (net_ip ?n) k used)"
    and t: "t = ip_string (add_host (net_ip ?n) i)"
  have b: "net_ip ?n = map2 (AND) ip (cidr_mask k 32)" by (simp add: v4_net_def)
  from ne i obtain r where fs: "free_hosts (net_ip ?n) k used = i # r" by (cases "free_hosts (net_ip ?n) k used") auto
  then obtain us vs where us: "[2..<2 ^ (32 - k)] = us @ i # vs"
    "\<forall>j \<in> set us. ip_string (add_host (net_ip ?n) j) \<in> set used"
    "ip_string (add_host (net_ip ?n) i) \<notin> set used"
    unfolding free_hosts_def filter_eq_Cons_iff by auto
  have "i \<in> set [2..<2 ^ (32 - k)]" by (subst us(1)) simp
  then have lt: "2 \<le> i" "i < 2 ^ (32 - k)" by auto
  have "j \<in> set us" if "2 \<le> j" "j < i" for j
  proof -
    have j: "j \<in> set (us @ i # vs)" using that lt by (subst us(1) [symmetric]) simp
    have "sorted (us @ i # vs)" by (subst us(1) [symmetric]) simp
    with j that show ?thesis by (auto simp: sorted_append)
  qed
  with us(2,3) t lt b host_in_net [OF k ip lt(2)] ip p show ?thesis by (intro exI [of _ ip16] exI [of _ ?n]
      exI [of _ "add_host (net_ip ?n) i"] exI [of _ i]) auto
qed

text \<open>
  C10: the search does not give up early: in an IPv4 subnet of prefix length at most 30, an address
  is found whenever fewer than \<open>2 ^ (32 - k) - 2\<close> texts are in use.
\<close>

theorem nextFreeHostInSubnet_complete:
  assumes "ParseCIDR subnet = Some (ip16, v4_net ip k)" "k \<le> 32" "length ip = 4"
    and "card (set used) < 2 ^ (32 - k) - 2"
  shows "\<exists>t. nextFreeHostInSubnet subnet used = Inr t"
proof -
  let ?f = "\<lambda>i. ip_string (add_host (net_ip (v4_net ip k)) i)" and ?I = "{2..<2 ^ (32 - k)} :: nat set"
  have "card (?f ` ?I) = 2 ^ (32 - k) - 2"
    using host_strings_inj [OF assms(2,3)] by (simp add: card_image)
  then have "\<not> ?f ` ?I \<subseteq> set used"
    using assms(4) card_mono [of "set used" "?f ` ?I"] by fastforce
  then obtain i where "i \<in> ?I" "?f i \<notin> set used" by blast
  then have "i \<in> set (free_hosts (net_ip (v4_net ip k)) k used)" by (simp add: free_hosts_def)
  then have "free_hosts (net_ip (v4_net ip k)) k used \<noteq> []" by auto
  with nextFreeHostInSubnet_v4 [OF assms(1-3)] show ?thesis by (auto simp: neq_Nil_conv)
qed

text \<open>
  \<^verbatim>\<open>NthHostIP\<close> with its byte-wise carry loop adds \<open>n\<close> to the address written in the
  subnet text, modulo \<open>2 ^ 32\<close>, and returns the sum only if it lies in the subnet.
\<close>

theorem NthHostIP_adds:
  assumes "NthHostIP subnet n = Inr t"
  shows "\<exists>ip16 ip net h. ParseCIDR subnet = Some (ip16, net) \<and> to4 ip16 = Some ip \<and> length h = 4 \<and>
     t = ip_string h \<and> ip_val h = (ip_val ip + nat n) mod 2 ^ 32 \<and> net_contains net h \<and> 1 \<le> n"
proof -
  from assms obtain ip16 net ip where p: "ParseCIDR subnet = Some (ip16, net)" "to4 ip16 = Some ip"
    and n: "1 \<le> n" "net_contains net ((inc_host ^^ nat n) ip)" "t = ip_string ((inc_host ^^ nat n) ip)"
    by (auto simp: NthHostIP_def Let_def split: if_splits option.splits)
  have "length ip = 4" using p(2) by (auto simp: to4_def split: if_splits)
  from inc_host_pow [OF this, of "nat n"] p n show ?thesis by blast
qed

lemma parse_slash24:
  "ParseCIDR ''10.0.0.0/24'' = Some (v4_in_v6_prefix @ [10, 0, 0, 0], v4_net [10, 0, 0, 0] 24)"
  by (simp add: ParseCIDR_def ParseAddr_def parse_ipv4_def dtoi_def ip_mask_def v4_in_v6_prefix_def
      v4_net_def cidr_mask_32 ev)

theorem nextFreeHostInSubnet_complete_witness:
  "card (set [''10.0.0.2'']) < 2 ^ (32 - 24) - 2 \<and> (\<exists>t. nextFreeHostInSubnet ''10.0.0.0/24'' [''10.0.0.2''] = Inr t)"
  using nextFreeHostInSubnet_complete [OF parse_slash24, of "[''10.0.0.2'']"] by simp

lemma nextFree_example: "nextFreeHostInSubnet ''10.0.0.0/24'' [''10.0.0.2''] = Inr ''10.0.0.3''"
proof -
  have n: "v4_net [10, 0, 0, 0] 24 = \<lparr>net_ip = [10, 0, 0, 0], net_mask = [255, 255, 255, 0]\<rparr>"
    by (simp add: v4_net_def cidr_mask_32 mask_byte_def)
  have "add_host [10, 0, 0, 0] 2 = [10, 0, 0, 2]" "add_host [10, 0, 0, 0] 3 = [10, 0, 0, 3]"
    by (simp_all add: add_host_def)
  moreover have "mask_ones [255, 255, 255, 0] = 24" by (simp add: mask_ones_def upt_rec)
  ultimately show ?thesis
    by (simp add: nextFreeHostInSubnet_def parse_slash24 n cidr_mask_32 mask_byte_def max_hosts_def
        free_host_loop.simps [of _ _ _ 2] free_host_loop.simps [of _ _ _ 3] net_contains_def
        network_number_and_mask_def to4_def ip_string_def v4_string_def ev)
qed

theorem nextFreeHostInSubnet_sound_witness:
  "\<exists>ip16 n h i. ParseCIDR ''10.0.0.0/24'' = Some (ip16, n) \<and> 2 \<le> i \<and> length h = 4 \<and>
     ''10.0.0.3'' = ip_string h \<and> ip_val h = ip_val (net_ip n) + i \<and> net_contains n h \<and>
     ''10.0.0.3'' \<notin> set [''10.0.0.2''] \<and>
     (\<forall>j. 2 \<le> j \<and> j < i \<longrightarrow> ip_string (add_host (net_ip n) j) \<in> set [''10.0.0.2''])"
  by (rule nextFreeHostInSubnet_sound [OF nextFree_example])

text \<open>
  \<^verbatim>\<open>FirstHostIP\<close> is documented as "network address + 1" but starts from the address as
  written, which for a subnet text with host bits is not the network address.
\<close>

lemma FirstHostIP_host_bits: "FirstHostIP ''10.0.0.5/24'' = Inr ''10.0.0.6''"
proof -
  have "ParseCIDR ''10.0.0.5/24'' = Some (v4_in_v6_prefix @ [10, 0, 0, 5], v4_net [10, 0, 0, 5] 24)"
    by (simp add: ParseCIDR_def ParseAddr_def parse_ipv4_def dtoi_def ip_mask_def v4_in_v6_prefix_def
        v4_net_def cidr_mask_32 ev)
  moreover have "v4_net [10, 0, 0, 5] 24 = \<lparr>net_ip = [10, 0, 0, 0], net_mask = [255, 255, 255, 0]\<rparr>"
    by (simp add: v4_net_def cidr_mask_32 mask_byte_def)
  moreover have "inc_host [10, 0, 0, 5] = [10, 0, 0, 6]" by (simp add: inc_host_def)
  ultimately show ?thesis
    by (simp add: FirstHostIP_def NthHostIP_def to4_def v4_in_v6_prefix_def net_contains_def
        network_number_and_mask_def ip_string_def v4_string_def ev)
qed

theorem NthHostIP_adds_witness:
  "\<exists>ip16 ip net h. ParseCIDR ''10.0.0.5/24'' = Some (ip16, net) \<and> to4 ip16 = Some ip \<and> length h = 4 \<and>
     ''10.0.0.6'' = ip_string h \<and> ip_val h = (ip_val ip + nat 1) mod 2 ^ 32 \<and> net_contains net h \<and> (1::int) \<le> 1"
  using NthHostIP_adds [OF FirstHostIP_host_bits [unfolded FirstHostIP_def]] .

end
