(* ===== verification/Config_Rules.thy ===== *)
theory Config_Rules
  imports Subnet
begin

text \<open>
  Package \<^verbatim>\<open>config\<close>: the constants of \<^verbatim>\<open>config.go\<close>, the port check of \<^verbatim>\<open>port.go\<close> and the upstream
  resolver list of \<^verbatim>\<open>dns.go\<close>.
\<close>

section \<open>Constants\<close>

definition DNSDomain :: string where "DNSDomain = ''wirehub''"
definition HubDNSLabel :: string where "HubDNSLabel = ''hub''"
definition DefaultSubnet :: string where "DefaultSubnet = ''100.127.0.0/24''"
definition DefaultEndpointPort :: int where "DefaultEndpointPort = 8443"
definition DefaultAdminUsername :: string where "DefaultAdminUsername = ''admin''"
definition DefaultMTU :: int where "DefaultMTU = 1420"
definition DefaultStatusInterval :: int where "DefaultStatusInterval = 1"
definition DefaultUpstreamDNS :: "string list" where "DefaultUpstreamDNS = [''114.114.114.114'', ''1.1.1.1'']"

lemmas config_consts [ev] = DNSDomain_def HubDNSLabel_def DefaultSubnet_def DefaultEndpointPort_def
  DefaultAdminUsername_def DefaultMTU_def DefaultStatusInterval_def

section \<open>Ports and resolvers\<close>

definition ValidateEndpointPort :: "int \<Rightarrow> err + unit" where
  "ValidateEndpointPort port =
     (if port < 1 \<or> port > 65535 then Inl (Errorf ''endpoint port must be between 1 and 65535'')
      else Inr ())"

text \<open>The nested loops of \<^verbatim>\<open>ParseUpstreamDNS\<close> that collect the trimmed non-empty items.\<close>

definition dns_items :: "string list \<Rightarrow> string list" where
  "dns_items raw = concat (map (\<lambda>part.
     concat (map (\<lambda>line0. let line = trim_space line0 in
       if line = [] then []
       else filter (\<lambda>item. item \<noteq> []) (map trim_space (split_on CHR '','' line)))
     (split_on NL part))) raw)"

text \<open>The second loop: \<open>out\<close> doubles as the \<^verbatim>\<open>seen\<close> set, which holds the same keys.\<close>

fun dns_dedup :: "string list \<Rightarrow> string list \<Rightarrow> err + string list" where
  "dns_dedup out [] = Inr out"
| "dns_dedup out (line # lines) = (case ParseAddr line of
       None \<Rightarrow> Inl (Errorf (''invalid dns address '' @ go_quote line))
     | Some a \<Rightarrow> let key = addr_string a in
         if key \<in> set out then dns_dedup out lines else dns_dedup (out @ [key]) lines)"

definition ParseUpstreamDNS :: "string list \<Rightarrow> err + string list" where
  "ParseUpstreamDNS raw =
     (let lines = dns_items raw in if lines = [] then Inr [] else dns_dedup [] lines)"

lemma dns_dedup_Inr:
  "dns_dedup out lines = Inr r \<Longrightarrow> distinct out \<Longrightarrow>
     distinct r \<and> set r = set out \<union> {addr_string a | a. Some a \<in> ParseAddr ` set lines} \<and>
     None \<notin> ParseAddr ` set lines"
proof (induction out lines rule: dns_dedup.induct)
  case (1 out)
  then show ?case by simp
next
  case (2 out line lines)
  then obtain a where a: "ParseAddr line = Some a" by (auto split: option.splits)
  show ?case
  proof (cases "addr_string a \<in> set out")
    case True
    with 2 a show ?thesis by auto
  next
    case False
    with 2(3) a have "dns_dedup (out @ [addr_string a]) lines = Inr r" by (simp add: Let_def)
    with 2(2) [OF a refl False] 2(4) False show ?thesis by (auto simp: a)
  qed
qed

lemma dns_dedup_Inl:
  "dns_dedup out lines = Inl e \<Longrightarrow> \<exists>l \<in> set lines. ParseAddr l = None \<and> e = Errorf (''invalid dns address '' @ go_quote l)"
  by (induction out lines rule: dns_dedup.induct) (auto simp: Let_def split: option.splits if_splits)

text \<open>
  \<^verbatim>\<open>ParseUpstreamDNS\<close> accepts a list exactly when every item is an address, and then
  returns the canonical text of each of them once, and nothing else.
\<close>

theorem ParseUpstreamDNS_spec:
  "case ParseUpstreamDNS raw of
     Inl e \<Rightarrow> \<exists>l \<in> set (dns_items raw). ParseAddr l = None \<and> e = Errorf (''invalid dns address '' @ go_quote l)
   | Inr r \<Rightarrow> None \<notin> ParseAddr ` set (dns_items raw) \<and> distinct r \<and>
       set r = {addr_string a | a. Some a \<in> ParseAddr ` set (dns_items raw)}"
proof -
  have eq: "ParseUpstreamDNS raw = dns_dedup [] (dns_items raw)"
    by (simp add: ParseUpstreamDNS_def Let_def)
  show ?thesis
  proof (cases "dns_dedup [] (dns_items raw)")
    case (Inl e)
    with dns_dedup_Inl [OF Inl] show ?thesis by (simp only: eq sum.case)
  next
    case (Inr r)
    from dns_dedup_Inr [OF Inr] show ?thesis by (simp only: eq Inr sum.case) simp
  qed
qed

end
