(* ===== verification/Domain_Rules.thy ===== *)
theory Domain_Rules
  imports Config_Rules
begin

text \<open>
  Packages \<^verbatim>\<open>domain/peer\<close>, \<^verbatim>\<open>domain/forward\<close>, \<^verbatim>\<open>domain/map\<close>, \<^verbatim>\<open>domain/hub\<close> and
  \<^verbatim>\<open>domain/client\<close>: the validation and normalisation rules for everything an administrator
  types in, and the client configuration file.
\<close>

section \<open>Host names (\<^verbatim>\<open>domain/peer\<close>)\<close>

definition maxHostnameLabelLen :: nat where "maxHostnameLabelLen = 63"

definition reservedHostnames :: "string goset" where
  "reservedHostnames = [''hub'', ''dns'', ''www'']"

definition slug_char :: "char \<Rightarrow> bool" where
  "slug_char c = (is_lower c \<or> is_digit c \<or> c = CHR ''-'')"

definition HostnameSlug :: "string \<Rightarrow> string" where
  "HostnameSlug name0 =
     (let name = to_lower (trim_space name0);
          name = map (\<lambda>c. if c = CHR '' '' then CHR ''-'' else c) name;
          result = filter slug_char name
      in if result = [] then ''host'' else result)"

definition ValidateHostname :: "string \<Rightarrow> err + string" where
  "ValidateHostname name0 =
     (let name = trim_space name0 in
      if name = [] then Inl (Errorf ''hostname is required'')
      else if rune_count name > maxHostnameLabelLen then
        Inl (Errorf (''hostname too long (max '' @ itoa maxHostnameLabelLen @ '' characters)''))
      else let slug = HostnameSlug name in
        if slug = ''host'' \<and> name \<noteq> ''host'' then
          Inl (Errorf ''invalid hostname: use letters, numbers, and hyphens only'')
        else if has_prefix slug ''-'' \<or> has_suffix slug ''-'' then
          Inl (Errorf ''hostname cannot start or end with a hyphen'')
        else if str_contains slug ''--'' then
          Inl (Errorf ''hostname cannot contain consecutive hyphens'')
        else if slug \<in> set reservedHostnames then
          Inl (Errorf (''hostname '' @ go_quote slug @ '' is reserved''))
        else Inr slug)"

definition PeerFQDN :: "string \<Rightarrow> string" where
  "PeerFQDN slug = slug @ ''.'' @ DNSDomain"

definition HubFQDN :: string where
  "HubFQDN = HubDNSLabel @ ''.'' @ DNSDomain"

text \<open>Times are nanoseconds; a handshake is stored in seconds.\<close>

definition PeerOnlineWindow :: int where "PeerOnlineWindow = 3 * 60 * 1000000000"

definition PeerIsOnline :: "bool \<Rightarrow> int \<Rightarrow> int \<Rightarrow> bool" where
  "PeerIsOnline enabled lastHandshakeUnix now =
     (if \<not> enabled \<or> lastHandshakeUnix \<le> 0 then False
      else now - lastHandshakeUnix * 1000000000 < PeerOnlineWindow)"

section \<open>Port forwards (\<^verbatim>\<open>domain/forward\<close>)\<close>

definition ForwardProtoTCP :: string where "ForwardProtoTCP = ''tcp''"
definition ForwardProtoUDP :: string where "ForwardProtoUDP = ''udp''"
definition HubDNSPort :: int where "HubDNSPort = 53"
definition HubTunnelWebPort :: int where "HubTunnelWebPort = 80"

definition normalizeForwardTargetHost :: "string \<Rightarrow> string" where
  "normalizeForwardTargetHost host = trim_suffix (to_lower (trim_space host)) ''.''"

fun target_labels :: "string list \<Rightarrow> err + unit" where
  "target_labels [] = Inr ()"
| "target_labels (label # labels) =
     (if label = [] then Inl (Errorf ''invalid target host'')
      else if length label > 63 then Inl (Errorf ''target host label too long'')
      else target_labels labels)"

definition ValidateForwardTargetHost :: "string \<Rightarrow> err + string" where
  "ValidateForwardTargetHost host0 =
     (let host = normalizeForwardTargetHost host0 in
      if host = [] then Inl (Errorf ''target host is required'')
      else case ParseIP host of
        Some ip \<Rightarrow>
          (if to4 ip = None then Inl (Errorf ''only IPv4 target addresses are supported'')
           else Inr (ip_string ip))
      | None \<Rightarrow>
          if \<not> str_contains host ''.'' then
            Inl (Errorf ''target host must be a hostname or IPv4 address, not a bare peer name'')
          else if length host > 253 then Inl (Errorf ''target host too long'')
          else res_bind (target_labels (split_on CHR ''.'' host)) (\<lambda>_. Inr host))"

definition ValidateForwardPort :: "int \<Rightarrow> string \<Rightarrow> err + unit" where
  "ValidateForwardPort port field =
     (if port < 1 \<or> port > 65535 then Inl (Errorf (field @ '' must be between 1 and 65535''))
      else Inr ())"

definition ValidateForwardProtocol :: "string \<Rightarrow> err + string" where
  "ValidateForwardProtocol proto0 =
     (let proto = to_lower (trim_space proto0) in
      if proto = ForwardProtoTCP \<or> proto = ForwardProtoUDP then Inr proto
      else Inl (Errorf ''protocol must be tcp or udp''))"

definition ValidateForwardListenPort :: "int \<Rightarrow> int \<Rightarrow> string \<Rightarrow> err + unit" where
  "ValidateForwardListenPort port tunnelWebPort protocol =
     res_bind (ValidateForwardPort port ''listen port'') (\<lambda>_.
       if port = HubDNSPort then
         Inl (Errorf (''listen port '' @ itoa_int HubDNSPort @ '' is reserved for hub DNS''))
       else if port = tunnelWebPort \<and> protocol = ForwardProtoTCP then
         Inl (Errorf (''listen port '' @ itoa_int tunnelWebPort @ '' is used by the hub web UI and API''))
       else Inr ())"

definition ForwardDisplayHost :: "string \<Rightarrow> string" where
  "ForwardDisplayHost host = normalizeForwardTargetHost host"

definition ForwardDisplayTarget :: "string \<Rightarrow> int \<Rightarrow> string" where
  "ForwardDisplayTarget host port = ForwardDisplayHost host @ '':'' @ itoa_int port"

section \<open>Service maps (\<^verbatim>\<open>domain/map\<close>)\<close>

definition ValidateMapSlug :: "string \<Rightarrow> err + string" where
  "ValidateMapSlug slug0 =
     res_bind (ValidateHostname slug0) (\<lambda>slug.
       if slug = HubDNSLabel then Inl (Errorf (go_quote slug @ '' is reserved''))
       else Inr slug)"

definition ValidateMapTargetHost :: "string \<Rightarrow> err + string" where
  "ValidateMapTargetHost host = ValidateForwardTargetHost host"

fun map_group_ids_loop :: "nat goset \<Rightarrow> nat list \<Rightarrow> err + unit" where
  "map_group_ids_loop seen [] = Inr ()"
| "map_group_ids_loop seen (gid # ids) =
     (if gid = 0 then Inl (Errorf ''invalid group id'')
      else if gid \<in> set seen then map_group_ids_loop seen ids
      else map_group_ids_loop (List.insert gid seen) ids)"

definition ValidateMapGroupIDs :: "nat list \<Rightarrow> err + unit" where
  "ValidateMapGroupIDs ids =
     (if ids = [] then Inl (Errorf ''at least one allowed group is required'')
      else map_group_ids_loop [] ids)"

definition MapDisplayName :: "string \<Rightarrow> string \<Rightarrow> string" where
  "MapDisplayName name0 slug = (let name = trim_space name0 in if name \<noteq> [] then name else slug)"

definition MapFQDN :: "string \<Rightarrow> string" where
  "MapFQDN slug = PeerFQDN slug"

section \<open>Hub settings (\<^verbatim>\<open>domain/hub\<close>)\<close>

definition HubConfigVersion :: int where "HubConfigVersion = 1"

record HubConfig =
  hc_Version :: int
  hc_Endpoint :: string
  hc_Subnet :: string
  hc_AdminUsername :: string
  hc_MTU :: int
  hc_StatusInterval :: int
  hc_UpstreamDNS :: "string list"

text \<open>\<^verbatim>\<open>net.SplitHostPort\<close>; the error texts are not used by the sources.\<close>

definition SplitHostPort :: "string \<Rightarrow> (string \<times> string) option" where
  "SplitHostPort s = (case cut_at CHR '':'' (rev s) of
       None \<Rightarrow> None
     | Some (rport, rpre) \<Rightarrow>
        (let i = length rpre; port = rev rport in
         if hd s = CHR ''['' then
           (case cut_at CHR '']'' s of
              None \<Rightarrow> None
            | Some (a, rest) \<Rightarrow>
                if length a + 1 \<noteq> i then None
                else if CHR ''['' \<in> set (tl s) \<or> CHR '']'' \<in> set rest then None
                else Some (tl a, port))
         else let host = take i s in
           if CHR '':'' \<in> set host then None
           else if CHR ''['' \<in> set s \<or> CHR '']'' \<in> set s then None
           else Some (host, port)))"

text \<open>The endpoint part of \<^verbatim>\<open>ValidateHubConfig\<close>.\<close>

definition hub_endpoint_check :: "string \<Rightarrow> err + unit" where
  "hub_endpoint_check endpoint =
     (if endpoint \<noteq> [] then
        (if str_contains endpoint ''://'' then
           Inl (Errorf ''endpoint must be a hostname or IP, not a URL'')
         else let endpoint = (case SplitHostPort endpoint of Some (host, _) \<Rightarrow> host | None \<Rightarrow> endpoint) in
           if ParseIP endpoint = None then
             (if length endpoint > 253 then Inl (Errorf ''endpoint hostname too long'')
              else if (\<exists>label \<in> set (split_on CHR ''.'' endpoint). label = [] \<or> length label > 63) then
                Inl (Errorf ''invalid endpoint hostname'')
              else Inr ())
           else Inr ())
      else Inr ())"

definition ValidateHubConfig :: "HubConfig \<Rightarrow> bool \<Rightarrow> err + unit" where
  "ValidateHubConfig cfg requireEndpoint =
     (if hc_Version cfg \<noteq> 0 \<and> hc_Version cfg \<noteq> HubConfigVersion then
        Inl (Errorf (''unsupported config version '' @ itoa_int (hc_Version cfg)))
      else let endpoint = trim_space (hc_Endpoint cfg) in
      if requireEndpoint \<and> endpoint = [] then Inl (Errorf ''endpoint is required'')
      else res_bind (hub_endpoint_check endpoint)
      (\<lambda>_. let subnet = trim_space (hc_Subnet cfg);
               subnet = (if subnet = [] then DefaultSubnet else subnet) in
        case FirstHostIP subnet of Inl e \<Rightarrow> Inl (Wrap ''subnet: '' e) | Inr _ \<Rightarrow>
        let username = trim_space (hc_AdminUsername cfg);
            username = (if username = [] then DefaultAdminUsername else username) in
        if length username < 2 \<or> length username > 64 then
          Inl (Errorf ''admin username must be 2-64 characters'')
        else let mtu = (if hc_MTU cfg = 0 then DefaultMTU else hc_MTU cfg) in
        if mtu < 1280 \<or> mtu > 9000 then Inl (Errorf ''mtu must be between 1280 and 9000'')
        else let interval = (if hc_StatusInterval cfg = 0 then DefaultStatusInterval else hc_StatusInterval cfg) in
        if interval < 1 \<or> interval > 3600 then
          Inl (Errorf ''status interval must be between 1 and 3600 seconds'')
        else res_bind (ParseUpstreamDNS (hc_UpstreamDNS cfg)) (\<lambda>_. Inr ())))"

definition NormalizeHubConfig :: "HubConfig \<Rightarrow> HubConfig" where
  "NormalizeHubConfig cfg =
     (let out = cfg;
          out = (if hc_Version out = 0 then out\<lparr>hc_Version := HubConfigVersion\<rparr> else out);
          out = out\<lparr>hc_Endpoint := trim_space (hc_Endpoint out)\<rparr>;
          out = out\<lparr>hc_Subnet := trim_space (hc_Subnet out)\<rparr>;
          out = (if hc_Subnet out = [] then out\<lparr>hc_Subnet := DefaultSubnet\<rparr> else out);
          out = out\<lparr>hc_AdminUsername := trim_space (hc_AdminUsername out)\<rparr>;
          out = (if hc_AdminUsername out = [] then out\<lparr>hc_AdminUsername := DefaultAdminUsername\<rparr> else out);
          out = (if hc_MTU out = 0 then out\<lparr>hc_MTU := DefaultMTU\<rparr> else out);
          out = (if hc_StatusInterval out = 0 then out\<lparr>hc_StatusInterval := DefaultStatusInterval\<rparr> else out);
          dns = (case ParseUpstreamDNS (hc_UpstreamDNS out) of Inl _ \<Rightarrow> [] | Inr d \<Rightarrow> d)
      in out\<lparr>hc_UpstreamDNS := dns\<rparr>)"

section \<open>Client configuration (\<^verbatim>\<open>domain/client\<close>)\<close>

record ClientConfigInput =
  ci_Endpoint :: string
  ci_ListenPort :: int
  ci_ServerPublicKey :: string
  ci_AllowedSubnet :: string
  ci_ClientDNS :: "string list"
  ci_PeerPrivateKey :: string
  ci_PeerAddress :: string

definition BuildClientConfig :: "ClientConfigInput \<Rightarrow> err + string" where
  "BuildClientConfig inp =
     (if ci_Endpoint inp = [] then Inl (Errorf ''server endpoint is not configured'')
      else Inr (
        ''[Interface]'' @ [NL] @
        ''PrivateKey = '' @ ci_PeerPrivateKey inp @ [NL] @
        ''Address = '' @ ci_PeerAddress inp @ ''/32'' @ [NL] @
        ''DNS = '' @ join_with '', '' (ci_ClientDNS inp) @ [NL] @
        ''# Hub web UI: http://'' @ HubFQDN @ ''/'' @ [NL, NL] @
        ''[Peer]'' @ [NL] @
        ''PublicKey = '' @ ci_ServerPublicKey inp @ [NL] @
        ''Endpoint = '' @ ci_Endpoint inp @ '':'' @ itoa_int (ci_ListenPort inp) @ [NL] @
        ''PersistentKeepalive = 25'' @ [NL] @
        ''AllowedIPs = '' @ ci_AllowedSubnet inp @ [NL]))"

section \<open>Labels\<close>

text \<open>The host labels the rules are meant to admit.\<close>

definition valid_label :: "string \<Rightarrow> bool" where
  "valid_label s = (s \<noteq> [] \<and> length s \<le> 63 \<and> list_all slug_char s \<and> hd s \<noteq> CHR ''-'' \<and>
     last s \<noteq> CHR ''-'' \<and> \<not> str_contains s ''--'' \<and> s \<notin> {''hub'', ''dns'', ''www''})"

lemma slug_char_ascii:
  "slug_char c \<Longrightarrow> (of_char c :: nat) < 128 \<and> \<not> is_upper c \<and> \<not> is_space c \<and> c \<noteq> CHR '' ''"
  by (auto simp: slug_char_def is_lower_def is_digit_def is_upper_def is_space_def Let_def)

lemma has_prefix_hyphen: "s \<noteq> [] \<Longrightarrow> has_prefix s ''-'' \<longleftrightarrow> hd s = CHR ''-''"
  by (cases s) (auto simp: has_prefix_def)

lemma has_suffix_hyphen: "s \<noteq> [] \<Longrightarrow> has_suffix s ''-'' \<longleftrightarrow> last s = CHR ''-''"
  by (cases s rule: rev_cases) (auto simp: has_suffix_def)

lemma slug_chars_HostnameSlug: "list_all slug_char (HostnameSlug n)"
proof -
  have "list_all slug_char (filter slug_char xs)" for xs by (induction xs) auto
  moreover have "list_all slug_char ''host''" by (simp add: slug_char_def is_lower_def)
  ultimately show ?thesis by (simp add: HostnameSlug_def Let_def)
qed

lemma HostnameSlug_not_Nil [simp]: "HostnameSlug n \<noteq> []"
  by (simp add: HostnameSlug_def Let_def)

lemma to_lower_no_upper: "(\<And>c. c \<in> set s \<Longrightarrow> \<not> is_upper c) \<Longrightarrow> to_lower s = s"
  by (auto simp: to_lower_def lower_char_def intro: map_idI)

lemma HostnameSlug_fix:
  assumes "list_all slug_char s" and "s \<noteq> []"
  shows "trim_space s = s" and "HostnameSlug s = s"
proof -
  have chars: "slug_char c" if "c \<in> set s" for c using assms that by (simp add: list_all_iff)
  have "\<not> is_space (hd s)" "\<not> is_space (last s)"
    using chars slug_char_ascii assms(2) by (meson hd_in_set last_in_set)+
  then show trim: "trim_space s = s" by (intro trim_space_id) simp
  have "to_lower s = s" using chars slug_char_ascii by (intro to_lower_no_upper) blast
  moreover have "map (\<lambda>c. if c = CHR '' '' then CHR ''-'' else c) s = s"
    using chars slug_char_ascii by (intro map_idI) auto
  moreover have "filter slug_char s = s" using chars by (simp add: filter_id_conv)
  ultimately show "HostnameSlug s = s"
    using assms(2) by (simp add: HostnameSlug_def trim Let_def)
qed

lemma rune_count_le_length: "rune_count s \<le> length s"
  by (simp add: rune_count_def)

lemma slug_length:
  assumes "\<And>c. 128 \<le> (of_char c :: nat) \<Longrightarrow> \<not> slug_char (f (lower_char c))"
  shows "length (filter slug_char (map f (to_lower s))) \<le> rune_count s"
  using assms by (induction s) (auto simp: to_lower_def rune_count_def)

lemma lower_char_high: "128 \<le> (of_char c :: nat) \<Longrightarrow> lower_char c = c"
  by (simp add: lower_char_def is_upper_def Let_def)

lemma length_HostnameSlug:
  assumes "HostnameSlug n \<noteq> ''host''"
  shows "length (HostnameSlug n) \<le> rune_count (trim_space n)"
proof -
  let ?f = "\<lambda>c. if c = CHR '' '' then CHR ''-'' else c"
  have slug: "HostnameSlug n = filter slug_char (map ?f (to_lower (trim_space n)))"
    using assms by (auto simp: HostnameSlug_def Let_def split: if_splits)
  have "\<not> slug_char (?f (lower_char c))" if "128 \<le> (of_char c :: nat)" for c
    using that lower_char_high [OF that] slug_char_ascii [of c] by auto
  then show ?thesis unfolding slug by (rule slug_length)
qed

lemma ValidateHostname_sound: "ValidateHostname n = Inr s \<Longrightarrow> valid_label s"
proof -
  assume v: "ValidateHostname n = Inr s"
  let ?n = "trim_space n"
  from v have s: "s = HostnameSlug ?n" and len: "rune_count ?n \<le> 63" and
    rest: "\<not> has_prefix s ''-''" "\<not> has_suffix s ''-''" "\<not> str_contains s ''--''" "s \<notin> set reservedHostnames"
    by (auto simp: ValidateHostname_def Let_def maxHostnameLabelLen_def split: if_splits)
  have "length s \<le> 63"
    using length_HostnameSlug [of ?n] len s by (cases "HostnameSlug ?n = ''host''") auto
  with rest s slug_chars_HostnameSlug [of ?n] show ?thesis
    by (simp add: valid_label_def has_prefix_hyphen has_suffix_hyphen reservedHostnames_def)
qed

lemma ValidateHostname_fix: "valid_label s \<Longrightarrow> ValidateHostname s = Inr s"
  using HostnameSlug_fix [of s] rune_count_le_length [of s]
  by (simp add: valid_label_def ValidateHostname_def Let_def maxHostnameLabelLen_def
      has_prefix_hyphen has_suffix_hyphen reservedHostnames_def)

text \<open>
  \<^verbatim>\<open>ValidateHostname\<close> yields exactly the valid DNS labels (1 to 63 letters, digits and single
  inner hyphens, not reserved), and it is a projection: it returns a string for some input if and
  only if it returns that string unchanged when given it again.
\<close>

theorem ValidateHostname_labels:
  "(\<exists>n. ValidateHostname n = Inr s) = valid_label s \<and> (ValidateHostname s = Inr s) = valid_label s"
  using ValidateHostname_sound ValidateHostname_fix by blast

lemma ValidateMapSlug_eq: "ValidateMapSlug n = ValidateHostname n"
  using ValidateHostname_sound [of n]
  by (cases "ValidateHostname n") (auto simp: ValidateMapSlug_def valid_label_def HubDNSLabel_def)

lemma map_group_ids_loop_iff: "map_group_ids_loop seen ids = Inr () \<longleftrightarrow> 0 \<notin> set ids"
  by (induction seen ids rule: map_group_ids_loop.induct) auto

lemma ValidateMapGroupIDs_iff: "ValidateMapGroupIDs ids = Inr () \<longleftrightarrow> ids \<noteq> [] \<and> 0 \<notin> set ids"
  by (simp add: ValidateMapGroupIDs_def map_group_ids_loop_iff)

section \<open>Target hosts\<close>

lemma target_labels_iff:
  "target_labels ls = Inr () \<longleftrightarrow> (\<forall>l \<in> set ls. l \<noteq> [] \<and> length l \<le> 63)"
  by (induction ls) auto

lemma ParseIP_addr: "ParseIP s = Some ip \<Longrightarrow> \<exists>a. ParseAddr s = Some a \<and> ip = as16 a"
  by (auto simp: ParseIP_def split: option.splits if_splits addr.splits)

text \<open>What an accepted forward or map target looks like.\<close>

definition target_host_ok :: "string \<Rightarrow> bool" where
  "target_host_ok h = ((\<exists>a b c d. h = v4_string a b c d) \<or>
     (ParseIP h = None \<and> CHR ''.'' \<in> set h \<and> length h \<le> 253 \<and>
      list_all (\<lambda>l. l \<noteq> [] \<and> length l \<le> 63) (split_on CHR ''.'' h) \<and> \<not> list_ex is_upper h))"

lemma ip_string_v4: "to4 ip = Some q \<Longrightarrow> \<exists>a b c d. ip_string ip = v4_string a b c d"
proof -
  assume q: "to4 ip = Some q"
  then have "length q = 4" by (auto simp: to4_def split: if_splits)
  then obtain a b c d where "q = [a, b, c, d]"
    by (auto simp: numeral_eq_Suc length_Suc_conv)
  with q have "ip_string ip = v4_string a b c d" by (simp add: ip_string_def)
  then show ?thesis by blast
qed

lemma no_upper_normalize: "\<not> list_ex is_upper (normalizeForwardTargetHost h)"
  by (auto simp: normalizeForwardTargetHost_def trim_suffix_def to_lower_def list_ex_iff
      dest!: in_set_takeD)

lemma valid_target_host:
  assumes "ValidateForwardTargetHost host = Inr h"
  shows "target_host_ok h"
proof -
  let ?h = "normalizeForwardTargetHost host"
  show ?thesis
  proof (cases "ParseIP ?h")
    case None
    with assms have "h = ?h" "str_contains ?h ''.''" "length ?h \<le> 253"
        "target_labels (split_on CHR ''.'' ?h) = Inr ()"
      by (auto simp: ValidateForwardTargetHost_def Let_def res_bind_eq_Inr split: if_splits)
    with None no_upper_normalize show ?thesis
      by (simp add: target_host_ok_def target_labels_iff str_contains_char list_all_iff)
  next
    case (Some ip)
    with assms obtain q where "to4 ip = Some q" "h = ip_string ip"
      by (auto simp: ValidateForwardTargetHost_def Let_def split: if_splits)
    with ip_string_v4 show ?thesis by (auto simp: target_host_ok_def)
  qed
qed

text \<open>
  A forward or map target that passes \<^verbatim>\<open>ValidateForwardTargetHost\<close> is the canonical text of an
  IPv4 address, or a lower-case dotted name of at most 253 bytes whose labels have 1 to 63 bytes;
  a bare peer name never passes.
\<close>

theorem ValidateForwardTargetHost_ok:
  assumes "ValidateForwardTargetHost host = Inr h"
  shows "target_host_ok h"
  by (rule valid_target_host [OF assms])

theorem ValidateForwardTargetHost_ok_witness:
  "ValidateForwardTargetHost '' DB.internal. '' = Inr ''db.internal'' \<and> target_host_ok ''db.internal''"
proof -
  have "ValidateForwardTargetHost '' DB.internal. '' = Inr ''db.internal''"
    by (simp add: ev chr_eval ValidateForwardTargetHost_def normalizeForwardTargetHost_def
        ParseIP_def ParseAddr_def parse_ipv4_def)
  with ValidateForwardTargetHost_ok [of "'' DB.internal. ''" "''db.internal''"] show ?thesis by blast
qed

section \<open>Hub settings\<close>

definition hub_config_ok :: "HubConfig \<Rightarrow> bool" where
  "hub_config_ok c = (hc_Version c = HubConfigVersion \<and> is_ok (FirstHostIP (hc_Subnet c)) \<and>
     2 \<le> length (hc_AdminUsername c) \<and> length (hc_AdminUsername c) \<le> 64 \<and>
     1280 \<le> hc_MTU c \<and> hc_MTU c \<le> 9000 \<and> 1 \<le> hc_StatusInterval c \<and> hc_StatusInterval c \<le> 3600 \<and>
     distinct (hc_UpstreamDNS c) \<and> \<not> str_contains (hc_Endpoint c) ''://'')"

lemma NormalizeHubConfig_sel [simp]:
  "hc_Version (NormalizeHubConfig c) = (if hc_Version c = 0 then HubConfigVersion else hc_Version c)"
  "hc_Endpoint (NormalizeHubConfig c) = trim_space (hc_Endpoint c)"
  "hc_Subnet (NormalizeHubConfig c) =
     (if trim_space (hc_Subnet c) = [] then DefaultSubnet else trim_space (hc_Subnet c))"
  "hc_AdminUsername (NormalizeHubConfig c) =
     (if trim_space (hc_AdminUsername c) = [] then DefaultAdminUsername else trim_space (hc_AdminUsername c))"
  "hc_MTU (NormalizeHubConfig c) = (if hc_MTU c = 0 then DefaultMTU else hc_MTU c)"
  "hc_StatusInterval (NormalizeHubConfig c) =
     (if hc_StatusInterval c = 0 then DefaultStatusInterval else hc_StatusInterval c)"
  "hc_UpstreamDNS (NormalizeHubConfig c) =
     (case ParseUpstreamDNS (hc_UpstreamDNS c) of Inl _ \<Rightarrow> [] | Inr d \<Rightarrow> d)"
  by (simp_all add: NormalizeHubConfig_def Let_def)

text \<open>Validation reads the fields after their defaults are filled in.\<close>

lemma ValidateHubConfig_normalized:
  "ValidateHubConfig c req =
     (let n = NormalizeHubConfig c in
      if hc_Version n \<noteq> HubConfigVersion then
        Inl (Errorf (''unsupported config version '' @ itoa_int (hc_Version c)))
      else if req \<and> hc_Endpoint n = [] then Inl (Errorf ''endpoint is required'')
      else res_bind (hub_endpoint_check (hc_Endpoint n)) (\<lambda>_.
        case FirstHostIP (hc_Subnet n) of Inl e \<Rightarrow> Inl (Wrap ''subnet: '' e) | Inr _ \<Rightarrow>
        if length (hc_AdminUsername n) < 2 \<or> length (hc_AdminUsername n) > 64 then
          Inl (Errorf ''admin username must be 2-64 characters'')
        else if hc_MTU n < 1280 \<or> hc_MTU n > 9000 then Inl (Errorf ''mtu must be between 1280 and 9000'')
        else if hc_StatusInterval n < 1 \<or> hc_StatusInterval n > 3600 then
          Inl (Errorf ''status interval must be between 1 and 3600 seconds'')
        else res_bind (ParseUpstreamDNS (hc_UpstreamDNS c)) (\<lambda>_. Inr ())))"
proof -
  have "hc_Version c \<noteq> 0 \<and> hc_Version c \<noteq> HubConfigVersion \<longleftrightarrow>
      (if hc_Version c = 0 then HubConfigVersion else hc_Version c) \<noteq> HubConfigVersion"
    by simp
  then show ?thesis
    unfolding ValidateHubConfig_def Let_def NormalizeHubConfig_sel by (simp only:)
qed

lemma hub_endpoint_check_no_url: "hub_endpoint_check e = Inr () \<Longrightarrow> \<not> str_contains e ''://''"
  by (cases "e = []") (auto simp: hub_endpoint_check_def split: if_splits)

lemma ParseUpstreamDNS_distinct: "ParseUpstreamDNS raw = Inr r \<Longrightarrow> distinct r"
  using dns_dedup_Inr [of "[]" "dns_items raw" r]
  by (auto simp: ParseUpstreamDNS_def Let_def split: if_splits)

text \<open>
  When \<^verbatim>\<open>ValidateHubConfig\<close> accepts the settings, \<^verbatim>\<open>NormalizeHubConfig\<close> turns them into
  settings that are complete and in range: the known version, a subnet with a first host, a user
  name of 2 to 64 bytes, an MTU in 1280..9000, an interval in 1..3600, distinct resolvers, and an
  endpoint if one was required.
\<close>

theorem ValidateHubConfig_normalizes:
  assumes "ValidateHubConfig c req = Inr ()"
  shows "hub_config_ok (NormalizeHubConfig c) \<and> (req = False \<or> hc_Endpoint (NormalizeHubConfig c) \<noteq> [])"
proof -
  define n where "n = NormalizeHubConfig c"
  obtain d where d: "ParseUpstreamDNS (hc_UpstreamDNS c) = Inr d"
    using assms unfolding ValidateHubConfig_normalized
    by (auto simp: Let_def res_bind_eq_Inr simp del: NormalizeHubConfig_sel split: if_splits sum.splits)
  have "hc_UpstreamDNS n = d" using d by (simp add: n_def)
  with ParseUpstreamDNS_distinct [OF d] have "distinct (hc_UpstreamDNS n)" by simp
  with assms show ?thesis
    unfolding ValidateHubConfig_normalized n_def [symmetric]
    by (auto simp: Let_def res_bind_eq_Inr hub_config_ok_def hub_endpoint_check_no_url
        simp del: NormalizeHubConfig_sel split: if_splits sum.splits)
qed

definition example_config :: HubConfig where
  "example_config = \<lparr>hc_Version = 0, hc_Endpoint = ''vpn.example.com:51820'', hc_Subnet = ''10.0.0.5/24'',
     hc_AdminUsername = [], hc_MTU = 0, hc_StatusInterval = 0, hc_UpstreamDNS = []\<rparr>"

lemma example_config_ok: "ValidateHubConfig example_config True = Inr ()"
  by (simp add: example_config_def ValidateHubConfig_def hub_endpoint_check_def SplitHostPort_def
      FirstHostIP_host_bits [simplified] ParseUpstreamDNS_def dns_items_def HubConfigVersion_def ev chr_eval)

theorem ValidateHubConfig_normalizes_witness:
  "hub_config_ok (NormalizeHubConfig example_config) \<and> hc_Endpoint (NormalizeHubConfig example_config) \<noteq> []"
  using ValidateHubConfig_normalizes [OF example_config_ok] by simp

section \<open>The client file\<close>

text \<open>
  Reading the file the way \<^verbatim>\<open>wg-quick\<close> does: the value of a key is what follows \<open>key = \<close> on the
  first line that starts with it.
\<close>

definition conf_value :: "string \<Rightarrow> string \<Rightarrow> string option" where
  "conf_value key conf =
     map_option (\<lambda>line. drop (length key + 3) line)
       (find (\<lambda>line. has_prefix line (key @ '' = '')) (split_on NL conf))"

definition one_line :: "ClientConfigInput \<Rightarrow> bool" where
  "one_line inp = (NL \<notin> set (ci_Endpoint inp @ ci_ServerPublicKey inp @ ci_AllowedSubnet inp @
     concat (ci_ClientDNS inp) @ ci_PeerPrivateKey inp @ ci_PeerAddress inp))"

lemma set_join_with: "set (join_with sep xs) \<subseteq> set sep \<union> set (concat xs)"
  by (induction sep xs rule: join_with.induct) auto

lemma NL_notin_itoa [simp]: "NL \<notin> set (itoa_int i)"
proof -
  have "\<not> is_digit NL" by (simp add: is_digit_def)
  then have "NL \<notin> set (itoa n)" for n using itoa_digits by blast
  then show ?thesis by (auto simp: itoa_int_def)
qed

lemma split_append: "c \<notin> set a \<Longrightarrow>
  split_on c (a @ t) = (case split_on c t of [] \<Rightarrow> [a] | y # ys \<Rightarrow> (a @ y) # ys)"
  by (induction a) (auto split: list.splits)

lemma BuildClientConfig_lines:
  assumes "one_line inp" and "BuildClientConfig inp = Inr conf"
  shows "split_on NL conf =
    [''[Interface]'', ''PrivateKey = '' @ ci_PeerPrivateKey inp, ''Address = '' @ ci_PeerAddress inp @ ''/32'',
     ''DNS = '' @ join_with '', '' (ci_ClientDNS inp), ''# Hub web UI: http://'' @ HubFQDN @ ''/'', [],
     ''[Peer]'', ''PublicKey = '' @ ci_ServerPublicKey inp,
     ''Endpoint = '' @ ci_Endpoint inp @ '':'' @ itoa_int (ci_ListenPort inp), ''PersistentKeepalive = 25'',
     ''AllowedIPs = '' @ ci_AllowedSubnet inp, []]"
proof -
  have "NL \<notin> set (join_with '', '' (ci_ClientDNS inp))"
    using set_join_with [of "'', ''" "ci_ClientDNS inp"] assms(1) by (auto simp: one_line_def)
  then show ?thesis
    using assms by (auto simp: BuildClientConfig_def one_line_def HubFQDN_def HubDNSLabel_def DNSDomain_def
        split_append split: if_splits)
qed


definition example_input :: ClientConfigInput where
  "example_input = \<lparr>ci_Endpoint = ''vpn.example.com:51820'', ci_ListenPort = 8443, ci_ServerPublicKey = ''spub'',
     ci_AllowedSubnet = ''10.0.0.0/24'', ci_ClientDNS = [''10.0.0.1''], ci_PeerPrivateKey = ''priv'',
     ci_PeerAddress = ''10.0.0.2''\<rparr>"

lemma example_input_one_line: "one_line example_input"
  by (simp add: one_line_def example_input_def)

lemma example_input_builds: "\<exists>conf. BuildClientConfig example_input = Inr conf"
  by (simp add: BuildClientConfig_def example_input_def)


text \<open>
  \<^verbatim>\<open>ValidateHubConfig\<close> strips a port from the endpoint before it checks the host name, but the
  stored endpoint keeps it, so the accepted setting above leads to a client file whose endpoint has
  two ports.
\<close>

lemma endpoint_with_port_accepted:
  "ValidateHubConfig example_config True = Inr () \<and>
   hc_Endpoint (NormalizeHubConfig example_config) = ci_Endpoint example_input \<and>
   (\<exists>conf. BuildClientConfig example_input = Inr conf \<and>
     conf_value ''Endpoint'' conf = Some ''vpn.example.com:51820:8443'')"
proof (intro conjI)
  show "ValidateHubConfig example_config True = Inr ()" by (rule example_config_ok)
  show "hc_Endpoint (NormalizeHubConfig example_config) = ci_Endpoint example_input"
    by (simp add: example_config_def example_input_def ev)
  obtain conf where conf: "BuildClientConfig example_input = Inr conf"
    using example_input_builds by blast
  have "conf_value ''Endpoint'' conf = Some ''vpn.example.com:51820:8443''"
    unfolding conf_value_def BuildClientConfig_lines [OF example_input_one_line conf]
    by (simp add: has_prefix_def example_input_def itoa_int_def itoa_step digit_char_eval)
  with conf show "\<exists>conf. BuildClientConfig example_input = Inr conf \<and>
     conf_value ''Endpoint'' conf = Some ''vpn.example.com:51820:8443''" by blast
qed

end
