(* ===== verification/Store.thy ===== *)
theory Store
  imports Db Domain_Rules
begin

text \<open>
  Package \<^verbatim>\<open>repo\<close>: the store's operations on settings, admins, peers, groups, links, addresses,
  forwards, service maps and first-run setup.  Every operation is a program over the database (theory
  \<open>Db\<close>) with the statement executor as its first argument; the leases and mutexes only serialise
  these programs and have no counterpart here.  Operations on a database handle and their wrappers
  that take the lease first are one definition.
\<close>

section \<open>Settings and admins (\<^verbatim>\<open>store.go\<close>, \<^verbatim>\<open>hubconfig.go\<close>, \<^verbatim>\<open>password.go\<close>)\<close>

definition GetSettings :: "sql \<Rightarrow> Settings prog" where
  "GetSettings exec = first_settings exec"

definition UpdateSettings :: "sql \<Rightarrow> Settings \<Rightarrow> unit prog" where
  "UpdateSettings exec se = exec_stmt exec (Save (RSettings se))"

definition GetAdminByUsername :: "sql \<Rightarrow> string \<Rightarrow> Admin prog" where
  "GetAdminByUsername exec username = first_admin exec (\<lambda>a. ad_Username a = username)"

definition GetAdminByID :: "sql \<Rightarrow> nat \<Rightarrow> Admin prog" where
  "GetAdminByID exec i = first_admin exec (\<lambda>a. ad_ID a = i)"

definition GetPrimaryAdmin :: "sql \<Rightarrow> Admin prog" where
  "GetPrimaryAdmin exec = first_admin exec (\<lambda>_. True)"

definition minPasswordLen :: nat where "minPasswordLen = 8"

definition ValidatePassword :: "string \<Rightarrow> err + unit" where
  "ValidatePassword plain =
     (if length plain < minPasswordLen then
        Inl (Errorf (''password must be at least '' @ itoa minPasswordLen @ '' characters''))
      else Inr ())"

text \<open>\<open>bcrypt\<close> is \<^verbatim>\<open>bcrypt.GenerateFromPassword\<close>.\<close>

definition HashPassword :: "(string \<Rightarrow> err + string) \<Rightarrow> string \<Rightarrow> err + string" where
  "HashPassword bcrypt plain = res_bind (ValidatePassword plain) (\<lambda>_. bcrypt plain)"

definition UpdateAdminPassword :: "sql \<Rightarrow> (string \<Rightarrow> err + string) \<Rightarrow> nat \<Rightarrow> string \<Rightarrow> unit prog" where
  "UpdateAdminPassword exec bcrypt adminID newPassword =
     andthen (lift_res (HashPassword bcrypt newPassword)) (\<lambda>hash.
       exec_stmt exec (Update TAdmin (on_admin (\<lambda>a. ad_ID a = adminID))
         (\<lambda>r. case r of RAdmin a \<Rightarrow> RAdmin (a\<lparr>ad_PasswordHash := hash, ad_TokenVersion := ad_TokenVersion a + 1\<rparr>)
                      | x \<Rightarrow> x)))"

definition ToHubConfig :: "Settings \<Rightarrow> string \<Rightarrow> HubConfig" where
  "ToHubConfig s adminUsername = \<lparr>hc_Version = HubConfigVersion, hc_Endpoint = se_Endpoint s,
     hc_Subnet = se_WGSubnet s, hc_AdminUsername = adminUsername, hc_MTU = se_MTU s,
     hc_StatusInterval = se_StatusInterval s, hc_UpstreamDNS = se_UpstreamDNS s\<rparr>"

definition UpdateMutableSettings :: "sql \<Rightarrow> int \<Rightarrow> int \<Rightarrow> string list \<Rightarrow> unit prog" where
  "UpdateMutableSettings exec mtu statusInterval upstreamDNS =
     andthen (GetSettings exec) (\<lambda>se.
       let draft = \<lparr>hc_Version = HubConfigVersion, hc_Endpoint = se_Endpoint se, hc_Subnet = se_WGSubnet se,
            hc_AdminUsername = DefaultAdminUsername, hc_MTU = mtu, hc_StatusInterval = statusInterval,
            hc_UpstreamDNS = upstreamDNS\<rparr> in
       andthen (lift_res (ValidateHubConfig draft True)) (\<lambda>_.
         let norm = NormalizeHubConfig draft in
         exec_stmt exec (Save (RSettings (se\<lparr>se_MTU := hc_MTU norm,
           se_StatusInterval := hc_StatusInterval norm, se_UpstreamDNS := hc_UpstreamDNS norm\<rparr>)))))"

definition UpstreamDNSResolvers :: "Settings \<Rightarrow> string list" where
  "UpstreamDNSResolvers s = (if se_UpstreamDNS s = [] then [] else se_UpstreamDNS s)"

definition ClientDNS :: "Settings \<Rightarrow> string list" where
  "ClientDNS s = [se_DNSIP s]"

section \<open>Addresses (\<^verbatim>\<open>ip_alloc.go\<close>)\<close>

definition collectUsedSubnetIPs :: "sql \<Rightarrow> string \<Rightarrow> string \<Rightarrow> string goset prog" where
  "collectUsedSubnetIPs exec hubIP dnsIP =
     (let used = (if hubIP \<noteq> [] then [hubIP] else []);
          used = (if dnsIP \<noteq> [] then List.insert dnsIP used else used) in
      andthen (find_rows exec TPeer) (\<lambda>rows.
      let used = fold List.insert (map p_WGIP (t_peers rows)) used in
      andthen (find_rows exec TMap) (\<lambda>rows.
      let used = fold List.insert (map m_VirtualIP (t_maps rows)) used in
      andthen (find_rows exec TDNS) (\<lambda>rows.
      ret (fold List.insert (map d_IP (t_dns_records rows)) used)))))"

definition allocateSubnetIP :: "sql \<Rightarrow> string \<Rightarrow> string \<Rightarrow> string \<Rightarrow> string prog" where
  "allocateSubnetIP exec subnet hubIP dnsIP =
     andthen (collectUsedSubnetIPs exec hubIP dnsIP) (\<lambda>used. lift_res (nextFreeHostInSubnet subnet used))"

text \<open>A failed allocation is reported under the caller's own error value.\<close>

definition rename_unavailable :: "err \<Rightarrow> err + 'a \<Rightarrow> err + 'a" where
  "rename_unavailable e r = (case r of Inl x \<Rightarrow> Inl (if x = ErrSubnetIPUnavailable then e else x) | Inr y \<Rightarrow> Inr y)"

definition AllocateIP :: "sql \<Rightarrow> string \<Rightarrow> string \<Rightarrow> string \<Rightarrow> string prog" where
  "AllocateIP exec subnet hubIP dnsIP =
     andthen (attempt (allocateSubnetIP exec subnet hubIP dnsIP))
       (\<lambda>r. lift_res (rename_unavailable (Errorf ''no available IP in subnet'') r))"

definition AllocateMapIP :: "sql \<Rightarrow> string \<Rightarrow> string \<Rightarrow> string \<Rightarrow> string prog" where
  "AllocateMapIP exec subnet hubIP dnsIP =
     andthen (attempt (allocateSubnetIP exec subnet hubIP dnsIP))
       (\<lambda>r. lift_res (rename_unavailable ErrMapIPUnavailable r))"

section \<open>Peers (\<^verbatim>\<open>peers.go\<close>)\<close>

definition ListPeers :: "sql \<Rightarrow> Peer list prog" where
  "ListPeers exec = andthen (find_rows exec TPeer) (\<lambda>rows. ret (sort_key (\<lambda>p. - p_CreatedAt p) (t_peers rows)))"

definition GetPeer :: "sql \<Rightarrow> nat \<Rightarrow> Peer prog" where
  "GetPeer exec i = first_peer exec (\<lambda>p. p_ID p = i)"

definition GetPeerByWGIP :: "sql \<Rightarrow> string \<Rightarrow> Peer prog" where
  "GetPeerByWGIP exec ip = first_peer exec (\<lambda>p. p_WGIP p = ip)"

definition CreatePeer :: "sql \<Rightarrow> Peer \<Rightarrow> unit prog" where
  "CreatePeer exec peer = andthen (create exec (RPeer peer)) (\<lambda>_. ret ())"

definition CreatePeerWithAllocatedIP :: "sql \<Rightarrow> Peer \<Rightarrow> string \<Rightarrow> string \<Rightarrow> string \<Rightarrow> Peer prog" where
  "CreatePeerWithAllocatedIP exec peer subnet hubIP dnsIP =
     andthen (collectUsedSubnetIPs exec hubIP dnsIP) (\<lambda>used.
     andthen (lift_res (rename_unavailable ErrIPAllocationUnavailable (nextFreeHostInSubnet subnet used))) (\<lambda>ip.
     let peer = peer\<lparr>p_WGIP := ip\<rparr> in
     transaction (
       andthen (create exec (RPeer peer)) (\<lambda>r. case r of RPeer peer \<Rightarrow>
         let hostname = (if p_DNSName peer = [] then p_Name peer else p_DNSName peer) in
         andthen (create exec (RDNS \<lparr>d_ID = 0, d_Hostname = hostname, d_IP = p_WGIP peer,
                   d_PeerID = Some (p_ID peer), d_Manual = False\<rparr>)) (\<lambda>_. ret peer)
       | _ \<Rightarrow> fail ErrRecordNotFound))))"

definition UpdatePeer :: "sql \<Rightarrow> Peer \<Rightarrow> unit prog" where
  "UpdatePeer exec peer = exec_stmt exec (Save (RPeer peer))"

definition DeletePeer :: "sql \<Rightarrow> nat \<Rightarrow> unit prog" where
  "DeletePeer exec i = exec_stmt exec (Delete TPeer (on_peer (\<lambda>p. p_ID p = i)))"

definition CreateDNSRecord :: "sql \<Rightarrow> DNSRecord \<Rightarrow> unit prog" where
  "CreateDNSRecord exec r = andthen (create exec (RDNS r)) (\<lambda>_. ret ())"

definition DeleteDNSByPeerID :: "sql \<Rightarrow> nat \<Rightarrow> unit prog" where
  "DeleteDNSByPeerID exec peerID =
     exec_stmt exec (Delete TDNS (on_dns (\<lambda>d. d_PeerID d = Some peerID \<and> \<not> d_Manual d)))"

definition UpdatePeerStats :: "sql \<Rightarrow> nat \<Rightarrow> int \<Rightarrow> int \<Rightarrow> int \<Rightarrow> unit prog" where
  "UpdatePeerStats exec i lastHandshake rx tx =
     exec_stmt exec (Update TPeer (on_peer (\<lambda>p. p_ID p = i))
       (\<lambda>r. case r of RPeer p \<Rightarrow> RPeer (p\<lparr>p_LastHandshake := lastHandshake, p_RxBytes := rx, p_TxBytes := tx\<rparr>) | x \<Rightarrow> x))"

section \<open>Groups and links (\<^verbatim>\<open>groups.go\<close>)\<close>

definition ListGroups :: "sql \<Rightarrow> PeerGroup list prog" where
  "ListGroups exec = andthen (find_rows exec TGroup) (\<lambda>rows. ret (sort_key g_Name (t_groups rows)))"

definition GetGroup :: "sql \<Rightarrow> nat \<Rightarrow> PeerGroup prog" where
  "GetGroup exec i = first_group exec (\<lambda>g. g_ID g = i)"

definition CreateGroup :: "sql \<Rightarrow> string \<Rightarrow> int \<Rightarrow> int \<Rightarrow> PeerGroup prog" where
  "CreateGroup exec name0 posX posY =
     (let name = trim_space name0 in
      if name = [] then fail (Errorf ''group name is required'')
      else andthen (create exec (RGroup \<lparr>g_ID = 0, g_Name = name, g_PosX = posX, g_PosY = posY, g_AllowIntraGroup = False\<rparr>))
        (\<lambda>r. case r of RGroup g \<Rightarrow> ret g | _ \<Rightarrow> fail ErrRecordNotFound))"

definition UpdateGroup :: "sql \<Rightarrow> PeerGroup \<Rightarrow> unit prog" where
  "UpdateGroup exec g = exec_stmt exec (Save (RGroup g))"

definition RenameGroup :: "sql \<Rightarrow> nat \<Rightarrow> string \<Rightarrow> PeerGroup prog" where
  "RenameGroup exec i name0 =
     (let name = trim_space name0 in
      if name = [] then fail (Errorf ''group name is required'')
      else andthen (GetGroup exec i) (\<lambda>g.
        if g_Name g = name then ret g
        else andthen (count_rows exec TGroup (on_group (\<lambda>x. g_Name x = name \<and> g_ID x \<noteq> i))) (\<lambda>count.
          if count > 0 then fail (Errorf ''group name already exists'')
          else let g = g\<lparr>g_Name := name\<rparr> in
            andthen (exec_stmt exec (Save (RGroup g))) (\<lambda>_. ret g))))"

definition DeleteGroup :: "sql \<Rightarrow> nat \<Rightarrow> unit prog" where
  "DeleteGroup exec i =
     andthen (count_rows exec TPeer (on_peer (\<lambda>p. p_GroupID p = i))) (\<lambda>count.
       if count > 0 then fail (Errorf ''group still has peers'')
       else transaction (
         andthen (exec_stmt exec (Delete TLink (on_link (\<lambda>l. l_From l = i \<or> l_To l = i)))) (\<lambda>_.
         andthen (exec_stmt exec (Delete TAllow (on_allow (\<lambda>a. a_GroupID a = i)))) (\<lambda>_.
         exec_stmt exec (Delete TGroup (on_group (\<lambda>g. g_ID g = i)))))))"

definition ListGroupLinks :: "sql \<Rightarrow> GroupLink list prog" where
  "ListGroupLinks exec = andthen (find_rows exec TLink) (\<lambda>rows. ret (t_links rows))"

definition normalizeLinkPair :: "nat \<Rightarrow> nat \<Rightarrow> bool \<Rightarrow> nat \<times> nat" where
  "normalizeLinkPair fromID toID bidirectional =
     (if bidirectional \<and> fromID > toID then (toID, fromID) else (fromID, toID))"

definition between :: "nat \<Rightarrow> nat \<Rightarrow> GroupLink \<Rightarrow> bool" where
  "between a b l = (l_From l = a \<and> l_To l = b \<or> l_From l = b \<and> l_To l = a)"

definition deleteLinksBetween :: "sql \<Rightarrow> nat \<Rightarrow> nat \<Rightarrow> unit prog" where
  "deleteLinksBetween exec a b = exec_stmt exec (Delete TLink (on_link (between a b)))"

definition UpsertGroupLink :: "sql \<Rightarrow> nat \<Rightarrow> nat \<Rightarrow> bool \<Rightarrow> unit prog" where
  "UpsertGroupLink exec fromID toID bidirectional =
     (if fromID = toID then fail (Errorf ''cannot link a group to itself'')
      else let (fromID, toID) = normalizeLinkPair fromID toID bidirectional in
        transaction (
          andthen (deleteLinksBetween exec fromID toID) (\<lambda>_.
          exec_stmt exec (Insert (RLink \<lparr>l_ID = 0, l_From = fromID, l_To = toID, l_Bidirectional = bidirectional\<rparr>)))))"

definition FindGroupLink :: "sql \<Rightarrow> nat \<Rightarrow> nat \<Rightarrow> GroupLink option prog" where
  "FindGroupLink exec a b =
     andthen (attempt (first_link exec (between a b))) (\<lambda>r. case r of
       Inr l \<Rightarrow> ret (Some l)
     | Inl e \<Rightarrow> if e = ErrRecordNotFound then ret None else fail e)"

definition HasGroupLink :: "sql \<Rightarrow> nat \<Rightarrow> nat \<Rightarrow> bool prog" where
  "HasGroupLink exec fromID toID =
     andthen (count_rows exec TLink (on_link (between fromID toID))) (\<lambda>count. ret (count > 0))"

definition DeleteGroupLink :: "sql \<Rightarrow> nat \<Rightarrow> nat \<Rightarrow> unit prog" where
  "DeleteGroupLink exec fromID toID = exec_stmt exec (Delete TLink (on_link (between fromID toID)))"

definition CountPeersByGroup :: "sql \<Rightarrow> (nat, nat) gomap prog" where
  "CountPeersByGroup exec = andthen (find_rows exec TPeer) (\<lambda>rows.
     let ps = t_peers rows in
     ret (fold (\<lambda>g m. mput g (length (filter (\<lambda>p. p_GroupID p = g) ps)) m) (map p_GroupID ps) []))"

text \<open>The data part of \<^verbatim>\<open>migrateGroupsDB\<close>: peers without a group move to the default group.\<close>

definition migrateGroupsDB :: "sql \<Rightarrow> unit prog" where
  "migrateGroupsDB exec =
     andthen (count_rows exec TPeer (on_peer (\<lambda>p. p_GroupID p = 0))) (\<lambda>unassigned.
       if unassigned = 0 then ret ()
       else andthen (attempt (first_group exec (\<lambda>g. g_Name g = ''default''))) (\<lambda>r.
         andthen (case r of
             Inr g \<Rightarrow> ret (RGroup g)
           | Inl _ \<Rightarrow> create exec (RGroup \<lparr>g_ID = 0, g_Name = ''default'', g_PosX = 0, g_PosY = 0, g_AllowIntraGroup = False\<rparr>))
           (\<lambda>r. exec_stmt exec (Update TPeer (on_peer (\<lambda>p. p_GroupID p = 0))
              (\<lambda>x. case x of RPeer p \<Rightarrow> RPeer (p\<lparr>p_GroupID := fst (key_of r)\<rparr>) | y \<Rightarrow> y)))))"

section \<open>Port forwards (\<^verbatim>\<open>forwards.go\<close>, \<^verbatim>\<open>port_listen.go\<close>)\<close>

record PortForwardInput =
  pi_Name :: string
  pi_ListenPort :: int
  pi_Protocol :: string
  pi_TargetHost :: string
  pi_TargetPort :: int

definition ListPortForwards :: "sql \<Rightarrow> PortForward list prog" where
  "ListPortForwards exec = andthen (find_rows exec TForward) (\<lambda>rows.
     ret (sort_key f_ListenPort (sort_key f_Protocol (t_forwards rows))))"

definition not_found_as :: "err \<Rightarrow> err + 'a \<Rightarrow> err + 'a" where
  "not_found_as e r = (case r of Inl x \<Rightarrow> Inl (if x = ErrRecordNotFound then e else x) | Inr y \<Rightarrow> Inr y)"

definition GetPortForward :: "sql \<Rightarrow> nat \<Rightarrow> PortForward prog" where
  "GetPortForward exec i =
     andthen (attempt (first_forward exec (\<lambda>f. f_ID f = i))) (\<lambda>r. lift_res (not_found_as ErrPortForwardNotFound r))"

definition isHubListenPortUsed :: "sql \<Rightarrow> int \<Rightarrow> nat \<Rightarrow> bool prog" where
  "isHubListenPortUsed exec listenPort exceptForwardID =
     andthen (count_rows exec TForward (on_forward (\<lambda>f. f_ListenPort f = listenPort \<and>
        (exceptForwardID = 0 \<or> f_ID f \<noteq> exceptForwardID)))) (\<lambda>n. ret (n > 0))"

definition normalizePortForward :: "PortForwardInput \<Rightarrow> int \<Rightarrow> err + PortForward" where
  "normalizePortForward inp hubTunnelWebPort =
     res_bind (ValidateForwardProtocol (pi_Protocol inp)) (\<lambda>proto.
     res_bind (ValidateForwardListenPort (pi_ListenPort inp) hubTunnelWebPort proto) (\<lambda>_.
     res_bind (ValidateForwardPort (pi_TargetPort inp) ''target port'') (\<lambda>_.
     res_bind (ValidateForwardTargetHost (pi_TargetHost inp)) (\<lambda>targetHost.
     let name = trim_space (pi_Name inp) in
     if length name > 64 then Inl (Errorf ''name must be at most 64 characters'')
     else Inr \<lparr>f_ID = 0, f_Name = name, f_ListenPort = pi_ListenPort inp, f_Protocol = proto,
            f_TargetHost = targetHost, f_TargetPort = pi_TargetPort inp\<rparr>))))"

text \<open>A unique violation of a write is reported under the caller's own error value.\<close>

definition unique_as :: "err \<Rightarrow> err + 'a \<Rightarrow> err + 'a" where
  "unique_as e r = (case r of Inl x \<Rightarrow> Inl (if x = ErrUniqueViolation then e else x) | Inr y \<Rightarrow> Inr y)"

definition CreatePortForward :: "sql \<Rightarrow> int \<Rightarrow> PortForwardInput \<Rightarrow> PortForward prog" where
  "CreatePortForward exec hubTunnelWebPort inp =
     andthen (lift_res (normalizePortForward inp hubTunnelWebPort)) (\<lambda>rule.
     andthen (isHubListenPortUsed exec (f_ListenPort rule) 0) (\<lambda>taken.
     if taken then fail (PortForwardListenPortError (f_ListenPort rule))
     else andthen (attempt (create exec (RForward rule))) (\<lambda>r.
       andthen (lift_res (unique_as ErrPortForwardConflict r)) (\<lambda>r.
       case r of RForward rule \<Rightarrow> ret rule | _ \<Rightarrow> fail ErrRecordNotFound))))"

definition UpdatePortForward :: "sql \<Rightarrow> nat \<Rightarrow> int \<Rightarrow> PortForwardInput \<Rightarrow> PortForward prog" where
  "UpdatePortForward exec i hubTunnelWebPort inp =
     andthen (GetPortForward exec i) (\<lambda>rule.
     andthen (lift_res (normalizePortForward inp hubTunnelWebPort)) (\<lambda>updated.
     andthen (if f_ListenPort updated \<noteq> f_ListenPort rule
              then isHubListenPortUsed exec (f_ListenPort updated) (f_ID rule) else ret False) (\<lambda>taken.
     if taken then fail (PortForwardListenPortError (f_ListenPort updated))
     else let updated = updated\<lparr>f_ID := f_ID rule\<rparr> in
       andthen (attempt (exec_stmt exec (Save (RForward updated)))) (\<lambda>r.
       andthen (lift_res (unique_as ErrPortForwardConflict r)) (\<lambda>_. ret updated)))))"

definition DeletePortForward :: "sql \<Rightarrow> nat \<Rightarrow> unit prog" where
  "DeletePortForward exec i = exec_stmt exec (Delete TForward (on_forward (\<lambda>f. f_ID f = i)))"

section \<open>Service maps (\<^verbatim>\<open>maps.go\<close>)\<close>

record MapInput =
  mi_Name :: string
  mi_Slug :: string
  mi_TargetHost :: string
  mi_AllowedGroups :: "nat list"

record MapDetail =
  mdt_Map :: ServiceMap
  mdt_TargetDisplay :: string
  mdt_AllowedGroups :: "nat list"

definition ListServiceMaps :: "sql \<Rightarrow> ServiceMap list prog" where
  "ListServiceMaps exec = andthen (find_rows exec TMap) (\<lambda>rows. ret (sort_key m_Slug (t_maps rows)))"

definition GetServiceMap :: "sql \<Rightarrow> nat \<Rightarrow> ServiceMap prog" where
  "GetServiceMap exec i = first_map exec (\<lambda>m. m_ID m = i)"

definition GetServiceMapBySlug :: "sql \<Rightarrow> string \<Rightarrow> ServiceMap prog" where
  "GetServiceMapBySlug exec slug = first_map exec (\<lambda>m. m_Slug m = slug)"

definition ListMapGroupIDs :: "sql \<Rightarrow> nat \<Rightarrow> nat list prog" where
  "ListMapGroupIDs exec mapID =
     andthen (run exec (Select TAllow (on_allow (\<lambda>a. a_MapID a = mapID)))) (\<lambda>rows.
       ret (map a_GroupID (sort_key a_Position (sort_key a_GroupID (t_allows rows)))))"

definition GetMapDetail :: "sql \<Rightarrow> nat \<Rightarrow> MapDetail prog" where
  "GetMapDetail exec i =
     andthen (GetServiceMap exec i) (\<lambda>entry.
     andthen (ListMapGroupIDs exec i) (\<lambda>gids.
     ret \<lparr>mdt_Map = entry, mdt_TargetDisplay = m_TargetHost entry, mdt_AllowedGroups = gids\<rparr>))"

fun map_details :: "sql \<Rightarrow> ServiceMap list \<Rightarrow> MapDetail list prog" where
  "map_details exec [] = ret []"
| "map_details exec (r # rs) =
     andthen (ListMapGroupIDs exec (m_ID r)) (\<lambda>gids.
     andthen (map_details exec rs) (\<lambda>rest.
     ret (\<lparr>mdt_Map = r, mdt_TargetDisplay = m_TargetHost r, mdt_AllowedGroups = gids\<rparr> # rest)))"

definition ListMapDetails :: "sql \<Rightarrow> MapDetail list prog" where
  "ListMapDetails exec = andthen (ListServiceMaps exec) (map_details exec)"

definition normalizeMapInput :: "MapInput \<Rightarrow> err + (ServiceMap \<times> nat list)" where
  "normalizeMapInput inp =
     res_bind (ValidateMapSlug (mi_Slug inp)) (\<lambda>slug.
     res_bind (ValidateMapTargetHost (mi_TargetHost inp)) (\<lambda>target.
     res_bind (ValidateMapGroupIDs (mi_AllowedGroups inp)) (\<lambda>_.
     let name = trim_space (mi_Name inp) in
     if length name > 64 then Inl (Errorf ''name must be at most 64 characters'')
     else Inr (\<lparr>m_ID = 0, m_Name = name, m_Slug = slug, m_TargetHost = target, m_VirtualIP = []\<rparr>,
               mi_AllowedGroups inp))))"

definition MapSlugConflictsPeer :: "sql \<Rightarrow> string \<Rightarrow> bool prog" where
  "MapSlugConflictsPeer exec slug =
     andthen (count_rows exec TPeer (on_peer (\<lambda>p. p_DNSName p = slug \<or> p_Name p = slug))) (\<lambda>count. ret (count > 0))"

text \<open>The loop that writes the allow list of a map in its order.\<close>

definition insert_allows :: "sql \<Rightarrow> nat \<Rightarrow> nat list \<Rightarrow> unit prog" where
  "insert_allows exec mapID groupIDs =
     for_each (enumerate 0 groupIDs) (\<lambda>(position, gid).
       exec_stmt exec (Insert (RAllow \<lparr>a_MapID = mapID, a_GroupID = gid, a_Position = int position\<rparr>)))"

definition CreateServiceMap :: "sql \<Rightarrow> MapInput \<Rightarrow> MapDetail prog" where
  "CreateServiceMap exec inp =
     andthen (MapSlugConflictsPeer exec (mi_Slug inp)) (\<lambda>conflict.
     if conflict then fail (Errorf ''slug conflicts with an existing peer name'')
     else andthen (lift_res (normalizeMapInput inp)) (\<lambda>(entry, groupIDs).
     andthen (GetSettings exec) (\<lambda>se.
     andthen (AllocateMapIP exec (se_WGSubnet se) (se_HubIP se) (se_DNSIP se)) (\<lambda>vip.
     let entry = entry\<lparr>m_VirtualIP := vip\<rparr> in
     andthen (transaction (
       andthen (attempt (create exec (RMap entry))) (\<lambda>r.
       andthen (lift_res (unique_as ErrMapSlugConflict r)) (\<lambda>r.
       andthen (insert_allows exec (fst (key_of r)) groupIDs) (\<lambda>_.
       ret (fst (key_of r))))))) (\<lambda>i.
     GetMapDetail exec i)))))"

definition UpdateServiceMap :: "sql \<Rightarrow> nat \<Rightarrow> MapInput \<Rightarrow> MapDetail prog" where
  "UpdateServiceMap exec i inp =
     andthen (GetServiceMap exec i) (\<lambda>existing.
     andthen (MapSlugConflictsPeer exec (mi_Slug inp)) (\<lambda>conflict.
     if conflict then fail (Errorf ''slug conflicts with an existing peer name'')
     else andthen (lift_res (normalizeMapInput inp)) (\<lambda>(entry, groupIDs).
     andthen (if m_Slug entry \<noteq> m_Slug existing then
         andthen (attempt (GetServiceMapBySlug exec (m_Slug entry))) (\<lambda>r. case r of
           Inr _ \<Rightarrow> fail ErrMapSlugConflict
         | Inl e \<Rightarrow> if e = ErrRecordNotFound then ret () else fail e)
       else ret ()) (\<lambda>_.
     let entry = entry\<lparr>m_ID := m_ID existing, m_VirtualIP := m_VirtualIP existing\<rparr> in
     andthen (transaction (
       andthen (attempt (exec_stmt exec (Save (RMap entry)))) (\<lambda>r.
       andthen (lift_res (unique_as ErrMapSlugConflict r)) (\<lambda>_.
       andthen (exec_stmt exec (Delete TAllow (on_allow (\<lambda>a. a_MapID a = i)))) (\<lambda>_.
       insert_allows exec i groupIDs))))) (\<lambda>_.
     GetMapDetail exec i)))))"

definition DeleteServiceMap :: "sql \<Rightarrow> nat \<Rightarrow> unit prog" where
  "DeleteServiceMap exec i = transaction (
     andthen (exec_stmt exec (Delete TAllow (on_allow (\<lambda>a. a_MapID a = i)))) (\<lambda>_.
     exec_stmt exec (Delete TMap (on_map (\<lambda>m. m_ID m = i)))))"

definition store_MapVirtualIPs :: "sql \<Rightarrow> string list prog" where
  "store_MapVirtualIPs exec = andthen (find_rows exec TMap) (\<lambda>rows. ret (map m_VirtualIP (t_maps rows)))"

definition LookupMapVIP :: "sql \<Rightarrow> string \<Rightarrow> (string \<times> bool) prog" where
  "LookupMapVIP exec slug = andthen (attempt (GetServiceMapBySlug exec slug)) (\<lambda>r. case r of
       Inl _ \<Rightarrow> ret ([], False) | Inr entry \<Rightarrow> ret (m_VirtualIP entry, True))"

definition store_PeerMayAccessMap :: "sql \<Rightarrow> nat \<Rightarrow> nat \<Rightarrow> bool prog" where
  "store_PeerMayAccessMap exec peerGroupID mapID =
     (if peerGroupID = 0 then ret False
      else andthen (count_rows exec TAllow (on_allow (\<lambda>a. a_MapID a = mapID \<and> a_GroupID a = peerGroupID)))
        (\<lambda>count. ret (count > 0)))"

definition MapAllowedForPeer :: "sql \<Rightarrow> string \<Rightarrow> nat \<Rightarrow> bool prog" where
  "MapAllowedForPeer exec peerWGIP mapID =
     andthen (attempt (GetPeerByWGIP exec peerWGIP)) (\<lambda>r. case r of
       Inl _ \<Rightarrow> ret False
     | Inr peer \<Rightarrow> store_PeerMayAccessMap exec (p_GroupID peer) mapID)"

section \<open>First-run setup (\<^verbatim>\<open>setup.go\<close>)\<close>

record SetupInput =
  si_Endpoint :: string
  si_Subnet :: string
  si_AdminUsername :: string
  si_AdminPassword :: string
  si_MTU :: int
  si_StatusInterval :: int
  si_ListenPort :: int
  si_ServerPrivateKey :: string
  si_ServerPublicKey :: string
  si_UpstreamDNS :: "string list"

definition IsConfigured :: "sql \<Rightarrow> bool prog" where
  "IsConfigured exec =
     andthen (count_rows exec TAdmin (\<lambda>_. True)) (\<lambda>adminCount.
     andthen (count_rows exec TSettings (\<lambda>_. True)) (\<lambda>settingsCount.
     ret (adminCount > 0 \<and> settingsCount > 0)))"

text \<open>The checks of \<^verbatim>\<open>Setup\<close> up to its transaction: the admin and settings rows to write.\<close>

definition setup_rows :: "(string \<Rightarrow> err + string) \<Rightarrow> SetupInput \<Rightarrow> err + (Admin \<times> Settings)" where
  "setup_rows bcrypt inp =
     (let draft = \<lparr>hc_Version = 0, hc_Endpoint = si_Endpoint inp, hc_Subnet = si_Subnet inp,
           hc_AdminUsername = si_AdminUsername inp, hc_MTU = si_MTU inp,
           hc_StatusInterval = si_StatusInterval inp, hc_UpstreamDNS = si_UpstreamDNS inp\<rparr> in
      res_bind (ValidateHubConfig draft True) (\<lambda>_.
      let norm = NormalizeHubConfig draft in
      if si_AdminPassword inp = [] then Inl (Errorf ''admin password is required'')
      else res_bind (HashPassword bcrypt (si_AdminPassword inp)) (\<lambda>hash.
      let listenPort = (if si_ListenPort inp = 0 then DefaultEndpointPort else si_ListenPort inp) in
      res_bind (ValidateEndpointPort listenPort) (\<lambda>_.
      if si_ServerPrivateKey inp = [] \<or> si_ServerPublicKey inp = [] then Inl (Errorf ''server keys are required'')
      else case FirstHostIP (hc_Subnet norm) of
        Inl e \<Rightarrow> Inl (Wrap ''subnet: '' e)
      | Inr hubIP \<Rightarrow> Inr
          (\<lparr>ad_ID = 0, ad_Username = hc_AdminUsername norm, ad_PasswordHash = hash, ad_TokenVersion = 0\<rparr>,
           \<lparr>se_ID = 0, se_ServerPublicKey = si_ServerPublicKey inp, se_ServerPrivateKey = si_ServerPrivateKey inp,
            se_Endpoint = hc_Endpoint norm, se_ListenPort = listenPort, se_WGSubnet = hc_Subnet norm,
            se_HubIP = hubIP, se_DNSIP = hubIP, se_DNSSuffix = DNSDomain, se_MTU = hc_MTU norm,
            se_StatusInterval = hc_StatusInterval norm, se_UpstreamDNS = hc_UpstreamDNS norm\<rparr>)))))"

definition Setup :: "sql \<Rightarrow> (string \<Rightarrow> err + string) \<Rightarrow> SetupInput \<Rightarrow> unit prog" where
  "Setup exec bcrypt inp =
     andthen (IsConfigured exec) (\<lambda>configured.
     if configured then fail (Errorf ''already configured'')
     else andthen (lift_res (setup_rows bcrypt inp)) (\<lambda>(adm, se).
     transaction (
       andthen (create exec (RAdmin adm)) (\<lambda>_.
       andthen (create exec (RSettings se)) (\<lambda>_.
       andthen (create exec (RGroup \<lparr>g_ID = 0, g_Name = ''default'', g_PosX = 0, g_PosY = 0, g_AllowIntraGroup = False\<rparr>))
         (\<lambda>_. ret ()))))))"

definition ResetAll :: "sql \<Rightarrow> unit prog" where
  "ResetAll exec = transaction (
     for_each [TDNS, TPeer, TLink, TAllow, TMap, TGroup, TAdmin, TSettings, TForward]
       (\<lambda>t. exec_stmt exec (Delete t (\<lambda>_. True))))"

end
