(* ===== verification/Store_Tables.thy ===== *)
theory Store_Tables
  imports Store
begin

text \<open>
  How statements act on the tables: the lemmas that let the proofs about store operations speak of one
  table at a time.
\<close>

section \<open>Tables and statements\<close>

lemma tables_append [simp]:
  "t_admins (a @ b) = t_admins a @ t_admins b" "t_settings (a @ b) = t_settings a @ t_settings b"
  "t_peers (a @ b) = t_peers a @ t_peers b" "t_groups (a @ b) = t_groups a @ t_groups b"
  "t_links (a @ b) = t_links a @ t_links b" "t_dns_records (a @ b) = t_dns_records a @ t_dns_records b"
  "t_forwards (a @ b) = t_forwards a @ t_forwards b" "t_maps (a @ b) = t_maps a @ t_maps b"
  "t_allows (a @ b) = t_allows a @ t_allows b"
  by (simp_all add: table_defs List.map_filter_def)

lemma tables_Nil [simp]:
  "t_admins [] = []" "t_settings [] = []" "t_peers [] = []" "t_groups [] = []" "t_links [] = []"
  "t_dns_records [] = []" "t_forwards [] = []" "t_maps [] = []" "t_allows [] = []"
  by (simp_all add: table_defs List.map_filter_def)

lemma tables_Cons:
  "t_admins (r # db) = (case r of RAdmin x \<Rightarrow> x # t_admins db | _ \<Rightarrow> t_admins db)"
  "t_settings (r # db) = (case r of RSettings x \<Rightarrow> x # t_settings db | _ \<Rightarrow> t_settings db)"
  "t_peers (r # db) = (case r of RPeer x \<Rightarrow> x # t_peers db | _ \<Rightarrow> t_peers db)"
  "t_groups (r # db) = (case r of RGroup x \<Rightarrow> x # t_groups db | _ \<Rightarrow> t_groups db)"
  "t_links (r # db) = (case r of RLink x \<Rightarrow> x # t_links db | _ \<Rightarrow> t_links db)"
  "t_dns_records (r # db) = (case r of RDNS x \<Rightarrow> x # t_dns_records db | _ \<Rightarrow> t_dns_records db)"
  "t_forwards (r # db) = (case r of RForward x \<Rightarrow> x # t_forwards db | _ \<Rightarrow> t_forwards db)"
  "t_maps (r # db) = (case r of RMap x \<Rightarrow> x # t_maps db | _ \<Rightarrow> t_maps db)"
  "t_allows (r # db) = (case r of RAllow x \<Rightarrow> x # t_allows db | _ \<Rightarrow> t_allows db)"
  by (auto simp: table_defs List.map_filter_def split: row.splits)

lemma set_tables:
  "x \<in> set (t_admins db) \<longleftrightarrow> RAdmin x \<in> set db" "s \<in> set (t_settings db) \<longleftrightarrow> RSettings s \<in> set db"
  "p \<in> set (t_peers db) \<longleftrightarrow> RPeer p \<in> set db" "g \<in> set (t_groups db) \<longleftrightarrow> RGroup g \<in> set db"
  "l \<in> set (t_links db) \<longleftrightarrow> RLink l \<in> set db" "d \<in> set (t_dns_records db) \<longleftrightarrow> RDNS d \<in> set db"
  "f \<in> set (t_forwards db) \<longleftrightarrow> RForward f \<in> set db" "m \<in> set (t_maps db) \<longleftrightarrow> RMap m \<in> set db"
  "a \<in> set (t_allows db) \<longleftrightarrow> RAllow a \<in> set db"
  by (induction db) (auto simp: tables_Cons split: row.splits)

text \<open>Deleting from a table.\<close>

lemma delete_same [simp]:
  "t_links (filter (\<lambda>x. table_of x = TLink \<longrightarrow> \<not> on_link P1 x) db) = filter (\<lambda>x. \<not> P1 x) (t_links db)"
  "t_allows (filter (\<lambda>x. table_of x = TAllow \<longrightarrow> \<not> on_allow P2 x) db) = filter (\<lambda>x. \<not> P2 x) (t_allows db)"
  "t_groups (filter (\<lambda>x. table_of x = TGroup \<longrightarrow> \<not> on_group P3 x) db) = filter (\<lambda>x. \<not> P3 x) (t_groups db)"
  "t_peers (filter (\<lambda>x. table_of x = TPeer \<longrightarrow> \<not> on_peer P4 x) db) = filter (\<lambda>x. \<not> P4 x) (t_peers db)"
  "t_maps (filter (\<lambda>x. table_of x = TMap \<longrightarrow> \<not> on_map P5 x) db) = filter (\<lambda>x. \<not> P5 x) (t_maps db)"
  "t_dns_records (filter (\<lambda>x. table_of x = TDNS \<longrightarrow> \<not> on_dns P6 x) db) = filter (\<lambda>x. \<not> P6 x) (t_dns_records db)"
  "t_forwards (filter (\<lambda>x. table_of x = TForward \<longrightarrow> \<not> on_forward P7 x) db) = filter (\<lambda>x. \<not> P7 x) (t_forwards db)"
  by (induction db) (auto simp: tables_Cons split: row.splits)

lemma delete_other:
  "t \<noteq> TAdmin \<Longrightarrow> t_admins (filter (\<lambda>x. table_of x = t \<longrightarrow> \<not> W x) db) = t_admins db"
  "t \<noteq> TSettings \<Longrightarrow> t_settings (filter (\<lambda>x. table_of x = t \<longrightarrow> \<not> W x) db) = t_settings db"
  "t \<noteq> TPeer \<Longrightarrow> t_peers (filter (\<lambda>x. table_of x = t \<longrightarrow> \<not> W x) db) = t_peers db"
  "t \<noteq> TGroup \<Longrightarrow> t_groups (filter (\<lambda>x. table_of x = t \<longrightarrow> \<not> W x) db) = t_groups db"
  "t \<noteq> TLink \<Longrightarrow> t_links (filter (\<lambda>x. table_of x = t \<longrightarrow> \<not> W x) db) = t_links db"
  "t \<noteq> TDNS \<Longrightarrow> t_dns_records (filter (\<lambda>x. table_of x = t \<longrightarrow> \<not> W x) db) = t_dns_records db"
  "t \<noteq> TForward \<Longrightarrow> t_forwards (filter (\<lambda>x. table_of x = t \<longrightarrow> \<not> W x) db) = t_forwards db"
  "t \<noteq> TMap \<Longrightarrow> t_maps (filter (\<lambda>x. table_of x = t \<longrightarrow> \<not> W x) db) = t_maps db"
  "t \<noteq> TAllow \<Longrightarrow> t_allows (filter (\<lambda>x. table_of x = t \<longrightarrow> \<not> W x) db) = t_allows db"
  by (induction db) (auto simp: tables_Cons split: row.splits)

text \<open>Rewriting rows of a table.\<close>

lemma update_other:
  assumes "\<And>x. table_of (f x) = table_of x"
  shows "t \<noteq> TSettings \<Longrightarrow> t_settings (map (\<lambda>x. if table_of x = t \<and> W x then f x else x) db) = t_settings db"
    and "t \<noteq> TPeer \<Longrightarrow> t_peers (map (\<lambda>x. if table_of x = t \<and> W x then f x else x) db) = t_peers db"
    and "t \<noteq> TLink \<Longrightarrow> t_links (map (\<lambda>x. if table_of x = t \<and> W x then f x else x) db) = t_links db"
    and "t \<noteq> TForward \<Longrightarrow> t_forwards (map (\<lambda>x. if table_of x = t \<and> W x then f x else x) db) = t_forwards db"
    and "t \<noteq> TMap \<Longrightarrow> t_maps (map (\<lambda>x. if table_of x = t \<and> W x then f x else x) db) = t_maps db"
    and "t \<noteq> TAllow \<Longrightarrow> t_allows (map (\<lambda>x. if table_of x = t \<and> W x then f x else x) db) = t_allows db"
proof -
  have other: "table_of (f x) \<noteq> t' \<longleftrightarrow> table_of x \<noteq> t'" for x t' by (simp add: assms)
  have rows: "f x = RSettings y \<Longrightarrow> table_of x = TSettings" "f x = RPeer y' \<Longrightarrow> table_of x = TPeer"
     "f x = RLink y'' \<Longrightarrow> table_of x = TLink" "f x = RForward z \<Longrightarrow> table_of x = TForward"
     "f x = RMap z' \<Longrightarrow> table_of x = TMap" "f x = RAllow z'' \<Longrightarrow> table_of x = TAllow" for x y y' y'' z z' z''
    using assms [of x] by auto
  show "t \<noteq> TSettings \<Longrightarrow> t_settings (map (\<lambda>x. if table_of x = t \<and> W x then f x else x) db) = t_settings db"
    and "t \<noteq> TPeer \<Longrightarrow> t_peers (map (\<lambda>x. if table_of x = t \<and> W x then f x else x) db) = t_peers db"
    and "t \<noteq> TLink \<Longrightarrow> t_links (map (\<lambda>x. if table_of x = t \<and> W x then f x else x) db) = t_links db"
    and "t \<noteq> TForward \<Longrightarrow> t_forwards (map (\<lambda>x. if table_of x = t \<and> W x then f x else x) db) = t_forwards db"
    and "t \<noteq> TMap \<Longrightarrow> t_maps (map (\<lambda>x. if table_of x = t \<and> W x then f x else x) db) = t_maps db"
    and "t \<noteq> TAllow \<Longrightarrow> t_allows (map (\<lambda>x. if table_of x = t \<and> W x then f x else x) db) = t_allows db"
    by (induction db) (auto simp: tables_Cons split: row.splits dest: rows)
qed

end
