(* ===== verification/Store_Inv.thy ===== *)
theory Store_Inv
  imports Store_Tables
begin

text \<open>
  What the store's operations guarantee, for every executor with the documented behaviour of SQL: at
  most one link between two groups, one owner per address, one forward per listen port, atomic
  changes, and no dangling references when a group or a map goes away.
\<close>

lemma unchanged_stmt:
  assumes "sql_ok exec" "\<And>db. P db \<Longrightarrow> uniq_ok db"
  shows "hoare P (run exec (Select t W)) (\<lambda>rows db. P db \<and> mset rows = {#r \<in># mset db. table_of r = t \<and> W r#}) P"
  using assms(2) by (intro hoare_run [OF assms(1)]) auto

section \<open>Links\<close>

definition edge :: "GroupLink \<Rightarrow> nat set" where
  "edge l = {l_From l, l_To l}"

definition link_ok :: "db \<Rightarrow> bool" where
  "link_ok db = ((\<forall>l \<in> set (t_links db). l_From l \<noteq> l_To l) \<and> inj_on edge (set (t_links db)))"

lemma between_edge: "between a b l \<longleftrightarrow> edge l = {a, b}"
  by (simp add: between_def edge_def doubleton_eq_iff)

lemma link_ok_replace:
  assumes "link_ok db0" "t_links db = filter (\<lambda>m. \<not> between a b m) (t_links db0) @ [l]"
    "edge l = {a, b}" "l_From l \<noteq> l_To l"
  shows "link_ok db"
proof -
  let ?L = "{m \<in> set (t_links db0). edge m \<noteq> {a, b}}"
  have set: "set (t_links db) = insert l ?L" using assms(2) by (auto simp: between_edge)
  have "inj_on edge (insert l ?L)"
    using assms(1,3) unfolding link_ok_def by (auto simp: inj_on_def)
  with assms(1,4) set show ?thesis unfolding link_ok_def set by blast
qed

lemma between_sym: "between a b = between b a"
  unfolding between_def by (rule ext) (rule disj_commute)

lemma normalizeLinkPair_between:
  assumes "normalizeLinkPair a b bi = (x, y)"
  shows "between x y = between a b \<and> (x = a \<and> y = b \<or> bi \<and> x = b \<and> y = a)"
proof (cases "bi \<and> a > b")
  case True
  with assms have "x = b" "y = a" by (simp_all add: normalizeLinkPair_def)
  with True between_sym [of b a] show ?thesis by blast
next
  case False
  with assms have "x = a" "y = b" by (auto simp: normalizeLinkPair_def)
  then show ?thesis by blast
qed

lemma UpsertGroupLink_triple:
  assumes ok: "sql_ok exec" and ne: "a \<noteq> b"
  shows "hoare (\<lambda>db. db = db0 \<and> uniq_ok db \<and> link_ok db) (UpsertGroupLink exec a b bi)
    (\<lambda>_ db. uniq_ok db \<and> link_ok db \<and>
       (\<exists>l. db = filter (\<lambda>r. table_of r = TLink \<longrightarrow> \<not> on_link (between a b) r) db0 @ [RLink l] \<and> l_Bidirectional l = bi \<and>
          (l_From l = a \<and> l_To l = b \<or> bi \<and> l_From l = b \<and> l_To l = a)))
    (\<lambda>db. db = db0)"
proof -
  obtain x y where xy: "normalizeLinkPair a b bi = (x, y)" by (cases "normalizeLinkPair a b bi")
  note bt = normalizeLinkPair_between [OF xy]
  let ?del = "filter (\<lambda>r. table_of r = TLink \<longrightarrow> \<not> on_link (between a b) r) db0"
  let ?row = "\<lparr>l_ID = 0, l_From = x, l_To = y, l_Bidirectional = bi\<rparr>"
  have "hoare (\<lambda>db. db = db1)
     (andthen (deleteLinksBetween exec x y) (\<lambda>_. exec_stmt exec (Insert (RLink ?row))))
     (\<lambda>_ db. uniq_ok db \<and> (\<exists>i. db = ?del @ [RLink (?row\<lparr>l_ID := i\<rparr>)])) (\<lambda>_. True)"
    if "db1 = db0 \<and> uniq_ok db1 \<and> link_ok db1" for db1
  proof (rule hoare_andthen)
    show "hoare (\<lambda>db. db = db1) (deleteLinksBetween exec x y) (\<lambda>_ db. uniq_ok db \<and> db = ?del) (\<lambda>_. True)"
      unfolding deleteLinksBetween_def using that bt by (intro hoare_stmt [OF ok]) auto
    show "hoare (\<lambda>db. uniq_ok db \<and> db = ?del) (exec_stmt exec (Insert (RLink ?row)))
       (\<lambda>_ db. uniq_ok db \<and> (\<exists>i. db = ?del @ [RLink (?row\<lparr>l_ID := i\<rparr>)])) (\<lambda>_. True)"
      by (intro hoare_stmt [OF ok]) (auto simp: Let_def)
  qed
  then have "hoare (\<lambda>db. db = db0 \<and> uniq_ok db \<and> link_ok db) (UpsertGroupLink exec a b bi)
    (\<lambda>_ db. uniq_ok db \<and> link_ok db0 \<and> (\<exists>i. db = ?del @ [RLink (?row\<lparr>l_ID := i\<rparr>)])) (\<lambda>db. db = db0)"
    unfolding UpsertGroupLink_def xy Let_def prod.case if_not_P [OF ne]
    by (intro hoare_transaction) (auto intro: hoare_weaken)
  then show ?thesis
  proof (rule hoare_weaken)
    fix db assume "uniq_ok db \<and> link_ok db0 \<and> (\<exists>i. db = ?del @ [RLink (?row\<lparr>l_ID := i\<rparr>)])"
    then obtain i where u: "uniq_ok db" and l0: "link_ok db0" and db: "db = ?del @ [RLink (?row\<lparr>l_ID := i\<rparr>)]"
      by blast
    have links: "t_links db = filter (\<lambda>m. \<not> between a b m) (t_links db0) @ [?row\<lparr>l_ID := i\<rparr>]"
      by (simp add: db tables_Cons)
    have "edge (?row\<lparr>l_ID := i\<rparr>) = {a, b}" "x \<noteq> y"
      using bt ne by (auto simp: edge_def)
    with link_ok_replace [OF l0 links] have "link_ok db" by simp
    with u db bt show "uniq_ok db \<and> link_ok db \<and>
       (\<exists>l. db = filter (\<lambda>r. table_of r = TLink \<longrightarrow> \<not> on_link (between a b) r) db0 @ [RLink l] \<and> l_Bidirectional l = bi \<and>
          (l_From l = a \<and> l_To l = b \<or> bi \<and> l_From l = b \<and> l_To l = a))" by auto
  qed auto
qed

section \<open>Addresses\<close>

text \<open>The state a read-only program runs in: a fixed database that satisfies the indexes.\<close>

abbreviation at :: "db \<Rightarrow> db \<Rightarrow> bool" where
  "at db0 db \<equiv> db = db0 \<and> uniq_ok db"

lemma find_rows_at:
  "sql_ok exec \<Longrightarrow> hoare (at db0) (find_rows exec t)
     (\<lambda>rows db. at db0 db \<and> set rows = {r \<in> set db0. table_of r = t}) (at db0)"
  unfolding find_rows_def by (intro hoare_run) (auto dest!: set_select)

lemma find_tables:
  assumes "set rows = {r \<in> set db. table_of r = t}"
  shows "t = TPeer \<Longrightarrow> set (t_peers rows) = set (t_peers db)"
    and "t = TMap \<Longrightarrow> set (t_maps rows) = set (t_maps db)"
    and "t = TDNS \<Longrightarrow> set (t_dns_records rows) = set (t_dns_records db)"
    and "t = TLink \<Longrightarrow> set (t_links rows) = set (t_links db)"
    and "t = TGroup \<Longrightarrow> set (t_groups rows) = set (t_groups db)"
    and "t = TForward \<Longrightarrow> set (t_forwards rows) = set (t_forwards db)"
  using assms by (auto simp: set_eq_iff set_tables)

definition used_ips :: "string \<Rightarrow> string \<Rightarrow> db \<Rightarrow> string set" where
  "used_ips hubIP dnsIP db = {ip \<in> {hubIP, dnsIP}. ip \<noteq> []} \<union> p_WGIP ` set (t_peers db) \<union>
     m_VirtualIP ` set (t_maps db) \<union> d_IP ` set (t_dns_records db)"

text \<open>A program that only reads: what it returned is a plain fact for the rest.\<close>

lemma hoare_pure: "(A \<Longrightarrow> hoare P m Q E) \<Longrightarrow> hoare (\<lambda>db. P db \<and> A) m Q E"
  unfolding hoare_def by blast

lemma hoare_read:
  assumes "hoare P m (\<lambda>x db. P db \<and> A x) E" and "\<And>x. A x \<Longrightarrow> hoare P (f x) Q E"
  shows "hoare P (andthen m f) Q E"
  by (rule hoare_andthen [OF assms(1)], rule hoare_pure, rule assms(2))

lemma hoare_lift_read:
  assumes "\<And>x. r = Inr x \<Longrightarrow> hoare P (f x) Q E" and "\<And>db. P db \<Longrightarrow> E db"
  shows "hoare P (andthen (lift_res r) f) Q E"
  by (rule hoare_read [where A = "\<lambda>x. r = Inr x"]) (use assms in \<open>auto intro!: hoare_lift\<close>)

lemma collectUsed_at:
  assumes "sql_ok exec"
  shows "hoare (at db0) (collectUsedSubnetIPs exec hubIP dnsIP)
     (\<lambda>used db. at db0 db \<and> set used = used_ips hubIP dnsIP db0) (at db0)"
  unfolding collectUsedSubnetIPs_def Let_def
proof (rule hoare_read [OF find_rows_at [OF assms]], rule hoare_read [OF find_rows_at [OF assms]],
    rule hoare_read [OF find_rows_at [OF assms]], rule hoare_ret)
  fix r1 r2 r3 db
  assume r: "set r1 = {r \<in> set db0. table_of r = TPeer}" "set r2 = {r \<in> set db0. table_of r = TMap}"
    "set r3 = {r \<in> set db0. table_of r = TDNS}" and db: "at db0 db"
  show "at db0 db \<and> set (fold List.insert (map d_IP (t_dns_records r3)) (fold List.insert (map m_VirtualIP (t_maps r2))
     (fold List.insert (map p_WGIP (t_peers r1)) (if dnsIP \<noteq> [] then List.insert dnsIP (if hubIP \<noteq> [] then [hubIP] else [])
       else if hubIP \<noteq> [] then [hubIP] else [])))) = used_ips hubIP dnsIP db0"
    using db find_tables [OF r(1)] find_tables [OF r(2)] find_tables [OF r(3)]
    by (auto simp: set_fold_insert used_ips_def)
qed

definition ip_ok :: "db \<Rightarrow> bool" where
  "ip_ok db = ((\<forall>p \<in> set (t_peers db). \<forall>m \<in> set (t_maps db). p_WGIP p \<noteq> m_VirtualIP m) \<and>
     (\<forall>s \<in> set (t_settings db). \<forall>ip \<in> {se_HubIP s, se_DNSIP s}.
        ip \<notin> p_WGIP ` set (t_peers db) \<and> ip \<notin> m_VirtualIP ` set (t_maps db)))"

lemma create_at:
  assumes "sql_ok exec" "gorm_defaults r = r'"
  shows "hoare (at db0) (create exec r)
     (\<lambda>x db. uniq_ok db \<and> db = db0 @ [x] \<and> (\<exists>i. i \<noteq> 0 \<and> x = (if fst (key_of r') = 0 then set_id i r' else r'))) (at db0)"
  unfolding create_def assms(2)
proof (rule hoare_andthen)
  show "hoare (at db0) (run exec (Insert r'))
     (\<lambda>rows db. uniq_ok db \<and> (\<exists>x. rows = [x] \<and> db = db0 @ [x] \<and>
        (\<exists>i. i \<noteq> 0 \<and> x = (if fst (key_of r') = 0 then set_id i r' else r')))) (at db0)"
    by (intro hoare_run [OF assms(1)]) (auto simp: Let_def)
qed (auto split: list.splits intro!: hoare_ret hoare_fail)

text \<open>The hub addresses the caller passes are those of the settings row.\<close>

definition hub_known :: "db \<Rightarrow> string \<Rightarrow> string \<Rightarrow> bool" where
  "hub_known db hubIP dnsIP = (\<forall>s \<in> set (t_settings db). se_HubIP s = hubIP \<and> se_DNSIP s = dnsIP \<and> hubIP \<noteq> [] \<and> dnsIP \<noteq> [])"

lemma ip_ok_add_peer:
  assumes "ip_ok db0" "hub_known db0 hubIP dnsIP" "p_WGIP p \<notin> used_ips hubIP dnsIP db0"
    "t_peers db = t_peers db0 @ [p]" "t_maps db = t_maps db0" "t_settings db = t_settings db0"
  shows "ip_ok db"
  using assms unfolding ip_ok_def hub_known_def used_ips_def by auto

lemma ip_ok_add_map:
  assumes "ip_ok db0" "hub_known db0 hubIP dnsIP" "m_VirtualIP m \<notin> used_ips hubIP dnsIP db0"
    "t_maps db = t_maps db0 @ [m]" "t_peers db = t_peers db0" "t_settings db = t_settings db0"
  shows "ip_ok db"
  using assms unfolding ip_ok_def hub_known_def used_ips_def by (auto simp: image_iff)

lemma rename_unavailable_Inr [simp]: "rename_unavailable e r = Inr x \<longleftrightarrow> r = Inr x"
  by (auto simp: rename_unavailable_def split: sum.splits)

abbreviation peer_added :: "Peer \<Rightarrow> string \<Rightarrow> string \<Rightarrow> db \<Rightarrow> Peer \<Rightarrow> db \<Rightarrow> bool" where
  "peer_added peer hubIP dnsIP db0 p db \<equiv>
     uniq_ok db \<and> ip_ok db \<and> p_Name p = p_Name peer \<and> p_GroupID p = p_GroupID peer \<and>
     p_WGIP p \<notin> used_ips hubIP dnsIP db0 \<and>
     (\<exists>d. db = db0 @ [RPeer p, RDNS d] \<and> d_IP d = p_WGIP p \<and> d_PeerID d = Some (p_ID p))"

abbreviation peer_record :: "Peer \<Rightarrow> DNSRecord" where
  "peer_record p \<equiv> \<lparr>d_ID = 0, d_Hostname = if p_DNSName p = [] then p_Name p else p_DNSName p,
     d_IP = p_WGIP p, d_PeerID = Some (p_ID p), d_Manual = False\<rparr>"

lemma peer_record_triple:
  assumes ok: "sql_ok exec" and ip: "ip_ok db0" and hub: "hub_known db0 hubIP dnsIP"
    and fresh: "p_WGIP p \<notin> used_ips hubIP dnsIP db0" and db2: "at (db0 @ [RPeer p]) db2"
    and same: "p_Name p = p_Name peer" "p_GroupID p = p_GroupID peer"
  shows "hoare (\<lambda>db. db = db2) (andthen (create exec (RDNS (peer_record p))) (\<lambda>_. ret p))
    (peer_added peer hubIP dnsIP db0) (\<lambda>_. True)"
proof (rule hoare_andthen)
  let ?d = "peer_record p"
  let ?M = "\<lambda>db. uniq_ok db \<and> (\<exists>j. db = db0 @ [RPeer p, RDNS (?d\<lparr>d_ID := j\<rparr>)])"
  show "hoare (\<lambda>db. db = db2) (create exec (RDNS ?d)) (\<lambda>_. ?M) (\<lambda>_. True)"
    using db2 by (intro hoare_weaken [OF create_at [OF ok refl, of db2]]) auto
  show "hoare ?M (ret p) (peer_added peer hubIP dnsIP db0) (\<lambda>_. True)"
  proof (rule hoare_ret, elim conjE exE)
    fix db j assume u: "uniq_ok db" and db: "db = db0 @ [RPeer p, RDNS (?d\<lparr>d_ID := j\<rparr>)]"
    have t: "t_peers db = t_peers db0 @ [p]" "t_maps db = t_maps db0" "t_settings db = t_settings db0"
      "t_dns_records db = t_dns_records db0 @ [?d\<lparr>d_ID := j\<rparr>]"
      by (simp_all add: db tables_Cons)
    from ip_ok_add_peer [OF ip hub fresh t(1-3)] u db fresh same show "peer_added peer hubIP dnsIP db0 p db"
      by (intro conjI exI [of _ "?d\<lparr>d_ID := j\<rparr>"]) simp_all
  qed
qed

lemma CreatePeer_triple:
  assumes ok: "sql_ok exec" and ip: "ip_ok db0" and hub: "hub_known db0 hubIP dnsIP" and new: "p_ID peer = 0"
  shows "hoare (at db0) (CreatePeerWithAllocatedIP exec peer subnet hubIP dnsIP)
    (peer_added peer hubIP dnsIP db0) (at db0)"
  unfolding CreatePeerWithAllocatedIP_def
proof (rule hoare_read [OF collectUsed_at [OF ok]], rule hoare_lift_read)
  fix used ip assume used: "set used = used_ips hubIP dnsIP db0"
    and "rename_unavailable ErrIPAllocationUnavailable (nextFreeHostInSubnet subnet used) = Inr ip"
  then have fresh: "ip \<notin> used_ips hubIP dnsIP db0" using pool.fresh by auto
  let ?new = "\<lambda>i. peer\<lparr>p_WGIP := ip, p_Enabled := True, p_ID := i\<rparr>"
  show "hoare (at db0) (let peer = peer\<lparr>p_WGIP := ip\<rparr> in transaction (
       andthen (create exec (RPeer peer)) (\<lambda>r. case r of RPeer peer \<Rightarrow>
         let hostname = (if p_DNSName peer = [] then p_Name peer else p_DNSName peer) in
         andthen (create exec (RDNS \<lparr>d_ID = 0, d_Hostname = hostname, d_IP = p_WGIP peer,
                   d_PeerID = Some (p_ID peer), d_Manual = False\<rparr>)) (\<lambda>_. ret peer)
       | _ \<Rightarrow> fail ErrRecordNotFound))) (peer_added peer hubIP dnsIP db0) (at db0)"
    unfolding Let_def
  proof (rule hoare_transaction, rule hoare_andthen)
    fix db1 assume db1: "at db0 db1"
    show "hoare (\<lambda>db. db = db1) (create exec (RPeer (peer\<lparr>p_WGIP := ip\<rparr>)))
       (\<lambda>r db. \<exists>i. at (db0 @ [r]) db \<and> r = RPeer (?new i)) (\<lambda>_. True)"
      using new db1 by (intro hoare_weaken [OF create_at [OF ok refl, of db0]]) auto
  next
    fix db1 r
    show "hoare (\<lambda>db. \<exists>i. at (db0 @ [r]) db \<and> r = RPeer (?new i))
      (case r of RPeer peer \<Rightarrow> andthen (create exec (RDNS (peer_record peer))) (\<lambda>_. ret peer)
       | _ \<Rightarrow> fail ErrRecordNotFound) (peer_added peer hubIP dnsIP db0) (\<lambda>_. True)"
    proof (rule hoare_assume, elim exE conjE)
      fix db2 i assume r: "r = RPeer (?new i)" and db2: "db2 = db0 @ [r]" "uniq_ok db2"
      have "hoare (\<lambda>db. db = db2) (andthen (create exec (RDNS (peer_record (?new i)))) (\<lambda>_. ret (?new i)))
        (peer_added peer hubIP dnsIP db0) (\<lambda>_. True)"
        by (rule peer_record_triple [OF ok ip hub]) (use fresh db2 r in simp_all)
      then show "hoare (\<lambda>db. db = db2) (case r of RPeer peer \<Rightarrow> andthen (create exec (RDNS (peer_record peer))) (\<lambda>_. ret peer)
        | _ \<Rightarrow> fail ErrRecordNotFound) (peer_added peer hubIP dnsIP db0) (\<lambda>_. True)" unfolding r row.case .
    qed
  qed
qed

section \<open>Service maps\<close>

definition allow_rows :: "nat \<Rightarrow> nat \<Rightarrow> nat list \<Rightarrow> MapGroupAllow list" where
  "allow_rows mapID k gids = map (\<lambda>(pos, gid). \<lparr>a_MapID = mapID, a_GroupID = gid, a_Position = int pos\<rparr>) (enumerate k gids)"

lemma insert_allows_aux:
  assumes "sql_ok exec"
  shows "hoare (at d) (for_each (enumerate k gids) (\<lambda>(position, gid).
       exec_stmt exec (Insert (RAllow \<lparr>a_MapID = mapID, a_GroupID = gid, a_Position = int position\<rparr>))))
     (\<lambda>_. at (d @ map RAllow (allow_rows mapID k gids))) (\<lambda>_. True)"
proof (induction gids arbitrary: d k)
  case Nil
  then show ?case by (simp add: allow_rows_def hoare_ret)
next
  case (Cons g gids)
  let ?a = "\<lparr>a_MapID = mapID, a_GroupID = g, a_Position = int k\<rparr>"
  have "hoare (at d) (exec_stmt exec (Insert (RAllow ?a))) (\<lambda>_. at (d @ [RAllow ?a])) (\<lambda>_. True)"
    by (intro hoare_stmt [OF assms]) (auto simp: Let_def)
  with Cons.IH [of "d @ [RAllow ?a]" "Suc k"] show ?case
    by (auto simp: allow_rows_def intro: hoare_andthen)
qed

lemma insert_allows_at:
  "sql_ok exec \<Longrightarrow> hoare (at d) (insert_allows exec mapID gids)
     (\<lambda>_. at (d @ map RAllow (allow_rows mapID 0 gids))) (\<lambda>_. True)"
  unfolding insert_allows_def by (rule insert_allows_aux)

lemma t_allows_map [simp]:
  "t_allows (map RAllow xs) = xs" "t_maps (map RAllow xs) = []" "t_peers (map RAllow xs) = []"
  "t_settings (map RAllow xs) = []" "t_links (map RAllow xs) = []"
  by (induction xs) (auto simp: tables_Cons)

lemma allow_rows_sorted:
  "map a_GroupID (allow_rows i k gids) = gids" "map a_Position (allow_rows i k gids) = map int [k..<k + length gids]"
  "a \<in> set (allow_rows i k gids) \<Longrightarrow> a_MapID a = i"
proof -
  show "map a_GroupID (allow_rows i k gids) = gids" "map a_Position (allow_rows i k gids) = map int [k..<k + length gids]"
    by (induction gids arbitrary: k) (auto simp: allow_rows_def upt_rec)
  show "a \<in> set (allow_rows i k gids) \<Longrightarrow> a_MapID a = i" by (auto simp: allow_rows_def)
qed

lemma sort_allow_rows:
  assumes "mset xs = mset (allow_rows i 0 gids)"
  shows "map a_GroupID (sort_key a_Position (sort_key a_GroupID xs)) = gids"
proof -
  have "distinct (map a_Position (allow_rows i 0 gids))"
    unfolding allow_rows_sorted by (simp add: distinct_map)
  then have "inj_on a_Position (set (allow_rows i 0 gids))" by (simp add: distinct_map)
  moreover have "set (sort_key a_GroupID xs) = set (allow_rows i 0 gids)"
    using assms by (metis mset_eq_setD mset_sort)
  moreover have "sorted (map a_Position (allow_rows i 0 gids))"
    unfolding allow_rows_sorted by (simp add: sorted_map sorted_wrt_iff_nth_less)
  ultimately have "sort_key a_Position (sort_key a_GroupID xs) = allow_rows i 0 gids"
    using assms by (intro sort_key_inj_key_eq) auto
  then show ?thesis by (simp add: allow_rows_sorted)
qed

lemma first_map_at:
  assumes "sql_ok exec"
  shows "hoare (at db0) (first_map exec P) (\<lambda>m db. at db0 db \<and> (m \<in> set (t_maps db0) \<and> P m)) (at db0)"
  unfolding first_map_def
  by (rule hoare_andthen [OF hoare_first [OF assms, where Q = "\<lambda>r db. at db0 db \<and> (\<exists>m. r = RMap m \<and> m \<in> set (t_maps db0) \<and> P m)"]])
    (auto simp: set_tables elim!: on_map.elims(2) intro!: hoare_ret hoare_fail split: row.splits)

lemma t_allows_perm: "mset xs = mset ys \<Longrightarrow> mset (t_allows xs) = mset (t_allows ys)"
proof -
  have "mset (t_allows zs) = image_mset (\<lambda>r. case r of RAllow x \<Rightarrow> x | _ \<Rightarrow> undefined)
      (filter_mset (\<lambda>r. table_of r = TAllow) (mset zs))" for zs
    by (induction zs) (auto simp: tables_Cons split: row.splits)
  then show "mset xs = mset ys \<Longrightarrow> mset (t_allows xs) = mset (t_allows ys)" by simp
qed

lemma t_allows_filter: "t_allows (filter (\<lambda>r. table_of r = TAllow \<and> on_allow P r) db) = filter P (t_allows db)"
  by (induction db) (auto simp: tables_Cons split: row.splits)

lemma ListMapGroupIDs_at:
  assumes "sql_ok exec" and "filter (\<lambda>a. a_MapID a = i) (t_allows db0) = allow_rows i 0 gids"
  shows "hoare (at db0) (ListMapGroupIDs exec i) (\<lambda>x db. at db0 db \<and> x = gids) (at db0)"
  unfolding ListMapGroupIDs_def
proof (rule hoare_read)
  show "hoare (at db0) (run exec (Select TAllow (on_allow (\<lambda>a. a_MapID a = i))))
     (\<lambda>rows db. at db0 db \<and> mset (t_allows rows) = mset (allow_rows i 0 gids)) (at db0)"
  proof (intro hoare_run [OF assms(1)])
    fix db db' rows assume "at db0 db" "uniq_ok db'" "sem (Select TAllow (on_allow (\<lambda>a. a_MapID a = i))) db db' rows"
    then have "at db0 db'" "mset rows = mset (filter (\<lambda>r. table_of r = TAllow \<and> on_allow (\<lambda>a. a_MapID a = i) r) db0)"
      by auto
    with t_allows_perm [OF this(2)] assms(2)
    show "at db0 db' \<and> mset (t_allows rows) = mset (allow_rows i 0 gids)" by (auto simp: t_allows_filter)
  qed auto
next
  fix rows assume "mset (t_allows rows) = mset (allow_rows i 0 gids)"
  from sort_allow_rows [OF this]
  show "hoare (at db0) (ret (map a_GroupID (sort_key a_Position (sort_key a_GroupID (t_allows rows)))))
     (\<lambda>x db. at db0 db \<and> x = gids) (at db0)" by (auto intro!: hoare_ret)
qed

text \<open>Allow rows only name maps that exist.\<close>

definition refs_ok :: "db \<Rightarrow> bool" where
  "refs_ok db = (a_MapID ` set (t_allows db) \<subseteq> m_ID ` set (t_maps db))"

lemma uniq_maps: "uniq_ok db \<Longrightarrow> distinct (map m_ID (t_maps db))"
proof -
  assume u: "uniq_ok db"
  have "distinct (map (\<lambda>r. (table_of r, key_of r)) db) \<Longrightarrow> distinct (map m_ID (t_maps db))" for db
  proof (induction db)
    case (Cons r db)
    have "m_ID x \<notin> m_ID ` set (t_maps db)" if "r = RMap x" for x
      using Cons.prems that by (force simp: set_tables)
    with Cons show ?case by (auto simp: tables_Cons split: row.splits)
  qed simp
  with u show ?thesis by (simp add: uniq_ok_def)
qed

lemma GetMapDetail_at:
  assumes "sql_ok exec" and "m \<in> set (t_maps db0)" and "filter (\<lambda>a. a_MapID a = m_ID m) (t_allows db0) = allow_rows (m_ID m) 0 gids"
  shows "hoare (at db0) (GetMapDetail exec (m_ID m))
     (\<lambda>d db. at db0 db \<and> d = \<lparr>mdt_Map = m, mdt_TargetDisplay = m_TargetHost m, mdt_AllowedGroups = gids\<rparr>) (at db0)"
  unfolding GetMapDetail_def GetServiceMap_def
proof (rule hoare_assume, rule hoare_weaken [where P = "at db0"])
  fix db1 assume db1: "at db0 db1"
  show "hoare (at db0) (andthen (first_map exec (\<lambda>x. m_ID x = m_ID m)) (\<lambda>entry. andthen (ListMapGroupIDs exec (m_ID m)) (\<lambda>gids.
     ret \<lparr>mdt_Map = entry, mdt_TargetDisplay = m_TargetHost entry, mdt_AllowedGroups = gids\<rparr>)))
     (\<lambda>d db. at db0 db \<and> d = \<lparr>mdt_Map = m, mdt_TargetDisplay = m_TargetHost m, mdt_AllowedGroups = gids\<rparr>) (at db0)"
  proof (rule hoare_read [OF first_map_at [OF assms(1)]], rule hoare_read [OF ListMapGroupIDs_at [OF assms(1,3)]], rule hoare_ret)
    fix x g db assume x: "x \<in> set (t_maps db0) \<and> m_ID x = m_ID m" and g: "g = gids" and db: "at db0 db"
    have "x = m" using x assms(2) uniq_maps [of db0] db by (auto simp: distinct_map dest: inj_onD)
    with g db show "at db0 db \<and> \<lparr>mdt_Map = x, mdt_TargetDisplay = m_TargetHost x, mdt_AllowedGroups = g\<rparr> =
        \<lparr>mdt_Map = m, mdt_TargetDisplay = m_TargetHost m, mdt_AllowedGroups = gids\<rparr>" by auto
  qed
qed auto

lemma count_at:
  "sql_ok exec \<Longrightarrow> hoare (at db0) (count_rows exec t W)
     (\<lambda>n db. at db0 db \<and> n = length (filter (\<lambda>r. table_of r = t \<and> W r) db0)) (at db0)"
  by (rule hoare_count) auto

lemma first_settings_at:
  assumes "sql_ok exec"
  shows "hoare (at db0) (GetSettings exec) (\<lambda>s db. at db0 db \<and> s \<in> set (t_settings db0)) (at db0)"
  unfolding GetSettings_def first_settings_def
  by (rule hoare_andthen [OF hoare_first [OF assms, where Q = "\<lambda>r db. at db0 db \<and> (table_of r = TSettings \<and> r \<in> set db0)"]])
    (auto simp: set_tables intro!: hoare_ret hoare_fail split: row.splits)

lemma AllocateMapIP_at:
  assumes "sql_ok exec"
  shows "hoare (at db0) (AllocateMapIP exec subnet hubIP dnsIP) (\<lambda>ip db. at db0 db \<and> ip \<notin> used_ips hubIP dnsIP db0) (at db0)"
  unfolding AllocateMapIP_def allocateSubnetIP_def
proof (rule hoare_read)
  show "hoare (at db0) (attempt (andthen (collectUsedSubnetIPs exec hubIP dnsIP) (\<lambda>used. lift_res (nextFreeHostInSubnet subnet used))))
    (\<lambda>r db. at db0 db \<and> (case r of Inl _ \<Rightarrow> True | Inr ip \<Rightarrow> ip \<notin> used_ips hubIP dnsIP db0)) (at db0)"
  proof (rule hoare_attempt, rule hoare_read [OF hoare_weaken [OF collectUsed_at [OF assms]]])
    fix used assume "set used = used_ips hubIP dnsIP db0"
    then show "hoare (at db0) (lift_res (nextFreeHostInSubnet subnet used))
       (\<lambda>x db. at db0 db \<and> (case Inr x of Inl _ \<Rightarrow> True | Inr ip \<Rightarrow> ip \<notin> used_ips hubIP dnsIP db0))
       (\<lambda>db. \<forall>e. at db0 db \<and> (case Inl e of Inl _ \<Rightarrow> True | Inr ip \<Rightarrow> ip \<notin> used_ips hubIP dnsIP db0))"
      by (intro hoare_lift) (auto dest: pool.fresh)
  qed auto
qed (auto intro!: hoare_lift)

lemma attempt_create_at:
  assumes "sql_ok exec" "gorm_defaults r = r'" "fst (key_of r') = 0"
  shows "hoare (at db0) (andthen (attempt (create exec r)) (\<lambda>x. lift_res (unique_as e x)))
     (\<lambda>x db. \<exists>i. i \<noteq> 0 \<and> x = set_id i r' \<and> at (db0 @ [x]) db) (\<lambda>_. True)"
proof (rule hoare_andthen)
  show "hoare (at db0) (attempt (create exec r))
     (\<lambda>x db. case x of Inl _ \<Rightarrow> True | Inr y \<Rightarrow> \<exists>i. i \<noteq> 0 \<and> y = set_id i r' \<and> at (db0 @ [y]) db) (\<lambda>_. True)"
    by (rule hoare_attempt, rule hoare_weaken [OF create_at [OF assms(1,2)]]) (auto simp: assms(3))
qed (auto simp: unique_as_def split: sum.splits intro!: hoare_lift)

lemma ex_on:
  "(\<exists>r \<in> set db. table_of r = TPeer \<and> on_peer P r) \<longleftrightarrow> (\<exists>p \<in> set (t_peers db). P p)"
  "(\<exists>r \<in> set db. table_of r = TForward \<and> on_forward F r) \<longleftrightarrow> (\<exists>f \<in> set (t_forwards db). F f)"
  "(\<exists>r \<in> set db. table_of r = TGroup \<and> on_group G r) \<longleftrightarrow> (\<exists>g \<in> set (t_groups db). G g)"
  "(\<exists>r \<in> set db. table_of r = TAdmin) \<longleftrightarrow> t_admins db \<noteq> []"
  "(\<exists>r \<in> set db. table_of r = TSettings) \<longleftrightarrow> t_settings db \<noteq> []"
  by (induction db; force simp: tables_Cons split: row.splits)+

lemma MapSlugConflictsPeer_at:
  assumes "sql_ok exec"
  shows "hoare (at db0) (MapSlugConflictsPeer exec slug)
     (\<lambda>c db. at db0 db \<and> (c \<longleftrightarrow> (\<exists>p \<in> set (t_peers db0). p_DNSName p = slug \<or> p_Name p = slug))) (at db0)"
  unfolding MapSlugConflictsPeer_def
proof (rule hoare_read [OF count_at [OF assms]], rule hoare_ret)
  fix n db assume n: "n = length (filter (\<lambda>r. table_of r = TPeer \<and> on_peer (\<lambda>p. p_DNSName p = slug \<or> p_Name p = slug) r) db0)"
    and db: "at db0 db"
  have "0 < n \<longleftrightarrow> (\<exists>r \<in> set db0. table_of r = TPeer \<and> on_peer (\<lambda>p. p_DNSName p = slug \<or> p_Name p = slug) r)"
    by (auto simp: n filter_empty_conv)
  also have "\<dots> \<longleftrightarrow> (\<exists>p \<in> set (t_peers db0). p_DNSName p = slug \<or> p_Name p = slug)"
    by (rule ex_on)
  finally show "at db0 db \<and> (0 < n \<longleftrightarrow> (\<exists>p \<in> set (t_peers db0). p_DNSName p = slug \<or> p_Name p = slug))"
    using db by blast
qed

lemma normalizeMapInput_Inr:
  "normalizeMapInput inp = Inr (entry, gids) \<Longrightarrow> m_ID entry = 0 \<and> gids = mi_AllowedGroups inp \<and>
     valid_label (m_Slug entry) \<and> gids \<noteq> [] \<and> 0 \<notin> set gids"
  by (auto simp: normalizeMapInput_def res_bind_eq_Inr Let_def ValidateMapSlug_eq ValidateMapGroupIDs_iff
      split: if_splits dest!: ValidateHostname_sound)

text \<open>The transaction of \<^verbatim>\<open>CreateServiceMap\<close>.\<close>

definition create_map_tx :: "sql \<Rightarrow> ServiceMap \<Rightarrow> nat list \<Rightarrow> nat prog" where
  "create_map_tx exec entry groupIDs = transaction (
       andthen (attempt (create exec (RMap entry))) (\<lambda>r.
       andthen (lift_res (unique_as ErrMapSlugConflict r)) (\<lambda>r.
       andthen (insert_allows exec (fst (key_of r)) groupIDs) (\<lambda>_.
       ret (fst (key_of r))))))"

lemma create_map_tx_at:
  assumes "sql_ok exec" "m_ID entry = 0"
  shows "hoare (at db0) (create_map_tx exec entry gids)
    (\<lambda>i db. i \<noteq> 0 \<and> at (db0 @ [RMap (entry\<lparr>m_ID := i\<rparr>)] @ map RAllow (allow_rows i 0 gids)) db) (at db0)"
  unfolding create_map_tx_def
proof (rule hoare_transaction)
  fix db1 assume db1: "at db0 db1"
  have assoc: "andthen (attempt (create exec (RMap entry))) (\<lambda>r.
       andthen (lift_res (unique_as ErrMapSlugConflict r)) (\<lambda>r.
       andthen (insert_allows exec (fst (key_of r)) gids) (\<lambda>_. ret (fst (key_of r))))) =
     andthen (andthen (attempt (create exec (RMap entry))) (\<lambda>r. lift_res (unique_as ErrMapSlugConflict r))) (\<lambda>r.
       andthen (insert_allows exec (fst (key_of r)) gids) (\<lambda>_. ret (fst (key_of r))))"
    by (auto simp: andthen_def fun_eq_iff split: prod.splits sum.splits)
  show "hoare (\<lambda>db. db = db1) (andthen (attempt (create exec (RMap entry))) (\<lambda>r.
       andthen (lift_res (unique_as ErrMapSlugConflict r)) (\<lambda>r.
       andthen (insert_allows exec (fst (key_of r)) gids) (\<lambda>_. ret (fst (key_of r))))))
    (\<lambda>i db. i \<noteq> 0 \<and> at (db0 @ [RMap (entry\<lparr>m_ID := i\<rparr>)] @ map RAllow (allow_rows i 0 gids)) db) (\<lambda>_. True)"
    unfolding assoc
  proof (rule hoare_andthen)
    show "hoare (\<lambda>db. db = db1) (andthen (attempt (create exec (RMap entry))) (\<lambda>r. lift_res (unique_as ErrMapSlugConflict r)))
       (\<lambda>x db. \<exists>i. i \<noteq> 0 \<and> x = RMap (entry\<lparr>m_ID := i\<rparr>) \<and> at (db0 @ [x]) db) (\<lambda>_. True)"
      by (rule hoare_weaken [OF attempt_create_at [OF assms(1) refl]]) (use assms(2) db1 in auto)
  next
    fix r
    show "hoare (\<lambda>db. \<exists>i. i \<noteq> 0 \<and> r = RMap (entry\<lparr>m_ID := i\<rparr>) \<and> at (db0 @ [r]) db)
       (andthen (insert_allows exec (fst (key_of r)) gids) (\<lambda>_. ret (fst (key_of r))))
       (\<lambda>i db. i \<noteq> 0 \<and> at (db0 @ [RMap (entry\<lparr>m_ID := i\<rparr>)] @ map RAllow (allow_rows i 0 gids)) db) (\<lambda>_. True)"
    proof (rule hoare_assume, elim exE conjE)
      fix db2 i assume i: "i \<noteq> 0" and r: "r = RMap (entry\<lparr>m_ID := i\<rparr>)" and db2: "db2 = db0 @ [r]" "uniq_ok db2"
      show "hoare (\<lambda>db. db = db2) (andthen (insert_allows exec (fst (key_of r)) gids) (\<lambda>_. ret (fst (key_of r))))
       (\<lambda>i db. i \<noteq> 0 \<and> at (db0 @ [RMap (entry\<lparr>m_ID := i\<rparr>)] @ map RAllow (allow_rows i 0 gids)) db) (\<lambda>_. True)"
      proof (rule hoare_andthen)
        show "hoare (\<lambda>db. db = db2) (insert_allows exec (fst (key_of r)) gids)
           (\<lambda>_. at (db2 @ map RAllow (allow_rows i 0 gids))) (\<lambda>_. True)"
          by (rule hoare_weaken [OF insert_allows_at [OF assms(1)]]) (use db2(2) in \<open>simp_all add: r\<close>)
      qed (use i r db2(1) in \<open>auto intro!: hoare_ret\<close>)
    qed
  qed
qed auto

definition map_added :: "MapInput \<Rightarrow> db \<Rightarrow> ServiceMap \<Rightarrow> db \<Rightarrow> bool" where
  "map_added inp db0 m db = (t_settings db0 \<noteq> [] \<and> db = db0 @ [RMap m] @ map RAllow (allow_rows (m_ID m) 0 (mi_AllowedGroups inp)))"

abbreviation map_post :: "MapInput \<Rightarrow> db \<Rightarrow> MapDetail \<Rightarrow> db \<Rightarrow> bool" where
  "map_post inp db0 d db \<equiv> uniq_ok db \<and> ip_ok db \<and> refs_ok db \<and> map_added inp db0 (mdt_Map d) db \<and>
     mdt_AllowedGroups d = mi_AllowedGroups inp \<and> valid_label (m_Slug (mdt_Map d))"

abbreviation map_err :: "MapInput \<Rightarrow> db \<Rightarrow> db \<Rightarrow> bool" where
  "map_err inp db0 db \<equiv> uniq_ok db \<and> ip_ok db \<and> refs_ok db \<and> (db = db0 \<or> (\<exists>m. map_added inp db0 m db))"

lemma allow_rows_found:
  assumes u: "uniq_ok (db0 @ [RMap m] @ map RAllow (allow_rows (m_ID m) 0 gids))" and refs: "refs_ok db0"
  shows "filter (\<lambda>a. a_MapID a = m_ID m) (t_allows (db0 @ [RMap m] @ map RAllow (allow_rows (m_ID m) 0 gids)))
    = allow_rows (m_ID m) 0 gids"
proof -
  have "m_ID m \<notin> m_ID ` set (t_maps db0)" using uniq_maps [OF u] by (simp add: tables_Cons)
  moreover have "a_MapID a \<in> m_ID ` set (t_maps db0)" if "a \<in> set (t_allows db0)" for a
    using refs that unfolding refs_ok_def by (rule subsetD [OF _ imageI])
  ultimately have "filter (\<lambda>a. a_MapID a = m_ID m) (t_allows db0) = []" unfolding filter_empty_conv by metis
  moreover have "filter (\<lambda>a. a_MapID a = m_ID m) (allow_rows (m_ID m) 0 gids) = allow_rows (m_ID m) 0 gids"
    using allow_rows_sorted(3) [of _ "m_ID m" 0 gids] by (simp add: filter_id_conv)
  ultimately show ?thesis by (simp add: tables_Cons)
qed

lemma GetMapDetail_added:
  assumes ok: "sql_ok exec" and refs: "refs_ok db0" and i: "m_ID m = i"
    and db: "db = db0 @ [RMap m] @ map RAllow (allow_rows i 0 gids)"
    and state: "uniq_ok db \<Longrightarrow> ip_ok db \<and> refs_ok db" and added: "map_added inp db0 m db"
    and label: "valid_label (m_Slug m)" and gids: "gids = mi_AllowedGroups inp"
  shows "hoare (at db) (GetMapDetail exec i) (map_post inp db0) (map_err inp db0)"
proof -
  have "hoare (at db) (GetMapDetail exec i) (map_post inp db0) (map_err inp db0)" if u: "uniq_ok db"
  proof -
    let ?found = "\<lambda>(d :: MapDetail) db'. at db db' \<and> mdt_Map d = m \<and> mdt_AllowedGroups d = gids"
    have mem: "m \<in> set (t_maps db)" by (simp add: db tables_Cons)
    have fl: "filter (\<lambda>a. a_MapID a = m_ID m) (t_allows db) = allow_rows (m_ID m) 0 gids"
      using allow_rows_found [of db0 m gids] u refs unfolding db i by simp
    note st = state [OF u]
    have "hoare (at db) (GetMapDetail exec i) ?found (at db)"
      using GetMapDetail_at [OF ok mem fl] unfolding i by (rule hoare_weaken) simp_all
    then show ?thesis
    proof (rule hoare_weaken)
      fix d db' assume "?found d db'"
      with st added label gids show "map_post inp db0 d db'" by (elim conjE, intro conjI) (simp_all only:)
    next
      fix db' assume "at db db'"
      with st added show "map_err inp db0 db'" by blast
    qed
  qed
  then show ?thesis unfolding hoare_def by blast
qed

lemma create_map_triple:
  assumes ok: "sql_ok exec" and ip: "ip_ok db0" and refs: "refs_ok db0"
    and hub: "hub_known db0 (se_HubIP s) (se_DNSIP s)" and s: "s \<in> set (t_settings db0)"
    and n: "normalizeMapInput inp = Inr (entry, gids)" and vip: "vip \<notin> used_ips (se_HubIP s) (se_DNSIP s) db0"
  shows "hoare (at db0) (andthen (create_map_tx exec (entry\<lparr>m_VirtualIP := vip\<rparr>) gids) (GetMapDetail exec))
    (map_post inp db0) (map_err inp db0)"
proof (rule hoare_andthen)
  show "hoare (at db0) (create_map_tx exec (entry\<lparr>m_VirtualIP := vip\<rparr>) gids)
    (\<lambda>i db. i \<noteq> 0 \<and> at (db0 @ [RMap (entry\<lparr>m_VirtualIP := vip, m_ID := i\<rparr>)] @ map RAllow (allow_rows i 0 gids)) db)
    (map_err inp db0)"
    by (rule hoare_weaken [OF create_map_tx_at [OF ok]]) (use normalizeMapInput_Inr [OF n] ip refs in auto)
next
  fix i
  let ?m = "entry\<lparr>m_VirtualIP := vip, m_ID := i\<rparr>"
  let ?db = "db0 @ [RMap ?m] @ map RAllow (allow_rows i 0 gids)"
  have t: "t_maps ?db = t_maps db0 @ [?m]" "t_peers ?db = t_peers db0" "t_settings ?db = t_settings db0"
    "t_allows ?db = t_allows db0 @ allow_rows i 0 gids"
    by (simp_all add: tables_Cons)
  have state: "ip_ok ?db \<and> refs_ok ?db"
    using ip_ok_add_map [OF ip hub _ t(1-3)] vip refs allow_rows_sorted(3) [of _ i 0 gids]
    unfolding refs_ok_def t by auto
  have "map_added inp db0 ?m ?db" using normalizeMapInput_Inr [OF n] s by (auto simp: map_added_def)
  then have "hoare (at ?db) (GetMapDetail exec i) (map_post inp db0) (map_err inp db0)"
    by (intro GetMapDetail_added [OF ok refs _ refl]) (use state normalizeMapInput_Inr [OF n] in simp_all)
  then show "hoare (\<lambda>db. i \<noteq> 0 \<and> at ?db db) (GetMapDetail exec i) (map_post inp db0) (map_err inp db0)"
    unfolding hoare_def by blast
qed

lemma CreateServiceMap_triple:
  assumes ok: "sql_ok exec" and ip: "ip_ok db0" and refs: "refs_ok db0"
    and hub: "\<And>s. s \<in> set (t_settings db0) \<Longrightarrow> hub_known db0 (se_HubIP s) (se_DNSIP s)"
  shows "hoare (at db0) (CreateServiceMap exec inp) (map_post inp db0) (map_err inp db0)"
  unfolding CreateServiceMap_def
proof (rule hoare_read)
  show "hoare (at db0) (MapSlugConflictsPeer exec (mi_Slug inp)) (\<lambda>x db. at db0 db \<and> True) (map_err inp db0)"
    by (rule hoare_weaken [OF MapSlugConflictsPeer_at [OF ok]]) (use ip refs in auto)
next
  have E: "at db0 db \<Longrightarrow> map_err inp db0 db" for db using ip refs by auto
  fix conflict
  show "hoare (at db0) (if conflict then fail (Errorf ''slug conflicts with an existing peer name'')
   else andthen (lift_res (normalizeMapInput inp)) (\<lambda>(entry, groupIDs).
   andthen (GetSettings exec) (\<lambda>se.
   andthen (AllocateMapIP exec (se_WGSubnet se) (se_HubIP se) (se_DNSIP se)) (\<lambda>vip.
   let entry = entry\<lparr>m_VirtualIP := vip\<rparr> in
   andthen (transaction (
     andthen (attempt (create exec (RMap entry))) (\<lambda>r.
     andthen (lift_res (unique_as ErrMapSlugConflict r)) (\<lambda>r.
     andthen (insert_allows exec (fst (key_of r)) groupIDs) (\<lambda>_.
     ret (fst (key_of r))))))) (\<lambda>i. GetMapDetail exec i))))) (map_post inp db0) (map_err inp db0)"
    unfolding Let_def create_map_tx_def [symmetric]
  proof (rule hoare_if, rule hoare_fail [OF E], assumption, rule hoare_lift_read [OF _ E], clarsimp)
    fix entry gids assume n: "normalizeMapInput inp = Inr (entry, gids)"
    show "hoare (at db0) (andthen (GetSettings exec) (\<lambda>se.
       andthen (AllocateMapIP exec (se_WGSubnet se) (se_HubIP se) (se_DNSIP se)) (\<lambda>vip.
       andthen (create_map_tx exec (entry\<lparr>m_VirtualIP := vip\<rparr>) gids) (GetMapDetail exec)))) (map_post inp db0) (map_err inp db0)"
      by (rule hoare_read [OF hoare_weaken [OF first_settings_at [OF ok]]], assumption, assumption, erule E,
          rule hoare_read [OF hoare_weaken [OF AllocateMapIP_at [OF ok]]], assumption, assumption, erule E,
          rule create_map_triple [OF ok ip refs hub _ n])
  qed
qed

end
