(* ===== verification/Store_Reads.thy ===== *)
theory Store_Reads
  imports Store_Inv
begin

text \<open>
  What the reading operations of the store return on a fixed database, and what single statements do
  to its tables: the facts the proofs about composed operations use.
\<close>

section \<open>Lookups\<close>

lemma first_row_at:
  "sql_ok exec \<Longrightarrow> hoare (at db0) (first_row exec t W) (\<lambda>r db. at db0 db \<and> (r \<in> set db0 \<and> table_of r = t \<and> W r)) (at db0)"
  by (rule hoare_first) auto

lemma first_typed_at:
  assumes "sql_ok exec"
  shows "hoare (at db0) (first_admin exec A) (\<lambda>x db. at db0 db \<and> (x \<in> set (t_admins db0) \<and> A x)) (at db0)"
    and "hoare (at db0) (first_peer exec P) (\<lambda>x db. at db0 db \<and> (x \<in> set (t_peers db0) \<and> P x)) (at db0)"
    and "hoare (at db0) (first_group exec G) (\<lambda>x db. at db0 db \<and> (x \<in> set (t_groups db0) \<and> G x)) (at db0)"
    and "hoare (at db0) (first_link exec L) (\<lambda>x db. at db0 db \<and> (x \<in> set (t_links db0) \<and> L x)) (at db0)"
    and "hoare (at db0) (first_forward exec F) (\<lambda>x db. at db0 db \<and> (x \<in> set (t_forwards db0) \<and> F x)) (at db0)"
  unfolding first_admin_def first_peer_def first_group_def first_link_def first_forward_def
  by (rule hoare_read [OF first_row_at [OF assms]],
      auto simp: set_tables intro!: hoare_ret hoare_fail split: row.splits)+

lemma find_typed_at:
  assumes "sql_ok exec"
  shows "hoare (at db0) (ListPeers exec) (\<lambda>x db. at db0 db \<and> mset x = mset (t_peers db0)) (at db0)"
    and "hoare (at db0) (ListGroups exec) (\<lambda>x db. at db0 db \<and> mset x = mset (t_groups db0)) (at db0)"
    and "hoare (at db0) (ListGroupLinks exec) (\<lambda>x db. at db0 db \<and> mset x = mset (t_links db0)) (at db0)"
    and "hoare (at db0) (ListPortForwards exec) (\<lambda>x db. at db0 db \<and> mset x = mset (t_forwards db0)) (at db0)"
    and "hoare (at db0) (ListServiceMaps exec) (\<lambda>x db. at db0 db \<and> mset x = mset (t_maps db0)) (at db0)"
proof -
  have rows: "hoare (at db0) (find_rows exec t) (\<lambda>rows db. at db0 db \<and> mset rows = mset (filter (\<lambda>r. table_of r = t) db0)) (at db0)" for t
    unfolding find_rows_def by (intro hoare_run [OF assms]) auto
  have fin: "hoare (at db0) (andthen (find_rows exec t) (\<lambda>rows. ret (h rows))) (\<lambda>x db. at db0 db \<and> mset x = M) (at db0)"
    if "\<And>rows. mset rows = mset (filter (\<lambda>r. table_of r = t) db0) \<Longrightarrow> mset (h rows) = M" for t h M
    by (rule hoare_read [OF rows], rule hoare_ret, rule conjI, assumption, rule that, assumption)
  have same: "t_peers (filter (\<lambda>r. table_of r = TPeer) db) = t_peers db"
    "t_groups (filter (\<lambda>r. table_of r = TGroup) db) = t_groups db"
    "t_links (filter (\<lambda>r. table_of r = TLink) db) = t_links db"
    "t_forwards (filter (\<lambda>r. table_of r = TForward) db) = t_forwards db"
    "t_maps (filter (\<lambda>r. table_of r = TMap) db) = t_maps db" for db
    by (induction db) (auto simp: tables_Cons split: row.splits)
  have mset_t: "mset xs = mset ys \<Longrightarrow> mset (t_peers xs) = mset (t_peers ys)"
    "mset xs = mset ys \<Longrightarrow> mset (t_groups xs) = mset (t_groups ys)"
    "mset xs = mset ys \<Longrightarrow> mset (t_links xs) = mset (t_links ys)"
    "mset xs = mset ys \<Longrightarrow> mset (t_forwards xs) = mset (t_forwards ys)"
    "mset xs = mset ys \<Longrightarrow> mset (t_maps xs) = mset (t_maps ys)" for xs ys
    by (simp_all add: table_defs map_filter_def)
  show "hoare (at db0) (ListPeers exec) (\<lambda>x db. at db0 db \<and> mset x = mset (t_peers db0)) (at db0)"
    unfolding ListPeers_def
    by (rule fin, drule mset_t(1), simp add: same)
  show "hoare (at db0) (ListGroups exec) (\<lambda>x db. at db0 db \<and> mset x = mset (t_groups db0)) (at db0)"
    unfolding ListGroups_def
    by (rule fin, drule mset_t(2), simp add: same)
  show "hoare (at db0) (ListGroupLinks exec) (\<lambda>x db. at db0 db \<and> mset x = mset (t_links db0)) (at db0)"
    unfolding ListGroupLinks_def
    by (rule fin, drule mset_t(3), simp add: same)
  show "hoare (at db0) (ListPortForwards exec) (\<lambda>x db. at db0 db \<and> mset x = mset (t_forwards db0)) (at db0)"
    unfolding ListPortForwards_def
    by (rule fin, drule mset_t(4), simp add: same)
  show "hoare (at db0) (ListServiceMaps exec) (\<lambda>x db. at db0 db \<and> mset x = mset (t_maps db0)) (at db0)"
    unfolding ListServiceMaps_def
    by (rule fin, drule mset_t(5), simp add: same)
qed

section \<open>Keys\<close>

lemma distinct_table:
  assumes "distinct (map (\<lambda>r. (table_of r, key_of r)) db)"
    and "\<And>r x. g r = Some x \<Longrightarrow> table_of r = t \<and> key_of r = (k x, 0)"
  shows "distinct (map k (List.map_filter g db))"
  using assms(1)
proof (induction db)
  case Nil
  then show ?case by (simp add: map_filter_simps)
next
  case (Cons r db)
  have mem: "y \<in> set (List.map_filter g db) \<longleftrightarrow> (\<exists>r' \<in> set db. g r' = Some y)" for y
    by (force simp: map_filter_def)
  show ?case
  proof (cases "g r")
    case None
    with Cons show ?thesis by (simp add: map_filter_simps)
  next
    case (Some x)
    have "k x \<noteq> k y" if "y \<in> set (List.map_filter g db)" for y
    proof
      assume "k x = k y"
      from that obtain r' where r': "r' \<in> set db" "g r' = Some y" unfolding mem by blast
      from assms(2) [OF Some] assms(2) [OF r'(2)] \<open>k x = k y\<close>
      have "(table_of r, key_of r) = (table_of r', key_of r')" by simp
      with r'(1) Cons.prems show False by auto
    qed
    with Cons Some show ?thesis by (auto simp: map_filter_simps)
  qed
qed

lemma uniq_keys:
  assumes "uniq_ok db"
  shows "distinct (map ad_ID (t_admins db))" "distinct (map p_ID (t_peers db))" "distinct (map g_ID (t_groups db))"
    "distinct (map f_ID (t_forwards db))"
proof -
  have d: "distinct (map (\<lambda>r. (table_of r, key_of r)) db)" using assms by (simp add: uniq_ok_def)
  show "distinct (map ad_ID (t_admins db))" "distinct (map p_ID (t_peers db))" "distinct (map g_ID (t_groups db))"
    "distinct (map f_ID (t_forwards db))"
    unfolding table_defs by (rule distinct_table [OF d], simp split: row.splits)+
qed

lemma by_key:
  "uniq_ok db \<Longrightarrow> p \<in> set (t_peers db) \<Longrightarrow> q \<in> set (t_peers db) \<Longrightarrow> p_ID p = p_ID q \<Longrightarrow> p = q"
  "uniq_ok db \<Longrightarrow> g \<in> set (t_groups db) \<Longrightarrow> h \<in> set (t_groups db) \<Longrightarrow> g_ID g = g_ID h \<Longrightarrow> g = h"
  "uniq_ok db \<Longrightarrow> f \<in> set (t_forwards db) \<Longrightarrow> k \<in> set (t_forwards db) \<Longrightarrow> f_ID f = f_ID k \<Longrightarrow> f = k"
  "uniq_ok db \<Longrightarrow> m \<in> set (t_maps db) \<Longrightarrow> l \<in> set (t_maps db) \<Longrightarrow> m_ID m = m_ID l \<Longrightarrow> m = l"
  using uniq_keys [of db] uniq_maps [of db] by (auto simp only: distinct_map inj_on_def)

section \<open>Saving a row that exists\<close>

lemma saved:
  assumes "sem (Save r) db db' rows" "r0 \<in> set db" "table_of r0 = table_of r" "key_of r0 = key_of r"
  shows "db' = map (\<lambda>x. if table_of x = table_of r \<and> key_of x = key_of r then r else x) db"
proof -
  have "(table_of r, key_of r) \<in> (\<lambda>x. (table_of x, key_of x)) ` set db"
    using assms(2-4) by (intro image_eqI [of _ _ r0]) simp_all
  with assms(1) show ?thesis by simp
qed

end
