(* ===== verification/Store_Props.thy ===== *)
theory Store_Props
  imports Store_Reads
begin

text \<open>
  The store's contracts, stated on the runs of its operations, and a list executor that meets the
  requirements on the database and on which the contracts are evaluated.
\<close>

section \<open>A database that meets the requirements\<close>

definition max_key :: "table \<Rightarrow> db \<Rightarrow> nat" where
  "max_key t db = foldr (\<lambda>r m. if table_of r = t then max (fst (key_of r)) m else m) db 0"

definition keyed :: "row \<Rightarrow> row \<Rightarrow> bool" where
  "keyed r x = (table_of x = table_of r \<and> key_of x = key_of r)"

definition commit :: "db \<Rightarrow> db \<Rightarrow> row list \<Rightarrow> db \<times> (err + row list)" where
  "commit db db' rows = (if uniq_ok db' then (db', Inr rows) else (db, Inl ErrUniqueViolation))"

fun list_stmt :: "stmt \<Rightarrow> db \<Rightarrow> db \<times> (err + row list)" where
  "list_stmt (Select t P) db = (db, Inr (filter (\<lambda>r. table_of r = t \<and> P r) db))"
| "list_stmt (Insert r) db =
     (let r' = (if fst (key_of r) = 0 then set_id (Suc (max_key (table_of r) db)) r else r) in
      commit db (db @ [r']) [r'])"
| "list_stmt (Save r) db =
     commit db (if list_ex (keyed r) db then map (\<lambda>x. if keyed r x then r else x) db else db @ [r]) [r]"
| "list_stmt (Update t P f) db = commit db (map (\<lambda>x. if table_of x = t \<and> P x then f x else x) db) []"
| "list_stmt (Delete t P) db = commit db (filter (\<lambda>x. \<not> (table_of x = t \<and> P x)) db) []"

definition list_sql :: sql where
  "list_sql n q db = list_stmt q db"

lemma commit_cases:
  assumes "commit db db1 rows = (db', r)"
  shows "r = Inl ErrUniqueViolation \<and> db' = db \<or> r = Inr rows \<and> db' = db1 \<and> uniq_ok db1"
  using assms by (auto simp: commit_def split: if_splits)

lemma uniq_ok_append: "uniq_ok (db @ [r]) \<Longrightarrow> (table_of r, key_of r) \<notin> (\<lambda>x. (table_of x, key_of x)) ` set db"
  by (auto simp: uniq_ok_def)

lemma list_stmt_ok:
  assumes "uniq_ok db" and "list_stmt q db = (db', r)"
  shows "case r of Inl e \<Rightarrow> db' = db | Inr rows \<Rightarrow> uniq_ok db' \<and> sem q db db' rows"
proof (cases q)
  case (Select t P)
  with assms show ?thesis by auto
next
  case (Insert x)
  let ?i = "Suc (max_key (table_of x) db)"
  let ?x = "if fst (key_of x) = 0 then set_id ?i x else x"
  have "commit db (db @ [?x]) [?x] = (db', r)" using assms(2) Insert by (simp add: Let_def)
  from commit_cases [OF this] show ?thesis
  proof (elim disjE conjE)
    assume r: "r = Inr [?x]" and db': "db' = db @ [?x]" and u: "uniq_ok (db @ [?x])"
    have "sem (Insert x) db db' [?x]"
      unfolding sem.simps Let_def
      by (rule exI [of _ ?i]) (use uniq_ok_append [OF u] db' in \<open>auto split: if_splits\<close>)
    with r u db' Insert show ?thesis by simp
  qed simp
next
  case (Save x)
  have ex: "list_ex (keyed x) db \<longleftrightarrow> (table_of x, key_of x) \<in> (\<lambda>x. (table_of x, key_of x)) ` set db"
    by (auto simp: list_ex_iff keyed_def image_iff eq_commute)
  let ?db = "if list_ex (keyed x) db then map (\<lambda>y. if keyed x y then x else y) db else db @ [x]"
  have "commit db ?db [x] = (db', r)" using assms(2) Save by simp
  from commit_cases [OF this] ex Save show ?thesis
    by (auto simp: keyed_def cong: if_cong split: if_splits)
next
  case (Update t P f)
  with assms commit_cases [of db _ "[]" db' r] show ?thesis by fastforce
next
  case (Delete t P)
  with assms commit_cases [of db _ "[]" db' r] show ?thesis by fastforce
qed

lemma list_sql_ok: "sql_ok list_sql"
  unfolding sql_ok_def list_sql_def
proof (intro allI impI)
  fix s db assume u: "uniq_ok db"
  obtain db' r where e: "list_stmt s db = (db', r)" by (cases "list_stmt s db")
  from list_stmt_ok [OF u e] show "case list_stmt s db of
      (db', Inl e) \<Rightarrow> db' = db | (db', Inr rows) \<Rightarrow> uniq_ok db' \<and> sem s db db' rows"
    unfolding e by (cases r) auto
qed

lemma andthen_ok: "m (n, db) = (Inr x, (n', db')) \<Longrightarrow> andthen m f (n, db) = f x (n', db')"
  by (simp add: andthen_def)

lemma lift_res_ok: "r = Inr x \<Longrightarrow> lift_res r (n, db) = (Inr x, (n, db))"
  by (simp add: lift_res_def)

lemma hoare_outcome:
  assumes "hoare (at db) m Q E" "uniq_ok db" "m (n, db) = (r, (n', db'))"
  shows "case r of Inl _ \<Rightarrow> E db' | Inr x \<Rightarrow> Q x db'"
  using hoareD [OF assms(1) conjI [OF refl assms(2)]] assms(3) by (cases r) auto

text \<open>A small hub: settings, two groups, a peer with its record, a link and a map.\<close>

definition ex_settings :: Settings where
  "ex_settings = \<lparr>se_ID = 1, se_ServerPublicKey = ''S'', se_ServerPrivateKey = ''s'', se_Endpoint = ''vpn.example'',
     se_ListenPort = 8443, se_WGSubnet = ''10.0.0.0/24'', se_HubIP = ''10.0.0.1'', se_DNSIP = ''10.0.0.1'',
     se_DNSSuffix = ''wirehub'', se_MTU = 1420, se_StatusInterval = 1, se_UpstreamDNS = []\<rparr>"

definition ex_peer :: Peer where
  "ex_peer = \<lparr>p_ID = 1, p_Name = ''nas'', p_PublicKey = ''P1'', p_PrivateKey = ''k1'', p_WGIP = ''10.0.0.2'',
     p_GroupID = 1, p_Enabled = True, p_DNSName = ''nas'', p_LastHandshake = 0, p_RxBytes = 0, p_TxBytes = 0,
     p_CreatedAt = 5\<rparr>"

definition ex_new_peer :: Peer where
  "ex_new_peer = ex_peer\<lparr>p_ID := 0, p_Name := ''tv'', p_PublicKey := ''P2'', p_WGIP := [], p_DNSName := ''tv''\<rparr>"

definition ex_db :: db where
  "ex_db = [RSettings ex_settings,
     RGroup \<lparr>g_ID = 1, g_Name = ''default'', g_PosX = 0, g_PosY = 0, g_AllowIntraGroup = True\<rparr>,
     RGroup \<lparr>g_ID = 2, g_Name = ''guests'', g_PosX = 0, g_PosY = 0, g_AllowIntraGroup = False\<rparr>,
     RPeer ex_peer, RDNS \<lparr>d_ID = 1, d_Hostname = ''nas'', d_IP = ''10.0.0.2'', d_PeerID = Some 1, d_Manual = False\<rparr>,
     RLink \<lparr>l_ID = 1, l_From = 2, l_To = 1, l_Bidirectional = False\<rparr>]"

lemmas ex_defs = ex_settings_def ex_peer_def ex_new_peer_def ex_db_def

lemma ex_db_ok: "uniq_ok ex_db" "ip_ok ex_db" "refs_ok ex_db" "link_ok ex_db" "hub_known ex_db ''10.0.0.1'' ''10.0.0.1''"
  by (auto simp: uniq_ok_def ip_ok_def refs_ok_def link_ok_def hub_known_def ex_defs tables_Cons edge_def)

section \<open>Peers\<close>

text \<open>
  C16: creating a peer gives it an address that nobody else holds (no peer, no service map, no DNS
  record, not the hub) and writes the peer and its DNS record together; when any statement fails the
  database is left as it was.
\<close>

theorem CreatePeerWithAllocatedIP_owns:
  assumes "sql_ok exec" "uniq_ok db" "ip_ok db" "hub_known db hubIP dnsIP" "p_ID peer = 0"
    and "CreatePeerWithAllocatedIP exec peer subnet hubIP dnsIP (n, db) = (r, (n', db'))"
  shows "case r of Inl _ \<Rightarrow> db' = db
    | Inr p \<Rightarrow> uniq_ok db' \<and> ip_ok db' \<and> p_Name p = p_Name peer \<and> p_GroupID p = p_GroupID peer \<and>
        p_WGIP p \<notin> used_ips hubIP dnsIP db \<and> t_peers db' = t_peers db @ [p] \<and>
        (\<exists>d. t_dns_records db' = t_dns_records db @ [d] \<and> d_IP d = p_WGIP p \<and> d_PeerID d = Some (p_ID p))"
  using hoare_outcome [OF CreatePeer_triple [OF assms(1,3,4,5)] assms(2,6)] by (cases r) (auto simp: tables_Cons)

lemmas db_eval = andthen_def ret_def fail_def attempt_def run_def transaction_def lift_res_def list_sql_def create_def
  exec_stmt_def find_rows_def count_rows_def first_row_def first_by_key_def tables_Cons commit_def keyed_def max_key_def
  Let_def rename_unavailable_def

lemma ex_next_free: "nextFreeHostInSubnet ''10.0.0.0/24'' [''10.0.0.2'', ''10.0.0.1''] = Inr ''10.0.0.3''"
proof -
  have n: "v4_net [10, 0, 0, 0] 24 = \<lparr>net_ip = [10, 0, 0, 0], net_mask = [255, 255, 255, 0]\<rparr>"
    by (simp add: v4_net_def cidr_mask_32 mask_byte_def)
  have "add_host [10, 0, 0, 0] 2 = [10, 0, 0, 2]" "add_host [10, 0, 0, 0] 3 = [10, 0, 0, 3]"
    by (simp_all add: add_host_def)
  moreover have "mask_ones [255, 255, 255, 0] = 24" by (simp add: mask_ones_def upt_rec)
  ultimately show ?thesis
    by (simp add: nextFreeHostInSubnet_def parse_slash24 n cidr_mask_32 mask_byte_def max_hosts_def
        free_host_loop.simps [of _ _ _ 2] free_host_loop.simps [of _ _ _ 3] net_contains_def
        network_number_and_mask_def to4_def ip_string_def v4_string_def ev)
qed

lemma ex_create_peer:
  "CreatePeerWithAllocatedIP list_sql ex_new_peer ''10.0.0.0/24'' ''10.0.0.1'' ''10.0.0.1'' (0, ex_db) =
     (Inr (ex_new_peer\<lparr>p_WGIP := ''10.0.0.3'', p_ID := 2\<rparr>),
      (5, ex_db @ [RPeer (ex_new_peer\<lparr>p_WGIP := ''10.0.0.3'', p_ID := 2\<rparr>),
        RDNS \<lparr>d_ID = 2, d_Hostname = ''tv'', d_IP = ''10.0.0.3'', d_PeerID = Some 2, d_Manual = False\<rparr>]))"
  unfolding CreatePeerWithAllocatedIP_def
  by (simp add: collectUsedSubnetIPs_def db_eval ex_defs ex_next_free uniq_ok_def)

theorem CreatePeerWithAllocatedIP_owns_witness:
  "''10.0.0.3'' \<notin> used_ips ''10.0.0.1'' ''10.0.0.1'' ex_db \<and>
   (case CreatePeerWithAllocatedIP list_sql ex_new_peer ''10.0.0.0/24'' ''10.0.0.1'' ''10.0.0.1'' (0, ex_db) of
      (r, (n, db)) \<Rightarrow> r = Inr (ex_new_peer\<lparr>p_WGIP := ''10.0.0.3'', p_ID := 2\<rparr>) \<and> uniq_ok db \<and> ip_ok db)"
  using CreatePeerWithAllocatedIP_owns [OF list_sql_ok ex_db_ok(1,2,5) _ ex_create_peer] ex_create_peer
  by (simp add: ex_defs)

section \<open>Links\<close>

text \<open>
  C17: after a successful upsert the two groups have exactly one link, the requested one (a mutual link
  is stored with the smaller group first), all other links are kept, the graph still has at most one
  link per pair and no loop; a failed upsert leaves the links as they were.
\<close>

theorem UpsertGroupLink_unique:
  assumes "sql_ok exec" "uniq_ok db" "link_ok db" "a \<noteq> b"
    and "UpsertGroupLink exec a b bi (n, db) = (r, (n', db'))"
  shows "case r of Inl _ \<Rightarrow> db' = db
    | Inr _ \<Rightarrow> uniq_ok db' \<and> link_ok db' \<and>
        (\<exists>l. t_links db' = filter (\<lambda>m. \<not> between a b m) (t_links db) @ [l] \<and> l_Bidirectional l = bi \<and>
          (l_From l = a \<and> l_To l = b \<or> bi \<and> l_From l = b \<and> l_To l = a))"
proof -
  have "hoare (at db) (UpsertGroupLink exec a b bi)
    (\<lambda>_ db'. uniq_ok db' \<and> link_ok db' \<and>
       (\<exists>l. t_links db' = filter (\<lambda>m. \<not> between a b m) (t_links db) @ [l] \<and> l_Bidirectional l = bi \<and>
          (l_From l = a \<and> l_To l = b \<or> bi \<and> l_From l = b \<and> l_To l = a)))
    (\<lambda>db'. db' = db)"
    by (rule hoare_weaken [OF UpsertGroupLink_triple [OF assms(1,4)]]) (use assms(3) in \<open>auto simp: tables_Cons\<close>)
  from hoare_outcome [OF this assms(2,5)] show ?thesis .
qed

theorem UpsertGroupLink_unique_witness:
  "case UpsertGroupLink list_sql 2 1 True (0, ex_db) of (r, (n, db)) \<Rightarrow> r = Inr () \<and> link_ok db \<and>
     t_links db = [\<lparr>l_ID = 1, l_From = 1, l_To = 2, l_Bidirectional = True\<rparr>]"
proof -
  let ?new = "\<lparr>l_ID = 1, l_From = 1, l_To = 2, l_Bidirectional = True\<rparr>"
  let ?db = "filter (\<lambda>r. table_of r \<noteq> TLink) ex_db @ [RLink ?new]"
  have run: "UpsertGroupLink list_sql 2 1 True (0, ex_db) = (Inr (), (2, ?db))"
    by (simp add: UpsertGroupLink_def normalizeLinkPair_def deleteLinksBetween_def between_def db_eval ex_defs uniq_ok_def)
  have "t_links ?db = [?new]" by (simp add: ex_defs tables_Cons)
  with UpsertGroupLink_unique [OF list_sql_ok ex_db_ok(1,4) _ run] run show ?thesis by simp
qed

section \<open>Service maps\<close>

text \<open>
  C18: a created map owns its virtual address, has a valid slug that no other map uses, and reads back
  with exactly the groups it was created with, in their order; the invariants hold whatever happens.
\<close>

theorem CreateServiceMap_roundtrip:
  assumes "sql_ok exec" "uniq_ok db" "ip_ok db" "refs_ok db"
    and "\<And>s. s \<in> set (t_settings db) \<Longrightarrow> hub_known db (se_HubIP s) (se_DNSIP s)"
    and "CreateServiceMap exec inp (n, db) = (r, (n', db'))"
  shows "case r of Inl _ \<Rightarrow> uniq_ok db' \<and> ip_ok db' \<and> refs_ok db'
    | Inr d \<Rightarrow> uniq_ok db' \<and> ip_ok db' \<and> refs_ok db' \<and> t_maps db' = t_maps db @ [mdt_Map d] \<and>
        mdt_AllowedGroups d = mi_AllowedGroups inp \<and> valid_label (m_Slug (mdt_Map d))"
  using hoare_outcome [OF CreateServiceMap_triple [OF assms(1,3,4,5)] assms(2,6)]
  by (cases r) (auto simp: map_added_def tables_Cons)

definition ex_map_input :: MapInput where
  "ex_map_input = \<lparr>mi_Name = ''Wiki'', mi_Slug = ''wiki'', mi_TargetHost = ''10.9.9.9'', mi_AllowedGroups = [2, 1]\<rparr>"

lemma ex_target: "ValidateForwardTargetHost ''10.9.9.9'' = Inr ''10.9.9.9''"
  by (simp add: ValidateForwardTargetHost_def normalizeForwardTargetHost_def ParseIP_def ParseAddr_def parse_ipv4_def
      to4_def v4_in_v6_prefix_def ip_string_def v4_string_def ev chr_eval)

lemma ex_map_rows: "normalizeMapInput ex_map_input = Inr
    (\<lparr>m_ID = 0, m_Name = ''Wiki'', m_Slug = ''wiki'', m_TargetHost = ''10.9.9.9'', m_VirtualIP = []\<rparr>, [2, 1])"
proof -
  have "ValidateHostname ''wiki'' = Inr ''wiki''"
    by (simp add: ValidateHostname_def HostnameSlug_def reservedHostnames_def maxHostnameLabelLen_def slug_char_def ev chr_eval)
  then show ?thesis
    by (simp add: ex_map_input_def normalizeMapInput_def ValidateMapSlug_eq ValidateMapTargetHost_def ex_target
        ValidateMapGroupIDs_def ev chr_eval)
qed

lemma ex_create_map:
  "\<exists>n' db'. CreateServiceMap list_sql ex_map_input (0, ex_db) = (Inr
     \<lparr>mdt_Map = \<lparr>m_ID = 1, m_Name = ''Wiki'', m_Slug = ''wiki'', m_TargetHost = ''10.9.9.9'', m_VirtualIP = ''10.0.0.3''\<rparr>,
      mdt_TargetDisplay = ''10.9.9.9'', mdt_AllowedGroups = [2, 1]\<rparr>, (n', db'))"
proof -
  have 1: "MapSlugConflictsPeer list_sql (mi_Slug ex_map_input) (0, ex_db) = (Inr False, (Suc 0, ex_db))"
    by (simp add: MapSlugConflictsPeer_def ex_map_input_def db_eval ex_defs)
  have 2: "GetSettings list_sql (Suc 0, ex_db) = (Inr ex_settings, (2, ex_db))"
    by (simp add: GetSettings_def first_settings_def db_eval ex_defs)
  have 3: "AllocateMapIP list_sql (se_WGSubnet ex_settings) (se_HubIP ex_settings) (se_DNSIP ex_settings) (2, ex_db) =
      (Inr ''10.0.0.3'', (5, ex_db))"
    by (simp add: AllocateMapIP_def allocateSubnetIP_def collectUsedSubnetIPs_def db_eval ex_defs ex_next_free)
  show ?thesis
    unfolding CreateServiceMap_def
    by (subst andthen_ok [where m = "MapSlugConflictsPeer list_sql (mi_Slug ex_map_input)", OF 1], simp only: if_False, subst andthen_ok [where m = "lift_res _", OF lift_res_ok [OF ex_map_rows]], simp only: prod.case,
        subst andthen_ok [where m = "GetSettings list_sql", OF 2], subst andthen_ok [where m = "AllocateMapIP list_sql _ _ _", OF 3])
      (simp add: insert_allows_def GetMapDetail_def GetServiceMap_def first_map_def ListMapGroupIDs_def unique_as_def
        db_eval ex_defs uniq_ok_def)
qed

text \<open>
  The conflict check looks for the slug as typed; the stored slug is the normalised one.  A map typed
  with capitals therefore takes the name of an existing peer.
\<close>

lemma slug_check_misses_case:
  "\<exists>d s. CreateServiceMap list_sql (ex_map_input\<lparr>mi_Slug := ''NAS''\<rparr>) (0, ex_db) = (Inr d, s) \<and>
     m_Slug (mdt_Map d) = ''nas'' \<and> ''nas'' \<in> p_Name ` set (t_peers ex_db)"
proof -
  let ?inp = "ex_map_input\<lparr>mi_Slug := ''NAS''\<rparr>"
  have "ValidateHostname ''NAS'' = Inr ''nas''"
    by (simp add: ValidateHostname_def HostnameSlug_def reservedHostnames_def maxHostnameLabelLen_def slug_char_def ev chr_eval)
  then have n: "normalizeMapInput ?inp = Inr
      (\<lparr>m_ID = 0, m_Name = ''Wiki'', m_Slug = ''nas'', m_TargetHost = ''10.9.9.9'', m_VirtualIP = []\<rparr>, [2, 1])"
    by (simp add: ex_map_input_def normalizeMapInput_def ValidateMapSlug_eq ValidateMapTargetHost_def ex_target
        ValidateMapGroupIDs_def ev chr_eval)
  have 1: "MapSlugConflictsPeer list_sql (mi_Slug ?inp) (0, ex_db) = (Inr False, (Suc 0, ex_db))"
    by (simp add: MapSlugConflictsPeer_def ex_map_input_def db_eval ex_defs)
  have 2: "GetSettings list_sql (Suc 0, ex_db) = (Inr ex_settings, (2, ex_db))"
    by (simp add: GetSettings_def first_settings_def db_eval ex_defs)
  have 3: "AllocateMapIP list_sql (se_WGSubnet ex_settings) (se_HubIP ex_settings) (se_DNSIP ex_settings) (2, ex_db) =
      (Inr ''10.0.0.3'', (5, ex_db))"
    by (simp add: AllocateMapIP_def allocateSubnetIP_def collectUsedSubnetIPs_def db_eval ex_defs ex_next_free)
  have "\<exists>d s. CreateServiceMap list_sql ?inp (0, ex_db) = (Inr d, s) \<and> m_Slug (mdt_Map d) = ''nas''"
    unfolding CreateServiceMap_def
    by (subst andthen_ok [where m = "MapSlugConflictsPeer list_sql (mi_Slug ?inp)", OF 1], simp only: if_False,
        subst andthen_ok [where m = "lift_res _", OF lift_res_ok [OF n]], simp only: prod.case,
        subst andthen_ok [where m = "GetSettings list_sql", OF 2], subst andthen_ok [where m = "AllocateMapIP list_sql _ _ _", OF 3])
      (simp add: insert_allows_def GetMapDetail_def GetServiceMap_def first_map_def ListMapGroupIDs_def unique_as_def
        db_eval ex_defs uniq_ok_def)
  then show ?thesis by (auto simp: ex_defs tables_Cons)
qed

theorem CreateServiceMap_roundtrip_witness:
  "\<exists>d n db. CreateServiceMap list_sql ex_map_input (0, ex_db) = (Inr d, (n, db)) \<and>
     mdt_AllowedGroups d = [2, 1] \<and> t_maps db = [mdt_Map d] \<and> uniq_ok db \<and> ip_ok db \<and> refs_ok db"
proof -
  obtain n d db where run: "CreateServiceMap list_sql ex_map_input (0, ex_db) = (Inr d, (n, db))"
    using ex_create_map by blast
  have "hub_known ex_db (se_HubIP s) (se_DNSIP s)" if "s \<in> set (t_settings ex_db)" for s
    using that ex_db_ok(5) by (simp add: ex_defs tables_Cons)
  from CreateServiceMap_roundtrip [OF list_sql_ok ex_db_ok(1-3) this run] run show ?thesis
    by (simp add: ex_map_input_def) (simp add: ex_defs tables_Cons)
qed

section \<open>Deleting a group\<close>

lemma delete_at:
  "sql_ok exec \<Longrightarrow> (\<And>db. at db0 db \<Longrightarrow> E db) \<Longrightarrow>
     hoare (at db0) (exec_stmt exec (Delete t P)) (\<lambda>_. at (filter (\<lambda>x. table_of x = t \<longrightarrow> \<not> P x) db0)) E"
  by (intro hoare_stmt) auto

definition group_gone :: "nat \<Rightarrow> db \<Rightarrow> db \<Rightarrow> bool" where
  "group_gone i db db' = (t_groups db' = filter (\<lambda>g. g_ID g \<noteq> i) (t_groups db) \<and>
     t_links db' = filter (\<lambda>l. l_From l \<noteq> i \<and> l_To l \<noteq> i) (t_links db) \<and>
     t_allows db' = filter (\<lambda>a. a_GroupID a \<noteq> i) (t_allows db) \<and>
     t_peers db' = t_peers db \<and> t_maps db' = t_maps db \<and> t_settings db' = t_settings db \<and>
     t_forwards db' = t_forwards db \<and> t_dns_records db' = t_dns_records db \<and> t_admins db' = t_admins db)"

lemma DeleteGroup_triple:
  assumes ok: "sql_ok exec"
  shows "hoare (at db0) (DeleteGroup exec i)
    (\<lambda>_ db. uniq_ok db \<and> i \<notin> p_GroupID ` set (t_peers db0) \<and> group_gone i db0 db) (at db0)"
  unfolding DeleteGroup_def
proof (rule hoare_read [OF count_at [OF ok]], rule hoare_if)
  show "hoare (at db0) (fail (Errorf ''group still has peers''))
    (\<lambda>_ db. uniq_ok db \<and> i \<notin> p_GroupID ` set (t_peers db0) \<and> group_gone i db0 db) (at db0)"
    by (rule hoare_fail)
next
  fix count assume "count = length (filter (\<lambda>r. table_of r = TPeer \<and> on_peer (\<lambda>p. p_GroupID p = i) r) db0)" "\<not> 0 < count"
  then have "\<not> (\<exists>r \<in> set db0. table_of r = TPeer \<and> on_peer (\<lambda>p. p_GroupID p = i) r)"
    by (auto simp: filter_empty_conv)
  then have empty: "i \<notin> p_GroupID ` set (t_peers db0)" unfolding ex_on by blast
  let ?d1 = "filter (\<lambda>x. table_of x = TLink \<longrightarrow> \<not> on_link (\<lambda>l. l_From l = i \<or> l_To l = i) x) db0"
  let ?d2 = "filter (\<lambda>x. table_of x = TAllow \<longrightarrow> \<not> on_allow (\<lambda>a. a_GroupID a = i) x) ?d1"
  let ?d3 = "filter (\<lambda>x. table_of x = TGroup \<longrightarrow> \<not> on_group (\<lambda>g. g_ID g = i) x) ?d2"
  have gone: "group_gone i db0 ?d3"
    unfolding group_gone_def by (simp add: delete_other del: filter_filter)
  let ?p = "andthen (exec_stmt exec (Delete TLink (on_link (\<lambda>l. l_From l = i \<or> l_To l = i)))) (\<lambda>_.
         andthen (exec_stmt exec (Delete TAllow (on_allow (\<lambda>a. a_GroupID a = i)))) (\<lambda>_.
         exec_stmt exec (Delete TGroup (on_group (\<lambda>g. g_ID g = i)))))"
  have "hoare (at db0) ?p (\<lambda>_. at ?d3) (\<lambda>_. True)"
    by (rule hoare_andthen, rule delete_at [OF ok], simp, rule hoare_andthen, rule delete_at [OF ok], simp,
        rule delete_at [OF ok], simp)
  then show "hoare (at db0) (transaction ?p) (\<lambda>_ db. uniq_ok db \<and> i \<notin> p_GroupID ` set (t_peers db0) \<and> group_gone i db0 db) (at db0)"
    using empty gone by (intro hoare_transaction) (auto intro: hoare_weaken)
qed

text \<open>
  A group is only deleted when no peer is in it; then its links and its entries in the maps'
  allow lists go with it and nothing else changes; a refused or failed deletion changes nothing.
\<close>

theorem DeleteGroup_clean:
  assumes "sql_ok exec" "uniq_ok db" and "DeleteGroup exec i (n, db) = (r, (n', db'))"
  shows "case r of Inl _ \<Rightarrow> db' = db
    | Inr _ \<Rightarrow> uniq_ok db' \<and> i \<notin> p_GroupID ` set (t_peers db) \<and> group_gone i db db'"
  using hoare_outcome [OF DeleteGroup_triple [OF assms(1)] assms(2,3)] by (cases r) simp_all

theorem DeleteGroup_clean_witness:
  "case DeleteGroup list_sql 2 (0, ex_db) of (r, (n, db)) \<Rightarrow>
     r = Inr () \<and> group_gone 2 ex_db db \<and> t_links db = []"
proof -
  let ?db = "filter (\<lambda>r. table_of r \<noteq> TLink \<and> (table_of r \<noteq> TGroup \<or> key_of r \<noteq> (2, 0))) ex_db"
  have run: "DeleteGroup list_sql 2 (0, ex_db) = (Inr (), (4, ?db))"
    by (simp add: DeleteGroup_def db_eval ex_defs uniq_ok_def)
  have "t_links ?db = []" by (simp add: ex_defs tables_Cons)
  with DeleteGroup_clean [OF list_sql_ok ex_db_ok(1) run] run show ?thesis by simp
qed

section \<open>Port forwards\<close>

text \<open>No two forwards listen on the same port, whatever their protocols, and each one passed the checks.\<close>

definition fwd_valid :: "PortForward \<Rightarrow> bool" where
  "fwd_valid f = (f_Protocol f \<in> {ForwardProtoTCP, ForwardProtoUDP} \<and>
     1 \<le> f_ListenPort f \<and> f_ListenPort f \<le> 65535 \<and> 1 \<le> f_TargetPort f \<and> f_TargetPort f \<le> 65535 \<and>
     target_host_ok (f_TargetHost f) \<and>
     \<not> (f_Protocol f = ForwardProtoTCP \<and> f_ListenPort f = HubTunnelWebPort) \<and>
     f_ListenPort f \<noteq> HubDNSPort)"

definition fwd_ok :: "db \<Rightarrow> bool" where
  "fwd_ok db = (distinct (map f_ListenPort (t_forwards db)) \<and> (\<forall>f \<in> set (t_forwards db). fwd_valid f))"

lemma normalizePortForward_valid:
  "normalizePortForward inp HubTunnelWebPort = Inr f \<Longrightarrow> f_ID f = 0 \<and> fwd_valid f"
  by (auto simp: normalizePortForward_def res_bind_eq_Inr Let_def fwd_valid_def ValidateForwardProtocol_def
     ValidateForwardListenPort_def ValidateForwardPort_def ForwardProtoTCP_def ForwardProtoUDP_def
     split: if_splits intro: valid_target_host)

lemma isHubListenPortUsed_at:
  assumes "sql_ok exec"
  shows "hoare (at db0) (isHubListenPortUsed exec port except)
    (\<lambda>b db. at db0 db \<and> (b \<longleftrightarrow> (\<exists>f \<in> set (t_forwards db0). f_ListenPort f = port \<and> (except = 0 \<or> f_ID f \<noteq> except)))) (at db0)"
  unfolding isHubListenPortUsed_def
proof (rule hoare_read [OF count_at [OF assms]], rule hoare_ret, rule conjI, assumption)
  let ?W = "\<lambda>f. f_ListenPort f = port \<and> (except = 0 \<or> f_ID f \<noteq> except)"
  fix n db assume "n = length (filter (\<lambda>r. table_of r = TForward \<and> on_forward ?W r) db0)"
  then have "0 < n \<longleftrightarrow> (\<exists>r \<in> set db0. table_of r = TForward \<and> on_forward ?W r)"
    by (auto simp: filter_empty_conv)
  then show "0 < n \<longleftrightarrow> (\<exists>f \<in> set (t_forwards db0). ?W f)" unfolding ex_on .
qed

lemma attempted_create_at:
  assumes "sql_ok exec" "gorm_defaults r = r'" "fst (key_of r') = 0"
  shows "hoare (at db0) (attempt (create exec r))
     (\<lambda>x db. case x of Inl _ \<Rightarrow> at db0 db | Inr y \<Rightarrow> uniq_ok db \<and> (\<exists>i. y = set_id i r' \<and> db = db0 @ [y])) (at db0)"
  by (rule hoare_attempt, rule hoare_weaken [OF create_at [OF assms(1,2)]]) (auto simp: assms(3))

lemma CreatePortForward_triple:
  assumes ok: "sql_ok exec" and fwd: "fwd_ok db0"
  shows "hoare (at db0) (CreatePortForward exec HubTunnelWebPort inp)
    (\<lambda>f db. uniq_ok db \<and> fwd_ok db \<and> f_ListenPort f = pi_ListenPort inp \<and> db = db0 @ [RForward f]) (at db0)"
    (is "hoare _ _ ?Q _")
  unfolding CreatePortForward_def
proof (rule hoare_lift_read)
  fix rule assume n: "normalizePortForward inp HubTunnelWebPort = Inr rule"
  have new: "f_ID rule = 0" "fwd_valid rule" using normalizePortForward_valid [OF n] by simp_all
  have port: "f_ListenPort rule = pi_ListenPort inp"
    using n by (auto simp: normalizePortForward_def res_bind_eq_Inr Let_def split: if_splits)
  show "hoare (at db0) (andthen (isHubListenPortUsed exec (f_ListenPort rule) 0) (\<lambda>taken.
     if taken then fail (PortForwardListenPortError (f_ListenPort rule))
     else andthen (attempt (create exec (RForward rule))) (\<lambda>r.
       andthen (lift_res (unique_as ErrPortForwardConflict r)) (\<lambda>r.
       case r of RForward rule \<Rightarrow> ret rule | _ \<Rightarrow> fail ErrRecordNotFound)))) ?Q (at db0)"
  proof (rule hoare_read [OF isHubListenPortUsed_at [OF ok]], rule hoare_if, rule hoare_fail, assumption)
    fix taken assume "taken = (\<exists>f \<in> set (t_forwards db0). f_ListenPort f = f_ListenPort rule \<and> (0 = (0::nat) \<or> f_ID f \<noteq> 0))"
      and "\<not> taken"
    then have free: "f_ListenPort rule \<notin> f_ListenPort ` set (t_forwards db0)" by auto
    have good: "?Q (rule\<lparr>f_ID := i\<rparr>) (db0 @ [RForward (rule\<lparr>f_ID := i\<rparr>)])" if "uniq_ok (db0 @ [RForward (rule\<lparr>f_ID := i\<rparr>)])" for i
      using that fwd new(2) free port by (auto simp: fwd_ok_def fwd_valid_def tables_Cons)
    show "hoare (at db0) (andthen (attempt (create exec (RForward rule))) (\<lambda>r.
       andthen (lift_res (unique_as ErrPortForwardConflict r)) (\<lambda>r.
       case r of RForward rule \<Rightarrow> ret rule | _ \<Rightarrow> fail ErrRecordNotFound))) ?Q (at db0)"
    proof (rule hoare_andthen [OF attempted_create_at [OF ok refl]])
      show "fst (key_of (gorm_defaults (RForward rule))) = 0" using new by simp
      fix x
      show "hoare (\<lambda>db. case x of Inl _ \<Rightarrow> at db0 db
            | Inr y \<Rightarrow> uniq_ok db \<and> (\<exists>i. y = set_id i (gorm_defaults (RForward rule)) \<and> db = db0 @ [y]))
         (andthen (lift_res (unique_as ErrPortForwardConflict x)) (\<lambda>r.
       case r of RForward rule \<Rightarrow> ret rule | _ \<Rightarrow> fail ErrRecordNotFound)) ?Q (at db0)"
      proof (cases x)
        case (Inl e)
        then show ?thesis by (auto intro!: hoareI simp: andthen_def lift_res_def unique_as_def split: if_splits)
      next
        case (Inr y)
        then show ?thesis using good
          by (fastforce intro!: hoareI simp: andthen_def lift_res_def unique_as_def ret_def fail_def)
      qed
    qed
  qed
qed auto

definition forward_saved :: "PortForward \<Rightarrow> db \<Rightarrow> db \<Rightarrow> bool" where
  "forward_saved u db db' = (db' = map (\<lambda>x. if table_of x = TForward \<and> key_of x = (f_ID u, 0) then RForward u else x) db)"

lemma forward_saved_rows:
  "forward_saved u db db' \<Longrightarrow> t_forwards db' = map (\<lambda>x. if f_ID x = f_ID u then u else x) (t_forwards db)"
proof -
  have "t_forwards (map (\<lambda>x. if table_of x = TForward \<and> key_of x = (f_ID u, 0) then RForward u else x) db) =
      map (\<lambda>x. if f_ID x = f_ID u then u else x) (t_forwards db)" for db
    by (induction db) (auto simp: tables_Cons split: row.splits)
  then show "forward_saved u db db' \<Longrightarrow> t_forwards db' = map (\<lambda>x. if f_ID x = f_ID u then u else x) (t_forwards db)"
    by (simp add: forward_saved_def)
qed

lemma save_forward:
  assumes "sem (Save (RForward u)) db db' rows" "f \<in> set (t_forwards db)" "f_ID f = f_ID u"
  shows "forward_saved u db db'"
  using saved [OF assms(1), of "RForward f"] assms(2,3) by (simp add: set_tables forward_saved_def)

lemma fwd_ok_replace:
  assumes "uniq_ok db" "fwd_ok db" "fwd_valid u" "t_forwards db' = map (\<lambda>x. if f_ID x = f_ID u then u else x) (t_forwards db)"
    and free: "\<And>g. g \<in> set (t_forwards db) \<Longrightarrow> f_ID g \<noteq> f_ID u \<Longrightarrow> f_ListenPort g \<noteq> f_ListenPort u"
  shows "fwd_ok db'"
proof -
  let ?h = "\<lambda>x. if f_ID x = f_ID u then u else x"
  have d: "distinct (map f_ListenPort (t_forwards db))" using assms(2) by (simp add: fwd_ok_def)
  have "inj_on (f_ListenPort \<circ> ?h) (set (t_forwards db))"
  proof (rule inj_onI)
    fix x y assume xy: "x \<in> set (t_forwards db)" "y \<in> set (t_forwards db)" "(f_ListenPort \<circ> ?h) x = (f_ListenPort \<circ> ?h) y"
    show "x = y"
    proof (cases "f_ID x = f_ID y")
      case True
      then show ?thesis using by_key(3) [OF assms(1)] xy(1,2) by blast
    next
      case False
      then have "f_ListenPort x = f_ListenPort y"
        using xy free [of x] free [of y] by (auto split: if_splits)
      then show ?thesis using d xy(1,2) unfolding distinct_map by (blast dest: inj_onD)
    qed
  qed
  then have "distinct (map f_ListenPort (t_forwards db'))"
    using d unfolding assms(4) by (simp add: distinct_map comp_def)
  moreover have "list_all fwd_valid (t_forwards db')"
    using assms(2,3) unfolding assms(4) by (auto simp: fwd_ok_def list_all_iff)
  ultimately show ?thesis by (simp add: fwd_ok_def list_all_iff)
qed

lemma save_forward_at:
  assumes ok: "sql_ok exec" and fwd: "fwd_ok db0" and u: "fwd_valid u" "f \<in> set (t_forwards db0)" "f_ID f = f_ID u"
    and free: "\<And>g. g \<in> set (t_forwards db0) \<Longrightarrow> f_ID g \<noteq> f_ID u \<Longrightarrow> f_ListenPort g \<noteq> f_ListenPort u"
  shows "hoare (at db0) (andthen (attempt (exec_stmt exec (Save (RForward u)))) (\<lambda>r.
       andthen (lift_res (unique_as ErrPortForwardConflict r)) (\<lambda>_. ret u)))
    (\<lambda>x db. x = u \<and> uniq_ok db \<and> fwd_ok db \<and> forward_saved u db0 db) (at db0)"
    (is "hoare _ _ ?Q _")
proof (rule hoare_andthen)
  show "hoare (at db0) (attempt (exec_stmt exec (Save (RForward u))))
     (\<lambda>r db. case r of Inl _ \<Rightarrow> at db0 db | Inr _ \<Rightarrow> ?Q u db) (at db0)"
  proof (rule hoare_attempt, rule hoare_stmt [OF ok])
    fix db db' rows assume a: "at db0 db" "uniq_ok db'" "sem (Save (RForward u)) db db' rows"
    with save_forward [of u db db' rows f] u have t: "forward_saved u db0 db'" by blast
    from fwd_ok_replace [OF _ fwd u(1) forward_saved_rows [OF t] free] a t
    show "case Inr () of Inl _ \<Rightarrow> at db0 db' | Inr _ \<Rightarrow> ?Q u db'" by auto
  qed auto
next
  fix r
  show "hoare (\<lambda>db. case r of Inl _ \<Rightarrow> at db0 db | Inr _ \<Rightarrow> ?Q u db)
     (andthen (lift_res (unique_as ErrPortForwardConflict r)) (\<lambda>_. ret u)) ?Q (at db0)"
    by (cases r) (auto intro!: hoareI simp: andthen_def lift_res_def unique_as_def ret_def split: if_splits)
qed

lemma GetPortForward_at:
  assumes "sql_ok exec"
  shows "hoare (at db0) (GetPortForward exec i) (\<lambda>f db. at db0 db \<and> (f \<in> set (t_forwards db0) \<and> f_ID f = i)) (at db0)"
  unfolding GetPortForward_def
proof (rule hoare_read)
  show "hoare (at db0) (attempt (first_forward exec (\<lambda>f. f_ID f = i)))
     (\<lambda>r db. at db0 db \<and> (case r of Inl _ \<Rightarrow> True | Inr f \<Rightarrow> f \<in> set (t_forwards db0) \<and> f_ID f = i)) (at db0)"
    by (rule hoare_attempt, rule hoare_weaken [OF first_typed_at(5) [OF assms]]) auto
qed (auto intro!: hoare_lift simp: not_found_as_def split: sum.splits)

lemma UpdatePortForward_triple:
  assumes ok: "sql_ok exec" and fwd: "fwd_ok db0"
  shows "hoare (at db0) (UpdatePortForward exec i HubTunnelWebPort inp)
    (\<lambda>u db. uniq_ok db \<and> fwd_ok db \<and> f_ID u = i \<and> f_ListenPort u = pi_ListenPort inp \<and>
       forward_saved u db0 db) (at db0)"
    (is "hoare _ _ ?Q _")
  unfolding UpdatePortForward_def
proof (rule hoare_read [OF GetPortForward_at [OF ok]], rule hoare_lift_read)
  fix rule updated assume r: "rule \<in> set (t_forwards db0) \<and> f_ID rule = i"
    and n: "normalizePortForward inp HubTunnelWebPort = Inr updated"
  let ?u = "updated\<lparr>f_ID := f_ID rule\<rparr>"
  have port: "f_ListenPort ?u = pi_ListenPort inp"
    using n by (auto simp: normalizePortForward_def res_bind_eq_Inr Let_def split: if_splits)
  have valid: "fwd_valid ?u" using normalizePortForward_valid [OF n] by (simp add: fwd_valid_def)
  have check: "hoare (at db0) (if f_ListenPort updated \<noteq> f_ListenPort rule
              then isHubListenPortUsed exec (f_ListenPort updated) (f_ID rule) else ret False)
     (\<lambda>t db. at db0 db \<and> (\<not> t \<longrightarrow> (\<forall>g \<in> set (t_forwards db0). f_ID g \<noteq> f_ID rule \<longrightarrow> f_ListenPort g \<noteq> f_ListenPort updated))) (at db0)"
  proof (rule hoare_if)
    show "hoare (at db0) (isHubListenPortUsed exec (f_ListenPort updated) (f_ID rule))
     (\<lambda>t db. at db0 db \<and> (\<not> t \<longrightarrow> (\<forall>g \<in> set (t_forwards db0). f_ID g \<noteq> f_ID rule \<longrightarrow> f_ListenPort g \<noteq> f_ListenPort updated))) (at db0)"
      by (rule hoare_weaken [OF isHubListenPortUsed_at [OF ok]]) auto
  next
    assume "\<not> f_ListenPort updated \<noteq> f_ListenPort rule"
    then have "f_ListenPort g \<noteq> f_ListenPort updated" if "g \<in> set (t_forwards db0)" "f_ID g \<noteq> f_ID rule" for g
      using fwd r that by (auto simp: fwd_ok_def distinct_map dest: inj_onD)
    then show "hoare (at db0) (ret False)
     (\<lambda>t db. at db0 db \<and> (\<not> t \<longrightarrow> (\<forall>g \<in> set (t_forwards db0). f_ID g \<noteq> f_ID rule \<longrightarrow> f_ListenPort g \<noteq> f_ListenPort updated))) (at db0)"
      by (auto intro: hoare_ret)
  qed
  show "hoare (at db0) (andthen (if f_ListenPort updated \<noteq> f_ListenPort rule
              then isHubListenPortUsed exec (f_ListenPort updated) (f_ID rule) else ret False) (\<lambda>taken.
     if taken then fail (PortForwardListenPortError (f_ListenPort updated))
     else let updated = ?u in
       andthen (attempt (exec_stmt exec (Save (RForward updated)))) (\<lambda>r.
       andthen (lift_res (unique_as ErrPortForwardConflict r)) (\<lambda>_. ret updated)))) ?Q (at db0)"
    unfolding Let_def
  proof (rule hoare_read [OF check], rule hoare_if, rule hoare_fail, assumption)
    fix taken assume "\<not> taken \<longrightarrow> (\<forall>g \<in> set (t_forwards db0). f_ID g \<noteq> f_ID rule \<longrightarrow> f_ListenPort g \<noteq> f_ListenPort updated)" "\<not> taken"
    then have free: "f_ListenPort g \<noteq> f_ListenPort ?u" if "g \<in> set (t_forwards db0)" "f_ID g \<noteq> f_ID ?u" for g
      using that by simp
    show "hoare (at db0) (andthen (attempt (exec_stmt exec (Save (RForward ?u)))) (\<lambda>r.
       andthen (lift_res (unique_as ErrPortForwardConflict r)) (\<lambda>_. ret ?u))) ?Q (at db0)"
      by (rule hoare_weaken [OF save_forward_at [OF ok fwd valid conjunct1 [OF r] _ free]]) (use r port in auto)
  qed
qed auto

text \<open>
  An accepted edit of a forward keeps its identity, replaces exactly that row, and leaves no two
  forwards on one port and none on the hub's own DNS or web ports; a refused edit changes nothing.
\<close>

theorem UpdatePortForward_unique:
  assumes "sql_ok exec" "uniq_ok db" "fwd_ok db"
    and "UpdatePortForward exec i HubTunnelWebPort inp (n, db) = (r, (n', db'))"
  shows "case r of Inl _ \<Rightarrow> db' = db
    | Inr u \<Rightarrow> uniq_ok db' \<and> fwd_ok db' \<and> f_ID u = i \<and> f_ListenPort u = pi_ListenPort inp \<and>
        t_forwards db' = map (\<lambda>x. if f_ID x = i then u else x) (t_forwards db)"
  using hoare_outcome [OF UpdatePortForward_triple [OF assms(1,3)] assms(2,4)]
  by (cases r) (auto dest: forward_saved_rows)

definition ex_forward :: PortForward where
  "ex_forward = \<lparr>f_ID = 1, f_Name = [], f_ListenPort = 8080, f_Protocol = ''tcp'', f_TargetHost = ''10.9.9.9'', f_TargetPort = 80\<rparr>"

definition ex_forward_input :: PortForwardInput where
  "ex_forward_input = \<lparr>pi_Name = [], pi_ListenPort = 9090, pi_Protocol = ''UDP'', pi_TargetHost = ''10.9.9.9'', pi_TargetPort = 53\<rparr>"

lemma ex_normalize_forward: "normalizePortForward ex_forward_input HubTunnelWebPort =
    Inr \<lparr>f_ID = 0, f_Name = [], f_ListenPort = 9090, f_Protocol = ''udp'', f_TargetHost = ''10.9.9.9'', f_TargetPort = 53\<rparr>"
  by (simp add: normalizePortForward_def ex_forward_input_def ex_target ValidateForwardProtocol_def ForwardProtoTCP_def
      ForwardProtoUDP_def ValidateForwardListenPort_def ValidateForwardPort_def HubDNSPort_def HubTunnelWebPort_def ev chr_eval)

theorem UpdatePortForward_unique_witness:
  "case UpdatePortForward list_sql 1 HubTunnelWebPort ex_forward_input (0, [RForward ex_forward]) of (r, (n, db)) \<Rightarrow>
     is_ok r \<and> fwd_ok db \<and> map f_ListenPort (t_forwards db) = [9090]"
proof -
  let ?u = "\<lparr>f_ID = 1, f_Name = [], f_ListenPort = 9090, f_Protocol = ''udp'', f_TargetHost = ''10.9.9.9'', f_TargetPort = 53\<rparr>"
  have ok: "uniq_ok [RForward ex_forward]" "fwd_ok [RForward ex_forward]"
    using valid_target_host [OF ex_target]
    by (auto simp: uniq_ok_def fwd_ok_def fwd_valid_def ex_forward_def tables_Cons ForwardProtoTCP_def HubTunnelWebPort_def HubDNSPort_def)
  have run: "UpdatePortForward list_sql 1 HubTunnelWebPort ex_forward_input (0, [RForward ex_forward]) =
      (Inr ?u, (3, [RForward ?u]))"
    by (simp add: UpdatePortForward_def ex_normalize_forward GetPortForward_def first_forward_def not_found_as_def
        isHubListenPortUsed_def unique_as_def db_eval ex_forward_def uniq_ok_def)
  have "t_forwards [RForward ?u] = [?u]" by (simp add: tables_Cons)
  with UpdatePortForward_unique [OF list_sql_ok ok run] run show ?thesis by simp
qed

section \<open>Setup and reset\<close>

lemma IsConfigured_at:
  assumes "sql_ok exec"
  shows "hoare (at db0) (IsConfigured exec) (\<lambda>b db. at db0 db \<and> (b \<longleftrightarrow> t_admins db0 \<noteq> [] \<and> t_settings db0 \<noteq> [])) (at db0)"
  unfolding IsConfigured_def
proof (rule hoare_read [OF count_at [OF assms]], rule hoare_read [OF count_at [OF assms]], rule hoare_ret, rule conjI, assumption)
  fix n k db
  assume "n = length (filter (\<lambda>r. table_of r = TAdmin \<and> True) db0)" "k = length (filter (\<lambda>r. table_of r = TSettings \<and> True) db0)"
  then have "0 < n \<longleftrightarrow> (\<exists>r \<in> set db0. table_of r = TAdmin)" "0 < k \<longleftrightarrow> (\<exists>r \<in> set db0. table_of r = TSettings)"
    by (auto simp: filter_empty_conv)
  then show "(0 < n \<and> 0 < k) = (t_admins db0 \<noteq> [] \<and> t_settings db0 \<noteq> [])" unfolding ex_on by blast
qed

lemma setup_rows_ids: "setup_rows bcrypt inp = Inr (adm, se) \<Longrightarrow> ad_ID adm = 0 \<and> se_ID se = 0"
  by (auto simp: setup_rows_def res_bind_eq_Inr Let_def split: if_splits sum.splits)

definition setup_done :: "db \<Rightarrow> Admin \<Rightarrow> Settings \<Rightarrow> db \<Rightarrow> bool" where
  "setup_done db0 adm se db = (\<exists>i j k. db = db0 @ [RAdmin (adm\<lparr>ad_ID := i\<rparr>), RSettings (se\<lparr>se_ID := j\<rparr>),
     RGroup \<lparr>g_ID = k, g_Name = ''default'', g_PosX = 0, g_PosY = 0, g_AllowIntraGroup = True\<rparr>])"

lemma create_step:
  assumes "sql_ok exec" "gorm_defaults r = r'" "fst (key_of r') = 0"
    and "\<And>i. uniq_ok (db0 @ [set_id i r']) \<Longrightarrow> hoare (at (db0 @ [set_id i r'])) (f (set_id i r')) Q (\<lambda>_. True)"
  shows "hoare (at db0) (andthen (create exec r) f) Q (\<lambda>_. True)"
proof (rule hoare_andthen)
  show "hoare (at db0) (create exec r) (\<lambda>x db. \<exists>i. at (db0 @ [set_id i r']) db \<and> x = set_id i r') (\<lambda>_. True)"
    by (rule hoare_weaken [OF create_at [OF assms(1,2)]]) (auto simp: assms(3))
  show "hoare (\<lambda>db. \<exists>i. at (db0 @ [set_id i r']) db \<and> x = set_id i r') (f x) Q (\<lambda>_. True)" for x
    using assms(4) unfolding hoare_def by blast
qed

lemma Setup_triple:
  assumes ok: "sql_ok exec"
  shows "hoare (at db0) (Setup exec bcrypt inp)
    (\<lambda>_ db. uniq_ok db \<and> (t_admins db0 = [] \<or> t_settings db0 = []) \<and>
       (\<exists>adm se. setup_rows bcrypt inp = Inr (adm, se) \<and> setup_done db0 adm se db)) (at db0)"
    (is "hoare _ _ ?Q _")
  unfolding Setup_def
proof (rule hoare_read [OF IsConfigured_at [OF ok]], rule hoare_if, rule hoare_fail, assumption, rule hoare_lift_read, clarify)
  fix adm se
  assume free: "\<not> (t_admins db0 \<noteq> [] \<and> t_settings db0 \<noteq> [])" and rows: "setup_rows bcrypt inp = Inr (adm, se)"
  let ?g = "\<lparr>g_ID = 0, g_Name = ''default'', g_PosX = 0, g_PosY = 0, g_AllowIntraGroup = False\<rparr>"
  let ?tx = "andthen (create exec (RAdmin adm)) (\<lambda>_. andthen (create exec (RSettings se)) (\<lambda>_.
       andthen (create exec (RGroup ?g)) (\<lambda>_. ret ())))"
  have "hoare (at db0) ?tx (\<lambda>_ db. uniq_ok db \<and> setup_done db0 adm se db) (\<lambda>_. True)"
    by (rule create_step [OF ok], simp, simp add: setup_rows_ids [OF rows],
        rule create_step [OF ok], simp, simp add: setup_rows_ids [OF rows],
        rule create_step [OF ok], simp, simp, rule hoare_ret) (auto simp: setup_done_def)
  then show "hoare (at db0) (transaction ?tx) ?Q (at db0)"
    using free rows by (intro hoare_transaction) (auto intro: hoare_weaken)
qed auto

text \<open>
  C20: a setup that succeeds ran on a hub that was not configured, leaves it configured (an admin with
  its password hash, the settings with the hub's address, the default group, all in one transaction),
  and cannot be repeated; a setup that fails leaves the database as it was.
\<close>

theorem Setup_once:
  assumes "sql_ok exec" "uniq_ok db" and "Setup exec bcrypt inp (n, db) = (r, (n', db'))"
  shows "case r of Inl _ \<Rightarrow> db' = db
    | Inr _ \<Rightarrow> uniq_ok db' \<and> (t_admins db = [] \<or> t_settings db = []) \<and>
       (\<exists>adm se. setup_rows bcrypt inp = Inr (adm, se) \<and> setup_done db adm se db') \<and>
       \<not> is_ok (fst (Setup exec bcrypt inp2 (m, db')))"
proof -
  note first = hoare_outcome [OF Setup_triple [OF assms(1)] assms(2,3)]
  show ?thesis
  proof (cases r)
    case (Inr u)
    with first obtain adm se where u: "uniq_ok db'" and "setup_done db adm se db'" by auto
    then have "t_admins db' \<noteq> []" "t_settings db' \<noteq> []" by (auto simp: setup_done_def tables_Cons)
    moreover obtain r2 n2 db2 where "Setup exec bcrypt inp2 (m, db') = (r2, (n2, db2))"
      by (cases "Setup exec bcrypt inp2 (m, db')") auto
    ultimately have "\<not> is_ok (fst (Setup exec bcrypt inp2 (m, db')))"
      using hoare_outcome [OF Setup_triple [OF assms(1)] u, of bcrypt inp2 m r2 n2 db2] by (cases r2) auto
    with Inr first show ?thesis by simp
  qed (use first in simp)
qed

definition ex_setup :: SetupInput where
  "ex_setup = \<lparr>si_Endpoint = ''vpn.example.com:51820'', si_Subnet = ''10.0.0.5/24'', si_AdminUsername = [],
     si_AdminPassword = ''hunter22'', si_MTU = 0, si_StatusInterval = 0, si_ListenPort = 0,
     si_ServerPrivateKey = ''s'', si_ServerPublicKey = ''S'', si_UpstreamDNS = []\<rparr>"

lemma ex_setup_rows: "is_ok (setup_rows Inr ex_setup)"
proof -
  have "hc_Subnet (NormalizeHubConfig example_config) = ''10.0.0.5/24''"
    by (simp add: example_config_def ev)
  then show ?thesis
    using example_config_ok FirstHostIP_host_bits
    by (simp add: setup_rows_def ex_setup_def example_config_def HashPassword_def ValidatePassword_def minPasswordLen_def
        ValidateEndpointPort_def DefaultEndpointPort_def Let_def)
qed

theorem Setup_once_witness:
  "\<exists>n db. Setup list_sql Inr ex_setup (0, []) = (Inr (), (n, db)) \<and> t_admins db \<noteq> [] \<and> t_settings db \<noteq> [] \<and>
     \<not> is_ok (fst (Setup list_sql Inr ex_setup (0, db)))"
proof -
  obtain adm se where rows: "setup_rows Inr ex_setup = Inr (adm, se)"
    using ex_setup_rows by (cases "setup_rows Inr ex_setup") auto
  have "\<exists>n db. Setup list_sql Inr ex_setup (0, []) = (Inr (), (n, db))"
    using setup_rows_ids [OF rows] by (simp add: Setup_def IsConfigured_def rows db_eval uniq_ok_def)
  then obtain n db where run: "Setup list_sql Inr ex_setup (0, []) = (Inr (), (n, db))" by blast
  have "uniq_ok []" by (simp add: uniq_ok_def)
  from Setup_once [OF list_sql_ok this run, of ex_setup 0] have "(\<exists>adm se. setup_done [] adm se db) \<and>
      \<not> is_ok (fst (Setup list_sql Inr ex_setup (0, db)))" by auto
  with run show ?thesis by (fastforce simp: setup_done_def tables_Cons)
qed

lemma ResetAll_triple:
  assumes ok: "sql_ok exec"
  shows "hoare (at db0) (ResetAll exec) (\<lambda>_ db. db = []) (at db0)"
  unfolding ResetAll_def
proof (rule hoare_transaction)
  fix db1 assume "at db0 db1"
  let ?all = "[TDNS, TPeer, TLink, TAllow, TMap, TGroup, TAdmin, TSettings, TForward]"
  have all: "table_of r \<in> set ?all" for r by (cases r) simp_all
  have empty: "filter (\<lambda>r. table_of r \<notin> set ?all) db0 = []" by (simp only: filter_empty_conv all) simp
  have loop: "hoare (at d) (for_each ts (\<lambda>t. exec_stmt exec (Delete t (\<lambda>_. True))))
     (\<lambda>_. at (filter (\<lambda>r. table_of r \<notin> set ts) d)) (\<lambda>_. True)" for ts d
  proof (induction ts arbitrary: d)
    case Nil
    then show ?case by (simp add: hoare_ret)
  next
    case (Cons t ts)
    have f: "filter (\<lambda>r. table_of r \<notin> set ts) (filter (\<lambda>r. table_of r \<noteq> t) d) = filter (\<lambda>r. table_of r \<notin> set (t # ts)) d"
      by (simp add: conj_commute)
    have "hoare (at d) (exec_stmt exec (Delete t (\<lambda>_. True))) (\<lambda>_. at (filter (\<lambda>r. table_of r \<noteq> t) d)) (\<lambda>_. True)"
      by (rule hoare_weaken [OF delete_at [OF ok]]) auto
    from hoare_andthen [OF this Cons.IH] show ?case by (simp only: for_each.simps f)
  qed
  show "hoare (\<lambda>db. db = db1) (for_each ?all (\<lambda>t. exec_stmt exec (Delete t (\<lambda>_. True)))) (\<lambda>_ db. db = []) (\<lambda>_. True)"
    by (rule hoare_weaken [OF loop [of db0 ?all]]) (use \<open>at db0 db1\<close> empty in auto)
qed auto

end
