(* ===== verification/Sync_Bundle.thy ===== *)
theory Sync_Bundle
  imports Policy
begin

text \<open>
  Package \<^verbatim>\<open>domain/runtime\<close>: the snapshot the control plane pushes to the data plane, and the DNS
  catalog built from it.
\<close>

record NetworkSettings =
  ns_HubIP :: string
  ns_DNSIP :: string
  ns_WGSubnet :: string
  ns_ServerPrivateKey :: string
  ns_MTU :: int
  ns_ListenPort :: int
  ns_StatusInterval :: int
  ns_UpstreamDNS :: "string list"

record WGPeer =
  wp_ID :: nat
  wp_PublicKey :: string
  wp_WGIP :: string
  wp_DNSName :: string
  wp_GroupID :: nat
  wp_Enabled :: bool

record ForwardRule =
  fr_ID :: nat
  fr_ListenPort :: int
  fr_Protocol :: string
  fr_TargetHost :: string
  fr_TargetPort :: int

record MapRule =
  mr_ID :: nat
  mr_Slug :: string
  mr_TargetHost :: string
  mr_VirtualIP :: string
  mr_AllowedGroupIDs :: "nat goset"

record MapDNSEntry =
  md_VirtualIP :: string
  md_AllowedGroupIDs :: "nat goset"

record DNSCatalog =
  dc_HubIP :: string
  dc_Peers :: "(string, string) gomap"
  dc_Maps :: "(string, MapDNSEntry) gomap"

record SyncBundle =
  sb_Settings :: NetworkSettings
  sb_Peers :: "WGPeer list"
  sb_Policy :: AccessPolicySpec
  sb_Forwards :: "ForwardRule list"
  sb_Maps :: "MapRule list"
  sb_DNS :: DNSCatalog

definition MapVirtualIPs :: "SyncBundle \<Rightarrow> string list" where
  "MapVirtualIPs b = filter (\<lambda>v. v \<noteq> []) (map mr_VirtualIP (sb_Maps b))"

definition peer_slug :: "WGPeer \<Rightarrow> string" where
  "peer_slug p = (if wp_DNSName p = [] then wp_WGIP p else wp_DNSName p)"

definition BuildDNSCatalog :: "string \<Rightarrow> WGPeer list \<Rightarrow> MapRule list \<Rightarrow> DNSCatalog" where
  "BuildDNSCatalog hubIP peers maps =
     \<lparr>dc_HubIP = hubIP,
      dc_Peers = fold (\<lambda>p m. if \<not> wp_Enabled p then m
        else let slug = peer_slug p in
          if slug \<noteq> [] \<and> wp_WGIP p \<noteq> [] then mput slug (wp_WGIP p) m else m) peers [],
      dc_Maps = fold (\<lambda>r m. if mr_Slug r = [] \<or> mr_VirtualIP r = [] then m
        else mput (mr_Slug r) \<lparr>md_VirtualIP = mr_VirtualIP r, md_AllowedGroupIDs = mr_AllowedGroupIDs r\<rparr> m) maps []\<rparr>"

section \<open>What the catalog holds\<close>

lemma fold_put_distinct:
  assumes "distinct (map k xs)"
  shows "mget (fold (\<lambda>x m. if P x then mput (k x) (v x) m else m) xs m0) key =
     (case find (\<lambda>x. P x \<and> k x = key) xs of Some x \<Rightarrow> Some (v x) | None \<Rightarrow> mget m0 key)"
  using assms
proof (induction xs arbitrary: m0)
  case Nil
  then show ?case by simp
next
  case (Cons x xs)
  have "find (\<lambda>y. P y \<and> k y = k x) xs = None"
    using Cons.prems by (auto simp: find_None_iff image_iff)
  with Cons show ?case by (auto split: option.splits)
qed

lemma dc_Peers_fold:
  "dc_Peers (BuildDNSCatalog hub peers maps) =
     fold (\<lambda>p m. if wp_Enabled p \<and> peer_slug p \<noteq> [] \<and> wp_WGIP p \<noteq> [] then mput (peer_slug p) (wp_WGIP p) m else m) peers []"
  unfolding BuildDNSCatalog_def DNSCatalog.simps Let_def
  by (rule fold_cong [OF refl refl]) (auto simp: fun_eq_iff)

lemma dc_Maps_fold:
  "dc_Maps (BuildDNSCatalog hub peers maps) =
     fold (\<lambda>r m. if mr_Slug r \<noteq> [] \<and> mr_VirtualIP r \<noteq> [] then mput (mr_Slug r)
       \<lparr>md_VirtualIP = mr_VirtualIP r, md_AllowedGroupIDs = mr_AllowedGroupIDs r\<rparr> m else m) maps []"
  unfolding BuildDNSCatalog_def DNSCatalog.simps
  by (rule fold_cong [OF refl refl]) (simp add: fun_eq_iff)

text \<open>
  The catalog answers for a name exactly when an enabled peer with an address carries it, and
  then with that peer's address.  (The names of the peers are unique in the store.)
\<close>

theorem BuildDNSCatalog_peers:
  assumes "distinct (map peer_slug peers)"
  shows "mget (dc_Peers (BuildDNSCatalog hub peers maps)) name = Some ip \<longleftrightarrow>
     (\<exists>p \<in> set peers. wp_Enabled p \<and> peer_slug p = name \<and> name \<noteq> [] \<and> wp_WGIP p = ip \<and> ip \<noteq> [])"
proof -
  have uniq: "q = p" if "p \<in> set peers" "q \<in> set peers" "peer_slug p = peer_slug q" for p q
    using assms that by (auto simp: distinct_map dest: inj_onD)
  show ?thesis
    unfolding dc_Peers_fold fold_put_distinct [OF assms]
    by (auto split: option.splits simp: find_None_iff find_Some_iff) (metis uniq nth_mem)+
qed

theorem BuildDNSCatalog_peers_witness:
  "mget (dc_Peers (BuildDNSCatalog ''10.0.0.1''
     [\<lparr>wp_ID = 1, wp_PublicKey = ''k'', wp_WGIP = ''10.0.0.2'', wp_DNSName = ''nas'', wp_GroupID = 1, wp_Enabled = True\<rparr>,
      \<lparr>wp_ID = 2, wp_PublicKey = ''l'', wp_WGIP = ''10.0.0.3'', wp_DNSName = ''tv'', wp_GroupID = 1, wp_Enabled = False\<rparr>] []))
     ''nas'' = Some ''10.0.0.2''"
  by (subst BuildDNSCatalog_peers) (auto simp: peer_slug_def)

end
