(* ===== verification/Service_Base.thy ===== *)
theory Service_Base
  imports Store_Props Sync_Bundle
begin

text \<open>
  Package \<^verbatim>\<open>service\<close>, the control plane's root: the application state, the hub that owns the
  network runtime (\<^verbatim>\<open>hub.go\<close>, \<^verbatim>\<open>network.go\<close>), the snapshot pushed to the data plane
  (\<^verbatim>\<open>sync.go\<close>, \<^verbatim>\<open>access.go\<close>) and the reconciliation after a mutation (\<^verbatim>\<open>mutation.go\<close>).
  The network runtime is the interface \<^verbatim>\<open>networkRuntime\<close> together with \<^verbatim>\<open>Dataplane\<close>: its
  operations are a record that the definitions take, as the code takes the interface value.  Every
  mutating method holds \<^verbatim>\<open>controlMu\<close>, so each one is one step here.
\<close>

section \<open>State\<close>

record PeerStats =
  ps_PublicKey :: string
  ps_LastHandshake :: "int option"
  ps_RxBytes :: int
  ps_TxBytes :: int

text \<open>
  The interface: \<open>Start\<close> and \<open>Stop\<close> report whether the runtime called back \<^verbatim>\<open>OnStarted\<close> or
  \<^verbatim>\<open>OnStopped\<close>.
\<close>

record 'rt net_ops =
  op_Start :: "SyncBundle \<Rightarrow> ('rt, bool) act"
  op_Stop :: "('rt, bool) act"
  op_SetDNSUpstream :: "string list \<Rightarrow> 'rt \<Rightarrow> 'rt"
  op_ApplyPolicy :: "AccessPolicySpec \<Rightarrow> ('rt, unit) act"
  op_FullSync :: "SyncBundle \<Rightarrow> ('rt, unit) act"
  op_GetStats :: "('rt, (string, PeerStats) gomap option) act"

text \<open>
  \<open>app_live\<close>: the hub holds a data plane (\<^verbatim>\<open>liveDP\<close>, always the runtime itself);
  \<open>app_poller\<close>: the interval of the running status poller.
\<close>

record 'rt App =
  app_store :: st
  app_setupToken :: string
  app_net :: "'rt option"
  app_live :: bool
  app_poller :: "int option"

type_synonym ('rt, 'a) svc = "('rt App, 'a) act"

text \<open>A store operation, run on the application.\<close>

definition store :: "'a prog \<Rightarrow> ('rt, 'a) svc" where
  "store m = (\<lambda>a. case m (app_store a) of (r, s) \<Rightarrow> (r, a\<lparr>app_store := s\<rparr>))"

text \<open>An error that is dropped or replaced.\<close>

definition ignore :: "('s, 'a) act \<Rightarrow> ('s, unit) act" where
  "ignore m = andthen (attempt m) (\<lambda>_. ret ())"

definition or_err :: "err \<Rightarrow> ('s, 'a) act \<Rightarrow> ('s, 'a) act" where
  "or_err e m = andthen (attempt m) (\<lambda>r. case r of Inl _ \<Rightarrow> fail e | Inr x \<Rightarrow> ret x)"

section \<open>Setup token (\<^verbatim>\<open>app.go\<close>)\<close>

definition SetSetupToken :: "string \<Rightarrow> 'rt App \<Rightarrow> 'rt App" where
  "SetSetupToken token a = a\<lparr>app_setupToken := token\<rparr>"

definition SetupToken :: "'rt App \<Rightarrow> string" where
  "SetupToken a = app_setupToken a"

definition setupTokenValid :: "'rt App \<Rightarrow> string \<Rightarrow> bool" where
  "setupTokenValid a token = (token \<noteq> [] \<and> token = app_setupToken a)"

section \<open>Access policy (\<^verbatim>\<open>access.go\<close>)\<close>

definition peerEndpoints :: "Peer list \<Rightarrow> PeerEndpoint list" where
  "peerEndpoints peers = map (\<lambda>p. \<lparr>pe_ID = p_ID p, pe_Name = p_Name p, pe_DNSName = p_DNSName p,
     pe_WGIP = p_WGIP p, pe_GroupID = p_GroupID p, pe_Enabled = p_Enabled p\<rparr>) peers"

definition groupLinkPairs :: "GroupLink list \<Rightarrow> GroupLinkPair list" where
  "groupLinkPairs links = map (\<lambda>l. \<lparr>gl_From = l_From l, gl_To = l_To l, gl_Bidirectional = l_Bidirectional l\<rparr>) links"

definition groupAccessList :: "PeerGroup list \<Rightarrow> GroupAccess list" where
  "groupAccessList groups = map (\<lambda>g. \<lparr>ga_ID = g_ID g, ga_AllowIntraGroup = g_AllowIntraGroup g\<rparr>) groups"

definition map_access_of :: "MapDetail list \<Rightarrow> MapAccessPolicy" where
  "map_access_of details = NewMapAccessPolicy
     (map (\<lambda>d. NewMapAccess (m_VirtualIP (mdt_Map d)) (mdt_AllowedGroups d)) details)"

definition buildMapAccessPolicy :: "sql \<Rightarrow> MapAccessPolicy prog" where
  "buildMapAccessPolicy exec = andthen (ListMapDetails exec) (\<lambda>details. ret (map_access_of details))"

definition buildAccessPolicySpecFrom ::
  "sql \<Rightarrow> PeerEndpoint list \<Rightarrow> GroupLinkPair list \<Rightarrow> GroupAccess list \<Rightarrow> AccessPolicySpec prog" where
  "buildAccessPolicySpecFrom exec peers linkPairs groupAccess =
     andthen (buildMapAccessPolicy exec) (\<lambda>mapPolicy.
       lift_res (BuildAccessPolicySpec peers linkPairs (NewGroupAccessPolicy groupAccess) mapPolicy))"

definition buildAccessPolicySpec :: "sql \<Rightarrow> AccessPolicySpec prog" where
  "buildAccessPolicySpec exec =
     andthen (ListPeers exec) (\<lambda>peers.
     andthen (ListGroupLinks exec) (\<lambda>links.
     andthen (ListGroups exec) (\<lambda>groups.
     buildAccessPolicySpecFrom exec (peerEndpoints peers) (groupLinkPairs links) (groupAccessList groups))))"

text \<open>Calling the data plane: an operation of the runtime, run on the application when there is one.\<close>

definition on_net :: "('rt \<Rightarrow> (err + 'a) \<times> 'rt) \<Rightarrow> 'a \<Rightarrow> ('rt, 'a) svc" where
  "on_net m dflt = (\<lambda>a. case app_net a of None \<Rightarrow> (Inr dflt, a)
     | Some rt \<Rightarrow> (case m rt of (r, rt') \<Rightarrow> (r, a\<lparr>app_net := Some rt'\<rparr>)))"

definition SyncAccessFilter :: "'rt net_ops \<Rightarrow> sql \<Rightarrow> ('rt, unit) svc" where
  "SyncAccessFilter ops exec =
     andthen (store (buildAccessPolicySpec exec)) (\<lambda>spec a.
       if \<not> app_live a then (Inr (), a) else on_net (op_ApplyPolicy ops spec) () a)"

section \<open>Snapshot (\<^verbatim>\<open>sync.go\<close>)\<close>

definition wg_peer :: "Peer \<Rightarrow> WGPeer" where
  "wg_peer p = \<lparr>wp_ID = p_ID p, wp_PublicKey = p_PublicKey p, wp_WGIP = p_WGIP p, wp_DNSName = p_DNSName p,
     wp_GroupID = p_GroupID p, wp_Enabled = p_Enabled p\<rparr>"

definition forward_rule :: "PortForward \<Rightarrow> ForwardRule" where
  "forward_rule r = \<lparr>fr_ID = f_ID r, fr_ListenPort = f_ListenPort r, fr_Protocol = f_Protocol r,
     fr_TargetHost = f_TargetHost r, fr_TargetPort = f_TargetPort r\<rparr>"

definition map_rule :: "MapDetail \<Rightarrow> MapRule" where
  "map_rule d = \<lparr>mr_ID = m_ID (mdt_Map d), mr_Slug = m_Slug (mdt_Map d), mr_TargetHost = m_TargetHost (mdt_Map d),
     mr_VirtualIP = m_VirtualIP (mdt_Map d), mr_AllowedGroupIDs = AllowedGroupIDSet (mdt_AllowedGroups d)\<rparr>"

definition net_settings :: "Settings \<Rightarrow> NetworkSettings" where
  "net_settings s = \<lparr>ns_HubIP = se_HubIP s, ns_DNSIP = se_DNSIP s, ns_WGSubnet = se_WGSubnet s,
     ns_ServerPrivateKey = se_ServerPrivateKey s,
     ns_MTU = (if se_MTU s = 0 then DefaultMTU else se_MTU s),
     ns_ListenPort = se_ListenPort s,
     ns_StatusInterval = (if se_StatusInterval s = 0 then DefaultStatusInterval else se_StatusInterval s),
     ns_UpstreamDNS = UpstreamDNSResolvers s\<rparr>"

definition loadSyncBundle :: "sql \<Rightarrow> SyncBundle prog" where
  "loadSyncBundle exec =
     andthen (GetSettings exec) (\<lambda>settings.
     andthen (ListPeers exec) (\<lambda>peers.
     andthen (ListGroupLinks exec) (\<lambda>links.
     andthen (ListGroups exec) (\<lambda>groups.
     andthen (ListPortForwards exec) (\<lambda>forwards.
     andthen (ListMapDetails exec) (\<lambda>mapDetails.
     andthen (buildAccessPolicySpecFrom exec (peerEndpoints peers) (groupLinkPairs links) (groupAccessList groups)) (\<lambda>accessSpec.
     let wgPeers = map wg_peer peers; mapRules = map map_rule mapDetails in
     ret \<lparr>sb_Settings = net_settings settings, sb_Peers = wgPeers, sb_Policy = accessSpec,
          sb_Forwards = map forward_rule forwards, sb_Maps = mapRules,
          sb_DNS = BuildDNSCatalog (se_HubIP settings) wgPeers mapRules\<rparr>)))))))"

definition ensurePeerDNSRecord :: "sql \<Rightarrow> nat \<Rightarrow> string \<Rightarrow> string \<Rightarrow> unit prog" where
  "ensurePeerDNSRecord exec peerID dnsName wgIP =
     (if dnsName = [] then fail (Errorf ''peer DNS name is required'')
      else andthen (ignore (DeleteDNSByPeerID exec peerID)) (\<lambda>_.
        CreateDNSRecord exec \<lparr>d_ID = 0, d_Hostname = dnsName, d_IP = wgIP, d_PeerID = Some peerID, d_Manual = False\<rparr>))"

section \<open>Hub (\<^verbatim>\<open>hub.go\<close>)\<close>

definition startStatusPoller :: "int \<Rightarrow> 'rt App \<Rightarrow> 'rt App" where
  "startStatusPoller intervalSec a =
     (if app_poller a \<noteq> None then a
      else a\<lparr>app_poller := Some (if intervalSec \<le> 0 then 1 else intervalSec)\<rparr>)"

definition stopStatusPoller :: "'rt App \<Rightarrow> 'rt App" where
  "stopStatusPoller a = a\<lparr>app_poller := None\<rparr>"

definition onStarted :: "'rt net_ops \<Rightarrow> sql \<Rightarrow> ('rt, unit) svc" where
  "onStarted ops exec a0 =
     (let a = a0\<lparr>app_live := True\<rparr>;
          (r, a) = store (loadSyncBundle exec) a;
          a = (case r of Inr bundle \<Rightarrow> startStatusPoller (ns_StatusInterval (sb_Settings bundle)) a | Inl _ \<Rightarrow> a)
      in ignore (SyncAccessFilter ops exec) a)"

definition onStopped :: "'rt App \<Rightarrow> 'rt App" where
  "onStopped a = (stopStatusPoller a)\<lparr>app_live := False\<rparr>"

text \<open>Starting and stopping the runtime, with its callback into the hub.\<close>

definition net_Start :: "'rt net_ops \<Rightarrow> sql \<Rightarrow> SyncBundle \<Rightarrow> ('rt, unit) svc" where
  "net_Start ops exec bundle = andthen (on_net (op_Start ops bundle) False)
     (\<lambda>started. if started then onStarted ops exec else ret ())"

definition net_Stop :: "'rt net_ops \<Rightarrow> ('rt, unit) svc" where
  "net_Stop ops = andthen (on_net (op_Stop ops) False)
     (\<lambda>stopped a. (Inr (), if stopped then onStopped a else a))"

definition hub_stopped :: "('rt, unit) svc" where
  "hub_stopped = (\<lambda>a. (Inr (), onStopped a))"

definition syncRuntimeBundle :: "'rt net_ops \<Rightarrow> SyncBundle \<Rightarrow> ('rt, unit) svc" where
  "syncRuntimeBundle ops bundle = (\<lambda>a. if \<not> app_live a then (Inr (), a) else on_net (op_FullSync ops bundle) () a)"

definition stats_update :: "sql \<Rightarrow> (string, PeerStats) gomap \<Rightarrow> Peer \<Rightarrow> unit prog" where
  "stats_update exec stats p = (case mget stats (p_PublicKey p) of
       None \<Rightarrow> ret ()
     | Some st \<Rightarrow> ignore (UpdatePeerStats exec (p_ID p)
         (case ps_LastHandshake st of None \<Rightarrow> 0 | Some t \<Rightarrow> t) (ps_RxBytes st) (ps_TxBytes st)))"

text \<open>One tick of the poller; the result says whether the subscribers are notified.\<close>

definition pollPeerStats :: "'rt net_ops \<Rightarrow> sql \<Rightarrow> ('rt, bool) svc" where
  "pollPeerStats ops exec =
     (\<lambda>a. case (if app_live a then on_net (op_GetStats ops) None a else (Inr None, a)) of
        (Inr (Some stats), a) \<Rightarrow>
          (case store (ListPeers exec) a of
             (Inl _, a) \<Rightarrow> (Inr False, a)
           | (Inr peers, a) \<Rightarrow> andthen (store (for_each peers (stats_update exec stats))) (\<lambda>_. ret True) a)
      | (_, a) \<Rightarrow> (Inr False, a))"

section \<open>Reconciliation (\<^verbatim>\<open>mutation.go\<close>)\<close>

definition IsRuntimeMutationError :: "err \<Rightarrow> bool" where
  "IsRuntimeMutationError e = (case e of RuntimeMutationError _ _ \<Rightarrow> True | _ \<Rightarrow> False)"

definition IsRuntimeFailure :: "err \<Rightarrow> bool" where
  "IsRuntimeFailure e = (IsRuntimeMutationError e \<or>
     (case e of RuntimeRecoveryError _ _ \<Rightarrow> True | RuntimeStoppedError _ _ \<Rightarrow> True | _ \<Rightarrow> False))"

definition stopAfterRuntimeFailure :: "'rt net_ops \<Rightarrow> string \<Rightarrow> err \<Rightarrow> ('rt, unit) svc" where
  "stopAfterRuntimeFailure ops operation cause = (\<lambda>a.
     if app_net a = None then (Inl (RuntimeRecoveryError operation cause), a)
     else andthen (attempt (net_Stop ops)) (\<lambda>r. case r of
         Inl err \<Rightarrow> fail (RuntimeRecoveryError operation (Join [cause, err]))
       | Inr _ \<Rightarrow> andthen hub_stopped (\<lambda>_. fail (RuntimeStoppedError operation cause))) a)"

text \<open>The restart both paths share: \<open>prior\<close> holds the failure that led to it, if any.\<close>

definition restart_with :: "'rt net_ops \<Rightarrow> sql \<Rightarrow> string \<Rightarrow> SyncBundle \<Rightarrow> (err list \<Rightarrow> err) \<Rightarrow> ('rt, unit) svc" where
  "restart_with ops exec operation bundle joined =
     andthen (attempt (net_Stop ops)) (\<lambda>r. case r of
       Inl err \<Rightarrow> fail (RuntimeRecoveryError operation (joined [err]))
     | Inr _ \<Rightarrow> andthen hub_stopped (\<lambda>_.
         andthen (attempt (net_Start ops exec bundle)) (\<lambda>r. case r of
           Inr _ \<Rightarrow> ret ()
         | Inl err \<Rightarrow> andthen (attempt (net_Stop ops)) (\<lambda>r. case r of
               Inl stopErr \<Rightarrow> fail (RuntimeRecoveryError operation (joined [err, stopErr]))
             | Inr _ \<Rightarrow> andthen hub_stopped (\<lambda>_. fail (RuntimeMutationError operation (joined [err])))))))"

definition restartAfterRuntimeFailure :: "'rt net_ops \<Rightarrow> sql \<Rightarrow> string \<Rightarrow> SyncBundle \<Rightarrow> err \<Rightarrow> ('rt, unit) svc" where
  "restartAfterRuntimeFailure ops exec operation bundle syncErr =
     restart_with ops exec operation bundle (\<lambda>errs. Join (syncErr # errs))"

definition reconcileRuntime :: "'rt net_ops \<Rightarrow> sql \<Rightarrow> string \<Rightarrow> bool \<Rightarrow> ('rt, unit) svc" where
  "reconcileRuntime ops exec operation restart = (\<lambda>a.
     if app_net a = None then (Inr (), a)
     else andthen (attempt (store (loadSyncBundle exec))) (\<lambda>r. case r of
         Inl err \<Rightarrow> stopAfterRuntimeFailure ops operation err
       | Inr bundle \<Rightarrow>
           if restart then restart_with ops exec operation bundle (\<lambda>errs. case errs of [e] \<Rightarrow> e | _ \<Rightarrow> Join errs)
           else andthen (attempt (syncRuntimeBundle ops bundle)) (\<lambda>r. case r of
               Inr _ \<Rightarrow> ret ()
             | Inl err \<Rightarrow> restartAfterRuntimeFailure ops exec operation bundle err)) a)"

end
