(* ===== verification/Service_Ops.thy ===== *)
theory Service_Ops
  imports Service_Base
begin

text \<open>
  Package \<^verbatim>\<open>service\<close>: the application's operations on peers, groups, maps, forwards, settings,
  first-run setup, accounts and status.  \<open>ops\<close> is the network runtime, \<open>exec\<close> the statement executor.
  The key generator and \<^verbatim>\<open>bcrypt\<close> are arguments; the time stamps the code takes from the clock are
  arguments named \<open>now\<close>.
\<close>

section \<open>Peers (\<^verbatim>\<open>peers.go\<close>, \<^verbatim>\<open>peers_list.go\<close>)\<close>

record PeerView =
  pv_ID :: nat
  pv_Name :: string
  pv_PublicKey :: string
  pv_WGIP :: string
  pv_GroupID :: nat
  pv_Enabled :: bool
  pv_DNSName :: string
  pv_LastHandshake :: int
  pv_RxBytes :: int
  pv_TxBytes :: int
  pv_CreatedAt :: int
  pv_FQDN :: string
  pv_GroupName :: string

record CreatePeerInput =
  cp_Name :: string
  cp_GroupID :: nat

record UpdatePeerInput =
  up_Name :: "string option"
  up_GroupID :: "nat option"

record ClientConfigResult =
  cc_Config :: string
  cc_Filename :: string

definition peerView :: "Peer \<Rightarrow> string \<Rightarrow> PeerView" where
  "peerView peer groupName = \<lparr>pv_ID = p_ID peer, pv_Name = p_Name peer, pv_PublicKey = p_PublicKey peer,
     pv_WGIP = p_WGIP peer, pv_GroupID = p_GroupID peer, pv_Enabled = p_Enabled peer, pv_DNSName = p_DNSName peer,
     pv_LastHandshake = p_LastHandshake peer, pv_RxBytes = p_RxBytes peer, pv_TxBytes = p_TxBytes peer,
     pv_CreatedAt = p_CreatedAt peer, pv_FQDN = PeerFQDN (p_Name peer), pv_GroupName = groupName\<rparr>"

text \<open>A listing whose error is dropped reads as empty.\<close>

definition or_empty :: "('s, 'a list) act \<Rightarrow> ('s, 'a list) act" where
  "or_empty m = andthen (attempt m) (\<lambda>r. case r of Inl _ \<Rightarrow> ret [] | Inr xs \<Rightarrow> ret xs)"

definition new_peer :: "string \<Rightarrow> string \<Rightarrow> string \<Rightarrow> nat \<Rightarrow> int \<Rightarrow> Peer" where
  "new_peer slug pub priv groupID now = \<lparr>p_ID = 0, p_Name = slug, p_PublicKey = pub, p_PrivateKey = priv, p_WGIP = [],
     p_GroupID = groupID, p_Enabled = True, p_DNSName = slug, p_LastHandshake = 0, p_RxBytes = 0, p_TxBytes = 0,
     p_CreatedAt = now\<rparr>"

text \<open>The database part of \<^verbatim>\<open>createPeer\<close>: the peer and the name of its group.\<close>

definition create_peer_db :: "sql \<Rightarrow> err + string \<times> string \<Rightarrow> int \<Rightarrow> CreatePeerInput \<Rightarrow> (Peer \<times> string) prog" where
  "create_peer_db exec keys now inp =
     andthen (lift_res (ValidateHostname (cp_Name inp))) (\<lambda>slug.
     andthen (or_err ErrGroupNotFound (GetGroup exec (cp_GroupID inp))) (\<lambda>grp.
     andthen (or_empty (ListPeers exec)) (\<lambda>existing.
     if list_ex (\<lambda>p. p_Name p = slug) existing then fail ErrHostnameExists
     else andthen (GetSettings exec) (\<lambda>settings.
     andthen (lift_res keys) (\<lambda>(priv, pub).
     andthen (attempt (CreatePeerWithAllocatedIP exec (new_peer slug pub priv (cp_GroupID inp) now)
         (se_WGSubnet settings) (se_HubIP settings) (se_DNSIP settings))) (\<lambda>r. case r of
       Inl e \<Rightarrow> fail (if e = ErrIPAllocationUnavailable then ErrPeerIPUnavailable else e)
     | Inr peer \<Rightarrow> ret (peer, g_Name grp)))))))"

definition createPeer :: "'rt net_ops \<Rightarrow> sql \<Rightarrow> err + string \<times> string \<Rightarrow> int \<Rightarrow> CreatePeerInput \<Rightarrow> ('rt, PeerView) svc" where
  "createPeer ops exec keys now inp =
     andthen (store (create_peer_db exec keys now inp)) (\<lambda>(peer, groupName).
     andthen (reconcileRuntime ops exec ''peer creation'' False) (\<lambda>_. ret (peerView peer groupName)))"

definition rename_peer :: "sql \<Rightarrow> nat \<Rightarrow> string option \<Rightarrow> Peer \<Rightarrow> (Peer \<times> bool) prog" where
  "rename_peer exec i name peer = (case name of
     None \<Rightarrow> ret (peer, False)
   | Some n \<Rightarrow> andthen (lift_res (ValidateHostname n)) (\<lambda>slug.
       if p_Name peer = slug then ret (peer, False)
       else andthen (or_empty (ListPeers exec)) (\<lambda>existing.
         if list_ex (\<lambda>p. p_ID p \<noteq> i \<and> p_Name p = slug) existing then fail ErrHostnameExists
         else ret (peer\<lparr>p_Name := slug, p_DNSName := slug\<rparr>, True))))"

definition move_peer :: "nat option \<Rightarrow> Peer \<times> bool \<Rightarrow> Peer \<times> bool" where
  "move_peer groupID = (\<lambda>(peer, changed). case groupID of
     None \<Rightarrow> (peer, changed)
   | Some g \<Rightarrow> if p_GroupID peer = g then (peer, changed) else (peer\<lparr>p_GroupID := g\<rparr>, True))"

text \<open>The database part of \<^verbatim>\<open>updatePeerFields\<close>; the flag says whether the peer was written.\<close>

definition update_peer_db :: "sql \<Rightarrow> nat \<Rightarrow> UpdatePeerInput \<Rightarrow> (Peer \<times> string \<times> bool) prog" where
  "update_peer_db exec i inp =
     andthen (or_err ErrPeerNotFound (GetPeer exec i)) (\<lambda>peer.
     andthen (case up_GroupID inp of
         Some g \<Rightarrow> andthen (or_err ErrGroupNotFound (GetGroup exec g)) (\<lambda>grp. ret (g_Name grp))
       | None \<Rightarrow> andthen (attempt (GetGroup exec (p_GroupID peer))) (\<lambda>r. case r of Inl _ \<Rightarrow> ret [] | Inr grp \<Rightarrow> ret (g_Name grp))) (\<lambda>groupName.
     andthen (rename_peer exec i (up_Name inp) peer) (\<lambda>renamed.
     let (peer, changed) = move_peer (up_GroupID inp) renamed in
     if \<not> changed then ret (peer, groupName, False)
     else andthen (UpdatePeer exec peer) (\<lambda>_.
       andthen (if up_Name inp \<noteq> None then ensurePeerDNSRecord exec (p_ID peer) (p_DNSName peer) (p_WGIP peer) else ret ()) (\<lambda>_.
       ret (peer, groupName, True))))))"

definition updatePeerFields :: "'rt net_ops \<Rightarrow> sql \<Rightarrow> nat \<Rightarrow> UpdatePeerInput \<Rightarrow> ('rt, PeerView) svc" where
  "updatePeerFields ops exec i inp =
     andthen (store (update_peer_db exec i inp)) (\<lambda>(peer, groupName, changed).
     if \<not> changed then ret (peerView peer groupName)
     else andthen (reconcileRuntime ops exec ''peer update'' False) (\<lambda>_. ret (peerView peer groupName)))"

definition delete_peer_db :: "sql \<Rightarrow> nat \<Rightarrow> unit prog" where
  "delete_peer_db exec peerID =
     andthen (or_err ErrPeerNotFound (GetPeer exec peerID)) (\<lambda>_.
     andthen (DeleteDNSByPeerID exec peerID) (\<lambda>_.
     Store.DeletePeer exec peerID))"

definition DeletePeer :: "'rt net_ops \<Rightarrow> sql \<Rightarrow> nat \<Rightarrow> ('rt, unit) svc" where
  "DeletePeer ops exec peerID =
     andthen (store (delete_peer_db exec peerID)) (\<lambda>_. reconcileRuntime ops exec ''peer deletion'' False)"

definition toggle_peer_db :: "sql \<Rightarrow> nat \<Rightarrow> (Peer \<times> string) prog" where
  "toggle_peer_db exec peerID =
     andthen (or_err ErrPeerNotFound (GetPeer exec peerID)) (\<lambda>peer.
     andthen (attempt (GetGroup exec (p_GroupID peer))) (\<lambda>r.
     let groupName = (case r of Inl _ \<Rightarrow> [] | Inr grp \<Rightarrow> g_Name grp);
         peer = peer\<lparr>p_Enabled := \<not> p_Enabled peer\<rparr> in
     andthen (UpdatePeer exec peer) (\<lambda>_. ret (peer, groupName))))"

definition togglePeer :: "'rt net_ops \<Rightarrow> sql \<Rightarrow> nat \<Rightarrow> ('rt, PeerView) svc" where
  "togglePeer ops exec peerID =
     andthen (store (toggle_peer_db exec peerID)) (\<lambda>(peer, groupName).
     andthen (reconcileRuntime ops exec ''peer toggle'' False) (\<lambda>_. ret (peerView peer groupName)))"

definition ClientConfig :: "sql \<Rightarrow> nat \<Rightarrow> ClientConfigResult prog" where
  "ClientConfig exec peerID =
     andthen (or_err ErrPeerNotFound (GetPeer exec peerID)) (\<lambda>peer.
     andthen (GetSettings exec) (\<lambda>settings.
     andthen (lift_res (BuildClientConfig \<lparr>ci_Endpoint = se_Endpoint settings, ci_ListenPort = se_ListenPort settings,
       ci_ServerPublicKey = se_ServerPublicKey settings, ci_AllowedSubnet = se_WGSubnet settings,
       ci_ClientDNS = ClientDNS settings, ci_PeerPrivateKey = p_PrivateKey peer, ci_PeerAddress = p_WGIP peer\<rparr>)) (\<lambda>config.
     ret \<lparr>cc_Config = config, cc_Filename = p_Name peer @ ''.conf''\<rparr>)))"

definition getGroupNameMap :: "sql \<Rightarrow> (nat, string) gomap prog" where
  "getGroupNameMap exec = andthen (or_empty (ListGroups exec)) (\<lambda>groups.
     ret (fold (\<lambda>g m. mput (g_ID g) (g_Name g) m) groups []))"

definition name_of_group :: "(nat, string) gomap \<Rightarrow> nat \<Rightarrow> string" where
  "name_of_group names g = (case mget names g of None \<Rightarrow> [] | Some n \<Rightarrow> n)"

definition svc_ListPeers :: "sql \<Rightarrow> PeerView list prog" where
  "svc_ListPeers exec = andthen (ListPeers exec) (\<lambda>peers.
     andthen (getGroupNameMap exec) (\<lambda>groupNames.
     ret (map (\<lambda>peer. peerView peer (name_of_group groupNames (p_GroupID peer))) peers)))"

section \<open>Groups and links (\<^verbatim>\<open>groups.go\<close>)\<close>

record GroupMutationView =
  gm_ID :: nat
  gm_Name :: string
  gm_PosX :: int
  gm_PosY :: int
  gm_AllowIntraGroup :: bool

record GroupView = GroupMutationView +
  gv_MemberCount :: nat

record GroupGraphGroupView = GroupView +
  gg_Peers :: "PeerView list"

record CreateGroupInput =
  cg_Name :: string
  cg_PosX :: int
  cg_PosY :: int

record UpdateGroupInput =
  ug_Name :: "string option"
  ug_PosX :: "int option"
  ug_PosY :: "int option"
  ug_AllowIntraGroup :: "bool option"

record GroupLinkInput =
  li_From :: nat
  li_To :: nat
  li_Bidirectional :: bool

record GroupGraphView =
  gr_Groups :: "GroupGraphGroupView list"
  gr_Links :: "GroupLink list"

record GroupLayoutItem =
  ly_ID :: nat
  ly_PosX :: int
  ly_PosY :: int

definition groupMutationView :: "PeerGroup \<Rightarrow> GroupMutationView" where
  "groupMutationView g = \<lparr>gm_ID = g_ID g, gm_Name = g_Name g, gm_PosX = g_PosX g, gm_PosY = g_PosY g,
     gm_AllowIntraGroup = g_AllowIntraGroup g\<rparr>"

definition count_of :: "(nat, nat) gomap \<Rightarrow> nat \<Rightarrow> nat" where
  "count_of counts g = (case mget counts g of None \<Rightarrow> 0 | Some n \<Rightarrow> n)"

definition svc_ListGroups :: "sql \<Rightarrow> GroupView list prog" where
  "svc_ListGroups exec =
     andthen (ListGroups exec) (\<lambda>groups.
     andthen (CountPeersByGroup exec) (\<lambda>counts.
     ret (map (\<lambda>g. \<lparr>gm_ID = g_ID g, gm_Name = g_Name g, gm_PosX = g_PosX g, gm_PosY = g_PosY g,
       gm_AllowIntraGroup = g_AllowIntraGroup g, gv_MemberCount = count_of counts (g_ID g)\<rparr>) (sort_key g_Name groups))))"

definition CreateGroup :: "'rt net_ops \<Rightarrow> sql \<Rightarrow> CreateGroupInput \<Rightarrow> ('rt, GroupMutationView) svc" where
  "CreateGroup ops exec inp =
     andthen (store (Store.CreateGroup exec (cg_Name inp) (cg_PosX inp) (cg_PosY inp))) (\<lambda>g.
     andthen (reconcileRuntime ops exec ''group creation'' False) (\<lambda>_. ret (groupMutationView g)))"

definition patch_group :: "UpdateGroupInput \<Rightarrow> PeerGroup \<Rightarrow> PeerGroup" where
  "patch_group inp g =
     (let g = (case ug_PosX inp of None \<Rightarrow> g | Some x \<Rightarrow> g\<lparr>g_PosX := x\<rparr>);
          g = (case ug_PosY inp of None \<Rightarrow> g | Some y \<Rightarrow> g\<lparr>g_PosY := y\<rparr>)
      in case ug_AllowIntraGroup inp of None \<Rightarrow> g | Some b \<Rightarrow> g\<lparr>g_AllowIntraGroup := b\<rparr>)"

definition needs_runtime :: "UpdateGroupInput \<Rightarrow> bool" where
  "needs_runtime inp = (ug_PosX inp \<noteq> None \<or> ug_PosY inp \<noteq> None \<or> ug_AllowIntraGroup inp \<noteq> None)"

definition update_group_db :: "sql \<Rightarrow> nat \<Rightarrow> UpdateGroupInput \<Rightarrow> PeerGroup prog" where
  "update_group_db exec i inp =
     andthen (GetGroup exec i) (\<lambda>g.
     andthen (case ug_Name inp of None \<Rightarrow> ret g | Some n \<Rightarrow> RenameGroup exec i n) (\<lambda>g.
     let g = patch_group inp g in
     if needs_runtime inp then andthen (Store.UpdateGroup exec g) (\<lambda>_. ret g) else ret g))"

definition UpdateGroup :: "'rt net_ops \<Rightarrow> sql \<Rightarrow> nat \<Rightarrow> UpdateGroupInput \<Rightarrow> ('rt, GroupMutationView) svc" where
  "UpdateGroup ops exec i inp =
     andthen (store (update_group_db exec i inp)) (\<lambda>g.
     andthen (if needs_runtime inp then reconcileRuntime ops exec ''group update'' False else ret ()) (\<lambda>_.
     ret (groupMutationView g)))"

definition DeleteGroup :: "'rt net_ops \<Rightarrow> sql \<Rightarrow> nat \<Rightarrow> ('rt, unit) svc" where
  "DeleteGroup ops exec i =
     andthen (store (Store.DeleteGroup exec i)) (\<lambda>_. reconcileRuntime ops exec ''group deletion'' False)"

definition GroupGraph :: "sql \<Rightarrow> GroupGraphView prog" where
  "GroupGraph exec =
     andthen (ListGroups exec) (\<lambda>groups.
     andthen (ListGroupLinks exec) (\<lambda>links.
     andthen (ListPeers exec) (\<lambda>peers.
     let peers = sort_key (\<lambda>p. - p_CreatedAt p) peers;
         members = (\<lambda>g. map (\<lambda>p. peerView p []) (filter (\<lambda>p. p_GroupID p = g_ID g) peers)) in
     ret \<lparr>gr_Groups = map (\<lambda>g. \<lparr>gm_ID = g_ID g, gm_Name = g_Name g, gm_PosX = g_PosX g, gm_PosY = g_PosY g,
            gm_AllowIntraGroup = g_AllowIntraGroup g, gv_MemberCount = length (members g), gg_Peers = members g\<rparr>)
            (sort_key g_Name groups),
          gr_Links = links\<rparr>)))"

definition create_link_db :: "sql \<Rightarrow> GroupLinkInput \<Rightarrow> unit prog" where
  "create_link_db exec inp =
     andthen (GetGroup exec (li_From inp)) (\<lambda>_.
     andthen (GetGroup exec (li_To inp)) (\<lambda>_.
     if li_From inp = li_To inp then fail ErrSelfLink
     else UpsertGroupLink exec (li_From inp) (li_To inp) (li_Bidirectional inp)))"

definition CreateGroupLink :: "'rt net_ops \<Rightarrow> sql \<Rightarrow> GroupLinkInput \<Rightarrow> ('rt, unit) svc" where
  "CreateGroupLink ops exec inp =
     andthen (store (create_link_db exec inp)) (\<lambda>_. reconcileRuntime ops exec ''group-link creation'' False)"

definition DeleteGroupLink :: "'rt net_ops \<Rightarrow> sql \<Rightarrow> GroupLinkInput \<Rightarrow> ('rt, unit) svc" where
  "DeleteGroupLink ops exec inp =
     andthen (store (Store.DeleteGroupLink exec (li_From inp) (li_To inp))) (\<lambda>_.
     reconcileRuntime ops exec ''group-link deletion'' False)"

definition layout_item :: "sql \<Rightarrow> GroupLayoutItem \<Rightarrow> unit prog" where
  "layout_item exec item = andthen (attempt (GetGroup exec (ly_ID item))) (\<lambda>r. case r of
       Inl _ \<Rightarrow> ret ()
     | Inr g \<Rightarrow> ignore (Store.UpdateGroup exec (g\<lparr>g_PosX := ly_PosX item, g_PosY := ly_PosY item\<rparr>)))"

definition UpdateGroupLayout :: "sql \<Rightarrow> GroupLayoutItem list \<Rightarrow> unit prog" where
  "UpdateGroupLayout exec items = for_each items (layout_item exec)"

section \<open>Maps (\<^verbatim>\<open>maps.go\<close>)\<close>

record MapView =
  mv_ID :: nat
  mv_Name :: string
  mv_Slug :: string
  mv_TargetHost :: string
  mv_VirtualIP :: string
  mv_TargetDisplay :: string
  mv_AllowedGroupIDs :: "nat list"
  mv_FQDN :: string

definition mapView :: "MapDetail \<Rightarrow> MapView" where
  "mapView d = \<lparr>mv_ID = m_ID (mdt_Map d), mv_Name = m_Name (mdt_Map d), mv_Slug = m_Slug (mdt_Map d),
     mv_TargetHost = m_TargetHost (mdt_Map d), mv_VirtualIP = m_VirtualIP (mdt_Map d),
     mv_TargetDisplay = mdt_TargetDisplay d, mv_AllowedGroupIDs = mdt_AllowedGroups d,
     mv_FQDN = MapFQDN (m_Slug (mdt_Map d))\<rparr>"

definition svc_ListMapDetails :: "sql \<Rightarrow> MapView list prog" where
  "svc_ListMapDetails exec = andthen (ListMapDetails exec) (\<lambda>details. ret (map mapView details))"

definition groups_exist :: "sql \<Rightarrow> nat list \<Rightarrow> unit prog" where
  "groups_exist exec gids = for_each gids (\<lambda>gid. or_err ErrAllowedGroupNotFound (andthen (GetGroup exec gid) (\<lambda>_. ret ())))"

definition createServiceMap :: "'rt net_ops \<Rightarrow> sql \<Rightarrow> MapInput \<Rightarrow> ('rt, MapView) svc" where
  "createServiceMap ops exec inp =
     andthen (store (andthen (groups_exist exec (mi_AllowedGroups inp)) (\<lambda>_. Store.CreateServiceMap exec inp))) (\<lambda>detail.
     andthen (reconcileRuntime ops exec ''map creation'' False) (\<lambda>_. ret (mapView detail)))"

definition updateServiceMap :: "'rt net_ops \<Rightarrow> sql \<Rightarrow> nat \<Rightarrow> MapInput \<Rightarrow> ('rt, MapView) svc" where
  "updateServiceMap ops exec i inp =
     andthen (store (andthen (groups_exist exec (mi_AllowedGroups inp)) (\<lambda>_. Store.UpdateServiceMap exec i inp))) (\<lambda>detail.
     andthen (reconcileRuntime ops exec ''map update'' False) (\<lambda>_. ret (mapView detail)))"

definition DeleteServiceMap :: "'rt net_ops \<Rightarrow> sql \<Rightarrow> nat \<Rightarrow> ('rt, unit) svc" where
  "DeleteServiceMap ops exec i =
     andthen (store (Store.DeleteServiceMap exec i)) (\<lambda>_. reconcileRuntime ops exec ''map deletion'' False)"

section \<open>Port forwards (\<^verbatim>\<open>forwards.go\<close>)\<close>

record PortForwardView =
  fv_ID :: nat
  fv_Name :: string
  fv_ListenPort :: int
  fv_Protocol :: string
  fv_TargetHost :: string
  fv_TargetPort :: int
  fv_TargetDisplay :: string

record ForwardList =
  fl_Rules :: "PortForwardView list"
  fl_HubIP :: string
  fl_HubPort :: int

definition portForwardView :: "PortForward \<Rightarrow> PortForwardView" where
  "portForwardView r = \<lparr>fv_ID = f_ID r, fv_Name = f_Name r, fv_ListenPort = f_ListenPort r, fv_Protocol = f_Protocol r,
     fv_TargetHost = f_TargetHost r, fv_TargetPort = f_TargetPort r,
     fv_TargetDisplay = ForwardDisplayTarget (f_TargetHost r) (f_TargetPort r)\<rparr>"

definition svc_ListPortForwards :: "sql \<Rightarrow> ForwardList prog" where
  "svc_ListPortForwards exec =
     andthen (ListPortForwards exec) (\<lambda>rules.
     andthen (attempt (GetSettings exec)) (\<lambda>r.
     ret \<lparr>fl_Rules = map portForwardView rules, fl_HubIP = (case r of Inl _ \<Rightarrow> [] | Inr s \<Rightarrow> se_HubIP s),
          fl_HubPort = HubTunnelWebPort\<rparr>))"

definition CreatePortForward :: "'rt net_ops \<Rightarrow> sql \<Rightarrow> PortForwardInput \<Rightarrow> ('rt, PortForwardView) svc" where
  "CreatePortForward ops exec inp =
     andthen (store (Store.CreatePortForward exec HubTunnelWebPort inp)) (\<lambda>rule.
     andthen (reconcileRuntime ops exec ''port-forward creation'' False) (\<lambda>_. ret (portForwardView rule)))"

definition UpdatePortForward :: "'rt net_ops \<Rightarrow> sql \<Rightarrow> nat \<Rightarrow> PortForwardInput \<Rightarrow> ('rt, PortForwardView) svc" where
  "UpdatePortForward ops exec i inp =
     andthen (store (Store.UpdatePortForward exec i HubTunnelWebPort inp)) (\<lambda>rule.
     andthen (reconcileRuntime ops exec ''port-forward update'' False) (\<lambda>_. ret (portForwardView rule)))"

definition DeletePortForward :: "'rt net_ops \<Rightarrow> sql \<Rightarrow> nat \<Rightarrow> ('rt, unit) svc" where
  "DeletePortForward ops exec i =
     andthen (store (Store.DeletePortForward exec i)) (\<lambda>_. reconcileRuntime ops exec ''port-forward deletion'' False)"

datatype ForwardErrKind = ForwardErrOther | ForwardErrConflict | ForwardErrNotFound

text \<open>
  The service's copies of the store's error values are identified with them, so \<^verbatim>\<open>mapRepoError\<close> and
  \<^verbatim>\<open>mapPortForwardRepoError\<close> are the identity.  A taken listen port (\<^verbatim>\<open>PortForwardListenPortError\<close>,
  whose \<^verbatim>\<open>Is\<close> names another sentinel) is not a conflict here.
\<close>

definition ClassifyForwardErr :: "err \<Rightarrow> ForwardErrKind" where
  "ClassifyForwardErr e = (if e = ErrPortForwardConflict then ForwardErrConflict
     else if e = ErrPortForwardNotFound then ForwardErrNotFound else ForwardErrOther)"

section \<open>Accounts (\<^verbatim>\<open>auth.go\<close>)\<close>

record AdminSession =
  as_ID :: nat
  as_Username :: string
  as_TokenVersion :: int

definition adminSessionFromRepo :: "Admin \<Rightarrow> AdminSession" where
  "adminSessionFromRepo a = \<lparr>as_ID = ad_ID a, as_Username = ad_Username a, as_TokenVersion = ad_TokenVersion a\<rparr>"

text \<open>\<open>verify hash plain\<close> is \<^verbatim>\<open>bcrypt.CompareHashAndPassword\<close>.\<close>

definition AuthenticateAdmin :: "sql \<Rightarrow> (string \<Rightarrow> string \<Rightarrow> bool) \<Rightarrow> string \<Rightarrow> string \<Rightarrow> AdminSession prog" where
  "AuthenticateAdmin exec verify username password =
     andthen (GetAdminByUsername exec username) (\<lambda>admin.
     if \<not> verify (ad_PasswordHash admin) password then fail ErrInvalidAdminPassword
     else ret (adminSessionFromRepo admin))"

definition VerifyAdminPassword :: "sql \<Rightarrow> (string \<Rightarrow> string \<Rightarrow> bool) \<Rightarrow> string \<Rightarrow> string \<Rightarrow> unit prog" where
  "VerifyAdminPassword exec verify username password =
     andthen (AuthenticateAdmin exec verify username password) (\<lambda>_. ret ())"

definition ValidateAdminSession :: "sql \<Rightarrow> nat \<Rightarrow> int \<Rightarrow> AdminSession prog" where
  "ValidateAdminSession exec i tokenVersion =
     andthen (GetAdminByID exec i) (\<lambda>admin.
     if ad_TokenVersion admin \<noteq> tokenVersion then fail ErrAdminSessionRevoked
     else ret (adminSessionFromRepo admin))"

definition ChangeAdminPassword :: "sql \<Rightarrow> (string \<Rightarrow> err + string) \<Rightarrow> (string \<Rightarrow> string \<Rightarrow> bool) \<Rightarrow>
    string \<Rightarrow> string \<Rightarrow> string \<Rightarrow> unit prog" where
  "ChangeAdminPassword exec bcrypt verify username currentPassword newPassword =
     andthen (GetAdminByUsername exec username) (\<lambda>admin.
     if \<not> verify (ad_PasswordHash admin) currentPassword then fail ErrInvalidAdminPassword
     else UpdateAdminPassword exec bcrypt (ad_ID admin) newPassword)"

section \<open>Settings (\<^verbatim>\<open>settings.go\<close>)\<close>

record SettingsView =
  sv_Endpoint :: string
  sv_Subnet :: string
  sv_AdminUsername :: string
  sv_HubIP :: string
  sv_DNSIP :: string
  sv_DNSSuffix :: string
  sv_ListenPort :: int
  sv_ServerPublicKey :: string
  sv_MTU :: int
  sv_StatusInterval :: int
  sv_UpstreamDNS :: "string list"

definition GetSettingsView :: "sql \<Rightarrow> SettingsView prog" where
  "GetSettingsView exec =
     andthen (GetSettings exec) (\<lambda>s.
     andthen (attempt (GetPrimaryAdmin exec)) (\<lambda>r.
     ret \<lparr>sv_Endpoint = se_Endpoint s, sv_Subnet = se_WGSubnet s,
          sv_AdminUsername = (case r of Inl _ \<Rightarrow> [] | Inr admin \<Rightarrow> ad_Username admin),
          sv_HubIP = se_HubIP s, sv_DNSIP = se_DNSIP s, sv_DNSSuffix = se_DNSSuffix s, sv_ListenPort = se_ListenPort s,
          sv_ServerPublicKey = se_ServerPublicKey s, sv_MTU = se_MTU s, sv_StatusInterval = se_StatusInterval s,
          sv_UpstreamDNS = se_UpstreamDNS s\<rparr>))"

definition setDNSUpstream :: "'rt net_ops \<Rightarrow> string list \<Rightarrow> ('rt, unit) svc" where
  "setDNSUpstream ops upstream = (\<lambda>a. (Inr (), a\<lparr>app_net := map_option (op_SetDNSUpstream ops upstream) (app_net a)\<rparr>))"

text \<open>The result is \<^verbatim>\<open>RestartRequired\<close>.\<close>

definition updateMutableSettings :: "'rt net_ops \<Rightarrow> sql \<Rightarrow> int \<Rightarrow> int \<Rightarrow> string list \<Rightarrow> ('rt, bool) svc" where
  "updateMutableSettings ops exec mtu statusInterval upstream =
     andthen (store (andthen (GetSettings exec) (\<lambda>old.
       andthen (UpdateMutableSettings exec mtu statusInterval upstream) (\<lambda>_.
       andthen (GetSettings exec) (\<lambda>settings. ret (se_MTU old, settings)))))) (\<lambda>(oldMTU, settings).
     let networkReload = (se_MTU settings \<noteq> oldMTU) in
     andthen (reconcileRuntime ops exec ''mutable settings update'' networkReload) (\<lambda>_.
     andthen (setDNSUpstream ops (UpstreamDNSResolvers settings)) (\<lambda>_ a.
     (Inr networkReload, startStatusPoller (se_StatusInterval settings) (stopStatusPoller a)))))"

section \<open>Setup, import and reset (\<^verbatim>\<open>setup.go\<close>)\<close>

record svc_SetupInput =
  ss_Endpoint :: string
  ss_Subnet :: string
  ss_AdminUsername :: string
  ss_AdminPassword :: string
  ss_ListenPort :: int
  ss_MTU :: int
  ss_StatusInterval :: int
  ss_UpstreamDNS :: "string list"

definition startNetworkAfterSetup :: "'rt net_ops \<Rightarrow> sql \<Rightarrow> ('rt, unit) svc" where
  "startNetworkAfterSetup ops exec = (\<lambda>a.
     if app_net a = None then stopAfterRuntimeFailure ops ''setup'' ErrNetworkUnavailable a
     else andthen (attempt (store (loadSyncBundle exec))) (\<lambda>r. case r of
         Inl err \<Rightarrow> stopAfterRuntimeFailure ops ''setup'' err
       | Inr bundle \<Rightarrow> andthen (attempt (net_Start ops exec bundle)) (\<lambda>r. case r of
           Inl err \<Rightarrow> stopAfterRuntimeFailure ops ''setup'' err
         | Inr _ \<Rightarrow> ret ())) a)"

definition svc_setup :: "'rt net_ops \<Rightarrow> sql \<Rightarrow> (string \<Rightarrow> err + string) \<Rightarrow> err + string \<times> string \<Rightarrow>
    svc_SetupInput \<Rightarrow> string \<Rightarrow> bool \<Rightarrow> ('rt, unit) svc" where
  "svc_setup ops exec bcrypt keys inp token requireToken =
     andthen (store (IsConfigured exec)) (\<lambda>configured a.
     if configured then (Inl ErrAlreadyConfigured, a)
     else if requireToken \<and> \<not> setupTokenValid a token then (Inl ErrSetupTokenRequired, a)
     else andthen (lift_res keys) (\<lambda>(priv, pub).
       andthen (store (Store.Setup exec bcrypt \<lparr>si_Endpoint = ss_Endpoint inp, si_Subnet = ss_Subnet inp,
         si_AdminUsername = ss_AdminUsername inp, si_AdminPassword = ss_AdminPassword inp, si_MTU = ss_MTU inp,
         si_StatusInterval = ss_StatusInterval inp,
         si_ListenPort = (if ss_ListenPort inp = 0 then DefaultEndpointPort else ss_ListenPort inp),
         si_ServerPrivateKey = priv, si_ServerPublicKey = pub, si_UpstreamDNS = ss_UpstreamDNS inp\<rparr>)) (\<lambda>_.
       startNetworkAfterSetup ops exec)) a)"

text \<open>\<open>imp\<close> is the store's \<^verbatim>\<open>ImportDatabase\<close> for the uploaded file (theory \<open>Backup\<close>).\<close>

definition importDatabase :: "'rt net_ops \<Rightarrow> sql \<Rightarrow> unit prog \<Rightarrow> string \<Rightarrow> bool \<Rightarrow> ('rt, unit) svc" where
  "importDatabase ops exec imp token requireToken =
     andthen (store (IsConfigured exec)) (\<lambda>configured a.
     if configured then (Inl ErrImportWhenConfigured, a)
     else if requireToken \<and> \<not> setupTokenValid a token then (Inl ErrSetupTokenRequired, a)
     else andthen (store imp) (\<lambda>_ a.
       if app_net a = None then (Inr (), a)
       else andthen (attempt (store (loadSyncBundle exec))) (\<lambda>r. case r of
           Inl err \<Rightarrow> stopAfterRuntimeFailure ops ''database import'' err
         | Inr bundle \<Rightarrow> andthen (attempt (net_Start ops exec bundle)) (\<lambda>r. case r of
             Inl err \<Rightarrow> stopAfterRuntimeFailure ops ''database import'' err
           | Inr _ \<Rightarrow> ret ())) a) a)"

definition reset :: "'rt net_ops \<Rightarrow> sql \<Rightarrow> ('rt, unit) svc" where
  "reset ops exec = (\<lambda>a. if app_net a = None then (Inl ErrNetworkUnavailable, a)
     else andthen (net_Stop ops) (\<lambda>_. store (ResetAll exec)) a)"

definition ResetWithSetupToken :: "'rt net_ops \<Rightarrow> sql \<Rightarrow> string \<Rightarrow> ('rt, unit) svc" where
  "ResetWithSetupToken ops exec newToken =
     andthen (reset ops exec) (\<lambda>_ a. (Inr (), SetSetupToken newToken a))"

definition ResetWithAdminPassword :: "'rt net_ops \<Rightarrow> sql \<Rightarrow> (string \<Rightarrow> string \<Rightarrow> bool) \<Rightarrow> string \<Rightarrow> string \<Rightarrow> string \<Rightarrow>
    ('rt, unit) svc" where
  "ResetWithAdminPassword ops exec verify username password newToken =
     andthen (store (VerifyAdminPassword exec verify username password)) (\<lambda>_.
     andthen (reset ops exec) (\<lambda>_ a. (Inr (), SetSetupToken newToken a)))"

record SetupDefaults =
  sd_Subnet :: string
  sd_AdminUsername :: string
  sd_ListenPort :: int
  sd_MTU :: int
  sd_StatusInterval :: int
  sd_UpstreamDNS :: "string list"

definition SetupStatus :: "sql \<Rightarrow> (bool \<times> SetupDefaults) prog" where
  "SetupStatus exec = andthen (IsConfigured exec) (\<lambda>configured.
     ret (configured, \<lparr>sd_Subnet = DefaultSubnet, sd_AdminUsername = DefaultAdminUsername, sd_ListenPort = DefaultEndpointPort,
       sd_MTU = DefaultMTU, sd_StatusInterval = DefaultStatusInterval, sd_UpstreamDNS = DefaultUpstreamDNS\<rparr>))"

section \<open>Status (\<^verbatim>\<open>status.go\<close>)\<close>

record StatusPeerView =
  sp_ID :: nat
  sp_Name :: string
  sp_FQDN :: string
  sp_WGIP :: string
  sp_GroupID :: nat
  sp_GroupName :: string
  sp_Enabled :: bool
  sp_LastHandshake :: int
  sp_RxBytes :: int
  sp_TxBytes :: int
  sp_Online :: bool

record StatusMessage =
  sm_Type :: string
  sm_Peers :: "StatusPeerView list"
  sm_Settings :: Settings

definition buildMessage :: "sql \<Rightarrow> int \<Rightarrow> StatusMessage prog" where
  "buildMessage exec now =
     andthen (ListPeers exec) (\<lambda>peers.
     andthen (GetSettings exec) (\<lambda>settings.
     andthen (getGroupNameMap exec) (\<lambda>groupNames.
     ret \<lparr>sm_Type = ''status'',
       sm_Peers = map (\<lambda>p. \<lparr>sp_ID = p_ID p, sp_Name = p_Name p, sp_FQDN = PeerFQDN (p_Name p), sp_WGIP = p_WGIP p,
         sp_GroupID = p_GroupID p, sp_GroupName = name_of_group groupNames (p_GroupID p), sp_Enabled = p_Enabled p,
         sp_LastHandshake = p_LastHandshake p, sp_RxBytes = p_RxBytes p, sp_TxBytes = p_TxBytes p,
         sp_Online = PeerIsOnline (p_Enabled p) (p_LastHandshake p) now\<rparr>) peers,
       sm_Settings = settings\<rparr>)))"

end
