(* ===== verification/Service_Inv.thy ===== *)
theory Service_Inv
  imports Service_Ops
begin

text \<open>
  The invariant of the control plane's database and the proof that every operation of the service
  keeps it, also when it fails halfway: at most one link per pair, one owner per address, valid and
  distinct forwards, and referential integrity between peers, groups, links, maps and settings.
\<close>

section \<open>Statements on tables\<close>

lemma map_filter_map: "(\<And>x. g (h x) = g x) \<Longrightarrow> List.map_filter g (map h db) = List.map_filter g db"
  by (induction db) (auto simp: map_filter_simps split: option.splits)

lemma rewrite_other:
  assumes "\<And>x. table_of x = t \<Longrightarrow> W x \<Longrightarrow> table_of (f x) = t"
  shows "t \<noteq> TAdmin \<Longrightarrow> t_admins (map (\<lambda>x. if table_of x = t \<and> W x then f x else x) db) = t_admins db"
    and "t \<noteq> TSettings \<Longrightarrow> t_settings (map (\<lambda>x. if table_of x = t \<and> W x then f x else x) db) = t_settings db"
    and "t \<noteq> TPeer \<Longrightarrow> t_peers (map (\<lambda>x. if table_of x = t \<and> W x then f x else x) db) = t_peers db"
    and "t \<noteq> TGroup \<Longrightarrow> t_groups (map (\<lambda>x. if table_of x = t \<and> W x then f x else x) db) = t_groups db"
    and "t \<noteq> TLink \<Longrightarrow> t_links (map (\<lambda>x. if table_of x = t \<and> W x then f x else x) db) = t_links db"
    and "t \<noteq> TDNS \<Longrightarrow> t_dns_records (map (\<lambda>x. if table_of x = t \<and> W x then f x else x) db) = t_dns_records db"
    and "t \<noteq> TForward \<Longrightarrow> t_forwards (map (\<lambda>x. if table_of x = t \<and> W x then f x else x) db) = t_forwards db"
    and "t \<noteq> TMap \<Longrightarrow> t_maps (map (\<lambda>x. if table_of x = t \<and> W x then f x else x) db) = t_maps db"
    and "t \<noteq> TAllow \<Longrightarrow> t_allows (map (\<lambda>x. if table_of x = t \<and> W x then f x else x) db) = t_allows db"
proof -
  have g: "g (if table_of x = t \<and> W x then f x else x) = g x"
    if "\<And>y. table_of y = t \<Longrightarrow> g y = None" for g :: "row \<Rightarrow> 'b option" and x
    using that [of x] that [of "f x"] assms [of x] by auto
  show "t \<noteq> TAdmin \<Longrightarrow> t_admins (map (\<lambda>x. if table_of x = t \<and> W x then f x else x) db) = t_admins db"
    and "t \<noteq> TSettings \<Longrightarrow> t_settings (map (\<lambda>x. if table_of x = t \<and> W x then f x else x) db) = t_settings db"
    and "t \<noteq> TPeer \<Longrightarrow> t_peers (map (\<lambda>x. if table_of x = t \<and> W x then f x else x) db) = t_peers db"
    and "t \<noteq> TGroup \<Longrightarrow> t_groups (map (\<lambda>x. if table_of x = t \<and> W x then f x else x) db) = t_groups db"
    and "t \<noteq> TLink \<Longrightarrow> t_links (map (\<lambda>x. if table_of x = t \<and> W x then f x else x) db) = t_links db"
    and "t \<noteq> TDNS \<Longrightarrow> t_dns_records (map (\<lambda>x. if table_of x = t \<and> W x then f x else x) db) = t_dns_records db"
    and "t \<noteq> TForward \<Longrightarrow> t_forwards (map (\<lambda>x. if table_of x = t \<and> W x then f x else x) db) = t_forwards db"
    and "t \<noteq> TMap \<Longrightarrow> t_maps (map (\<lambda>x. if table_of x = t \<and> W x then f x else x) db) = t_maps db"
    and "t \<noteq> TAllow \<Longrightarrow> t_allows (map (\<lambda>x. if table_of x = t \<and> W x then f x else x) db) = t_allows db"
    unfolding table_defs by (rule map_filter_map, rule g, simp split: row.splits, metis table_of.simps)+
qed

lemma rewrite_same:
  "t_peers (map (\<lambda>x. if table_of x = TPeer \<and> key_of x = (p_ID q, 0) then RPeer q else x) db) =
     map (\<lambda>p. if p_ID p = p_ID q then q else p) (t_peers db)"
  "t_groups (map (\<lambda>x. if table_of x = TGroup \<and> key_of x = (g_ID g, 0) then RGroup g else x) db) =
     map (\<lambda>h. if g_ID h = g_ID g then g else h) (t_groups db)"
  "t_maps (map (\<lambda>x. if table_of x = TMap \<and> key_of x = (m_ID m, 0) then RMap m else x) db) =
     map (\<lambda>k. if m_ID k = m_ID m then m else k) (t_maps db)"
  "t_settings (map (\<lambda>x. if table_of x = TSettings \<and> key_of x = (se_ID s, 0) then RSettings s else x) db) =
     map (\<lambda>k. if se_ID k = se_ID s then s else k) (t_settings db)"
  by (induction db; simp add: tables_Cons split: row.splits)+

section \<open>The invariant\<close>

definition graph_ok :: "db \<Rightarrow> bool" where
  "graph_ok db = (p_GroupID ` set (t_peers db) \<subseteq> g_ID ` set (t_groups db) \<and>
     l_From ` set (t_links db) \<subseteq> g_ID ` set (t_groups db) \<and> l_To ` set (t_links db) \<subseteq> g_ID ` set (t_groups db) \<and>
     a_GroupID ` set (t_allows db) \<subseteq> g_ID ` set (t_groups db))"

definition conf_ok :: "db \<Rightarrow> bool" where
  "conf_ok db = ((t_admins db = [] \<longleftrightarrow> t_settings db = []) \<and> length (t_settings db) \<le> 1 \<and>
     (t_settings db = [] \<longrightarrow> t_peers db = [] \<and> t_maps db = []) \<and>
     (\<forall>s \<in> set (t_settings db). se_HubIP s \<noteq> [] \<and> se_DNSIP s \<noteq> []))"

definition ctl_inv :: "db \<Rightarrow> bool" where
  "ctl_inv db = (link_ok db \<and> ip_ok db \<and> refs_ok db \<and> fwd_ok db \<and> graph_ok db \<and> conf_ok db)"

abbreviation good :: "db \<Rightarrow> bool" where
  "good db \<equiv> uniq_ok db \<and> ctl_inv db"

lemmas inv_defs = ctl_inv_def link_ok_def ip_ok_def refs_ok_def fwd_ok_def graph_ok_def conf_ok_def

lemma hub_known_settings: "conf_ok db \<Longrightarrow> s \<in> set (t_settings db) \<Longrightarrow> hub_known db (se_HubIP s) (se_DNSIP s)"
  by (cases "t_settings db") (auto simp: conf_ok_def hub_known_def)

section \<open>Composing\<close>

lemma goodI: "(\<And>db0. ctl_inv db0 \<Longrightarrow> hoare (at db0) m Q good) \<Longrightarrow> hoare good m Q good"
  unfolding hoare_def by blast

lemma read_good:
  assumes "hoare (at db0) m (\<lambda>x db. at db0 db \<and> A x) (at db0)" "ctl_inv db0"
    and "\<And>x. A x \<Longrightarrow> hoare (at db0) (f x) Q good"
  shows "hoare (at db0) (andthen m f) Q good"
  by (rule hoare_read [where A = A], rule hoare_weaken [OF assms(1)]) (use assms(2,3) in auto)

lemma lift_good:
  assumes "ctl_inv db0" "\<And>x. r = Inr x \<Longrightarrow> hoare (at db0) (f x) Q good"
  shows "hoare (at db0) (andthen (lift_res r) f) Q good"
  by (rule hoare_lift_read) (use assms in auto)

lemma attempt_at:
  "hoare (at db0) m (\<lambda>x db. at db0 db \<and> A x) (at db0) \<Longrightarrow>
   hoare (at db0) (attempt m) (\<lambda>r db. at db0 db \<and> (case r of Inl _ \<Rightarrow> True | Inr x \<Rightarrow> A x)) (at db0)"
  by (rule hoare_attempt, erule hoare_weaken) auto

lemma or_err_at:
  assumes "hoare (at db0) m (\<lambda>x db. at db0 db \<and> A x) (at db0)"
  shows "hoare (at db0) (or_err e m) (\<lambda>x db. at db0 db \<and> A x) (at db0)"
  unfolding or_err_def
  by (rule hoare_read [OF attempt_at [OF assms]]) (auto split: sum.splits intro!: hoare_ret hoare_fail)

lemma or_empty_at:
  assumes "hoare (at db0) m (\<lambda>x db. at db0 db \<and> A x) (at db0)"
  shows "hoare (at db0) (or_empty m) (\<lambda>x db. at db0 db \<and> (x = [] \<or> A x)) (at db0)"
  unfolding or_empty_def
  by (rule hoare_read [OF attempt_at [OF assms]]) (auto split: sum.splits intro!: hoare_ret hoare_fail)

lemma ignore_good: "hoare P m (\<lambda>_. I) I \<Longrightarrow> hoare P (ignore m) (\<lambda>_. I) I"
  unfolding ignore_def
  by (rule hoare_andthen [where R = "\<lambda>_. I"], rule hoare_attempt, erule hoare_weaken) (auto intro: hoare_ret)

lemma stmt_good:
  assumes "sql_ok exec" "ctl_inv db0" "\<And>db' rows. uniq_ok db' \<Longrightarrow> sem q db0 db' rows \<Longrightarrow> ctl_inv db' \<and> Q () db'"
  shows "hoare (at db0) (exec_stmt exec q) (\<lambda>x db. good db \<and> Q x db) good"
  by (rule hoare_stmt [OF assms(1)]) (use assms(2,3) in auto)

lemma then_ret: "hoare P m (\<lambda>_ db. I db) I \<Longrightarrow> hoare P (andthen m (\<lambda>_. ret x)) (\<lambda>_ db. I db) I"
  by (rule hoare_andthen [where R = "\<lambda>_. I"]) (auto intro: hoare_ret)

section \<open>Peers\<close>

lemma GetPeer_at: "sql_ok exec \<Longrightarrow> hoare (at db0) (GetPeer exec i) (\<lambda>p db. at db0 db \<and> (p \<in> set (t_peers db0) \<and> p_ID p = i)) (at db0)"
  unfolding GetPeer_def by (rule first_typed_at)

lemma GetGroup_at: "sql_ok exec \<Longrightarrow> hoare (at db0) (GetGroup exec i) (\<lambda>g db. at db0 db \<and> (g \<in> set (t_groups db0) \<and> g_ID g = i)) (at db0)"
  unfolding GetGroup_def by (rule first_typed_at)

lemma CreatePeer_good:
  assumes ok: "sql_ok exec" and inv: "ctl_inv db0" and s: "s \<in> set (t_settings db0)"
    and g: "p_GroupID peer \<in> g_ID ` set (t_groups db0)" and new: "p_ID peer = 0"
  shows "hoare (at db0) (CreatePeerWithAllocatedIP exec peer (se_WGSubnet s) (se_HubIP s) (se_DNSIP s)) (\<lambda>_. good) good"
proof -
  have ip: "ip_ok db0" and hub: "hub_known db0 (se_HubIP s) (se_DNSIP s)"
    using inv hub_known_settings [OF _ s] by (simp_all add: ctl_inv_def)
  show ?thesis
  proof (rule hoare_weaken [OF CreatePeer_triple [OF ok ip hub new]])
    fix p db assume a: "uniq_ok db \<and> ip_ok db \<and> p_Name p = p_Name peer \<and> p_GroupID p = p_GroupID peer \<and>
       p_WGIP p \<notin> used_ips (se_HubIP s) (se_DNSIP s) db0 \<and>
       (\<exists>d. db = db0 @ [RPeer p, RDNS d] \<and> d_IP d = p_WGIP p \<and> d_PeerID d = Some (p_ID p))"
    then obtain d where db: "db = db0 @ [RPeer p, RDNS d]" by blast
    have t: "t_peers db = t_peers db0 @ [p]" "t_groups db = t_groups db0" "t_links db = t_links db0" "t_maps db = t_maps db0"
      "t_allows db = t_allows db0" "t_settings db = t_settings db0" "t_admins db = t_admins db0" "t_forwards db = t_forwards db0"
      by (simp_all add: db tables_Cons)
    have "graph_ok db" "conf_ok db" "link_ok db" "refs_ok db" "fwd_ok db"
      using inv s g a unfolding ctl_inv_def graph_ok_def conf_ok_def link_ok_def refs_ok_def fwd_ok_def t by auto
    with a show "good db" by (simp add: ctl_inv_def)
  qed (use inv in auto)
qed

lemma create_peer_db_good:
  assumes ok: "sql_ok exec"
  shows "hoare good (create_peer_db exec keys now inp) (\<lambda>_. good) good"
proof (rule goodI)
  fix db0 assume inv: "ctl_inv db0"
  show "hoare (at db0) (create_peer_db exec keys now inp) (\<lambda>_. good) good"
    unfolding create_peer_db_def
  proof (rule lift_good [OF inv], rule read_good [OF or_err_at [OF GetGroup_at [OF ok]] inv],
      rule read_good [OF or_empty_at [OF find_typed_at(1) [OF ok]] inv], rule hoare_if, rule hoare_fail, use inv in blast,
      rule read_good [OF first_settings_at [OF ok] inv], rule lift_good [OF inv], clarify)
    fix slug g existing settings priv pub
    assume g: "g \<in> set (t_groups db0)" "g_ID g = cp_GroupID inp" and s: "settings \<in> set (t_settings db0)"
    let ?p = "new_peer slug pub priv (cp_GroupID inp) now"
    let ?c = "CreatePeerWithAllocatedIP exec ?p (se_WGSubnet settings) (se_HubIP settings) (se_DNSIP settings)"
    have gid: "p_GroupID ?p \<in> g_ID ` set (t_groups db0)" using g by (force simp: new_peer_def)
    have "hoare (at db0) (attempt ?c) (\<lambda>_. good) good"
      by (rule hoare_attempt, rule hoare_weaken [OF CreatePeer_good [OF ok inv s gid]]) (auto simp: new_peer_def)
    then show "hoare (at db0) (andthen (attempt ?c) (\<lambda>r. case r of
       Inl e \<Rightarrow> fail (if e = ErrIPAllocationUnavailable then ErrPeerIPUnavailable else e)
     | Inr peer \<Rightarrow> ret (peer, g_Name g))) (\<lambda>_. good) good"
      by (rule hoare_andthen) (auto split: sum.splits intro: hoare_ret hoare_fail)
  qed
qed

text \<open>Writing back a peer that keeps its key and address.\<close>

lemma UpdatePeer_good:
  assumes ok: "sql_ok exec" and inv: "ctl_inv db0" and p: "p \<in> set (t_peers db0)" "p_ID q = p_ID p" "p_WGIP q = p_WGIP p"
    and g: "p_GroupID q \<in> g_ID ` set (t_groups db0)"
  shows "hoare (at db0) (UpdatePeer exec q) (\<lambda>_. good) good"
  unfolding UpdatePeer_def
proof (rule hoare_weaken [OF stmt_good [OF ok inv, where Q = "\<lambda>_ _. True"]])
  fix db' rows assume u: "uniq_ok db'" and sem: "sem (Save (RPeer q)) db0 db' rows"
  have mem: "RPeer p \<in> set db0" using p(1) by (simp add: set_tables)
  have "db' = map (\<lambda>x. if table_of x = TPeer \<and> key_of x = (p_ID q, 0) then RPeer q else x) db0"
    using saved [OF sem mem] p(2) by simp
  then have t: "t_peers db' = map (\<lambda>x. if p_ID x = p_ID q then q else x) (t_peers db0)"
    and o: "t_groups db' = t_groups db0" "t_links db' = t_links db0" "t_maps db' = t_maps db0"
      "t_allows db' = t_allows db0" "t_settings db' = t_settings db0" "t_admins db' = t_admins db0" "t_forwards db' = t_forwards db0"
    by (simp_all only: rewrite_same rewrite_other [where t = TPeer and f = "\<lambda>_. RPeer q", simplified])
  have ips: "p_WGIP ` set (t_peers db') \<subseteq> p_WGIP ` set (t_peers db0)" using p(1,3) unfolding t by auto
  have groups: "p_GroupID ` set (t_peers db') \<subseteq> g_ID ` set (t_groups db')"
    using inv g unfolding t o by (auto simp: ctl_inv_def graph_ok_def)
  have "ip_ok db'" using inv ips unfolding ctl_inv_def ip_ok_def o by (auto simp: subset_iff image_iff)
  moreover have "conf_ok db'" using inv unfolding ctl_inv_def conf_ok_def o t by auto
  moreover have "graph_ok db'" using inv groups unfolding ctl_inv_def graph_ok_def o by auto
  ultimately show "ctl_inv db' \<and> True"
    using inv unfolding ctl_inv_def link_ok_def refs_ok_def fwd_ok_def o by simp
qed auto

lemma other_tables_good:
  assumes "ctl_inv db0" "t_peers db = t_peers db0" "t_groups db = t_groups db0" "t_links db = t_links db0" "t_maps db = t_maps db0"
    "t_allows db = t_allows db0" "t_settings db = t_settings db0" "t_admins db = t_admins db0" "t_forwards db = t_forwards db0"
  shows "ctl_inv db"
  using assms(1) unfolding inv_defs assms(2-) .

lemma DeleteDNSByPeerID_good:
  assumes "sql_ok exec"
  shows "hoare good (DeleteDNSByPeerID exec i) (\<lambda>_. good) good"
proof (rule goodI)
  fix db0 assume inv: "ctl_inv db0"
  show "hoare (at db0) (DeleteDNSByPeerID exec i) (\<lambda>_. good) good"
    unfolding DeleteDNSByPeerID_def
    by (rule hoare_weaken [OF delete_at [OF assms]])
      (use inv in \<open>auto intro!: other_tables_good [OF inv] simp: delete_other\<close>)
qed

lemma CreateDNSRecord_good:
  assumes "sql_ok exec"
  shows "hoare good (CreateDNSRecord exec d) (\<lambda>_. good) good"
proof (rule goodI)
  fix db0 assume inv: "ctl_inv db0"
  have "hoare (at db0) (create exec (RDNS d)) (\<lambda>_. good) good"
  proof (rule hoare_weaken [OF create_at [OF assms refl]])
    fix x db assume "uniq_ok db \<and> db = db0 @ [x] \<and>
      (\<exists>i. i \<noteq> 0 \<and> x = (if fst (key_of (gorm_defaults (RDNS d))) = 0 then set_id i (gorm_defaults (RDNS d)) else gorm_defaults (RDNS d)))"
    then obtain d' where "uniq_ok db" "db = db0 @ [RDNS d']" by (auto split: if_splits)
    then show "good db" by (auto intro!: other_tables_good [OF inv] simp: tables_Cons)
  qed (use inv in auto)
  then show "hoare (at db0) (CreateDNSRecord exec d) (\<lambda>_. good) good"
    unfolding CreateDNSRecord_def by (rule then_ret)
qed

lemma ensurePeerDNSRecord_good:
  assumes "sql_ok exec"
  shows "hoare good (ensurePeerDNSRecord exec i n ip) (\<lambda>_. good) good"
  unfolding ensurePeerDNSRecord_def
  by (rule hoare_if, rule hoare_fail, assumption,
      rule hoare_andthen [OF ignore_good [OF DeleteDNSByPeerID_good [OF assms]]], rule CreateDNSRecord_good [OF assms])

lemma group_name_at:
  assumes ok: "sql_ok exec"
  shows "hoare (at db0) (case gid of
         Some g \<Rightarrow> andthen (or_err ErrGroupNotFound (GetGroup exec g)) (\<lambda>grp. ret (g_Name grp))
       | None \<Rightarrow> andthen (attempt (GetGroup exec cur)) (\<lambda>r. case r of Inl _ \<Rightarrow> ret [] | Inr grp \<Rightarrow> ret (g_Name grp)))
     (\<lambda>_ db. at db0 db \<and> set_option gid \<subseteq> g_ID ` set (t_groups db0)) (at db0)"
proof (cases gid)
  case None
  show ?thesis unfolding None option.case
    by (rule hoare_read [OF attempt_at [OF GetGroup_at [OF ok]]]) (auto split: sum.splits intro!: hoare_ret)
next
  case (Some g)
  show ?thesis unfolding Some option.case
    by (rule hoare_read [OF or_err_at [OF GetGroup_at [OF ok]]]) (auto intro!: hoare_ret)
qed

lemma rename_peer_at:
  assumes ok: "sql_ok exec"
  shows "hoare (at db0) (rename_peer exec i name p)
     (\<lambda>r db. at db0 db \<and> (p_ID (fst r) = p_ID p \<and> p_WGIP (fst r) = p_WGIP p \<and> p_GroupID (fst r) = p_GroupID p)) (at db0)"
proof (cases name)
  case None
  then show ?thesis by (auto simp: rename_peer_def intro!: hoare_ret)
next
  case (Some n)
  show ?thesis unfolding rename_peer_def Some option.case
    by (rule hoare_lift_read, rule hoare_if, rule hoare_ret, simp,
        rule hoare_read [OF or_empty_at [OF find_typed_at(1) [OF ok]]], rule hoare_if, rule hoare_fail, assumption,
        rule hoare_ret) simp_all
qed

lemma move_peer_same:
  assumes "move_peer g r = (q, b)" "p_GroupID (fst r) \<in> G" "set_option g \<subseteq> G"
  shows "p_ID q = p_ID (fst r) \<and> p_WGIP q = p_WGIP (fst r) \<and> p_GroupID q \<in> G"
  using assms by (cases r) (auto simp: move_peer_def split: option.splits if_splits)

lemma update_peer_db_good:
  assumes ok: "sql_ok exec"
  shows "hoare good (update_peer_db exec i inp) (\<lambda>_. good) good"
proof (rule goodI)
  fix db0 assume inv: "ctl_inv db0"
  show "hoare (at db0) (update_peer_db exec i inp) (\<lambda>_. good) good"
    unfolding update_peer_db_def
  proof (rule read_good [OF or_err_at [OF GetPeer_at [OF ok]] inv], rule read_good [OF group_name_at [OF ok] inv],
      rule read_good [OF rename_peer_at [OF ok] inv])
    fix p groupName and renamed :: "Peer \<times> bool"
    assume p: "p \<in> set (t_peers db0) \<and> p_ID p = i" and g: "set_option (up_GroupID inp) \<subseteq> g_ID ` set (t_groups db0)"
      and r: "p_ID (fst renamed) = p_ID p \<and> p_WGIP (fst renamed) = p_WGIP p \<and> p_GroupID (fst renamed) = p_GroupID p"
    obtain q ch where m: "move_peer (up_GroupID inp) renamed = (q, ch)" by (cases "move_peer (up_GroupID inp) renamed")
    have "p_GroupID (fst renamed) \<in> g_ID ` set (t_groups db0)" using inv p r by (auto simp: ctl_inv_def graph_ok_def)
    from move_peer_same [OF m this g] r
    have q: "p_ID q = p_ID p" "p_WGIP q = p_WGIP p" "p_GroupID q \<in> g_ID ` set (t_groups db0)" by simp_all
    show "hoare (at db0) (let (peer, changed) = move_peer (up_GroupID inp) renamed in
     if \<not> changed then ret (peer, groupName, False)
     else andthen (UpdatePeer exec peer) (\<lambda>_.
       andthen (if up_Name inp \<noteq> None then ensurePeerDNSRecord exec (p_ID peer) (p_DNSName peer) (p_WGIP peer) else ret ()) (\<lambda>_.
       ret (peer, groupName, True)))) (\<lambda>_. good) good"
      unfolding m Let_def prod.case
    proof (rule hoare_if, rule hoare_ret, use inv in blast, rule hoare_andthen)
      show "hoare (at db0) (UpdatePeer exec q) (\<lambda>_. good) good"
        by (rule UpdatePeer_good [OF ok inv conjunct1 [OF p] q])
      show "hoare good (andthen (if up_Name inp \<noteq> None then ensurePeerDNSRecord exec (p_ID q) (p_DNSName q) (p_WGIP q) else ret ()) (\<lambda>_.
       ret (q, groupName, True))) (\<lambda>_. good) good"
        by (rule then_ret, rule hoare_if, rule ensurePeerDNSRecord_good [OF ok], rule hoare_ret)
    qed
  qed
qed

lemma DeletePeer_good:
  assumes ok: "sql_ok exec"
  shows "hoare good (Store.DeletePeer exec i) (\<lambda>_. good) good"
proof (rule goodI)
  fix db0 assume inv: "ctl_inv db0"
  let ?db = "filter (\<lambda>x. table_of x = TPeer \<longrightarrow> \<not> on_peer (\<lambda>p. p_ID p = i) x) db0"
  have t: "t_peers ?db = filter (\<lambda>p. p_ID p \<noteq> i) (t_peers db0)" "t_groups ?db = t_groups db0" "t_links ?db = t_links db0"
    "t_maps ?db = t_maps db0" "t_allows ?db = t_allows db0" "t_settings ?db = t_settings db0" "t_admins ?db = t_admins db0"
    "t_forwards ?db = t_forwards db0" by (simp_all add: delete_other)
  have "ctl_inv ?db" using inv unfolding inv_defs t by auto
  then show "hoare (at db0) (Store.DeletePeer exec i) (\<lambda>_. good) good"
    unfolding Store.DeletePeer_def by (rule_tac hoare_weaken [OF delete_at [OF ok]]) (use inv in auto)
qed

lemma delete_peer_db_good:
  assumes ok: "sql_ok exec"
  shows "hoare good (delete_peer_db exec i) (\<lambda>_. good) good"
proof (rule goodI)
  fix db0 assume inv: "ctl_inv db0"
  show "hoare (at db0) (delete_peer_db exec i) (\<lambda>_. good) good"
    unfolding delete_peer_db_def
    by (rule read_good [OF or_err_at [OF GetPeer_at [OF ok]] inv], rule hoare_andthen [where R = "\<lambda>_. good"],
        rule hoare_weaken [OF DeleteDNSByPeerID_good [OF ok]]) (use inv DeletePeer_good [OF ok] in auto)
qed

lemma toggle_peer_db_good:
  assumes ok: "sql_ok exec"
  shows "hoare good (toggle_peer_db exec i) (\<lambda>_. good) good"
proof (rule goodI)
  fix db0 assume inv: "ctl_inv db0"
  show "hoare (at db0) (toggle_peer_db exec i) (\<lambda>_. good) good"
    unfolding toggle_peer_db_def Let_def
    by (rule read_good [OF or_err_at [OF GetPeer_at [OF ok]] inv], rule read_good [OF attempt_at [OF GetGroup_at [OF ok]] inv],
        rule then_ret, rule UpdatePeer_good [OF ok inv])
      (use inv in \<open>auto simp: ctl_inv_def graph_ok_def\<close>)
qed

lemma UpdatePeerStats_good:
  assumes ok: "sql_ok exec"
  shows "hoare good (UpdatePeerStats exec i hs rx tx) (\<lambda>_. good) good"
proof (rule goodI)
  fix db0 assume inv: "ctl_inv db0"
  let ?f = "\<lambda>r. case r of RPeer p \<Rightarrow> RPeer (p\<lparr>p_LastHandshake := hs, p_RxBytes := rx, p_TxBytes := tx\<rparr>) | x \<Rightarrow> x"
  let ?db = "map (\<lambda>x. if table_of x = TPeer \<and> on_peer (\<lambda>p. p_ID p = i) x then ?f x else x) db0"
  have "t_peers (map (\<lambda>x. if table_of x = TPeer \<and> on_peer (\<lambda>p. p_ID p = i) x then ?f x else x) d) =
      map (\<lambda>p. if p_ID p = i then p\<lparr>p_LastHandshake := hs, p_RxBytes := rx, p_TxBytes := tx\<rparr> else p) (t_peers d)" for d
    by (induction d) (auto simp: tables_Cons split: row.splits)
  then have p: "t_peers ?db = map (\<lambda>p. if p_ID p = i then p\<lparr>p_LastHandshake := hs, p_RxBytes := rx, p_TxBytes := tx\<rparr> else p) (t_peers db0)" .
  have f: "table_of x = TPeer \<Longrightarrow> on_peer (\<lambda>p. p_ID p = i) x \<Longrightarrow> table_of (?f x) = TPeer" for x by (cases x) auto
  note o = rewrite_other [where t = TPeer and W = "on_peer (\<lambda>p. p_ID p = i)" and f = ?f, OF f, simplified]
  have "ctl_inv ?db" using inv unfolding inv_defs p o by auto
  then show "hoare (at db0) (UpdatePeerStats exec i hs rx tx) (\<lambda>_. good) good"
    unfolding UpdatePeerStats_def
    by (rule_tac hoare_weaken [OF stmt_good [OF ok inv, where Q = "\<lambda>_ _. True"]]) auto
qed

lemma stats_update_good:
  assumes ok: "sql_ok exec"
  shows "hoare good (for_each peers (stats_update exec stats)) (\<lambda>_. good) good"
  by (rule hoare_for_each) (auto simp: stats_update_def split: option.splits
      intro!: hoare_ret ignore_good UpdatePeerStats_good [OF ok])

section \<open>Groups and links\<close>

lemma create_group_good:
  assumes ok: "sql_ok exec" and inv: "ctl_inv db0"
  shows "hoare (at db0) (create exec (RGroup g)) (\<lambda>_. good) good"
proof (rule hoare_weaken [OF create_at [OF ok refl]])
  fix x db assume "uniq_ok db \<and> db = db0 @ [x] \<and>
    (\<exists>i. i \<noteq> 0 \<and> x = (if fst (key_of (gorm_defaults (RGroup g))) = 0 then set_id i (gorm_defaults (RGroup g)) else gorm_defaults (RGroup g)))"
  then obtain h where u: "uniq_ok db" and db: "db = db0 @ [RGroup h]" by (auto split: if_splits)
  have t: "t_groups db = t_groups db0 @ [h]" "t_peers db = t_peers db0" "t_links db = t_links db0" "t_maps db = t_maps db0"
    "t_allows db = t_allows db0" "t_settings db = t_settings db0" "t_admins db = t_admins db0" "t_forwards db = t_forwards db0"
    by (simp_all add: db tables_Cons)
  have "ctl_inv db" using inv unfolding inv_defs t by auto
  with u show "good db" by simp
qed (use inv in auto)

lemma CreateGroup_good:
  assumes ok: "sql_ok exec"
  shows "hoare good (Store.CreateGroup exec n x y) (\<lambda>_. good) good"
proof (rule goodI)
  fix db0 assume inv: "ctl_inv db0"
  show "hoare (at db0) (Store.CreateGroup exec n x y) (\<lambda>_. good) good"
    unfolding Store.CreateGroup_def Let_def
    by (rule hoare_if, rule hoare_fail, use inv in blast, rule hoare_andthen [OF create_group_good [OF ok inv]])
      (auto split: row.splits intro: hoare_ret hoare_fail)
qed

lemma save_group_good:
  assumes ok: "sql_ok exec"
  shows "hoare (\<lambda>db. good db \<and> g_ID g \<in> g_ID ` set (t_groups db)) (exec_stmt exec (Save (RGroup g)))
     (\<lambda>_ db. good db \<and> g_ID g \<in> g_ID ` set (t_groups db)) good"
proof (rule hoare_assume)
  fix db0 assume a: "good db0 \<and> g_ID g \<in> g_ID ` set (t_groups db0)"
  then obtain h where h: "h \<in> set (t_groups db0)" "g_ID h = g_ID g" by force
  from a have inv: "ctl_inv db0" by simp
  show "hoare (\<lambda>db. db = db0) (exec_stmt exec (Save (RGroup g))) (\<lambda>_ db. good db \<and> g_ID g \<in> g_ID ` set (t_groups db)) good"
  proof (rule hoare_weaken [OF stmt_good [OF ok inv, where Q = "\<lambda>_ db. g_ID g \<in> g_ID ` set (t_groups db)"]])
    fix db' rows assume sem: "sem (Save (RGroup g)) db0 db' rows"
    have mem: "RGroup h \<in> set db0" using h(1) by (simp add: set_tables)
    have "db' = map (\<lambda>x. if table_of x = TGroup \<and> key_of x = (g_ID g, 0) then RGroup g else x) db0"
      using saved [OF sem mem] h(2) by simp
    then have t: "t_groups db' = map (\<lambda>x. if g_ID x = g_ID g then g else x) (t_groups db0)"
      and o: "t_peers db' = t_peers db0" "t_links db' = t_links db0" "t_maps db' = t_maps db0"
        "t_allows db' = t_allows db0" "t_settings db' = t_settings db0" "t_admins db' = t_admins db0" "t_forwards db' = t_forwards db0"
      by (simp_all only: rewrite_same rewrite_other [where t = TGroup and f = "\<lambda>_. RGroup g", simplified])
    have ids: "g_ID ` set (t_groups db') = g_ID ` set (t_groups db0)"
      unfolding t set_map image_image by (rule image_cong) simp_all
    have "graph_ok db'" using inv unfolding ctl_inv_def graph_ok_def ids o by simp
    moreover have "g_ID g \<in> g_ID ` set (t_groups db')" using a unfolding ids by simp
    ultimately show "ctl_inv db' \<and> g_ID g \<in> g_ID ` set (t_groups db')"
      using inv unfolding ctl_inv_def link_ok_def ip_ok_def refs_ok_def fwd_ok_def conf_ok_def o by simp
  qed (use a in auto)
qed

lemma RenameGroup_good:
  assumes ok: "sql_ok exec" and inv: "ctl_inv db0"
  shows "hoare (at db0) (RenameGroup exec i n) (\<lambda>g db. good db \<and> g_ID g \<in> g_ID ` set (t_groups db)) good"
  unfolding RenameGroup_def Let_def
proof (rule hoare_if, rule hoare_fail, use inv in blast, rule read_good [OF GetGroup_at [OF ok] inv], rule hoare_if,
    rule hoare_ret, use inv in blast, rule read_good [OF count_at [OF ok] inv], rule hoare_if, rule hoare_fail, use inv in blast)
  fix g assume g: "g \<in> set (t_groups db0) \<and> g_ID g = i"
  let ?g = "g\<lparr>g_Name := trim_space n\<rparr>"
  have "hoare (at db0) (exec_stmt exec (Save (RGroup ?g))) (\<lambda>_ db. good db \<and> g_ID ?g \<in> g_ID ` set (t_groups db)) good"
    by (rule hoare_weaken [OF save_group_good [OF ok]]) (use g inv in auto)
  then show "hoare (at db0) (andthen (exec_stmt exec (Save (RGroup ?g))) (\<lambda>_. ret ?g))
     (\<lambda>g db. good db \<and> g_ID g \<in> g_ID ` set (t_groups db)) good"
    by (rule hoare_andthen) (rule hoare_ret)
qed

lemma patch_group_ID [simp]: "g_ID (patch_group inp g) = g_ID g"
  by (simp add: patch_group_def Let_def split: option.splits)

lemma update_group_db_good:
  assumes ok: "sql_ok exec"
  shows "hoare good (update_group_db exec i inp) (\<lambda>_. good) good"
proof (rule goodI)
  fix db0 assume inv: "ctl_inv db0"
  show "hoare (at db0) (update_group_db exec i inp) (\<lambda>_. good) good"
    unfolding update_group_db_def Let_def
  proof (rule read_good [OF GetGroup_at [OF ok] inv], rule hoare_andthen)
    fix g assume g: "g \<in> set (t_groups db0) \<and> g_ID g = i"
    show "hoare (at db0) (case ug_Name inp of None \<Rightarrow> ret g | Some n \<Rightarrow> RenameGroup exec i n)
      (\<lambda>g db. good db \<and> g_ID g \<in> g_ID ` set (t_groups db)) good"
      using g inv RenameGroup_good [OF ok inv] by (auto split: option.splits intro!: hoare_ret)
  next
    fix g :: PeerGroup
    have "hoare (\<lambda>db. good db \<and> g_ID g \<in> g_ID ` set (t_groups db)) (Store.UpdateGroup exec (patch_group inp g)) (\<lambda>_. good) good"
      unfolding Store.UpdateGroup_def
      by (rule hoare_weaken [OF save_group_good [OF ok]]) auto
    then show "hoare (\<lambda>db. good db \<and> g_ID g \<in> g_ID ` set (t_groups db)) (if needs_runtime inp then
      andthen (Store.UpdateGroup exec (patch_group inp g)) (\<lambda>_. ret (patch_group inp g)) else ret (patch_group inp g)) (\<lambda>_. good) good"
      by (auto intro: then_ret hoare_ret)
  qed
qed

lemma layout_good:
  assumes ok: "sql_ok exec"
  shows "hoare good (UpdateGroupLayout exec items) (\<lambda>_. good) good"
  unfolding UpdateGroupLayout_def
proof (rule hoare_for_each, rule goodI)
  fix item db0 assume inv: "ctl_inv db0"
  show "hoare (at db0) (layout_item exec item) (\<lambda>_. good) good"
    unfolding layout_item_def
  proof (rule read_good [OF attempt_at [OF GetGroup_at [OF ok]] inv])
    fix r assume r: "case r of Inl _ \<Rightarrow> True | Inr g \<Rightarrow> g \<in> set (t_groups db0) \<and> g_ID g = ly_ID item"
    show "hoare (at db0) (case r of Inl _ \<Rightarrow> ret ()
       | Inr g \<Rightarrow> ignore (Store.UpdateGroup exec (g\<lparr>g_PosX := ly_PosX item, g_PosY := ly_PosY item\<rparr>))) (\<lambda>_. good) good"
    proof (cases r)
      case (Inl e)
      with inv show ?thesis by (auto intro: hoare_ret)
    next
      case (Inr g)
      have "hoare (at db0) (Store.UpdateGroup exec (g\<lparr>g_PosX := ly_PosX item, g_PosY := ly_PosY item\<rparr>)) (\<lambda>_. good) good"
        unfolding Store.UpdateGroup_def
        by (rule hoare_weaken [OF save_group_good [OF ok]]) (use Inr r inv in \<open>auto intro: rev_image_eqI\<close>)
      with Inr show ?thesis by (auto intro: ignore_good)
    qed
  qed
qed

lemma DeleteGroup_good:
  assumes ok: "sql_ok exec"
  shows "hoare good (Store.DeleteGroup exec i) (\<lambda>_. good) good"
proof (rule goodI)
  fix db0 assume inv: "ctl_inv db0"
  show "hoare (at db0) (Store.DeleteGroup exec i) (\<lambda>_. good) good"
  proof (rule hoare_weaken [OF DeleteGroup_triple [OF ok]])
    fix db assume a: "uniq_ok db \<and> i \<notin> p_GroupID ` set (t_peers db0) \<and> group_gone i db0 db"
    then have t: "t_groups db = filter (\<lambda>g. g_ID g \<noteq> i) (t_groups db0)"
      "t_links db = filter (\<lambda>l. l_From l \<noteq> i \<and> l_To l \<noteq> i) (t_links db0)"
      "t_allows db = filter (\<lambda>a. a_GroupID a \<noteq> i) (t_allows db0)"
      "t_peers db = t_peers db0" "t_maps db = t_maps db0" "t_settings db = t_settings db0"
      "t_forwards db = t_forwards db0" "t_admins db = t_admins db0" by (simp_all add: group_gone_def)
    have G: "g_ID ` set (t_groups db) = g_ID ` set (t_groups db0) - {i}" unfolding t by auto
    have L: "l_From ` set (t_links db) \<subseteq> l_From ` set (t_links db0) - {i}" "l_To ` set (t_links db) \<subseteq> l_To ` set (t_links db0) - {i}"
      "a_GroupID ` set (t_allows db) \<subseteq> a_GroupID ` set (t_allows db0) - {i}" unfolding t by auto
    have g: "p_GroupID ` set (t_peers db0) \<subseteq> g_ID ` set (t_groups db0)" "l_From ` set (t_links db0) \<subseteq> g_ID ` set (t_groups db0)"
      "l_To ` set (t_links db0) \<subseteq> g_ID ` set (t_groups db0)" "a_GroupID ` set (t_allows db0) \<subseteq> g_ID ` set (t_groups db0)"
      using inv unfolding ctl_inv_def graph_ok_def by simp_all
    have "p_GroupID ` set (t_peers db) \<subseteq> g_ID ` set (t_groups db0) - {i}" using g(1) a unfolding t(4) by blast
    moreover have "l_From ` set (t_links db) \<subseteq> g_ID ` set (t_groups db0) - {i}" "l_To ` set (t_links db) \<subseteq> g_ID ` set (t_groups db0) - {i}"
      "a_GroupID ` set (t_allows db) \<subseteq> g_ID ` set (t_groups db0) - {i}" by (rule order_trans [OF L(1) Diff_mono [OF g(2) order_refl]], rule order_trans [OF L(2) Diff_mono [OF g(3) order_refl]],
          rule order_trans [OF L(3) Diff_mono [OF g(4) order_refl]])
    ultimately have "graph_ok db" unfolding graph_ok_def G by simp
    moreover have "link_ok db"
    proof -
      have "set (t_links db) \<subseteq> set (t_links db0)" unfolding t by simp
      with inv show ?thesis unfolding ctl_inv_def link_ok_def by (meson inj_on_subset subsetD)
    qed
    moreover have "refs_ok db" using inv unfolding ctl_inv_def refs_ok_def t by auto
    ultimately show "good db" using inv a unfolding ctl_inv_def ip_ok_def fwd_ok_def conf_ok_def t by simp
  qed (use inv in auto)
qed

end
