(* ===== verification/Service_Reach.thy ===== *)
theory Service_Reach
  imports Service_Inv
begin

text \<open>
  The rest of the service's database operations (links, maps, forwards, settings, accounts, setup and
  reset) keep the invariant, and with them every history of the control plane does.
\<close>

lemma goodI': "(\<And>db0. uniq_ok db0 \<Longrightarrow> ctl_inv db0 \<Longrightarrow> hoare (at db0) m Q good) \<Longrightarrow> hoare good m Q good"
  unfolding hoare_def by blast

section \<open>Links\<close>

lemma create_link_db_good:
  assumes ok: "sql_ok exec"
  shows "hoare good (create_link_db exec inp) (\<lambda>_. good) good"
proof (rule goodI')
  fix db0 assume u0: "uniq_ok db0" and inv: "ctl_inv db0"
  show "hoare (at db0) (create_link_db exec inp) (\<lambda>_. good) good"
    unfolding create_link_db_def
  proof (rule read_good [OF GetGroup_at [OF ok] inv], rule read_good [OF GetGroup_at [OF ok] inv], rule hoare_if,
      rule hoare_fail, use inv in blast)
    fix g h
    assume g: "g \<in> set (t_groups db0) \<and> g_ID g = li_From inp" "h \<in> set (t_groups db0) \<and> g_ID h = li_To inp"
      and ne: "\<not> li_From inp = li_To inp"
    show "hoare (at db0) (UpsertGroupLink exec (li_From inp) (li_To inp) (li_Bidirectional inp)) (\<lambda>_. good) good"
    proof (rule hoare_weaken [OF UpsertGroupLink_triple [OF ok ne]])
      show "at db0 db \<Longrightarrow> db = db0 \<and> uniq_ok db \<and> link_ok db" for db using inv by (auto simp: ctl_inv_def)
      show "db = db0 \<Longrightarrow> good db" for db using u0 inv by simp
      fix db
      assume "uniq_ok db \<and> link_ok db \<and> (\<exists>l. db = filter (\<lambda>r. table_of r = TLink \<longrightarrow> \<not> on_link (between (li_From inp) (li_To inp)) r) db0 @ [RLink l] \<and>
          l_Bidirectional l = li_Bidirectional inp \<and> (l_From l = li_From inp \<and> l_To l = li_To inp \<or>
          li_Bidirectional inp \<and> l_From l = li_To inp \<and> l_To l = li_From inp))"
      then obtain l where u: "uniq_ok db" "link_ok db"
        and db: "db = filter (\<lambda>r. table_of r = TLink \<longrightarrow> \<not> on_link (between (li_From inp) (li_To inp)) r) db0 @ [RLink l]"
        and l: "{l_From l, l_To l} \<subseteq> {g_ID g, g_ID h}" using g by auto
      have t: "t_links db = filter (\<lambda>m. \<not> between (li_From inp) (li_To inp) m) (t_links db0) @ [l]"
        "t_groups db = t_groups db0" "t_peers db = t_peers db0" "t_maps db = t_maps db0"
        "t_allows db = t_allows db0" "t_settings db = t_settings db0" "t_admins db = t_admins db0" "t_forwards db = t_forwards db0"
        by (simp_all add: db delete_other tables_Cons)
      have "g_ID g \<in> g_ID ` set (t_groups db0)" "g_ID h \<in> g_ID ` set (t_groups db0)" using g by blast+
      then have "l_From l \<in> g_ID ` set (t_groups db0)" "l_To l \<in> g_ID ` set (t_groups db0)" using l by auto
      then have "graph_ok db" using inv unfolding ctl_inv_def graph_ok_def t by auto
      with inv u show "good db" unfolding ctl_inv_def ip_ok_def refs_ok_def fwd_ok_def conf_ok_def t by simp
    qed
  qed
qed

lemma DeleteGroupLink_good:
  assumes ok: "sql_ok exec"
  shows "hoare good (Store.DeleteGroupLink exec a b) (\<lambda>_. good) good"
proof (rule goodI)
  fix db0 assume inv: "ctl_inv db0"
  let ?db = "filter (\<lambda>x. table_of x = TLink \<longrightarrow> \<not> on_link (between a b) x) db0"
  have t: "t_links ?db = filter (\<lambda>m. \<not> between a b m) (t_links db0)" "t_groups ?db = t_groups db0" "t_peers ?db = t_peers db0"
    "t_maps ?db = t_maps db0" "t_allows ?db = t_allows db0" "t_settings ?db = t_settings db0" "t_admins ?db = t_admins db0"
    "t_forwards ?db = t_forwards db0" by (simp_all add: delete_other)
  have "link_ok ?db" using inv unfolding ctl_inv_def link_ok_def t by (auto intro: inj_on_subset)
  moreover have "graph_ok ?db" using inv unfolding ctl_inv_def graph_ok_def t by auto
  ultimately have "ctl_inv ?db" using inv unfolding ctl_inv_def ip_ok_def refs_ok_def fwd_ok_def conf_ok_def t by simp
  then show "hoare (at db0) (Store.DeleteGroupLink exec a b) (\<lambda>_. good) good"
    unfolding Store.DeleteGroupLink_def by (rule_tac hoare_weaken [OF delete_at [OF ok]]) (use inv in auto)
qed

section \<open>Maps\<close>

lemma groups_exist_at:
  assumes ok: "sql_ok exec"
  shows "hoare (at db0) (groups_exist exec gids) (\<lambda>_ db. at db0 db \<and> set gids \<subseteq> g_ID ` set (t_groups db0)) (at db0)"
proof (induction gids)
  case Nil
  then show ?case by (auto simp: groups_exist_def intro!: hoare_ret)
next
  case (Cons g gids)
  have "hoare (at db0) (or_err ErrAllowedGroupNotFound (andthen (GetGroup exec g) (\<lambda>_. ret ())))
     (\<lambda>_ db. at db0 db \<and> g \<in> g_ID ` set (t_groups db0)) (at db0)"
    by (rule or_err_at, rule hoare_read [OF GetGroup_at [OF ok]]) (auto intro!: hoare_ret)
  then have "hoare (at db0) (groups_exist exec (g # gids)) (\<lambda>_ db. at db0 db \<and>
      set (g # gids) \<subseteq> g_ID ` set (t_groups db0)) (at db0)"
    unfolding groups_exist_def for_each.simps
    by (rule hoare_read, rule_tac hoare_weaken [OF Cons.IH [unfolded groups_exist_def]]) auto
  then show ?case .
qed

lemma a_GroupID_allow_rows: "a_GroupID ` set (allow_rows i k gids) = set gids"
  using arg_cong [OF allow_rows_sorted(1) [of i k gids], of set] by simp

lemma map_added_good:
  assumes inv: "ctl_inv db0" and m: "map_added inp db0 m db" and g: "set (mi_AllowedGroups inp) \<subseteq> g_ID ` set (t_groups db0)"
    and ok: "uniq_ok db" "ip_ok db" "refs_ok db"
  shows "good db"
proof -
  from m have db: "db = db0 @ [RMap m] @ map RAllow (allow_rows (m_ID m) 0 (mi_AllowedGroups inp))" and s: "t_settings db0 \<noteq> []"
    by (simp_all add: map_added_def)
  have e: "t_groups (map RAllow xs) = []" "t_admins (map RAllow xs) = []" "t_forwards (map RAllow xs) = []" for xs
    by (induction xs) (simp_all add: tables_Cons)
  have t: "t_groups db = t_groups db0" "t_peers db = t_peers db0" "t_links db = t_links db0" "t_maps db = t_maps db0 @ [m]"
    "t_allows db = t_allows db0 @ allow_rows (m_ID m) 0 (mi_AllowedGroups inp)" "t_settings db = t_settings db0"
    "t_admins db = t_admins db0" "t_forwards db = t_forwards db0" unfolding db by (simp_all add: tables_Cons e)
  have "graph_ok db" using inv g a_GroupID_allow_rows [of "m_ID m" 0 "mi_AllowedGroups inp"]
    unfolding ctl_inv_def graph_ok_def t by auto
  moreover have "conf_ok db" using inv s unfolding ctl_inv_def conf_ok_def t by simp
  ultimately show ?thesis using inv ok unfolding ctl_inv_def link_ok_def fwd_ok_def t by simp
qed

lemma create_map_good:
  assumes ok: "sql_ok exec"
  shows "hoare good (andthen (groups_exist exec (mi_AllowedGroups inp)) (\<lambda>_. Store.CreateServiceMap exec inp)) (\<lambda>_. good) good"
proof (rule goodI)
  fix db0 assume inv: "ctl_inv db0"
  show "hoare (at db0) (andthen (groups_exist exec (mi_AllowedGroups inp)) (\<lambda>_. Store.CreateServiceMap exec inp)) (\<lambda>_. good) good"
  proof (rule read_good [OF groups_exist_at [OF ok] inv])
    assume g: "set (mi_AllowedGroups inp) \<subseteq> g_ID ` set (t_groups db0)"
    have p: "ip_ok db0" "refs_ok db0" "\<And>s. s \<in> set (t_settings db0) \<Longrightarrow> hub_known db0 (se_HubIP s) (se_DNSIP s)"
      using inv hub_known_settings by (simp_all add: ctl_inv_def)
    show "hoare (at db0) (Store.CreateServiceMap exec inp) (\<lambda>_. good) good"
      by (rule hoare_weaken [OF CreateServiceMap_triple [OF ok p]]) (use inv map_added_good [OF inv _ g] in blast)+
  qed
qed

lemma select_keeps: "sql_ok exec \<Longrightarrow> hoare good (run exec (Select t W)) (\<lambda>_. good) good"
  by (rule hoare_run) auto

lemma GetMapDetail_keeps:
  assumes ok: "sql_ok exec"
  shows "hoare good (GetMapDetail exec i) (\<lambda>_. good) good"
proof -
  have "hoare good (first_row exec TMap W) (\<lambda>_. good) good" for W
    unfolding first_row_def
    by (rule hoare_andthen [OF select_keeps [OF ok]]) (auto split: option.splits intro!: hoare_ret hoare_fail)
  then have g: "hoare good (GetServiceMap exec i) (\<lambda>_. good) good"
    unfolding GetServiceMap_def first_map_def
    by (rule hoare_andthen) (auto split: row.splits intro!: hoare_ret hoare_fail)
  have l: "hoare good (ListMapGroupIDs exec i) (\<lambda>_. good) good"
    unfolding ListMapGroupIDs_def by (rule hoare_andthen [OF select_keeps [OF ok]]) (auto intro!: hoare_ret)
  show ?thesis unfolding GetMapDetail_def by (rule hoare_andthen [OF g], rule hoare_andthen [OF l], rule hoare_ret)
qed

lemma GetServiceMap_at:
  "sql_ok exec \<Longrightarrow> hoare (at db0) (GetServiceMap exec i) (\<lambda>m db. at db0 db \<and> (m \<in> set (t_maps db0) \<and> m_ID m = i)) (at db0)"
  unfolding GetServiceMap_def by (rule first_map_at)

text \<open>Replacing a map and its allow list, keeping its key and address.\<close>

definition map_replaced :: "ServiceMap \<Rightarrow> nat list \<Rightarrow> db \<Rightarrow> db \<Rightarrow> bool" where
  "map_replaced m gids db0 db = (db = filter (\<lambda>x. table_of x = TAllow \<longrightarrow> \<not> on_allow (\<lambda>a. a_MapID a = m_ID m) x)
     (map (\<lambda>x. if table_of x = TMap \<and> key_of x = (m_ID m, 0) then RMap m else x) db0) @ map RAllow (allow_rows (m_ID m) 0 gids))"

lemma ip_ok_mono:
  assumes "ip_ok db0" "p_WGIP ` set (t_peers db) \<subseteq> p_WGIP ` set (t_peers db0)"
    "m_VirtualIP ` set (t_maps db) \<subseteq> m_VirtualIP ` set (t_maps db0)" "t_settings db = t_settings db0"
  shows "ip_ok db"
proof -
  have "ip_ok d \<longleftrightarrow> p_WGIP ` set (t_peers d) \<inter> m_VirtualIP ` set (t_maps d) = {} \<and>
     (\<forall>s \<in> set (t_settings d). {se_HubIP s, se_DNSIP s} \<inter> (p_WGIP ` set (t_peers d) \<union> m_VirtualIP ` set (t_maps d)) = {})" for d
    unfolding ip_ok_def by fastforce
  with assms show ?thesis by (metis (no_types, lifting) Int_mono Un_mono order_refl subset_empty)
qed

lemma map_replaced_good:
  assumes inv: "ctl_inv db0" and r: "map_replaced m gids db0 db" and u: "uniq_ok db"
    and old: "old \<in> set (t_maps db0)" "m_ID m = m_ID old" "m_VirtualIP m = m_VirtualIP old"
    and g: "set gids \<subseteq> g_ID ` set (t_groups db0)"
  shows "good db"
proof -
  have e: "t_groups (map RAllow xs) = []" "t_admins (map RAllow xs) = []" "t_forwards (map RAllow xs) = []" for xs
    by (induction xs) (simp_all add: tables_Cons)
  note o = rewrite_other [where t = TMap and f = "\<lambda>_. RMap m", simplified]
  have t: "t_groups db = t_groups db0" "t_peers db = t_peers db0" "t_links db = t_links db0"
    "t_maps db = map (\<lambda>k. if m_ID k = m_ID m then m else k) (t_maps db0)"
    "t_allows db = filter (\<lambda>a. a_MapID a \<noteq> m_ID m) (t_allows db0) @ allow_rows (m_ID m) 0 gids" "t_settings db = t_settings db0"
    "t_admins db = t_admins db0" "t_forwards db = t_forwards db0"
    using r unfolding map_replaced_def by (simp_all add: delete_other o rewrite_same e)
  have "graph_ok db" using inv g a_GroupID_allow_rows [of "m_ID m" 0 gids]
    unfolding ctl_inv_def graph_ok_def t by auto
  moreover have "conf_ok db" using inv unfolding ctl_inv_def conf_ok_def t by auto
  moreover have "refs_ok db"
  proof -
    have ids: "m_ID ` set (t_maps db) = m_ID ` set (t_maps db0)"
      unfolding t set_map image_image by (rule image_cong) simp_all
    have B: "a_MapID ` set (allow_rows (m_ID m) 0 gids) \<subseteq> {m_ID m}" using allow_rows_sorted(3) by auto
    have M: "{m_ID m} \<subseteq> m_ID ` set (t_maps db0)" using old(1,2) by auto
    have A: "a_MapID ` set (t_allows db0) \<subseteq> m_ID ` set (t_maps db0)" using inv by (simp add: ctl_inv_def refs_ok_def)
    have "a_MapID ` set (t_allows db) \<subseteq> a_MapID ` set (t_allows db0) \<union> a_MapID ` set (allow_rows (m_ID m) 0 gids)"
      unfolding t(5) set_append set_filter image_Un by blast
    from order_trans [OF this Un_least [OF A order_trans [OF B M]]] show ?thesis unfolding refs_ok_def ids .
  qed
  moreover have "ip_ok db"
  proof (rule ip_ok_mono)
    have "m_VirtualIP (if m_ID k = m_ID m then m else k) \<in> m_VirtualIP ` set (t_maps db0)" if "k \<in> set (t_maps db0)" for k
      by (cases "m_ID k = m_ID m") (simp_all only: simp_thms if_True if_False old(3) imageI [OF old(1)] imageI [OF that])
    then show "m_VirtualIP ` set (t_maps db) \<subseteq> m_VirtualIP ` set (t_maps db0)"
      unfolding t(4) set_map image_image by blast
  qed (use inv in \<open>simp_all only: ctl_inv_def t(2,6) order_refl\<close>)
  moreover have "link_ok db" "fwd_ok db" using inv unfolding ctl_inv_def link_ok_def fwd_ok_def t(3,8) by blast+
  ultimately show ?thesis using u unfolding ctl_inv_def by blast
qed

definition update_map_tx :: "sql \<Rightarrow> ServiceMap \<Rightarrow> nat \<Rightarrow> nat list \<Rightarrow> unit prog" where
  "update_map_tx exec entry i gids = transaction (
       andthen (attempt (exec_stmt exec (Save (RMap entry)))) (\<lambda>r.
       andthen (lift_res (unique_as ErrMapSlugConflict r)) (\<lambda>_.
       andthen (exec_stmt exec (Delete TAllow (on_allow (\<lambda>a. a_MapID a = i)))) (\<lambda>_.
       insert_allows exec i gids))))"

lemma update_map_tx_at:
  assumes ok: "sql_ok exec" and old: "old \<in> set (t_maps db0)" "m_ID m = m_ID old" "i = m_ID old"
  shows "hoare (at db0) (update_map_tx exec m i gids) (\<lambda>_ db. uniq_ok db \<and> map_replaced m gids db0 db) (at db0)"
  unfolding update_map_tx_def
proof (rule hoare_transaction)
  fix db1 assume db1: "at db0 db1"
  let ?s = "map (\<lambda>x. if table_of x = TMap \<and> key_of x = (m_ID m, 0) then RMap m else x) db0"
  let ?d = "filter (\<lambda>x. table_of x = TAllow \<longrightarrow> \<not> on_allow (\<lambda>a. a_MapID a = i) x) ?s"
  have mem: "RMap old \<in> set db0" using old(1) by (simp add: set_tables)
  have sv: "hoare (\<lambda>db. db = db1) (exec_stmt exec (Save (RMap m))) (\<lambda>_. at ?s) (\<lambda>_. True)"
  proof (rule hoare_stmt [OF ok])
    fix db db' rows assume db: "db = db1" and u: "uniq_ok db'" and sem: "sem (Save (RMap m)) db db' rows"
    from sem have "sem (Save (RMap m)) db0 db' rows" using db db1 by simp
    from saved [OF this mem] old(2) have "db' = ?s" by simp
    with u show "at ?s db'" by simp
  qed (use db1 in blast)
  have del: "hoare (at ?s) (exec_stmt exec (Delete TAllow (on_allow (\<lambda>a. a_MapID a = i)))) (\<lambda>_. at ?d) (\<lambda>_. True)"
    by (rule hoare_stmt [OF ok]) auto
  have "hoare (at ?d) (insert_allows exec i gids) (\<lambda>_ db. uniq_ok db \<and> map_replaced m gids db0 db) (\<lambda>_. True)"
    by (rule hoare_weaken [OF insert_allows_at [OF ok]]) (simp_all add: map_replaced_def old(2,3))
  note tail = hoare_andthen [OF del this]
  show "hoare (\<lambda>db. db = db1) (andthen (attempt (exec_stmt exec (Save (RMap m)))) (\<lambda>r.
       andthen (lift_res (unique_as ErrMapSlugConflict r)) (\<lambda>_.
       andthen (exec_stmt exec (Delete TAllow (on_allow (\<lambda>a. a_MapID a = i)))) (\<lambda>_.
       insert_allows exec i gids)))) (\<lambda>_ db. uniq_ok db \<and> map_replaced m gids db0 db) (\<lambda>_. True)"
  proof (rule hoare_andthen [where R = "\<lambda>r db. case r of Inl _ \<Rightarrow> True | Inr _ \<Rightarrow> at ?s db"])
    show "hoare (\<lambda>db. db = db1) (attempt (exec_stmt exec (Save (RMap m))))
      (\<lambda>r db. case r of Inl _ \<Rightarrow> True | Inr _ \<Rightarrow> at ?s db) (\<lambda>_. True)"
      by (rule hoare_attempt, rule hoare_weaken [OF sv]) simp_all
  next
    fix r :: "err + unit"
    show "hoare (\<lambda>db. case r of Inl _ \<Rightarrow> True | Inr _ \<Rightarrow> at ?s db) (andthen (lift_res (unique_as ErrMapSlugConflict r)) (\<lambda>_.
       andthen (exec_stmt exec (Delete TAllow (on_allow (\<lambda>a. a_MapID a = i)))) (\<lambda>_.
       insert_allows exec i gids))) (\<lambda>_ db. uniq_ok db \<and> map_replaced m gids db0 db) (\<lambda>_. True)"
    proof (cases r)
      case (Inl e)
      have "hoare (\<lambda>db. True) (andthen (lift_res (Inl e)) f) Q (\<lambda>_. True)" for e and f :: "unit \<Rightarrow> unit prog" and Q :: "unit \<Rightarrow> db \<Rightarrow> bool"
        by (rule hoare_lift_read) simp_all
      then show ?thesis unfolding Inl unique_as_def by simp
    next
      case (Inr x)
      show ?thesis unfolding Inr unique_as_def sum.case by (rule hoare_lift_read, rule tail) simp
    qed
  qed
qed simp

lemma slug_free_at:
  assumes ok: "sql_ok exec"
  shows "hoare (at db0) (if b then
         andthen (attempt (GetServiceMapBySlug exec slug)) (\<lambda>r. case r of
           Inr _ \<Rightarrow> fail ErrMapSlugConflict
         | Inl e \<Rightarrow> if e = ErrRecordNotFound then ret () else fail e)
       else ret ()) (\<lambda>_ db. at db0 db \<and> True) (at db0)"
  unfolding GetServiceMapBySlug_def
  by (rule hoare_if, rule hoare_read [OF attempt_at [OF first_map_at [OF ok]]])
    (auto split: sum.splits intro!: hoare_ret hoare_fail hoare_if)

lemma update_map_good:
  assumes ok: "sql_ok exec"
  shows "hoare good (andthen (groups_exist exec (mi_AllowedGroups inp)) (\<lambda>_. Store.UpdateServiceMap exec i inp)) (\<lambda>_. good) good"
proof (rule goodI)
  fix db0 assume inv: "ctl_inv db0"
  show "hoare (at db0) (andthen (groups_exist exec (mi_AllowedGroups inp)) (\<lambda>_. Store.UpdateServiceMap exec i inp)) (\<lambda>_. good) good"
    unfolding Store.UpdateServiceMap_def Let_def update_map_tx_def [symmetric]
  proof (rule read_good [OF groups_exist_at [OF ok] inv], rule read_good [OF GetServiceMap_at [OF ok] inv],
      rule read_good [where A = "\<lambda>_. True", OF hoare_weaken [OF MapSlugConflictsPeer_at [OF ok]] inv],
      assumption, blast, assumption, rule hoare_if, rule hoare_fail, use inv in blast,
      rule lift_good [OF inv], clarify, rule read_good [OF slug_free_at [OF ok] inv], rule hoare_andthen)
    fix old entry gids
    assume g: "set (mi_AllowedGroups inp) \<subseteq> g_ID ` set (t_groups db0)" and old: "old \<in> set (t_maps db0)" "i = m_ID old"
      and n: "normalizeMapInput inp = Inr (entry, gids)"
    let ?m = "entry\<lparr>m_ID := m_ID old, m_VirtualIP := m_VirtualIP old\<rparr>"
    have gids: "gids = mi_AllowedGroups inp" using normalizeMapInput_Inr [OF n] by simp
    show "hoare (at db0) (update_map_tx exec ?m (m_ID old) gids) (\<lambda>_. good) good"
    proof (rule hoare_weaken [OF update_map_tx_at [OF ok old(1)]])
      fix db assume "uniq_ok db \<and> map_replaced ?m gids db0 db"
      then show "good db" using map_replaced_good [OF inv _ _ old(1), of ?m gids db] g by (simp add: gids)
    qed (use inv in auto)
  qed (rule GetMapDetail_keeps [OF ok])
qed

lemma DeleteServiceMap_good:
  assumes ok: "sql_ok exec"
  shows "hoare good (Store.DeleteServiceMap exec i) (\<lambda>_. good) good"
proof (rule goodI)
  fix db0 assume inv: "ctl_inv db0"
  let ?a = "filter (\<lambda>x. table_of x = TAllow \<longrightarrow> \<not> on_allow (\<lambda>a. a_MapID a = i) x) db0"
  let ?db = "filter (\<lambda>x. table_of x = TMap \<longrightarrow> \<not> on_map (\<lambda>m. m_ID m = i) x) ?a"
  have t: "t_maps ?db = filter (\<lambda>m. m_ID m \<noteq> i) (t_maps db0)" "t_allows ?db = filter (\<lambda>a. a_MapID a \<noteq> i) (t_allows db0)"
    "t_groups ?db = t_groups db0" "t_peers ?db = t_peers db0" "t_links ?db = t_links db0"
    "t_settings ?db = t_settings db0" "t_admins ?db = t_admins db0" "t_forwards ?db = t_forwards db0"
    by (simp_all add: delete_other del: filter_filter)
  have "refs_ok ?db" using inv unfolding ctl_inv_def refs_ok_def t by auto
  moreover have "graph_ok ?db" using inv unfolding ctl_inv_def graph_ok_def t by auto
  moreover have "ip_ok ?db"
  proof (rule ip_ok_mono)
    show "m_VirtualIP ` set (t_maps ?db) \<subseteq> m_VirtualIP ` set (t_maps db0)" unfolding t(1) by auto
  qed (use inv in \<open>simp_all only: ctl_inv_def t(4,6) order_refl\<close>)
  moreover have "link_ok ?db" "fwd_ok ?db" using inv unfolding ctl_inv_def link_ok_def fwd_ok_def t(5,8) by blast+
  moreover have "conf_ok ?db" using inv unfolding ctl_inv_def conf_ok_def t by auto
  ultimately have "ctl_inv ?db" unfolding ctl_inv_def by blast
  then show "hoare (at db0) (Store.DeleteServiceMap exec i) (\<lambda>_. good) good"
    unfolding Store.DeleteServiceMap_def
  proof (rule_tac hoare_transaction)
    fix db1 assume db1: "at db0 db1"
    show "hoare (\<lambda>db. db = db1) (andthen (exec_stmt exec (Delete TAllow (on_allow (\<lambda>a. a_MapID a = i)))) (\<lambda>_.
       exec_stmt exec (Delete TMap (on_map (\<lambda>m. m_ID m = i))))) (\<lambda>_. good) (\<lambda>_. True)"
    proof (rule hoare_andthen [where R = "\<lambda>_. at ?a"])
      show "hoare (\<lambda>db. db = db1) (exec_stmt exec (Delete TAllow (on_allow (\<lambda>a. a_MapID a = i)))) (\<lambda>_. at ?a) (\<lambda>_. True)"
        by (rule hoare_weaken [OF delete_at [OF ok, of db0]]) (use db1 in auto)
      show "hoare (at ?a) (exec_stmt exec (Delete TMap (on_map (\<lambda>m. m_ID m = i)))) (\<lambda>_. good) (\<lambda>_. True)"
        by (rule hoare_weaken [OF delete_at [OF ok, of ?a]]) (use \<open>ctl_inv ?db\<close> in \<open>auto simp del: filter_filter\<close>)
    qed
  qed (use inv in blast)
qed

section \<open>Forwards\<close>

lemma fwd_only_good:
  assumes "ctl_inv db0" "fwd_ok db" "t_groups db = t_groups db0" "t_peers db = t_peers db0" "t_links db = t_links db0"
    "t_maps db = t_maps db0" "t_allows db = t_allows db0" "t_settings db = t_settings db0" "t_admins db = t_admins db0"
  shows "ctl_inv db"
  using assms(1,2) unfolding ctl_inv_def link_ok_def ip_ok_def refs_ok_def graph_ok_def conf_ok_def assms(3-)
  by (elim conjE) (intro conjI; assumption)

lemma CreatePortForward_good:
  assumes ok: "sql_ok exec"
  shows "hoare good (Store.CreatePortForward exec HubTunnelWebPort inp) (\<lambda>_. good) good"
proof (rule goodI)
  fix db0 assume inv: "ctl_inv db0"
  have f: "fwd_ok db0" using inv by (simp add: ctl_inv_def)
  show "hoare (at db0) (Store.CreatePortForward exec HubTunnelWebPort inp) (\<lambda>_. good) good"
  proof (rule hoare_weaken [OF CreatePortForward_triple [OF ok f]])
    fix x db assume a: "uniq_ok db \<and> fwd_ok db \<and> f_ListenPort x = pi_ListenPort inp \<and> db = db0 @ [RForward x]"
    from a have db: "db = db0 @ [RForward x]" by blast
    have "ctl_inv db" by (rule fwd_only_good [OF inv conjunct1 [OF conjunct2 [OF a]]]) (simp_all add: db tables_Cons)
    with a show "good db" by blast
  qed (use inv in auto)
qed

lemma UpdatePortForward_good:
  assumes ok: "sql_ok exec"
  shows "hoare good (Store.UpdatePortForward exec i HubTunnelWebPort inp) (\<lambda>_. good) good"
proof (rule goodI)
  fix db0 assume inv: "ctl_inv db0"
  have f: "fwd_ok db0" using inv by (simp add: ctl_inv_def)
  show "hoare (at db0) (Store.UpdatePortForward exec i HubTunnelWebPort inp) (\<lambda>_. good) good"
  proof (rule hoare_weaken [OF UpdatePortForward_triple [OF ok f]])
    fix u db assume a: "uniq_ok db \<and> fwd_ok db \<and> f_ID u = i \<and> f_ListenPort u = pi_ListenPort inp \<and> forward_saved u db0 db"
    then have db: "db = map (\<lambda>x. if table_of x = TForward \<and> key_of x = (f_ID u, 0) then RForward u else x) db0"
      by (simp add: forward_saved_def)
    have "ctl_inv db" by (rule fwd_only_good [OF inv conjunct1 [OF conjunct2 [OF a]]])
      (simp_all only: db rewrite_other [where t = TForward and f = "\<lambda>_. RForward u", simplified])
    with a show "good db" by blast
  qed (use inv in auto)
qed

lemma DeletePortForward_good:
  assumes ok: "sql_ok exec"
  shows "hoare good (Store.DeletePortForward exec i) (\<lambda>_. good) good"
proof (rule goodI)
  fix db0 assume inv: "ctl_inv db0"
  let ?db = "filter (\<lambda>x. table_of x = TForward \<longrightarrow> \<not> on_forward (\<lambda>f. f_ID f = i) x) db0"
  have t: "t_forwards ?db = filter (\<lambda>f. f_ID f \<noteq> i) (t_forwards db0)" by simp
  have "fwd_ok ?db" using inv distinct_map_filter unfolding ctl_inv_def fwd_ok_def t by (auto simp: list_all_iff)
  then have "ctl_inv ?db" by (rule fwd_only_good [OF inv]) (simp_all add: delete_other)
  then show "hoare (at db0) (Store.DeletePortForward exec i) (\<lambda>_. good) good"
    unfolding Store.DeletePortForward_def by (rule_tac hoare_weaken [OF delete_at [OF ok]]) (use inv in auto)
qed

section \<open>Settings and accounts\<close>

lemma save_settings_good:
  assumes ok: "sql_ok exec" and inv: "ctl_inv db0" and old: "old \<in> set (t_settings db0)"
    and same: "se_ID s = se_ID old" "se_HubIP s = se_HubIP old" "se_DNSIP s = se_DNSIP old"
  shows "hoare (at db0) (exec_stmt exec (Save (RSettings s))) (\<lambda>_. good) good"
proof (rule hoare_weaken [OF stmt_good [OF ok inv, where Q = "\<lambda>_ _. True"]])
  fix db' rows assume sem: "sem (Save (RSettings s)) db0 db' rows"
  have mem: "RSettings old \<in> set db0" using old by (simp add: set_tables)
  have db': "db' = map (\<lambda>x. if table_of x = TSettings \<and> key_of x = (se_ID s, 0) then RSettings s else x) db0"
    using saved [OF sem mem] same(1) by simp
  have one: "t_settings db0 = [old]"
    using inv old by (cases "t_settings db0") (auto simp: ctl_inv_def conf_ok_def)
  have st: "t_settings db' = [s]"
    unfolding db' rewrite_same one by (simp add: same(1))
  have t: "t_groups db' = t_groups db0" "t_links db' = t_links db0" "t_maps db' = t_maps db0"
      "t_allows db' = t_allows db0" "t_peers db' = t_peers db0" "t_admins db' = t_admins db0" "t_forwards db' = t_forwards db0"
    by (simp_all only: db' rewrite_other [where t = TSettings and f = "\<lambda>_. RSettings s", simplified])
  have "ip_ok db'" using inv unfolding ctl_inv_def ip_ok_def t st one by (simp add: same)
  moreover have "conf_ok db'" using inv unfolding ctl_inv_def conf_ok_def t st one by (simp add: same)
  ultimately show "ctl_inv db' \<and> True" using inv unfolding ctl_inv_def link_ok_def refs_ok_def fwd_ok_def graph_ok_def t by simp
qed auto

lemma UpdateMutableSettings_good:
  assumes ok: "sql_ok exec"
  shows "hoare good (UpdateMutableSettings exec mtu iv ups) (\<lambda>_. good) good"
proof (rule goodI)
  fix db0 assume inv: "ctl_inv db0"
  show "hoare (at db0) (UpdateMutableSettings exec mtu iv ups) (\<lambda>_. good) good"
    unfolding UpdateMutableSettings_def Let_def
    by (rule read_good [OF first_settings_at [OF ok] inv], rule lift_good [OF inv], rule save_settings_good [OF ok inv]) simp_all
qed

lemma UpdateAdminPassword_good:
  assumes ok: "sql_ok exec"
  shows "hoare good (UpdateAdminPassword exec bcrypt i pw) (\<lambda>_. good) good"
proof (rule goodI)
  fix db0 assume inv: "ctl_inv db0"
  show "hoare (at db0) (UpdateAdminPassword exec bcrypt i pw) (\<lambda>_. good) good"
    unfolding UpdateAdminPassword_def
  proof (rule lift_good [OF inv])
    fix h
    let ?f = "\<lambda>r. case r of RAdmin a \<Rightarrow> RAdmin (a\<lparr>ad_PasswordHash := h, ad_TokenVersion := ad_TokenVersion a + 1\<rparr>) | x \<Rightarrow> x"
    let ?db = "map (\<lambda>x. if table_of x = TAdmin \<and> on_admin (\<lambda>a. ad_ID a = i) x then ?f x else x) db0"
    have f: "table_of x = TAdmin \<Longrightarrow> on_admin (\<lambda>a. ad_ID a = i) x \<Longrightarrow> table_of (?f x) = TAdmin" for x by (cases x) auto
    note o = rewrite_other [where t = TAdmin and W = "on_admin (\<lambda>a. ad_ID a = i)" and f = ?f, OF f, simplified]
    have "(t_admins (map (\<lambda>x. if table_of x = TAdmin \<and> on_admin (\<lambda>a. ad_ID a = i) x then ?f x else x) d) = []) = (t_admins d = [])" for d
      by (induction d) (auto simp: tables_Cons split: row.splits)
    then have a: "(t_admins ?db = []) = (t_admins db0 = [])" .
    have "conf_ok ?db" using inv unfolding ctl_inv_def conf_ok_def a o by simp
    then have "ctl_inv ?db" using inv unfolding ctl_inv_def link_ok_def ip_ok_def refs_ok_def fwd_ok_def graph_ok_def o by simp
    then show "hoare (at db0) (exec_stmt exec (Update TAdmin (on_admin (\<lambda>a. ad_ID a = i)) ?f)) (\<lambda>_. good) good"
      by (rule_tac hoare_weaken [OF stmt_good [OF ok inv, where Q = "\<lambda>_ _. True"]]) auto
  qed
qed

lemma ChangeAdminPassword_good:
  assumes ok: "sql_ok exec"
  shows "hoare good (ChangeAdminPassword exec bcrypt verify u cur new) (\<lambda>_. good) good"
proof (rule goodI)
  fix db0 assume inv: "ctl_inv db0"
  show "hoare (at db0) (ChangeAdminPassword exec bcrypt verify u cur new) (\<lambda>_. good) good"
    unfolding ChangeAdminPassword_def GetAdminByUsername_def
    by (rule read_good [OF first_typed_at(1) [OF ok] inv], rule hoare_if, rule hoare_fail, use inv in blast,
        rule hoare_weaken [OF UpdateAdminPassword_good [OF ok]]) (use inv in auto)
qed

section \<open>Setup and reset\<close>

lemma v4_string_nonempty: "v4_string a b c d \<noteq> []"
  by (simp add: v4_string_def)

lemma FirstHostIP_nonempty:
  assumes "FirstHostIP subnet = Inr ip"
  shows "ip \<noteq> []"
proof -
  from assms obtain ip16 ip4 where q: "to4 ip16 = Some ip4" "ip = ip_string ((inc_host ^^ 1) ip4)"
    by (auto simp: FirstHostIP_def NthHostIP_def Let_def split: if_splits option.splits)
  then have "length ip4 = 4" by (auto simp: to4_def split: if_splits)
  from inc_host_pow [OF this, of 1] have "length ((inc_host ^^ 1) ip4) = 4" by blast
  with q(2) obtain h where h: "length h = 4" "ip = ip_string h" by blast
  then have "to4 h = Some h" by (simp add: to4_def)
  from ip_string_v4 [OF this] h(2) show ?thesis using v4_string_nonempty by metis
qed

lemma setup_rows_hub: "setup_rows bcrypt inp = Inr (adm, se) \<Longrightarrow> se_HubIP se \<noteq> [] \<and> se_DNSIP se \<noteq> []"
  by (auto simp: setup_rows_def res_bind_eq_Inr Let_def dest: FirstHostIP_nonempty split: if_splits sum.splits)

lemma Setup_good:
  assumes ok: "sql_ok exec"
  shows "hoare good (Store.Setup exec bcrypt inp) (\<lambda>_. good) good"
proof (rule goodI)
  fix db0 assume inv: "ctl_inv db0"
  show "hoare (at db0) (Store.Setup exec bcrypt inp) (\<lambda>_. good) good"
  proof (rule hoare_weaken [OF Setup_triple [OF ok]])
    fix db assume a: "uniq_ok db \<and> (t_admins db0 = [] \<or> t_settings db0 = []) \<and>
       (\<exists>adm se. setup_rows bcrypt inp = Inr (adm, se) \<and> setup_done db0 adm se db)"
    then obtain adm se where rows: "setup_rows bcrypt inp = Inr (adm, se)" and s: "setup_done db0 adm se db" by blast
    from s obtain i j k where db: "db = db0 @ [RAdmin (adm\<lparr>ad_ID := i\<rparr>), RSettings (se\<lparr>se_ID := j\<rparr>),
        RGroup \<lparr>g_ID = k, g_Name = ''default'', g_PosX = 0, g_PosY = 0, g_AllowIntraGroup = True\<rparr>]"
      unfolding setup_done_def by blast
    have e: "t_admins db0 = []" "t_settings db0 = []" "t_peers db0 = []" "t_maps db0 = []"
      using inv a by (auto simp: ctl_inv_def conf_ok_def)
    have t: "t_admins db = [adm\<lparr>ad_ID := i\<rparr>]" "t_settings db = [se\<lparr>se_ID := j\<rparr>]" "t_peers db = []" "t_maps db = []"
      "t_groups db = t_groups db0 @ [\<lparr>g_ID = k, g_Name = ''default'', g_PosX = 0, g_PosY = 0, g_AllowIntraGroup = True\<rparr>]"
      "t_links db = t_links db0" "t_allows db = t_allows db0" "t_forwards db = t_forwards db0"
      unfolding db by (simp_all add: tables_Cons e)
    have "graph_ok db" using inv e unfolding ctl_inv_def graph_ok_def t by auto
    moreover have "conf_ok db" using setup_rows_hub [OF rows] unfolding conf_ok_def t by simp
    moreover have "ip_ok db" unfolding ip_ok_def t by simp
    moreover have "refs_ok db" using inv e unfolding ctl_inv_def refs_ok_def t by simp
    moreover have "link_ok db" "fwd_ok db" using inv unfolding ctl_inv_def link_ok_def fwd_ok_def t by blast+
    ultimately show "good db" using a unfolding ctl_inv_def by blast
  qed (use inv in auto)
qed

lemma empty_good: "good []"
  by (simp add: uniq_ok_def inv_defs)

lemma ResetAll_good:
  assumes ok: "sql_ok exec"
  shows "hoare good (ResetAll exec) (\<lambda>_. good) good"
proof (rule goodI)
  fix db0 assume inv: "ctl_inv db0"
  show "hoare (at db0) (ResetAll exec) (\<lambda>_. good) good"
    by (rule hoare_weaken [OF ResetAll_triple [OF ok]]) (use inv empty_good in auto)
qed

section \<open>Histories\<close>

text \<open>
  One request's effect on the database, whether the request succeeds or fails.  Every handler of the
  control plane that writes the database runs one of these programs under \<^verbatim>\<open>controlMu\<close>; a database
  that was imported is another starting point.
\<close>

inductive ctl_step :: "sql \<Rightarrow> db \<Rightarrow> db \<Rightarrow> bool" for exec where
  "create_peer_db exec keys now cp (n, db) = (r1, (n', db')) \<Longrightarrow> ctl_step exec db db'"
| "update_peer_db exec i up (n, db) = (r2, (n', db')) \<Longrightarrow> ctl_step exec db db'"
| "delete_peer_db exec i (n, db) = (r3, (n', db')) \<Longrightarrow> ctl_step exec db db'"
| "toggle_peer_db exec i (n, db) = (r4, (n', db')) \<Longrightarrow> ctl_step exec db db'"
| "for_each peers (stats_update exec stats) (n, db) = (r5, (n', db')) \<Longrightarrow> ctl_step exec db db'"
| "Store.CreateGroup exec name x y (n, db) = (r6, (n', db')) \<Longrightarrow> ctl_step exec db db'"
| "update_group_db exec i ug (n, db) = (r6, (n', db')) \<Longrightarrow> ctl_step exec db db'"
| "Store.DeleteGroup exec i (n, db) = (r5, (n', db')) \<Longrightarrow> ctl_step exec db db'"
| "UpdateGroupLayout exec items (n, db) = (r5, (n', db')) \<Longrightarrow> ctl_step exec db db'"
| "create_link_db exec li (n, db) = (r5, (n', db')) \<Longrightarrow> ctl_step exec db db'"
| "Store.DeleteGroupLink exec a b (n, db) = (r5, (n', db')) \<Longrightarrow> ctl_step exec db db'"
| "andthen (groups_exist exec (mi_AllowedGroups mi)) (\<lambda>_. Store.CreateServiceMap exec mi) (n, db) = (r7, (n', db')) \<Longrightarrow>
     ctl_step exec db db'"
| "andthen (groups_exist exec (mi_AllowedGroups mi)) (\<lambda>_. Store.UpdateServiceMap exec i mi) (n, db) = (r7, (n', db')) \<Longrightarrow>
     ctl_step exec db db'"
| "Store.DeleteServiceMap exec i (n, db) = (r5, (n', db')) \<Longrightarrow> ctl_step exec db db'"
| "Store.CreatePortForward exec HubTunnelWebPort pf (n, db) = (r8, (n', db')) \<Longrightarrow> ctl_step exec db db'"
| "Store.UpdatePortForward exec i HubTunnelWebPort pf (n, db) = (r8, (n', db')) \<Longrightarrow> ctl_step exec db db'"
| "Store.DeletePortForward exec i (n, db) = (r5, (n', db')) \<Longrightarrow> ctl_step exec db db'"
| "UpdateMutableSettings exec mtu interval ups (n, db) = (r5, (n', db')) \<Longrightarrow> ctl_step exec db db'"
| "ChangeAdminPassword exec bcrypt verify user cur new (n, db) = (r5, (n', db')) \<Longrightarrow> ctl_step exec db db'"
| "Store.Setup exec bcrypt si (n, db) = (r5, (n', db')) \<Longrightarrow> ctl_step exec db db'"
| "ResetAll exec (n, db) = (r5, (n', db')) \<Longrightarrow> ctl_step exec db db'"

inductive reachable :: "sql \<Rightarrow> db \<Rightarrow> db \<Rightarrow> bool" for exec db0 where
  start: "reachable exec db0 db0"
| request: "reachable exec db0 db \<Longrightarrow> ctl_step exec db db' \<Longrightarrow> reachable exec db0 db'"

lemma good_outcome: "hoare good m (\<lambda>_. good) good \<Longrightarrow> m (n, db) = (r, (n', db')) \<Longrightarrow> good db \<Longrightarrow> good db'"
  by (cases r) (auto dest: hoareD)

lemma ctl_step_good:
  assumes ok: "sql_ok exec"
  shows "ctl_step exec db db' \<Longrightarrow> good db \<Longrightarrow> good db'"
proof (induction rule: ctl_step.induct)
  case 1 then show ?case by (rule good_outcome [OF create_peer_db_good [OF ok]]) next
  case 2 then show ?case by (rule good_outcome [OF update_peer_db_good [OF ok]]) next
  case 3 then show ?case by (rule good_outcome [OF delete_peer_db_good [OF ok]]) next
  case 4 then show ?case by (rule good_outcome [OF toggle_peer_db_good [OF ok]]) next
  case 5 then show ?case by (rule good_outcome [OF stats_update_good [OF ok]]) next
  case 6 then show ?case by (rule good_outcome [OF CreateGroup_good [OF ok]]) next
  case 7 then show ?case by (rule good_outcome [OF update_group_db_good [OF ok]]) next
  case 8 then show ?case by (rule good_outcome [OF DeleteGroup_good [OF ok]]) next
  case 9 then show ?case by (rule good_outcome [OF layout_good [OF ok]]) next
  case 10 then show ?case by (rule good_outcome [OF create_link_db_good [OF ok]]) next
  case 11 then show ?case by (rule good_outcome [OF DeleteGroupLink_good [OF ok]]) next
  case 12 then show ?case by (rule good_outcome [OF create_map_good [OF ok]]) next
  case 13 then show ?case by (rule good_outcome [OF update_map_good [OF ok]]) next
  case 14 then show ?case by (rule good_outcome [OF DeleteServiceMap_good [OF ok]]) next
  case 15 then show ?case by (rule good_outcome [OF CreatePortForward_good [OF ok]]) next
  case 16 then show ?case by (rule good_outcome [OF UpdatePortForward_good [OF ok]]) next
  case 17 then show ?case by (rule good_outcome [OF DeletePortForward_good [OF ok]]) next
  case 18 then show ?case by (rule good_outcome [OF UpdateMutableSettings_good [OF ok]]) next
  case 19 then show ?case by (rule good_outcome [OF ChangeAdminPassword_good [OF ok]]) next
  case 20 then show ?case by (rule good_outcome [OF Setup_good [OF ok]]) next
  case 21 then show ?case by (rule good_outcome [OF ResetAll_good [OF ok]])
qed


section \<open>Sessions\<close>

definition password_set :: "Admin \<Rightarrow> string \<Rightarrow> db \<Rightarrow> db \<Rightarrow> bool" where
  "password_set adm hash db db' = (t_admins db' = map (\<lambda>a. if ad_ID a = ad_ID adm
     then a\<lparr>ad_PasswordHash := hash, ad_TokenVersion := ad_TokenVersion a + 1\<rparr> else a) (t_admins db))"

lemma ChangeAdminPassword_triple:
  assumes ok: "sql_ok exec"
  shows "hoare (at db0) (ChangeAdminPassword exec bcrypt verify user cur new)
    (\<lambda>_ db. uniq_ok db \<and> (\<exists>adm hash. adm \<in> set (t_admins db0) \<and> ad_Username adm = user \<and> verify (ad_PasswordHash adm) cur \<and>
       minPasswordLen \<le> length new \<and> bcrypt new = Inr hash \<and> password_set adm hash db0 db)) (at db0)"
    (is "hoare _ _ ?Q _")
  unfolding ChangeAdminPassword_def GetAdminByUsername_def UpdateAdminPassword_def
proof (rule hoare_read [OF first_typed_at(1) [OF ok]], rule hoare_if, rule hoare_fail, assumption, rule hoare_lift_read)
  fix adm hash assume a: "adm \<in> set (t_admins db0) \<and> ad_Username adm = user" and v: "\<not> \<not> verify (ad_PasswordHash adm) cur"
    and h: "HashPassword bcrypt new = Inr hash"
  let ?f = "\<lambda>r. case r of RAdmin a \<Rightarrow> RAdmin (a\<lparr>ad_PasswordHash := hash, ad_TokenVersion := ad_TokenVersion a + 1\<rparr>) | x \<Rightarrow> x"
  have "password_set adm hash d (map (\<lambda>x. if table_of x = TAdmin \<and> on_admin (\<lambda>a. ad_ID a = ad_ID adm) x then ?f x else x) d)" for d
    by (induction d) (auto simp: password_set_def tables_Cons split: row.splits)
  moreover have "minPasswordLen \<le> length new \<and> bcrypt new = Inr hash"
    using h by (auto simp: HashPassword_def ValidatePassword_def split: if_splits)
  ultimately show "hoare (at db0) (exec_stmt exec (Update TAdmin (on_admin (\<lambda>a. ad_ID a = ad_ID adm)) ?f)) ?Q (at db0)"
    using a v by (intro hoare_stmt [OF ok]) auto
qed auto

lemma ValidateAdminSession_at:
  assumes ok: "sql_ok exec"
  shows "hoare (at db0) (ValidateAdminSession exec i v) (\<lambda>s db. at db0 db \<and> (\<exists>a \<in> set (t_admins db0). ad_ID a = i \<and>
     ad_TokenVersion a = v \<and> s = adminSessionFromRepo a)) (at db0)"
  unfolding ValidateAdminSession_def GetAdminByID_def
  by (rule hoare_read [OF first_typed_at(1) [OF ok]]) (auto intro!: hoare_ret hoare_fail)

lemma hoare_not_ok:
  assumes "hoare (at db) m (\<lambda>_ _. False) E" "uniq_ok db"
  shows "\<not> is_ok (fst (m (k, db)))"
  using hoareD(1) [OF assms(1), of db k] assms(2) by (cases "m (k, db)"; cases "fst (m (k, db))") auto

text \<open>
  C22: changing the password needs the current one and a new one of at least eight characters, writes
  only this account, and ends the sessions opened before: a token that carries the version the account
  had is refused.
\<close>

theorem password_change_revokes:
  assumes "sql_ok exec" "uniq_ok db" "ChangeAdminPassword exec bcrypt verify user cur new (n, db) = (Inr (), (n1, db1))"
  shows "\<exists>adm hash. adm \<in> set (t_admins db) \<and> ad_Username adm = user \<and> verify (ad_PasswordHash adm) cur \<and>
    8 \<le> length new \<and> bcrypt new = Inr hash \<and> password_set adm hash db db1 \<and>
    \<not> is_ok (fst (ValidateAdminSession exec (ad_ID adm) (ad_TokenVersion adm) (k, db1)))"
proof -
  from hoare_outcome [OF ChangeAdminPassword_triple [OF assms(1)] assms(2,3)]
  obtain adm hash where u: "uniq_ok db1" and a: "adm \<in> set (t_admins db)" "ad_Username adm = user"
    "verify (ad_PasswordHash adm) cur" "minPasswordLen \<le> length new" "bcrypt new = Inr hash" and p: "password_set adm hash db db1"
    by auto
  have "ad_TokenVersion b \<noteq> ad_TokenVersion adm" if b: "b \<in> set (t_admins db1)" "ad_ID b = ad_ID adm" for b
  proof -
    from b p obtain c where c: "c \<in> set (t_admins db)" "ad_ID c = ad_ID adm" "ad_TokenVersion b = ad_TokenVersion c + 1"
      unfolding password_set_def by (auto split: if_splits)
    have "c = adm" using uniq_keys(1) [OF assms(2)] c(1,2) a(1) by (auto simp only: distinct_map inj_on_def)
    with c(3) show ?thesis by simp
  qed
  then have "hoare (at db1) (ValidateAdminSession exec (ad_ID adm) (ad_TokenVersion adm)) (\<lambda>_ _. False) (at db1)"
    by (intro hoare_weaken [OF ValidateAdminSession_at [OF assms(1)]]) auto
  from hoare_not_ok [OF this u] a p show ?thesis by (auto simp: minPasswordLen_def)
qed

definition ex_admin :: Admin where
  "ex_admin = \<lparr>ad_ID = 1, ad_Username = ''admin'', ad_PasswordHash = ''hunter22'', ad_TokenVersion = 3\<rparr>"

lemma ex_change:
  "ChangeAdminPassword list_sql Inr (=) ''admin'' ''hunter22'' ''hunter333'' (0, [RAdmin ex_admin]) =
     (Inr (), (2, [RAdmin (ex_admin\<lparr>ad_PasswordHash := ''hunter333'', ad_TokenVersion := 4\<rparr>)]))"
  by (simp add: ChangeAdminPassword_def GetAdminByUsername_def UpdateAdminPassword_def HashPassword_def ValidatePassword_def
      minPasswordLen_def first_admin_def first_row_def first_by_key_def exec_stmt_def db_eval ex_admin_def uniq_ok_def tables_Cons)

theorem password_change_revokes_witness:
  "\<exists>adm hash. adm \<in> set (t_admins [RAdmin ex_admin]) \<and> ad_Username adm = ''admin'' \<and> ad_PasswordHash adm = ''hunter22'' \<and>
    8 \<le> length ''hunter333'' \<and> Inr ''hunter333'' = (Inr hash :: err + string) \<and>
    password_set adm hash [RAdmin ex_admin] [RAdmin (ex_admin\<lparr>ad_PasswordHash := ''hunter333'', ad_TokenVersion := 4\<rparr>)] \<and>
    \<not> is_ok (fst (ValidateAdminSession list_sql (ad_ID adm) (ad_TokenVersion adm)
       (0, [RAdmin (ex_admin\<lparr>ad_PasswordHash := ''hunter333'', ad_TokenVersion := 4\<rparr>)])))"
proof -
  have "uniq_ok [RAdmin ex_admin]" by (simp add: uniq_ok_def tables_Cons)
  from password_change_revokes [OF list_sql_ok this ex_change, of 0] show ?thesis .
qed


end
