(* ===== verification/Net.thy ===== *)
theory Net
  imports Act Netip
begin

text \<open>
  The calls the data plane makes into code that is not part of the repository: the WireGuard device
  and the user-space network stack.  A call fails or succeeds; which one is the argument \<open>net\<close>, a
  function of the calls made so far, so that a call may succeed at one moment and fail at another.
  The log of calls is part of the state, and theorems about what was configured speak about it.
\<close>

datatype netcall =
    CreateNetTUN "addr list" addr int
  | IpcSet string
  | DeviceUp
  | DeviceDown
  | DeviceClose
  | StackFromNet
  | SetForwarding nat
  | AddProtocolAddress addr
  | ListenTCP addr int
  | ListenUDP addr int
  | CloseTCP addr int
  | CloseUDP addr int

type_synonym calls = "(netcall \<times> err option) list"
type_synonym net = "calls \<Rightarrow> netcall \<Rightarrow> err option"

definition call :: "net \<Rightarrow> netcall \<Rightarrow> (calls, unit) act" where
  "call net c = (\<lambda>log. case net log c of
       None \<Rightarrow> (Inr (), log @ [(c, None)])
     | Some e \<Rightarrow> (Inl e, log @ [(c, Some e)]))"

text \<open>A call whose error is dropped.\<close>

definition call_ignored :: "net \<Rightarrow> netcall \<Rightarrow> calls \<Rightarrow> calls" where
  "call_ignored net c log = log @ [(c, net log c)]"

text \<open>The calls that succeeded, in order.\<close>

definition done_calls :: "calls \<Rightarrow> netcall list" where
  "done_calls log = map fst (filter (\<lambda>(c, r). r = None) log)"

lemma done_calls_append [simp]: "done_calls (l @ m) = done_calls l @ done_calls m"
  by (simp add: done_calls_def)

lemma done_calls_simps [simp]:
  "done_calls [] = []" "done_calls ((c, None) # l) = c # done_calls l" "done_calls ((c, Some e) # l) = done_calls l"
  by (simp_all add: done_calls_def)

text \<open>What a program does to the log: it only grows.\<close>

definition appends :: "(calls, 'a) act \<Rightarrow> bool" where
  "appends m \<longleftrightarrow> (\<forall>log r log'. m log = (r, log') \<longrightarrow> (\<exists>more. log' = log @ more))"

lemma appendsI: "(\<And>log r log'. m log = (r, log') \<Longrightarrow> \<exists>more. log' = log @ more) \<Longrightarrow> appends m"
  by (simp add: appends_def)

lemma appends_call [simp, intro]: "appends (call net c)"
  by (rule appendsI) (auto simp: call_def split: option.splits)

lemma appends_ret [simp, intro]: "appends (ret x)" "appends (fail e)" "appends (lift_res r)"
  by (auto simp: appends_def ret_def fail_def lift_res_def)

lemma appends_andthen [intro]: "appends m \<Longrightarrow> (\<And>x. appends (f x)) \<Longrightarrow> appends (andthen m f)"
  by (rule appendsI, erule andthen_cases) (fastforce simp: appends_def)+

lemma appends_for_each [intro]: "(\<And>x. x \<in> set xs \<Longrightarrow> appends (f x)) \<Longrightarrow> appends (for_each xs f)"
  by (induction xs) auto

text \<open>Running a program on the log inside a larger state.\<close>

definition on_log :: "('s \<Rightarrow> calls) \<Rightarrow> (calls \<Rightarrow> 's \<Rightarrow> 's) \<Rightarrow> (calls, 'a) act \<Rightarrow> ('s, 'a) act" where
  "on_log get put m = (\<lambda>s. case m (get s) of (r, log) \<Rightarrow> (r, put log s))"

end
