(* ===== verification/Ingress.thy ===== *)
theory Ingress
  imports Net Domain_Rules Sync_Bundle
begin

text \<open>
  Package \<^verbatim>\<open>vpn/ingress\<close>, admin forwards: the hub ports reserved from SNAT (\<^verbatim>\<open>hub_ports.go\<close>), how a
  target is dialled without looping back through the VPN (\<^verbatim>\<open>forward_dial.go\<close>), and the proxy that
  owns the listeners of the forward rules (\<^verbatim>\<open>forward.go\<close>).  Here a proxy is the
  listeners it has open; what goes on behind them is in theories \<open>Relay\<close> and \<open>Forward_Sessions\<close>.
\<close>

section \<open>Rules and reserved ports\<close>

record IngressForward =
  if_ID :: nat
  if_ListenPort :: int
  if_Protocol :: string
  if_TargetHost :: string
  if_TargetPort :: int

definition forwardListenPorts :: "IngressForward list \<Rightarrow> int list" where
  "forwardListenPorts rules = map if_ListenPort rules"

definition add_port :: "int \<Rightarrow> int goset \<Rightarrow> int goset" where
  "add_port p seen = (if p \<ge> 1 \<and> p \<le> 65535 then List.insert p seen else seen)"

definition ReservedHubPorts :: "int \<Rightarrow> IngressForward list \<Rightarrow> int list" where
  "ReservedHubPorts tunnelWebTCPPort forwards =
     sort (fold add_port (forwardListenPorts forwards) (add_port tunnelWebTCPPort (add_port HubDNSPort [])))"

section \<open>Dialling (\<^verbatim>\<open>forward_dial.go\<close>)\<close>

definition parseVPNSubnet :: "string \<Rightarrow> err + ipnet" where
  "parseVPNSubnet subnet = (case ParseCIDR subnet of None \<Rightarrow> Inl (Errorf ''parse vpn subnet'') | Some (_, ipNet) \<Rightarrow> Inr ipNet)"

definition addrInSubnet :: "ipnet option \<Rightarrow> addr \<Rightarrow> bool" where
  "addrInSubnet subnet a = (case subnet of None \<Rightarrow> False
     | Some n \<Rightarrow> let ip = as_slice a in if ip = [] then False else net_contains n ip)"

text \<open>
  The host's network as the code asks for it: the local address of a probing UDP socket (\<open>None\<close> when
  the dial fails or has no address) and the interfaces with their addresses.
\<close>

record HostIface =
  hi_Name :: string
  hi_Up :: bool
  hi_Loopback :: bool
  hi_Addrs :: "netip list option"

record HostNet =
  hn_Probe :: "netip option"
  hn_Ifaces :: "HostIface list option"

definition is_loopback4 :: "netip \<Rightarrow> bool" where
  "is_loopback4 ip = (case ip of a # _ \<Rightarrow> a = 127 | [] \<Rightarrow> False)"

definition addr_of4 :: "netip \<Rightarrow> addr" where
  "addr_of4 ip = (case addr_from_slice ip of Some a \<Rightarrow> a | None \<Rightarrow> NoAddr)"

definition probeOutboundIPv4 :: "HostNet \<Rightarrow> ipnet option \<Rightarrow> netip option" where
  "probeOutboundIPv4 host vpnSubnet = (case hn_Probe host of None \<Rightarrow> None
     | Some local \<Rightarrow> (case to4 local of None \<Rightarrow> None
        | Some ip \<Rightarrow> if is_loopback4 ip \<or> addrInSubnet vpnSubnet (addr_of4 ip) then None else Some ip))"

fun first_outside :: "ipnet option \<Rightarrow> netip list \<Rightarrow> netip option" where
  "first_outside vpnSubnet [] = None"
| "first_outside vpnSubnet (a # as) = (case to4 a of None \<Rightarrow> first_outside vpnSubnet as
     | Some ip \<Rightarrow> (case addr_from_slice ip of None \<Rightarrow> first_outside vpnSubnet as
        | Some ad \<Rightarrow> if addrInSubnet vpnSubnet ad then first_outside vpnSubnet as else Some ip))"

fun first_iface :: "ipnet option \<Rightarrow> HostIface list \<Rightarrow> netip option" where
  "first_iface vpnSubnet [] = None"
| "first_iface vpnSubnet (i # is) =
     (if \<not> hi_Up i \<or> hi_Loopback i \<or> has_prefix (hi_Name i) ''utun'' then first_iface vpnSubnet is
      else case hi_Addrs i of None \<Rightarrow> first_iface vpnSubnet is
        | Some as \<Rightarrow> (case first_outside vpnSubnet as of Some ip \<Rightarrow> Some ip | None \<Rightarrow> first_iface vpnSubnet is))"

definition firstNonVPNIPv4 :: "HostNet \<Rightarrow> ipnet option \<Rightarrow> netip option" where
  "firstNonVPNIPv4 host vpnSubnet = (case hn_Ifaces host of None \<Rightarrow> None | Some is \<Rightarrow> first_iface vpnSubnet is)"

definition chooseOutboundIPv4 :: "HostNet \<Rightarrow> ipnet option \<Rightarrow> netip option" where
  "chooseOutboundIPv4 host vpnSubnet = (case probeOutboundIPv4 host vpnSubnet of
       Some ip \<Rightarrow> Some ip | None \<Rightarrow> firstNonVPNIPv4 host vpnSubnet)"

text \<open>Where a dial goes: into the tunnel's own stack, or to the host network from a local address.\<close>

datatype dial = DialTunnel addr int | DialHost "netip option" addr int

definition dialHostNetwork :: "HostNet \<Rightarrow> string \<Rightarrow> addr \<Rightarrow> int \<Rightarrow> ipnet option \<Rightarrow> dial" where
  "dialHostNetwork host netw a port vpnSubnet =
     DialHost (case chooseOutboundIPv4 host vpnSubnet of None \<Rightarrow> None
       | Some ip \<Rightarrow> if has_prefix netw ''tcp'' \<or> has_prefix netw ''udp'' then Some ip else None) a port"

definition dialTarget :: "HostNet \<Rightarrow> ipnet option \<Rightarrow> string \<Rightarrow> addr \<Rightarrow> int \<Rightarrow> dial" where
  "dialTarget host vpnSubnet netw a port =
     (if addrInSubnet vpnSubnet a then DialTunnel a port else dialHostNetwork host netw a port vpnSubnet)"

text \<open>
  The loop over the resolved addresses: the first dial that connects.  \<open>connect\<close> is the network's
  answer.  A port is converted to 16 bits.
\<close>

fun dial_first :: "(dial \<Rightarrow> bool) \<Rightarrow> HostNet \<Rightarrow> ipnet option \<Rightarrow> string \<Rightarrow> int \<Rightarrow> addr list \<Rightarrow> dial option" where
  "dial_first connect host vpnSubnet netw port [] = None"
| "dial_first connect host vpnSubnet netw port (a # as) =
     (let d = dialTarget host vpnSubnet netw a (port mod 65536) in
      if connect d then Some d else dial_first connect host vpnSubnet netw port as)"

section \<open>The forward proxy (\<^verbatim>\<open>forward.go\<close>)\<close>

record BoundListener =
  bl_rule :: IngressForward
  bl_tcp :: bool

record ForwardProxy =
  fp_hubIP :: addr
  fp_vpnSubnet :: "ipnet option"
  fp_serving :: "BoundListener list option"

type_synonym fwd_state = "calls \<times> ForwardProxy"

definition NewForwardProxy :: "string \<Rightarrow> string \<Rightarrow> err + ForwardProxy" where
  "NewForwardProxy hubIP vpnSubnet = (case ParseAddr hubIP of
       None \<Rightarrow> Inl (Errorf ''parse hub ip'')
     | Some a \<Rightarrow> res_bind (parseVPNSubnet vpnSubnet) (\<lambda>subnet.
         Inr \<lparr>fp_hubIP = a, fp_vpnSubnet = Some subnet, fp_serving = None\<rparr>))"

fun validate_forward_loop :: "(int, nat) gomap \<Rightarrow> nat \<Rightarrow> IngressForward list \<Rightarrow> err + unit" where
  "validate_forward_loop seen i [] = Inr ()"
| "validate_forward_loop seen i (rule # rules) =
     (if if_Protocol rule \<noteq> ''tcp'' \<and> if_Protocol rule \<noteq> ''udp'' then
        Inl (Errorf (''rule '' @ itoa i @ '': unsupported protocol '' @ go_quote (if_Protocol rule)))
      else if if_ListenPort rule \<le> 0 \<or> if_ListenPort rule > 65535 then
        Inl (Errorf (''rule '' @ itoa i @ '': invalid listen port '' @ itoa_int (if_ListenPort rule)))
      else case mget seen (if_ListenPort rule) of
        Some prev \<Rightarrow> Inl (Errorf (''rules '' @ itoa prev @ '' and '' @ itoa i @ '': duplicate listen port '' @ itoa_int (if_ListenPort rule)))
      | None \<Rightarrow> validate_forward_loop (mput (if_ListenPort rule) i seen) (Suc i) rules)"

definition validateForwardRules :: "IngressForward list \<Rightarrow> err + unit" where
  "validateForwardRules rules = validate_forward_loop [] 0 rules"

definition bindRule :: "net \<Rightarrow> addr \<Rightarrow> IngressForward \<Rightarrow> (calls, BoundListener) act" where
  "bindRule net hub rule =
     (if if_Protocol rule = ''tcp'' then
        andthen (call net (ListenTCP hub (if_ListenPort rule mod 65536))) (\<lambda>_. ret \<lparr>bl_rule = rule, bl_tcp = True\<rparr>)
      else if if_Protocol rule = ''udp'' then
        andthen (call net (ListenUDP hub (if_ListenPort rule mod 65536))) (\<lambda>_. ret \<lparr>bl_rule = rule, bl_tcp = False\<rparr>)
      else fail (Errorf (''unsupported protocol '' @ go_quote (if_Protocol rule))))"

definition close_listener :: "net \<Rightarrow> addr \<Rightarrow> BoundListener \<Rightarrow> calls \<Rightarrow> calls" where
  "close_listener net hub bl = call_ignored net
     ((if bl_tcp bl then CloseTCP else CloseUDP) hub (if_ListenPort (bl_rule bl) mod 65536))"

text \<open>
  Stopping cancels the serving goroutines, each of which closes its listener, and waits for them; the
  order in which they close is taken to be the order of the rules.
\<close>

definition fp_Stop :: "net \<Rightarrow> fwd_state \<Rightarrow> fwd_state" where
  "fp_Stop net = (\<lambda>(log, m). case fp_serving m of
       None \<Rightarrow> (log, m)
     | Some bls \<Rightarrow> (fold (close_listener net (fp_hubIP m)) bls log, m\<lparr>fp_serving := None\<rparr>))"

fun bind_rules :: "net \<Rightarrow> addr \<Rightarrow> BoundListener list \<Rightarrow> IngressForward list \<Rightarrow> (calls, BoundListener list) act" where
  "bind_rules net hub listeners [] = ret listeners"
| "bind_rules net hub listeners (rule # rules) =
     andthen (attempt (bindRule net hub rule)) (\<lambda>r. case r of
       Inl err \<Rightarrow> (\<lambda>log. (Inl (Wrap (''bind '' @ if_Protocol rule @ ''/'' @ itoa_int (if_ListenPort rule) @ '': '') err),
          fold (close_listener net hub) listeners log))
     | Inr bl \<Rightarrow> bind_rules net hub (listeners @ [bl]) rules)"

definition fp_Apply :: "net \<Rightarrow> IngressForward list \<Rightarrow> (fwd_state, unit) act" where
  "fp_Apply net rules = (\<lambda>s.
     case validateForwardRules rules of
       Inl err \<Rightarrow> (Inl err, s)
     | Inr _ \<Rightarrow>
        (let (log, m) = fp_Stop net s in
         if rules = [] then (Inr (), (log, m))
         else case bind_rules net (fp_hubIP m) [] rules log of
           (Inl err, log) \<Rightarrow> (Inl err, (log, m))
         | (Inr listeners, log) \<Rightarrow> (Inr (), (log, m\<lparr>fp_serving := Some listeners\<rparr>))))"

end
