(* ===== verification/Dns.thy ===== *)
theory Dns
  imports Sync_Bundle Domain_Rules
begin

text \<open>
  Package \<^verbatim>\<open>vpn/dns\<close>: the hub's DNS server.  It answers names under \<^verbatim>\<open>.wirehub\<close> from the catalog of
  the last snapshot, hides service maps from clients whose group may not use them, forwards every
  other question to the upstream resolvers, and resolves the targets of forwards and maps.  The wire
  exchange of \<^verbatim>\<open>miekg/dns\<close> is the argument \<open>wire\<close>: network, server and questions to a reply or
  nothing.  Lowering a name's case is on ASCII letters.
\<close>

section \<open>Messages\<close>

record Question =
  q_Name :: string
  q_Qtype :: nat
  q_Qclass :: nat

definition TypeA :: nat where "TypeA = 1"
definition TypeAAAA :: nat where "TypeAAAA = 28"
definition ClassINET :: nat where "ClassINET = 1"
definition RcodeSuccess :: nat where "RcodeSuccess = 0"
definition RcodeServerFailure :: nat where "RcodeServerFailure = 2"
definition RcodeNameError :: nat where "RcodeNameError = 3"
definition RcodeRefused :: nat where "RcodeRefused = 5"

datatype rr = RR_A string nat netip | RR_AAAA string nat netip | RR_Other nat

record Reply =
  r_Rcode :: nat
  r_Authoritative :: bool
  r_Answer :: "rr list"
  r_Ns :: "rr list"
  r_Extra :: "rr list"

type_synonym wire = "string \<Rightarrow> string \<Rightarrow> Question list \<Rightarrow> Reply option"

lemmas dns_consts = TypeA_def TypeAAAA_def ClassINET_def RcodeSuccess_def RcodeServerFailure_def RcodeNameError_def RcodeRefused_def

section \<open>State (\<^verbatim>\<open>catalog.go\<close>, \<^verbatim>\<open>server.go\<close>)\<close>

record DnsServer =
  dn_Catalog :: DNSCatalog
  dn_PeerGroup :: "(addr, nat) gomap"
  dn_DnsIP :: string
  dn_Upstream :: "string list"

text \<open>The group of every enabled peer's address; the ingress proxies build the same table.\<close>

definition peer_groups :: "WGPeer list \<Rightarrow> (addr, nat) gomap" where
  "peer_groups peers = fold (\<lambda>p pg. if \<not> wp_Enabled p \<or> wp_GroupID p = 0 then pg
     else case ParseAddr (wp_WGIP p) of None \<Rightarrow> pg | Some ip \<Rightarrow> mput ip (wp_GroupID p) pg) peers []"

definition NewServer :: "string \<Rightarrow> string list \<Rightarrow> DnsServer" where
  "NewServer dnsIP upstream = \<lparr>dn_Catalog = \<lparr>dc_HubIP = [], dc_Peers = [], dc_Maps = []\<rparr>, dn_PeerGroup = [],
     dn_DnsIP = dnsIP, dn_Upstream = upstream\<rparr>"

definition UpdateDNS :: "DNSCatalog \<Rightarrow> WGPeer list \<Rightarrow> DnsServer \<Rightarrow> DnsServer" where
  "UpdateDNS catalog peers s = s\<lparr>dn_Catalog := catalog, dn_PeerGroup := peer_groups peers\<rparr>"

definition SetUpstream :: "string list \<Rightarrow> DnsServer \<Rightarrow> DnsServer" where
  "SetUpstream upstream s = s\<lparr>dn_Upstream := upstream\<rparr>"

section \<open>Lookup (\<^verbatim>\<open>lookup.go\<close>)\<close>

definition dnsSlug :: "string \<Rightarrow> string" where
  "dnsSlug slug0 = (let slug = to_lower (trim_space slug0) in
     if has_prefix slug ''www.'' then trim_prefix slug ''www.'' else slug)"

definition lookupIPForClient :: "DnsServer \<Rightarrow> string \<Rightarrow> bool \<Rightarrow> addr \<Rightarrow> string option" where
  "lookupIPForClient s raw0 ok clientIP =
     (if \<not> ok then None
      else let raw = to_lower (trim_space raw0); slug = dnsSlug raw; cat = dn_Catalog s in
        if slug = HubDNSLabel then (if dc_HubIP cat \<noteq> [] then Some (dc_HubIP cat) else None)
        else case mget (dc_Maps cat) slug of
          Some ent \<Rightarrow>
            if is_valid clientIP \<and> (case mget (dn_PeerGroup s) clientIP of None \<Rightarrow> True
                 | Some gid \<Rightarrow> \<not> GroupInAllowedSet (md_AllowedGroupIDs ent) gid) then None
            else Some (md_VirtualIP ent)
        | None \<Rightarrow> mget (dc_Peers cat) slug)"

definition lookupIP :: "DnsServer \<Rightarrow> string \<Rightarrow> bool \<Rightarrow> string option" where
  "lookupIP s raw ok = lookupIPForClient s raw ok NoAddr"

section \<open>Upstream (\<^verbatim>\<open>host_resolver.go\<close>)\<close>

definition JoinHostPort :: "string \<Rightarrow> string \<Rightarrow> string" where
  "JoinHostPort host port = (if CHR '':'' \<in> set host then ''['' @ host @ '']:'' @ port else host @ '':'' @ port)"

fun try_upstreams :: "wire \<Rightarrow> string \<Rightarrow> Question list \<Rightarrow> string list \<Rightarrow> Reply option" where
  "try_upstreams wire netw req [] = None"
| "try_upstreams wire netw req (upstream # rest) =
     (case wire netw (JoinHostPort upstream ''53'') req of
        Some resp \<Rightarrow> if r_Rcode resp = RcodeSuccess \<and> r_Answer resp \<noteq> [] then Some resp
                     else try_upstreams wire netw req rest
      | None \<Rightarrow> try_upstreams wire netw req rest)"

fun try_networks :: "wire \<Rightarrow> string list \<Rightarrow> Question list \<Rightarrow> string list \<Rightarrow> Reply option" where
  "try_networks wire [] req resolvers = None"
| "try_networks wire (netw # rest) req resolvers =
     (case try_upstreams wire netw req resolvers of Some resp \<Rightarrow> Some resp
      | None \<Rightarrow> try_networks wire rest req resolvers)"

definition exchangeDNS :: "wire \<Rightarrow> Question list \<Rightarrow> string list \<Rightarrow> err + Reply" where
  "exchangeDNS wire req resolvers =
     (if resolvers = [] then Inl (Errorf ''no upstream DNS configured'')
      else case try_networks wire [''udp'', ''tcp''] req resolvers of
        Some resp \<Rightarrow> Inr resp
      | None \<Rightarrow> Inl (Errorf ''upstream dns unavailable''))"

section \<open>Serving a query (\<^verbatim>\<open>server.go\<close>)\<close>

definition dnsClientIP :: "string \<Rightarrow> string" where
  "dnsClientIP remote = (case SplitHostPort remote of None \<Rightarrow> remote | Some (host, _) \<Rightarrow> host)"

definition dns_name :: "string \<Rightarrow> string" where
  "dns_name name = trim_suffix (to_lower name) ''.''"

definition dot_domain :: string where "dot_domain = ''.'' @ DNSDomain"

definition isInternalName :: "string \<Rightarrow> bool" where
  "isInternalName name0 = (let name = dns_name name0 in name = DNSDomain \<or> has_suffix name dot_domain)"

text \<open>The local variables of \<^verbatim>\<open>handle\<close>'s loop over the questions.\<close>

record HandleAcc =
  ha_external :: "Question list"
  ha_found :: bool
  ha_missing :: bool
  ha_answer :: "rr list"

definition client_addr :: "string \<Rightarrow> addr" where
  "client_addr remote = (let host = dnsClientIP remote in
     if host \<noteq> [] then (case ParseAddr host of Some ip \<Rightarrow> ip | None \<Rightarrow> NoAddr) else NoAddr)"

definition answer_records :: "Question \<Rightarrow> string \<Rightarrow> rr list" where
  "answer_records q ip =
     (if q_Qtype q = TypeA then
        (case ParseIP ip of None \<Rightarrow> []
         | Some parsed \<Rightarrow> (case to4 parsed of None \<Rightarrow> [] | Some a \<Rightarrow> [RR_A (q_Name q) 60 a]))
      else if q_Qtype q = TypeAAAA then
        (case ParseIP ip of None \<Rightarrow> []
         | Some parsed \<Rightarrow> (case to4 parsed of None \<Rightarrow> [RR_AAAA (q_Name q) 60 parsed] | Some _ \<Rightarrow> []))
      else [])"

definition handle_question :: "DnsServer \<Rightarrow> string \<Rightarrow> Question \<Rightarrow> HandleAcc \<Rightarrow> HandleAcc" where
  "handle_question s remote q acc =
     (let name = dns_name (q_Name q) in
      if \<not> isInternalName name then acc\<lparr>ha_external := ha_external acc @ [q]\<rparr>
      else if has_suffix name dot_domain then
        (let slug = trim_suffix name dot_domain in
         if slug = [] then acc\<lparr>ha_missing := True\<rparr>
         else case lookupIPForClient s slug True (client_addr remote) of
           None \<Rightarrow> acc\<lparr>ha_missing := True\<rparr>
         | Some ip \<Rightarrow> acc\<lparr>ha_found := True, ha_answer := ha_answer acc @ answer_records q ip\<rparr>)
      else acc\<lparr>ha_missing := True\<rparr>)"

definition forward_external :: "DnsServer \<Rightarrow> wire \<Rightarrow> Question list \<Rightarrow> Reply \<Rightarrow> Reply" where
  "forward_external s wire external m =
     (if external = [] then m
      else if dn_Upstream s = [] then (if r_Answer m = [] then m\<lparr>r_Rcode := RcodeRefused\<rparr> else m)
      else case exchangeDNS wire external (dn_Upstream s) of
        Inr resp \<Rightarrow>
          (let m' = m\<lparr>r_Answer := r_Answer m @ r_Answer resp, r_Ns := r_Ns m @ r_Ns resp, r_Extra := r_Extra m @ r_Extra resp\<rparr> in
           if r_Answer resp \<noteq> [] then m'\<lparr>r_Rcode := r_Rcode resp, r_Authoritative := r_Authoritative resp\<rparr> else m')
      | Inl _ \<Rightarrow> if r_Answer m = [] then m\<lparr>r_Rcode := RcodeServerFailure\<rparr> else m)"

definition handle :: "DnsServer \<Rightarrow> wire \<Rightarrow> string \<Rightarrow> Question list \<Rightarrow> Reply" where
  "handle s wire remote questions =
     (let acc = fold (handle_question s remote) questions \<lparr>ha_external = [], ha_found = False, ha_missing = False, ha_answer = []\<rparr>;
          m = forward_external s wire (ha_external acc)
            \<lparr>r_Rcode = RcodeSuccess, r_Authoritative = True, r_Answer = ha_answer acc, r_Ns = [], r_Extra = []\<rparr> in
      if r_Answer m = [] \<and> r_Rcode m = RcodeSuccess \<and> ha_missing acc \<and> \<not> ha_found acc
      then m\<lparr>r_Rcode := RcodeNameError\<rparr> else m)"

section \<open>Resolving targets (\<^verbatim>\<open>resolve.go\<close>)\<close>

definition dns_fqdn :: "string \<Rightarrow> string" where
  "dns_fqdn s = (if has_suffix s ''.'' then s else s @ ''.'')"

definition allARecords :: "Reply \<Rightarrow> addr list" where
  "allARecords resp = List.map_filter (\<lambda>r. case r of RR_A _ _ a \<Rightarrow> if a = [] then None else addr_from_slice a | _ \<Rightarrow> None) (r_Answer resp)"

definition firstARecord :: "Reply \<Rightarrow> addr option" where
  "firstARecord resp = (case allARecords resp of [] \<Rightarrow> None | a # _ \<Rightarrow> Some a)"

definition exchangeUpstream :: "DnsServer \<Rightarrow> wire \<Rightarrow> Question list \<Rightarrow> err + Reply" where
  "exchangeUpstream s wire req = exchangeDNS wire req (dn_Upstream s)"

definition a_question :: "string \<Rightarrow> Question list" where
  "a_question name = [\<lparr>q_Name = dns_fqdn name, q_Qtype = TypeA, q_Qclass = ClassINET\<rparr>]"

definition resolveUpstreamA :: "DnsServer \<Rightarrow> wire \<Rightarrow> string \<Rightarrow> err + addr" where
  "resolveUpstreamA s wire name = (case exchangeUpstream s wire (a_question name) of
       Inl e \<Rightarrow> Inl (Wrap (''resolve '' @ go_quote name @ '': '') e)
     | Inr resp \<Rightarrow> (case firstARecord resp of Some a \<Rightarrow> Inr a | None \<Rightarrow> Inl (Errorf (''no A record for '' @ go_quote name))))"

definition resolveUpstreamAll :: "DnsServer \<Rightarrow> wire \<Rightarrow> string \<Rightarrow> err + addr list" where
  "resolveUpstreamAll s wire name = (case exchangeUpstream s wire (a_question name) of
       Inl e \<Rightarrow> Inl (Wrap (''resolve '' @ go_quote name @ '': '') e)
     | Inr resp \<Rightarrow> (case allARecords resp of [] \<Rightarrow> Inl (Errorf (''no A record for '' @ go_quote name)) | addrs \<Rightarrow> Inr addrs))"

text \<open>An address as written, \<^verbatim>\<open>netip.AddrFromSlice(ip.To4())\<close>.\<close>

definition literal_addr :: "netip \<Rightarrow> err + addr" where
  "literal_addr ip = (case (case to4 ip of None \<Rightarrow> None | Some b \<Rightarrow> addr_from_slice b) of
       Some a \<Rightarrow> Inr a | None \<Rightarrow> Inl (Errorf ''invalid target ip''))"

definition resolve_internal :: "DnsServer \<Rightarrow> string \<Rightarrow> string \<Rightarrow> err + addr" where
  "resolve_internal s host name =
     (if \<not> has_suffix name dot_domain then Inl (Errorf (''unknown host '' @ go_quote host))
      else let slug = trim_suffix name dot_domain in
        if slug = [] then Inl (Errorf (''unknown host '' @ go_quote host))
        else case lookupIP s slug True of
          None \<Rightarrow> Inl (Errorf (''unknown host '' @ go_quote host))
        | Some ip \<Rightarrow> (case ParseAddr ip of Some a \<Rightarrow> Inr a | None \<Rightarrow> Inl (Errorf (''resolve '' @ go_quote host))))"

definition ResolveHost :: "DnsServer \<Rightarrow> wire \<Rightarrow> string \<Rightarrow> err + addr" where
  "ResolveHost s wire host0 = res_bind (ValidateForwardTargetHost host0) (\<lambda>host.
     case ParseIP host of
       Some ip \<Rightarrow> literal_addr ip
     | None \<Rightarrow> let name = dns_name host in
         if isInternalName name then resolve_internal s host name else resolveUpstreamA s wire name)"

definition ResolveForwardAddrs :: "DnsServer \<Rightarrow> wire \<Rightarrow> string \<Rightarrow> err + addr list" where
  "ResolveForwardAddrs s wire host0 = res_bind (ValidateForwardTargetHost host0) (\<lambda>host.
     case ParseIP host of
       Some ip \<Rightarrow> res_bind (literal_addr ip) (\<lambda>a. Inr [a])
     | None \<Rightarrow> let name = dns_name host in
         if isInternalName name then res_bind (ResolveHost s wire host) (\<lambda>a. Inr [a])
         else resolveUpstreamAll s wire name)"

end
