(* ===== verification/Map_Proxy.thy ===== *)
theory Map_Proxy
  imports Ingress Dns "HOL-Library.Multiset"
begin

text \<open>
  Package \<^verbatim>\<open>vpn/ingress\<close>, service maps (\<^verbatim>\<open>servicemap.go\<close>, \<^verbatim>\<open>session.go\<close>): the proxy that terminates
  TCP and UDP on the virtual addresses of the maps and dials their targets.  The handlers of the
  network stack run concurrently with each other and with \<^verbatim>\<open>Apply\<close>; every section they run under a
  lock is one step here, and a handler between two steps is a thread that remembers what it read.  The
  locked section of \<^verbatim>\<open>Apply\<close> is one step: a thread that only takes \<^verbatim>\<open>udpMu\<close> can run inside it only
  before the sessions are closed, where it has the effect of having run before.
\<close>

section \<open>State\<close>

record IngressMap =
  im_ID :: nat
  im_Slug :: string
  im_TargetHost :: string
  im_VirtualIP :: addr
  im_AllowedGroupIDs :: "nat goset"

record mapFlowKey =
  fk_client :: addr
  fk_server :: addr
  fk_clientPort :: int
  fk_serverPort :: int

text \<open>A session's connections are named by a number, which stands for the pointer the code compares.\<close>

record udpMapSession =
  us_conn :: nat
  us_generation :: nat

text \<open>
  A context is the number of the \<^verbatim>\<open>Apply\<close> that made it; it is cancelled as soon as it is not the
  proxy's current one.  \<open>mp_tcp\<close>: the TCP connections being proxied, with the context they run under; how the
  relay of one ends is in theory \<open>Relay\<close>.  The generation is a 64-bit counter and does not wrap.
\<close>

record tcpFlow =
  tf_ctx :: "nat option"
  tf_client :: addr
  tf_server :: addr

record MapProxy =
  mp_vpnSubnet :: "ipnet option"
  mp_peerGroup :: "(addr, nat) gomap"
  mp_rules :: "(addr, IngressMap) gomap"
  mp_slugByIP :: "(addr, string) gomap"
  mp_ctx :: "nat option"
  mp_generation :: nat
  mp_installed :: bool
  mp_udpSessions :: "(mapFlowKey, udpMapSession) gomap"
  mp_udpPending :: "(mapFlowKey, nat) gomap"
  mp_tcp :: "tcpFlow multiset"

definition NewMapProxy :: "string \<Rightarrow> err + MapProxy" where
  "NewMapProxy vpnSubnet = res_bind (parseVPNSubnet vpnSubnet) (\<lambda>subnet.
     Inr \<lparr>mp_vpnSubnet = Some subnet, mp_peerGroup = [], mp_rules = [], mp_slugByIP = [], mp_ctx = None, mp_generation = 0,
       mp_installed = False, mp_udpSessions = [], mp_udpPending = [], mp_tcp = {#}\<rparr>)"

section \<open>Access\<close>

definition SetPeerGroups :: "WGPeer list \<Rightarrow> MapProxy \<Rightarrow> MapProxy" where
  "SetPeerGroups peers m = m\<lparr>mp_peerGroup := peer_groups peers\<rparr>"

definition peerAllowed :: "MapProxy \<Rightarrow> IngressMap \<Rightarrow> addr \<Rightarrow> bool" where
  "peerAllowed m rule peerIP =
     (if im_AllowedGroupIDs rule = [] then False
      else case mget (mp_peerGroup m) peerIP of None \<Rightarrow> False
      | Some gid \<Rightarrow> GroupInAllowedSet (im_AllowedGroupIDs rule) gid)"

section \<open>Applying rules\<close>

definition ensureMapAddress :: "net \<Rightarrow> addr \<Rightarrow> (calls, unit) act" where
  "ensureMapAddress net a =
     (if \<not> is_valid a \<or> \<not> is4 a then ret ()
      else andthen (attempt (call net (AddProtocolAddress a))) (\<lambda>r. case r of
        Inr _ \<Rightarrow> ret ()
      | Inl e \<Rightarrow> if e = ErrDuplicateAddress then ret () else fail (Wrap [] e)))"

definition EnsureStackMapAddresses :: "net \<Rightarrow> addr list \<Rightarrow> (calls, unit) act" where
  "EnsureStackMapAddresses net addrs = for_each addrs (ensureMapAddress net)"

text \<open>The loop of \<^verbatim>\<open>Apply\<close> that adds the addresses; the tables it builds are \<open>rule_table\<close> and \<open>slug_table\<close>.\<close>

definition ensure_rule :: "net \<Rightarrow> IngressMap \<Rightarrow> (calls, unit) act" where
  "ensure_rule net rule = andthen (attempt (ensureMapAddress net (im_VirtualIP rule))) (\<lambda>r. case r of
     Inr _ \<Rightarrow> ret ()
   | Inl e \<Rightarrow> fail (Wrap (''map '' @ im_Slug rule @ '': add address '' @ addr_string (im_VirtualIP rule) @ '': '') e))"

definition rule_table :: "IngressMap list \<Rightarrow> (addr, IngressMap) gomap" where
  "rule_table rules = fold (\<lambda>rule m. mput (im_VirtualIP rule) rule m) rules []"

definition slug_table :: "IngressMap list \<Rightarrow> (addr, string) gomap" where
  "slug_table rules = fold (\<lambda>rule m. mput (im_VirtualIP rule) (im_Slug rule) m) rules []"

definition closeUDPSessions :: "MapProxy \<Rightarrow> MapProxy" where
  "closeUDPSessions m = m\<lparr>mp_udpSessions := [], mp_udpPending := []\<rparr>"

definition install_rules :: "IngressMap list \<Rightarrow> WGPeer list \<Rightarrow> MapProxy \<Rightarrow> MapProxy" where
  "install_rules rules peers m =
     (let m = m\<lparr>mp_generation := mp_generation m + 1\<rparr>;
          m = closeUDPSessions (m\<lparr>mp_ctx := Some (mp_generation m)\<rparr>)
      in m\<lparr>mp_rules := rule_table rules, mp_slugByIP := slug_table rules, mp_peerGroup := peer_groups peers, mp_installed := True\<rparr>)"

type_synonym map_state = "calls \<times> MapProxy"

definition mp_Apply :: "net \<Rightarrow> IngressMap list \<Rightarrow> WGPeer list \<Rightarrow> (map_state, unit) act" where
  "mp_Apply net rules peers = (\<lambda>(log, m).
     case andthen (call net StackFromNet) (\<lambda>_. for_each rules (ensure_rule net)) log of
       (Inl err, log) \<Rightarrow> (Inl err, (log, m))
     | (Inr _, log) \<Rightarrow> (Inr (), (log, install_rules rules peers m)))"

definition mp_Stop :: "MapProxy \<Rightarrow> MapProxy" where
  "mp_Stop m = (closeUDPSessions (m\<lparr>mp_ctx := None, mp_generation := mp_generation m + 1\<rparr>))
     \<lparr>mp_rules := [], mp_slugByIP := []\<rparr>"

section \<open>UDP flows\<close>

definition pending_of :: "MapProxy \<Rightarrow> mapFlowKey \<Rightarrow> nat" where
  "pending_of m key = (case mget (mp_udpPending m) key of None \<Rightarrow> 0 | Some g \<Rightarrow> g)"

definition deleteUDPPending :: "mapFlowKey \<Rightarrow> nat \<Rightarrow> MapProxy \<Rightarrow> MapProxy" where
  "deleteUDPPending key generation m =
     (if pending_of m key = generation then m\<lparr>mp_udpPending := mdel key (mp_udpPending m)\<rparr> else m)"

text \<open>The locked section of \<^verbatim>\<open>handleUDPForwarderRequest\<close>: \<open>None\<close> when the request is dropped.\<close>

definition udp_reserve :: "nat \<Rightarrow> mapFlowKey \<Rightarrow> IngressMap \<Rightarrow> MapProxy \<Rightarrow> MapProxy option" where
  "udp_reserve generation key rule m =
     (if mp_generation m \<noteq> generation \<or> mget (mp_rules m) (fk_server key) \<noteq> Some rule then None
      else if mget (mp_udpSessions m) key \<noteq> None then None
      else if mget (mp_udpPending m) key \<noteq> None then None
      else Some (m\<lparr>mp_udpPending := mput key generation (mp_udpPending m)\<rparr>))"

text \<open>The end of \<^verbatim>\<open>createMapUDPSession\<close> once the target is connected; \<open>cancelled\<close> is \<^verbatim>\<open>ctx.Err() != nil\<close>.\<close>

definition udp_connect :: "bool \<Rightarrow> nat \<Rightarrow> mapFlowKey \<Rightarrow> nat \<Rightarrow> MapProxy \<Rightarrow> MapProxy" where
  "udp_connect cancelled generation key conn m =
     (if pending_of m key \<noteq> generation then m
      else let m = m\<lparr>mp_udpPending := mdel key (mp_udpPending m)\<rparr> in
        if cancelled then m
        else if mget (mp_udpSessions m) key \<noteq> None then m
        else m\<lparr>mp_udpSessions := mput key \<lparr>us_conn = conn, us_generation = generation\<rparr> (mp_udpSessions m)\<rparr>)"

definition deleteUDPSession :: "mapFlowKey \<Rightarrow> udpMapSession \<Rightarrow> MapProxy \<Rightarrow> MapProxy" where
  "deleteUDPSession key sess m =
     (if mget (mp_udpSessions m) key = Some sess then m\<lparr>mp_udpSessions := mdel key (mp_udpSessions m)\<rparr> else m)"

section \<open>Handlers and their steps\<close>

datatype thread =
    TcpStart "nat option" addr addr
  | TcpRule "nat option" addr addr IngressMap
  | UdpStart "nat option" mapFlowKey
  | UdpRule "nat option" nat mapFlowKey IngressMap
  | UdpAllowed "nat option" nat mapFlowKey IngressMap
  | UdpDial "nat option" nat mapFlowKey IngressMap

text \<open>The context a handler of the stack gets.\<close>

definition currentContext :: "MapProxy \<Rightarrow> nat option" where
  "currentContext m = mp_ctx m"

definition tcp_lookup :: "MapProxy \<Rightarrow> nat option \<Rightarrow> addr \<Rightarrow> addr \<Rightarrow> thread option" where
  "tcp_lookup m ctx client server = (case mget (mp_rules m) server of None \<Rightarrow> None
     | Some rule \<Rightarrow> Some (TcpRule ctx client server rule))"

definition udp_lookup :: "MapProxy \<Rightarrow> nat option \<Rightarrow> mapFlowKey \<Rightarrow> thread option" where
  "udp_lookup m ctx key = (case mget (mp_rules m) (fk_server key) of None \<Rightarrow> None
     | Some rule \<Rightarrow> Some (UdpRule ctx (mp_generation m) key rule))"

definition threads_of :: "thread option \<Rightarrow> thread multiset" where
  "threads_of t = (case t of None \<Rightarrow> {#} | Some x \<Rightarrow> {#x#})"

text \<open>
  The reachable states of a proxy that is applied any number of times and then possibly stopped, as the
  stack does; the forwarders are installed by the first \<^verbatim>\<open>Apply\<close>.
\<close>

inductive map_run :: "MapProxy \<times> thread multiset \<Rightarrow> bool" where
  init: "NewMapProxy subnet = Inr m \<Longrightarrow> map_run (m, {#})"
| apply_rules: "map_run (m, ts) \<Longrightarrow> \<not> (mp_installed m \<and> mp_ctx m = None) \<Longrightarrow> map_run (install_rules rules peers m, ts)"
| stop: "map_run (m, ts) \<Longrightarrow> map_run (mp_Stop m, ts)"
| tcp_begin: "map_run (m, ts) \<Longrightarrow> mp_installed m \<Longrightarrow> map_run (m, ts + {#TcpStart (currentContext m) client server#})"
| tcp_look: "map_run (m, ts + {#TcpStart ctx client server#}) \<Longrightarrow> map_run (m, ts + threads_of (tcp_lookup m ctx client server))"
| tcp_accept: "map_run (m, ts + {#TcpRule ctx client server rule#}) \<Longrightarrow> peerAllowed m rule client \<Longrightarrow>
    map_run (m\<lparr>mp_tcp := mp_tcp m + {#\<lparr>tf_ctx = ctx, tf_client = client, tf_server = server\<rparr>#}\<rparr>, ts)"
| tcp_refuse: "map_run (m, ts + {#TcpRule ctx client server rule#}) \<Longrightarrow> map_run (m, ts)"
| tcp_end: "map_run (m, ts) \<Longrightarrow> map_run (m\<lparr>mp_tcp := mp_tcp m - {#f#}\<rparr>, ts)"
| udp_begin: "map_run (m, ts) \<Longrightarrow> mp_installed m \<Longrightarrow> map_run (m, ts + {#UdpStart (currentContext m) key#})"
| udp_look: "map_run (m, ts + {#UdpStart ctx key#}) \<Longrightarrow> map_run (m, ts + threads_of (udp_lookup m ctx key))"
| udp_check: "map_run (m, ts + {#UdpRule ctx g key rule#}) \<Longrightarrow>
    map_run (m, if peerAllowed m rule (fk_client key) then ts + {#UdpAllowed ctx g key rule#} else ts)"
| udp_res: "map_run (m, ts + {#UdpAllowed ctx g key rule#}) \<Longrightarrow> udp_reserve g key rule m = Some m' \<Longrightarrow>
    map_run (m', ts + {#UdpDial ctx g key rule#})"
| udp_drop: "map_run (m, ts + {#UdpAllowed ctx g key rule#}) \<Longrightarrow> map_run (m, ts)"
| udp_fail: "map_run (m, ts + {#UdpDial ctx g key rule#}) \<Longrightarrow> map_run (deleteUDPPending key g m, ts)"
| udp_conn: "map_run (m, ts + {#UdpDial ctx g key rule#}) \<Longrightarrow> map_run (udp_connect (ctx \<noteq> mp_ctx m) g key conn m, ts)"
| udp_end: "map_run (m, ts) \<Longrightarrow> map_run (deleteUDPSession key sess m, ts)"

section \<open>The invariant\<close>

definition may_use :: "MapProxy \<Rightarrow> addr \<Rightarrow> addr \<Rightarrow> bool" where
  "may_use m client server = (case mget (mp_rules m) server of None \<Rightarrow> False | Some rule \<Rightarrow> peerAllowed m rule client)"

definition state_ok :: "MapProxy \<Rightarrow> bool" where
  "state_ok m \<longleftrightarrow> mdistinct (mp_udpSessions m) \<and> mdistinct (mp_udpPending m) \<and>
     fst ` set (mp_udpSessions m) \<inter> fst ` set (mp_udpPending m) = {} \<and>
     (mp_rules m \<noteq> [] \<longrightarrow> 1 \<le> mp_generation m) \<and>
     (mp_ctx m = None \<or> mp_ctx m = Some (mp_generation m)) \<and> (mp_ctx m = None \<longrightarrow> mp_rules m = []) \<and>
     (\<forall>(k, s) \<in> set (mp_udpSessions m). us_generation s = mp_generation m \<and> may_use m (fk_client k) (fk_server k)) \<and>
     (\<forall>(k, g) \<in> set (mp_udpPending m). g = mp_generation m \<and> may_use m (fk_client k) (fk_server k)) \<and>
     (\<forall>f. f \<in># mp_tcp m \<longrightarrow> (\<exists>k \<le> mp_generation m. tf_ctx f = Some k) \<and>
        (tf_ctx f = mp_ctx m \<longrightarrow> may_use m (tf_client f) (tf_server f)))"

fun ctx_ok :: "MapProxy \<Rightarrow> nat option \<Rightarrow> bool" where
  "ctx_ok m None = (mp_installed m \<and> mp_ctx m = None)"
| "ctx_ok m (Some k) = (k \<le> mp_generation m)"

fun thread_ok :: "MapProxy \<Rightarrow> thread \<Rightarrow> bool" where
  "thread_ok m (TcpStart ctx client server) = ctx_ok m ctx"
| "thread_ok m (TcpRule ctx client server rule) =
     ((\<exists>k \<le> mp_generation m. ctx = Some k) \<and> (ctx = mp_ctx m \<longrightarrow> mget (mp_rules m) server = Some rule))"
| "thread_ok m (UdpStart ctx key) = True"
| "thread_ok m (UdpRule ctx g key rule) =
     (1 \<le> g \<and> g \<le> mp_generation m \<and> (g = mp_generation m \<longrightarrow> mget (mp_rules m) (fk_server key) = Some rule))"
| "thread_ok m (UdpAllowed ctx g key rule) =
     (1 \<le> g \<and> g \<le> mp_generation m \<and> (g = mp_generation m \<longrightarrow> may_use m (fk_client key) (fk_server key)))"
| "thread_ok m (UdpDial ctx g key rule) = (1 \<le> g)"

definition map_inv :: "MapProxy \<times> thread multiset \<Rightarrow> bool" where
  "map_inv = (\<lambda>(m, ts). state_ok m \<and> (\<forall>t. t \<in># ts \<longrightarrow> thread_ok m t))"

end
