(* ===== verification/Ingress_Props.thy ===== *)
theory Ingress_Props
  imports Ingress
begin

text \<open>
  What the forward proxy guarantees: the rule check is the plain statement it stands for, applying
  rules replaces the listeners all or nothing and leaks no socket, and a host dial never leaves from
  an address inside the VPN.
\<close>

section \<open>Reserved ports\<close>

lemma set_add_port: "set (add_port p seen) = set seen \<union> ({p} \<inter> {1..65535})"
  by (auto simp: add_port_def)

lemma distinct_add_port: "distinct seen \<Longrightarrow> distinct (add_port p seen)"
  by (simp add: add_port_def)

text \<open>
  The ports reserved from SNAT are exactly the hub's DNS and web ports and the listen ports of the
  forwards that are ports, without repetition and in increasing order.
\<close>

theorem ReservedHubPorts_set:
  "set (ReservedHubPorts web rules) = (insert 53 (insert web (if_ListenPort ` set rules))) \<inter> {1..65535} \<and>
   sorted_wrt (<) (ReservedHubPorts web rules)"
proof -
  have f: "set (fold add_port ps s) = set s \<union> (set ps \<inter> {1..65535}) \<and> (distinct s \<longrightarrow> distinct (fold add_port ps s))" for ps s
    by (induction ps arbitrary: s) (auto simp: set_add_port distinct_add_port)
  have "distinct (add_port web (add_port HubDNSPort []))" by (simp add: distinct_add_port)
  with f [of "forwardListenPorts rules" "add_port web (add_port HubDNSPort [])"]
  show ?thesis unfolding ReservedHubPorts_def
    by (simp add: strict_sorted_iff set_add_port forwardListenPorts_def HubDNSPort_def) blast
qed

section \<open>Validation\<close>

definition forwards_valid :: "IngressForward list \<Rightarrow> bool" where
  "forwards_valid rules = (list_all (\<lambda>r. if_Protocol r \<in> {''tcp'', ''udp''} \<and> 0 < if_ListenPort r \<and> if_ListenPort r \<le> 65535) rules \<and>
     distinct (map if_ListenPort rules))"

lemma validate_loop_iff:
  "validate_forward_loop seen i rules = Inr () \<longleftrightarrow>
     forwards_valid rules \<and> (\<forall>r \<in> set rules. mget seen (if_ListenPort r) = None)"
proof (induction rules arbitrary: seen i)
  case (Cons r rules)
  show ?case
    by (auto simp: Cons.IH forwards_valid_def image_iff split: option.splits)
qed (simp add: forwards_valid_def)

text \<open>
  The rule check accepts exactly the lists in which every rule is TCP or UDP on a port from 1 to
  65535 and no port occurs twice; the loop with its table of seen ports is this plain check.
\<close>

theorem validateForwardRules_iff: "validateForwardRules rules = Inr () \<longleftrightarrow> forwards_valid rules"
  by (simp add: validateForwardRules_def validate_loop_iff)

lemma validate_valid: "validateForwardRules rules = Inr u \<longleftrightarrow> forwards_valid rules"
  by (simp add: validateForwardRules_def validate_loop_iff)

section \<open>Sockets\<close>

type_synonym sock = "bool \<times> addr \<times> int"

fun sock_step :: "netcall \<times> err option \<Rightarrow> sock set \<Rightarrow> sock set" where
  "sock_step (ListenTCP a p, r) S = (if r = None then insert (True, a, p) S else S)"
| "sock_step (ListenUDP a p, r) S = (if r = None then insert (False, a, p) S else S)"
| "sock_step (CloseTCP a p, r) S = S - {(True, a, p)}"
| "sock_step (CloseUDP a p, r) S = S - {(False, a, p)}"
| "sock_step (CreateNetTUN local dns mtu, r) S = (if r = None then {} else S)"
| "sock_step (DeviceClose, r) S = {}"
| "sock_step (_, r) S = S"

text \<open>
  The sockets open after a log of calls: a close releases its socket also when it reports an error,
  and a new network stack, or the closing of the device under it, leaves none.
\<close>

definition open_socks :: "calls \<Rightarrow> sock set" where
  "open_socks log = fold sock_step log {}"

lemma open_socks_snoc [simp]: "open_socks (log @ [e]) = sock_step e (open_socks log)"
  by (simp add: open_socks_def)

lemma open_socks_Nil [simp]: "open_socks [] = {}"
  by (simp add: open_socks_def)

text \<open>What the stack documents: a listen succeeds only on a socket that is free.\<close>

definition exclusive_listen :: "net \<Rightarrow> bool" where
  "exclusive_listen net \<longleftrightarrow> (\<forall>log a p. (net log (ListenTCP a p) = None \<longrightarrow> (True, a, p) \<notin> open_socks log) \<and>
     (net log (ListenUDP a p) = None \<longrightarrow> (False, a, p) \<notin> open_socks log))"

definition sock_of :: "addr \<Rightarrow> BoundListener \<Rightarrow> sock" where
  "sock_of hub bl = (bl_tcp bl, hub, if_ListenPort (bl_rule bl) mod 65536)"

definition served :: "ForwardProxy \<Rightarrow> BoundListener list" where
  "served m = (case fp_serving m of None \<Rightarrow> [] | Some bls \<Rightarrow> bls)"

text \<open>The sockets open in the stack are those of others, \<open>B\<close>, and those of the listeners served.\<close>

definition holds_socks :: "sock set \<Rightarrow> addr \<Rightarrow> BoundListener list \<Rightarrow> calls \<Rightarrow> bool" where
  "holds_socks B hub bls log \<longleftrightarrow> open_socks log = B \<union> set (map (sock_of hub) bls) \<and>
     B \<inter> set (map (sock_of hub) bls) = {} \<and> distinct (map (sock_of hub) bls)"

definition fwd_inv :: "sock set \<Rightarrow> fwd_state \<Rightarrow> bool" where
  "fwd_inv B s \<longleftrightarrow> holds_socks B (fp_hubIP (snd s)) (served (snd s)) (fst s)"

lemma open_close: "open_socks (close_listener net hub bl log) = open_socks log - {sock_of hub bl}"
  by (simp add: close_listener_def call_ignored_def sock_of_def)

lemma open_close_all: "open_socks (fold (close_listener net hub) bls log) = open_socks log - set (map (sock_of hub) bls)"
  by (induction bls arbitrary: log) (auto simp: open_close)

lemma close_all: "holds_socks B hub bls log \<Longrightarrow> holds_socks B hub [] (fold (close_listener net hub) bls log)"
  by (auto simp: holds_socks_def open_close_all)

lemma fp_Stop_inv: "fwd_inv B s \<Longrightarrow> fwd_inv B (fp_Stop net s) \<and> served (snd (fp_Stop net s)) = [] \<and>
    fp_hubIP (snd (fp_Stop net s)) = fp_hubIP (snd s) \<and> fp_serving (snd (fp_Stop net s)) = None"
  by (cases s) (auto simp: fwd_inv_def fp_Stop_def served_def close_all split: option.splits)

lemma holds_snoc:
  assumes "holds_socks B hub bls log" "sock_of hub bl \<notin> open_socks log"
    "open_socks log' = insert (sock_of hub bl) (open_socks log)"
  shows "holds_socks B hub (bls @ [bl]) log'"
  using assms unfolding holds_socks_def by auto

lemma bindRule_holds:
  assumes "exclusive_listen net" "holds_socks B hub bls log" "bindRule net hub rule log = (r, log')"
  shows "case r of Inl _ \<Rightarrow> holds_socks B hub bls log'
    | Inr bl \<Rightarrow> bl_rule bl = rule \<and> (bl_tcp bl \<longleftrightarrow> if_Protocol rule = ''tcp'') \<and> holds_socks B hub (bls @ [bl]) log'"
proof -
  let ?p = "if_ListenPort rule mod 65536"
  have same: "holds_socks B hub bls (log @ [(c, Some e)])" if "c \<in> {ListenTCP hub ?p, ListenUDP hub ?p}" for c e
    using assms(2) that by (auto simp: holds_socks_def)
  have tcp: "holds_socks B hub (bls @ [\<lparr>bl_rule = rule, bl_tcp = True\<rparr>]) (log @ [(ListenTCP hub ?p, None)])"
    if "net log (ListenTCP hub ?p) = None"
    using assms(1) that by (intro holds_snoc [OF assms(2)]) (auto simp: exclusive_listen_def sock_of_def)
  have udp: "holds_socks B hub (bls @ [\<lparr>bl_rule = rule, bl_tcp = False\<rparr>]) (log @ [(ListenUDP hub ?p, None)])"
    if "net log (ListenUDP hub ?p) = None"
    using assms(1) that by (intro holds_snoc [OF assms(2)]) (auto simp: exclusive_listen_def sock_of_def)
  from assms(2,3) same tcp udp show ?thesis
    unfolding bindRule_def by (auto simp: andthen_def call_def ret_def fail_def split: if_splits option.splits)
qed

lemma bind_rules_holds:
  assumes "exclusive_listen net"
  shows "holds_socks B hub bls log \<Longrightarrow> bind_rules net hub bls rules log = (r, log') \<Longrightarrow>
    (case r of Inl _ \<Rightarrow> holds_socks B hub [] log'
     | Inr out \<Rightarrow> map bl_rule out = map bl_rule bls @ rules \<and> holds_socks B hub out log')"
proof (induction rules arbitrary: bls log)
  case Nil
  then show ?case by (auto simp: ret_def)
next
  case (Cons rule rules)
  obtain r1 log1 where b: "bindRule net hub rule log = (r1, log1)" by fastforce
  note h = bindRule_holds [OF assms Cons.prems(1) b]
  show ?case
  proof (cases r1)
    case (Inl e)
    with h have "holds_socks B hub bls log1" by simp
    from close_all [OF this] Cons.prems(2) b Inl show ?thesis by (auto simp: andthen_def attempt_def)
  next
    case (Inr bl)
    with Cons.prems(2) b have "bind_rules net hub (bls @ [bl]) rules log1 = (r, log')" by (simp add: andthen_def attempt_def)
    from Cons.IH [OF _ this] h Inr show ?thesis by (auto split: sum.splits)
  qed
qed

text \<open>
  C26: applying forwards is all or nothing and leaks no socket.  An accepted list is served rule by
  rule, on exactly the sockets that are open for it; a refused list changes nothing; and when a bind
  fails, every listener of the old and of the new list has been closed.
\<close>

theorem fp_Apply_outcome:
  assumes "exclusive_listen net" "fwd_inv B s" "fp_Apply net rules s = (r, s')"
  shows "fwd_inv B s' \<and> fp_hubIP (snd s') = fp_hubIP (snd s) \<and>
    (case r of Inr _ \<Rightarrow> forwards_valid rules \<and> map bl_rule (served (snd s')) = rules
     | Inl _ \<Rightarrow> (\<not> forwards_valid rules \<and> s' = s) \<or> (forwards_valid rules \<and> served (snd s') = []))"
proof (cases "validateForwardRules rules")
  case (Inl e)
  then have "\<not> forwards_valid rules" using validate_valid [of rules "()"] by auto
  moreover have "r = Inl e" "s' = s" using assms(3) Inl by (simp_all add: fp_Apply_def)
  ultimately show ?thesis using assms(2) by simp
next
  case (Inr u)
  then have v: "forwards_valid rules" by (simp add: validate_valid)
  obtain log m where st: "fp_Stop net s = (log, m)" by fastforce
  from fp_Stop_inv [OF assms(2), of net] have m: "fwd_inv B (log, m)" "served m = []" "fp_hubIP m = fp_hubIP (snd s)" "fp_serving m = None"
    by (simp_all add: st)
  then have h: "holds_socks B (fp_hubIP m) [] log" by (simp add: fwd_inv_def)
  show ?thesis
  proof (cases "rules = []")
    case True
    then have "r = Inr ()" "s' = (log, m)" using assms(3) Inr by (simp_all add: fp_Apply_def st)
    with m v True show ?thesis by simp
  next
    case False
    obtain r1 log1 where b: "bind_rules net (fp_hubIP m) [] rules log = (r1, log1)" by fastforce
    from bind_rules_holds [OF assms(1) h b] False assms(3) Inr st m v b show ?thesis
      by (auto simp: fp_Apply_def fwd_inv_def served_def split: sum.splits)
  qed
qed

text \<open>What the stack grants: a free socket can be bound.\<close>

definition grants_free :: "net \<Rightarrow> bool" where
  "grants_free net \<longleftrightarrow> (\<forall>log a p. ((True, a, p) \<notin> open_socks log \<longrightarrow> net log (ListenTCP a p) = None) \<and>
     ((False, a, p) \<notin> open_socks log \<longrightarrow> net log (ListenUDP a p) = None))"

definition rule_sock :: "addr \<Rightarrow> IngressForward \<Rightarrow> sock" where
  "rule_sock hub rule = (if_Protocol rule = ''tcp'', hub, if_ListenPort rule mod 65536)"

lemma bind_rules_ok:
  assumes "exclusive_listen net" "grants_free net"
  shows "holds_socks B hub bls log \<Longrightarrow> list_all (\<lambda>r. if_Protocol r \<in> {''tcp'', ''udp''}) rules \<Longrightarrow>
    distinct (map (rule_sock hub) rules) \<Longrightarrow>
    set (map (rule_sock hub) rules) \<inter> (B \<union> set (map (sock_of hub) bls)) = {} \<Longrightarrow>
    is_ok (fst (bind_rules net hub bls rules log))"
proof (induction rules arbitrary: bls log)
  case Nil
  then show ?case by (simp add: ret_def)
next
  case (Cons rule rules)
  obtain r1 log1 where b: "bindRule net hub rule log = (r1, log1)" by fastforce
  have free: "rule_sock hub rule \<notin> open_socks log"
    using Cons.prems(1,4) by (auto simp: holds_socks_def)
  have "is_ok r1"
    using b free assms(2) Cons.prems(2) unfolding bindRule_def grants_free_def rule_sock_def
    by (auto simp: andthen_def call_def ret_def fail_def split: if_splits option.splits)
  then obtain bl where r1: "r1 = Inr bl" by (cases r1) auto
  from bindRule_holds [OF assms(1) Cons.prems(1) b] r1
  have h: "bl_rule bl = rule" "bl_tcp bl \<longleftrightarrow> if_Protocol rule = ''tcp''" "holds_socks B hub (bls @ [bl]) log1" by simp_all
  have "sock_of hub bl = rule_sock hub rule" by (simp add: sock_of_def rule_sock_def h(1,2))
  then have "is_ok (fst (bind_rules net hub (bls @ [bl]) rules log1))"
    using Cons.prems(2-4) by (intro Cons.IH [OF h(3)]) auto
  with b r1 show ?case by (simp add: andthen_def attempt_def)
qed

text \<open>
  C27: a valid list always comes up when nobody else holds its sockets: different rules never get in
  each other's way, although a rule may reuse the port of a rule that is being replaced.
\<close>

theorem fp_Apply_succeeds:
  assumes "exclusive_listen net" "grants_free net" "fwd_inv B s" "forwards_valid rules"
    and "rule_sock (fp_hubIP (snd s)) ` set rules \<inter> B = {}"
  shows "\<exists>s'. fp_Apply net rules s = (Inr (), s')"
proof -
  obtain log m where st: "fp_Stop net s = (log, m)" by fastforce
  from fp_Stop_inv [OF assms(3), of net] have m: "fwd_inv B (log, m)" "served m = []" "fp_hubIP m = fp_hubIP (snd s)"
    by (simp_all add: st)
  then have h: "holds_socks B (fp_hubIP m) [] log" by (simp add: fwd_inv_def)
  have mod: "r \<in> set rules \<Longrightarrow> if_ListenPort r mod 65536 = if_ListenPort r" for r
    using assms(4) by (auto simp: forwards_valid_def list_all_iff)
  have "distinct (map (rule_sock (fp_hubIP m)) rules)"
    using assms(4) mod unfolding forwards_valid_def by (auto simp: distinct_map rule_sock_def inj_on_def)
  moreover have "list_all (\<lambda>r. if_Protocol r \<in> {''tcp'', ''udp''}) rules"
    using assms(4) by (auto simp: forwards_valid_def list_all_iff)
  ultimately have "is_ok (fst (bind_rules net (fp_hubIP m) [] rules log))"
    using assms(5) by (intro bind_rules_ok [OF assms(1,2) h]) (auto simp: m(3))
  moreover have "validateForwardRules rules = Inr ()" using assms(4) by (simp add: validate_valid)
  ultimately show ?thesis
    by (cases "bind_rules net (fp_hubIP m) [] rules log"; cases "fst (bind_rules net (fp_hubIP m) [] rules log)")
      (auto simp: fp_Apply_def st)
qed

section \<open>Dialling\<close>

lemma first_outside_ok: "first_outside n as = Some ip \<Longrightarrow> length ip = 4 \<and> \<not> addrInSubnet n (addr_of4 ip)"
  by (induction as) (auto simp: to4_def addr_of4_def split: option.splits if_splits)

lemma first_iface_ok: "first_iface n is = Some ip \<Longrightarrow> length ip = 4 \<and> \<not> addrInSubnet n (addr_of4 ip)"
  by (induction "is") (auto dest: first_outside_ok split: option.splits if_splits)

text \<open>
  No dial loops back through the VPN.  A target inside the VPN's subnet is dialled in the tunnel's
  own stack; any other is dialled on the host network, and a local address the code binds for it lies
  outside the VPN's subnet.
\<close>

theorem dialTarget_route:
  "case dialTarget host n netw a port of
     DialTunnel a' p \<Rightarrow> a' = a \<and> p = port \<and> addrInSubnet n a
   | DialHost local a' p \<Rightarrow> a' = a \<and> p = port \<and> \<not> addrInSubnet n a \<and>
       (case local of None \<Rightarrow> True | Some ip \<Rightarrow> length ip = 4 \<and> \<not> addrInSubnet n (addr_of4 ip))"
proof -
  have "length ip = 4 \<and> \<not> addrInSubnet n (addr_of4 ip)" if "chooseOutboundIPv4 host n = Some ip" for ip
    using that by (auto simp: chooseOutboundIPv4_def probeOutboundIPv4_def firstNonVPNIPv4_def to4_def
        dest: first_iface_ok split: option.splits if_splits)
  then show ?thesis by (auto simp: dialTarget_def dialHostNetwork_def split: option.splits)
qed

section \<open>Examples\<close>

text \<open>A stack that grants exactly the listens on free sockets.\<close>

definition fair_net :: net where
  "fair_net log c = (case c of
       ListenTCP a p \<Rightarrow> if (True, a, p) \<in> open_socks log then Some (External 98) else None
     | ListenUDP a p \<Rightarrow> if (False, a, p) \<in> open_socks log then Some (External 98) else None
     | _ \<Rightarrow> None)"

lemma fair_net_ok: "exclusive_listen fair_net" "grants_free fair_net"
  by (auto simp: exclusive_listen_def grants_free_def fair_net_def split: if_splits)

definition ex_fwd :: "int \<Rightarrow> string \<Rightarrow> IngressForward" where
  "ex_fwd p proto = \<lparr>if_ID = 1, if_ListenPort = p, if_Protocol = proto, if_TargetHost = ''10.9.9.9'', if_TargetPort = 80\<rparr>"

text \<open>The hub's web server holds its port; one forward is being served.\<close>

definition ex_proxy :: fwd_state where
  "ex_proxy = ([(ListenTCP (Addr4 10 0 0 1) 80, None), (ListenTCP (Addr4 10 0 0 1) 8080, None)],
     \<lparr>fp_hubIP = Addr4 10 0 0 1, fp_vpnSubnet = None,
      fp_serving = Some [\<lparr>bl_rule = ex_fwd 8080 ''tcp'', bl_tcp = True\<rparr>]\<rparr>)"

lemma ex_proxy_inv: "fwd_inv {(True, Addr4 10 0 0 1, 80)} ex_proxy"
  by (simp add: fwd_inv_def holds_socks_def ex_proxy_def served_def sock_of_def ex_fwd_def open_socks_def)

theorem fp_Apply_succeeds_witness:
  "\<exists>s'. fp_Apply fair_net [ex_fwd 8080 ''udp'', ex_fwd 9000 ''tcp''] ex_proxy = (Inr (), s')"
  by (rule fp_Apply_succeeds [OF fair_net_ok ex_proxy_inv])
    (auto simp: forwards_valid_def ex_fwd_def rule_sock_def ex_proxy_def)

text \<open>A list that wants the web server's port is refused after the old listener was closed.\<close>

theorem fp_Apply_outcome_witness:
  "\<exists>e s'. fp_Apply fair_net [ex_fwd 80 ''tcp''] ex_proxy = (Inl e, s') \<and>
     fwd_inv {(True, Addr4 10 0 0 1, 80)} s' \<and> served (snd s') = []"
proof -
  have "\<exists>e s'. fp_Apply fair_net [ex_fwd 80 ''tcp''] ex_proxy = (Inl e, s') \<and> forwards_valid [ex_fwd 80 ''tcp'']"
    by (simp add: fp_Apply_def validateForwardRules_def fp_Stop_def ex_proxy_def ex_fwd_def bindRule_def andthen_def attempt_def
        call_def fair_net_def close_listener_def call_ignored_def open_socks_def forwards_valid_def)
  then obtain e s' where r: "fp_Apply fair_net [ex_fwd 80 ''tcp''] ex_proxy = (Inl e, s')" "forwards_valid [ex_fwd 80 ''tcp'']" by blast
  from fp_Apply_outcome [OF fair_net_ok(1) ex_proxy_inv r(1)] r show ?thesis by auto
qed

end
