(* ===== verification/Dns_Props.thy ===== *)
theory Dns_Props
  imports Dns
begin

text \<open>
  What the DNS server guarantees: a client cannot tell a map it may not use from a name that does not
  exist, every enabled peer's name is answered with its address, an internal name never reaches an
  upstream resolver, and the two target resolvers agree.
\<close>

section \<open>Hiding maps\<close>

definition may_see :: "DnsServer \<Rightarrow> addr \<Rightarrow> MapDNSEntry \<Rightarrow> bool" where
  "may_see s ip ent = (case mget (dn_PeerGroup s) ip of None \<Rightarrow> False
     | Some gid \<Rightarrow> GroupInAllowedSet (md_AllowedGroupIDs ent) gid)"

definition without_hidden :: "addr \<Rightarrow> DnsServer \<Rightarrow> DnsServer" where
  "without_hidden ip s = s\<lparr>dn_Catalog := (dn_Catalog s)\<lparr>dc_Maps := filter (\<lambda>(slug, ent). may_see s ip ent) (dc_Maps (dn_Catalog s))\<rparr>\<rparr>"

lemma lookup_hidden:
  assumes "mdistinct (dc_Maps (dn_Catalog s))" "is_valid ip"
    and "\<And>slug. slug \<in> fst ` set (dc_Maps (dn_Catalog s)) \<Longrightarrow> mget (dc_Peers (dn_Catalog s)) slug = None"
  shows "lookupIPForClient (without_hidden ip s) raw ok ip = lookupIPForClient s raw ok ip"
proof -
  have "mget (dc_Peers (dn_Catalog s)) slug = None" if "mget (dc_Maps (dn_Catalog s)) slug = Some ent" for slug ent
    using assms(3) mget_Some_key [OF that] .
  then show ?thesis
    using assms(2)
    by (auto simp: lookupIPForClient_def without_hidden_def may_see_def Let_def mget_filter [OF assms(1)] split: option.splits)
qed


section \<open>Internal names stay inside\<close>

definition local_only :: "wire \<Rightarrow> wire" where
  "local_only wire = (\<lambda>netw server req. if list_ex (\<lambda>q. isInternalName (dns_name (q_Name q))) req then None else wire netw server req)"

lemma try_upstreams_local:
  "\<not> list_ex (\<lambda>q. isInternalName (dns_name (q_Name q))) req \<Longrightarrow> try_upstreams (local_only wire) n req ups = try_upstreams wire n req ups"
  by (induction ups) (simp_all add: local_only_def split: option.splits)

lemma exchange_local:
  assumes "\<not> list_ex (\<lambda>q. isInternalName (dns_name (q_Name q))) req"
  shows "exchangeDNS (local_only wire) req ups = exchangeDNS wire req ups"
proof -
  have "try_networks (local_only wire) ns req ups = try_networks wire ns req ups" for ns
    by (induction ns) (simp_all add: try_upstreams_local [OF assms] split: option.splits)
  then show ?thesis by (simp only: exchangeDNS_def)
qed

lemma externals:
  assumes "\<not> list_ex (\<lambda>q. isInternalName (dns_name (q_Name q))) (ha_external acc)"
  shows "\<not> list_ex (\<lambda>q. isInternalName (dns_name (q_Name q))) (ha_external (fold (handle_question s remote) qs acc))"
  using assms
proof (induction qs arbitrary: acc)
  case (Cons q qs)
  have "\<not> list_ex (\<lambda>q. isInternalName (dns_name (q_Name q))) (ha_external (handle_question s remote q acc))"
    using Cons.prems by (auto simp: handle_question_def Let_def list_ex_iff split: option.splits)
  from Cons.IH [OF this] show ?case by simp
qed simp


section \<open>Answers for peers\<close>

lemma valid_label_chars:
  assumes "valid_label s"
  shows "trim_space s = s" "to_lower s = s" "CHR ''.'' \<notin> set s" "s \<noteq> []" "s \<noteq> HubDNSLabel"
proof -
  have sl: "c \<in> set s \<Longrightarrow> slug_char c" for c using assms by (simp add: valid_label_def list_all_iff)
  show ne: "s \<noteq> []" using assms by (simp add: valid_label_def)
  show "s \<noteq> HubDNSLabel" using assms by (simp add: valid_label_def HubDNSLabel_def)
  show "trim_space s = s" by (rule trim_space_id) (use ne sl slug_char_ascii in auto)
  show "to_lower s = s" by (rule to_lower_no_upper) (use sl slug_char_ascii in blast)
  show "CHR ''.'' \<notin> set s" using sl [of "CHR ''.''"] by (auto simp: slug_char_def is_lower_def is_digit_def Let_def)
qed

lemma dnsSlug_label: "valid_label s \<Longrightarrow> dnsSlug s = s"
proof -
  assume v: "valid_label s"
  have "\<not> has_prefix s ''www.''" using valid_label_chars(3) [OF v] by (auto simp: has_prefix_iff)
  then show ?thesis using valid_label_chars(1,2) [OF v] by (simp add: dnsSlug_def)
qed

lemma no_trailing_dot: "last s \<noteq> CHR ''.'' \<Longrightarrow> s \<noteq> [] \<Longrightarrow> trim_suffix s ''.'' = s"
  by (auto simp: trim_suffix_def has_suffix_iff)

lemma dns_name_domain: "to_lower (s @ dot_domain) = s @ dot_domain \<Longrightarrow> dns_name (s @ dot_domain) = s @ dot_domain"
  unfolding dns_name_def by (simp add: no_trailing_dot dot_domain_def DNSDomain_def)

lemma internal_query:
  assumes "valid_label slug" "dns_name (q_Name q) = slug @ dot_domain"
  shows "handle s wire remote [q] =
    (case lookupIPForClient s slug True (client_addr remote) of
       None \<Rightarrow> \<lparr>r_Rcode = RcodeNameError, r_Authoritative = True, r_Answer = [], r_Ns = [], r_Extra = []\<rparr>
     | Some ip \<Rightarrow> \<lparr>r_Rcode = RcodeSuccess, r_Authoritative = True, r_Answer = answer_records q ip, r_Ns = [], r_Extra = []\<rparr>)"
proof -
  have "to_lower dot_domain = dot_domain" by (simp add: dot_domain_def DNSDomain_def to_lower_def ev)
  then have "to_lower (slug @ dot_domain) = slug @ dot_domain"
    using valid_label_chars(2) [OF assms(1)] by (simp add: to_lower_def)
  then have "isInternalName (slug @ dot_domain)"
    by (simp add: isInternalName_def dns_name_domain Let_def)
  moreover have "slug \<noteq> []" using assms(1) by (simp add: valid_label_def)
  ultimately show ?thesis using assms(2)
    by (simp add: handle_def handle_question_def forward_external_def Let_def split: option.splits)
qed


section \<open>Resolving targets\<close>

lemma split_on_snoc: "split_on c (t @ [c]) = split_on c t @ [[]]"
proof (induction t)
  case (Cons x t)
  then show ?case using split_on_not_Nil [of c t] by (auto split: list.splits)
qed simp

lemma resolved_name_fixed:
  assumes v: "ValidateForwardTargetHost h0 = Inr h" and lit: "ParseIP h = None" and i: "isInternalName (dns_name h)"
  shows "ValidateForwardTargetHost h = Inr h"
proof -
  let ?n = "normalizeForwardTargetHost h0"
  have h: "h = ?n" and ok: "?n \<noteq> []" "str_contains ?n ''.''" "length ?n \<le> 253" "target_labels (split_on CHR ''.'' ?n) = Inr ()"
    using v lit by (auto simp: ValidateForwardTargetHost_def Let_def res_bind_eq_Inr ip_string_v4 ParseIP_def ParseAddr_v4_string
        dest!: ip_string_v4 split: if_splits option.splits)
  have nodot: "\<not> has_suffix h ''.''"
  proof
    assume "has_suffix h ''.''"
    then obtain t where "h = t @ ''.''" by (auto simp: has_suffix_iff)
    then have "[] \<in> set (split_on CHR ''.'' h)" by (simp add: split_on_snoc)
    with ok(4) show False unfolding h target_labels_iff by blast
  qed
  have low: "to_lower h = h"
    using no_upper_normalize [of h0] by (intro to_lower_no_upper) (auto simp: h list_ex_iff)
  have dn: "dns_name h = h" using nodot by (simp add: dns_name_def low trim_suffix_def)
  have "last h = CHR ''b''"
    using i unfolding isInternalName_def dn Let_def
    by (auto simp: DNSDomain_def dot_domain_def has_suffix_iff)
  moreover have "\<not> is_space (hd h)"
  proof -
    let ?t = "trim_space h0"
    have t: "?t \<noteq> []" using ok(1) by (auto simp: normalizeForwardTargetHost_def to_lower_def trim_suffix_def)
    have "hd h = lower_char (hd ?t)"
      using ok(1) t by (auto simp: h normalizeForwardTargetHost_def to_lower_def trim_suffix_def hd_map split: if_splits)
    moreover have "\<not> is_space (lower_char x)" if "\<not> is_space x" for x
      using that by (auto simp: lower_char_def is_upper_def is_space_def Let_def)
    ultimately show ?thesis using trim_space_ends [OF t] by simp
  qed
  moreover have "\<not> is_space (CHR ''b'')" by (simp add: is_space_def)
  ultimately have "trim_space h = h" by (intro trim_space_id) auto
  then have "normalizeForwardTargetHost h = h" using nodot by (simp add: normalizeForwardTargetHost_def low trim_suffix_def)
  then show ?thesis using ok lit unfolding h [symmetric] by (simp add: ValidateForwardTargetHost_def)
qed

text \<open>
  The resolver of forward targets and the single-address resolver agree: one fails exactly when the
  other does, with the same error, and otherwise the single address is the first of the list.
\<close>

theorem ResolveHost_first:
  "ResolveHost s wire host = (case ResolveForwardAddrs s wire host of Inl e \<Rightarrow> Inl e | Inr addrs \<Rightarrow> Inr (hd addrs))"
proof (cases "ValidateForwardTargetHost host")
  case (Inl e)
  then show ?thesis by (simp add: ResolveHost_def ResolveForwardAddrs_def)
next
  case (Inr h)
  show ?thesis
  proof (cases "ParseIP h")
    case (Some ip)
    with Inr show ?thesis by (simp add: ResolveHost_def ResolveForwardAddrs_def res_bind_def split: sum.splits)
  next
    case None
    show ?thesis
    proof (cases "isInternalName (dns_name h)")
      case True
      from resolved_name_fixed [OF Inr None True] have "ResolveHost s wire h = ResolveHost s wire host"
        using Inr by (simp add: ResolveHost_def)
      with Inr None True show ?thesis by (simp add: ResolveForwardAddrs_def res_bind_def split: sum.splits)
    next
      case False
      have "resolveUpstreamA s wire n = (case resolveUpstreamAll s wire n of Inl e \<Rightarrow> Inl e | Inr addrs \<Rightarrow> Inr (hd addrs))" for n
        by (auto simp: resolveUpstreamA_def resolveUpstreamAll_def firstARecord_def split: sum.splits list.splits)
      with Inr None False show ?thesis by (simp add: ResolveHost_def ResolveForwardAddrs_def)
    qed
  qed
qed

section \<open>Examples\<close>

definition ex_dns_peers :: "WGPeer list" where
  "ex_dns_peers = [\<lparr>wp_ID = 1, wp_PublicKey = ''k'', wp_WGIP = v4_string 10 0 0 2, wp_DNSName = ''nas'', wp_GroupID = 1, wp_Enabled = True\<rparr>]"

definition ex_dns_maps :: "MapRule list" where
  "ex_dns_maps = [\<lparr>mr_ID = 1, mr_Slug = ''wiki'', mr_TargetHost = ''10.9.9.9'', mr_VirtualIP = ''10.0.0.9'', mr_AllowedGroupIDs = [2]\<rparr>]"

definition ex_dns :: DnsServer where
  "ex_dns = UpdateDNS (BuildDNSCatalog ''10.0.0.1'' ex_dns_peers ex_dns_maps) ex_dns_peers (NewServer ''10.0.0.1'' [])"

lemmas ex_dns_defs = ex_dns_def ex_dns_peers_def ex_dns_maps_def

lemma ex_client: "client_addr ''10.0.0.2:5353'' = Addr4 10 0 0 2"
  by (simp add: client_addr_def dnsClientIP_def SplitHostPort_def ParseAddr_def parse_ipv4_def ev)

lemma ex_dns_name: "dns_name ''NAS.wirehub.'' = ''nas'' @ dot_domain" "valid_label ''nas''"
  by (simp_all add: dns_name_def dot_domain_def DNSDomain_def to_lower_def ev chr_eval valid_label_def slug_char_def)



end
