(* ===== verification/Map_Proxy_Props.thy ===== *)
theory Map_Proxy_Props
  imports Map_Proxy Ingress_Props Dns_Props
begin

text \<open>
  The map proxy only carries traffic the current rules allow, whatever interleaving of handlers,
  dials, timeouts and rule changes led to its state; applying a snapshot is what grants and revokes.
\<close>

section \<open>Updates that keep the rules\<close>

lemma may_use_cong [simp]:
  "may_use (m\<lparr>mp_udpSessions := s\<rparr>) c v = may_use m c v" "may_use (m\<lparr>mp_udpPending := p\<rparr>) c v = may_use m c v"
  "may_use (m\<lparr>mp_tcp := t\<rparr>) c v = may_use m c v"
  by (simp_all add: may_use_def peerAllowed_def split: option.splits)

lemma thread_ok_cong [simp]:
  "thread_ok (m\<lparr>mp_udpSessions := s\<rparr>) t = thread_ok m t" "thread_ok (m\<lparr>mp_udpPending := p\<rparr>) t = thread_ok m t"
  "thread_ok (m\<lparr>mp_tcp := f\<rparr>) t = thread_ok m t"
proof -
  have c: "ctx_ok (m\<lparr>mp_udpSessions := s\<rparr>) ctx = ctx_ok m ctx" "ctx_ok (m\<lparr>mp_udpPending := p\<rparr>) ctx = ctx_ok m ctx"
    "ctx_ok (m\<lparr>mp_tcp := f\<rparr>) ctx = ctx_ok m ctx" for ctx
    by (cases ctx; simp)+
  show "thread_ok (m\<lparr>mp_udpSessions := s\<rparr>) t = thread_ok m t" "thread_ok (m\<lparr>mp_udpPending := p\<rparr>) t = thread_ok m t"
    "thread_ok (m\<lparr>mp_tcp := f\<rparr>) t = thread_ok m t"
    by (cases t; simp add: c)+
qed

text \<open>A step that starts a new generation leaves no thread of the old one able to act.\<close>

lemma thread_ok_bump:
  assumes "thread_ok m t" "mp_generation m' = mp_generation m + 1" "mp_ctx m' = None \<or> mp_ctx m' = Some (mp_generation m')"
    and "mp_installed m \<longrightarrow> mp_installed m'" "mp_installed m \<and> mp_ctx m = None \<longrightarrow> mp_ctx m' = None"
  shows "thread_ok m' t"
proof -
  have "ctx_ok m ctx \<Longrightarrow> ctx_ok m' ctx" for ctx using assms(2-5) by (cases ctx) auto
  then show ?thesis using assms(1-3) by (cases t) auto
qed

lemma rule_table_ne: "mget (rule_table rules) v = Some r \<Longrightarrow> rule_table rules \<noteq> []"
  by auto

lemma install_rules_ok:
  assumes "map_inv (m, ts)" "\<not> (mp_installed m \<and> mp_ctx m = None)"
  shows "map_inv (install_rules rules peers m, ts)"
proof -
  let ?m = "install_rules rules peers m"
  have f: "mp_generation ?m = mp_generation m + 1" "mp_ctx ?m = Some (mp_generation m + 1)" "mp_installed ?m"
    "mp_udpSessions ?m = []" "mp_udpPending ?m = []" "mp_tcp ?m = mp_tcp m"
    by (simp_all add: install_rules_def closeUDPSessions_def)
  have "thread_ok ?m t" if "t \<in># ts" for t
    by (rule thread_ok_bump [of m]) (use assms that f in \<open>auto simp: map_inv_def\<close>)
  moreover have "state_ok ?m"
    using assms(1) unfolding state_ok_def f map_inv_def by (fastforce simp: state_ok_def)
  ultimately show ?thesis by (simp add: map_inv_def)
qed

lemma stop_ok:
  assumes "map_inv (m, ts)"
  shows "map_inv (mp_Stop m, ts)"
proof -
  have f: "mp_generation (mp_Stop m) = mp_generation m + 1" "mp_ctx (mp_Stop m) = None" "mp_installed (mp_Stop m) = mp_installed m"
    "mp_udpSessions (mp_Stop m) = []" "mp_udpPending (mp_Stop m) = []" "mp_tcp (mp_Stop m) = mp_tcp m" "mp_rules (mp_Stop m) = []"
    by (simp_all add: mp_Stop_def closeUDPSessions_def)
  have "thread_ok (mp_Stop m) t" if "t \<in># ts" for t
    by (rule thread_ok_bump [of m]) (use assms that f in \<open>auto simp: map_inv_def\<close>)
  moreover have "state_ok (mp_Stop m)"
    using assms unfolding state_ok_def f map_inv_def by (fastforce simp: state_ok_def)
  ultimately show ?thesis by (simp add: map_inv_def)
qed

section \<open>Flows\<close>

lemma pending_gen: "state_ok m \<Longrightarrow> pending_of m key = g \<Longrightarrow> 1 \<le> g \<Longrightarrow> (key, g) \<in> set (mp_udpPending m)"
  by (auto simp: pending_of_def state_ok_def split: option.splits dest: map_of_SomeD)

lemma state_ok_reserve:
  assumes "state_ok m" "may_use m (fk_client key) (fk_server key)" "mget (mp_udpSessions m) key = None"
  shows "state_ok (m\<lparr>mp_udpPending := mput key (mp_generation m) (mp_udpPending m)\<rparr>)"
proof -
  have "mdistinct (mp_udpPending m)" using assms(1) by (simp add: state_ok_def)
  then have "g = mp_generation m \<and> may_use m (fk_client k) (fk_server k)"
    if "(k, g) \<in> set (mput key (mp_generation m) (mp_udpPending m))" for k g
    using set_mput [OF that] assms(1,2) by (auto simp: state_ok_def)
  moreover have "key \<notin> fst ` set (mp_udpSessions m)" using assms(3) by (simp add: map_of_eq_None_iff)
  ultimately show ?thesis using assms(1) unfolding state_ok_def by auto
qed

lemma state_ok_unpend: "state_ok m \<Longrightarrow> state_ok (m\<lparr>mp_udpPending := mdel key (mp_udpPending m)\<rparr>)"
  unfolding state_ok_def by (auto simp: keys_mdel dest!: set_mdel)

lemma state_ok_session:
  assumes "state_ok m" "(key, mp_generation m) \<in> set (mp_udpPending m)"
  shows "state_ok (m\<lparr>mp_udpPending := mdel key (mp_udpPending m),
    mp_udpSessions := mput key \<lparr>us_conn = c, us_generation = mp_generation m\<rparr> (mp_udpSessions m)\<rparr>)"
proof -
  have d: "mdistinct (mp_udpSessions m)" and u: "may_use m (fk_client key) (fk_server key)"
    using assms by (auto simp: state_ok_def)
  have "us_generation s = mp_generation m \<and> may_use m (fk_client k) (fk_server k)"
    if "(k, s) \<in> set (mput key \<lparr>us_conn = c, us_generation = mp_generation m\<rparr> (mp_udpSessions m))" for k s
    using set_mput [OF that d] assms(1) u by (auto simp: state_ok_def)
  then show ?thesis using assms(1) unfolding state_ok_def by (auto simp: keys_mdel dest!: set_mdel)
qed

lemma udp_connect_ok:
  assumes "state_ok m" "1 \<le> g"
  shows "state_ok (udp_connect b g key c m)"
proof (cases "pending_of m key = g")
  case True
  from pending_gen [OF assms(1) True assms(2)] have p: "(key, g) \<in> set (mp_udpPending m)" .
  then have g: "g = mp_generation m" using assms(1) by (auto simp: state_ok_def)
  from state_ok_session [OF assms(1)] p g state_ok_unpend [OF assms(1)] True show ?thesis
    by (simp add: udp_connect_def Let_def)
next
  case False
  with assms(1) show ?thesis by (simp add: udp_connect_def)
qed

lemma udp_connect_threads: "thread_ok (udp_connect b g key c m) t = thread_ok m t"
  by (simp add: udp_connect_def Let_def)

lemma deleteUDPSession_ok: "state_ok m \<Longrightarrow> state_ok (deleteUDPSession key sess m)"
  unfolding deleteUDPSession_def state_ok_def by (auto simp: keys_mdel dest!: set_mdel)

lemma state_ok_tcp_begin:
  assumes "state_ok m" "\<exists>k \<le> mp_generation m. tf_ctx f = Some k"
    "tf_ctx f = mp_ctx m \<longrightarrow> may_use m (tf_client f) (tf_server f)"
  shows "state_ok (m\<lparr>mp_tcp := mp_tcp m + {#f#}\<rparr>)"
proof -
  have "x = f \<or> x \<in># mp_tcp m" if "x \<in># mp_tcp m + {#f#}" for x using that by auto
  with assms show ?thesis unfolding state_ok_def by (elim conjE, intro conjI) (simp; blast)+
qed

lemma state_ok_tcp_end:
  assumes "state_ok m"
  shows "state_ok (m\<lparr>mp_tcp := mp_tcp m - {#f#}\<rparr>)"
proof -
  have "x \<in># mp_tcp m" if "x \<in># mp_tcp m - {#f#}" for x using that by (rule in_diffD)
  with assms show ?thesis unfolding state_ok_def by simp
qed

lemma init_ok: "NewMapProxy subnet = Inr m \<Longrightarrow> map_inv (m, {#})"
  unfolding NewMapProxy_def res_bind_eq_Inr
  by (elim exE conjE, drule sym) (simp add: map_inv_def state_ok_def)

section \<open>All steps\<close>

lemma map_run_inv: "map_run s \<Longrightarrow> map_inv s"
proof (induction rule: map_run.induct)
  case (init subnet m)
  then show ?case by (rule init_ok)
next
  case (apply_rules m ts rules peers)
  then show ?case by (intro install_rules_ok)
next
  case (stop m ts)
  then show ?case by (intro stop_ok)
next
  case (tcp_begin m ts client server)
  have "ctx_ok m (mp_ctx m)" using tcp_begin by (cases "mp_ctx m") (auto simp: map_inv_def state_ok_def)
  with tcp_begin show ?case by (auto simp: map_inv_def currentContext_def)
next
  case (tcp_look m ts ctx client server)
  then have ok: "state_ok m" "\<And>t. t \<in># ts \<Longrightarrow> thread_ok m t" "ctx_ok m ctx" by (auto simp: map_inv_def)
  have "thread_ok m t" if "tcp_lookup m ctx client server = Some t" for t
    using that ok(1,3) by (cases ctx) (auto simp: tcp_lookup_def state_ok_def split: option.splits)
  with ok(1,2) show ?case by (auto simp: map_inv_def threads_of_def split: option.splits)
next
  case (tcp_accept m ts ctx client server rule)
  then have ok: "state_ok m" "\<And>t. t \<in># ts \<Longrightarrow> thread_ok m t" "\<exists>k \<le> mp_generation m. ctx = Some k"
    "ctx = mp_ctx m \<longrightarrow> mget (mp_rules m) server = Some rule" by (auto simp: map_inv_def)
  then have "ctx = mp_ctx m \<longrightarrow> may_use m client server" using tcp_accept.hyps(2) by (auto simp: may_use_def)
  with ok(1,3) have "state_ok (m\<lparr>mp_tcp := mp_tcp m + {#\<lparr>tf_ctx = ctx, tf_client = client, tf_server = server\<rparr>#}\<rparr>)"
    by (intro state_ok_tcp_begin) simp_all
  with ok(2) show ?case by (simp add: map_inv_def)
next
  case (tcp_end m ts f)
  then have "state_ok m" "\<And>t. t \<in># ts \<Longrightarrow> thread_ok m t" by (auto simp: map_inv_def)
  then show ?case using state_ok_tcp_end by (simp add: map_inv_def)
next
  case (udp_look m ts ctx key)
  then have ok: "state_ok m" "\<And>t. t \<in># ts \<Longrightarrow> thread_ok m t" by (auto simp: map_inv_def)
  have "thread_ok m t" if "udp_lookup m ctx key = Some t" for t
    using that ok(1) by (auto simp: udp_lookup_def state_ok_def split: option.splits)
  with ok show ?case by (auto simp: map_inv_def threads_of_def split: option.splits)
next
  case (udp_check m ts ctx g key rule)
  then show ?case by (auto simp: map_inv_def may_use_def)
next
  case (udp_res m ts ctx g key rule m')
  then have ok: "state_ok m" "\<And>t. t \<in># ts \<Longrightarrow> thread_ok m t" "1 \<le> g" "g = mp_generation m \<longrightarrow> may_use m (fk_client key) (fk_server key)"
    by (auto simp: map_inv_def)
  from udp_res.hyps(2) have m': "m' = m\<lparr>mp_udpPending := mput key g (mp_udpPending m)\<rparr>" "g = mp_generation m"
      "mget (mp_udpSessions m) key = None"
    by (auto simp: udp_reserve_def split: if_splits)
  then have "state_ok m'" using state_ok_reserve [OF ok(1)] ok(4) by simp
  with ok(2,3) m'(1) show ?case by (auto simp: map_inv_def)
next
  case (udp_fail m ts ctx g key rule)
  then show ?case using state_ok_unpend by (auto simp: map_inv_def deleteUDPPending_def)
next
  case (udp_conn m ts ctx g key rule conn)
  then show ?case using udp_connect_ok by (auto simp: map_inv_def udp_connect_threads)
next
  case (udp_end m ts key sess)
  then have "state_ok (deleteUDPSession key sess m)" by (auto simp: map_inv_def intro: deleteUDPSession_ok)
  moreover have "thread_ok (deleteUDPSession key sess m) t = thread_ok m t" for t by (simp add: deleteUDPSession_def)
  ultimately show ?case using udp_end by (auto simp: map_inv_def)
qed (auto simp: map_inv_def)

text \<open>
  C29: whatever requests, dials, timeouts and rule changes are interleaved, every UDP session and every
  TCP connection under the current context joins a client and a virtual address for which the current rules hold a
  map that the client's current group may use, and no flow has two sessions or a session and a dial.
\<close>

theorem map_access_enforced:
  assumes "map_run (m, ts)"
  shows "list_all (\<lambda>(k, s). us_generation s = mp_generation m \<and> may_use m (fk_client k) (fk_server k)) (mp_udpSessions m) \<and>
    (\<forall>f. f \<notin># mp_tcp m \<or> tf_ctx f \<noteq> mp_ctx m \<or> may_use m (tf_client f) (tf_server f)) \<and>
    distinct (map fst (mp_udpSessions m) @ map fst (mp_udpPending m))"
proof -
  from map_run_inv [OF assms] have "state_ok m" by (simp add: map_inv_def)
  then show ?thesis unfolding state_ok_def by (fastforce simp: list_all_iff)
qed

section \<open>What a snapshot grants\<close>

lemma mget_rule_table:
  assumes "distinct (map im_VirtualIP rules)"
  shows "mget (rule_table rules) v = find (\<lambda>r. im_VirtualIP r = v) rules"
proof -
  have "mget (fold (\<lambda>rule m. if True then mput (im_VirtualIP rule) rule m else m) rules []) v =
      (case find (\<lambda>r. True \<and> im_VirtualIP r = v) rules of Some x \<Rightarrow> Some x | None \<Rightarrow> mget [] v)"
    by (rule fold_put_distinct [OF assms])
  then show ?thesis by (simp add: rule_table_def split: option.splits)
qed

text \<open>
  Applying a snapshot grants exactly what it says: a client may use a virtual address iff a rule
  of the snapshot has it and lists the group the snapshot gives the client; all flows of before are
  gone.  When the stack refuses an address, nothing changes.
\<close>

theorem mp_Apply_access:
  assumes "mp_Apply net rules peers (log, m) = (r, (log', m'))" "distinct (map im_VirtualIP rules)"
  shows "case r of Inl _ \<Rightarrow> m' = m
    | Inr _ \<Rightarrow> mp_udpSessions m' = [] \<and> mp_udpPending m' = [] \<and>
       (may_use m' client vip \<longleftrightarrow> (\<exists>rule \<in> set rules. im_VirtualIP rule = vip \<and>
          (\<exists>gid. mget (peer_groups peers) client = Some gid \<and> GroupInAllowedSet (im_AllowedGroupIDs rule) gid)))"
proof (cases r)
  case (Inl e)
  with assms(1) show ?thesis by (auto simp: mp_Apply_def split: prod.splits sum.splits)
next
  case (Inr u)
  with assms(1) have m': "m' = install_rules rules peers m" by (auto simp: mp_Apply_def split: prod.splits sum.splits)
  have uniq: "x = y" if "x \<in> set rules" "y \<in> set rules" "im_VirtualIP x = im_VirtualIP y" for x y
    using assms(2) that by (auto simp: distinct_map dest: inj_onD)
  have "may_use m' client vip \<longleftrightarrow> (\<exists>rule. find (\<lambda>r. im_VirtualIP r = vip) rules = Some rule \<and>
      (\<exists>gid. mget (peer_groups peers) client = Some gid \<and> GroupInAllowedSet (im_AllowedGroupIDs rule) gid))"
    by (auto simp: m' may_use_def install_rules_def closeUDPSessions_def peerAllowed_def mget_rule_table [OF assms(2)]
        GroupInAllowedSet_def split: option.splits)
  also have "\<dots> \<longleftrightarrow> (\<exists>rule \<in> set rules. im_VirtualIP rule = vip \<and>
      (\<exists>gid. mget (peer_groups peers) client = Some gid \<and> GroupInAllowedSet (im_AllowedGroupIDs rule) gid))"
  proof (cases "find (\<lambda>r. im_VirtualIP r = vip) rules")
    case None
    then have "im_VirtualIP rule \<noteq> vip" if "rule \<in> set rules" for rule using that by (simp add: find_None_iff)
    then show ?thesis by (simp add: None)
  next
    case (Some x)
    from find_SomeD [OF Some] have x: "x \<in> set rules" "im_VirtualIP x = vip" by simp_all
    have "rule = x" if "rule \<in> set rules" "im_VirtualIP rule = vip" for rule using uniq [OF that(1) x(1)] that(2) x(2) by simp
    then have "(\<exists>rule \<in> set rules. im_VirtualIP rule = vip \<and> Q rule) = Q x" for Q using x by metis
    then show ?thesis by (simp add: Some)
  qed
  finally show ?thesis using Inr by (simp add: m' install_rules_def closeUDPSessions_def)
qed

section \<open>Examples\<close>

definition ex_map_peers :: "WGPeer list" where
  "ex_map_peers = [\<lparr>wp_ID = 1, wp_PublicKey = ''k'', wp_WGIP = v4_string 10 0 0 2, wp_DNSName = ''nas'', wp_GroupID = 7, wp_Enabled = True\<rparr>]"

definition ex_map_rule :: IngressMap where
  "ex_map_rule = \<lparr>im_ID = 1, im_Slug = ''wiki'', im_TargetHost = ''10.9.9.9'', im_VirtualIP = Addr4 10 0 0 9, im_AllowedGroupIDs = [7]\<rparr>"

definition ex_map_proxy :: MapProxy where
  "ex_map_proxy = \<lparr>mp_vpnSubnet = Some (v4_net [10, 0, 0, 0] 24), mp_peerGroup = [], mp_rules = [], mp_slugByIP = [], mp_ctx = None,
     mp_generation = 0, mp_installed = False, mp_udpSessions = [], mp_udpPending = [], mp_tcp = {#}\<rparr>"

definition ex_flow :: mapFlowKey where
  "ex_flow = \<lparr>fk_client = Addr4 10 0 0 2, fk_server = Addr4 10 0 0 9, fk_clientPort = 5000, fk_serverPort = 53\<rparr>"

lemmas ex_map_defs = ex_map_peers_def ex_map_rule_def ex_map_proxy_def ex_flow_def

lemma ex_map_new: "NewMapProxy ''10.0.0.0/24'' = Inr ex_map_proxy"
  by (simp add: ex_map_defs NewMapProxy_def parseVPNSubnet_def parse_slash24 res_bind_def)

lemma ex_peer_groups: "peer_groups ex_map_peers = [(Addr4 10 0 0 2, 7)]"
  by (simp add: ex_map_defs peer_groups_def)

definition ex_map_on :: MapProxy where
  "ex_map_on = install_rules [ex_map_rule] ex_map_peers ex_map_proxy"

lemma ex_map_on_sel [simp]: "mp_peerGroup ex_map_on = [(Addr4 10 0 0 2, 7)]" "mp_rules ex_map_on = [(Addr4 10 0 0 9, ex_map_rule)]"
  "mp_ctx ex_map_on = Some 1" "mp_generation ex_map_on = 1" "mp_installed ex_map_on" "mp_udpSessions ex_map_on = []"
  "mp_udpPending ex_map_on = []" "fk_client ex_flow = Addr4 10 0 0 2" "fk_server ex_flow = Addr4 10 0 0 9"
  "im_AllowedGroupIDs ex_map_rule = [7]" "im_VirtualIP ex_map_rule = Addr4 10 0 0 9"
  by (simp_all add: ex_map_on_def install_rules_def closeUDPSessions_def rule_table_def ex_peer_groups) (simp_all add: ex_map_defs)

text \<open>A datagram of the allowed peer opens a session.\<close>

lemma ex_map_run: "\<exists>m. map_run (m, {#}) \<and> mp_udpSessions m = [(ex_flow, \<lparr>us_conn = 3, us_generation = 1\<rparr>)]"
proof -
  have "map_run (ex_map_on, {#})" unfolding ex_map_on_def
    by (rule map_run.apply_rules [OF map_run.init [OF ex_map_new]]) (simp add: ex_map_proxy_def)
  from map_run.udp_begin [OF this, of ex_flow] have "map_run (ex_map_on, {#UdpStart (Some 1) ex_flow#})"
    by (simp add: currentContext_def)
  from map_run.udp_look [of ex_map_on "{#}", simplified, OF this] have "map_run (ex_map_on, {#UdpRule (Some 1) 1 ex_flow ex_map_rule#})"
    by (simp add: udp_lookup_def threads_of_def)
  from map_run.udp_check [of ex_map_on "{#}", simplified, OF this] have "map_run (ex_map_on, {#UdpAllowed (Some 1) 1 ex_flow ex_map_rule#})"
    by (simp add: peerAllowed_def GroupInAllowedSet_def)
  from map_run.udp_res [of ex_map_on "{#}", simplified, OF this, of "ex_map_on\<lparr>mp_udpPending := [(ex_flow, 1)]\<rparr>"]
  have "map_run (ex_map_on\<lparr>mp_udpPending := [(ex_flow, 1)]\<rparr>, {#UdpDial (Some 1) 1 ex_flow ex_map_rule#})"
    by (simp add: udp_reserve_def)
  from map_run.udp_conn [of _ "{#}", simplified, OF this, of 3] show ?thesis
    by (intro exI conjI, assumption) (simp add: udp_connect_def pending_of_def)
qed

theorem map_access_enforced_witness:
  "\<exists>m. map_run (m, {#}) \<and> mp_udpSessions m = [(ex_flow, \<lparr>us_conn = 3, us_generation = 1\<rparr>)] \<and>
     may_use m (Addr4 10 0 0 2) (Addr4 10 0 0 9)"
proof -
  from ex_map_run obtain m where m: "map_run (m, {#})" "mp_udpSessions m = [(ex_flow, \<lparr>us_conn = 3, us_generation = 1\<rparr>)]" by blast
  from map_access_enforced [OF m(1)] m show ?thesis by auto
qed

theorem mp_Apply_access_witness:
  "\<exists>m'. mp_Apply fair_net [ex_map_rule] ex_map_peers ([], ex_map_proxy) =
      (Inr (), ([(StackFromNet, None), (AddProtocolAddress (Addr4 10 0 0 9), None)], m')) \<and>
     may_use m' (Addr4 10 0 0 2) (Addr4 10 0 0 9) \<and> \<not> may_use m' (Addr4 10 0 0 3) (Addr4 10 0 0 9)"
proof -
  have r: "mp_Apply fair_net [ex_map_rule] ex_map_peers ([], ex_map_proxy) =
      (Inr (), ([(StackFromNet, None), (AddProtocolAddress (Addr4 10 0 0 9), None)], ex_map_on))"
    by (simp add: mp_Apply_def andthen_def call_def fair_net_def ensure_rule_def ensureMapAddress_def attempt_def ret_def ex_map_on_def)
  from mp_Apply_access [OF r, of "Addr4 10 0 0 2" "Addr4 10 0 0 9"] mp_Apply_access [OF r, of "Addr4 10 0 0 3" "Addr4 10 0 0 9"] r
  show ?thesis by (auto simp: ex_peer_groups GroupInAllowedSet_def)
qed

end
