(* ===== verification/Keys.thy ===== *)
theory Keys
  imports Netip
begin

text \<open>
  \<^verbatim>\<open>vpn/tunnel/keys.go\<close>: WireGuard keys.  The store and the client files hold them in base64, the
  device's configuration protocol wants them in hexadecimal.  The base64 and hexadecimal codecs are
  those of Go's standard library (padded, line breaks ignored on reading, either case of hexadecimal
  digits accepted); randomness and the curve's base multiplication are arguments.
\<close>

section \<open>Base64\<close>

definition b64_char :: "nat \<Rightarrow> char" where
  "b64_char n = (if n < 26 then char_of (65 + n) else if n < 52 then char_of (71 + n)
     else if n < 62 then char_of (n - 4) else if n = 62 then CHR ''+'' else CHR ''/'')"

definition b64_val :: "char \<Rightarrow> nat option" where
  "b64_val c = (let n = (of_char c :: nat) in
     if 65 \<le> n \<and> n \<le> 90 then Some (n - 65)
     else if 97 \<le> n \<and> n \<le> 122 then Some (n - 71)
     else if is_digit c then Some (n + 4)
     else if c = CHR ''+'' then Some 62
     else if c = CHR ''/'' then Some 63 else None)"

definition enc3 :: "u8 \<Rightarrow> u8 \<Rightarrow> u8 \<Rightarrow> nat list" where
  "enc3 a b c = [unat a div 4, unat a mod 4 * 16 + unat b div 16, unat b mod 16 * 4 + unat c div 64, unat c mod 64]"

definition dec3 :: "nat \<Rightarrow> nat \<Rightarrow> nat \<Rightarrow> nat \<Rightarrow> u8 list" where
  "dec3 i j k l = [of_nat (i * 4 + j div 16), of_nat (j mod 16 * 16 + k div 4), of_nat (k mod 4 * 64 + l)]"

fun b64_encode :: "u8 list \<Rightarrow> string" where
  "b64_encode [] = []"
| "b64_encode [a] = map b64_char (take 2 (enc3 a 0 0)) @ ''==''"
| "b64_encode [a, b] = map b64_char (take 3 (enc3 a b 0)) @ ''=''"
| "b64_encode (a # b # c # bs) = map b64_char (enc3 a b c) @ b64_encode bs"

text \<open>Reading groups of four; padding ends the text.\<close>

fun b64_groups :: "string \<Rightarrow> u8 list option" where
  "b64_groups [] = Some []"
| "b64_groups (w # x # y # z # s) = (case (b64_val w, b64_val x) of
     (Some i, Some j) \<Rightarrow>
       if y = CHR ''='' then (if z = CHR ''='' \<and> s = [] then Some (take 1 (dec3 i j 0 0)) else None)
       else (case b64_val y of None \<Rightarrow> None | Some k \<Rightarrow>
         if z = CHR ''='' then (if s = [] then Some (take 2 (dec3 i j k 0)) else None)
         else (case b64_val z of None \<Rightarrow> None | Some l \<Rightarrow>
           map_option ((@) (dec3 i j k l)) (b64_groups s)))
   | _ \<Rightarrow> None)"
| "b64_groups _ = None"

definition b64_decode :: "string \<Rightarrow> u8 list option" where
  "b64_decode s = b64_groups (filter (\<lambda>c. c \<noteq> CHR 0x0D \<and> c \<noteq> NL) s)"

section \<open>Hexadecimal\<close>

definition hex_encode :: "u8 list \<Rightarrow> string" where
  "hex_encode bs = concat (map (\<lambda>b. [hex_char (unat b div 16), hex_char (unat b mod 16)]) bs)"

fun hex_decode :: "string \<Rightarrow> u8 list option" where
  "hex_decode [] = Some []"
| "hex_decode [c] = None"
| "hex_decode (c # d # s) = (case (hex_val c, hex_val d) of
     (Some i, Some j) \<Rightarrow> map_option ((#) (of_nat (i * 16 + j))) (hex_decode s)
   | _ \<Rightarrow> None)"

section \<open>Keys\<close>

definition clamp :: "u8 list \<Rightarrow> u8 list" where
  "clamp priv =
     (let priv = priv[0 := priv ! 0 AND 248];
          priv = priv[31 := priv ! 31 AND 127]
      in priv[31 := priv ! 31 OR 64])"

text \<open>\<open>rnd\<close> is what \<^verbatim>\<open>rand.Read\<close> puts into the 32 bytes, \<open>base_mult\<close> the curve's base multiplication.\<close>

definition GenerateKeyPair :: "err + u8 list \<Rightarrow> (u8 list \<Rightarrow> u8 list) \<Rightarrow> err + string \<times> string" where
  "GenerateKeyPair rnd base_mult = (case rnd of
     Inl e \<Rightarrow> Inl (Wrap ''generate random: '' e)
   | Inr bytes \<Rightarrow> let priv = clamp bytes in Inr (b64_encode priv, b64_encode (base_mult priv)))"

definition keyToHex :: "string \<Rightarrow> err + string" where
  "keyToHex b64 = (case b64_decode b64 of
     None \<Rightarrow> Inl (Wrap ''decode key: '' (Errorf ''illegal base64 data''))
   | Some raw \<Rightarrow>
       if length raw \<noteq> 32 then Inl (Errorf (''invalid key length: '' @ itoa (length raw)))
       else Inr (hex_encode raw))"

definition hexKeyToBase64 :: "string \<Rightarrow> err + string" where
  "hexKeyToBase64 hexKey = (case hex_decode hexKey of
     None \<Rightarrow> Inl (Errorf ''encoding/hex'')
   | Some raw \<Rightarrow> Inr (b64_encode raw))"

section \<open>The codecs invert each other\<close>

lemma b64_val_char [simp]: "n < 64 \<Longrightarrow> b64_val (b64_char n) = Some n"
  by (auto simp: b64_val_def b64_char_def is_digit_def Let_def)

lemma b64_char_plain [simp]: "n < 64 \<Longrightarrow> b64_char n \<noteq> CHR ''='' \<and> b64_char n \<noteq> CHR 0x0D \<and> b64_char n \<noteq> NL"
proof -
  assume "n < 64"
  then have "b64_val (b64_char n) = Some n" by simp
  moreover have "b64_val (CHR ''='') = None" "b64_val (CHR 0x0D) = None" "b64_val NL = None"
    by (simp_all add: b64_val_def is_digit_def)
  ultimately show ?thesis by (intro conjI notI) simp_all
qed

lemma b64_char_plain_sym [simp]: "n < 64 \<Longrightarrow> CHR 0x0D \<noteq> b64_char n" "n < 64 \<Longrightarrow> NL \<noteq> b64_char n"
  using b64_char_plain [of n] by (simp_all add: eq_commute)

lemma unat_u8 [simp]: "unat (a::u8) < 256" "unat a div 4 < 64" "unat a div 16 < 16" "unat a div 64 < 4"
  using unat_u8_le [of a] by (simp_all add: div_less_iff_less_mult)

lemma pack: "r < n \<Longrightarrow> (q * n + r) div n = (q::nat)" "r < n \<Longrightarrow> (q * n + r) mod n = r"
  by simp_all

lemma pack_less:
  assumes "q < m" "r < n"
  shows "q * n + r < m * (n::nat)"
proof -
  have "Suc q * n \<le> m * n" using assms(1) by (intro mult_le_mono1) simp
  then have "n + q * n \<le> m * n" by (simp only: mult_Suc)
  with assms(2) show ?thesis by linarith
qed

lemma enc3_less: "unat a div 4 < 64 \<and> unat a mod 4 * 16 + unat b div 16 < 64 \<and> unat b mod 16 * 4 + unat c div 64 < 64 \<and>
    unat c mod 64 < 64" for a b c :: u8
  using pack_less [of "unat a mod 4" 4 "unat b div 16" 16] pack_less [of "unat b mod 16" 16 "unat c div 64" 4] by simp

lemma dec3_enc3: "dec3 (unat a div 4) (unat a mod 4 * 16 + unat b div 16) (unat b mod 16 * 4 + unat c div 64) (unat c mod 64) = [a, b, c]"
proof -
  have "unat a div 4 * 4 + (unat a mod 4 * 16 + unat b div 16) div 16 = unat a"
    by (simp only: pack unat_u8 div_mult_mod_eq)
  moreover have "(unat a mod 4 * 16 + unat b div 16) mod 16 * 16 + (unat b mod 16 * 4 + unat c div 64) div 4 = unat b"
    by (simp only: pack unat_u8 div_mult_mod_eq)
  moreover have "(unat b mod 16 * 4 + unat c div 64) mod 4 * 64 + unat c mod 64 = unat c"
    by (simp only: pack unat_u8 div_mult_mod_eq)
  ultimately show ?thesis by (simp add: dec3_def del: of_nat_add of_nat_mult)
qed

lemma b64_groups_encode: "b64_groups (b64_encode bs) = Some bs"
proof (induction bs rule: b64_encode.induct)
  case (2 a)
  then show ?case using dec3_enc3 [of a 0 0] enc3_less [of a 0 0] by (simp add: enc3_def dec3_def)
next
  case (3 a b)
  then show ?case using dec3_enc3 [of a b 0] enc3_less [of a b 0] by (simp add: enc3_def dec3_def)
next
  case (4 a b c bs)
  then show ?case using dec3_enc3 [of a b c] enc3_less [of a b c] by (simp add: enc3_def)
qed simp

lemma b64_encode_plain: "CHR 0x0D \<notin> set (b64_encode bs) \<and> NL \<notin> set (b64_encode bs)"
proof (induction bs rule: b64_encode.induct)
  case (2 a)
  then show ?case using enc3_less [of a 0 0] by (simp add: enc3_def)
next
  case (3 a b)
  then show ?case using enc3_less [of a b 0] by (simp add: enc3_def)
next
  case (4 a b c bs)
  then show ?case using enc3_less [of a b c] by (simp add: enc3_def)
qed simp

lemma b64_roundtrip [simp]: "b64_decode (b64_encode bs) = Some bs"
proof -
  have "filter (\<lambda>c. c \<noteq> CHR 0x0D \<and> c \<noteq> NL) (b64_encode bs) = b64_encode bs"
    using b64_encode_plain [of bs] by (intro filter_True) auto
  then show ?thesis by (simp add: b64_decode_def b64_groups_encode)
qed

lemma hex_val_char [simp]: "n < 16 \<Longrightarrow> hex_val (hex_char n) = Some n"
  by (auto simp: hex_val_def hex_char_def is_digit_def Let_def)

lemma hex_roundtrip [simp]: "hex_decode (hex_encode bs) = Some bs"
proof (induction bs)
  case (Cons b bs)
  have "unat b div 16 * 16 + unat b mod 16 = unat b" by simp
  then have "(of_nat (unat b div 16 * 16 + unat b mod 16) :: u8) = b" by simp
  with Cons show ?case by (simp add: hex_encode_def)
qed (simp add: hex_encode_def)

lemma length_hex_encode [simp]: "length (hex_encode bs) = 2 * length bs"
  by (induction bs) (simp_all add: hex_encode_def)

lemma hex_encode_chars: "c \<in> set (hex_encode bs) \<Longrightarrow> \<exists>n<16. c = hex_char n"
proof (induction bs)
  case (Cons b bs)
  have d: "unat b div 16 < 16" "unat b mod 16 < 16" by simp_all
  from Cons show ?case by (simp add: hex_encode_def) (use d in blast)
qed (simp add: hex_encode_def)


section \<open>Generated keys\<close>

text \<open>The number a key stands for on the curve: its bytes in little-endian order.\<close>

fun le_val :: "u8 list \<Rightarrow> nat" where
  "le_val [] = 0"
| "le_val (b # bs) = unat b + 256 * le_val bs"

lemma le_val_append: "le_val (as @ bs) = le_val as + 256 ^ length as * le_val bs"
  by (induction as) (simp_all add: algebra_simps)

lemma le_val_less: "le_val bs < 256 ^ length bs"
proof (induction bs)
  case (Cons b bs)
  from pack_less [OF Cons, of "unat b" 256] show ?case by (simp add: ac_simps)
qed simp

lemma low_bits_clear: "8 dvd unat ((a::u8) AND 248)"
proof -
  have "take_bit 3 (unat (a AND 248)) = 0" by (simp add: unsigned_and_eq take_bit_and)
  then show ?thesis by (simp add: take_bit_eq_mod mod_eq_0_iff_dvd)
qed

lemma top_byte: "64 \<le> unat ((z::u8) AND 127 OR 64)" "unat ((z::u8) AND 127 OR 64) < 128"
proof -
  let ?x = "unat (z AND 127 OR 64)"
  have "bit ?x 6" by (simp add: unsigned_or_eq bit_or_iff) (simp add: bit_iff_odd)
  moreover have "\<not> bit ?x 6" if "?x < 64"
    using bit_take_bit_iff [of 6 ?x 6] take_bit_nat_eq_self [of ?x 6] that by simp
  ultimately show "64 \<le> ?x" by (cases "?x < 64") auto
  have "unat z AND 127 = take_bit 7 (unat z)" by (simp add: take_bit_eq_mask mask_eq_exp_minus_1)
  then have "?x = take_bit 7 (unat z) OR 64" by (simp add: unsigned_or_eq unsigned_and_eq)
  moreover have "take_bit 7 (64::nat) = 64" by (simp add: take_bit_eq_mod)
  ultimately have "take_bit 7 ?x = ?x" by (simp add: take_bit_or)
  then show "?x < 128" using take_bit_nat_less_exp [of 7 ?x] by simp
qed

lemma clamp_bytes: "length bs = 32 \<Longrightarrow> \<exists>a mid z. bs = a # mid @ [z] \<and> length mid = 30 \<and>
    clamp bs = (a AND 248) # mid @ [z AND 127 OR 64]"
proof -
  assume l: "length bs = 32"
  then obtain a rest where bs: "bs = a # rest" "length rest = 31" by (cases bs) auto
  then obtain mid z where r: "rest = mid @ [z]" by (cases rest rule: rev_cases) auto
  with bs have m: "length mid = 30" by simp
  have n: "31 = Suc (length mid)" using m by simp
  have "clamp bs = (a AND 248) # mid @ [z AND 127 OR 64]"
    unfolding clamp_def Let_def bs(1) r n by (simp add: nth_append)
  with bs r m show ?thesis by blast
qed

lemma clamp_scalar:
  assumes "length bs = 32"
  shows "length (clamp bs) = 32 \<and> 8 dvd le_val (clamp bs) \<and> 2 ^ 254 \<le> le_val (clamp bs) \<and> le_val (clamp bs) < 2 ^ 255"
proof -
  from clamp_bytes [OF assms] obtain a mid z where m: "length mid = 30" and c: "clamp bs = (a AND 248) # mid @ [z AND 127 OR 64]" by blast
  let ?x = "unat (z AND 127 OR 64)" and ?a = "unat (a AND 248)"
  have v: "le_val (clamp bs) = ?a + 256 * (le_val mid + 256 ^ 30 * ?x)" using m by (simp add: c le_val_append)
  have "8 dvd le_val (clamp bs)" unfolding v by (intro dvd_add low_bits_clear dvd_mult2) simp
  moreover have "(256::nat) ^ 30 * 64 \<le> 256 ^ 30 * ?x" "256 ^ 30 * ?x \<le> 256 ^ 30 * (127::nat)"
    using top_byte [of z] by (intro mult_le_mono2; simp)+
  moreover have "le_val mid * 256 + ?a < 256 ^ 30 * 256"
    using le_val_less [of mid] m by (intro pack_less) simp_all
  ultimately show ?thesis using m unfolding v by (intro conjI) (simp_all add: c)
qed

text \<open>
  A generated key pair is well formed: both texts decode to 32 bytes and are accepted by the
  device configuration, the public key is the curve's multiple of the private one, and the private
  scalar is a multiple of 8 between \<open>2 ^ 254\<close> and \<open>2 ^ 255\<close>, as X25519 requires.
\<close>

theorem GenerateKeyPair_keys:
  assumes "GenerateKeyPair (Inr rnd) base_mult = Inr (priv, pub)" "length rnd = 32" "length (base_mult (clamp rnd)) = 32"
  shows "\<exists>k. b64_decode priv = Some k \<and> keyToHex priv = Inr (hex_encode k) \<and>
     b64_decode pub = Some (base_mult k) \<and> keyToHex pub = Inr (hex_encode (base_mult k)) \<and>
     8 dvd le_val k \<and> 2 ^ 254 \<le> le_val k \<and> le_val k < 2 ^ 255"
proof -
  from assms(1) have p: "priv = b64_encode (clamp rnd)" "pub = b64_encode (base_mult (clamp rnd))"
    by (auto simp: GenerateKeyPair_def Let_def)
  show ?thesis using clamp_scalar [OF assms(2)] assms(3)
    by (intro exI [of _ "clamp rnd"]) (simp add: p keyToHex_def)
qed

text \<open>
  A key the device accepts reads back: its 64 hexadecimal digits convert to the canonical base64
  text of the same 32 bytes, which converts to the same digits again.
\<close>

theorem key_roundtrip:
  assumes "keyToHex b64 = Inr h"
  shows "\<exists>raw. b64_decode b64 = Some raw \<and> length h = 64 \<and> hexKeyToBase64 h = Inr (b64_encode raw) \<and>
     keyToHex (b64_encode raw) = Inr h"
  using assms by (auto simp: keyToHex_def hexKeyToBase64_def split: option.splits if_splits)

section \<open>Examples\<close>

theorem GenerateKeyPair_keys_witness:
  "\<exists>k. GenerateKeyPair (Inr (replicate 32 0)) rev = Inr (b64_encode k, b64_encode (rev k)) \<and>
     8 dvd le_val k \<and> 2 ^ 254 \<le> le_val k \<and> le_val k < 2 ^ 255"
proof -
  have "length (clamp (replicate 32 0)) = 32" by (rule conjunct1 [OF clamp_scalar]) simp
  moreover have g: "GenerateKeyPair (Inr (replicate 32 0)) rev = Inr (b64_encode (clamp (replicate 32 0)), b64_encode (rev (clamp (replicate 32 0))))"
    by (simp add: GenerateKeyPair_def Let_def)
  ultimately show ?thesis using GenerateKeyPair_keys [OF g] by auto
qed

theorem key_roundtrip_witness:
  "\<exists>h. keyToHex (b64_encode (replicate 32 255)) = Inr h \<and> length h = 64 \<and> hexKeyToBase64 h = Inr (b64_encode (replicate 32 255))"
proof -
  have "keyToHex (b64_encode (replicate 32 255)) = Inr (hex_encode (replicate 32 255))" by (simp add: keyToHex_def)
  from key_roundtrip [OF this] this show ?thesis by auto
qed

end
