(* ===== verification/Tunnel.thy ===== *)
theory Tunnel
  imports Keys Net Ingress Map_Proxy Policy_Apply Service_Base
begin

text \<open>
  Package \<^verbatim>\<open>vpn/tunnel\<close> (\<^verbatim>\<open>manager.go\<close>, \<^verbatim>\<open>tun_once.go\<close>): the owner of the WireGuard device, its
  network stack and the filtering TUN.  The device is driven through its configuration protocol, a
  text per call; which texts were sent, and that a call may fail, is in the log of calls.
\<close>

section \<open>The manager\<close>

record Manager =
  tm_filterTUN :: TUN
  tm_hubIP :: addr
  tm_listenPort :: int
  tm_closed :: bool

definition uniqueAddrs :: "addr list \<Rightarrow> addr list" where
  "uniqueAddrs addrs = rev (fold (\<lambda>a out. if \<not> is_valid a then out else if a \<in> set out then out else a # out) addrs [])"

definition NewManager :: "net \<Rightarrow> string \<Rightarrow> string \<Rightarrow> addr list \<Rightarrow> int \<Rightarrow> int \<Rightarrow> (calls, Manager) act" where
  "NewManager net hubIP dnsIP mapVIPAddrs listenPort mtu = (case ParseAddr hubIP of
       None \<Rightarrow> fail (Wrap ''parse hub ip: '' (Errorf hubIP))
     | Some hub \<Rightarrow> (case ParseAddr dnsIP of
         None \<Rightarrow> fail (Wrap ''parse dns ip: '' (Errorf dnsIP))
       | Some dns \<Rightarrow>
           andthen (attempt (call net (CreateNetTUN (uniqueAddrs (hub # dns # mapVIPAddrs)) dns mtu))) (\<lambda>r. case r of
             Inl e \<Rightarrow> fail (Wrap ''create netstack tun: '' e)
           | Inr _ \<Rightarrow> ret \<lparr>tm_filterTUN = NewTUN hub, tm_hubIP = hub, tm_listenPort = listenPort, tm_closed = False\<rparr>)))"

definition tm_SetAccessPolicy :: "AccessPolicy \<Rightarrow> Manager \<Rightarrow> Manager" where
  "tm_SetAccessPolicy p m = m\<lparr>tm_filterTUN := SetAccessPolicy (tm_filterTUN m) (Some p)\<rparr>"

definition tm_ReserveHubPorts :: "int list \<Rightarrow> Manager \<Rightarrow> Manager" where
  "tm_ReserveHubPorts ports m = m\<lparr>tm_filterTUN := tun_ReserveHubPorts (tm_filterTUN m) ports\<rparr>"

definition EnsureMapVIPs :: "net \<Rightarrow> addr list \<Rightarrow> (calls, unit) act" where
  "EnsureMapVIPs net addrs = (if addrs = [] then ret ()
     else andthen (call net StackFromNet) (\<lambda>_. EnsureStackMapAddresses net addrs))"

definition tm_SetMapVIPs :: "addr list \<Rightarrow> Manager \<Rightarrow> Manager" where
  "tm_SetMapVIPs addrs m = m\<lparr>tm_filterTUN := SetMapVIPs (tm_filterTUN m) addrs\<rparr>"

definition server_cfg :: "string \<Rightarrow> int \<Rightarrow> string" where
  "server_cfg privHex listenPort = ''private_key='' @ privHex @ [NL] @ ''listen_port='' @ itoa_int listenPort @ [NL]"

definition ConfigureServer :: "net \<Rightarrow> string \<Rightarrow> int \<Rightarrow> Manager \<Rightarrow> (calls, Manager) act" where
  "ConfigureServer net privateKey listenPort m =
     andthen (lift_res (keyToHex privateKey)) (\<lambda>privHex.
     andthen (call net (IpcSet (server_cfg privHex listenPort))) (\<lambda>_. ret (m\<lparr>tm_listenPort := listenPort\<rparr>)))"

definition tm_Up :: "net \<Rightarrow> (calls, unit) act" where
  "tm_Up net = call net DeviceUp"

definition tm_Down :: "net \<Rightarrow> (calls, unit) act" where
  "tm_Down net = call net DeviceDown"

definition tm_Close :: "net \<Rightarrow> Manager \<Rightarrow> calls \<Rightarrow> calls \<times> Manager" where
  "tm_Close net m log = (if tm_closed m then (log, m)
     else (call_ignored net DeviceClose log, m\<lparr>tm_closed := True\<rparr>))"

section \<open>Peers of the device\<close>

definition peer_cfg :: "string \<Rightarrow> string \<Rightarrow> string" where
  "peer_cfg pubHex wgIP = ''public_key='' @ pubHex @ [NL] @ ''allowed_ip='' @ wgIP @ ''/32'' @ [NL]"

definition remove_cfg :: "string \<Rightarrow> string" where
  "remove_cfg pubHex = ''public_key='' @ pubHex @ [NL] @ ''remove=true'' @ [NL]"

definition removePeerLocked :: "net \<Rightarrow> string \<Rightarrow> (calls, unit) act" where
  "removePeerLocked net publicKey =
     andthen (lift_res (keyToHex publicKey)) (\<lambda>pubHex. call net (IpcSet (remove_cfg pubHex)))"

definition tm_SyncPeer :: "net \<Rightarrow> WGPeer \<Rightarrow> (calls, unit) act" where
  "tm_SyncPeer net peer =
     (if \<not> wp_Enabled peer then removePeerLocked net (wp_PublicKey peer)
      else andthen (lift_res (keyToHex (wp_PublicKey peer))) (\<lambda>pubHex. call net (IpcSet (peer_cfg pubHex (wp_WGIP peer)))))"

definition SyncAll :: "net \<Rightarrow> WGPeer list \<Rightarrow> (calls, unit) act" where
  "SyncAll net peers = for_each peers (tm_SyncPeer net)"

section \<open>Status of the device\<close>

text \<open>
  \<^verbatim>\<open>fmt.Sscan\<close> of an \<^verbatim>\<open>int64\<close>: leading blanks, a sign, an optional base prefix, then digits and
  separating underscores of that base; what follows is not read.  \<open>None\<close> is an error, which leaves 0.
\<close>

fun underscores_ok :: "bool \<Rightarrow> string \<Rightarrow> bool" where
  "underscores_ok after_digit [] = True"
| "underscores_ok after_digit (c # s) =
     (if c = CHR ''_'' then after_digit \<and> s \<noteq> [] \<and> underscores_ok False s else underscores_ok True s)"

definition digits_of :: "nat \<Rightarrow> string \<Rightarrow> string" where
  "digits_of base s = takeWhile (\<lambda>c. c = CHR ''_'' \<or> (case hex_val c of None \<Rightarrow> False | Some d \<Rightarrow> d < base)) s"

definition base_val :: "nat \<Rightarrow> string \<Rightarrow> nat" where
  "base_val base s = foldl (\<lambda>n c. base * n + the (hex_val c)) 0 (filter (\<lambda>c. c \<noteq> CHR ''_'') s)"

definition prefix_base :: "char \<Rightarrow> nat option" where
  "prefix_base c = (if c = CHR ''b'' \<or> c = CHR ''B'' then Some 2 else if c = CHR ''o'' \<or> c = CHR ''O'' then Some 8
     else if c = CHR ''x'' \<or> c = CHR ''X'' then Some 16 else None)"

definition scan_magnitude :: "string \<Rightarrow> nat option" where
  "scan_magnitude s = (case s of
       c # t \<Rightarrow>
         if c = CHR ''0'' then
           (case (case t of [] \<Rightarrow> None | d # u \<Rightarrow> map_option (\<lambda>b. (b, digits_of b u)) (prefix_base d)) of
              Some (b, ds) \<Rightarrow> if ds = [] \<or> \<not> underscores_ok True ds then None else Some (base_val b ds)
            | None \<Rightarrow> let ds = c # digits_of 8 t in if underscores_ok False ds then Some (base_val 8 ds) else None)
         else let ds = digits_of 10 s in if ds = [] \<or> \<not> underscores_ok False ds then None else Some (base_val 10 ds)
     | [] \<Rightarrow> None)"

definition parseInt64 :: "string \<Rightarrow> int option" where
  "parseInt64 s = (case dropWhile is_space s of
       [] \<Rightarrow> None
     | c # t \<Rightarrow>
         if c = CHR ''-'' then (case scan_magnitude t of None \<Rightarrow> None | Some n \<Rightarrow> if n \<le> 2 ^ 63 then Some (- int n) else None)
         else (case scan_magnitude (if c = CHR ''+'' then t else c # t) of
             None \<Rightarrow> None | Some n \<Rightarrow> if n < 2 ^ 63 then Some (int n) else None))"

record IPCAcc =
  ia_result :: "(string, PeerStats) gomap"
  ia_currentKey :: string
  ia_stats :: PeerStats

definition zero_stats :: "string \<Rightarrow> PeerStats" where
  "zero_stats key = \<lparr>ps_PublicKey = key, ps_LastHandshake = None, ps_RxBytes = 0, ps_TxBytes = 0\<rparr>"

definition ipc_flush :: "IPCAcc \<Rightarrow> (string, PeerStats) gomap" where
  "ipc_flush a = (if ia_currentKey a \<noteq> [] then mput (ia_currentKey a) (ia_stats a) (ia_result a) else ia_result a)"

definition ipc_field :: "string \<Rightarrow> string \<Rightarrow> IPCAcc \<Rightarrow> IPCAcc" where
  "ipc_field k v a =
     (if k = ''public_key'' then
        (let key = (case hexKeyToBase64 v of Inl _ \<Rightarrow> v | Inr b64 \<Rightarrow> b64)
         in \<lparr>ia_result = ipc_flush a, ia_currentKey = key, ia_stats = zero_stats key\<rparr>)
      else if k = ''last_handshake_time_sec'' then
        (case parseInt64 v of None \<Rightarrow> a
         | Some sec \<Rightarrow> if sec > 0 then a\<lparr>ia_stats := (ia_stats a)\<lparr>ps_LastHandshake := Some sec\<rparr>\<rparr> else a)
      else if k = ''rx_bytes'' then
        a\<lparr>ia_stats := (ia_stats a)\<lparr>ps_RxBytes := (case parseInt64 v of None \<Rightarrow> 0 | Some n \<Rightarrow> n)\<rparr>\<rparr>
      else if k = ''tx_bytes'' then
        a\<lparr>ia_stats := (ia_stats a)\<lparr>ps_TxBytes := (case parseInt64 v of None \<Rightarrow> 0 | Some n \<Rightarrow> n)\<rparr>\<rparr>
      else a)"

definition ipc_line :: "string \<Rightarrow> IPCAcc \<Rightarrow> IPCAcc" where
  "ipc_line line a = (let line = trim_space line in
     if line = [] then a else case cut_at (CHR ''='') line of None \<Rightarrow> a | Some (k, v) \<Rightarrow> ipc_field k v a)"

definition parseIPCStatus :: "string \<Rightarrow> (string, PeerStats) gomap" where
  "parseIPCStatus status =
     ipc_flush (fold ipc_line (split_on NL status) \<lparr>ia_result = [], ia_currentKey = [], ia_stats = zero_stats []\<rparr>)"

text \<open>\<open>status\<close> is the answer of the device.\<close>

definition tm_GetStats :: "err + string \<Rightarrow> err + (string, PeerStats) gomap" where
  "tm_GetStats status = res_bind status (\<lambda>s. Inr (parseIPCStatus s))"

end
