(* ===== verification/Stack.thy ===== *)
theory Stack
  imports Tunnel
begin

text \<open>
  Package \<^verbatim>\<open>vpn/runtime\<close> (\<^verbatim>\<open>stack.go\<close>, \<^verbatim>\<open>convert.go\<close>), with \<^verbatim>\<open>netstack/forwarding.go\<close> and the listeners
  of \<^verbatim>\<open>dns/server.go\<close> and \<^verbatim>\<open>ingress/web.go\<close>: the data plane as one unit.  The stack owns the tunnel, the
  DNS server, the web server and the two ingress proxies, brings them up and down together and loads
  them with snapshots.  Every section that runs under the stack's lock is one definition; where the
  code gives the lock up in between, so do the definitions.
\<close>

section \<open>Snapshots for the proxies (\<^verbatim>\<open>convert.go\<close>)\<close>

definition ingressForwardRules :: "ForwardRule list \<Rightarrow> IngressForward list" where
  "ingressForwardRules rules = map (\<lambda>r. \<lparr>if_ID = fr_ID r, if_ListenPort = fr_ListenPort r, if_Protocol = fr_Protocol r,
     if_TargetHost = fr_TargetHost r, if_TargetPort = fr_TargetPort r\<rparr>) rules"

definition ingressMapRules :: "MapRule list \<Rightarrow> IngressMap list" where
  "ingressMapRules rules = List.map_filter (\<lambda>r. case ParseAddr (mr_VirtualIP r) of None \<Rightarrow> None
     | Some vip \<Rightarrow> Some \<lparr>im_ID = mr_ID r, im_Slug = mr_Slug r, im_TargetHost = mr_TargetHost r, im_VirtualIP = vip,
         im_AllowedGroupIDs = mr_AllowedGroupIDs r\<rparr>) rules"

definition parseMapVIPs :: "MapRule list \<Rightarrow> addr list" where
  "parseMapVIPs rules = List.map_filter (\<lambda>r. case ParseAddr (mr_VirtualIP r) of None \<Rightarrow> None
     | Some vip \<Rightarrow> if is_valid vip then Some vip else None) rules"

section \<open>Parts\<close>

definition EnableForwarding :: "net \<Rightarrow> (calls, unit) act" where
  "EnableForwarding net =
     andthen (call net StackFromNet) (\<lambda>_.
     andthen (attempt (call net (SetForwarding 4))) (\<lambda>r. case r of
       Inl e \<Rightarrow> fail (Wrap ''enable ipv4 forwarding: '' e)
     | Inr _ \<Rightarrow> andthen (attempt (call net (SetForwarding 6))) (\<lambda>r. case r of
         Inl e \<Rightarrow> fail (Wrap ''enable ipv6 forwarding: '' e)
       | Inr _ \<Rightarrow> ret ())))"

definition dns_listenUDP :: "net \<Rightarrow> string \<Rightarrow> int \<Rightarrow> (calls, unit) act" where
  "dns_listenUDP net dnsIP port = (case ParseAddr dnsIP of
       None \<Rightarrow> fail (Wrap ''parse dns ip: '' (Errorf dnsIP))
     | Some a \<Rightarrow> andthen (attempt (call net (ListenUDP a (port mod 65536)))) (\<lambda>r. case r of
         Inl e \<Rightarrow> fail (Wrap (''listen udp on netstack '' @ dnsIP @ '':'' @ itoa_int port @ '': '') e)
       | Inr _ \<Rightarrow> ret ()))"

text \<open>Stopping a DNS server that serves closes its socket; one that does not serve yet is in theory \<open>Dns_Server\<close>.\<close>

definition dns_Stop :: "net \<Rightarrow> DnsServer \<Rightarrow> calls \<Rightarrow> calls" where
  "dns_Stop net d log = (case ParseAddr (dn_DnsIP d) of None \<Rightarrow> log
     | Some a \<Rightarrow> call_ignored net (CloseUDP a (HubDNSPort mod 65536)) log)"

definition StartWebServer :: "net \<Rightarrow> string \<Rightarrow> int \<Rightarrow> (calls, addr) act" where
  "StartWebServer net hubIP port = (case ParseAddr hubIP of
       None \<Rightarrow> fail (Wrap ''parse hub ip: '' (Errorf hubIP))
     | Some a \<Rightarrow> andthen (attempt (call net (ListenTCP a (port mod 65536)))) (\<lambda>r. case r of
         Inl e \<Rightarrow> fail (Wrap (''listen '' @ hubIP @ '':'' @ itoa_int port @ '' on netstack: '') e)
       | Inr _ \<Rightarrow> ret a))"

text \<open>Shutting the web server down closes its listener.\<close>

definition web_Shutdown :: "net \<Rightarrow> addr \<Rightarrow> calls \<Rightarrow> calls" where
  "web_Shutdown net a log = call_ignored net (CloseTCP a (HubTunnelWebPort mod 65536)) log"

section \<open>The stack\<close>

text \<open>\<open>st_tunnelSrv\<close>: the address the web server listens on.\<close>

record Stack =
  st_generation :: nat
  st_stopping :: bool
  st_Port :: int
  st_tunnelMgr :: "Manager option"
  st_dnsServer :: "DnsServer option"
  st_tunnelSrv :: "addr option"
  st_forwardProxy :: "ForwardProxy option"
  st_mapProxy :: "MapProxy option"
  st_startBundle :: "SyncBundle option"

type_synonym rt = "calls \<times> Stack"

definition NewStack :: "int \<Rightarrow> Stack" where
  "NewStack port = \<lparr>st_generation = 0, st_stopping = False, st_Port = port, st_tunnelMgr = None, st_dnsServer = None,
     st_tunnelSrv = None, st_forwardProxy = None, st_mapProxy = None, st_startBundle = None\<rparr>"

definition Running :: "Stack \<Rightarrow> bool" where
  "Running s = (st_tunnelMgr s \<noteq> None)"

text \<open>Programs on the log alone, and changes of the stack's fields.\<close>

definition net_act :: "(calls, 'a) act \<Rightarrow> (rt, 'a) act" where
  "net_act m = (\<lambda>(log, s). case m log of (r, log) \<Rightarrow> (r, (log, s)))"

definition modify :: "(Stack \<Rightarrow> Stack) \<Rightarrow> (rt, unit) act" where
  "modify f = (\<lambda>(log, s). (Inr (), (log, f s)))"

definition on_tunnel :: "(Manager \<Rightarrow> Manager) \<Rightarrow> (rt, unit) act" where
  "on_tunnel f = modify (\<lambda>s. s\<lparr>st_tunnelMgr := map_option f (st_tunnelMgr s)\<rparr>)"

definition wrapped :: "string \<Rightarrow> ('s, 'a) act \<Rightarrow> ('s, 'a) act" where
  "wrapped msg m = andthen (attempt m) (\<lambda>r. case r of Inl e \<Rightarrow> fail (Wrap msg e) | Inr x \<Rightarrow> ret x)"

section \<open>Loading ingress rules\<close>

definition ensure_forwardProxy :: "SyncBundle \<Rightarrow> (rt, unit) act" where
  "ensure_forwardProxy bundle = (\<lambda>(log, s).
     if st_forwardProxy s \<noteq> None then (Inr (), (log, s))
     else case NewForwardProxy (ns_HubIP (sb_Settings bundle)) (ns_WGSubnet (sb_Settings bundle)) of
       Inl e \<Rightarrow> (Inl (Wrap ''forward proxy: '' e), (log, s))
     | Inr m \<Rightarrow> (Inr (), (log, s\<lparr>st_forwardProxy := Some m\<rparr>)))"

definition ensure_mapProxy :: "SyncBundle \<Rightarrow> (rt, unit) act" where
  "ensure_mapProxy bundle = (\<lambda>(log, s).
     if st_mapProxy s \<noteq> None then (Inr (), (log, s))
     else case NewMapProxy (ns_WGSubnet (sb_Settings bundle)) of
       Inl e \<Rightarrow> (Inl (Wrap ''map proxy: '' e), (log, s))
     | Inr m \<Rightarrow> (Inr (), (log, s\<lparr>st_mapProxy := Some m\<rparr>)))"

definition apply_forwards :: "net \<Rightarrow> IngressForward list \<Rightarrow> (rt, unit) act" where
  "apply_forwards net fwd = (\<lambda>(log, s). case st_forwardProxy s of
       None \<Rightarrow> (Inr (), (log, s))
     | Some m \<Rightarrow> (case fp_Apply net fwd (log, m) of (r, (log, m)) \<Rightarrow> (r, (log, s\<lparr>st_forwardProxy := Some m\<rparr>))))"

definition apply_maps :: "net \<Rightarrow> IngressMap list \<Rightarrow> WGPeer list \<Rightarrow> (rt, unit) act" where
  "apply_maps net rules peers = (\<lambda>(log, s). case st_mapProxy s of
       None \<Rightarrow> (Inr (), (log, s))
     | Some m \<Rightarrow> (case mp_Apply net rules peers (log, m) of (r, (log, m)) \<Rightarrow> (r, (log, s\<lparr>st_mapProxy := Some m\<rparr>))))"

definition applyIngressLocked :: "net \<Rightarrow> SyncBundle \<Rightarrow> (rt, unit) act" where
  "applyIngressLocked net bundle =
     andthen (ensure_forwardProxy bundle) (\<lambda>_.
     andthen (ensure_mapProxy bundle) (\<lambda>_.
     let fwd = ingressForwardRules (sb_Forwards bundle) in
     andthen (on_tunnel (tm_ReserveHubPorts (ReservedHubPorts HubTunnelWebPort fwd))) (\<lambda>_.
     andthen (wrapped ''port forwards: '' (apply_forwards net fwd)) (\<lambda>_.
     andthen (wrapped ''map vips: '' (net_act (EnsureMapVIPs net (parseMapVIPs (sb_Maps bundle))))) (\<lambda>_.
     andthen (on_tunnel (tm_SetMapVIPs (parseMapVIPs (sb_Maps bundle)))) (\<lambda>_.
     wrapped ''maps: '' (apply_maps net (ingressMapRules (sb_Maps bundle)) (sb_Peers bundle))))))))"

section \<open>Starting\<close>

text \<open>The steps that follow the creation of the device; on failure \<^verbatim>\<open>Start\<close> closes the device.\<close>

definition bring_up :: "net \<Rightarrow> int \<Rightarrow> SyncBundle \<Rightarrow> Manager \<Rightarrow> (calls, Manager \<times> DnsServer \<times> addr) act" where
  "bring_up net port bundle m =
     andthen (wrapped ''configure wireguard: '' (ConfigureServer net (ns_ServerPrivateKey (sb_Settings bundle)) port m)) (\<lambda>m.
     andthen (wrapped ''wireguard up: '' (tm_Up net)) (\<lambda>_.
     andthen (wrapped ''sync peers: '' (SyncAll net (sb_Peers bundle))) (\<lambda>_.
     andthen (wrapped ''netstack forwarding: '' (EnableForwarding net)) (\<lambda>_.
     let dns = UpdateDNS (sb_DNS bundle) (sb_Peers bundle) (NewServer (ns_DNSIP (sb_Settings bundle)) (ns_UpstreamDNS (sb_Settings bundle))) in
     andthen (wrapped ''dns server: '' (dns_listenUDP net (ns_DNSIP (sb_Settings bundle)) HubDNSPort)) (\<lambda>_.
     andthen (attempt (StartWebServer net (ns_HubIP (sb_Settings bundle)) HubTunnelWebPort)) (\<lambda>r. case r of
         Inl e \<Rightarrow> (\<lambda>log. (Inl (Wrap ''tunnel web: '' e), dns_Stop net dns log))
       | Inr web \<Rightarrow> ret (m, dns, web)))))))"

definition start_parts :: "net \<Rightarrow> int \<Rightarrow> SyncBundle \<Rightarrow> (calls, Manager \<times> DnsServer \<times> addr) act" where
  "start_parts net port bundle =
     andthen (wrapped ''wireguard: '' (NewManager net (ns_HubIP (sb_Settings bundle)) (ns_DNSIP (sb_Settings bundle))
       (parseMapVIPs (sb_Maps bundle)) port (ns_MTU (sb_Settings bundle)))) (\<lambda>m log.
     case bring_up net port bundle m log of
       (Inl e, log) \<Rightarrow> (Inl e, fst (tm_Close net m log))
     | (Inr parts, log) \<Rightarrow> (Inr parts, log))"

definition stop_proxies :: "net \<Rightarrow> rt \<Rightarrow> rt" where
  "stop_proxies net = (\<lambda>(log, s).
     let log = (case st_forwardProxy s of None \<Rightarrow> log | Some m \<Rightarrow> fst (fp_Stop net (log, m)))
     in (log, s\<lparr>st_forwardProxy := None, st_mapProxy := None\<rparr>))"

definition close_tunnel :: "net \<Rightarrow> rt \<Rightarrow> rt" where
  "close_tunnel net = (\<lambda>(log, s). case st_tunnelMgr s of
       None \<Rightarrow> (log, s)
     | Some m \<Rightarrow> (fst (tm_Close net m log), s\<lparr>st_tunnelMgr := None\<rparr>))"

definition rollbackStart :: "net \<Rightarrow> DnsServer \<Rightarrow> addr \<Rightarrow> rt \<Rightarrow> rt" where
  "rollbackStart net dns web = (\<lambda>(log, s).
     let (log, s) = stop_proxies net (web_Shutdown net web (dns_Stop net dns log), s);
         (log, s) = close_tunnel net (log, s)
     in (log, s\<lparr>st_dnsServer := None, st_tunnelSrv := None\<rparr>))"

text \<open>The locked part of \<^verbatim>\<open>Start\<close>: the generation it started, or \<open>None\<close> when the stack runs already.\<close>

definition start_locked :: "net \<Rightarrow> SyncBundle \<Rightarrow> (rt, nat option) act" where
  "start_locked net bundle = (\<lambda>(log, s).
     if st_tunnelMgr s \<noteq> None then (Inr None, (log, s))
     else case start_parts net (st_Port s) bundle log of
       (Inl e, log) \<Rightarrow> (Inl e, (log, s))
     | (Inr (m, dns, web), log) \<Rightarrow>
         let s = s\<lparr>st_tunnelMgr := Some m, st_generation := st_generation s + 1, st_dnsServer := Some dns,
                   st_tunnelSrv := Some web, st_startBundle := Some bundle\<rparr>
         in (case applyIngressLocked net bundle (log, s) of
             (Inl e, (log, s)) \<Rightarrow> (Inl e, rollbackStart net dns web (log, s))
           | (Inr _, (log, s)) \<Rightarrow>
               (case on_tunnel (tm_SetAccessPolicy (Apply (sb_Policy bundle))) (log, s) of
                  (_, (log, s)) \<Rightarrow> (Inr (Some (st_generation s)), (log, s)))))"

text \<open>The second part: is the start still the current one?  Then the service is told.\<close>

definition start_valid :: "nat \<Rightarrow> Stack \<Rightarrow> bool" where
  "start_valid generation s = (st_tunnelMgr s \<noteq> None \<and> st_generation s = generation \<and> \<not> st_stopping s)"

text \<open>\<^verbatim>\<open>Start\<close> with nothing in between; the result says whether \<^verbatim>\<open>OnStarted\<close> was called.\<close>

definition stack_Start :: "net \<Rightarrow> SyncBundle \<Rightarrow> (rt, bool) act" where
  "stack_Start net bundle = andthen (start_locked net bundle) (\<lambda>g (log, s).
     (Inr (case g of None \<Rightarrow> False | Some generation \<Rightarrow> start_valid generation s), (log, s)))"

section \<open>Synchronising\<close>

definition stack_FullSync :: "net \<Rightarrow> SyncBundle \<Rightarrow> (rt, unit) act" where
  "stack_FullSync net bundle = (\<lambda>(log, s).
     if st_tunnelMgr s = None then (Inr (), (log, s))
     else (andthen (modify (\<lambda>s. s\<lparr>st_dnsServer := map_option (UpdateDNS (sb_DNS bundle) (sb_Peers bundle)) (st_dnsServer s)\<rparr>)) (\<lambda>_.
       andthen (net_act (SyncAll net (sb_Peers bundle))) (\<lambda>_.
       andthen (applyIngressLocked net bundle) (\<lambda>_.
       on_tunnel (tm_SetAccessPolicy (Apply (sb_Policy bundle))))))) (log, s))"

text \<open>\<open>loaded\<close> is the snapshot the service loads.\<close>

definition SyncMaps :: "net \<Rightarrow> err + SyncBundle \<Rightarrow> (rt, unit) act" where
  "SyncMaps net loaded = andthen (lift_res loaded) (stack_FullSync net)"

definition SyncPortForwards :: "net \<Rightarrow> err + SyncBundle \<Rightarrow> (rt, unit) act" where
  "SyncPortForwards net loaded = andthen (lift_res loaded) (\<lambda>bundle (log, s).
     if st_tunnelMgr s = None then (Inr (), (log, s))
     else let fwd = ingressForwardRules (sb_Forwards bundle) in
       andthen (on_tunnel (tm_ReserveHubPorts (ReservedHubPorts HubTunnelWebPort fwd))) (\<lambda>_. apply_forwards net fwd) (log, s))"

definition stack_SyncPeer :: "net \<Rightarrow> WGPeer \<Rightarrow> (rt, unit) act" where
  "stack_SyncPeer net peer = (\<lambda>(log, s). if st_tunnelMgr s = None then (Inr (), (log, s)) else net_act (tm_SyncPeer net peer) (log, s))"

definition stack_RemovePeer :: "net \<Rightarrow> string \<Rightarrow> (rt, unit) act" where
  "stack_RemovePeer net publicKey = (\<lambda>(log, s).
     if st_tunnelMgr s = None then (Inr (), (log, s)) else net_act (removePeerLocked net publicKey) (log, s))"

definition stack_ApplyPolicy :: "AccessPolicySpec \<Rightarrow> (rt, unit) act" where
  "stack_ApplyPolicy spec = (\<lambda>(log, s). if st_tunnelMgr s = None then (Inr (), (log, s))
     else on_tunnel (tm_SetAccessPolicy (Apply spec)) (log, s))"

definition stack_UpdateDNS :: "DNSCatalog \<Rightarrow> WGPeer list \<Rightarrow> (rt, unit) act" where
  "stack_UpdateDNS catalog peers = modify (\<lambda>s. s\<lparr>st_dnsServer := map_option (UpdateDNS catalog peers) (st_dnsServer s)\<rparr>)"

definition stack_SetDNSUpstream :: "string list \<Rightarrow> rt \<Rightarrow> rt" where
  "stack_SetDNSUpstream upstream = (\<lambda>(log, s). (log, s\<lparr>st_dnsServer := map_option (SetUpstream upstream) (st_dnsServer s)\<rparr>))"

text \<open>\<open>status\<close> is what the device answers after the calls made so far.\<close>

definition stack_GetStats :: "(calls \<Rightarrow> err + string) \<Rightarrow> (rt, (string, PeerStats) gomap option) act" where
  "stack_GetStats status = (\<lambda>(log, s).
     (if st_tunnelMgr s = None then Inr None else map_sum (\<lambda>e. e) Some (tm_GetStats (status log)), (log, s)))"

section \<open>Stopping\<close>

text \<open>The three sections of \<^verbatim>\<open>Stop\<close>: announce it, tell the service, take everything down.\<close>

definition stop_begin :: "Stack \<Rightarrow> Stack option" where
  "stop_begin s = (if st_tunnelMgr s = None \<or> st_stopping s then None
     else Some (s\<lparr>st_stopping := True, st_generation := st_generation s + 1\<rparr>))"

definition stop_finish :: "net \<Rightarrow> rt \<Rightarrow> rt" where
  "stop_finish net = (\<lambda>(log, s).
     let log = (if st_tunnelMgr s = None then log else call_ignored net DeviceDown log);
         log = (case st_dnsServer s of None \<Rightarrow> log | Some d \<Rightarrow> dns_Stop net d log);
         log = (case st_tunnelSrv s of None \<Rightarrow> log | Some a \<Rightarrow> web_Shutdown net a log);
         (log, s) = stop_proxies net (log, s\<lparr>st_dnsServer := None, st_tunnelSrv := None\<rparr>);
         (log, s) = close_tunnel net (log, s)
     in (log, s\<lparr>st_stopping := False\<rparr>))"

definition stack_Stop :: "net \<Rightarrow> (rt, bool) act" where
  "stack_Stop net = (\<lambda>(log, s). case stop_begin s of None \<Rightarrow> (Inr False, (log, s))
     | Some s \<Rightarrow> (Inr True, stop_finish net (log, s)))"

definition ReloadSettings :: "net \<Rightarrow> err + SyncBundle \<Rightarrow> (rt, bool) act" where
  "ReloadSettings net loaded = (\<lambda>(log, s). if st_tunnelMgr s = None then (Inr False, (log, s))
     else andthen (lift_res loaded) (\<lambda>bundle. andthen (stack_Stop net) (\<lambda>_. stack_Start net bundle)) (log, s))"

section \<open>The stack as the service's data plane\<close>

definition stack_ops :: "net \<Rightarrow> (calls \<Rightarrow> err + string) \<Rightarrow> rt net_ops" where
  "stack_ops net status = \<lparr>op_Start = stack_Start net, op_Stop = stack_Stop net, op_SetDNSUpstream = stack_SetDNSUpstream,
     op_ApplyPolicy = stack_ApplyPolicy, op_FullSync = stack_FullSync net, op_GetStats = stack_GetStats status\<rparr>"

end
