(* ===== verification/Tunnel_Props.thy ===== *)
theory Tunnel_Props
  imports Tunnel Map_Proxy_Props
begin

text \<open>
  What the manager tells the device about its peers, and what it reads from the device's status.
\<close>

section \<open>Synchronising peers\<close>

definition peer_call :: "WGPeer \<Rightarrow> netcall" where
  "peer_call p = (case keyToHex (wp_PublicKey p) of
       Inl _ \<Rightarrow> IpcSet []
     | Inr hex \<Rightarrow> IpcSet (if wp_Enabled p then peer_cfg hex (wp_WGIP p) else remove_cfg hex))"

lemma SyncPeer_cases:
  assumes "tm_SyncPeer net p log = (r, log')"
  obtains (key) e where "keyToHex (wp_PublicKey p) = Inl e" "r = Inl e" "log' = log"
  | (refused) hex e where "keyToHex (wp_PublicKey p) = Inr hex" "net log (peer_call p) = Some e" "r = Inl e"
      "log' = log @ [(peer_call p, Some e)]"
  | (ok) hex where "keyToHex (wp_PublicKey p) = Inr hex" "r = Inr ()" "log' = log @ [(peer_call p, None)]"
proof (cases "keyToHex (wp_PublicKey p)")
  case (Inl e)
  with assms key show ?thesis by (auto simp: tm_SyncPeer_def removePeerLocked_def andthen_def lift_res_def split: if_splits)
next
  case (Inr hex)
  then have "call net (peer_call p) log = (r, log')"
    using assms by (auto simp: tm_SyncPeer_def removePeerLocked_def andthen_def lift_res_def peer_call_def split: if_splits)
  with Inr ok refused show ?thesis by (auto simp: call_def split: option.splits)
qed

text \<open>
  Synchronising the peers sends, in order, one configuration per peer, which adds an enabled peer
  with its address and removes a disabled one, and nothing else; it stops at the first peer whose key
  is malformed or whose configuration the device refuses, and the peers before it stay configured.
\<close>

theorem SyncAll_outcome:
  assumes "SyncAll net peers log = (r, log')"
  shows "\<exists>n. done_calls log' = done_calls log @ map peer_call (take n peers) \<and>
     list_all (\<lambda>p. is_ok (keyToHex (wp_PublicKey p))) (take n peers) \<and>
     (case r of Inr _ \<Rightarrow> n = length peers
      | Inl e \<Rightarrow> n < length peers \<and>
         (keyToHex (wp_PublicKey (peers ! n)) = Inl e \<or> (\<exists>log. net log (peer_call (peers ! n)) = Some e)))"
  using assms unfolding SyncAll_def
proof (induction peers arbitrary: log)
  case Nil
  then show ?case by (auto simp: ret_def)
next
  case (Cons p ps)
  from Cons.prems have "andthen (tm_SyncPeer net p) (\<lambda>_. for_each ps (tm_SyncPeer net)) log = (r, log')" by simp
  then show ?case
  proof (cases rule: andthen_cases)
    case (err e)
    from err(1) show ?thesis
    proof (cases rule: SyncPeer_cases)
      case (refused hex e')
      with err show ?thesis by (intro exI [of _ 0]) auto
    qed (use err in \<open>auto intro!: exI [of _ "0::nat"]\<close>)
  next
    case (ok u log1)
    from ok(1) have one: "done_calls log1 = done_calls log @ [peer_call p]" "is_ok (keyToHex (wp_PublicKey p))"
      by (cases rule: SyncPeer_cases; simp)+
    from Cons.IH [OF ok(2)] obtain n where n: "done_calls log' = done_calls log1 @ map peer_call (take n ps)"
      "list_all (\<lambda>p. is_ok (keyToHex (wp_PublicKey p))) (take n ps)"
      "case r of Inr _ \<Rightarrow> n = length ps | Inl e \<Rightarrow> n < length ps \<and>
         (keyToHex (wp_PublicKey (ps ! n)) = Inl e \<or> (\<exists>log. net log (peer_call (ps ! n)) = Some e))" by blast
    show ?thesis by (rule exI [of _ "Suc n"]) (use n one in \<open>auto split: sum.splits\<close>)
  qed
qed

text \<open>
  A peer that is no longer in the list is not removed from the device: when all listed peers are
  enabled, no removal is sent at all.
\<close>

lemma peer_cfg_no_removal: "keyToHex k = Inr hex \<Longrightarrow> keyToHex k' = Inr hex' \<Longrightarrow> peer_cfg hex ip \<noteq> remove_cfg hex'"
proof -
  assume "keyToHex k = Inr hex" "keyToHex k' = Inr hex'"
  then have "length hex = 64" "length hex' = 64" by (auto simp: keyToHex_def split: option.splits if_splits)
  then show ?thesis by (auto simp: peer_cfg_def remove_cfg_def)
qed

lemma SyncAll_keeps_deleted:
  assumes "SyncAll net peers log = (Inr u, log')" "list_all wp_Enabled peers" "keyToHex gone = Inr hex"
    and "IpcSet (remove_cfg hex) \<notin> set (done_calls log)"
  shows "IpcSet (remove_cfg hex) \<notin> set (done_calls log')"
  using assms(1,2,4) unfolding SyncAll_def
proof (induction peers arbitrary: log)
  case Nil
  then show ?case by (auto simp: ret_def)
next
  case (Cons p ps)
  from Cons.prems(1) have "andthen (tm_SyncPeer net p) (\<lambda>_. for_each ps (tm_SyncPeer net)) log = (Inr u, log')" by simp
  then obtain v log1 where s: "tm_SyncPeer net p log = (Inr v, log1)" "for_each ps (tm_SyncPeer net) log1 = (Inr u, log')"
    by (cases rule: andthen_cases) auto
  from s(1) have "IpcSet (remove_cfg hex) \<notin> set (done_calls log1)"
  proof (cases rule: SyncPeer_cases)
    case (ok h)
    with Cons.prems(2,3) not_sym [OF peer_cfg_no_removal [OF ok(1) assms(3)]] show ?thesis by (simp add: peer_call_def)
  qed auto
  with Cons.IH [OF s(2)] Cons.prems(2) show ?case by simp
qed

section \<open>Reading numbers\<close>

lemma hex_val_digit: "is_digit c \<Longrightarrow> hex_val c = Some (digit_val c) \<and> digit_val c < 10"
  by (auto simp: hex_val_def is_digit_def digit_val_def Let_def)

lemma not_digit [simp]: "\<not> is_digit (CHR ''_'')" "\<not> is_digit (CHR ''-'')" "\<not> is_digit (CHR ''+'')" "\<not> is_digit (CHR ''='')" "\<not> is_digit NL"
  by (simp_all add: is_digit_def)

lemma is_digit_not_space: "is_digit c \<Longrightarrow> \<not> is_space c"
  by (auto simp: is_digit_def is_space_def Let_def)

lemma digits_of_digits: "\<forall>c \<in> set s. is_digit c \<Longrightarrow> digits_of 10 s = s"
  using hex_val_digit by (auto simp: digits_of_def takeWhile_eq_all_conv)

lemma base_val_digits: "\<forall>c \<in> set s. is_digit c \<Longrightarrow> base_val 10 s = digits_val s"
proof -
  assume d: "\<forall>c \<in> set s. is_digit c"
  then have "filter (\<lambda>c. c \<noteq> CHR ''_'') s = s" by (intro filter_True) auto
  moreover have "foldl (\<lambda>n c. 10 * n + the (hex_val c)) n s = foldl (\<lambda>n c. 10 * n + digit_val c) n s" for n
    using d hex_val_digit by (intro foldl_cong) auto
  ultimately show ?thesis by (simp add: base_val_def digits_val_def)
qed

lemma underscores_digits: "\<forall>c \<in> set s. is_digit c \<Longrightarrow> underscores_ok b s"
  by (induction s arbitrary: b) auto

lemma hd_itoa: "0 < n \<Longrightarrow> hd (itoa n) \<noteq> CHR ''0''"
proof (induction n rule: itoa.induct)
  case (1 n)
  show ?case
  proof (cases "n < 10")
    case True
    then have "digit_val (digit_char n) = n" by simp
    moreover have "digit_val (CHR ''0'') = 0" by (simp add: digit_val_def)
    ultimately have "digit_char n \<noteq> CHR ''0''" using \<open>0 < n\<close> by (intro notI) simp
    with True show ?thesis by simp
  next
    case False
    then have "itoa n = itoa (n div 10) @ [digit_char (n mod 10)]" by (intro itoa_step) simp
    moreover have "0 < n div 10" using False by (simp add: div_greater_zero_iff)
    ultimately show ?thesis using 1(1) [OF False] by simp
  qed
qed

lemma parseInt64_itoa: "n < 2 ^ 63 \<Longrightarrow> parseInt64 (itoa n) = Some (int n)"
proof -
  assume n: "n < 2 ^ 63"
  have d: "\<forall>c \<in> set (itoa n). is_digit c" by simp
  obtain c t where i: "itoa n = c # t" by (cases "itoa n") auto
  with d have c: "is_digit c" by auto
  then have "\<not> is_space c" "c \<noteq> CHR ''-''" "c \<noteq> CHR ''+''" by (auto dest: is_digit_not_space)
  then have p: "parseInt64 (itoa n) = (case scan_magnitude (itoa n) of None \<Rightarrow> None | Some n \<Rightarrow> if n < 2 ^ 63 then Some (int n) else None)"
    by (simp add: parseInt64_def i)
  have "scan_magnitude (itoa n) = Some n"
  proof (cases "n = 0")
    case True
    then show ?thesis by (simp add: scan_magnitude_def digits_of_def base_val_def hex_val_def is_digit_def digit_char_def chr_eval)
  next
    case False
    then have "c \<noteq> CHR ''0''" using hd_itoa [of n] i by simp
    moreover have "digits_of 10 (itoa n) = itoa n" "base_val 10 (itoa n) = n" "underscores_ok False (itoa n)"
      using d by (simp_all only: digits_of_digits base_val_digits underscores_digits digits_val_itoa)
    ultimately show ?thesis by (simp add: scan_magnitude_def i)
  qed
  with n p show ?thesis by simp
qed

section \<open>Reading the status\<close>

text \<open>
  What the device answers: lines about itself, then for every peer its key, its counters and the
  seconds of its last handshake among other lines.
\<close>

record PeerStatus =
  pst_raw :: "u8 list"
  pst_handshake :: nat
  pst_rx :: nat
  pst_tx :: nat
  pst_before :: "string list"
  pst_after :: "string list"

definition known_fields :: "string list" where
  "known_fields = [''public_key'', ''last_handshake_time_sec'', ''rx_bytes'', ''tx_bytes'']"

definition plain_line :: "string \<Rightarrow> bool" where
  "plain_line line \<longleftrightarrow> NL \<notin> set line \<and>
     (case cut_at (CHR ''='') (trim_space line) of None \<Rightarrow> True | Some (k, v) \<Rightarrow> k \<notin> set known_fields)"

definition peer_lines :: "PeerStatus \<Rightarrow> string list" where
  "peer_lines p = [''public_key='' @ hex_encode (pst_raw p)] @ pst_before p @
     [''last_handshake_time_sec='' @ itoa (pst_handshake p), ''tx_bytes='' @ itoa (pst_tx p), ''rx_bytes='' @ itoa (pst_rx p)] @
     pst_after p"

definition status_text :: "string list \<Rightarrow> PeerStatus list \<Rightarrow> string" where
  "status_text device ps = join_with [NL] (device @ concat (map peer_lines ps) @ [[]])"

definition stats_of :: "PeerStatus \<Rightarrow> PeerStats" where
  "stats_of p = \<lparr>ps_PublicKey = b64_encode (pst_raw p), ps_LastHandshake = (if pst_handshake p = 0 then None else Some (int (pst_handshake p))),
     ps_RxBytes = int (pst_rx p), ps_TxBytes = int (pst_tx p)\<rparr>"

definition status_ok :: "PeerStatus \<Rightarrow> bool" where
  "status_ok p \<longleftrightarrow> pst_raw p \<noteq> [] \<and> pst_handshake p < 2 ^ 63 \<and> pst_rx p < 2 ^ 63 \<and> pst_tx p < 2 ^ 63 \<and>
     list_all plain_line (pst_before p @ pst_after p)"



lemma ipc_plain: "plain_line line \<Longrightarrow> ipc_line line a = a"
  by (auto simp: plain_line_def ipc_line_def ipc_field_def known_fields_def Let_def split: option.splits prod.splits)

lemma fold_plain: "list_all plain_line ls \<Longrightarrow> fold ipc_line ls a = a"
  by (induction ls) (simp_all add: ipc_plain)

lemma ipc_line_field:
  assumes "k \<noteq> []" "CHR ''='' \<notin> set k" "\<not> is_space (hd k)" "v \<noteq> []" "\<not> is_space (last v)"
  shows "ipc_line (k @ ''='' @ v) a = ipc_field k v a"
proof -
  have "trim_space (k @ ''='' @ v) = k @ ''='' @ v" by (rule trim_space_id) (use assms in simp)
  then show ?thesis using assms(1,2) by (simp add: ipc_line_def)
qed

lemma last_itoa: "\<not> is_space (last (itoa n))"
  by (rule is_digit_not_space, rule itoa_digits [of _ n], rule last_in_set) simp

lemma hex_char_plain: "n < 16 \<Longrightarrow> \<not> is_space (hex_char n)" "n < 16 \<Longrightarrow> hex_char n \<noteq> NL"
proof -
  have "hex_val c = None" if "is_space c" for c
    using that by (auto simp: hex_val_def is_digit_def is_space_def Let_def)
  moreover have "is_space NL" by (simp add: is_space_def)
  moreover assume "n < 16"
  then have "hex_val (hex_char n) = Some n" by simp
  ultimately show "\<not> is_space (hex_char n)" "hex_char n \<noteq> NL" by fastforce+
qed

lemma hex_encode_plain: "bs \<noteq> [] \<Longrightarrow> \<not> is_space (last (hex_encode bs))" "NL \<notin> set (hex_encode bs)" "bs \<noteq> [] \<Longrightarrow> hex_encode bs \<noteq> []"
proof -
  show n: "bs \<noteq> [] \<Longrightarrow> hex_encode bs \<noteq> []" by (cases bs) (simp_all add: hex_encode_def)
  show "NL \<notin> set (hex_encode bs)" using hex_encode_chars hex_char_plain(2) by metis
  assume "bs \<noteq> []"
  with n have "last (hex_encode bs) \<in> set (hex_encode bs)" by simp
  then show "\<not> is_space (last (hex_encode bs))" using hex_encode_chars hex_char_plain(1) by metis
qed

lemma fold_peer_lines:
  assumes "status_ok p"
  shows "fold ipc_line (peer_lines p) a =
     \<lparr>ia_result = ipc_flush a, ia_currentKey = b64_encode (pst_raw p), ia_stats = stats_of p\<rparr>"
proof -
  have r: "pst_raw p \<noteq> []" and n: "parseInt64 (itoa (pst_handshake p)) = Some (int (pst_handshake p))"
    "parseInt64 (itoa (pst_rx p)) = Some (int (pst_rx p))" "parseInt64 (itoa (pst_tx p)) = Some (int (pst_tx p))"
    and q: "list_all plain_line (pst_before p)" "list_all plain_line (pst_after p)"
    using assms by (simp_all add: status_ok_def parseInt64_itoa)
  have l: "ipc_line (''public_key='' @ hex_encode (pst_raw p)) b = ipc_field ''public_key'' (hex_encode (pst_raw p)) b"
    "ipc_line (''last_handshake_time_sec='' @ itoa (pst_handshake p)) b = ipc_field ''last_handshake_time_sec'' (itoa (pst_handshake p)) b"
    "ipc_line (''rx_bytes='' @ itoa (pst_rx p)) b = ipc_field ''rx_bytes'' (itoa (pst_rx p)) b"
    "ipc_line (''tx_bytes='' @ itoa (pst_tx p)) b = ipc_field ''tx_bytes'' (itoa (pst_tx p)) b" for b
    using ipc_line_field [of "''public_key''"] ipc_line_field [of "''last_handshake_time_sec''"] ipc_line_field [of "''rx_bytes''"]
      ipc_line_field [of "''tx_bytes''"] last_itoa hex_encode_plain(1,3) [OF r] by (simp_all add: is_space_def)
  show ?thesis unfolding peer_lines_def fold_append comp_apply fold_plain [OF q(1)] fold_plain [OF q(2)]
    by (simp only: fold_simps comp_apply id_apply fold_plain [OF q(1)] l)
      (simp add: ipc_field_def n hexKeyToBase64_def zero_stats_def stats_of_def Let_def)
qed

lemma flush_peers:
  assumes "list_all status_ok ps"
  shows "ipc_flush (fold ipc_line (concat (map peer_lines ps)) a) =
     fold (\<lambda>p m. if True then mput (b64_encode (pst_raw p)) (stats_of p) m else m) ps (ipc_flush a)"
  using assms
proof (induction ps arbitrary: a)
  case (Cons p ps)
  have "b64_encode (pst_raw p) \<noteq> []"
    using Cons.prems by (cases "pst_raw p" rule: b64_encode.cases) (auto simp: status_ok_def enc3_def)
  with Cons show ?case by (simp add: fold_peer_lines ipc_flush_def)
qed simp

text \<open>
  Reading the device's status inverts its printing: whatever other lines it contains, every peer
  is found under its base64 key with its counters and its last handshake (none when it is 0), and
  nothing else is found.
\<close>

theorem parseIPCStatus_reads:
  assumes "list_all status_ok ps" "distinct (map pst_raw ps)" "list_all plain_line device"
  shows "mget (parseIPCStatus (status_text device ps)) key =
     map_option stats_of (find (\<lambda>p. b64_encode (pst_raw p) = key) ps)"
proof -
  have i: "NL \<notin> set (itoa n)" for n by (auto dest: itoa_digits)
  have nl: "NL \<notin> set l" if "l \<in> set (peer_lines p)" "status_ok p" for l p
    using that hex_encode_plain(2) i by (auto simp: peer_lines_def status_ok_def plain_line_def list_all_iff)
  have "split_on NL (status_text device ps) = device @ concat (map peer_lines ps) @ [[]]"
    unfolding status_text_def
    by (rule split_join) (use assms nl in \<open>auto simp: list_all_iff plain_line_def\<close>)
  moreover have "ipc_line [] a = a" for a by (simp add: ipc_line_def trim_space_def)
  ultimately have "parseIPCStatus (status_text device ps) =
      fold (\<lambda>p m. if True then mput (b64_encode (pst_raw p)) (stats_of p) m else m) ps []"
    by (simp add: parseIPCStatus_def fold_plain [OF assms(3)] flush_peers [OF assms(1)]) (simp add: ipc_flush_def)
  moreover have "distinct (map (\<lambda>p. b64_encode (pst_raw p)) ps)"
    using assms(2) by (auto simp: distinct_map inj_on_def dest: arg_cong [where f = b64_decode])
  ultimately show ?thesis using fold_put_distinct [of "\<lambda>p. b64_encode (pst_raw p)" ps "\<lambda>_. True" stats_of "[]" key]
    by (simp split: option.splits)
qed

section \<open>Examples\<close>

definition ex_key :: string where
  "ex_key = b64_encode (replicate 32 255)"

lemma ex_key_hex: "keyToHex ex_key = Inr (hex_encode (replicate 32 255))"
  by (simp add: ex_key_def keyToHex_def)

definition ex_wg :: "string \<Rightarrow> WGPeer" where
  "ex_wg key = \<lparr>wp_ID = 1, wp_PublicKey = key, wp_WGIP = v4_string 10 0 0 2, wp_DNSName = ''nas'', wp_GroupID = 7, wp_Enabled = True\<rparr>"

text \<open>The second peer's key is no base64 text: the first stays configured.\<close>

theorem SyncAll_outcome_witness:
  "\<exists>e log'. SyncAll fair_net [ex_wg ex_key, ex_wg ''?''] [] = (Inl e, log') \<and>
     done_calls log' = [IpcSet (peer_cfg (hex_encode (replicate 32 255)) (v4_string 10 0 0 2))]"
proof -
  have bad: "keyToHex ''?'' = Inl (Wrap ''decode key: '' (Errorf ''illegal base64 data''))"
    by (simp add: keyToHex_def b64_decode_def)
  then obtain e log' where r: "SyncAll fair_net [ex_wg ex_key, ex_wg ''?''] [] = (Inl e, log')"
    by (auto simp: SyncAll_def tm_SyncPeer_def ex_wg_def andthen_def lift_res_def call_def fair_net_def ex_key_hex)
  let ?ps = "[ex_wg ex_key, ex_wg ''?'']"
  from SyncAll_outcome [OF r] obtain n where n: "done_calls log' = done_calls [] @ map peer_call (take n ?ps)"
    "n < length ?ps" "keyToHex (wp_PublicKey (?ps ! n)) = Inl e \<or> (\<exists>log. fair_net log (peer_call (?ps ! n)) = Some e)"
    by (simp only: sum.case) blast
  have "\<not> (keyToHex (wp_PublicKey (?ps ! 0)) = Inl e \<or> (\<exists>log. fair_net log (peer_call (?ps ! 0)) = Some e))"
    by (simp add: ex_wg_def ex_key_hex peer_call_def fair_net_def)
  with n(3) have "n \<noteq> 0" by metis
  with n(2) have "n = 1" by simp
  with n(1) r show ?thesis by (simp add: peer_call_def ex_wg_def ex_key_hex)
qed

definition ex_status :: PeerStatus where
  "ex_status = \<lparr>pst_raw = replicate 32 1, pst_handshake = 5, pst_rx = 70, pst_tx = 9, pst_before = [''protocol_version=1''], pst_after = []\<rparr>"

theorem parseIPCStatus_reads_witness:
  "mget (parseIPCStatus (status_text [''listen_port=51820''] [ex_status])) (b64_encode (replicate 32 1)) =
     Some \<lparr>ps_PublicKey = b64_encode (replicate 32 1), ps_LastHandshake = Some 5, ps_RxBytes = 70, ps_TxBytes = 9\<rparr>"
proof -
  have "plain_line ''listen_port=51820''" "plain_line ''protocol_version=1''"
    by (simp_all add: plain_line_def known_fields_def trim_space_def is_space_def)
  then have ok: "list_all status_ok [ex_status]" "list_all plain_line [''listen_port=51820'']"
    by (simp_all add: status_ok_def ex_status_def)
  have "distinct (map pst_raw [ex_status])" by simp
  from parseIPCStatus_reads [OF ok(1) this ok(2), of "b64_encode (replicate 32 1)"]
  have "mget (parseIPCStatus (status_text [''listen_port=51820''] [ex_status])) (b64_encode (replicate 32 1)) = Some (stats_of ex_status)"
    by (simp add: ex_status_def)
  then show ?thesis by (simp add: stats_of_def ex_status_def)
qed

end
