(* ===== verification/Stack_Props.thy ===== *)
theory Stack_Props
  imports Stack Tunnel_Props Service_Reach
begin

text \<open>
  The data plane carries the snapshot it was given: after a successful start or synchronisation every
  part has been loaded from the same snapshot; a failed start leaves nothing behind.
\<close>

section \<open>Well-formed stacks\<close>

definition parts_ok :: "Stack \<Rightarrow> bool" where
  "parts_ok s = (case st_tunnelMgr s of
       None \<Rightarrow> st_dnsServer s = None \<and> st_tunnelSrv s = None \<and> st_forwardProxy s = None \<and> st_mapProxy s = None
     | Some m \<Rightarrow> \<not> tm_closed m \<and> st_dnsServer s \<noteq> None \<and> st_tunnelSrv s \<noteq> None)"

definition stack_ok :: "Stack \<Rightarrow> bool" where
  "stack_ok s = (parts_ok s \<and> \<not> st_stopping s)"

text \<open>What the operations that run on a live stack leave alone.\<close>

definition same :: "Stack \<Rightarrow> Stack \<Rightarrow> bool" where
  "same s s' = (st_generation s' = st_generation s \<and> st_stopping s' = st_stopping s \<and> st_Port s' = st_Port s \<and>
     st_tunnelSrv s' = st_tunnelSrv s \<and> st_dnsServer s' = st_dnsServer s \<and>
     map_option tm_closed (st_tunnelMgr s') = map_option tm_closed (st_tunnelMgr s))"

definition keeps :: "(rt, 'a) act \<Rightarrow> bool" where
  "keeps m = (\<forall>log s r log' s'. m (log, s) = (r, (log', s')) \<longrightarrow> same s s')"

named_theorems keeps_intro "programs that keep the stack alive"

lemma same_refl [simp]: "same s s"
  by (simp add: same_def)

lemma same_trans: "same s s' \<Longrightarrow> same s' s'' \<Longrightarrow> same s s''"
  by (simp add: same_def)

lemma keepsD: "keeps m \<Longrightarrow> m (log, s) = (r, (log', s')) \<Longrightarrow> same s s'"
  by (auto simp: keeps_def)

lemma keeps_andthen [keeps_intro]:
  assumes "keeps m" "\<And>x. keeps (f x)"
  shows "keeps (andthen m f)"
  unfolding keeps_def
proof (intro allI impI)
  fix log s r log' s'
  assume "andthen m f (log, s) = (r, (log', s'))"
  then show "same s s'"
  proof (cases rule: andthen_cases)
    case (err e)
    then show ?thesis using keepsD [OF assms(1)] by blast
  next
    case (ok x s1)
    then show ?thesis using keepsD [OF assms(1)] keepsD [OF assms(2)] by (cases s1) (blast intro: same_trans)
  qed
qed

lemma keeps_basic [keeps_intro]: "keeps (ret x)" "keeps (fail e)" "keeps (lift_res r)" "keeps (net_act n)"
  by (auto simp: keeps_def ret_def fail_def lift_res_def net_act_def split: prod.splits)

lemma keeps_attempt [keeps_intro]: "keeps m \<Longrightarrow> keeps (attempt m)"
  by (auto simp: keeps_def attempt_def split: prod.splits)

lemma keeps_wrapped [keeps_intro]: "keeps m \<Longrightarrow> keeps (wrapped msg m)"
  unfolding wrapped_def by (intro keeps_intro) (auto intro: keeps_intro split: sum.split)

lemma keeps_modify: "(\<And>s. same s (f s)) \<Longrightarrow> keeps (modify f)"
  by (auto simp: keeps_def modify_def)

lemma keeps_tunnel [keeps_intro]: "(\<And>m. tm_closed (f m) = tm_closed m) \<Longrightarrow> keeps (on_tunnel f)"
  unfolding on_tunnel_def by (intro keeps_modify) (simp add: same_def option.map_comp comp_def)

lemma closed_simps [simp]: "tm_closed (tm_SetAccessPolicy p m) = tm_closed m" "tm_closed (tm_ReserveHubPorts ps m) = tm_closed m"
  "tm_closed (tm_SetMapVIPs vs m) = tm_closed m"
  by (simp_all add: tm_SetAccessPolicy_def tm_ReserveHubPorts_def tm_SetMapVIPs_def)

lemma keeps_proxies [keeps_intro]: "keeps (ensure_forwardProxy b)" "keeps (ensure_mapProxy b)" "keeps (apply_forwards net fwd)"
    "keeps (apply_maps net rules peers)"
  by (auto simp: keeps_def same_def ensure_forwardProxy_def ensure_mapProxy_def apply_forwards_def apply_maps_def
      split: if_splits sum.splits option.splits prod.splits)

lemma keeps_applyIngress [keeps_intro]: "keeps (applyIngressLocked net b)"
  unfolding applyIngressLocked_def Let_def by (intro keeps_intro closed_simps)

section \<open>Carrying a snapshot\<close>

definition tun_carries :: "TUN \<Rightarrow> SyncBundle \<Rightarrow> bool" where
  "tun_carries f b = (tun_access f = the (acp_Rules (Apply (sb_Policy b))) \<and>
     tun_reservedHubPorts f = ReservedHubPorts HubTunnelWebPort (ingressForwardRules (sb_Forwards b)) \<and>
     tun_transparent f = Snat.ReserveHubPorts (Reset (SetHubIP (applyTransparent (ap_Transparent (sb_Policy b))) (tun_hubIP f)))
       (tun_reservedHubPorts f) \<and>
     set (tun_mapVIPs f) = set (parseMapVIPs (sb_Maps b)))"

definition dns_carries :: "DnsServer \<Rightarrow> SyncBundle \<Rightarrow> bool" where
  "dns_carries d b = (dn_Catalog d = sb_DNS b \<and> dn_PeerGroup d = peer_groups (sb_Peers b))"

definition forwards_carried :: "ForwardProxy \<Rightarrow> SyncBundle \<Rightarrow> bool" where
  "forwards_carried fp b = (map bl_rule (served fp) = ingressForwardRules (sb_Forwards b))"

definition maps_carried :: "MapProxy \<Rightarrow> SyncBundle \<Rightarrow> bool" where
  "maps_carried mp b = (mp_rules mp = rule_table (ingressMapRules (sb_Maps b)) \<and> mp_peerGroup mp = peer_groups (sb_Peers b) \<and>
     mp_udpSessions mp = [] \<and> mp_udpPending mp = [] \<and> mp_ctx mp = Some (mp_generation mp))"

definition carries :: "Stack \<Rightarrow> SyncBundle \<Rightarrow> bool" where
  "carries s b = (case (st_tunnelMgr s, st_dnsServer s, st_forwardProxy s, st_mapProxy s) of
     (Some m, Some d, Some fp, Some mp) \<Rightarrow> tun_carries (tm_filterTUN m) b \<and> dns_carries d b \<and> forwards_carried fp b \<and> maps_carried mp b
   | _ \<Rightarrow> False)"

text \<open>Ingress rules: everything but the policy and the DNS catalog.\<close>

definition ingress_carried :: "Stack \<Rightarrow> SyncBundle \<Rightarrow> bool" where
  "ingress_carried s b = (case (st_tunnelMgr s, st_forwardProxy s, st_mapProxy s) of
     (Some m, Some fp, Some mp) \<Rightarrow>
        tun_reservedHubPorts (tm_filterTUN m) = ReservedHubPorts HubTunnelWebPort (ingressForwardRules (sb_Forwards b)) \<and>
        set (tun_mapVIPs (tm_filterTUN m)) = set (parseMapVIPs (sb_Maps b)) \<and> forwards_carried fp b \<and> maps_carried mp b
   | _ \<Rightarrow> False)"

lemma fold_insert_if: "set (fold (\<lambda>v m. if P v then List.insert v m else m) vs ms) = set ms \<union> {v \<in> set vs. P v}"
  by (induction vs arbitrary: ms) auto

lemma parseMapVIPs_valid: "v \<in> set (parseMapVIPs rs) \<Longrightarrow> is_valid v"
  by (auto simp: parseMapVIPs_def List.map_filter_def split: option.splits if_splits)

lemma SetMapVIPs_set: "set (tun_mapVIPs (SetMapVIPs f (parseMapVIPs rs))) = set (parseMapVIPs rs)"
  using parseMapVIPs_valid by (auto simp: SetMapVIPs_def fold_insert_if)

lemma bind_rules_rules: "bind_rules net hub bls rules log = (Inr out, log') \<Longrightarrow> map bl_rule out = map bl_rule bls @ rules"
proof (induction rules arbitrary: bls log)
  case (Cons rule rules)
  have "bl_rule bl = rule" if "bindRule net hub rule l = (Inr bl, l')" for bl l l'
    using that by (auto simp: bindRule_def andthen_def ret_def fail_def split: if_splits prod.splits sum.splits)
  with Cons show ?case by (auto simp: andthen_def attempt_def split: prod.splits sum.splits)
qed (simp add: ret_def)

lemma fp_Apply_served: "fp_Apply net rules s = (Inr u, (log', m')) \<Longrightarrow> map bl_rule (served m') = rules"
  by (auto simp: fp_Apply_def served_def fp_Stop_def Let_def split: prod.splits sum.splits option.splits if_splits dest: bind_rules_rules)

lemma apply_forwards_ok:
  assumes "apply_forwards net (ingressForwardRules (sb_Forwards b)) (log, s) = (Inr u, (log', s'))" "st_forwardProxy s \<noteq> None"
  shows "\<exists>fp. s' = s\<lparr>st_forwardProxy := Some fp\<rparr> \<and> forwards_carried fp b"
  using assms by (auto simp: apply_forwards_def forwards_carried_def split: option.splits prod.splits dest: fp_Apply_served)

lemma mp_Apply_ok: "mp_Apply net rules peers (log, m) = (Inr u, (log', m')) \<Longrightarrow> m' = install_rules rules peers m"
  by (auto simp: mp_Apply_def split: prod.splits sum.splits)

lemma apply_maps_ok:
  assumes "apply_maps net (ingressMapRules (sb_Maps b)) (sb_Peers b) (log, s) = (Inr u, (log', s'))" "st_mapProxy s \<noteq> None"
  shows "\<exists>mp. s' = s\<lparr>st_mapProxy := Some mp\<rparr> \<and> maps_carried mp b"
  using assms by (auto simp: apply_maps_def maps_carried_def install_rules_def closeUDPSessions_def Let_def
      split: option.splits prod.splits dest!: mp_Apply_ok)

lemma wrapped_ok: "wrapped msg m s = (Inr x, s') \<Longrightarrow> m s = (Inr x, s')"
  by (auto simp: wrapped_def andthen_def attempt_def fail_def ret_def split: prod.splits sum.splits)

lemma andthen_ok_stack: "andthen m f s = (Inr y, s') \<Longrightarrow> \<exists>x s1. m s = (Inr x, s1) \<and> f x s1 = (Inr y, s')"
  by (cases rule: andthen_cases, assumption) auto

lemma ensure_ok:
  "ensure_forwardProxy b (log, s) = (Inr u, (log', s')) \<Longrightarrow> \<exists>fp. s' = s\<lparr>st_forwardProxy := Some fp\<rparr>"
  "ensure_mapProxy b (log, s) = (Inr u, (log', s')) \<Longrightarrow> \<exists>mp. s' = s\<lparr>st_mapProxy := Some mp\<rparr>"
proof -
  assume "ensure_forwardProxy b (log, s) = (Inr u, (log', s'))"
  then show "\<exists>fp. s' = s\<lparr>st_forwardProxy := Some fp\<rparr>"
    by (cases "st_forwardProxy s") (auto simp: ensure_forwardProxy_def split: sum.splits intro: exI [of _ "the (st_forwardProxy s)"])
next
  assume "ensure_mapProxy b (log, s) = (Inr u, (log', s'))"
  then show "\<exists>mp. s' = s\<lparr>st_mapProxy := Some mp\<rparr>"
    by (cases "st_mapProxy s") (auto simp: ensure_mapProxy_def split: sum.splits intro: exI [of _ "the (st_mapProxy s)"])
qed

lemma on_tunnel_ok: "on_tunnel f (log, s) = (r, (log', s')) \<Longrightarrow> log' = log \<and> s' = s\<lparr>st_tunnelMgr := map_option f (st_tunnelMgr s)\<rparr>"
  by (auto simp: on_tunnel_def modify_def)

lemma net_act_ok: "net_act m (log, s) = (r, (log', s')) \<Longrightarrow> s' = s"
  by (auto simp: net_act_def split: prod.splits)

lemma applyIngress_ok:
  assumes "applyIngressLocked net b (log, s) = (Inr u, (log', s'))" "st_tunnelMgr s = Some m"
  shows "ingress_carried s' b \<and> st_dnsServer s' = st_dnsServer s"
proof -
  let ?fwd = "ingressForwardRules (sb_Forwards b)" and ?vips = "parseMapVIPs (sb_Maps b)"
  from assms(1) obtain l1 s1 l2 s2 l3 s3 l4 s4 l5 s5 l6 s6 u1 u2 u3 u4 u5 u6 where
    1: "ensure_forwardProxy b (log, s) = (Inr u1, (l1, s1))" and 2: "ensure_mapProxy b (l1, s1) = (Inr u2, (l2, s2))" and
    3: "on_tunnel (tm_ReserveHubPorts (ReservedHubPorts HubTunnelWebPort ?fwd)) (l2, s2) = (Inr u3, (l3, s3))" and
    4: "apply_forwards net ?fwd (l3, s3) = (Inr u4, (l4, s4))" and
    5: "net_act (EnsureMapVIPs net ?vips) (l4, s4) = (Inr u5, (l5, s5))" and
    6: "on_tunnel (tm_SetMapVIPs ?vips) (l5, s5) = (Inr u6, (l6, s6))" and
    7: "apply_maps net (ingressMapRules (sb_Maps b)) (sb_Peers b) (l6, s6) = (Inr u, (log', s'))"
    unfolding applyIngressLocked_def Let_def by (auto dest!: andthen_ok_stack wrapped_ok)
  from ensure_ok(1) [OF 1] obtain fp where s1: "s1 = s\<lparr>st_forwardProxy := Some fp\<rparr>" by blast
  from ensure_ok(2) [OF 2] obtain mp where s2: "s2 = s1\<lparr>st_mapProxy := Some mp\<rparr>" by blast
  note s3 = conjunct2 [OF on_tunnel_ok [OF 3]]
  have "st_forwardProxy s3 \<noteq> None" by (simp add: s1 s2 s3)
  from apply_forwards_ok [OF 4 this] obtain fp' where s4: "s4 = s3\<lparr>st_forwardProxy := Some fp'\<rparr>" "forwards_carried fp' b" by blast
  note s5 = net_act_ok [OF 5] and s6 = conjunct2 [OF on_tunnel_ok [OF 6]]
  have "st_mapProxy s6 \<noteq> None" by (simp add: s1 s2 s3 s4(1) s5 s6)
  from apply_maps_ok [OF 7 this] obtain mp' where s': "s' = s6\<lparr>st_mapProxy := Some mp'\<rparr>" "maps_carried mp' b" by blast
  have "set (tun_mapVIPs (tm_filterTUN (tm_SetMapVIPs ?vips (tm_ReserveHubPorts (ReservedHubPorts HubTunnelWebPort ?fwd) m)))) = set ?vips"
    by (simp add: tm_SetMapVIPs_def SetMapVIPs_set)
  then show ?thesis using s4(2) s'(2) assms(2)
    by (simp add: s1 s2 s3 s4(1) s5 s6 s'(1) ingress_carried_def tm_SetMapVIPs_def tm_ReserveHubPorts_def tun_ReserveHubPorts_def SetMapVIPs_def)
qed

lemma SetAccessPolicy_carries:
  "tun_reservedHubPorts f = ReservedHubPorts HubTunnelWebPort (ingressForwardRules (sb_Forwards b)) \<Longrightarrow>
   set (tun_mapVIPs f) = set (parseMapVIPs (sb_Maps b)) \<Longrightarrow> tun_carries (SetAccessPolicy f (Some (Apply (sb_Policy b)))) b"
  by (simp add: tun_carries_def SetAccessPolicy_def Let_def Apply_def)

lemma policy_carries:
  assumes "ingress_carried s b" "st_dnsServer s = Some d" "dns_carries d b"
    and "on_tunnel (tm_SetAccessPolicy (Apply (sb_Policy b))) (log, s) = (r, (log', s'))"
  shows "carries s' b"
  using assms on_tunnel_ok [OF assms(4)] SetAccessPolicy_carries
  by (auto simp: ingress_carried_def carries_def tm_SetAccessPolicy_def split: option.splits)

section \<open>Synchronising\<close>

lemma FullSync_same:
  assumes "stack_FullSync net b (log, s) = (r, (log', s'))"
  shows "st_generation s' = st_generation s \<and> st_stopping s' = st_stopping s \<and> Running s' = Running s \<and> (parts_ok s \<longrightarrow> parts_ok s')"
proof (cases "st_tunnelMgr s")
  case None
  with assms show ?thesis by (auto simp: stack_FullSync_def)
next
  case (Some m)
  let ?s = "s\<lparr>st_dnsServer := map_option (UpdateDNS (sb_DNS b) (sb_Peers b)) (st_dnsServer s)\<rparr>"
  let ?rest = "andthen (net_act (SyncAll net (sb_Peers b))) (\<lambda>_. andthen (applyIngressLocked net b) (\<lambda>_.
       on_tunnel (tm_SetAccessPolicy (Apply (sb_Policy b)))))"
  from assms Some have run: "?rest (log, ?s) = (r, (log', s'))" by (simp add: stack_FullSync_def andthen_def modify_def)
  have "keeps ?rest" by (intro keeps_intro closed_simps)
  from keepsD [OF this run] have "same ?s s'" .
  with Some show ?thesis by (auto simp: same_def parts_ok_def Running_def split: option.splits)
qed

lemma FullSync_running:
  assumes "stack_ok s" "stack_FullSync net b (log, s) = (r, (log', s'))"
  shows "stack_ok s' \<and> Running s' = Running s \<and> (case r of Inr _ \<Rightarrow> \<not> Running s \<or> carries s' b | Inl _ \<Rightarrow> Running s)"
proof (cases "st_tunnelMgr s")
  case None
  with assms show ?thesis by (auto simp: stack_FullSync_def Running_def)
next
  case (Some m)
  let ?s = "s\<lparr>st_dnsServer := map_option (UpdateDNS (sb_DNS b) (sb_Peers b)) (st_dnsServer s)\<rparr>"
  let ?rest = "andthen (net_act (SyncAll net (sb_Peers b))) (\<lambda>_. andthen (applyIngressLocked net b) (\<lambda>_.
       on_tunnel (tm_SetAccessPolicy (Apply (sb_Policy b)))))"
  from assms(2) Some have run: "?rest (log, ?s) = (r, (log', s'))" by (simp add: stack_FullSync_def andthen_def modify_def)
  have ok: "stack_ok s' \<and> Running s' = Running s"
    using FullSync_same [OF assms(2)] assms(1) by (simp add: stack_ok_def)
  from assms(1) Some obtain d where d: "st_dnsServer s = Some d" by (auto simp: stack_ok_def parts_ok_def)
  show ?thesis
  proof (cases r)
    case (Inl e)
    with ok Some show ?thesis by (simp add: Running_def)
  next
    case (Inr u)
    with run obtain l1 s1 l2 s2 u1 u2 where 1: "net_act (SyncAll net (sb_Peers b)) (log, ?s) = (Inr u1, (l1, s1))"
      and 2: "applyIngressLocked net b (l1, s1) = (Inr u2, (l2, s2))"
      and 3: "on_tunnel (tm_SetAccessPolicy (Apply (sb_Policy b))) (l2, s2) = (Inr u, (log', s'))"
      by (auto dest!: andthen_ok_stack)
    have s1: "s1 = ?s" by (rule net_act_ok [OF 1])
    have "st_tunnelMgr s1 = Some m" by (simp add: s1 Some)
    from applyIngress_ok [OF 2 this] have i: "ingress_carried s2 b" "st_dnsServer s2 = Some (UpdateDNS (sb_DNS b) (sb_Peers b) d)"
      by (simp_all add: s1 d)
    have "dns_carries (UpdateDNS (sb_DNS b) (sb_Peers b) d) b" by (simp add: dns_carries_def UpdateDNS_def)
    from policy_carries [OF i this 3] ok Inr show ?thesis by simp
  qed
qed

section \<open>Starting\<close>

text \<open>Whether a network stack exists after a log of calls.\<close>

fun device_step :: "netcall \<times> err option \<Rightarrow> bool \<Rightarrow> bool" where
  "device_step (CreateNetTUN local dns mtu, r) open = (r = None \<or> open)"
| "device_step (DeviceClose, r) open = False"
| "device_step (_, r) open = open"

definition device_open :: "calls \<Rightarrow> bool" where
  "device_open log = fold device_step log False"

lemma device_snoc [simp]: "device_open (log @ [e]) = device_step e (device_open log)"
  by (simp add: device_open_def)

lemma Close_device: "\<not> tm_closed m \<Longrightarrow> \<not> device_open (fst (tm_Close net m log)) \<and> open_socks (fst (tm_Close net m log)) = {}"
  by (simp add: tm_Close_def call_ignored_def)

lemma NewManager_cases:
  assumes "NewManager net hub dns vs port mtu log = (r, log')"
  obtains (early) e where "r = Inl e" "log' = log"
  | (failed) e c x where "r = Inl e" "log' = log @ [(CreateNetTUN (uniqueAddrs (c # x # vs)) x mtu, Some e)]"
  | (failed2) e e' c x where "r = Inl e" "log' = log @ [(CreateNetTUN (uniqueAddrs (c # x # vs)) x mtu, Some e')]"
  | (ok) m where "r = Inr m" "\<not> tm_closed m"
  using assms by (auto simp: NewManager_def fail_def ret_def andthen_def attempt_def call_def split: option.splits prod.splits sum.splits)

lemma bring_up_ok: "bring_up net port b m log = (Inr (m', dns, web), log') \<Longrightarrow>
    dns_carries dns b \<and> tm_closed m' = tm_closed m \<and> dn_DnsIP dns = ns_DNSIP (sb_Settings b)"
  by (auto simp: bring_up_def Let_def ConfigureServer_def ret_def dns_carries_def UpdateDNS_def NewServer_def attempt_def
      split: sum.splits prod.splits dest!: andthen_ok_stack wrapped_ok)

lemma start_parts_cases:
  assumes "start_parts net port b log = (r, log')"
  shows "case r of Inl _ \<Rightarrow> \<not> device_open log \<longrightarrow> \<not> device_open log'
    | Inr (m, dns, web) \<Rightarrow> dns_carries dns b \<and> \<not> tm_closed m"
  using assms unfolding start_parts_def
proof (cases rule: andthen_cases)
  case (err e)
  then obtain e' where "NewManager net (ns_HubIP (sb_Settings b)) (ns_DNSIP (sb_Settings b)) (parseMapVIPs (sb_Maps b)) port
      (ns_MTU (sb_Settings b)) log = (Inl e', log')"
    by (auto simp: wrapped_def andthen_def attempt_def fail_def ret_def split: prod.splits sum.splits)
  then have "\<not> device_open log \<longrightarrow> \<not> device_open log'" by (cases rule: NewManager_cases) auto
  with err show ?thesis by simp
next
  case (ok m l)
  from wrapped_ok [OF ok(1)] have m: "\<not> tm_closed m" by (cases rule: NewManager_cases) auto
  show ?thesis
  proof (cases "bring_up net port b m l")
    case (Pair q l2)
    show ?thesis
    proof (cases q)
      case (Inl e)
      with ok(2) Pair Close_device [OF m, of net l2] show ?thesis by auto
    next
      case (Inr t)
      obtain m' dns web where t: "t = (m', dns, web)" by (cases t)
      from ok(2) Pair Inr have "r = Inr t" by simp
      moreover have "dns_carries dns b \<and> tm_closed m' = tm_closed m"
        using bring_up_ok [of net port b m l m' dns web l2] Pair Inr t by simp
      ultimately show ?thesis using m t by simp
    qed
  qed
qed

lemma rollback_ok:
  assumes "rollbackStart net dns web (log, s) = (log', s')" "st_tunnelMgr s = Some m" "\<not> tm_closed m"
  shows "\<not> device_open log' \<and> open_socks log' = {} \<and> parts_ok s' \<and> \<not> Running s' \<and> st_stopping s' = st_stopping s \<and>
    st_generation s' = st_generation s \<and> st_Port s' = st_Port s"
  using assms Close_device [OF assms(3)]
  by (auto simp: rollbackStart_def stop_proxies_def close_tunnel_def parts_ok_def Running_def Let_def split: prod.splits)

lemma start_locked_outcome:
  assumes "stack_ok s" "start_locked net b (log, s) = (r, (log', s'))"
  shows "case r of
      Inr None \<Rightarrow> Running s \<and> s' = s \<and> log' = log
    | Inr (Some g) \<Rightarrow> \<not> Running s \<and> stack_ok s' \<and> carries s' b \<and> Running s' \<and> g = st_generation s' \<and> st_generation s < g
    | Inl _ \<Rightarrow> \<not> Running s \<and> stack_ok s' \<and> \<not> Running s' \<and> (\<not> device_open log \<longrightarrow> \<not> device_open log') \<and> st_generation s \<le> st_generation s'"
proof (cases "st_tunnelMgr s")
  case (Some m)
  with assms(2) show ?thesis by (auto simp: start_locked_def Running_def)
next
  case None
  obtain q l where p: "start_parts net (st_Port s) b log = (q, l)" by fastforce
  note parts = start_parts_cases [OF p]
  show ?thesis
  proof (cases q)
    case (Inl e)
    with assms None p parts show ?thesis by (auto simp: start_locked_def Running_def)
  next
    case (Inr t)
    then obtain m dns web where q: "q = Inr (m, dns, web)" by (cases t) auto
    with parts have d: "dns_carries dns b" "\<not> tm_closed m" by simp_all
    let ?s = "s\<lparr>st_tunnelMgr := Some m, st_generation := st_generation s + 1, st_dnsServer := Some dns,
                   st_tunnelSrv := Some web, st_startBundle := Some b\<rparr>"
    obtain r1 l1 s1 where i: "applyIngressLocked net b (l, ?s) = (r1, (l1, s1))" by (metis prod_cases3)
    have same: "same ?s s1" by (rule keepsD [OF keeps_applyIngress i])
    then obtain m1 where m1: "st_tunnelMgr s1 = Some m1" "\<not> tm_closed m1" using d(2) by (auto simp: same_def)
    show ?thesis
    proof (cases r1)
      case (Inl e)
      with assms(2) None p q i have "r = Inl e" "rollbackStart net dns web (l1, s1) = (log', s')"
        by (auto simp: start_locked_def Let_def)
      with rollback_ok [OF this(2) m1] same assms(1) None show ?thesis
        by (simp add: stack_ok_def same_def Running_def)
    next
      case (Inr u)
      obtain r2 l2 s2 where a: "on_tunnel (tm_SetAccessPolicy (Apply (sb_Policy b))) (l1, s1) = (r2, (l2, s2))" by (metis prod_cases3)
      with assms(2) None p q i Inr have r: "r = Inr (Some (st_generation s2))" "log' = l2" "s' = s2"
        by (auto simp: start_locked_def Let_def)
      from applyIngress_ok [OF i [unfolded Inr], of m] have c: "ingress_carried s1 b" "st_dnsServer s1 = Some dns" by simp_all
      from policy_carries [OF c d(1) a] have carries: "carries s2 b" .
      have "keeps (on_tunnel (tm_SetAccessPolicy (Apply (sb_Policy b))))" by (intro keeps_intro closed_simps)
      from same_trans [OF same keepsD [OF this a]] have "same ?s s2" .
      then have g: "st_generation s2 = st_generation s + 1" "\<not> st_stopping s2" "st_dnsServer s2 = Some dns" "st_tunnelSrv s2 = Some web"
        "map_option tm_closed (st_tunnelMgr s2) = Some (tm_closed m)" using assms(1) by (simp_all add: same_def stack_ok_def)
      then obtain m2 where m2: "st_tunnelMgr s2 = Some m2" "\<not> tm_closed m2" using d(2) by auto
      have "stack_ok s2" using g m2 by (simp add: stack_ok_def parts_ok_def)
      with carries r g(1) m2(1) None show ?thesis by (simp add: Running_def)
    qed
  qed
qed

section \<open>Stopping\<close>

lemma stop_finish_ok:
  assumes "parts_ok s" "st_tunnelMgr s \<noteq> None" "stop_finish net (log, s) = (log', s')"
  shows "stack_ok s' \<and> \<not> Running s' \<and> \<not> device_open log' \<and> open_socks log' = {} \<and> st_generation s' = st_generation s"
proof -
  from assms(1,2) obtain m where m: "st_tunnelMgr s = Some m" "\<not> tm_closed m" by (auto simp: parts_ok_def)
  with assms(3) Close_device [OF m(2)] show ?thesis
    by (auto simp: stop_finish_def stop_proxies_def close_tunnel_def parts_ok_def stack_ok_def Running_def Let_def split: prod.splits)
qed

lemma Stop_outcome:
  assumes "stack_ok s" "stack_Stop net (log, s) = (r, (log', s'))"
  shows "r = Inr (Running s) \<and> stack_ok s' \<and> \<not> Running s' \<and> (Running s \<or> log' = log)"
proof (cases "st_tunnelMgr s")
  case None
  with assms show ?thesis by (auto simp: stack_Stop_def stop_begin_def Running_def)
next
  case (Some m)
  let ?s = "s\<lparr>st_stopping := True, st_generation := st_generation s + 1\<rparr>"
  from assms Some have f: "r = Inr True" "stop_finish net (log, ?s) = (log', s')"
    by (auto simp: stack_Stop_def stop_begin_def stack_ok_def)
  have "parts_ok ?s" "st_tunnelMgr ?s \<noteq> None" using assms(1) Some by (simp_all add: stack_ok_def parts_ok_def)
  from stop_finish_ok [OF this f(2)] f(1) Some show ?thesis by (simp add: Running_def)
qed

lemma Start_outcome:
  assumes "stack_ok s" "stack_Start net b (log, s) = (r, (log', s'))"
  shows "stack_ok s' \<and> (case r of
      Inr False \<Rightarrow> Running s \<and> s' = s \<and> log' = log
    | Inr True \<Rightarrow> \<not> Running s \<and> carries s' b
    | Inl _ \<Rightarrow> \<not> Running s \<and> \<not> Running s' \<and> (device_open log \<or> \<not> device_open log'))"
proof -
  from assms(2) show ?thesis unfolding stack_Start_def
  proof (cases rule: andthen_cases)
    case (err e)
    with start_locked_outcome [OF assms(1) err(1)] show ?thesis by auto
  next
    case (ok g t)
    obtain l t' where t: "t = (l, t')" by (cases t)
    note o = start_locked_outcome [OF assms(1) ok(1) [unfolded t]]
    show ?thesis
    proof (cases g)
      case None
      with o ok(2) t assms(1) show ?thesis by auto
    next
      case (Some n)
      with o have "start_valid n t'" by (simp add: start_valid_def stack_ok_def Running_def)
      with o ok(2) t Some show ?thesis by auto
    qed
  qed
qed


text \<open>
  Synchronising a running stack either loads every part from the new snapshot, the peers, the
  names, the forwards, the maps and the policy together, or reports an error; it never stops or starts
  the stack.
\<close>

theorem FullSync_outcome:
  assumes "stack_ok s" "stack_FullSync net b (log, s) = (r, (log', s'))"
  shows "stack_ok s' \<and> Running s' = Running s \<and> (case r of Inr _ \<Rightarrow> \<not> Running s \<or> carries s' b | Inl _ \<Rightarrow> Running s)"
  by (rule FullSync_running [OF assms])

section \<open>Starts and stops that overlap\<close>

text \<open>
  The lock is given up between the two parts of a start and between the three of a stop.  A task is
  what remains to be done: telling the service about the start of a generation, or about a stop, and
  then taking the stack down.  \<^verbatim>\<open>lifecycleMu\<close> keeps the check of a start and its callback together.
\<close>

datatype task = PublishStart nat | NotifyStop | FinishStop
datatype event = Started | Stopped

inductive life_run :: "net \<Rightarrow> rt \<Rightarrow> task multiset \<Rightarrow> event list \<Rightarrow> bool" for net where
  new: "life_run net ([], NewStack port) {#} []"
| start: "life_run net (log, s) ts ev \<Longrightarrow> start_locked net b (log, s) = (r, (log', s')) \<Longrightarrow>
    life_run net (log', s') (case r of Inr (Some g) \<Rightarrow> ts + {#PublishStart g#} | _ \<Rightarrow> ts) ev"
| publish: "life_run net (log, s) (ts + {#PublishStart g#}) ev \<Longrightarrow>
    life_run net (log, s) ts (if start_valid g s then ev @ [Started] else ev)"
| stop: "life_run net (log, s) ts ev \<Longrightarrow> stop_begin s = Some s' \<Longrightarrow> life_run net (log, s') (ts + {#NotifyStop#}) ev"
| notify: "life_run net (log, s) (ts + {#NotifyStop#}) ev \<Longrightarrow> life_run net (log, s) (ts + {#FinishStop#}) (ev @ [Stopped])"
| finish: "life_run net (log, s) (ts + {#FinishStop#}) ev \<Longrightarrow> life_run net (stop_finish net (log, s)) ts ev"
| sync: "life_run net (log, s) ts ev \<Longrightarrow> stack_FullSync net b (log, s) = (r, (log', s')) \<Longrightarrow> life_run net (log', s') ts ev"

definition is_stop :: "task \<Rightarrow> bool" where
  "is_stop t = (t = NotifyStop \<or> t = FinishStop)"

definition told_started :: "event list \<Rightarrow> bool" where
  "told_started ev = (ev \<noteq> [] \<and> last ev = Started)"

text \<open>
  While a stop is under way there is exactly one of it, and once it has told the service no start does;
  a running stack has told the service, or its start is about to; an old start never will.
\<close>

definition life_inv :: "Stack \<Rightarrow> task multiset \<Rightarrow> event list \<Rightarrow> bool" where
  "life_inv s ts ev = (parts_ok s \<and>
     (\<forall>g. PublishStart g \<in># ts \<longrightarrow> g \<le> st_generation s) \<and>
     size (filter_mset is_stop ts) = (if st_stopping s then 1 else 0) \<and>
     (st_stopping s \<longrightarrow> Running s \<and> PublishStart (st_generation s) \<notin># ts) \<and>
     (FinishStop \<in># ts \<longrightarrow> \<not> told_started ev) \<and>
     (Running s \<and> \<not> st_stopping s \<longrightarrow> PublishStart (st_generation s) \<in># ts \<or> told_started ev) \<and>
     (\<not> Running s \<longrightarrow> PublishStart (st_generation s) \<notin># ts \<and> \<not> told_started ev))"

lemma life_start:
  assumes "life_inv s ts ev" "start_locked net b (log, s) = (r, (log', s'))"
  shows "life_inv s' (case r of Inr (Some g) \<Rightarrow> ts + {#PublishStart g#} | _ \<Rightarrow> ts) ev"
proof (cases "Running s")
  case True
  with assms(2) have "r = Inr None" "s' = s" by (auto simp: start_locked_def Running_def)
  with assms(1) show ?thesis by simp
next
  case False
  with assms(1) have ok: "stack_ok s" and stops: "\<not> st_stopping s" by (auto simp: life_inv_def stack_ok_def)
  note o = start_locked_outcome [OF ok assms(2)]
  have g: "g \<le> st_generation s" if "PublishStart g \<in># ts" for g using assms(1) that by (simp add: life_inv_def)
  show ?thesis
  proof (cases r)
    case (Inl e)
    with o have f: "stack_ok s'" "\<not> Running s'" "st_generation s \<le> st_generation s'" by simp_all
    have "PublishStart (st_generation s') \<notin># ts"
    proof
      assume p: "PublishStart (st_generation s') \<in># ts"
      with g f(3) have "st_generation s' = st_generation s" by fastforce
      with p assms(1) False show False by (simp add: life_inv_def)
    qed
    with assms(1) Inl f g False stops show ?thesis by (fastforce simp: life_inv_def stack_ok_def)
  next
    case (Inr x)
    with o False obtain n where x: "x = Some n" "stack_ok s'" "Running s'" "n = st_generation s'" "st_generation s < n"
      by (cases x) auto
    have "h \<le> n" if "PublishStart h \<in># ts" for h using g [OF that] x(5) by simp
    with assms(1) Inr x False stops show ?thesis by (auto simp: life_inv_def stack_ok_def is_stop_def)
  qed
qed

lemma life_run_inv: "life_run net rt ts ev \<Longrightarrow> life_inv (snd rt) ts ev"
proof (induction rule: life_run.induct)
  case (new port)
  show ?case by (simp add: life_inv_def NewStack_def parts_ok_def Running_def told_started_def)
next
  case (start log s ts ev b r log' s')
  then show ?case using life_start by simp
next
  case (publish log s ts g ev)
  then show ?case by (auto simp: life_inv_def is_stop_def start_valid_def told_started_def Running_def split: if_splits)
next
  case (stop log s ts ev s')
  then have s': "s' = s\<lparr>st_stopping := True, st_generation := st_generation s + 1\<rparr>" "Running s" "\<not> st_stopping s"
    by (auto simp: stop_begin_def Running_def split: if_splits)
  have "PublishStart (st_generation s + 1) \<notin># ts" using stop.IH by (auto simp: life_inv_def)
  moreover have "FinishStop \<notin># ts" using stop.IH s'(3) by (auto simp: life_inv_def is_stop_def)
  moreover have "g \<le> st_generation s + 1" if "PublishStart g \<in># ts" for g using stop.IH that by (auto simp: life_inv_def intro: le_SucI)
  ultimately show ?case using stop.IH s' by (auto simp: life_inv_def is_stop_def parts_ok_def Running_def)
next
  case (notify log s ts ev)
  then show ?case by (auto simp: life_inv_def is_stop_def told_started_def split: if_splits)
next
  case (finish log s ts ev)
  obtain l' s' where f: "stop_finish net (log, s) = (l', s')" by fastforce
  from finish.IH have st: "st_stopping s" "filter_mset is_stop ts = {#}" by (auto simp: life_inv_def is_stop_def split: if_splits)
  with finish.IH have "parts_ok s" "st_tunnelMgr s \<noteq> None" by (auto simp: life_inv_def Running_def)
  from stop_finish_ok [OF this f] have o: "stack_ok s'" "\<not> Running s'" "st_generation s' = st_generation s" by simp_all
  have "FinishStop \<notin># filter_mset is_stop ts" by (simp add: st(2))
  then have "FinishStop \<notin># ts" by (simp add: is_stop_def)
  with finish.IH st o f show ?case by (auto simp: life_inv_def stack_ok_def)
next
  case (sync log s ts ev b r log' s')
  from FullSync_same [OF sync.hyps(2)] sync.IH show ?case by (auto simp: life_inv_def)
qed

text \<open>
  C31: However starts, stops and synchronisations overlap, the service is never left with a wrong
  belief: when no start and no stop is under way, the last thing it was told is that the stack
  started if and only if the stack is running.
\<close>

theorem lifecycle_agrees:
  assumes "life_run net (log, s) {#} ev"
  shows "Running s = (ev \<noteq> [] \<and> last ev = Started) \<and> \<not> st_stopping s"
  using life_run_inv [OF assms] by (auto simp: life_inv_def told_started_def split: if_splits)

section \<open>Examples\<close>

definition ex_bundle :: SyncBundle where
  "ex_bundle = \<lparr>sb_Settings = \<lparr>ns_HubIP = v4_string 10 0 0 1, ns_DNSIP = v4_string 10 0 0 1, ns_WGSubnet = ''10.0.0.0/24'',
       ns_ServerPrivateKey = ex_key, ns_MTU = 1420, ns_ListenPort = 51820, ns_StatusInterval = 1, ns_UpstreamDNS = []\<rparr>,
     sb_Peers = [], sb_Policy = \<lparr>ap_Blocked = [], ap_Transparent = \<lparr>ts_Peers = [], ts_UniLinks = []\<rparr>\<rparr>, sb_Forwards = [], sb_Maps = [],
     sb_DNS = \<lparr>dc_HubIP = v4_string 10 0 0 1, dc_Peers = [], dc_Maps = []\<rparr>\<rparr>"

lemma ex_parts: "\<exists>m dns log. start_parts fair_net 51820 ex_bundle [] = (Inr (m, dns, Addr4 10 0 0 1), log)"
  by (simp add: start_parts_def bring_up_def ex_bundle_def NewManager_def ConfigureServer_def SyncAll_def EnableForwarding_def
      dns_listenUDP_def StartWebServer_def tm_Up_def wrapped_def andthen_def attempt_def ret_def lift_res_def call_def fair_net_def
      ex_key_hex parseMapVIPs_def HubDNSPort_def HubTunnelWebPort_def open_socks_def Let_def)

lemma ex_ingress:
  assumes "st_forwardProxy s = None" "st_mapProxy s = None"
  shows "\<exists>rt. applyIngressLocked fair_net ex_bundle (log, s) = (Inr (), rt)"
proof -
  have f: "NewForwardProxy (v4_string 10 0 0 1) ''10.0.0.0/24'' =
      Inr \<lparr>fp_hubIP = Addr4 10 0 0 1, fp_vpnSubnet = Some (v4_net [10, 0, 0, 0] 24), fp_serving = None\<rparr>"
    by (simp add: NewForwardProxy_def parseVPNSubnet_def parse_slash24 res_bind_def)
  have b: "ns_HubIP (sb_Settings ex_bundle) = v4_string 10 0 0 1" "ns_WGSubnet (sb_Settings ex_bundle) = ''10.0.0.0/24''"
    "sb_Forwards ex_bundle = []" "sb_Maps ex_bundle = []" "ingressForwardRules [] = []" "ingressMapRules [] = []" "parseMapVIPs [] = []"
    by (simp_all add: ex_bundle_def ingressForwardRules_def ingressMapRules_def parseMapVIPs_def)
  show ?thesis using assms
    by (simp add: applyIngressLocked_def ensure_forwardProxy_def ensure_mapProxy_def b f ex_map_new on_tunnel_def modify_def
        apply_forwards_def apply_maps_def wrapped_def andthen_def attempt_def ret_def fp_Apply_def validateForwardRules_def fp_Stop_def
        net_act_def EnsureMapVIPs_def mp_Apply_def call_def fair_net_def Let_def)
qed

lemma ex_start: "\<exists>rt. start_locked fair_net ex_bundle ([], NewStack 51820) = (Inr (Some 1), rt)"
proof -
  obtain m dns log where p: "start_parts fair_net 51820 ex_bundle [] = (Inr (m, dns, Addr4 10 0 0 1), log)" using ex_parts by blast
  let ?s = "(NewStack 51820)\<lparr>st_tunnelMgr := Some m, st_generation := 1, st_dnsServer := Some dns, st_tunnelSrv := Some (Addr4 10 0 0 1),
      st_startBundle := Some ex_bundle\<rparr>"
  have "st_forwardProxy ?s = None" "st_mapProxy ?s = None" by (simp_all add: NewStack_def)
  from ex_ingress [OF this, of log] obtain l s where i: "applyIngressLocked fair_net ex_bundle (log, ?s) = (Inr (), (l, s))" by auto
  from keepsD [OF keeps_applyIngress i] have "st_generation s = 1" by (simp add: same_def)
  with p i show ?thesis by (simp add: start_locked_def NewStack_def on_tunnel_def modify_def Let_def)
qed

lemma NewStack_ok: "stack_ok (NewStack port)"
  by (simp add: stack_ok_def parts_ok_def NewStack_def)


theorem FullSync_outcome_witness:
  "\<exists>s r log' s'. stack_ok s \<and> Running s \<and> stack_FullSync fair_net ex_bundle ([], s) = (r, (log', s')) \<and>
     (case r of Inr _ \<Rightarrow> carries s' ex_bundle | Inl _ \<Rightarrow> Running s')"
proof -
  obtain l s where st: "start_locked fair_net ex_bundle ([], NewStack 51820) = (Inr (Some 1), (l, s))" using ex_start by auto
  from start_locked_outcome [OF NewStack_ok st] have s: "stack_ok s" "Running s" by simp_all
  obtain r log' s' where f: "stack_FullSync fair_net ex_bundle ([], s) = (r, (log', s'))" by (metis prod_cases3)
  from FullSync_outcome [OF s(1) f] s have "case r of Inr _ \<Rightarrow> carries s' ex_bundle | Inl _ \<Rightarrow> Running s'" by (auto split: sum.splits)
  with s f show ?thesis by blast
qed

theorem lifecycle_agrees_witness:
  "\<exists>log s. life_run fair_net (log, s) {#} [Started] \<and> Running s"
proof -
  obtain l s where st: "start_locked fair_net ex_bundle ([], NewStack 51820) = (Inr (Some 1), (l, s))" using ex_start by auto
  from start_locked_outcome [OF NewStack_ok st] have v: "start_valid 1 s" by (simp add: start_valid_def stack_ok_def Running_def)
  from life_run.start [OF life_run.new st] have "life_run fair_net (l, s) ({#} + {#PublishStart 1#}) []" by simp
  from life_run.publish [OF this] v have r: "life_run fair_net (l, s) {#} [Started]" by simp
  from lifecycle_agrees [OF r] r show ?thesis by auto
qed

end
