(* ===== verification/Snapshot.thy ===== *)
theory Snapshot
  imports Stack_Props
begin

text \<open>
  What a loaded snapshot contains: the relation between the database and the bundle that the service
  hands to the data plane (\<^verbatim>\<open>service/sync.go\<close>, \<^verbatim>\<open>service/access.go\<close>).
\<close>

section \<open>The snapshot of a database\<close>

definition allowed_in :: "db \<Rightarrow> nat \<Rightarrow> nat set" where
  "allowed_in db i = a_GroupID ` set (filter (\<lambda>a. a_MapID a = i) (t_allows db))"

definition details_of :: "db \<Rightarrow> MapDetail list \<Rightarrow> bool" where
  "details_of db ds = (mset (map mdt_Map ds) = mset (t_maps db) \<and>
     (\<forall>d \<in> set ds. set (mdt_AllowedGroups d) = allowed_in db (m_ID (mdt_Map d))))"

definition policy_of :: "db \<Rightarrow> AccessPolicySpec \<Rightarrow> bool" where
  "policy_of db spec = (\<exists>ps ls gs ds. mset ps = mset (t_peers db) \<and> mset ls = mset (t_links db) \<and> mset gs = mset (t_groups db) \<and>
     details_of db ds \<and>
     BuildAccessPolicySpec (peerEndpoints ps) (groupLinkPairs ls) (NewGroupAccessPolicy (groupAccessList gs)) (map_access_of ds) = Inr spec)"

definition snapshot_of :: "db \<Rightarrow> SyncBundle \<Rightarrow> bool" where
  "snapshot_of db b = (\<exists>st ps fs ds. st \<in> set (t_settings db) \<and> sb_Settings b = net_settings st \<and>
     mset ps = mset (t_peers db) \<and> sb_Peers b = map wg_peer ps \<and>
     mset fs = mset (t_forwards db) \<and> sb_Forwards b = map forward_rule fs \<and>
     details_of db ds \<and> sb_Maps b = map map_rule ds \<and>
     sb_DNS b = BuildDNSCatalog (se_HubIP st) (sb_Peers b) (sb_Maps b) \<and> policy_of db (sb_Policy b))"

lemma snapshot_policy: "snapshot_of db b \<Longrightarrow> policy_of db p \<Longrightarrow> snapshot_of db (b\<lparr>sb_Policy := p\<rparr>)"
  by (auto simp: snapshot_of_def)

section \<open>Loading\<close>

lemma ListMapGroupIDs_set:
  assumes "sql_ok exec"
  shows "hoare (at db0) (ListMapGroupIDs exec i) (\<lambda>x db. at db0 db \<and> set x = allowed_in db0 i) (at db0)"
  unfolding ListMapGroupIDs_def
proof (rule hoare_read)
  show "hoare (at db0) (run exec (Select TAllow (on_allow (\<lambda>a. a_MapID a = i))))
     (\<lambda>rows db. at db0 db \<and> mset (t_allows rows) = mset (filter (\<lambda>a. a_MapID a = i) (t_allows db0))) (at db0)"
  proof (intro hoare_run [OF assms(1)])
    fix db db' rows assume "at db0 db" "uniq_ok db'" "sem (Select TAllow (on_allow (\<lambda>a. a_MapID a = i))) db db' rows"
    then have "at db0 db'" "mset rows = mset (filter (\<lambda>r. table_of r = TAllow \<and> on_allow (\<lambda>a. a_MapID a = i) r) db0)"
      by auto
    with t_allows_perm [OF this(2)]
    show "at db0 db' \<and> mset (t_allows rows) = mset (filter (\<lambda>a. a_MapID a = i) (t_allows db0))" by (auto simp: t_allows_filter)
  qed auto
next
  fix rows assume "mset (t_allows rows) = mset (filter (\<lambda>a. a_MapID a = i) (t_allows db0))"
  then have "set (t_allows rows) = set (filter (\<lambda>a. a_MapID a = i) (t_allows db0))" by (rule mset_eq_setD)
  then show "hoare (at db0) (ret (map a_GroupID (sort_key a_Position (sort_key a_GroupID (t_allows rows)))))
     (\<lambda>x db. at db0 db \<and> set x = allowed_in db0 i) (at db0)" by (auto simp: allowed_in_def intro!: hoare_ret)
qed

lemma map_details_at:
  assumes "sql_ok exec"
  shows "hoare (at db0) (map_details exec ms)
     (\<lambda>ds db. at db0 db \<and> (map mdt_Map ds = ms \<and> (\<forall>d \<in> set ds. set (mdt_AllowedGroups d) = allowed_in db0 (m_ID (mdt_Map d))))) (at db0)"
proof (induction ms)
  case Nil
  then show ?case by (auto intro!: hoare_ret)
next
  case (Cons m ms)
  show ?case unfolding map_details.simps
    by (rule hoare_read [OF ListMapGroupIDs_set [OF assms]], rule hoare_read [OF Cons], rule hoare_ret) auto
qed

lemma ListMapDetails_at:
  "sql_ok exec \<Longrightarrow> hoare (at db0) (ListMapDetails exec) (\<lambda>ds db. at db0 db \<and> details_of db0 ds) (at db0)"
  unfolding ListMapDetails_def
  by (rule hoare_read [OF find_typed_at(5)], assumption, rule hoare_weaken [OF map_details_at]) (auto simp: details_of_def)

lemma policy_from_at:
  assumes "sql_ok exec" "mset ps = mset (t_peers db0)" "mset ls = mset (t_links db0)" "mset gs = mset (t_groups db0)"
  shows "hoare (at db0) (buildAccessPolicySpecFrom exec (peerEndpoints ps) (groupLinkPairs ls) (groupAccessList gs))
     (\<lambda>spec db. at db0 db \<and> policy_of db0 spec) (at db0)"
  unfolding buildAccessPolicySpecFrom_def buildMapAccessPolicy_def
proof (rule hoare_read)
  show "hoare (at db0) (andthen (ListMapDetails exec) (\<lambda>details. ret (map_access_of details)))
     (\<lambda>p db. at db0 db \<and> (\<exists>ds. details_of db0 ds \<and> p = map_access_of ds)) (at db0)"
    by (rule hoare_read [OF ListMapDetails_at [OF assms(1)]], rule hoare_ret) auto
  show "hoare (at db0) (lift_res (BuildAccessPolicySpec (peerEndpoints ps) (groupLinkPairs ls) (NewGroupAccessPolicy (groupAccessList gs)) p))
     (\<lambda>spec db. at db0 db \<and> policy_of db0 spec) (at db0)" if "\<exists>ds. details_of db0 ds \<and> p = map_access_of ds" for p
    by (rule hoare_lift) (use that assms in \<open>auto simp: policy_of_def\<close>)
qed

lemma buildAccessPolicySpec_at:
  assumes "sql_ok exec"
  shows "hoare (at db0) (buildAccessPolicySpec exec) (\<lambda>spec db. at db0 db \<and> policy_of db0 spec) (at db0)"
  unfolding buildAccessPolicySpec_def
  by (rule hoare_read [OF find_typed_at(1) [OF assms]], rule hoare_read [OF find_typed_at(3) [OF assms]],
      rule hoare_read [OF find_typed_at(2) [OF assms]], rule policy_from_at [OF assms])

lemma loadSyncBundle_at:
  assumes "sql_ok exec"
  shows "hoare (at db0) (loadSyncBundle exec) (\<lambda>b db. at db0 db \<and> snapshot_of db0 b) (at db0)"
  unfolding loadSyncBundle_def Let_def
  by (rule hoare_read [OF first_settings_at [OF assms]], rule hoare_read [OF find_typed_at(1) [OF assms]],
      rule hoare_read [OF find_typed_at(3) [OF assms]], rule hoare_read [OF find_typed_at(2) [OF assms]],
      rule hoare_read [OF find_typed_at(4) [OF assms]], rule hoare_read [OF ListMapDetails_at [OF assms]],
      rule hoare_read [OF policy_from_at [OF assms]], assumption, assumption, assumption, rule hoare_ret)
    (auto simp: snapshot_of_def)

end
