(* ===== verification/Reconcile.thy ===== *)
theory Reconcile
  imports Snapshot
begin

text \<open>
  The service and the data plane together (\<^verbatim>\<open>service/mutation.go\<close>): the contract the service relies on
  when it drives a data plane, what its reconciliation achieves under that contract, and the stack of
  \<^verbatim>\<open>vpn/runtime\<close> as the data plane that keeps it.
\<close>

section \<open>The contract of a data plane\<close>

text \<open>
  \<open>ok\<close> holds between calls, \<open>live\<close> says whether the data plane is up, and \<open>carries\<close> that all of it has
  been loaded from a snapshot.  A start of a stopped data plane carries the snapshot or leaves it
  stopped; stopping always succeeds; a synchronisation that succeeds carries the new snapshot.
\<close>

locale network_runtime =
  fixes ops :: "'rt net_ops" and ok :: "'rt \<Rightarrow> bool" and live :: "'rt \<Rightarrow> bool" and carried :: "'rt \<Rightarrow> SyncBundle \<Rightarrow> bool"
  assumes start_law: "ok s \<Longrightarrow> op_Start ops b s = (r, s') \<Longrightarrow> ok s' \<and> (case r of Inl _ \<Rightarrow> \<not> live s \<and> \<not> live s'
      | Inr started \<Rightarrow> if started then \<not> live s \<and> carried s' b else live s \<and> s' = s)"
    and stop_law: "ok s \<Longrightarrow> op_Stop ops s = (q, s') \<Longrightarrow> q = Inr (live s) \<and> ok s' \<and> \<not> live s'"
    and sync_law: "ok s \<Longrightarrow> op_FullSync ops b s = (u, s') \<Longrightarrow> ok s' \<and> live s' = live s \<and>
      (case u of Inr _ \<Rightarrow> \<not> live s \<or> carried s' b | Inl _ \<Rightarrow> live s)"
    and policy_law: "ok s \<Longrightarrow> op_ApplyPolicy ops p s = (u, s') \<Longrightarrow> u = Inr () \<and> ok s' \<and> live s' = live s \<and>
      (carried s b \<longrightarrow> carried s' (b\<lparr>sb_Policy := p\<rparr>))"
    and carried_live: "ok s \<Longrightarrow> carried s b \<Longrightarrow> live s"
begin

text \<open>The hub's own record of the data plane agrees with it.\<close>

definition app_ok :: "'rt App \<Rightarrow> bool" where
  "app_ok a = (case app_net a of None \<Rightarrow> \<not> app_live a | Some rt \<Rightarrow> ok rt \<and> app_live a = live rt)"

definition fresh :: "db \<Rightarrow> 'rt App \<Rightarrow> bool" where
  "fresh db a = (app_live a \<and> (\<exists>rt b. app_net a = Some rt \<and> ok rt \<and> carried rt b \<and> snapshot_of db b))"

lemma fresh_ok: "fresh db a \<Longrightarrow> app_ok a \<and> app_live a"
  by (auto simp: fresh_def app_ok_def carried_live)

lemma net_Stop_outcome:
  assumes "app_ok a" "app_net a = Some rt" "net_Stop ops a = (r, a')"
  shows "r = Inr () \<and> app_store a' = app_store a \<and> \<not> app_live a' \<and> (\<exists>rt'. app_net a' = Some rt' \<and> ok rt' \<and> \<not> live rt')"
proof -
  obtain q rt' where s: "op_Stop ops rt = (q, rt')" by fastforce
  from assms(1,2) have "ok rt" "app_live a = live rt" by (auto simp: app_ok_def)
  with stop_law [OF _ s] assms(2,3) s show ?thesis
    by (auto simp: net_Stop_def andthen_def on_net_def onStopped_def stopStatusPoller_def split: if_splits)
qed

lemma hub_stopped_run: "hub_stopped a = (Inr (), onStopped a)"
  by (simp add: hub_stopped_def)

lemma onStopped_simps: "app_net (onStopped a) = app_net a" "app_store (onStopped a) = app_store a" "\<not> app_live (onStopped a)"
  by (simp_all add: onStopped_def stopStatusPoller_def)

lemma store_read:
  assumes "hoare (at db) m (\<lambda>x db'. at db db' \<and> A x) (at db)" "uniq_ok (snd (app_store a))" "db = snd (app_store a)"
    and "store m a = (r, a')"
  shows "snd (app_store a') = db \<and> app_net a' = app_net a \<and> app_live a' = app_live a \<and> (case r of Inl _ \<Rightarrow> True | Inr x \<Rightarrow> A x)"
proof -
  obtain n where st: "app_store a = (n, db)" using assms(3) by (cases "app_store a") auto
  obtain q n' db' where m: "m (n, db) = (q, (n', db'))" by (metis prod_cases3)
  have "uniq_ok db" using assms(2,3) by simp
  from hoare_outcome [OF assms(1) this m] have o: "case q of Inl _ \<Rightarrow> db' = db | Inr x \<Rightarrow> db' = db \<and> A x"
    by (cases q) simp_all
  from m assms(4) st have "r = q" "a' = a\<lparr>app_store := (n', db')\<rparr>" by (simp_all add: store_def)
  with o show ?thesis by (cases q) simp_all
qed

lemma onStarted_fresh:
  assumes "sql_ok exec" "db = snd (app_store a)" "uniq_ok db" "app_net a = Some rt" "ok rt" "carried rt b" "snapshot_of db b"
    and "onStarted ops exec a = (r, a')"
  shows "r = Inr () \<and> snd (app_store a') = db \<and> fresh db a'"
proof -
  let ?a = "a\<lparr>app_live := True\<rparr>"
  obtain q a1 where l: "store (loadSyncBundle exec) ?a = (q, a1)" by fastforce
  from store_read [OF loadSyncBundle_at [OF assms(1)] _ _ l] assms(2,3)
  have a1: "snd (app_store a1) = db" "app_net a1 = app_net a" "app_live a1" by simp_all
  define a2 where "a2 = (case q of Inr bundle \<Rightarrow> startStatusPoller (ns_StatusInterval (sb_Settings bundle)) a1 | Inl _ \<Rightarrow> a1)"
  have a2: "snd (app_store a2) = db" "app_net a2 = Some rt" "app_live a2"
    using a1 assms(4) by (auto simp: a2_def startStatusPoller_def split: sum.splits)
  from assms(8) l have run: "ignore (SyncAccessFilter ops exec) a2 = (r, a')"
    by (simp add: onStarted_def a2_def Let_def)
  obtain p a3 where p: "store (buildAccessPolicySpec exec) a2 = (p, a3)" by fastforce
  from store_read [OF buildAccessPolicySpec_at [OF assms(1)] _ _ p] a2 assms(3)
  have a3: "snd (app_store a3) = db" "app_net a3 = Some rt" "app_live a3" "case p of Inl _ \<Rightarrow> True | Inr x \<Rightarrow> policy_of db x"
    by simp_all
  show ?thesis
  proof (cases p)
    case (Inl e)
    with run p a3 assms(5-7) show ?thesis
      by (auto simp: ignore_def SyncAccessFilter_def andthen_def attempt_def ret_def fresh_def)
  next
    case (Inr spec)
    obtain u rt' where ap: "op_ApplyPolicy ops spec rt = (u, rt')" by fastforce
    from policy_law [OF assms(5) ap, of b] assms(6) have rt': "ok rt'" "carried rt' (b\<lparr>sb_Policy := spec\<rparr>)" by simp_all
    from a3(4) Inr assms(7) have "snapshot_of db (b\<lparr>sb_Policy := spec\<rparr>)" by (simp add: snapshot_policy)
    with run p a3 Inr ap rt' show ?thesis
      by (auto simp: ignore_def SyncAccessFilter_def andthen_def attempt_def ret_def fresh_def on_net_def)
  qed
qed

text \<open>Starting a stopped data plane.\<close>

lemma net_Start_outcome:
  assumes "sql_ok exec" "db = snd (app_store a)" "uniq_ok db" "app_net a = Some rt" "ok rt" "\<not> live rt" "\<not> app_live a"
    and "snapshot_of db b" "net_Start ops exec b a = (r, a')"
  shows "snd (app_store a') = db \<and> (case r of Inr _ \<Rightarrow> fresh db a' | Inl _ \<Rightarrow> app_ok a' \<and> (\<exists>rt'. app_net a' = Some rt') \<and> \<not> app_live a')"
proof -
  obtain q rt' where s: "op_Start ops b rt = (q, rt')" by fastforce
  note law = start_law [OF assms(5) s]
  show ?thesis
  proof (cases q)
    case (Inl e)
    with assms s law show ?thesis by (auto simp: net_Start_def andthen_def on_net_def app_ok_def)
  next
    case (Inr started)
    with law assms(6) have st: "started" "ok rt'" "carried rt' b" by (auto split: if_splits)
    let ?a = "a\<lparr>app_net := Some rt'\<rparr>"
    from assms(4,9) s Inr st(1) have "onStarted ops exec ?a = (r, a')" by (simp add: net_Start_def andthen_def on_net_def)
    from onStarted_fresh [OF assms(1) _ assms(3) _ st(2,3) assms(8) this] assms(2) show ?thesis by auto
  qed
qed

lemma restart_outcome:
  assumes "sql_ok exec" "db = snd (app_store a)" "uniq_ok db" "app_ok a" "app_net a = Some rt"
    and "snapshot_of db b" "restart_with ops exec operation b joined a = (r, a')"
  shows "snd (app_store a') = db \<and> app_ok a' \<and> (case r of Inr _ \<Rightarrow> fresh db a' | Inl e \<Rightarrow> IsRuntimeFailure e \<and> \<not> app_live a')"
proof -
  obtain q a1 where s: "net_Stop ops a = (q, a1)" by fastforce
  from net_Stop_outcome [OF assms(4,5) s] obtain rt1 where 1: "q = Inr ()" "app_store a1 = app_store a" "app_net a1 = Some rt1"
    "ok rt1" "\<not> live rt1" by auto
  let ?a = "onStopped a1"
  obtain q2 a2 where st: "net_Start ops exec b ?a = (q2, a2)" by fastforce
  from net_Start_outcome [OF assms(1) _ assms(3) _ 1(4,5) _ assms(6) st] 1 assms(2)
  have o: "snd (app_store a2) = db" "case q2 of Inr _ \<Rightarrow> fresh db a2 | Inl _ \<Rightarrow> app_ok a2 \<and> (\<exists>rt'. app_net a2 = Some rt') \<and> \<not> app_live a2"
    by (simp_all add: onStopped_simps)
  show ?thesis
  proof (cases q2)
    case (Inr u)
    with assms(7) s 1(1) st have "r = Inr ()" "a' = a2" by (simp_all add: restart_with_def andthen_def attempt_def hub_stopped_run ret_def)
    with o Inr fresh_ok show ?thesis by auto
  next
    case (Inl e)
    with o obtain rt2 where a2: "app_ok a2" "app_net a2 = Some rt2" by auto
    obtain q3 a3 where s3: "net_Stop ops a2 = (q3, a3)" by fastforce
    from net_Stop_outcome [OF a2 s3] obtain rt3 where 3: "q3 = Inr ()" "app_store a3 = app_store a2" "app_net a3 = Some rt3"
      "ok rt3" "\<not> live rt3" by auto
    from assms(7) s 1(1) st Inl s3 3(1) have "r = Inl (RuntimeMutationError operation (joined [e]))" "a' = onStopped a3"
      by (simp_all add: restart_with_def andthen_def attempt_def hub_stopped_run fail_def)
    with 3 o(1) show ?thesis
      by (simp add: onStopped_simps app_ok_def IsRuntimeFailure_def IsRuntimeMutationError_def)
  qed
qed

lemma syncRuntimeBundle_outcome:
  assumes "syncRuntimeBundle ops b a = (q, a')" "app_ok a" "app_net a = Some rt" "snapshot_of (snd (app_store a)) b"
  shows "app_store a' = app_store a \<and> app_ok a' \<and> (\<exists>rt2. app_net a' = Some rt2) \<and>
    (case q of Inr _ \<Rightarrow> \<not> app_live a' \<or> fresh (snd (app_store a)) a' | Inl _ \<Rightarrow> True)"
proof (cases "app_live a")
  case False
  with assms show ?thesis by (auto simp: syncRuntimeBundle_def)
next
  case True
  obtain u rt2 where f: "op_FullSync ops b rt = (u, rt2)" by fastforce
  have rt: "ok rt" "live rt" using assms(2,3) True by (auto simp: app_ok_def)
  from sync_law [OF rt(1) f] rt(2) True assms f show ?thesis
    by (auto simp: syncRuntimeBundle_def on_net_def app_ok_def fresh_def split: sum.splits)
qed

text \<open>
  Reconciliation after a change of the database: it never touches the database; when it succeeds, a
  data plane that is up carries a snapshot of the database; when it fails, the hub is down and the
  error says so.
\<close>

lemma reconcile_outcome:
  assumes "sql_ok exec" "db = snd (app_store a)" "uniq_ok db" "app_ok a"
    and "reconcileRuntime ops exec operation restart a = (r, a')"
  shows "snd (app_store a') = db \<and> app_ok a' \<and>
    (case r of Inr _ \<Rightarrow> \<not> app_live a' \<or> fresh db a' | Inl e \<Rightarrow> IsRuntimeFailure e \<and> \<not> app_live a')"
proof (cases "app_net a")
  case None
  with assms show ?thesis by (auto simp: reconcileRuntime_def app_ok_def)
next
  case (Some rt)
  obtain q a1 where l: "store (loadSyncBundle exec) a = (q, a1)" by fastforce
  from store_read [OF loadSyncBundle_at [OF assms(1)] _ _ l] assms(2,3)
  have a1: "snd (app_store a1) = db" "app_net a1 = app_net a" "app_live a1 = app_live a" "case q of Inl _ \<Rightarrow> True | Inr b \<Rightarrow> snapshot_of db b"
    by auto
  with assms(4) Some have ok1: "app_ok a1" "app_net a1 = Some rt" by (simp_all add: app_ok_def)
  show ?thesis
  proof (cases q)
    case (Inl e)
    obtain q2 a2 where s: "net_Stop ops a1 = (q2, a2)" by fastforce
    from net_Stop_outcome [OF ok1 s] obtain rt2 where 2: "q2 = Inr ()" "app_store a2 = app_store a1" "app_net a2 = Some rt2"
      "ok rt2" "\<not> live rt2" by auto
    from assms(5) Some l Inl s 2(1) ok1(2) have "r = Inl (RuntimeStoppedError operation e)" "a' = onStopped a2"
      by (simp_all add: reconcileRuntime_def andthen_def attempt_def stopAfterRuntimeFailure_def hub_stopped_run fail_def)
    with 2 a1(1) show ?thesis
      by (simp add: onStopped_simps app_ok_def IsRuntimeFailure_def IsRuntimeMutationError_def)
  next
    case (Inr b)
    with a1(4) have b: "snapshot_of db b" by simp
    note restarted = restart_outcome [OF assms(1) a1(1) [symmetric] assms(3) ok1 b]
    show ?thesis
    proof (cases restart)
      case True
      with assms(5) Some l Inr have "restart_with ops exec operation b (\<lambda>errs. case errs of [e] \<Rightarrow> e | _ \<Rightarrow> Join errs) a1 = (r, a')"
        by (simp add: reconcileRuntime_def andthen_def attempt_def)
      from restarted [OF this] show ?thesis by (cases r) simp_all
    next
      case False
      obtain q2 a2 where s: "syncRuntimeBundle ops b a1 = (q2, a2)" by fastforce
      have out: "snd (app_store a2) = db \<and> app_ok a2 \<and> (\<exists>rt2. app_net a2 = Some rt2) \<and> (case q2 of Inr _ \<Rightarrow> \<not> app_live a2 \<or> fresh db a2 | Inl _ \<Rightarrow> True)"
        using syncRuntimeBundle_outcome [OF s ok1] b a1(1) by (cases q2) simp_all
      show ?thesis
      proof (cases q2)
        case (Inr u)
        with assms(5) Some l \<open>q = Inr b\<close> s False have "r = Inr ()" "a' = a2"
          by (simp_all add: reconcileRuntime_def andthen_def attempt_def ret_def)
        with out Inr show ?thesis by simp
      next
        case (Inl e)
        with assms(5) Some l \<open>q = Inr b\<close> s False have j: "restart_with ops exec operation b (\<lambda>errs. Join (e # errs)) a2 = (r, a')"
          by (simp add: reconcileRuntime_def andthen_def attempt_def restartAfterRuntimeFailure_def)
        from out obtain rt2 where a2: "db = snd (app_store a2)" "app_ok a2" "app_net a2 = Some rt2" by auto
        from restart_outcome [OF assms(1) a2(1) assms(3) a2(2,3) b j] show ?thesis by (cases r) simp_all
      qed
    qed
  qed
qed

text \<open>A request that changes the database and then reconciles.\<close>

lemma mutation_outcome:
  assumes "sql_ok exec" "hoare good p (\<lambda>_. good) good" "good (snd (app_store a))" "app_ok a"
    and "andthen (store p) (\<lambda>x. andthen (reconcileRuntime ops exec operation restart) (\<lambda>_. ret (f x))) a = (r, a')"
  shows "good (snd (app_store a')) \<and> app_ok a' \<and> (is_ok r \<longrightarrow> \<not> app_live a' \<or> fresh (snd (app_store a')) a')"
proof -
  obtain q a1 where st: "store p a = (q, a1)" by fastforce
  obtain n db where d: "app_store a = (n, db)" by fastforce
  obtain n' db' where m: "p (n, db) = (q, (n', db'))" using st d by (cases "p (n, db)") (auto simp: store_def)
  with st d have a1: "a1 = a\<lparr>app_store := (n', db')\<rparr>" by (simp add: store_def)
  have g: "good db'" using good_outcome [OF assms(2) m] assms(3) d by simp
  have ok1: "app_ok a1" using assms(4) by (cases "app_net a") (auto simp: a1 app_ok_def)
  show ?thesis
  proof (cases q)
    case (Inl e)
    with assms(5) st have "r = Inl e" "a' = a1" by (simp_all add: andthen_def)
    with g ok1 show ?thesis by (simp add: a1)
  next
    case (Inr x)
    obtain q2 a2 where rec: "reconcileRuntime ops exec operation restart a1 = (q2, a2)" by fastforce
    have db': "db' = snd (app_store a1)" by (simp add: a1)
    from reconcile_outcome [OF assms(1) db' _ ok1 rec] g
    have o: "snd (app_store a2) = db'" "app_ok a2" "case q2 of Inr _ \<Rightarrow> \<not> app_live a2 \<or> fresh db' a2 | Inl e \<Rightarrow> IsRuntimeFailure e \<and> \<not> app_live a2"
      by simp_all
    from assms(5) st Inr have run: "andthen (reconcileRuntime ops exec operation restart) (\<lambda>_. ret (f x)) a1 = (r, a')"
      by (simp add: andthen_def [of "store p"])
    then have "a' = a2 \<and> is_ok r = is_ok q2"
      by (cases rule: andthen_cases) (auto simp: rec ret_def)
    with o g show ?thesis by (cases q2) simp_all
  qed
qed

lemma andthen_ret_unit: "andthen m (\<lambda>_. ret ()) = (m :: ('s, unit) act)"
  by (rule ext) (auto simp: andthen_def ret_def split: prod.splits sum.splits)

lemmas mutation_outcome_unit = mutation_outcome [where f = "\<lambda>_. ()", unfolded andthen_ret_unit]

end

section \<open>The stack keeps the contract\<close>

text \<open>The hub's state with the stack as its data plane.\<close>

definition hub_ok :: "rt App \<Rightarrow> bool" where
  "hub_ok a = (case app_net a of None \<Rightarrow> \<not> app_live a | Some (log, s) \<Rightarrow> stack_ok s \<and> app_live a = Running s)"

definition hub_fresh :: "db \<Rightarrow> rt App \<Rightarrow> bool" where
  "hub_fresh db a = (app_live a \<and> (\<exists>log s b. app_net a = Some (log, s) \<and> stack_ok s \<and> carries s b \<and> snapshot_of db b))"

lemma carries_running: "carries s b \<Longrightarrow> Running s"
  by (auto simp: carries_def Running_def split: option.splits)

lemma ApplyPolicy_outcome:
  assumes "stack_ok s" "stack_ApplyPolicy p (log, s) = (u, (log', s'))"
  shows "u = Inr () \<and> stack_ok s' \<and> Running s' = Running s \<and> (carries s b \<longrightarrow> carries s' (b\<lparr>sb_Policy := p\<rparr>))"
proof (cases "st_tunnelMgr s")
  case None
  with assms show ?thesis by (auto simp: stack_ApplyPolicy_def carries_def Running_def)
next
  case (Some m)
  with assms(2) have run: "on_tunnel (tm_SetAccessPolicy (Apply p)) (log, s) = (u, (log', s'))" by (simp add: stack_ApplyPolicy_def)
  then have u: "u = Inr ()" by (simp add: on_tunnel_def modify_def)
  have "keeps (on_tunnel (tm_SetAccessPolicy (Apply p)))" by (intro keeps_intro closed_simps)
  from keepsD [OF this run] have "same s s'" .
  with assms(1) Some have ok: "stack_ok s' \<and> Running s' = Running s"
    by (auto simp: same_def stack_ok_def parts_ok_def Running_def split: option.splits)
  have "carries s' (b\<lparr>sb_Policy := p\<rparr>)" if c: "carries s b"
  proof -
    from c Some obtain d where d: "st_dnsServer s = Some d" "dns_carries d b" "ingress_carried s b"
      by (auto simp: carries_def ingress_carried_def tun_carries_def split: option.splits)
    then have "dns_carries d (b\<lparr>sb_Policy := p\<rparr>)" "ingress_carried s (b\<lparr>sb_Policy := p\<rparr>)"
      by (simp_all add: dns_carries_def ingress_carried_def forwards_carried_def maps_carried_def split: option.splits)
    from policy_carries [OF this(2) d(1) this(1), of log u log' s'] run show ?thesis by simp
  qed
  with ok u show ?thesis by blast
qed

interpretation hub: network_runtime "stack_ops net status" "\<lambda>(log, s). stack_ok s" "\<lambda>(log, s). Running s" "\<lambda>(log, s) b. carries s b"
  for net status
proof
  fix s s' b and r :: "err + bool"
  assume "case s of (log, s) \<Rightarrow> stack_ok s" "op_Start (stack_ops net status) b s = (r, s')"
  then show "(case s' of (log, s) \<Rightarrow> stack_ok s) \<and> (case r of Inl _ \<Rightarrow> \<not> (case s of (log, s) \<Rightarrow> Running s) \<and> \<not> (case s' of (log, s) \<Rightarrow> Running s)
      | Inr started \<Rightarrow> if started then \<not> (case s of (log, s) \<Rightarrow> Running s) \<and> (case s' of (log, s) \<Rightarrow> \<lambda>b. carries s b) b
          else (case s of (log, s) \<Rightarrow> Running s) \<and> s' = s)"
    using Start_outcome [of "snd s" net b "fst s" r "fst s'" "snd s'"]
    by (auto simp: stack_ops_def split: sum.splits bool.splits)
next
  fix s s' and q :: "err + bool"
  assume "case s of (log, s) \<Rightarrow> stack_ok s" "op_Stop (stack_ops net status) s = (q, s')"
  then show "q = Inr (case s of (log, s) \<Rightarrow> Running s) \<and> (case s' of (log, s) \<Rightarrow> stack_ok s) \<and> \<not> (case s' of (log, s) \<Rightarrow> Running s)"
    using Stop_outcome [of "snd s" net "fst s" q "fst s'" "snd s'"] by (auto simp: stack_ops_def)
next
  fix s s' b and u :: "err + unit"
  assume "case s of (log, s) \<Rightarrow> stack_ok s" "op_FullSync (stack_ops net status) b s = (u, s')"
  then show "(case s' of (log, s) \<Rightarrow> stack_ok s) \<and> (case s' of (log, s) \<Rightarrow> Running s) = (case s of (log, s) \<Rightarrow> Running s) \<and>
      (case u of Inr _ \<Rightarrow> \<not> (case s of (log, s) \<Rightarrow> Running s) \<or> (case s' of (log, s) \<Rightarrow> \<lambda>b. carries s b) b
       | Inl _ \<Rightarrow> (case s of (log, s) \<Rightarrow> Running s))"
    using FullSync_running [of "snd s" net b "fst s" u "fst s'" "snd s'"] by (auto simp: stack_ops_def split: sum.splits)
next
  fix s s' p b and u :: "err + unit"
  assume "case s of (log, s) \<Rightarrow> stack_ok s" "op_ApplyPolicy (stack_ops net status) p s = (u, s')"
  then show "u = Inr () \<and> (case s' of (log, s) \<Rightarrow> stack_ok s) \<and> (case s' of (log, s) \<Rightarrow> Running s) = (case s of (log, s) \<Rightarrow> Running s) \<and>
      ((case s of (log, s) \<Rightarrow> \<lambda>b. carries s b) b \<longrightarrow> (case s' of (log, s) \<Rightarrow> \<lambda>b. carries s b) (b\<lparr>sb_Policy := p\<rparr>))"
    using ApplyPolicy_outcome [of "snd s" p "fst s" u "fst s'" "snd s'" b] by (auto simp: stack_ops_def)
next
  fix s b
  assume "case s of (log, s) \<Rightarrow> stack_ok s" "(case s of (log, s) \<Rightarrow> \<lambda>b. carries s b) b"
  then show "case s of (log, s) \<Rightarrow> Running s" by (auto simp: carries_running)
qed

lemma hub_ok_iff: "hub.app_ok a = hub_ok a"
  by (auto simp: hub.app_ok_def hub_ok_def split: option.splits prod.splits)

lemma hub_fresh_iff: "hub.fresh db a = hub_fresh db a"
  by (auto simp: hub.fresh_def hub_fresh_def)


section \<open>Requests\<close>

text \<open>
  The requests that change the database and always reconcile; the flag says whether the request was
  answered with success.  (Renaming a group, and an edit of a peer that changes nothing, skip the
  reconciliation and are not among them.)
\<close>

inductive mutation :: "rt net_ops \<Rightarrow> sql \<Rightarrow> rt App \<Rightarrow> bool \<Rightarrow> rt App \<Rightarrow> bool" for ops exec where
  "createPeer ops exec keys now cp a = (r1, a') \<Longrightarrow> mutation ops exec a (is_ok r1) a'"
| "DeletePeer ops exec i a = (r, a') \<Longrightarrow> mutation ops exec a (is_ok r) a'"
| "togglePeer ops exec i a = (r1, a') \<Longrightarrow> mutation ops exec a (is_ok r1) a'"
| "CreateGroup ops exec cg a = (r2, a') \<Longrightarrow> mutation ops exec a (is_ok r2) a'"
| "DeleteGroup ops exec i a = (r, a') \<Longrightarrow> mutation ops exec a (is_ok r) a'"
| "CreateGroupLink ops exec li a = (r, a') \<Longrightarrow> mutation ops exec a (is_ok r) a'"
| "DeleteGroupLink ops exec li a = (r, a') \<Longrightarrow> mutation ops exec a (is_ok r) a'"
| "createServiceMap ops exec mi a = (r3, a') \<Longrightarrow> mutation ops exec a (is_ok r3) a'"
| "updateServiceMap ops exec i mi a = (r3, a') \<Longrightarrow> mutation ops exec a (is_ok r3) a'"
| "DeleteServiceMap ops exec i a = (r, a') \<Longrightarrow> mutation ops exec a (is_ok r) a'"
| "CreatePortForward ops exec pf a = (r4, a') \<Longrightarrow> mutation ops exec a (is_ok r4) a'"
| "UpdatePortForward ops exec i pf a = (r4, a') \<Longrightarrow> mutation ops exec a (is_ok r4) a'"
| "DeletePortForward ops exec i a = (r, a') \<Longrightarrow> mutation ops exec a (is_ok r) a'"

lemma mutation_hub:
  assumes "sql_ok exec"
  shows "mutation (stack_ops net status) exec a ok a' \<Longrightarrow> good (snd (app_store a)) \<Longrightarrow> hub.app_ok a \<Longrightarrow>
    good (snd (app_store a')) \<and> hub.app_ok a' \<and> (ok \<longrightarrow> \<not> app_live a' \<or> hub.fresh (snd (app_store a')) a')"
proof (induction rule: mutation.induct)
  case (1 keys now cp a r a')
  show ?case by (rule hub.mutation_outcome [OF assms create_peer_db_good [OF assms] 1(2,3) 1(1) [unfolded createPeer_def case_prod_unfold]])
next
  case (2 i a r a')
  show ?case by (rule hub.mutation_outcome_unit [OF assms delete_peer_db_good [OF assms] 2(2,3) 2(1) [unfolded DeletePeer_def]])
next
  case (3 i a r a')
  show ?case by (rule hub.mutation_outcome [OF assms toggle_peer_db_good [OF assms] 3(2,3) 3(1) [unfolded togglePeer_def case_prod_unfold]])
next
  case (4 cg a r a')
  show ?case by (rule hub.mutation_outcome [OF assms CreateGroup_good [OF assms] 4(2,3) 4(1) [unfolded CreateGroup_def]])
next
  case (5 i a r a')
  show ?case by (rule hub.mutation_outcome_unit [OF assms DeleteGroup_good [OF assms] 5(2,3) 5(1) [unfolded DeleteGroup_def]])
next
  case (6 li a r a')
  show ?case by (rule hub.mutation_outcome_unit [OF assms create_link_db_good [OF assms] 6(2,3) 6(1) [unfolded CreateGroupLink_def]])
next
  case (7 li a r a')
  show ?case by (rule hub.mutation_outcome_unit [OF assms DeleteGroupLink_good [OF assms] 7(2,3) 7(1) [unfolded DeleteGroupLink_def]])
next
  case (8 mi a r a')
  show ?case by (rule hub.mutation_outcome [OF assms create_map_good [OF assms] 8(2,3) 8(1) [unfolded createServiceMap_def]])
next
  case (9 i mi a r a')
  show ?case by (rule hub.mutation_outcome [OF assms update_map_good [OF assms] 9(2,3) 9(1) [unfolded updateServiceMap_def]])
next
  case (10 i a r a')
  show ?case by (rule hub.mutation_outcome_unit [OF assms DeleteServiceMap_good [OF assms] 10(2,3) 10(1) [unfolded DeleteServiceMap_def]])
next
  case (11 pf a r a')
  show ?case by (rule hub.mutation_outcome [OF assms CreatePortForward_good [OF assms] 11(2,3) 11(1) [unfolded CreatePortForward_def]])
next
  case (12 i pf a r a')
  show ?case by (rule hub.mutation_outcome [OF assms UpdatePortForward_good [OF assms] 12(2,3) 12(1) [unfolded UpdatePortForward_def]])
next
  case (13 i a r a')
  show ?case by (rule hub.mutation_outcome_unit [OF assms DeletePortForward_good [OF assms] 13(2,3) 13(1) [unfolded DeletePortForward_def]])
qed


section \<open>Examples\<close>

definition ex_app :: "rt option \<Rightarrow> bool \<Rightarrow> rt App" where
  "ex_app n live = \<lparr>app_store = (0, []), app_setupToken = [], app_net = n, app_live = live, app_poller = None\<rparr>"



end
