(* ===== verification/Dto.thy ===== *)
theory Dto
  imports Service_Ops
begin

text \<open>
  What the HTTP API sends (\<^verbatim>\<open>api/http/dto\<close>): the JSON value of each view.  An instant stands for its
  RFC 3339 text and an error for its message; canvas coordinates are integers as in the store's model.
\<close>

datatype json =
    JNull
  | JBool bool
  | JInt int
  | JStr string
  | JTime int
  | JErr err
  | JArr "json list"
  | JObj "(string \<times> json) list"

abbreviation JNat :: "nat \<Rightarrow> json" where "JNat n \<equiv> JInt (int n)"

definition ToPortForwardResponse :: "PortForwardView \<Rightarrow> json" where
  "ToPortForwardResponse f = JObj
     [(''id'', JNat (fv_ID f)), (''name'', JStr (fv_Name f)), (''listen_port'', JInt (fv_ListenPort f)),
      (''protocol'', JStr (fv_Protocol f)), (''target_host'', JStr (fv_TargetHost f)),
      (''target_port'', JInt (fv_TargetPort f)), (''target_display'', JStr (fv_TargetDisplay f))]"

definition ToGroupResponse :: "GroupView \<Rightarrow> json" where
  "ToGroupResponse v = JObj
     [(''id'', JNat (gm_ID v)), (''name'', JStr (gm_Name v)), (''pos_x'', JInt (gm_PosX v)), (''pos_y'', JInt (gm_PosY v)),
      (''allow_intra_group'', JBool (gm_AllowIntraGroup v)), (''MemberCount'', JNat (gv_MemberCount v))]"

definition group_peer_json :: "PeerView \<Rightarrow> json" where
  "group_peer_json p = JObj
     [(''id'', JNat (pv_ID p)), (''name'', JStr (pv_Name p)), (''public_key'', JStr (pv_PublicKey p)), (''wg_ip'', JStr (pv_WGIP p)),
      (''group_id'', JNat (pv_GroupID p)), (''enabled'', JBool (pv_Enabled p)), (''dns_name'', JStr (pv_DNSName p)),
      (''last_handshake'', JInt (pv_LastHandshake p)), (''rx_bytes'', JInt (pv_RxBytes p)), (''tx_bytes'', JInt (pv_TxBytes p)),
      (''created_at'', JTime (pv_CreatedAt p)), (''fqdn'', JStr (pv_FQDN p))]"

text \<open>A group without members has a nil slice of peers, which is sent as \<^verbatim>\<open>null\<close>.\<close>

definition graph_group_json :: "GroupGraphGroupView \<Rightarrow> json" where
  "graph_group_json g = JObj
     [(''id'', JNat (gm_ID g)), (''name'', JStr (gm_Name g)), (''pos_x'', JInt (gm_PosX g)), (''pos_y'', JInt (gm_PosY g)),
      (''allow_intra_group'', JBool (gm_AllowIntraGroup g)), (''member_count'', JNat (gv_MemberCount g)),
      (''peers'', if gg_Peers g = [] then JNull else JArr (map group_peer_json (gg_Peers g)))]"

definition group_link_json :: "GroupLink \<Rightarrow> json" where
  "group_link_json l = JObj
     [(''id'', JNat (l_ID l)), (''from_group_id'', JNat (l_From l)), (''to_group_id'', JNat (l_To l)),
      (''bidirectional'', JBool (l_Bidirectional l))]"

definition ToGroupGraphResponse :: "GroupGraphView \<Rightarrow> json" where
  "ToGroupGraphResponse v = JObj
     [(''groups'', JArr (map graph_group_json (gr_Groups v))), (''links'', JArr (map group_link_json (gr_Links v)))]"

definition ToMapResponse :: "MapView \<Rightarrow> json" where
  "ToMapResponse d = JObj
     [(''id'', JNat (mv_ID d)), (''name'', JStr (mv_Name d)), (''slug'', JStr (mv_Slug d)), (''target_host'', JStr (mv_TargetHost d)),
      (''virtual_ip'', JStr (mv_VirtualIP d)), (''target_display'', JStr (mv_TargetDisplay d)),
      (''allowed_group_ids'', JArr (map JNat (mv_AllowedGroupIDs d))), (''fqdn'', JStr (mv_FQDN d))]"

text \<open>An empty group name is left out (\<^verbatim>\<open>omitempty\<close>).  Private keys are in no response.\<close>

definition ToPeerResponse :: "PeerView \<Rightarrow> json" where
  "ToPeerResponse p = JObj
     ([(''id'', JNat (pv_ID p)), (''name'', JStr (pv_Name p)), (''public_key'', JStr (pv_PublicKey p)), (''wg_ip'', JStr (pv_WGIP p)),
       (''group_id'', JNat (pv_GroupID p)), (''enabled'', JBool (pv_Enabled p)), (''dns_name'', JStr (pv_DNSName p)),
       (''last_handshake'', JInt (pv_LastHandshake p)), (''rx_bytes'', JInt (pv_RxBytes p)), (''tx_bytes'', JInt (pv_TxBytes p)),
       (''created_at'', JTime (pv_CreatedAt p)), (''fqdn'', JStr (pv_FQDN p))] @
      (if pv_GroupName p = [] then [] else [(''group_name'', JStr (pv_GroupName p))]))"

definition ToPeerResponses :: "PeerView list \<Rightarrow> json" where
  "ToPeerResponses peers = JArr (map ToPeerResponse peers)"

definition ToSettingsViewResponse :: "SettingsView \<Rightarrow> json" where
  "ToSettingsViewResponse v = JObj
     [(''endpoint'', JStr (sv_Endpoint v)), (''subnet'', JStr (sv_Subnet v)), (''admin_username'', JStr (sv_AdminUsername v)),
      (''hub_ip'', JStr (sv_HubIP v)), (''dns_ip'', JStr (sv_DNSIP v)), (''dns_suffix'', JStr (sv_DNSSuffix v)),
      (''listen_port'', JInt (sv_ListenPort v)), (''server_public_key'', JStr (sv_ServerPublicKey v)), (''mtu'', JInt (sv_MTU v)),
      (''status_interval'', JInt (sv_StatusInterval v)), (''upstream_dns'', JArr (map JStr (sv_UpstreamDNS v)))]"

definition ToSetupStatusResponse :: "bool \<Rightarrow> SetupDefaults \<Rightarrow> json" where
  "ToSetupStatusResponse configured d = JObj
     [(''configured'', JBool configured),
      (''defaults'', JObj
        [(''subnet'', JStr (sd_Subnet d)), (''admin_username'', JStr (sd_AdminUsername d)), (''listen_port'', JInt (sd_ListenPort d)),
         (''mtu'', JInt (sd_MTU d)), (''status_interval'', JInt (sd_StatusInterval d)),
         (''upstream_dns'', JArr (map JStr (sd_UpstreamDNS d)))])]"

end
