(* ===== verification/Auth.thy ===== *)
theory Auth
  imports Dto
begin

text \<open>
  Admin sessions over HTTP (\<^verbatim>\<open>api/http/auth\<close>): issuing and checking the bearer token.  The JWT library
  is a parameter: \<open>jw_sign secret claims\<close> is the signed token, \<open>jw_parse secret now token\<close> what
  \<^verbatim>\<open>jwt.ParseWithClaims\<close> returns at that instant, with the token's \<^verbatim>\<open>Valid\<close> flag.  Instants are in
  seconds.
\<close>

record Claims =
  cl_AdminID :: nat
  cl_Username :: string
  cl_TokenVersion :: int
  cl_ExpiresAt :: int
  cl_IssuedAt :: int

record jwt =
  jw_sign :: "string \<Rightarrow> Claims \<Rightarrow> err + string"
  jw_parse :: "string \<Rightarrow> int \<Rightarrow> string \<Rightarrow> err + Claims \<times> bool"

text \<open>The documented behaviour: a token parses back to its claims, with the same secret, until it expires.\<close>

definition jwt_ok :: "jwt \<Rightarrow> bool" where
  "jwt_ok j = (\<forall>secret c tok now. jw_sign j secret c = Inr tok \<and> now < cl_ExpiresAt c \<longrightarrow>
     jw_parse j secret now tok = Inr (c, True))"

definition token_lifetime :: int where "token_lifetime = 24 * 60 * 60"

definition issueToken :: "jwt \<Rightarrow> string \<Rightarrow> int \<Rightarrow> AdminSession \<Rightarrow> err + string" where
  "issueToken j secret now admin = jw_sign j secret
     \<lparr>cl_AdminID = as_ID admin, cl_Username = as_Username admin, cl_TokenVersion = as_TokenVersion admin,
      cl_ExpiresAt = now + token_lifetime, cl_IssuedAt = now\<rparr>"

definition auth_Login :: "jwt \<Rightarrow> string \<Rightarrow> sql \<Rightarrow> (string \<Rightarrow> string \<Rightarrow> bool) \<Rightarrow> int \<Rightarrow> string \<Rightarrow> string \<Rightarrow> string prog" where
  "auth_Login j secret exec verify now username password =
     andthen (or_err (Errorf ''invalid credentials'') (AuthenticateAdmin exec verify username password)) (\<lambda>admin.
     lift_res (issueToken j secret now admin))"

definition ParseToken :: "jwt \<Rightarrow> string \<Rightarrow> sql \<Rightarrow> int \<Rightarrow> string \<Rightarrow> Claims prog" where
  "ParseToken j secret exec now tokenStr =
     andthen (lift_res (jw_parse j secret now tokenStr)) (\<lambda>(claims, valid).
     if \<not> valid then fail (Errorf ''invalid token'')
     else andthen (attempt (ValidateAdminSession exec (cl_AdminID claims) (cl_TokenVersion claims))) (\<lambda>r. case r of
         Inl e \<Rightarrow> fail (if e = ErrAdminSessionRevoked then Errorf ''token revoked'' else Errorf ''admin not found'')
       | Inr _ \<Rightarrow> ret claims))"

text \<open>
  The token in an \<^verbatim>\<open>Authorization\<close> header, the empty header being an absent one.  \<^verbatim>\<open>EqualFold\<close> with
  \<^verbatim>\<open>Bearer\<close> is equality of the lower-case bytes, as no other character folds to one of its letters.
\<close>

definition bearer :: "string \<Rightarrow> err + string" where
  "bearer header =
     (if header = [] then Inl (Errorf ''missing authorization'')
      else case cut_at (CHR 0x20) header of
        None \<Rightarrow> Inl (Errorf ''invalid authorization header'')
      | Some (scheme, token) \<Rightarrow> if to_lower scheme = ''bearer'' then Inr token else Inl (Errorf ''invalid authorization header''))"

text \<open>The middleware: the claims that are put into the request's context, or the refusal.\<close>

definition Middleware :: "jwt \<Rightarrow> string \<Rightarrow> sql \<Rightarrow> int \<Rightarrow> string \<Rightarrow> Claims prog" where
  "Middleware j secret exec now header =
     andthen (lift_res (bearer header)) (\<lambda>token.
     or_err (Errorf ''invalid token'') (ParseToken j secret exec now token))"

end
