(* ===== verification/Limiter.thy ===== *)
theory Limiter
  imports Prelude Complex_Main
begin

text \<open>
  The login rate limiter (\<^verbatim>\<open>api/http/httputil/limiter.go\<close>): a token bucket per client address
  in a bounded table.  An instant is the number of nanoseconds since the Unix epoch, a duration a
  number of nanoseconds; \<^verbatim>\<open>float64\<close> values are exact rationals.  The mutex makes every method one
  step; the background loop is a sequence of \<open>Cleanup\<close> steps.
\<close>

section \<open>Time\<close>

definition Second :: int where "Second = 1000000000"
definition Minute :: int where "Minute = 60 * Second"

definition zeroTime :: int where "zeroTime = - 62135596800 * Second"

definition maxDuration :: int where "maxDuration = 2 ^ 63 - 1"

text \<open>\<^verbatim>\<open>Time.Sub\<close> saturates at the bounds of a \<^verbatim>\<open>Duration\<close>.\<close>

definition time_sub :: "int \<Rightarrow> int \<Rightarrow> int" where
  "time_sub t u = max (- maxDuration - 1) (min maxDuration (t - u))"

definition seconds :: "int \<Rightarrow> rat" where
  "seconds d = of_int d / of_int Second"

section \<open>Configuration\<close>

definition loginRateCapacity :: rat where "loginRateCapacity = 5"
definition loginRateRefillPeriod :: int where "loginRateRefillPeriod = 10 * Minute"
definition loginRateMaxEntries :: int where "loginRateMaxEntries = 10000"
definition loginRateCleanupInterval :: int where "loginRateCleanupInterval = 5 * Minute"
definition loginRateStaleTTL :: int where "loginRateStaleTTL = 20 * Minute"

record LoginRateLimitConfig =
  lc_Capacity :: rat
  lc_RefillPeriod :: int
  lc_MaxEntries :: int
  lc_CleanupInterval :: int
  lc_StaleTTL :: int

definition normalized :: "LoginRateLimitConfig \<Rightarrow> LoginRateLimitConfig" where
  "normalized c =
     \<lparr>lc_Capacity = (if lc_Capacity c \<le> 0 then loginRateCapacity else lc_Capacity c),
      lc_RefillPeriod = (if lc_RefillPeriod c \<le> 0 then loginRateRefillPeriod else lc_RefillPeriod c),
      lc_MaxEntries = (if lc_MaxEntries c \<le> 0 then loginRateMaxEntries else lc_MaxEntries c),
      lc_CleanupInterval = (if lc_CleanupInterval c \<le> 0 then loginRateCleanupInterval else lc_CleanupInterval c),
      lc_StaleTTL = (if lc_StaleTTL c \<le> 0 then loginRateStaleTTL else lc_StaleTTL c)\<rparr>"

section \<open>State\<close>

record loginRateEntry =
  le_tokens :: rat
  le_lastRefill :: int

text \<open>\<open>ll_running\<close>: the cleanup loop has a stop channel.\<close>

record LoginRateLimiter =
  ll_cfg :: LoginRateLimitConfig
  ll_entries :: "(string, loginRateEntry) gomap"
  ll_running :: bool

definition NewLoginRateLimiter :: "LoginRateLimitConfig \<Rightarrow> LoginRateLimiter" where
  "NewLoginRateLimiter cfg = \<lparr>ll_cfg = normalized cfg, ll_entries = [], ll_running = False\<rparr>"

definition DefaultLoginRateLimiter :: LoginRateLimiter where
  "DefaultLoginRateLimiter = NewLoginRateLimiter
     \<lparr>lc_Capacity = 0, lc_RefillPeriod = 0, lc_MaxEntries = 0, lc_CleanupInterval = 0, lc_StaleTTL = 0\<rparr>"

section \<open>Operations\<close>

definition refillRate :: "LoginRateLimitConfig \<Rightarrow> rat" where
  "refillRate c = (let sec = seconds (lc_RefillPeriod c) in if sec \<le> 0 then 0 else lc_Capacity c / sec)"

definition oldest_step :: "string \<times> loginRateEntry \<Rightarrow> string \<times> int \<Rightarrow> string \<times> int" where
  "oldest_step kv old =
     (if fst old = [] \<or> le_lastRefill (snd kv) < snd old then (fst kv, le_lastRefill (snd kv)) else old)"

definition oldest_key :: "(string, loginRateEntry) gomap \<Rightarrow> string" where
  "oldest_key entries = fst (fold oldest_step entries ([], zeroTime))"

definition entryLocked :: "string \<Rightarrow> int \<Rightarrow> LoginRateLimiter \<Rightarrow> loginRateEntry \<times> LoginRateLimiter" where
  "entryLocked ip now l =
     (case mget (ll_entries l) ip of
        Some e \<Rightarrow> (e, l)
      | None \<Rightarrow>
          let es = (if int (length (ll_entries l)) \<ge> lc_MaxEntries (ll_cfg l)
                    then mdel (oldest_key (ll_entries l)) (ll_entries l) else ll_entries l);
              e = \<lparr>le_tokens = lc_Capacity (ll_cfg l), le_lastRefill = now\<rparr>
          in (e, l\<lparr>ll_entries := mput ip e es\<rparr>))"

definition refillLocked :: "LoginRateLimitConfig \<Rightarrow> int \<Rightarrow> loginRateEntry \<Rightarrow> loginRateEntry" where
  "refillLocked c now e =
     (if le_lastRefill e = zeroTime then e\<lparr>le_tokens := lc_Capacity c, le_lastRefill := now\<rparr>
      else let elapsed = time_sub now (le_lastRefill e) in
        if elapsed \<le> 0 then e
        else e\<lparr>le_tokens := min (lc_Capacity c) (le_tokens e + seconds elapsed * refillRate c), le_lastRefill := now\<rparr>)"

definition retry_after :: "LoginRateLimitConfig \<Rightarrow> loginRateEntry \<Rightarrow> int" where
  "retry_after c e =
     (let rate = refillRate c in
      if rate \<le> 0 then lc_RefillPeriod c
      else \<lceil>max 0 ((1 - le_tokens e) / rate) * of_int Second\<rceil>)"

text \<open>The result is \<^verbatim>\<open>retryAfter\<close> and \<^verbatim>\<open>ok\<close>.\<close>

definition Take :: "string \<Rightarrow> int \<Rightarrow> LoginRateLimiter \<Rightarrow> (int \<times> bool) \<times> LoginRateLimiter" where
  "Take ip now l =
     (if ip = [] then ((0, True), l)
      else let (e, l) = entryLocked ip now l; e = refillLocked (ll_cfg l) now e in
        if le_tokens e \<ge> 1
        then ((0, True), l\<lparr>ll_entries := mput ip (e\<lparr>le_tokens := le_tokens e - 1\<rparr>) (ll_entries l)\<rparr>)
        else ((retry_after (ll_cfg l) e, False), l\<lparr>ll_entries := mput ip e (ll_entries l)\<rparr>))"

definition RecordLoginSuccess :: "string \<Rightarrow> LoginRateLimiter \<Rightarrow> LoginRateLimiter" where
  "RecordLoginSuccess ip l = (if ip = [] then l else l\<lparr>ll_entries := mdel ip (ll_entries l)\<rparr>)"

definition Cleanup :: "int \<Rightarrow> LoginRateLimiter \<Rightarrow> LoginRateLimiter" where
  "Cleanup now l = (let cutoff = now - lc_StaleTTL (ll_cfg l) in
     l\<lparr>ll_entries := filter (\<lambda>(k, v). \<not> le_lastRefill v < cutoff) (ll_entries l)\<rparr>)"

text \<open>The result says whether a goroutine is started or stopped.\<close>

definition StartCleanupLoop :: "LoginRateLimiter \<Rightarrow> bool \<times> LoginRateLimiter" where
  "StartCleanupLoop l = (if ll_running l then (False, l) else (True, l\<lparr>ll_running := True\<rparr>))"

definition StopCleanupLoop :: "LoginRateLimiter \<Rightarrow> bool \<times> LoginRateLimiter" where
  "StopCleanupLoop l = (ll_running l, l\<lparr>ll_running := False\<rparr>)"

section \<open>The response (\<^verbatim>\<open>login.go\<close>)\<close>

definition retry_seconds :: "int \<Rightarrow> int" where
  "retry_seconds retryAfter = max 1 \<lceil>seconds retryAfter\<rceil>"

text \<open>\<open>Some n\<close>: the request is refused with \<^verbatim>\<open>Retry-After: n\<close>.\<close>

definition RejectLoginRateLimit :: "string \<Rightarrow> int \<Rightarrow> LoginRateLimiter \<Rightarrow> int option \<times> LoginRateLimiter" where
  "RejectLoginRateLimit ip now l =
     (case Take ip now l of ((retryAfter, ok), l) \<Rightarrow>
        (if ok then None else Some (retry_seconds retryAfter), l))"

section \<open>Histories\<close>

text \<open>What happens to a limiter, with the instant at which it happens.\<close>

datatype lim_event = Attempt string | Success string | Sweep

definition lim_step :: "int \<times> lim_event \<Rightarrow> LoginRateLimiter \<Rightarrow> LoginRateLimiter" where
  "lim_step te l = (case snd te of
       Attempt ip \<Rightarrow> snd (Take ip (fst te) l)
     | Success ip \<Rightarrow> RecordLoginSuccess ip l
     | Sweep \<Rightarrow> Cleanup (fst te) l)"

text \<open>The number of attempts from \<open>ip\<close> that a history lets through.\<close>

fun admitted :: "string \<Rightarrow> (int \<times> lim_event) list \<Rightarrow> LoginRateLimiter \<Rightarrow> nat" where
  "admitted ip [] l = 0"
| "admitted ip (te # h) l =
     (if snd te = Attempt ip \<and> snd (fst (Take ip (fst te) l)) then 1 else 0) + admitted ip h (lim_step te l)"

definition attempt_ips :: "(int \<times> lim_event) list \<Rightarrow> string set" where
  "attempt_ips h = {ip. ip \<noteq> [] \<and> Attempt ip \<in> snd ` set h}"

end
