(* ===== verification/Ws_Hub.thy ===== *)
theory Ws_Hub
  imports Prelude
begin

text \<open>
  The status hub (\<^verbatim>\<open>api/ws/hub.go\<close>): WebSocket clients, each with a buffered channel that its
  write pump drains.  Clients are numbered in the order they connect; a channel is its buffer and
  whether it was closed.  Sending on a closed channel panics in Go: the model has that outcome.  The
  connection belongs to gorilla/websocket; the outcome of each read and write is a parameter.
\<close>

section \<open>State\<close>

record client =
  wc_buf :: "string list"
  wc_closed :: bool
  wc_writer :: bool
  wc_reader :: bool
  wc_conn :: bool
  wc_sent :: "string list"

text \<open>\<open>wh_clients\<close> is the registered set, \<open>wh_all\<close> every client object, registered or not.\<close>

record Hub =
  wh_clients :: "nat list"
  wh_all :: "nat \<Rightarrow> client"
  wh_next :: nat
  wh_panic :: bool

definition no_client :: client where
  "no_client = \<lparr>wc_buf = [], wc_closed = False, wc_writer = False, wc_reader = False, wc_conn = False, wc_sent = []\<rparr>"

definition NewHub :: Hub where
  "NewHub = \<lparr>wh_clients = [], wh_all = (\<lambda>_. no_client), wh_next = 0, wh_panic = False\<rparr>"

definition send_buffer :: nat where "send_buffer = 8"

section \<open>Origin check\<close>

text \<open>\<open>parse\<close> is \<^verbatim>\<open>url.Parse\<close>, returning the host.\<close>

definition originMatchesHost :: "(string \<Rightarrow> err + string) \<Rightarrow> string \<Rightarrow> string \<Rightarrow> bool" where
  "originMatchesHost parse origin host = (case parse origin of Inl _ \<Rightarrow> False | Inr h \<Rightarrow> h = host)"

definition CheckOrigin :: "(string \<Rightarrow> err + string) \<Rightarrow> string \<Rightarrow> string \<Rightarrow> bool" where
  "CheckOrigin parse origin host = (origin = [] \<or> originMatchesHost parse origin host)"

section \<open>Operations\<close>

definition trySend :: "string \<Rightarrow> nat \<Rightarrow> Hub \<Rightarrow> Hub" where
  "trySend data c h = (let cl = wh_all h c in
     if wc_closed cl then h\<lparr>wh_panic := True\<rparr>
     else if length (wc_buf cl) < send_buffer then h\<lparr>wh_all := (wh_all h)(c := cl\<lparr>wc_buf := wc_buf cl @ [data]\<rparr>)\<rparr>
     else h)"

definition broadcast :: "string \<Rightarrow> Hub \<Rightarrow> Hub" where
  "broadcast data h = fold (trySend data) (wh_clients h) h"

text \<open>\<open>snap\<close> is what the snapshot function returned.\<close>

definition Publish :: "err + string \<Rightarrow> Hub \<Rightarrow> Hub" where
  "Publish snap h = (case snap of Inl _ \<Rightarrow> h | Inr data \<Rightarrow> if data = [] then h else broadcast data h)"

definition register :: "nat \<Rightarrow> Hub \<Rightarrow> Hub" where
  "register c h = h\<lparr>wh_clients := wh_clients h @ [c]\<rparr>"

definition unregister :: "nat \<Rightarrow> Hub \<Rightarrow> Hub" where
  "unregister c h = (if c \<in> set (wh_clients h)
     then h\<lparr>wh_clients := removeAll c (wh_clients h), wh_all := (wh_all h)(c := (wh_all h c)\<lparr>wc_closed := True\<rparr>)\<rparr>
     else h)"

text \<open>The part of \<^verbatim>\<open>Serve\<close> before the pumps run: a new client object, registered, and its first snapshot.\<close>

definition serve_register :: "Hub \<Rightarrow> Hub" where
  "serve_register h = register (wh_next h) (h\<lparr>wh_next := wh_next h + 1,
     wh_all := (wh_all h)(wh_next h := no_client\<lparr>wc_conn := True\<rparr>)\<rparr>)"

definition serve_first :: "nat \<Rightarrow> err + string \<Rightarrow> Hub \<Rightarrow> Hub" where
  "serve_first c snap h = (case snap of Inl _ \<Rightarrow> h | Inr data \<Rightarrow> if data = [] then h else trySend data c h)"

definition serve_pumps :: "nat \<Rightarrow> Hub \<Rightarrow> Hub" where
  "serve_pumps c h = h\<lparr>wh_all := (wh_all h)(c := (wh_all h c)\<lparr>wc_writer := True, wc_reader := True\<rparr>)\<rparr>"

text \<open>The read pump ends with the first read error.\<close>

definition readPump_end :: "nat \<Rightarrow> Hub \<Rightarrow> Hub" where
  "readPump_end c h = (let h = unregister c h in
     h\<lparr>wh_all := (wh_all h)(c := (wh_all h c)\<lparr>wc_reader := False, wc_conn := False\<rparr>)\<rparr>)"

definition writePump_end :: "nat \<Rightarrow> Hub \<Rightarrow> Hub" where
  "writePump_end c h = h\<lparr>wh_all := (wh_all h)(c := (wh_all h c)\<lparr>wc_writer := False, wc_conn := False\<rparr>)\<rparr>"

text \<open>One turn of the write pump's loop: a message from the channel (a closed and drained channel ends it) or a ping.\<close>

definition writePump_message :: "nat \<Rightarrow> bool \<Rightarrow> Hub \<Rightarrow> Hub" where
  "writePump_message c ok h = (case wc_buf (wh_all h c) of
       [] \<Rightarrow> if wc_closed (wh_all h c) then writePump_end c h else h
     | msg # rest \<Rightarrow>
         let h' = h\<lparr>wh_all := (wh_all h)(c := (wh_all h c)\<lparr>wc_buf := rest\<rparr>)\<rparr> in
         if ok then h'\<lparr>wh_all := (wh_all h')(c := (wh_all h' c)\<lparr>wc_sent := wc_sent (wh_all h' c) @ [msg]\<rparr>)\<rparr>
         else writePump_end c h')"

definition writePump_ping :: "nat \<Rightarrow> bool \<Rightarrow> Hub \<Rightarrow> Hub" where
  "writePump_ping c ok h = (if ok then h else writePump_end c h)"

section \<open>Runs\<close>

text \<open>
  Everything that can happen, in any order; \<open>pub\<close> collects the snapshots that \<^verbatim>\<open>Publish\<close> handed to
  every client and \<open>first c\<close> the one \<^verbatim>\<open>Serve\<close> sends to its own.  A client between registration and
  its pumps is one that neither reads nor writes yet.
\<close>

datatype ws_event = Connect | First nat "err + string" | Pumps nat | Pub "err + string" | ReadFails nat
  | Message nat bool | Ping nat bool

fun ws_enabled :: "ws_event \<Rightarrow> Hub \<Rightarrow> bool" where
  "ws_enabled (First c _) h = (c \<in> set (wh_clients h) \<and> \<not> wc_reader (wh_all h c))"
| "ws_enabled (Pumps c) h = (c \<in> set (wh_clients h) \<and> \<not> wc_reader (wh_all h c))"
| "ws_enabled (ReadFails c) h = wc_reader (wh_all h c)"
| "ws_enabled (Message c _) h = wc_writer (wh_all h c)"
| "ws_enabled (Ping c _) h = wc_writer (wh_all h c)"
| "ws_enabled _ h = True"

fun ws_do :: "ws_event \<Rightarrow> Hub \<Rightarrow> Hub" where
  "ws_do Connect h = serve_register h"
| "ws_do (First c snap) h = serve_first c snap h"
| "ws_do (Pumps c) h = serve_pumps c h"
| "ws_do (Pub snap) h = Publish snap h"
| "ws_do (ReadFails c) h = readPump_end c h"
| "ws_do (Message c ok) h = writePump_message c ok h"
| "ws_do (Ping c ok) h = writePump_ping c ok h"

fun data_of :: "err + string \<Rightarrow> string list" where
  "data_of (Inl _) = []"
| "data_of (Inr d) = (if d = [] then [] else [d])"

text \<open>The snapshots an event offers to client \<open>c\<close>.\<close>

fun offered :: "nat \<Rightarrow> ws_event \<Rightarrow> string list" where
  "offered c (First d snap) = (if c = d then data_of snap else [])"
| "offered c (Pub snap) = data_of snap"
| "offered c _ = []"

inductive ws_run :: "ws_event list \<Rightarrow> Hub \<Rightarrow> bool" where
  start: "ws_run [] NewHub"
| step: "ws_run es h \<Longrightarrow> ws_enabled e h \<Longrightarrow> ws_run (es @ [e]) (ws_do e h)"

section \<open>Properties\<close>

text \<open>A registered client's channel is open; the buffer is bounded; what was delivered and is buffered was offered.\<close>

definition ws_ok :: "ws_event list \<Rightarrow> Hub \<Rightarrow> bool" where
  "ws_ok es h = (\<not> wh_panic h \<and> distinct (wh_clients h) \<and>
     (\<forall>c \<in> set (wh_clients h). c < wh_next h \<and> \<not> wc_closed (wh_all h c)) \<and>
     (\<forall>c \<ge> wh_next h. wh_all h c = no_client) \<and>
     (\<forall>c. wc_reader (wh_all h c) \<longrightarrow> c \<in> set (wh_clients h)) \<and>
     (\<forall>c. length (wc_buf (wh_all h c)) \<le> send_buffer) \<and>
     (\<forall>c. subseq (wc_sent (wh_all h c) @ wc_buf (wh_all h c)) (concat (map (offered c) es))))"

definition offer :: "string \<Rightarrow> client \<Rightarrow> client" where
  "offer data cl = (if length (wc_buf cl) < send_buffer then cl\<lparr>wc_buf := wc_buf cl @ [data]\<rparr> else cl)"

lemma trySend_open:
  "\<not> wc_closed (wh_all h c) \<Longrightarrow> trySend data c h = h\<lparr>wh_all := (wh_all h)(c := offer data (wh_all h c))\<rparr>"
  by (simp add: trySend_def offer_def Let_def)

lemma offer_sel [simp]: "wc_closed (offer data cl) = wc_closed cl" "wc_reader (offer data cl) = wc_reader cl"
  "wc_sent (offer data cl) = wc_sent cl" "length (wc_buf cl) \<le> send_buffer \<Longrightarrow> length (wc_buf (offer data cl)) \<le> send_buffer"
  by (simp_all add: offer_def)

lemma offer_subseq: "subseq (wc_sent cl @ wc_buf cl) xs \<Longrightarrow> subseq (wc_sent cl @ wc_buf (offer data cl)) (xs @ [data])"
proof -
  assume a: "subseq (wc_sent cl @ wc_buf cl) xs"
  have "subseq (wc_sent cl @ wc_buf cl) (xs @ [data])" using a subseq_append' by (metis append_Nil2 list_emb_Nil list_emb_append_mono)
  moreover have "subseq ((wc_sent cl @ wc_buf cl) @ [data]) (xs @ [data])" using a by (rule list_emb_append_mono) simp
  ultimately show ?thesis by (simp add: offer_def)
qed

lemma broadcast_open:
  assumes "distinct cs" and "\<forall>c \<in> set cs. \<not> wc_closed (wh_all h c)"
  shows "fold (trySend data) cs h = h\<lparr>wh_all := (\<lambda>c. if c \<in> set cs then offer data (wh_all h c) else wh_all h c)\<rparr>"
  using assms by (induction cs arbitrary: h) (auto simp: trySend_open fun_eq_iff intro!: arg_cong [where f = "\<lambda>f. h\<lparr>wh_all := f\<rparr>" for h])

lemma subseq_more: "subseq xs ys \<Longrightarrow> subseq xs (ys @ zs)"
  by (metis append_Nil2 list_emb_Nil list_emb_append_mono)

lemma ws_ok_cong:
  assumes "ws_ok es h" and "wh_clients h' = wh_clients h" and "wh_next h' = wh_next h" and "wh_panic h' = wh_panic h"
    and "\<And>c. wc_closed (wh_all h' c) = wc_closed (wh_all h c)" and "\<And>c. wc_reader (wh_all h' c) \<longrightarrow> c \<in> set (wh_clients h)"
    and "\<And>c. wh_next h \<le> c \<Longrightarrow> wh_all h' c = no_client"
    and "\<And>c. length (wc_buf (wh_all h' c)) \<le> send_buffer"
    and "\<And>c. subseq (wc_sent (wh_all h' c) @ wc_buf (wh_all h' c)) (concat (map (offered c) (es @ [e])))"
  shows "ws_ok (es @ [e]) h'"
  using assms unfolding ws_ok_def by auto

lemma ws_okD:
  assumes "ws_ok es h"
  shows "\<not> wh_panic h" "distinct (wh_clients h)" "c \<in> set (wh_clients h) \<Longrightarrow> c < wh_next h"
    "c \<in> set (wh_clients h) \<Longrightarrow> \<not> wc_closed (wh_all h c)" "wh_next h \<le> c \<Longrightarrow> wh_all h c = no_client"
    "wc_reader (wh_all h c) \<Longrightarrow> c \<in> set (wh_clients h)" "length (wc_buf (wh_all h c)) \<le> send_buffer"
    "subseq (wc_sent (wh_all h c) @ wc_buf (wh_all h c)) (concat (map (offered c) es))"
  using assms by (simp_all add: ws_ok_def)

lemma ws_more: "ws_ok es h \<Longrightarrow> subseq (wc_sent (wh_all h c) @ wc_buf (wh_all h c)) (concat (map (offered c) (es @ [e])))"
  using ws_okD(8) [of es h c] by (simp add: subseq_more)

lemma Connect_ok:
  assumes ok: "ws_ok es h"
  shows "ws_ok (es @ [Connect]) (serve_register h)"
proof -
  let ?n = "wh_next h"
  have new: "?n \<notin> set (wh_clients h)" using ws_okD(3) [OF ok, of ?n] by blast
  show ?thesis
    unfolding ws_ok_def
    using ws_okD [OF ok] new
    by (auto simp: serve_register_def register_def no_client_def less_Suc_eq)
qed

lemma First_ok:
  assumes ok: "ws_ok es h" and c: "c \<in> set (wh_clients h)"
  shows "ws_ok (es @ [First c snap]) (serve_first c snap h)"
proof (cases "data_of snap")
  case Nil
  then have "serve_first c snap h = h" by (cases snap) (auto simp: serve_first_def split: if_splits)
  then show ?thesis by (auto intro!: ws_ok_cong [OF ok] simp: ws_okD [OF ok] ws_more [OF ok] subseq_more dest: ws_okD(6) [OF ok])
next
  case (Cons d ds)
  then have d: "data_of snap = [d]" and s: "serve_first c snap h = trySend d c h"
    by (cases snap; auto simp: serve_first_def split: if_splits)+
  have "c < wh_next h" using ws_okD(3) [OF ok c] .
  moreover have "subseq (wc_sent (wh_all h c) @ wc_buf (offer d (wh_all h c))) (concat (map (offered c) (es @ [First c snap])))"
    using offer_subseq [OF ws_okD(8) [OF ok, of c], of d] d by simp
  ultimately show ?thesis
    unfolding s trySend_open [OF ws_okD(4) [OF ok c]]
    by (intro ws_ok_cong [OF ok]) (use ws_okD [OF ok] in \<open>auto simp: subseq_more\<close>)
qed

lemma Pub_ok:
  assumes ok: "ws_ok es h"
  shows "ws_ok (es @ [Pub snap]) (Publish snap h)"
proof (cases "data_of snap")
  case Nil
  then have "Publish snap h = h" by (cases snap) (auto simp: Publish_def split: if_splits)
  then show ?thesis by (auto intro!: ws_ok_cong [OF ok] simp: ws_okD [OF ok] ws_more [OF ok] subseq_more dest: ws_okD(6) [OF ok])
next
  case (Cons d ds)
  then have d: "data_of snap = [d]" and s: "Publish snap h = broadcast d h"
    by (cases snap; auto simp: Publish_def split: if_splits)+
  have b: "broadcast d h = h\<lparr>wh_all := (\<lambda>c. if c \<in> set (wh_clients h) then offer d (wh_all h c) else wh_all h c)\<rparr>"
    unfolding broadcast_def by (rule broadcast_open) (use ws_okD [OF ok] in auto)
  have "subseq (wc_sent (wh_all h c) @ wc_buf (offer d (wh_all h c))) (concat (map (offered c) (es @ [Pub snap])))" for c
    using offer_subseq [OF ws_okD(8) [OF ok, of c], of d] d by simp
  then show ?thesis
    unfolding s b
    by (intro ws_ok_cong [OF ok]) (use ws_okD [OF ok] in \<open>auto simp: subseq_more dest: leD\<close>)
qed

lemma Pumps_ok: "ws_ok es h \<Longrightarrow> c \<in> set (wh_clients h) \<Longrightarrow> ws_ok (es @ [Pumps c]) (serve_pumps c h)"
  by (intro ws_ok_cong [of es h]) (auto simp: serve_pumps_def subseq_more dest: ws_okD)

lemma ReadFails_ok:
  assumes ok: "ws_ok es h" and r: "wc_reader (wh_all h c)"
  shows "ws_ok (es @ [ReadFails c]) (readPump_end c h)"
proof -
  have c: "c \<in> set (wh_clients h)" using ws_okD(6) [OF ok r] .
  then have "\<not> wh_next h \<le> c" using ws_okD(3) [OF ok] by fastforce
  with c show ?thesis unfolding ws_ok_def using ws_okD [OF ok]
    by (auto simp: readPump_end_def unregister_def Let_def subseq_more distinct_removeAll)
qed

lemma Ping_ok: "ws_ok es h \<Longrightarrow> wc_writer (wh_all h c) \<Longrightarrow> ws_ok (es @ [Ping c b]) (writePump_ping c b h)"
  by (intro ws_ok_cong [of es h])
    (auto simp: writePump_ping_def writePump_end_def subseq_more no_client_def dest: ws_okD(3,5,6,7,8))

lemma Message_ok:
  assumes ok: "ws_ok es h" and w: "wc_writer (wh_all h c)"
  shows "ws_ok (es @ [Message c b]) (writePump_message c b h)"
proof -
  have old: "\<not> wh_next h \<le> c" using ws_okD(5) [OF ok, of c] w by (auto simp: no_client_def)
  have tail: "subseq (wc_sent (wh_all h c) @ rest) (concat (map (offered c) es))" if "wc_buf (wh_all h c) = m # rest" for m rest
  proof -
    have "subseq (wc_sent (wh_all h c) @ rest) (wc_sent (wh_all h c) @ m # rest)"
      by (rule list_emb_append_mono) (auto intro: list_emb_Cons)
    then show ?thesis using ws_okD(8) [OF ok, of c] that by (auto intro: subseq_order.trans)
  qed
  show ?thesis
  proof (cases "wc_buf (wh_all h c)")
    case Nil
    then have "subseq (wc_sent (wh_all h c)) (concat (map (offered c) es))" using ws_okD(8) [OF ok, of c] by simp
    with Nil show ?thesis
      by (intro ws_ok_cong [OF ok]) (use ws_okD [OF ok] old in \<open>auto simp: writePump_message_def writePump_end_def subseq_more\<close>)
  next
    case (Cons m rest)
    have "length rest \<le> send_buffer" using ws_okD(7) [OF ok, of c] Cons by simp
    moreover have "subseq (wc_sent (wh_all h c) @ m # rest) (concat (map (offered c) es))" using ws_okD(8) [OF ok, of c] Cons by simp
    ultimately show ?thesis
      by (intro ws_ok_cong [OF ok])
        (use ws_okD [OF ok] old tail [OF Cons] Cons in \<open>auto simp: writePump_message_def writePump_end_def Let_def subseq_more\<close>)
  qed
qed

lemma ws_run_ok: "ws_run es h \<Longrightarrow> ws_ok es h"
proof (induction rule: ws_run.induct)
  case start
  show ?case by (simp add: ws_ok_def NewHub_def no_client_def)
next
  case (step es h e)
  then show ?case
    by (cases e) (auto intro: Connect_ok First_ok Pumps_ok Pub_ok ReadFails_ok Message_ok Ping_ok)
qed

text \<open>
  C39: However connections, snapshots, reads and writes interleave, no send hits a closed channel, no
  client's backlog exceeds its buffer, and what a client received is, in order, some of the
  snapshots it was offered.
\<close>
theorem ws_safe:
  assumes "ws_run es h"
  shows "\<not> wh_panic h \<and> length (wc_buf (wh_all h c)) \<le> send_buffer \<and>
    subseq (wc_sent (wh_all h c)) (concat (map (offered c) es))"
proof -
  have ok: "ws_ok es h" by (rule ws_run_ok [OF assms])
  have "subseq (wc_sent (wh_all h c)) (wc_sent (wh_all h c) @ wc_buf (wh_all h c))" by (rule subseq_more) simp
  then have "subseq (wc_sent (wh_all h c)) (concat (map (offered c) es))"
    using ws_okD(8) [OF ok, of c] by (rule subseq_order.trans)
  then show ?thesis using ws_okD(1,7) [OF ok] by simp
qed

text \<open>Two clients, one of which goes away between two snapshots.\<close>

definition ex_ws :: "ws_event list" where
  "ex_ws = [Connect, Connect, First 0 (Inr ''s0''), Pumps 0, Pumps 1, Pub (Inr ''s1''), Message 0 True, ReadFails 1, Pub (Inr ''s2''),
     Message 0 True, Message 1 True]"

fun ws_exec :: "ws_event list \<Rightarrow> Hub \<Rightarrow> Hub option" where
  "ws_exec [] h = Some h"
| "ws_exec (e # es) h = (if ws_enabled e h then ws_exec es (ws_do e h) else None)"

lemma ws_exec_run: "ws_run es0 h \<Longrightarrow> ws_exec es h = Some h' \<Longrightarrow> ws_run (es0 @ es) h'"
proof (induction es arbitrary: es0 h)
  case (Cons e es)
  then have e: "ws_enabled e h" "ws_exec es (ws_do e h) = Some h'" by (auto split: if_splits)
  from Cons.IH [OF ws_run.step [OF Cons.prems(1) e(1)] e(2)] show ?case by simp
qed simp

lemma ex_ws_runs: "\<exists>h. ws_exec ex_ws NewHub = Some h \<and> wc_sent (wh_all h 0) = [''s0'', ''s1''] \<and> wc_sent (wh_all h 1) = [''s1'']"
  by (simp add: ex_ws_def NewHub_def serve_register_def register_def serve_first_def serve_pumps_def Publish_def broadcast_def
      trySend_def send_buffer_def readPump_end_def unregister_def writePump_message_def no_client_def Let_def)

theorem ws_safe_witness:
  "\<exists>h :: Hub. wc_sent (wh_all h 0) = [''s0'', ''s1''] \<and> \<not> wh_panic h \<and> subseq (wc_sent (wh_all h 0)) (concat (map (offered 0) ex_ws))"
proof -
  obtain h where h: "ws_exec ex_ws NewHub = Some h" "wc_sent (wh_all h 0) = [''s0'', ''s1'']" using ex_ws_runs by blast
  have run: "ws_run ex_ws h" using ws_exec_run [OF ws_run.start h(1)] by simp
  show ?thesis by (rule exI [of _ h]) (use ws_safe [OF run, of 0] h(2) in simp)
qed

end
