(* ===== verification/Handlers.thy ===== *)
theory Handlers
  imports Auth Limiter Ws_Hub Keys
begin

text \<open>
  The HTTP handlers (\<^verbatim>\<open>api/http/handlers\<close>) over the control plane.  A handler takes the server and
  returns its response and the server afterwards.  What gin does is a parameter: the decoding of a JSON
  body into each request type, with its \<^verbatim>\<open>binding:"required"\<close> checks, and the uploaded form file.
  So are the outcomes of file operations, the random bytes of a new setup token, the clock, and
  \<^verbatim>\<open>json.Marshal\<close> of a status message.
\<close>

section \<open>Requests and responses\<close>

record setupRequest =
  sr_Endpoint :: string
  sr_Subnet :: string
  sr_AdminUsername :: string
  sr_AdminPassword :: string
  sr_ListenPort :: int
  sr_MTU :: int
  sr_StatusInterval :: int
  sr_UpstreamDNS :: "string list"

record loginRequest =
  lr_Username :: string
  lr_Password :: string

record changePasswordRequest =
  cr_CurrentPassword :: string
  cr_NewPassword :: string

record updateSettingsRequest =
  us_MTU :: int
  us_StatusInterval :: int
  us_UpstreamDNS :: "string list"

record createGroupRequest =
  cgr_Name :: string
  cgr_PosX :: int
  cgr_PosY :: int

record updateGroupRequest =
  ugr_Name :: "string option"
  ugr_PosX :: "int option"
  ugr_PosY :: "int option"
  ugr_AllowIntraGroup :: "bool option"

record groupLinkRequest =
  glr_FromGroupID :: nat
  glr_ToGroupID :: nat
  glr_Bidirectional :: "bool option"

record layoutItem =
  li_ID :: nat
  li_PosX :: int
  li_PosY :: int

record createPeerRequest =
  cpr_Name :: string
  cpr_GroupID :: nat

record updatePeerRequest =
  upr_Name :: "string option"
  upr_GroupID :: "nat option"

record portForwardRequest =
  pfr_Name :: string
  pfr_ListenPort :: int
  pfr_Protocol :: string
  pfr_TargetHost :: string
  pfr_TargetPort :: int

record mapRequest =
  mpr_Name :: string
  mpr_Slug :: string
  mpr_TargetHost :: string
  mpr_AllowedGroupIDs :: "nat list"

text \<open>\<^verbatim>\<open>ShouldBindJSON\<close> for each request type, from the body.\<close>

record binders =
  bd_setup :: "string \<Rightarrow> err + setupRequest"
  bd_reset :: "string \<Rightarrow> err + string"
  bd_login :: "string \<Rightarrow> err + loginRequest"
  bd_password :: "string \<Rightarrow> err + changePasswordRequest"
  bd_settings :: "string \<Rightarrow> err + updateSettingsRequest"
  bd_createGroup :: "string \<Rightarrow> err + createGroupRequest"
  bd_updateGroup :: "string \<Rightarrow> err + updateGroupRequest"
  bd_link :: "string \<Rightarrow> err + groupLinkRequest"
  bd_layout :: "string \<Rightarrow> err + layoutItem list"
  bd_createPeer :: "string \<Rightarrow> err + createPeerRequest"
  bd_updatePeer :: "string \<Rightarrow> err + updatePeerRequest"
  bd_forward :: "string \<Rightarrow> err + portForwardRequest"
  bd_map :: "string \<Rightarrow> err + mapRequest"

text \<open>An absent header or query parameter is empty, as gin returns it; the file is its name and size.\<close>

record Request =
  rq_Authorization :: string
  rq_setup_token :: string
  rq_token :: string
  rq_id :: string
  rq_body :: string
  rq_ip :: string
  rq_file :: "err + string \<times> int"

datatype body = BNone | BJson json | BFile "err + string"

record Response =
  rs_status :: nat
  rs_body :: body
  rs_retry_after :: "int option"

section \<open>The server (\<^verbatim>\<open>server.go\<close>)\<close>

text \<open>\<open>sv_published\<close>: the status messages handed to the WebSocket hub (theory \<open>Ws_Hub\<close>).\<close>

record 'rt Server =
  sv_App :: "'rt App"
  sv_loginLimiter :: "LoginRateLimiter option"
  sv_setupToken :: string
  sv_StatusWS :: "Hub option"

text \<open>
  What a request runs in: the runtime's operations and the database, password hashing, key generation,
  tokens, binders, the clock, random bytes, files.  \<open>en_import\<close> is the store's \<^verbatim>\<open>ImportDatabase\<close> of the
  saved upload, \<open>en_export\<close> what \<^verbatim>\<open>ExportDatabase\<close> and the response's temporary file deliver, and
  \<open>en_upgrade\<close> whether the WebSocket library accepts the connection or answers itself.
\<close>

record 'rt Env =
  en_ops :: "'rt net_ops"
  en_exec :: sql
  en_bcrypt :: "string \<Rightarrow> err + string"
  en_verify :: "string \<Rightarrow> string \<Rightarrow> bool"
  en_keys :: "err + string \<times> string"
  en_jwt :: jwt
  en_secret :: string
  en_bind :: binders
  en_now :: int
  en_nanos :: int
  en_random :: "u8 list"
  en_marshal :: "StatusMessage \<Rightarrow> err + string"
  en_upload :: "err + unit"
  en_save :: "err + unit"
  en_import :: "unit prog"
  en_export :: "err + string"
  en_upgrade :: "Response + unit"

type_synonym 'rt handler = "'rt Server \<Rightarrow> Response \<times> 'rt Server"

definition GetSetupToken :: "'rt Server \<Rightarrow> string" where
  "GetSetupToken s = sv_setupToken s"

definition setSetupToken :: "string \<Rightarrow> 'rt Server \<Rightarrow> 'rt Server" where
  "setSetupToken tok s = s\<lparr>sv_setupToken := tok, sv_App := SetSetupToken tok (sv_App s)\<rparr>"

definition newSetupToken :: "u8 list \<Rightarrow> string" where
  "newSetupToken random = hex_encode random"

definition RegenerateSetupToken :: "u8 list \<Rightarrow> 'rt Server \<Rightarrow> string \<times> 'rt Server" where
  "RegenerateSetupToken random s = (newSetupToken random, setSetupToken (newSetupToken random) s)"

definition NewServer :: "'rt App \<Rightarrow> string \<Rightarrow> 'rt Server" where
  "NewServer a setupToken = (setSetupToken setupToken
     \<lparr>sv_App = a, sv_loginLimiter = Some DefaultLoginRateLimiter, sv_setupToken = [], sv_StatusWS = None\<rparr>)
     \<lparr>sv_StatusWS := Some NewHub\<rparr>"

section \<open>Shared by the handlers\<close>

definition reply_body :: "nat \<Rightarrow> body \<Rightarrow> 'rt handler" where
  "reply_body n b = (\<lambda>s. (\<lparr>rs_status = n, rs_body = b, rs_retry_after = None\<rparr>, s))"

definition reply :: "nat \<Rightarrow> json \<Rightarrow> 'rt handler" where
  "reply n j = reply_body n (BJson j)"

definition reply_err :: "nat \<Rightarrow> err \<Rightarrow> 'rt handler" where
  "reply_err n e = reply n (JObj [(''error'', JErr e)])"

definition reply_msg :: "nat \<Rightarrow> string \<Rightarrow> 'rt handler" where
  "reply_msg n m = reply n (JObj [(''error'', JStr m)])"

definition reply_ok :: "nat \<Rightarrow> 'rt handler" where
  "reply_ok n = reply n (JObj [(''ok'', JBool True)])"

definition call :: "('rt, 'a) svc \<Rightarrow> (err + 'a \<Rightarrow> 'rt handler) \<Rightarrow> 'rt handler" where
  "call m k = (\<lambda>s. case m (sv_App s) of (r, a) \<Rightarrow> k r (s\<lparr>sv_App := a\<rparr>))"

definition with_body :: "err + 'a \<Rightarrow> ('a \<Rightarrow> 'rt handler) \<Rightarrow> 'rt handler" where
  "with_body r k = (case r of Inl e \<Rightarrow> reply_err 400 e | Inr x \<Rightarrow> k x)"

text \<open>\<^verbatim>\<open>ParseID\<close>: \<^verbatim>\<open>strconv.ParseUint\<close> with base 10 and 64 bits.\<close>

definition ParseID :: "Request \<Rightarrow> nat option" where
  "ParseID rq = (let t = rq_id rq in
     if t \<noteq> [] \<and> list_all is_digit t \<and> digits_val t < 2 ^ 64 then Some (digits_val t) else None)"

definition with_id :: "Request \<Rightarrow> (nat \<Rightarrow> 'rt handler) \<Rightarrow> 'rt handler" where
  "with_id rq k = (case ParseID rq of None \<Rightarrow> reply_msg 400 ''invalid id'' | Some i \<Rightarrow> k i)"

text \<open>\<^verbatim>\<open>BuildJSON\<close> and the publication of a fresh status to the WebSocket clients.\<close>

definition BuildJSON :: "'rt Env \<Rightarrow> string prog" where
  "BuildJSON en = andthen (buildMessage (en_exec en) (en_now en)) (\<lambda>msg. lift_res (en_marshal en msg))"

definition NotifyStatus :: "'rt Env \<Rightarrow> 'rt Server \<Rightarrow> 'rt Server" where
  "NotifyStatus en s = (case sv_StatusWS s of None \<Rightarrow> s
     | Some h \<Rightarrow> (case store (BuildJSON en) (sv_App s) of
         (snap, a) \<Rightarrow> s\<lparr>sv_App := a, sv_StatusWS := Some (Publish snap h)\<rparr>))"

definition notify_then :: "'rt Env \<Rightarrow> 'rt handler \<Rightarrow> 'rt handler" where
  "notify_then en k = (\<lambda>s. k (NotifyStatus en s))"

definition runtime_status :: "err \<Rightarrow> nat \<Rightarrow> nat" where
  "runtime_status e n = (if IsRuntimeFailure e then 503 else n)"

section \<open>Setup, login and reset (\<^verbatim>\<open>setup.go\<close>)\<close>

definition token_message :: string where
  "token_message = ''setup token required; check server logs for the first-run setup token''"

definition requireSetupToken :: "'rt Env \<Rightarrow> Request \<Rightarrow> 'rt handler \<Rightarrow> 'rt handler" where
  "requireSetupToken en rq k = call (store (IsConfigured (en_exec en))) (\<lambda>r s. case r of
       Inl e \<Rightarrow> reply_err 500 e s
     | Inr configured \<Rightarrow>
         if configured then k s
         else if rq_setup_token rq \<noteq> GetSetupToken s then reply_msg 403 token_message s
         else k s)"

definition h_SetupStatus :: "'rt Env \<Rightarrow> Request \<Rightarrow> 'rt handler" where
  "h_SetupStatus en rq = requireSetupToken en rq (call (store (SetupStatus (en_exec en))) (\<lambda>r. case r of
       Inl e \<Rightarrow> reply_err 500 e
     | Inr (configured, defaults) \<Rightarrow> reply 200 (ToSetupStatusResponse configured defaults)))"

definition login :: "'rt Env \<Rightarrow> string \<Rightarrow> string \<Rightarrow> ('rt, string) svc" where
  "login en username password =
     store (auth_Login (en_jwt en) (en_secret en) (en_exec en) (en_verify en) (en_now en) username password)"

definition setup_input :: "setupRequest \<Rightarrow> svc_SetupInput" where
  "setup_input req = \<lparr>ss_Endpoint = sr_Endpoint req, ss_Subnet = sr_Subnet req, ss_AdminUsername = sr_AdminUsername req,
     ss_AdminPassword = sr_AdminPassword req, ss_ListenPort = sr_ListenPort req, ss_MTU = sr_MTU req,
     ss_StatusInterval = sr_StatusInterval req, ss_UpstreamDNS = sr_UpstreamDNS req\<rparr>"

definition setup_error :: "err \<Rightarrow> 'rt handler" where
  "setup_error e =
     (if e = ErrSetupTokenRequired then reply_msg 403 token_message
      else if e = ErrAlreadyConfigured then reply_err 409 e
      else reply_err (if IsRuntimeFailure e \<or> e = ErrNetworkUnavailable then 503 else 400) e)"

definition h_Setup :: "'rt Env \<Rightarrow> Request \<Rightarrow> 'rt handler" where
  "h_Setup en rq = requireSetupToken en rq (case bd_setup (en_bind en) (rq_body rq) of
       Inl e \<Rightarrow> call (store (IsConfigured (en_exec en))) (\<lambda>r.
         if r = Inr True then reply_msg 409 ''already configured'' else reply_err 400 e)
     | Inr req \<Rightarrow>
         call (svc_setup (en_ops en) (en_exec en) (en_bcrypt en) (en_keys en) (setup_input req) (rq_setup_token rq) True) (\<lambda>r. case r of
           Inl e \<Rightarrow> setup_error e
         | Inr _ \<Rightarrow>
             call (login en (if sr_AdminUsername req = [] then DefaultAdminUsername else sr_AdminUsername req) (sr_AdminPassword req)) (\<lambda>r.
             case r of Inl e \<Rightarrow> reply_err 500 e | Inr token \<Rightarrow> reply 200 (JObj [(''token'', JStr token)]))))"

text \<open>The claims are those the middleware put into the context.\<close>

definition h_Reset :: "'rt Env \<Rightarrow> Request \<Rightarrow> Claims \<Rightarrow> 'rt handler" where
  "h_Reset en rq cl = with_body (bd_reset (en_bind en) (rq_body rq)) (\<lambda>password.
     let newToken = newSetupToken (en_random en) in
     call (ResetWithAdminPassword (en_ops en) (en_exec en) (en_verify en) (cl_Username cl) password newToken) (\<lambda>r. case r of
       Inl e \<Rightarrow> if e = ErrInvalidAdminPassword then reply_msg 401 ''password is incorrect'' else reply_err 500 e
     | Inr _ \<Rightarrow> (\<lambda>s. reply 200 (JObj [(''ok'', JBool True), (''setup_token'', JStr newToken)]) (setSetupToken newToken s))))"

definition rejectLogin :: "'rt Env \<Rightarrow> string \<Rightarrow> 'rt handler \<Rightarrow> 'rt handler" where
  "rejectLogin en ip k = (\<lambda>s. case sv_loginLimiter s of
       None \<Rightarrow> k s
     | Some limiter \<Rightarrow> (case RejectLoginRateLimit ip (en_nanos en) limiter of
         (Some n, limiter) \<Rightarrow> (\<lparr>rs_status = 429, rs_body = BJson (JObj [(''error'', JStr ''too many login attempts'')]),
             rs_retry_after = Some n\<rparr>, s\<lparr>sv_loginLimiter := Some limiter\<rparr>)
       | (None, limiter) \<Rightarrow> k (s\<lparr>sv_loginLimiter := Some limiter\<rparr>)))"

definition h_Login :: "'rt Env \<Rightarrow> Request \<Rightarrow> 'rt handler" where
  "h_Login en rq = call (store (IsConfigured (en_exec en))) (\<lambda>r. case r of
       Inl e \<Rightarrow> reply_err 500 e
     | Inr configured \<Rightarrow>
         if \<not> configured then reply_msg 503 ''setup required''
         else (case bd_login (en_bind en) (rq_body rq) of
           Inl _ \<Rightarrow> reply_msg 400 ''username and password are required''
         | Inr req \<Rightarrow> rejectLogin en (rq_ip rq) (call (login en (lr_Username req) (lr_Password req)) (\<lambda>r. case r of
             Inl e \<Rightarrow> reply_err 401 e
           | Inr token \<Rightarrow> (\<lambda>s. reply 200 (JObj [(''token'', JStr token)])
               (s\<lparr>sv_loginLimiter := map_option (RecordLoginSuccess (rq_ip rq)) (sv_loginLimiter s)\<rparr>))))))"

section \<open>Groups (\<^verbatim>\<open>groups.go\<close>)\<close>

definition h_ListGroups :: "'rt Env \<Rightarrow> 'rt handler" where
  "h_ListGroups en = call (store (svc_ListGroups (en_exec en))) (\<lambda>r. case r of
       Inl e \<Rightarrow> reply_err 500 e
     | Inr groups \<Rightarrow> reply 200 (JArr (map ToGroupResponse groups)))"

definition id_name :: "GroupMutationView \<Rightarrow> json" where
  "id_name g = JObj [(''id'', JNat (gm_ID g)), (''name'', JStr (gm_Name g))]"

definition group_json :: "GroupMutationView \<Rightarrow> GroupView list \<Rightarrow> json" where
  "group_json g groups = (case find (\<lambda>v. gm_ID v = gm_ID g) groups of None \<Rightarrow> id_name g | Some v \<Rightarrow> ToGroupResponse v)"

definition h_CreateGroup :: "'rt Env \<Rightarrow> Request \<Rightarrow> 'rt handler" where
  "h_CreateGroup en rq = with_body (bd_createGroup (en_bind en) (rq_body rq)) (\<lambda>req.
     call (CreateGroup (en_ops en) (en_exec en) \<lparr>cg_Name = cgr_Name req, cg_PosX = cgr_PosX req, cg_PosY = cgr_PosY req\<rparr>) (\<lambda>r. case r of
       Inl e \<Rightarrow> reply_err (runtime_status e 400) e
     | Inr g \<Rightarrow> call (store (svc_ListGroups (en_exec en))) (\<lambda>v.
         reply 201 (group_json g (case v of Inl _ \<Rightarrow> [] | Inr groups \<Rightarrow> groups)))))"

definition h_UpdateGroup :: "'rt Env \<Rightarrow> Request \<Rightarrow> 'rt handler" where
  "h_UpdateGroup en rq = with_id rq (\<lambda>i. with_body (bd_updateGroup (en_bind en) (rq_body rq)) (\<lambda>req.
     call (UpdateGroup (en_ops en) (en_exec en) i \<lparr>ug_Name = ugr_Name req, ug_PosX = ugr_PosX req, ug_PosY = ugr_PosY req,
         ug_AllowIntraGroup = ugr_AllowIntraGroup req\<rparr>) (\<lambda>r. case r of
       Inl e \<Rightarrow> if IsRuntimeFailure e then reply_err 503 e else reply_msg 404 ''group not found''
     | Inr g \<Rightarrow> call (store (svc_ListGroups (en_exec en))) (\<lambda>v. case v of
         Inl e \<Rightarrow> reply_err 500 e
       | Inr groups \<Rightarrow> reply 200 (group_json g groups)))))"

definition h_DeleteGroup :: "'rt Env \<Rightarrow> Request \<Rightarrow> 'rt handler" where
  "h_DeleteGroup en rq = with_id rq (\<lambda>i. call (Service_Ops.DeleteGroup (en_ops en) (en_exec en) i) (\<lambda>r. case r of
       Inl e \<Rightarrow> reply_err (runtime_status e 400) e
     | Inr _ \<Rightarrow> reply_ok 200))"

definition h_GroupGraph :: "'rt Env \<Rightarrow> 'rt handler" where
  "h_GroupGraph en = call (store (GroupGraph (en_exec en))) (\<lambda>r. case r of
       Inl e \<Rightarrow> reply_err 500 e
     | Inr v \<Rightarrow> reply 200 (ToGroupGraphResponse v))"

definition link_input :: "groupLinkRequest \<Rightarrow> bool \<Rightarrow> GroupLinkInput" where
  "link_input req bidir = \<lparr>li_From = glr_FromGroupID req, li_To = glr_ToGroupID req, li_Bidirectional = bidir\<rparr>"

definition h_CreateGroupLink :: "'rt Env \<Rightarrow> Request \<Rightarrow> 'rt handler" where
  "h_CreateGroupLink en rq = with_body (bd_link (en_bind en) (rq_body rq)) (\<lambda>req.
     call (CreateGroupLink (en_ops en) (en_exec en)
         (link_input req (case glr_Bidirectional req of None \<Rightarrow> True | Some b \<Rightarrow> b))) (\<lambda>r. case r of
       Inl e \<Rightarrow> reply_err (runtime_status e 400) e
     | Inr _ \<Rightarrow> reply_ok 201))"

definition h_DeleteGroupLink :: "'rt Env \<Rightarrow> Request \<Rightarrow> 'rt handler" where
  "h_DeleteGroupLink en rq = with_body (bd_link (en_bind en) (rq_body rq)) (\<lambda>req.
     call (Service_Ops.DeleteGroupLink (en_ops en) (en_exec en) (link_input req (glr_Bidirectional req = Some True))) (\<lambda>r. case r of
       Inl e \<Rightarrow> reply_err (runtime_status e 500) e
     | Inr _ \<Rightarrow> reply_ok 200))"

definition h_UpdateGroupLayout :: "'rt Env \<Rightarrow> Request \<Rightarrow> 'rt handler" where
  "h_UpdateGroupLayout en rq = with_body (bd_layout (en_bind en) (rq_body rq)) (\<lambda>items.
     call (store (UpdateGroupLayout (en_exec en)
       (map (\<lambda>i. \<lparr>ly_ID = li_ID i, ly_PosX = li_PosX i, ly_PosY = li_PosY i\<rparr>) items))) (\<lambda>_. reply_ok 200))"

section \<open>Peers (\<^verbatim>\<open>peers.go\<close>)\<close>

definition writePeerErr :: "err \<Rightarrow> 'rt handler" where
  "writePeerErr e = reply_err
     (if e = ErrPeerNotFound then 404 else if IsRuntimeFailure e \<or> e = ErrNetworkUnavailable then 503 else 400) e"

definition h_ListPeers :: "'rt Env \<Rightarrow> 'rt handler" where
  "h_ListPeers en = call (store (svc_ListPeers (en_exec en))) (\<lambda>r. case r of
       Inl e \<Rightarrow> reply_err 500 e
     | Inr peers \<Rightarrow> reply 200 (ToPeerResponses peers))"

definition h_CreatePeer :: "'rt Env \<Rightarrow> Request \<Rightarrow> 'rt handler" where
  "h_CreatePeer en rq = with_body (bd_createPeer (en_bind en) (rq_body rq)) (\<lambda>req.
     call (createPeer (en_ops en) (en_exec en) (en_keys en) (en_now en) \<lparr>cp_Name = cpr_Name req, cp_GroupID = cpr_GroupID req\<rparr>) (\<lambda>r. case r of
       Inl e \<Rightarrow> reply_err (if IsRuntimeFailure e \<or> e = ErrNetworkUnavailable then 503
         else if e = ErrGroupNotFound \<or> e = ErrHostnameExists then 400 else 500) e
     | Inr peer \<Rightarrow> notify_then en (reply 201 (ToPeerResponse peer))))"

definition h_UpdatePeer :: "'rt Env \<Rightarrow> Request \<Rightarrow> 'rt handler" where
  "h_UpdatePeer en rq = with_id rq (\<lambda>i. with_body (bd_updatePeer (en_bind en) (rq_body rq)) (\<lambda>req.
     if upr_GroupID req = None \<and> upr_Name req = None then reply_msg 400 ''name or group_id is required''
     else call (updatePeerFields (en_ops en) (en_exec en) i \<lparr>up_Name = upr_Name req, up_GroupID = upr_GroupID req\<rparr>) (\<lambda>r. case r of
       Inl e \<Rightarrow> writePeerErr e
     | Inr peer \<Rightarrow> notify_then en (reply 200 (ToPeerResponse peer)))))"

definition h_DeletePeer :: "'rt Env \<Rightarrow> Request \<Rightarrow> 'rt handler" where
  "h_DeletePeer en rq = with_id rq (\<lambda>i. call (Service_Ops.DeletePeer (en_ops en) (en_exec en) i) (\<lambda>r. case r of
       Inl e \<Rightarrow> reply_err (if IsRuntimeFailure e then 503 else if e = ErrPeerNotFound then 404 else 500) e
     | Inr _ \<Rightarrow> notify_then en (reply_ok 200)))"

definition h_TogglePeer :: "'rt Env \<Rightarrow> Request \<Rightarrow> 'rt handler" where
  "h_TogglePeer en rq = with_id rq (\<lambda>i. call (togglePeer (en_ops en) (en_exec en) i) (\<lambda>r. case r of
       Inl e \<Rightarrow> writePeerErr e
     | Inr peer \<Rightarrow> notify_then en (reply 200 (ToPeerResponse peer))))"

definition h_PeerConfig :: "'rt Env \<Rightarrow> Request \<Rightarrow> 'rt handler" where
  "h_PeerConfig en rq = with_id rq (\<lambda>i. call (store (ClientConfig (en_exec en) i)) (\<lambda>r. case r of
       Inl e \<Rightarrow> reply_err (if e = ErrPeerNotFound then 404
         else if e = Errorf ''server endpoint is not configured'' then 400 else 500) e
     | Inr conf \<Rightarrow> reply 200 (JObj [(''config'', JStr (cc_Config conf)), (''filename'', JStr (cc_Filename conf))])))"

section \<open>Maps (\<^verbatim>\<open>maps.go\<close>)\<close>

definition map_input :: "mapRequest \<Rightarrow> MapInput" where
  "map_input req = \<lparr>mi_Name = mpr_Name req, mi_Slug = mpr_Slug req, mi_TargetHost = mpr_TargetHost req,
     mi_AllowedGroups = mpr_AllowedGroupIDs req\<rparr>"

definition writeMapErr :: "err \<Rightarrow> 'rt handler" where
  "writeMapErr e = reply_err (if IsRuntimeFailure e then 503 else if e = ErrMapSlugConflict then 409 else 400) e"

definition h_ListMaps :: "'rt Env \<Rightarrow> 'rt handler" where
  "h_ListMaps en = call (store (svc_ListMapDetails (en_exec en))) (\<lambda>r. case r of
       Inl e \<Rightarrow> reply_err 500 e
     | Inr maps \<Rightarrow> reply 200 (JObj [(''maps'', JArr (map ToMapResponse maps))]))"

definition h_CreateMap :: "'rt Env \<Rightarrow> Request \<Rightarrow> 'rt handler" where
  "h_CreateMap en rq = with_body (bd_map (en_bind en) (rq_body rq)) (\<lambda>req.
     call (createServiceMap (en_ops en) (en_exec en) (map_input req)) (\<lambda>r. case r of
       Inl e \<Rightarrow> writeMapErr e | Inr detail \<Rightarrow> reply 201 (ToMapResponse detail)))"

definition h_UpdateMap :: "'rt Env \<Rightarrow> Request \<Rightarrow> 'rt handler" where
  "h_UpdateMap en rq = with_id rq (\<lambda>i. with_body (bd_map (en_bind en) (rq_body rq)) (\<lambda>req.
     call (updateServiceMap (en_ops en) (en_exec en) i (map_input req)) (\<lambda>r. case r of
       Inl e \<Rightarrow> writeMapErr e | Inr detail \<Rightarrow> reply 200 (ToMapResponse detail))))"

definition h_DeleteMap :: "'rt Env \<Rightarrow> Request \<Rightarrow> 'rt handler" where
  "h_DeleteMap en rq = with_id rq (\<lambda>i. call (Service_Ops.DeleteServiceMap (en_ops en) (en_exec en) i) (\<lambda>r. case r of
       Inl e \<Rightarrow> reply_err (runtime_status e 500) e | Inr _ \<Rightarrow> reply_ok 200))"

section \<open>Port forwards (\<^verbatim>\<open>forwards.go\<close>)\<close>

definition forward_input :: "portForwardRequest \<Rightarrow> PortForwardInput" where
  "forward_input req = \<lparr>pi_Name = pfr_Name req, pi_ListenPort = pfr_ListenPort req, pi_Protocol = pfr_Protocol req,
     pi_TargetHost = pfr_TargetHost req, pi_TargetPort = pfr_TargetPort req\<rparr>"

definition writeForwardErr :: "err \<Rightarrow> 'rt handler" where
  "writeForwardErr e =
     (if IsRuntimeFailure e then reply_err 503 e
      else case ClassifyForwardErr e of
        ForwardErrConflict \<Rightarrow> reply_msg 409 ''listen port and protocol already in use''
      | ForwardErrNotFound \<Rightarrow> reply_msg 404 ''forward not found''
      | ForwardErrOther \<Rightarrow> reply_err 400 e)"

definition h_ListPortForwards :: "'rt Env \<Rightarrow> 'rt handler" where
  "h_ListPortForwards en = call (store (svc_ListPortForwards (en_exec en))) (\<lambda>r. case r of
       Inl e \<Rightarrow> reply_err 500 e
     | Inr v \<Rightarrow> reply 200 (JObj [(''rules'', JArr (map ToPortForwardResponse (fl_Rules v))), (''hub_ip'', JStr (fl_HubIP v)),
         (''hub_port'', JInt (fl_HubPort v))]))"

definition h_CreatePortForward :: "'rt Env \<Rightarrow> Request \<Rightarrow> 'rt handler" where
  "h_CreatePortForward en rq = with_body (bd_forward (en_bind en) (rq_body rq)) (\<lambda>req.
     call (CreatePortForward (en_ops en) (en_exec en) (forward_input req)) (\<lambda>r. case r of
       Inl e \<Rightarrow> writeForwardErr e | Inr rule \<Rightarrow> reply 201 (ToPortForwardResponse rule)))"

definition h_UpdatePortForward :: "'rt Env \<Rightarrow> Request \<Rightarrow> 'rt handler" where
  "h_UpdatePortForward en rq = with_id rq (\<lambda>i. with_body (bd_forward (en_bind en) (rq_body rq)) (\<lambda>req.
     call (UpdatePortForward (en_ops en) (en_exec en) i (forward_input req)) (\<lambda>r. case r of
       Inl e \<Rightarrow> writeForwardErr e | Inr rule \<Rightarrow> reply 200 (ToPortForwardResponse rule))))"

definition h_DeletePortForward :: "'rt Env \<Rightarrow> Request \<Rightarrow> 'rt handler" where
  "h_DeletePortForward en rq = with_id rq (\<lambda>i. call (DeletePortForward (en_ops en) (en_exec en) i) (\<lambda>r. case r of
       Inl e \<Rightarrow> if IsRuntimeFailure e then reply_err 503 e
         else if ClassifyForwardErr e = ForwardErrNotFound then reply_msg 404 ''forward not found'' else reply_err 500 e
     | Inr _ \<Rightarrow> reply_ok 200))"

section \<open>Settings, export and import (\<^verbatim>\<open>settings.go\<close>)\<close>

definition h_GetSettings :: "'rt Env \<Rightarrow> 'rt handler" where
  "h_GetSettings en = call (store (GetSettingsView (en_exec en))) (\<lambda>r. case r of
       Inl e \<Rightarrow> reply_err 500 e
     | Inr v \<Rightarrow> reply 200 (ToSettingsViewResponse v))"

definition h_UpdateSettings :: "'rt Env \<Rightarrow> Request \<Rightarrow> 'rt handler" where
  "h_UpdateSettings en rq = with_body (bd_settings (en_bind en) (rq_body rq)) (\<lambda>req.
     call (updateMutableSettings (en_ops en) (en_exec en) (us_MTU req) (us_StatusInterval req) (us_UpstreamDNS req)) (\<lambda>r. case r of
       Inl e \<Rightarrow> reply_err (runtime_status e 400) e
     | Inr restart \<Rightarrow> reply 200 (JObj [(''ok'', JBool True), (''restart_required'', JBool restart)])))"

definition h_ChangePassword :: "'rt Env \<Rightarrow> Request \<Rightarrow> Claims \<Rightarrow> 'rt handler" where
  "h_ChangePassword en rq cl = with_body (bd_password (en_bind en) (rq_body rq)) (\<lambda>req.
     call (store (ChangeAdminPassword (en_exec en) (en_bcrypt en) (en_verify en) (cl_Username cl)
         (cr_CurrentPassword req) (cr_NewPassword req))) (\<lambda>r. case r of
       Inl e \<Rightarrow> if e = ErrInvalidAdminPassword then reply_msg 401 ''current password is incorrect'' else reply_err 400 e
     | Inr _ \<Rightarrow> reply_ok 200))"

definition h_ExportDatabase :: "'rt Env \<Rightarrow> 'rt handler" where
  "h_ExportDatabase en = (case en_export en of
       Inl e \<Rightarrow> reply_err 500 e
     | Inr bytes \<Rightarrow> reply_body 200 (BFile (Inr bytes)))"

definition MaxUploadBytes :: int where "MaxUploadBytes = 128 * 2 ^ 20"

text \<open>\<^verbatim>\<open>filepath.Ext\<close> is \<^verbatim>\<open>.db\<close> exactly for names that end so.\<close>

definition h_ImportDatabase :: "'rt Env \<Rightarrow> Request \<Rightarrow> 'rt handler" where
  "h_ImportDatabase en rq = requireSetupToken en rq (case rq_file rq of
       Inl _ \<Rightarrow> call (store (IsConfigured (en_exec en))) (\<lambda>r.
         if r = Inr True then reply_msg 409 ''hub is already configured; reset before importing a database''
         else reply_msg 400 ''database file is required'')
     | Inr (name, bytes) \<Rightarrow>
         if \<not> has_suffix name ''.db'' then reply_msg 400 ''file must be a .db SQLite database''
         else if bytes > MaxUploadBytes
         then reply_msg 413 (''database file exceeds '' @ itoa_int MaxUploadBytes @ '' bytes limit'')
         else (case en_upload en of
           Inl e \<Rightarrow> reply_err 500 e
         | Inr _ \<Rightarrow> with_body (en_save en) (\<lambda>_.
             call (importDatabase (en_ops en) (en_exec en) (en_import en) (rq_setup_token rq) True) (\<lambda>r. case r of
               Inl e \<Rightarrow> if e = ErrSetupTokenRequired then reply_msg 403 token_message
                 else if e = ErrImportWhenConfigured then reply_err 409 e
                 else reply_err 400 e
             | Inr _ \<Rightarrow> reply_ok 200))))"

section \<open>Live status (\<^verbatim>\<open>ws.go\<close>)\<close>

definition ws_token :: "Request \<Rightarrow> string" where
  "ws_token rq = (let token = trim_space (rq_token rq) in
     if token \<noteq> [] then token else case bearer (rq_Authorization rq) of Inl _ \<Rightarrow> [] | Inr t \<Rightarrow> t)"

text \<open>\<^verbatim>\<open>Hub.Serve\<close> up to the start of the pumps.\<close>

definition ws_Serve :: "'rt Env \<Rightarrow> Hub \<Rightarrow> 'rt handler" where
  "ws_Serve en h s = (case en_upgrade en of
       Inl response \<Rightarrow> (response, s)
     | Inr _ \<Rightarrow> (case store (BuildJSON en) (sv_App s) of
         (snap, a) \<Rightarrow> reply_body 101 BNone (s\<lparr>sv_App := a, sv_StatusWS :=
           Some (serve_pumps (wh_next h) (serve_first (wh_next h) snap (serve_register h)))\<rparr>)))"

definition h_StatusWS :: "'rt Env \<Rightarrow> Request \<Rightarrow> 'rt handler" where
  "h_StatusWS en rq = (let token = ws_token rq in
     if token = [] then reply_msg 401 ''missing token''
     else call (store (ParseToken (en_jwt en) (en_secret en) (en_exec en) (en_now en) token)) (\<lambda>r s. case r of
         Inl _ \<Rightarrow> reply_msg 401 ''invalid token'' s
       | Inr _ \<Rightarrow> (case sv_StatusWS s of None \<Rightarrow> reply_body 503 BNone s | Some h \<Rightarrow> ws_Serve en h s)))"

end
