(* ===== verification/Router.thy ===== *)
theory Router
  imports Handlers
begin

text \<open>
  The routes (\<^verbatim>\<open>api/http/router.go\<close>) and what guards the control plane: no request changes the database
  unless it carries a live admin session or, while the hub is unconfigured, the setup token.  Matching
  a path against the patterns is gin's; a request comes with its method and the pattern it matched.
\<close>

datatype 'rt access = Open "'rt Env \<Rightarrow> Request \<Rightarrow> 'rt handler" | Protected "'rt Env \<Rightarrow> Request \<Rightarrow> Claims \<Rightarrow> 'rt handler"

definition RegisterRoutes :: "((string \<times> string) \<times> 'rt access) list" where
  "RegisterRoutes =
    [((''GET'', ''/api/setup/status''), Open h_SetupStatus),
     ((''POST'', ''/api/setup''), Open h_Setup),
     ((''POST'', ''/api/setup/import''), Open h_ImportDatabase),
     ((''POST'', ''/api/auth/login''), Open h_Login),
     ((''GET'', ''/api/ws/status''), Open h_StatusWS),
     ((''POST'', ''/api/admin/reset''), Protected h_Reset),
     ((''GET'', ''/api/settings''), Protected (\<lambda>en _ _. h_GetSettings en)),
     ((''PUT'', ''/api/settings''), Protected (\<lambda>en rq _. h_UpdateSettings en rq)),
     ((''PUT'', ''/api/settings/password''), Protected h_ChangePassword),
     ((''GET'', ''/api/settings/export''), Protected (\<lambda>en _ _. h_ExportDatabase en)),
     ((''GET'', ''/api/groups''), Protected (\<lambda>en _ _. h_ListGroups en)),
     ((''POST'', ''/api/groups''), Protected (\<lambda>en rq _. h_CreateGroup en rq)),
     ((''PUT'', ''/api/groups/:id''), Protected (\<lambda>en rq _. h_UpdateGroup en rq)),
     ((''DELETE'', ''/api/groups/:id''), Protected (\<lambda>en rq _. h_DeleteGroup en rq)),
     ((''GET'', ''/api/groups/graph''), Protected (\<lambda>en _ _. h_GroupGraph en)),
     ((''POST'', ''/api/groups/links''), Protected (\<lambda>en rq _. h_CreateGroupLink en rq)),
     ((''DELETE'', ''/api/groups/links''), Protected (\<lambda>en rq _. h_DeleteGroupLink en rq)),
     ((''PUT'', ''/api/groups/layout''), Protected (\<lambda>en rq _. h_UpdateGroupLayout en rq)),
     ((''GET'', ''/api/forwards''), Protected (\<lambda>en _ _. h_ListPortForwards en)),
     ((''POST'', ''/api/forwards''), Protected (\<lambda>en rq _. h_CreatePortForward en rq)),
     ((''PUT'', ''/api/forwards/:id''), Protected (\<lambda>en rq _. h_UpdatePortForward en rq)),
     ((''DELETE'', ''/api/forwards/:id''), Protected (\<lambda>en rq _. h_DeletePortForward en rq)),
     ((''GET'', ''/api/maps''), Protected (\<lambda>en _ _. h_ListMaps en)),
     ((''POST'', ''/api/maps''), Protected (\<lambda>en rq _. h_CreateMap en rq)),
     ((''PUT'', ''/api/maps/:id''), Protected (\<lambda>en rq _. h_UpdateMap en rq)),
     ((''DELETE'', ''/api/maps/:id''), Protected (\<lambda>en rq _. h_DeleteMap en rq)),
     ((''GET'', ''/api/peers''), Protected (\<lambda>en _ _. h_ListPeers en)),
     ((''POST'', ''/api/peers''), Protected (\<lambda>en rq _. h_CreatePeer en rq)),
     ((''PUT'', ''/api/peers/:id''), Protected (\<lambda>en rq _. h_UpdatePeer en rq)),
     ((''DELETE'', ''/api/peers/:id''), Protected (\<lambda>en rq _. h_DeletePeer en rq)),
     ((''POST'', ''/api/peers/:id/toggle''), Protected (\<lambda>en rq _. h_TogglePeer en rq)),
     ((''GET'', ''/api/peers/:id/config''), Protected (\<lambda>en rq _. h_PeerConfig en rq))]"

definition middleware :: "'rt Env \<Rightarrow> Request \<Rightarrow> ('rt, Claims) svc" where
  "middleware en rq = store (Middleware (en_jwt en) (en_secret en) (en_exec en) (en_now en) (rq_Authorization rq))"

definition through :: "'rt Env \<Rightarrow> Request \<Rightarrow> 'rt access \<Rightarrow> 'rt handler" where
  "through en rq acc = (case acc of
       Open h \<Rightarrow> h en rq
     | Protected h \<Rightarrow> call (middleware en rq) (\<lambda>r. case r of Inl e \<Rightarrow> reply_err 401 e | Inr cl \<Rightarrow> h en rq cl))"

text \<open>\<open>None\<close>: no API route; the web interface answers.\<close>

definition serve :: "'rt Env \<Rightarrow> string \<Rightarrow> string \<Rightarrow> Request \<Rightarrow> 'rt Server \<Rightarrow> (Response \<times> 'rt Server) option" where
  "serve en method pattern rq s = map_option (\<lambda>acc. through en rq acc s) (map_of RegisterRoutes (method, pattern))"

end
