(* ===== verification/Router_Props.thy ===== *)
theory Router_Props
  imports Reconcile Router
begin

text \<open>
  The guard of the HTTP API: which requests can have an effect at all.
\<close>

section \<open>Requests without an effect\<close>

definition db_of :: "'rt Server \<Rightarrow> db" where
  "db_of s = snd (app_store (sv_App s))"

text \<open>The control plane, its runtime and the setup token are as before; the database has served reads only.\<close>

definition untouched :: "'rt Server \<Rightarrow> 'rt Server \<Rightarrow> bool" where
  "untouched s s' = ((\<exists>n. sv_App s' = (sv_App s)\<lparr>app_store := (n, db_of s)\<rparr>) \<and> sv_setupToken s' = sv_setupToken s)"

definition hub_configured :: "db \<Rightarrow> bool" where
  "hub_configured db = (t_admins db \<noteq> [] \<and> t_settings db \<noteq> [])"

text \<open>The request carries a session: a token of an account that exists, issued under its current password.\<close>

definition session_claims :: "'rt Env \<Rightarrow> Request \<Rightarrow> db \<Rightarrow> Claims \<Rightarrow> bool" where
  "session_claims en rq db c = (\<exists>token adm. bearer (rq_Authorization rq) = Inr token \<and>
     jw_parse (en_jwt en) (en_secret en) (en_now en) token = Inr (c, True) \<and>
     adm \<in> set (t_admins db) \<and> ad_ID adm = cl_AdminID c \<and> ad_TokenVersion adm = cl_TokenVersion c)"

definition setup_token_shown :: "Request \<Rightarrow> 'rt Server \<Rightarrow> bool" where
  "setup_token_shown rq s = (rq_setup_token rq \<noteq> [] \<and> rq_setup_token rq = app_setupToken (sv_App s))"

lemma app_store_same: "(a :: ('a, 'b) App_scheme)\<lparr>app_store := app_store a\<rparr> = a"
  by (cases a) simp

lemma untouched_refl [simp]: "untouched s s"
proof -
  have "sv_App s = (sv_App s)\<lparr>app_store := (fst (app_store (sv_App s)), db_of s)\<rparr>"
    using app_store_same [of "sv_App s"] by (simp add: db_of_def)
  then show ?thesis unfolding untouched_def by blast
qed

lemma untouched_trans: "untouched s s1 \<Longrightarrow> untouched s1 s2 \<Longrightarrow> untouched s s2"
  by (auto simp: untouched_def db_of_def)

lemma untouched_limiter [simp]: "untouched s (s\<lparr>sv_loginLimiter := x\<rparr>)" "untouched s (s\<lparr>sv_StatusWS := y\<rparr>)"
  using untouched_refl [of s] unfolding untouched_def db_of_def by simp_all

lemma untouched_db: "untouched s s' \<Longrightarrow> db_of s' = db_of s \<and> app_setupToken (sv_App s') = app_setupToken (sv_App s)"
  by (auto simp: untouched_def db_of_def)

text \<open>A handler that leaves every server with this database and setup token untouched.\<close>

definition quiet :: "string \<Rightarrow> db \<Rightarrow> 'rt handler \<Rightarrow> bool" where
  "quiet tok db h = (\<forall>s. db_of s = db \<and> app_setupToken (sv_App s) = tok \<longrightarrow> untouched s (snd (h s)))"

lemma quietD: "quiet tok db h \<Longrightarrow> db_of s = db \<Longrightarrow> app_setupToken (sv_App s) = tok \<Longrightarrow> untouched s (snd (h s))"
  by (simp add: quiet_def)

lemma quiet_reply [simp]: "quiet tok db (reply_body n b)" "quiet tok db (reply n j)" "quiet tok db (reply_err n e)"
  "quiet tok db (reply_msg n m)" "quiet tok db (reply_ok n)"
  by (simp_all add: quiet_def reply_body_def reply_def reply_err_def reply_msg_def reply_ok_def)

lemma store_only_reads:
  assumes "hoare (Store_Inv.at db) m (\<lambda>x db'. Store_Inv.at db db' \<and> A x) (Store_Inv.at db)" "uniq_ok db" "snd (app_store a) = db"
    and "store m a = (r, a')"
  shows "(\<exists>n. a' = a\<lparr>app_store := (n, db)\<rparr>) \<and> (\<forall>x. r = Inr x \<longrightarrow> A x)"
proof -
  obtain n where st: "app_store a = (n, db)" using assms(3) by (cases "app_store a") simp
  obtain q n' db' where m: "m (n, db) = (q, (n', db'))" by (metis prod.exhaust)
  then have r: "r = q" "a' = a\<lparr>app_store := (n', db')\<rparr>" using assms(4) st by (simp_all add: store_def)
  have "db' = db \<and> (\<forall>x. q = Inr x \<longrightarrow> A x)"
    using hoare_outcome [OF assms(1,2) m] by (cases q) simp_all
  then show ?thesis using r by blast
qed

lemma quiet_read:
  assumes "hoare (Store_Inv.at db) m (\<lambda>x db'. Store_Inv.at db db' \<and> A x) (Store_Inv.at db)" "uniq_ok db"
    and "\<And>e. quiet tok db (k (Inl e))" and "\<And>x. A x \<Longrightarrow> quiet tok db (k (Inr x))"
  shows "quiet tok db (call (store m) k)"
  unfolding quiet_def
proof (intro allI impI)
  fix s :: "'b Server" assume s: "db_of s = db \<and> app_setupToken (sv_App s) = tok"
  obtain r a where m: "store m (sv_App s) = (r, a)" by fastforce
  let ?s = "s\<lparr>sv_App := a\<rparr>"
  from store_only_reads [OF assms(1,2) _ m] s obtain n where a: "a = (sv_App s)\<lparr>app_store := (n, db)\<rparr>"
    and x: "\<And>x. r = Inr x \<Longrightarrow> A x" by (auto simp: db_of_def)
  have u: "untouched s ?s" using a s by (auto simp: untouched_def)
  have "quiet tok db (k r)" using assms(3,4) x by (cases r) auto
  then have "untouched ?s (snd (k r ?s))" using untouched_db [OF u] s by (intro quietD) simp_all
  then show "untouched s (snd (call (store m) k s))" using untouched_trans [OF u] m by (simp add: call_def)
qed

section \<open>Open routes\<close>

lemma AuthenticateAdmin_at:
  "sql_ok exec \<Longrightarrow> hoare (Store_Inv.at db0) (AuthenticateAdmin exec verify user password)
    (\<lambda>v db. Store_Inv.at db0 db \<and> (\<exists>adm \<in> set (t_admins db0). ad_Username adm = user \<and> verify (ad_PasswordHash adm) password \<and>
       v = adminSessionFromRepo adm)) (Store_Inv.at db0)"
  unfolding AuthenticateAdmin_def GetAdminByUsername_def
  by (rule hoare_read [OF first_typed_at(1)]) (auto intro!: hoare_ret hoare_fail)

text \<open>The claims of the token a login hands out.\<close>

definition login_claims :: "int \<Rightarrow> Admin \<Rightarrow> Claims" where
  "login_claims now adm = \<lparr>cl_AdminID = ad_ID adm, cl_Username = ad_Username adm, cl_TokenVersion = ad_TokenVersion adm,
     cl_ExpiresAt = now + token_lifetime, cl_IssuedAt = now\<rparr>"

lemma auth_Login_at:
  "sql_ok exec \<Longrightarrow> hoare (Store_Inv.at db0) (auth_Login j secret exec verify now user password)
    (\<lambda>tok db. Store_Inv.at db0 db \<and> (\<exists>adm \<in> set (t_admins db0). ad_Username adm = user \<and> verify (ad_PasswordHash adm) password \<and>
       jw_sign j secret (login_claims now adm) = Inr tok)) (Store_Inv.at db0)"
  unfolding auth_Login_def
  by (rule hoare_read [OF or_err_at [OF AuthenticateAdmin_at]])
    (auto simp: hoare_def lift_res_def issueToken_def login_claims_def adminSessionFromRepo_def)

lemma ParseToken_at:
  assumes "sql_ok exec"
  shows "hoare (Store_Inv.at db0) (ParseToken j secret exec now tok) (\<lambda>c db. Store_Inv.at db0 db \<and> (jw_parse j secret now tok = Inr (c, True) \<and>
    (\<exists>adm \<in> set (t_admins db0). ad_ID adm = cl_AdminID c \<and> ad_TokenVersion adm = cl_TokenVersion c))) (Store_Inv.at db0)"
  unfolding ParseToken_def
proof (rule hoare_lift_read, clarify)
  fix c valid assume p: "jw_parse j secret now tok = Inr (c, valid)"
  show "hoare (Store_Inv.at db0) (if \<not> valid then fail (Errorf ''invalid token'') else andthen (attempt (ValidateAdminSession exec (cl_AdminID c) (cl_TokenVersion c)))
     (\<lambda>r. case r of Inl e \<Rightarrow> fail (if e = ErrAdminSessionRevoked then Errorf ''token revoked'' else Errorf ''admin not found'') | Inr _ \<Rightarrow> ret c))
    (\<lambda>c db. Store_Inv.at db0 db \<and> (jw_parse j secret now tok = Inr (c, True) \<and>
      (\<exists>adm \<in> set (t_admins db0). ad_ID adm = cl_AdminID c \<and> ad_TokenVersion adm = cl_TokenVersion c))) (Store_Inv.at db0)"
  proof (rule hoare_if)
    assume "\<not> \<not> valid"
    then show "hoare (Store_Inv.at db0) (andthen (attempt (ValidateAdminSession exec (cl_AdminID c) (cl_TokenVersion c)))
     (\<lambda>r. case r of Inl e \<Rightarrow> fail (if e = ErrAdminSessionRevoked then Errorf ''token revoked'' else Errorf ''admin not found'') | Inr _ \<Rightarrow> ret c))
    (\<lambda>c db. Store_Inv.at db0 db \<and> (jw_parse j secret now tok = Inr (c, True) \<and>
      (\<exists>adm \<in> set (t_admins db0). ad_ID adm = cl_AdminID c \<and> ad_TokenVersion adm = cl_TokenVersion c))) (Store_Inv.at db0)"
      using p by (intro hoare_read [OF attempt_at [OF ValidateAdminSession_at [OF assms]]])
        (auto split: sum.splits intro!: hoare_ret hoare_fail)
  qed (auto intro: hoare_fail)
qed auto

lemma Middleware_at:
  assumes "sql_ok exec"
  shows "hoare (Store_Inv.at db0) (Middleware j secret exec now header) (\<lambda>c db. Store_Inv.at db0 db \<and> (\<exists>tok. bearer header = Inr tok \<and>
    jw_parse j secret now tok = Inr (c, True) \<and>
    (\<exists>adm \<in> set (t_admins db0). ad_ID adm = cl_AdminID c \<and> ad_TokenVersion adm = cl_TokenVersion c))) (Store_Inv.at db0)"
  unfolding Middleware_def
proof (rule hoare_lift_read)
  fix tok assume b: "bearer header = Inr tok"
  show "hoare (Store_Inv.at db0) (or_err (Errorf ''invalid token'') (ParseToken j secret exec now tok)) (\<lambda>c db. Store_Inv.at db0 db \<and> (\<exists>tok. bearer header = Inr tok \<and>
    jw_parse j secret now tok = Inr (c, True) \<and>
    (\<exists>adm \<in> set (t_admins db0). ad_ID adm = cl_AdminID c \<and> ad_TokenVersion adm = cl_TokenVersion c))) (Store_Inv.at db0)"
    by (rule hoare_weaken [OF or_err_at [OF ParseToken_at [OF assms]]]) (use b in auto)
qed auto

lemma reads_at:
  assumes "sql_ok exec"
  shows "hoare (Store_Inv.at db0) (SetupStatus exec) (\<lambda>_ db. Store_Inv.at db0 db \<and> True) (Store_Inv.at db0)"
    and "hoare (Store_Inv.at db0) (buildMessage exec now) (\<lambda>_ db. Store_Inv.at db0 db \<and> True) (Store_Inv.at db0)"
proof -
  show "hoare (Store_Inv.at db0) (SetupStatus exec) (\<lambda>_ db. Store_Inv.at db0 db \<and> True) (Store_Inv.at db0)"
    unfolding SetupStatus_def by (rule hoare_read [OF IsConfigured_at [OF assms]]) (auto intro: hoare_ret)
  have settings: "hoare (Store_Inv.at db0) (GetSettings exec) (\<lambda>s db. Store_Inv.at db0 db \<and> True) (Store_Inv.at db0)"
    unfolding GetSettings_def first_settings_def
    by (rule hoare_read [OF first_row_at [OF assms]]) (auto split: row.splits intro!: hoare_ret hoare_fail)
  have names: "hoare (Store_Inv.at db0) (getGroupNameMap exec) (\<lambda>_ db. Store_Inv.at db0 db \<and> True) (Store_Inv.at db0)"
    unfolding getGroupNameMap_def
    by (rule hoare_read [OF or_empty_at [OF find_typed_at(2) [OF assms]]]) (auto intro: hoare_ret)
  show "hoare (Store_Inv.at db0) (buildMessage exec now) (\<lambda>_ db. Store_Inv.at db0 db \<and> True) (Store_Inv.at db0)"
    unfolding buildMessage_def
    by (rule hoare_read [OF find_typed_at(1) [OF assms]], rule hoare_read [OF settings], rule hoare_read [OF names])
      (auto intro: hoare_ret)
qed

lemma BuildJSON_at:
  "sql_ok (en_exec en) \<Longrightarrow> hoare (Store_Inv.at db0) (BuildJSON en) (\<lambda>_ db. Store_Inv.at db0 db \<and> True) (Store_Inv.at db0)"
  unfolding BuildJSON_def by (rule hoare_read [OF reads_at(2)]) (auto intro: hoare_lift)

lemma quiet_requireSetupToken:
  assumes "sql_ok (en_exec en)" "uniq_ok db"
    and "hub_configured db \<Longrightarrow> quiet tok db k" and "\<not> hub_configured db \<Longrightarrow> quiet tok db k"
  shows "quiet tok db (requireSetupToken en rq k)"
  unfolding requireSetupToken_def
proof (rule quiet_read [OF IsConfigured_at [OF assms(1)] assms(2)])
  fix b assume b: "b = (t_admins db \<noteq> [] \<and> t_settings db \<noteq> [])"
  have "quiet tok db k" using assms(3,4) by blast
  then show "quiet tok db (\<lambda>s. case Inr b of Inl e \<Rightarrow> reply_err 500 e s | Inr configured \<Rightarrow>
      if configured then k s else if rq_setup_token rq \<noteq> GetSetupToken s then reply_msg 403 token_message s else k s)"
    using quiet_reply(4) [of tok db 403 token_message] unfolding quiet_def by auto
qed (simp add: quiet_def reply_err_def reply_def reply_body_def)

text \<open>A transition that needs the setup token, refused.\<close>

lemma quiet_refused:
  assumes "\<And>a r a'. snd (app_store a) = db \<Longrightarrow> app_setupToken a = tok \<Longrightarrow> m a = (r, a') \<Longrightarrow> (\<exists>e. r = Inl e) \<and> (\<exists>n. a' = a\<lparr>app_store := (n, db)\<rparr>)"
    and "\<And>e. quiet tok db (k (Inl e))"
  shows "quiet tok db (call m k)"
  unfolding quiet_def
proof (intro allI impI)
  fix s :: "'a Server" assume s: "db_of s = db \<and> app_setupToken (sv_App s) = tok"
  obtain r a where m: "m (sv_App s) = (r, a)" by fastforce
  from assms(1) [OF _ _ m] s obtain e n where r: "r = Inl e" and a: "a = (sv_App s)\<lparr>app_store := (n, db)\<rparr>" by (auto simp: db_of_def)
  have u: "untouched s (s\<lparr>sv_App := a\<rparr>)" using a s by (auto simp: untouched_def)
  then show "untouched s (snd (call m k s))"
    using untouched_trans [OF u] quietD [OF assms(2)] untouched_db [OF u] s m r by (simp add: call_def)
qed

lemma setup_refused:
  assumes "sql_ok exec" "uniq_ok db" and no: "hub_configured db \<or> \<not> (token \<noteq> [] \<and> token = tok)"
    and "snd (app_store a) = db" "app_setupToken a = tok"
  shows "svc_setup ops exec bcrypt keys inp token True a = (r, a') \<Longrightarrow> (\<exists>e. r = Inl e) \<and> (\<exists>n. a' = a\<lparr>app_store := (n, db)\<rparr>)"
    and "importDatabase ops exec imp token True a = (r, a') \<Longrightarrow> (\<exists>e. r = Inl e) \<and> (\<exists>n. a' = a\<lparr>app_store := (n, db)\<rparr>)"
proof -
  obtain q a1 where st: "store (IsConfigured exec) a = (q, a1)" by fastforce
  from store_only_reads [OF IsConfigured_at [OF assms(1)] assms(2,4) st]
  obtain n where a1: "a1 = a\<lparr>app_store := (n, db)\<rparr>" and q: "\<And>b. q = Inr b \<Longrightarrow> b = hub_configured db"
    by (auto simp: hub_configured_def)
  have t: "setupTokenValid a1 token = (token \<noteq> [] \<and> token = tok)" using a1 assms(5) by (simp add: setupTokenValid_def)
  show "svc_setup ops exec bcrypt keys inp token True a = (r, a') \<Longrightarrow> (\<exists>e. r = Inl e) \<and> (\<exists>n. a' = a\<lparr>app_store := (n, db)\<rparr>)"
    using no q a1 t by (cases q) (auto simp: svc_setup_def andthen_def st split: if_splits)
  show "importDatabase ops exec imp token True a = (r, a') \<Longrightarrow> (\<exists>e. r = Inl e) \<and> (\<exists>n. a' = a\<lparr>app_store := (n, db)\<rparr>)"
    using no q a1 t by (cases q) (auto simp: importDatabase_def andthen_def st split: if_splits)
qed

text \<open>Logging in touches the limiter only, and an open route the setup transitions at most.\<close>

lemma quiet_rejectLogin:
  assumes "quiet tok db k"
  shows "quiet tok db (rejectLogin en ip k)"
  unfolding quiet_def
proof (intro allI impI)
  fix s :: "'a Server" assume s: "db_of s = db \<and> app_setupToken (sv_App s) = tok"
  have k: "untouched s (snd (k (s\<lparr>sv_loginLimiter := x\<rparr>)))" for x
  proof -
    have "untouched s (s\<lparr>sv_loginLimiter := x\<rparr>)" by simp
    moreover have "untouched (s\<lparr>sv_loginLimiter := x\<rparr>) (snd (k (s\<lparr>sv_loginLimiter := x\<rparr>)))"
      using s by (intro quietD [OF assms]) (simp_all add: db_of_def)
    ultimately show ?thesis by (rule untouched_trans)
  qed
  have "untouched s (snd (k s))" using quietD [OF assms] s by blast
  with k show "untouched s (snd (rejectLogin en ip k s))"
    by (auto simp: rejectLogin_def split: option.splits prod.splits)
qed

lemma quiet_limiter:
  "quiet tok db (\<lambda>s. reply n j (s\<lparr>sv_loginLimiter := f s\<rparr>))"
  by (simp add: quiet_def reply_def reply_body_def)

lemma h_Login_quiet:
  assumes ok: "sql_ok (en_exec en)" "uniq_ok db"
  shows "quiet tok db (h_Login en rq)"
proof -
  have "quiet tok db (call (login en u p) (\<lambda>r. case r of Inl e \<Rightarrow> reply_err 401 e
      | Inr token \<Rightarrow> (\<lambda>s. reply 200 (JObj [(''token'', JStr token)]) (s\<lparr>sv_loginLimiter := map_option (RecordLoginSuccess (rq_ip rq)) (sv_loginLimiter s)\<rparr>))))" for u p
    unfolding login_def by (rule quiet_read [OF auth_Login_at [OF ok(1)] ok(2)]) (simp_all add: quiet_limiter)
  then show ?thesis
    unfolding h_Login_def
    by (intro quiet_read [OF IsConfigured_at [OF ok(1)] ok(2)]) (auto split: sum.splits intro: quiet_rejectLogin)
qed

lemma h_SetupStatus_quiet:
  assumes ok: "sql_ok (en_exec en)" "uniq_ok db"
  shows "quiet tok db (h_SetupStatus en rq)"
proof -
  have "quiet tok db (call (store (SetupStatus (en_exec en))) (\<lambda>r. case r of Inl e \<Rightarrow> reply_err 500 e
     | Inr (configured, defaults) \<Rightarrow> reply 200 (ToSetupStatusResponse configured defaults)))"
    by (rule quiet_read [OF reads_at(1) [OF ok(1)] ok(2)]) (auto split: prod.splits)
  then show ?thesis unfolding h_SetupStatus_def by (intro quiet_requireSetupToken [OF ok])
qed

lemma h_StatusWS_quiet:
  assumes ok: "sql_ok (en_exec en)" "uniq_ok db"
  shows "quiet tok db (h_StatusWS en rq)"
proof -
  have "untouched s (snd (ws_Serve en h s))" if s: "db_of s = db" for h s
  proof -
    obtain snap a where m: "store (BuildJSON en) (sv_App s) = (snap, a)" by fastforce
    from store_only_reads [OF BuildJSON_at [OF ok(1)] ok(2) _ m] s obtain n where "a = (sv_App s)\<lparr>app_store := (n, db)\<rparr>" by (auto simp: db_of_def)
    then have "untouched s (s\<lparr>sv_App := a, sv_StatusWS := y\<rparr>)" for y using s by (auto simp: untouched_def db_of_def)
    then show ?thesis by (simp add: ws_Serve_def m reply_body_def split: sum.split)
  qed
  then have ws: "quiet tok db (\<lambda>s. case sv_StatusWS s of None \<Rightarrow> reply_body 503 BNone s | Some h \<Rightarrow> ws_Serve en h s)"
    by (auto simp: quiet_def reply_body_def split: option.split)
  have no: "quiet tok db (\<lambda>s. reply_msg 401 m s)" for m by (rule quiet_reply)
  show ?thesis unfolding h_StatusWS_def Let_def
    using ws by (auto intro!: quiet_read [OF ParseToken_at [OF ok(1)] ok(2)] no)
qed

lemma h_Setup_quiet:
  assumes ok: "sql_ok (en_exec en)" "uniq_ok db" and no: "hub_configured db \<or> \<not> (rq_setup_token rq \<noteq> [] \<and> rq_setup_token rq = tok)"
  shows "quiet tok db (h_Setup en rq)" "quiet tok db (h_ImportDatabase en rq)"
proof -
  have e: "quiet tok db (setup_error e)" for e by (simp add: setup_error_def)
  have "quiet tok db (call (svc_setup (en_ops en) (en_exec en) (en_bcrypt en) (en_keys en) inp (rq_setup_token rq) True) k)"
    if "\<And>e. quiet tok db (k (Inl e))" for inp k
    by (rule quiet_refused, erule (2) setup_refused(1) [OF ok no], rule that)
  then show "quiet tok db (h_Setup en rq)"
    unfolding h_Setup_def
    by (intro quiet_requireSetupToken [OF ok])
      (auto split: sum.split intro!: quiet_read [OF IsConfigured_at [OF ok(1)] ok(2)] simp: e)
  have "quiet tok db (call (importDatabase (en_ops en) (en_exec en) imp (rq_setup_token rq) True) k)"
    if "\<And>e. quiet tok db (k (Inl e))" for imp k
    by (rule quiet_refused, erule (2) setup_refused(2) [OF ok no], rule that)
  then show "quiet tok db (h_ImportDatabase en rq)"
    unfolding h_ImportDatabase_def with_body_def
    by (intro quiet_requireSetupToken [OF ok])
      (auto split: sum.split prod.split intro!: quiet_read [OF IsConfigured_at [OF ok(1)] ok(2)])
qed

lemma through_protected:
  assumes ok: "sql_ok (en_exec en)" "uniq_ok (db_of s)" and no: "\<nexists>c. session_claims en rq (db_of s) c"
  shows "untouched s (snd (through en rq (Protected h) s))"
proof -
  have "quiet (app_setupToken (sv_App s)) (db_of s) (through en rq (Protected h))"
    unfolding through_def access.case middleware_def
    by (rule quiet_read [OF Middleware_at [OF ok(1)] ok(2)]) (use no in \<open>auto simp: session_claims_def\<close>)
  then show ?thesis by (rule quietD) simp_all
qed

lemma open_routes:
  "map_of RegisterRoutes mp = Some (Open h) \<Longrightarrow> h \<in> {h_SetupStatus, h_Setup, h_ImportDatabase, h_Login, h_StatusWS}"
  by (simp add: RegisterRoutes_def split: if_splits)

text \<open>
  C7: A request that carries neither a live admin session nor, on an unconfigured hub, the setup token
  has no effect: the database, the network runtime and the setup tokens are as before, whatever the
  route and the body.
\<close>
theorem http_guard:
  assumes "sql_ok (en_exec en)" "uniq_ok (db_of s)"
    and "serve en method pattern rq s = Some (response, s')"
    and "\<nexists>c. session_claims en rq (db_of s) c"
    and "hub_configured (db_of s) \<or> \<not> setup_token_shown rq s"
  shows "untouched s s'"
proof -
  from assms(3) obtain acc where acc: "map_of RegisterRoutes (method, pattern) = Some acc" and run: "through en rq acc s = (response, s')"
    by (auto simp: serve_def)
  let ?tok = "app_setupToken (sv_App s)"
  show ?thesis
  proof (cases acc)
    case (Protected h)
    then show ?thesis using through_protected [OF assms(1,2,4), of h] run by simp
  next
    case (Open h)
    have "hub_configured (db_of s) \<or> \<not> (rq_setup_token rq \<noteq> [] \<and> rq_setup_token rq = ?tok)"
      using assms(5) by (simp add: setup_token_shown_def)
    note quiet = h_SetupStatus_quiet [OF assms(1,2)] h_Login_quiet [OF assms(1,2)] h_StatusWS_quiet [OF assms(1,2)]
      h_Setup_quiet [OF assms(1,2) this]
    have "quiet ?tok (db_of s) (h en rq)" using open_routes acc Open quiet by blast
    from quietD [OF this, of s] show ?thesis using run Open by (simp add: through_def)
  qed
qed

section \<open>Sessions\<close>

lemma call_read:
  assumes "hoare (Store_Inv.at db) m (\<lambda>x db'. Store_Inv.at db db' \<and> A x) (Store_Inv.at db)" "uniq_ok db" "db_of s = db"
    and "call (store m) k s = out"
  obtains r s1 where "k r s1 = out" and "untouched s s1" and "\<And>x. r = Inr x \<Longrightarrow> A x" and "sv_loginLimiter s1 = sv_loginLimiter s"
proof -
  obtain r a where m: "store m (sv_App s) = (r, a)" by fastforce
  from store_only_reads [OF assms(1,2) _ m] assms(3) have "\<exists>n. a = (sv_App s)\<lparr>app_store := (n, db)\<rparr>" and x: "\<And>x. r = Inr x \<Longrightarrow> A x"
    by (auto simp: db_of_def)
  then have "untouched s (s\<lparr>sv_App := a\<rparr>)" using assms(3) by (auto simp: untouched_def)
  with that [of r "s\<lparr>sv_App := a\<rparr>"] x assms(4) m show thesis by (simp add: call_def)
qed

lemma bearer_token: "bearer (''Bearer '' @ tok) = Inr tok"
  by (simp add: bearer_def to_lower_def ev chr_eval)

lemma reply_status [simp]: "rs_status (fst (reply n j s)) = n" "rs_status (fst (reply_err n e s)) = n" "rs_status (fst (reply_msg n m s)) = n"
  by (simp_all add: reply_def reply_err_def reply_msg_def reply_body_def)

text \<open>What is left of a login once the hub is configured, the request decoded and the address let through.\<close>

abbreviation login_call where
  "login_call en rq req \<equiv> call (login en (lr_Username req) (lr_Password req)) (\<lambda>r. case r of
     Inl e \<Rightarrow> reply_err 401 e
   | Inr token \<Rightarrow> (\<lambda>s. reply 200 (JObj [(''token'', JStr token)])
       (s\<lparr>sv_loginLimiter := map_option (RecordLoginSuccess (rq_ip rq)) (sv_loginLimiter s)\<rparr>)))"

lemma h_Login_proceeds:
  assumes ok: "sql_ok (en_exec en)" "uniq_ok (db_of s)" and run: "h_Login en rq s = (response, s')" "rs_status response = 200"
  obtains req s2 where "bd_login (en_bind en) (rq_body rq) = Inr req" "login_call en rq req s2 = (response, s')" "db_of s2 = db_of s"
proof -
  obtain r s1 where 1: "(case r of Inl e \<Rightarrow> reply_err 500 e | Inr configured \<Rightarrow>
         if \<not> configured then reply_msg 503 ''setup required''
         else (case bd_login (en_bind en) (rq_body rq) of
           Inl _ \<Rightarrow> reply_msg 400 ''username and password are required''
         | Inr req \<Rightarrow> rejectLogin en (rq_ip rq) (login_call en rq req))) s1 = (response, s')"
    and u1: "untouched s s1"
    using run(1) unfolding h_Login_def by (rule call_read [OF IsConfigured_at [OF ok(1)] ok(2) refl])
  have "r = Inr True" using 1 run(2)
    by (cases r) (auto simp: reply_err_def reply_msg_def reply_def reply_body_def split: if_splits)
  with 1 run(2) obtain req where req: "bd_login (en_bind en) (rq_body rq) = Inr req"
    "rejectLogin en (rq_ip rq) (login_call en rq req) s1 = (response, s')"
    by (cases "bd_login (en_bind en) (rq_body rq)") (auto simp: reply_msg_def reply_def reply_body_def)
  then obtain s2 where "login_call en rq req s2 = (response, s')" and u2: "untouched s1 s2"
    using run(2) by (auto simp: rejectLogin_def split: option.splits prod.splits)
  with req(1) show thesis using untouched_db [OF u1] untouched_db [OF u2] by (intro that [of req s2]) simp_all
qed


section \<open>Examples\<close>

definition ex_jwt :: jwt where
  "ex_jwt = \<lparr>jw_sign = (\<lambda>secret c. if c = login_claims 100 ex_admin then Inr ''t0k'' else Inl (External 1)),
     jw_parse = (\<lambda>secret now tok. if tok = ''t0k'' \<and> now < 100 + token_lifetime then Inr (login_claims 100 ex_admin, True)
       else Inl (External 2))\<rparr>"

lemma ex_jwt_ok: "jwt_ok ex_jwt"
  by (simp add: jwt_ok_def ex_jwt_def login_claims_def)

definition ex_binders :: binders where
  "ex_binders = \<lparr>bd_setup = (\<lambda>_. Inl (External 3)), bd_reset = (\<lambda>_. Inl (External 3)),
     bd_login = (\<lambda>_. Inr \<lparr>lr_Username = ''admin'', lr_Password = ''hunter22''\<rparr>),
     bd_password = (\<lambda>_. Inl (External 3)), bd_settings = (\<lambda>_. Inl (External 3)),
     bd_createGroup = (\<lambda>_. Inr \<lparr>cgr_Name = ''ops'', cgr_PosX = 0, cgr_PosY = 0\<rparr>), bd_updateGroup = (\<lambda>_. Inl (External 3)),
     bd_link = (\<lambda>_. Inl (External 3)), bd_layout = (\<lambda>_. Inl (External 3)), bd_createPeer = (\<lambda>_. Inl (External 3)),
     bd_updatePeer = (\<lambda>_. Inl (External 3)), bd_forward = (\<lambda>_. Inl (External 3)), bd_map = (\<lambda>_. Inl (External 3))\<rparr>"

definition ex_http :: "rt Env" where
  "ex_http = \<lparr>en_ops = stack_ops fair_net (\<lambda>_. Inr []), en_exec = list_sql, en_bcrypt = Inr, en_verify = (=),
     en_keys = Inl (External 4), en_jwt = ex_jwt, en_secret = ''s'', en_bind = ex_binders, en_now = 100, en_nanos = 100 * Second,
     en_random = [], en_marshal = (\<lambda>_. Inr ''{}''), en_upload = Inr (), en_save = Inr (), en_import = ret (), en_export = Inr [],
     en_upgrade = Inr ()\<rparr>"

definition ex_request :: Request where
  "ex_request = \<lparr>rq_Authorization = [], rq_setup_token = [], rq_token = [], rq_id = [], rq_body = [], rq_ip = ''192.0.2.7'',
     rq_file = Inl (External 5)\<rparr>"

definition ex_server :: "rt Server" where
  "ex_server = NewServer ((ex_app None False)\<lparr>app_store := (0, [RAdmin ex_admin, RSettings ex_settings])\<rparr>) []"

lemma ex_server_ok: "sql_ok (en_exec ex_http)" "uniq_ok (db_of ex_server)"
  "db_of ex_server = [RAdmin ex_admin, RSettings ex_settings]"
  by (simp_all add: ex_http_def list_sql_ok db_of_def ex_server_def NewServer_def setSetupToken_def SetSetupToken_def uniq_ok_def
      tables_Cons)

theorem http_guard_witness:
  "\<exists>response s'. serve ex_http ''POST'' ''/api/groups'' ex_request ex_server = Some (response, s') \<and> rs_status response = 401 \<and>
     untouched ex_server s'"
proof -
  have "\<exists>response s'. serve ex_http ''POST'' ''/api/groups'' ex_request ex_server = Some (response, s') \<and> rs_status response = 401"
    by (simp add: serve_def RegisterRoutes_def through_def middleware_def Middleware_def ex_http_def ex_request_def bearer_def
        store_def andthen_def lift_res_def call_def reply_err_def reply_def reply_body_def split: prod.split)
  then obtain response s' where run: "serve ex_http ''POST'' ''/api/groups'' ex_request ex_server = Some (response, s')" "rs_status response = 401"
    by blast
  have "\<nexists>c. session_claims ex_http ex_request (db_of ex_server) c"
    by (simp add: session_claims_def ex_request_def bearer_def)
  moreover have "hub_configured (db_of ex_server)" by (simp add: ex_server_ok(3) hub_configured_def tables_Cons)
  ultimately have "untouched ex_server s'" by (intro http_guard [OF ex_server_ok(1,2) run(1)]) simp_all
  with run show ?thesis by blast
qed

lemma ex_login_answer:
  "\<exists>response s'. serve ex_http ''POST'' ''/api/auth/login'' ex_request ex_server = Some (response, s') \<and> rs_status response = 200 \<and>
     rs_body response = BJson (JObj [(''token'', JStr ''t0k'')])"
  by (simp add: serve_def RegisterRoutes_def through_def h_Login_def call_def store_def IsConfigured_def ex_server_def NewServer_def
      setSetupToken_def SetSetupToken_def ex_app_def ex_http_def ex_binders_def ex_request_def db_eval rejectLogin_def
      RejectLoginRateLimit_def DefaultLoginRateLimiter_def NewLoginRateLimiter_def normalized_def Take_def entryLocked_def
      loginRateMaxEntries_def loginRateCapacity_def loginRateRefillPeriod_def Minute_def Second_def refillLocked_def zeroTime_def
      time_sub_def maxDuration_def login_def auth_Login_def or_err_def AuthenticateAdmin_def GetAdminByUsername_def first_admin_def
      adminSessionFromRepo_def issueToken_def ex_jwt_def login_claims_def ex_admin_def reply_def reply_body_def)


end
