(* ===== verification/Api_Types.thy ===== *)
theory Api_Types
  imports Router_Props
begin

text \<open>
  The types of the API's answers.  The web client states them in TypeScript (\<^verbatim>\<open>web/src/api/types.ts\<close> and
  \<^verbatim>\<open>web/src/api/index.ts\<close>); here they are checked against what the handlers send.
\<close>

section \<open>TypeScript types\<close>

text \<open>
  An object type lists its members with a mark for the optional ones.  Typing is structural: an
  object may have further members.  Literal unions such as \<^verbatim>\<open>'tcp' | 'udp'\<close> are taken as their base
  type.
\<close>

datatype ts =
    TNumber
  | TString
  | TBoolean
  | TArray ts
  | TNullable ts
  | TObject "(string \<times> bool \<times> ts) list"

lemma ts_member_size [termination_simp]:
  "(k, opt, t) \<in> set fs \<Longrightarrow> size t < Suc (size_list (size_prod (\<lambda>x. 0) (size_prod (\<lambda>x. 0) size)) fs)"
  by (induction fs) auto

fun has_type :: "ts \<Rightarrow> json \<Rightarrow> bool" where
  "has_type TNumber j = (case j of JInt _ \<Rightarrow> True | _ \<Rightarrow> False)"
| "has_type TString j = (case j of JStr _ \<Rightarrow> True | JTime _ \<Rightarrow> True | JErr _ \<Rightarrow> True | _ \<Rightarrow> False)"
| "has_type TBoolean j = (case j of JBool _ \<Rightarrow> True | _ \<Rightarrow> False)"
| "has_type (TArray t) j = (case j of JArr js \<Rightarrow> list_all (has_type t) js | _ \<Rightarrow> False)"
| "has_type (TNullable t) j = (j = JNull \<or> has_type t j)"
| "has_type (TObject fs) j = (case j of
     JObj kvs \<Rightarrow> distinct (map fst kvs) \<and>
       list_all (\<lambda>(k, opt, t). case map_of kvs k of None \<Rightarrow> opt | Some v \<Rightarrow> has_type t v) fs
   | _ \<Rightarrow> False)"

text \<open>The interfaces of \<^verbatim>\<open>types.ts\<close>.\<close>

definition req :: "string \<Rightarrow> ts \<Rightarrow> string \<times> bool \<times> ts" where "req k t = (k, False, t)"
definition opt :: "string \<Rightarrow> ts \<Rightarrow> string \<times> bool \<times> ts" where "opt k t = (k, True, t)"

definition ts_SetupStatus :: ts where
  "ts_SetupStatus = TObject [req ''configured'' TBoolean, req ''defaults'' (TObject
     [req ''subnet'' TString, req ''admin_username'' TString, req ''listen_port'' TNumber, req ''mtu'' TNumber,
      req ''status_interval'' TNumber, req ''upstream_dns'' (TArray TString)])]"

definition ts_HubSettings :: ts where
  "ts_HubSettings = TObject
     [req ''endpoint'' TString, req ''subnet'' TString, req ''admin_username'' TString, req ''hub_ip'' TString,
      req ''dns_ip'' TString, req ''dns_suffix'' TString, req ''listen_port'' TNumber, req ''server_public_key'' TString,
      req ''mtu'' TNumber, req ''status_interval'' TNumber, req ''upstream_dns'' (TArray TString)]"

definition ts_PeerGroup :: ts where
  "ts_PeerGroup = TObject
     [req ''id'' TNumber, req ''name'' TString, req ''pos_x'' TNumber, req ''pos_y'' TNumber, req ''member_count'' TNumber,
      req ''allow_intra_group'' TBoolean]"

definition ts_GroupLink :: ts where
  "ts_GroupLink = TObject
     [req ''id'' TNumber, req ''from_group_id'' TNumber, req ''to_group_id'' TNumber, req ''bidirectional'' TBoolean]"

definition ts_GroupGraphPeer :: ts where
  "ts_GroupGraphPeer = TObject
     [req ''id'' TNumber, req ''name'' TString, req ''wg_ip'' TString, req ''group_id'' TNumber, req ''enabled'' TBoolean,
      req ''fqdn'' TString]"

definition ts_GroupGraphNode :: "ts \<Rightarrow> ts" where
  "ts_GroupGraphNode peers = TObject
     [req ''id'' TNumber, req ''name'' TString, req ''pos_x'' TNumber, req ''pos_y'' TNumber, req ''member_count'' TNumber,
      req ''allow_intra_group'' TBoolean, req ''peers'' peers]"

definition ts_Peer :: ts where
  "ts_Peer = TObject
     [req ''id'' TNumber, req ''name'' TString, req ''public_key'' TString, req ''wg_ip'' TString, req ''group_id'' TNumber,
      opt ''group_name'' TString, req ''enabled'' TBoolean, req ''fqdn'' TString, req ''last_handshake'' TNumber,
      req ''rx_bytes'' TNumber, req ''tx_bytes'' TNumber, req ''created_at'' TString]"

definition ts_PortForward :: ts where
  "ts_PortForward = TObject
     [req ''id'' TNumber, req ''name'' TString, req ''listen_port'' TNumber, req ''protocol'' TString,
      req ''target_host'' TString, req ''target_port'' TNumber, req ''target_display'' TString]"

definition ts_ServiceMap :: ts where
  "ts_ServiceMap = TObject
     [req ''id'' TNumber, req ''name'' TString, req ''slug'' TString, req ''target_host'' TString, req ''virtual_ip'' TString,
      req ''target_display'' TString, req ''allowed_group_ids'' (TArray TNumber), req ''fqdn'' TString]"

definition ts_ok :: ts where "ts_ok = TObject [req ''ok'' TBoolean]"
definition ts_token :: ts where "ts_token = TObject [req ''token'' TString]"

text \<open>
  Where the sources and the interfaces differ.  A group is sent with \<^verbatim>\<open>MemberCount\<close> in place of
  \<^verbatim>\<open>member_count\<close>; a group that was just written, but could not be listed, with its number and name
  only; and the peers of an empty group in the graph are \<^verbatim>\<open>null\<close>.
\<close>

definition sent_group :: ts where
  "sent_group = TObject
     [req ''id'' TNumber, req ''name'' TString, req ''pos_x'' TNumber, req ''pos_y'' TNumber, req ''MemberCount'' TNumber,
      req ''allow_intra_group'' TBoolean]"

definition sent_id_name :: ts where
  "sent_id_name = TObject [req ''id'' TNumber, req ''name'' TString]"

section \<open>The type of each answer\<close>

datatype expected = Json ts | File

definition api_types :: "((string \<times> string) \<times> expected) list" where
  "api_types =
    [((''GET'', ''/api/setup/status''), Json ts_SetupStatus),
     ((''POST'', ''/api/setup''), Json ts_token),
     ((''POST'', ''/api/setup/import''), Json ts_ok),
     ((''POST'', ''/api/auth/login''), Json ts_token),
     ((''POST'', ''/api/admin/reset''), Json (TObject [req ''ok'' TBoolean, opt ''setup_token'' TString])),
     ((''GET'', ''/api/settings''), Json ts_HubSettings),
     ((''PUT'', ''/api/settings''), Json (TObject [req ''ok'' TBoolean, opt ''restart_required'' TBoolean])),
     ((''PUT'', ''/api/settings/password''), Json ts_ok),
     ((''GET'', ''/api/settings/export''), File),
     ((''GET'', ''/api/groups''), Json (TArray sent_group)),
     ((''POST'', ''/api/groups''), Json sent_id_name),
     ((''PUT'', ''/api/groups/:id''), Json sent_id_name),
     ((''DELETE'', ''/api/groups/:id''), Json ts_ok),
     ((''GET'', ''/api/groups/graph''), Json (TObject
       [req ''groups'' (TArray (ts_GroupGraphNode (TNullable (TArray ts_GroupGraphPeer)))), req ''links'' (TArray ts_GroupLink)])),
     ((''POST'', ''/api/groups/links''), Json ts_ok),
     ((''DELETE'', ''/api/groups/links''), Json ts_ok),
     ((''PUT'', ''/api/groups/layout''), Json ts_ok),
     ((''GET'', ''/api/forwards''), Json (TObject
       [req ''rules'' (TArray ts_PortForward), req ''hub_ip'' TString, req ''hub_port'' TNumber])),
     ((''POST'', ''/api/forwards''), Json ts_PortForward),
     ((''PUT'', ''/api/forwards/:id''), Json ts_PortForward),
     ((''DELETE'', ''/api/forwards/:id''), Json ts_ok),
     ((''GET'', ''/api/maps''), Json (TObject [req ''maps'' (TArray ts_ServiceMap)])),
     ((''POST'', ''/api/maps''), Json ts_ServiceMap),
     ((''PUT'', ''/api/maps/:id''), Json ts_ServiceMap),
     ((''DELETE'', ''/api/maps/:id''), Json ts_ok),
     ((''GET'', ''/api/peers''), Json (TArray ts_Peer)),
     ((''POST'', ''/api/peers''), Json ts_Peer),
     ((''PUT'', ''/api/peers/:id''), Json ts_Peer),
     ((''DELETE'', ''/api/peers/:id''), Json ts_ok),
     ((''POST'', ''/api/peers/:id/toggle''), Json ts_Peer),
     ((''GET'', ''/api/peers/:id/config''), Json (TObject [req ''config'' TString, req ''filename'' TString]))]"

text \<open>An error is an object with the message alone; only a rate-limited login announces a delay.\<close>

definition error_answer :: "Response \<Rightarrow> bool" where
  "error_answer r = ((case rs_body r of BJson (JObj [(k, v)]) \<Rightarrow> k = ''error'' \<and> has_type TString v | _ \<Rightarrow> False) \<and>
     (rs_retry_after r = None \<or> rs_status r = 429))"

definition typed_answer :: "expected \<Rightarrow> Response \<Rightarrow> bool" where
  "typed_answer ex r =
     (if 400 \<le> rs_status r then rs_status r < 600 \<and> error_answer r
      else rs_status r \<in> {200, 201} \<and> rs_retry_after r = None \<and>
        (case ex of Json t \<Rightarrow> (case rs_body r of BJson j \<Rightarrow> has_type t j | _ \<Rightarrow> False)
         | File \<Rightarrow> (case rs_body r of BFile _ \<Rightarrow> True | _ \<Rightarrow> False)))"

section \<open>The handlers are typed\<close>

definition answers :: "expected \<Rightarrow> 'rt handler \<Rightarrow> bool" where
  "answers ex h = (\<forall>s. typed_answer ex (fst (h s)))"

named_theorems typing "handlers whose answers have the expected type"

lemma answers_reply [typing]:
  "200 \<le> n \<Longrightarrow> n \<le> 201 \<Longrightarrow> has_type t j \<Longrightarrow> answers (Json t) (reply n j)"
  by (auto simp: answers_def typed_answer_def reply_def reply_body_def)

lemma answers_ok [typing]: "200 \<le> n \<Longrightarrow> n \<le> 201 \<Longrightarrow> answers (Json ts_ok) (reply_ok n)"
  unfolding reply_ok_def by (intro answers_reply) (simp_all add: ts_ok_def req_def)

lemma answers_error [typing]:
  "400 \<le> n \<Longrightarrow> n < 600 \<Longrightarrow> answers ex (reply_err n e)" "400 \<le> n \<Longrightarrow> n < 600 \<Longrightarrow> answers ex (reply_msg n m)"
  by (simp_all add: answers_def typed_answer_def error_answer_def reply_err_def reply_msg_def reply_def reply_body_def)

lemma answers_call [typing]:
  fixes m :: "('rt, 'a) svc"
  assumes "\<And>e. answers ex (k (Inl e))" "\<And>x. answers ex (k (Inr x))"
  shows "answers ex (call m k)"
  unfolding answers_def call_def
proof (intro allI)
  fix s :: "'rt Server"
  obtain r a where m: "m (sv_App s) = (r, a)" by fastforce
  have "answers ex (k r)" using assms by (cases r) auto
  then show "typed_answer ex (fst (case m (sv_App s) of (r, a) \<Rightarrow> k r (s\<lparr>sv_App := a\<rparr>)))"
    by (simp add: m answers_def)
qed

lemma answers_body [typing]: "(\<And>x. answers ex (k x)) \<Longrightarrow> answers ex (with_body r k)"
  by (auto simp: with_body_def answers_error split: sum.split)

lemma answers_id [typing]: "(\<And>x. answers ex (k x)) \<Longrightarrow> answers ex (with_id rq k)"
  by (auto simp: with_id_def answers_error split: option.split)

lemma answers_notify [typing]: "answers ex k \<Longrightarrow> answers ex (notify_then en k)"
  by (simp add: answers_def notify_then_def)

lemma answers_after: "answers ex k \<Longrightarrow> answers ex (\<lambda>s. k (f s))"
  by (simp add: answers_def)

lemma answers_setup_token [typing]:
  assumes "answers ex k" shows "answers ex (requireSetupToken en rq k)"
proof -
  have "answers ex (reply_err 500 e)" "answers ex (reply_msg 403 m)" for e m by (simp_all add: answers_error)
  then show ?thesis using assms unfolding requireSetupToken_def
    by (intro answers_call) (auto simp: answers_def)
qed

section \<open>Views\<close>

lemmas ts_defs = req_def opt_def ts_SetupStatus_def ts_HubSettings_def ts_PeerGroup_def ts_GroupLink_def
  ts_GroupGraphPeer_def ts_GroupGraphNode_def ts_Peer_def ts_PortForward_def ts_ServiceMap_def ts_ok_def
  ts_token_def sent_group_def sent_id_name_def

lemma list_all_typed: "(\<And>x. has_type t (f x)) \<Longrightarrow> list_all (has_type t) (map f xs)"
  by (simp add: list_all_iff)

lemma views_typed [typing]:
  "has_type ts_PortForward (ToPortForwardResponse f)"
  "has_type sent_group (ToGroupResponse g)"
  "has_type sent_id_name (ToGroupResponse g)"
  "has_type sent_id_name (id_name m)"
  "has_type ts_GroupGraphPeer (group_peer_json p)"
  "has_type ts_GroupLink (group_link_json l)"
  "has_type ts_Peer (ToPeerResponse p)"
  "has_type ts_SetupStatus (ToSetupStatusResponse configured d)"
  by (simp_all add: ts_defs ToPortForwardResponse_def ToGroupResponse_def id_name_def group_peer_json_def group_link_json_def
      ToPeerResponse_def ToSetupStatusResponse_def list_all_typed)

lemma list_views_typed [typing]:
  "has_type ts_ServiceMap (ToMapResponse d)"
  "has_type ts_HubSettings (ToSettingsViewResponse v)"
  "has_type (TArray ts_Peer) (ToPeerResponses ps)"
  by (simp_all add: ts_ServiceMap_def ts_HubSettings_def req_def ToMapResponse_def ToSettingsViewResponse_def ToPeerResponses_def
      list_all_typed views_typed)

lemma graph_typed [typing]:
  "has_type (TObject [req ''groups'' (TArray (ts_GroupGraphNode (TNullable (TArray ts_GroupGraphPeer)))), req ''links'' (TArray ts_GroupLink)])
     (ToGroupGraphResponse v)"
proof -
  have "has_type (ts_GroupGraphNode (TNullable (TArray ts_GroupGraphPeer))) (graph_group_json g)" for g
    by (simp add: ts_GroupGraphNode_def req_def graph_group_json_def list_all_typed views_typed)
  then show ?thesis by (simp add: req_def ToGroupGraphResponse_def list_all_typed views_typed)
qed

lemma group_json_typed [typing]: "has_type sent_id_name (group_json g groups)"
  by (auto simp: group_json_def views_typed split: option.split)

section \<open>Each route\<close>

lemma runtime_status_range: "400 \<le> n \<Longrightarrow> n < 600 \<Longrightarrow> 400 \<le> runtime_status e n \<and> runtime_status e n < 600"
  by (simp add: runtime_status_def)

lemma error_writers [typing]: "answers ex (writePeerErr e)" "answers ex (writeMapErr e)" "answers ex (writeForwardErr e)"
  "answers ex (setup_error e)"
  by (auto simp: writePeerErr_def writeMapErr_def writeForwardErr_def setup_error_def intro: answers_error
      split: ForwardErrKind.split)

lemma setup_typed [typing]: "answers (Json ts_SetupStatus) (h_SetupStatus en rq)"
  unfolding h_SetupStatus_def by (intro typing) (auto intro!: typing split: prod.split)

lemma token_typed: "has_type ts_token (JObj [(''token'', JStr t)])"
  by (simp add: ts_token_def req_def)

lemma do_setup_typed [typing]: "answers (Json ts_token) (h_Setup en rq)"
  unfolding h_Setup_def by (intro typing) (auto intro!: typing token_typed split: sum.split)

lemma reset_typed [typing]: "answers (Json (TObject [req ''ok'' TBoolean, opt ''setup_token'' TString])) (h_Reset en rq cl)"
  unfolding h_Reset_def Let_def
  by (intro typing) (auto intro!: typing answers_after [where f = "setSetupToken t" for t] simp: req_def opt_def)

lemma too_many: "typed_answer ex \<lparr>rs_status = 429, rs_body = BJson (JObj [(''error'', JStr m)]), rs_retry_after = Some n\<rparr>"
  by (simp add: typed_answer_def error_answer_def)

lemma reject_typed [typing]:
  assumes "answers ex k" shows "answers ex (rejectLogin en ip k)"
  using assms by (auto simp: rejectLogin_def answers_def too_many split: option.split prod.split)

lemma login_typed [typing]: "answers (Json ts_token) (h_Login en rq)"
  unfolding h_Login_def
  by (intro typing) (auto intro!: typing token_typed answers_after [where f = "\<lambda>s. s\<lparr>sv_loginLimiter := g s\<rparr>" for g] split: sum.split)

lemma group_handlers_typed [typing]:
  "answers (Json (TArray sent_group)) (h_ListGroups en)"
  "answers (Json sent_id_name) (h_CreateGroup en rq)"
  "answers (Json sent_id_name) (h_UpdateGroup en rq)"
  "answers (Json ts_ok) (h_DeleteGroup en rq)"
  "answers (Json (TObject [req ''groups'' (TArray (ts_GroupGraphNode (TNullable (TArray ts_GroupGraphPeer)))),
     req ''links'' (TArray ts_GroupLink)])) (h_GroupGraph en)"
  "answers (Json ts_ok) (h_CreateGroupLink en rq)"
  "answers (Json ts_ok) (h_DeleteGroupLink en rq)"
  "answers (Json ts_ok) (h_UpdateGroupLayout en rq)"
  unfolding h_ListGroups_def h_CreateGroup_def h_UpdateGroup_def h_DeleteGroup_def h_GroupGraph_def h_CreateGroupLink_def
    h_DeleteGroupLink_def h_UpdateGroupLayout_def
  by (auto intro!: typing simp: runtime_status_range list_all_typed views_typed)

lemma peer_handlers_typed [typing]:
  "answers (Json (TArray ts_Peer)) (h_ListPeers en)"
  "answers (Json ts_Peer) (h_CreatePeer en rq)"
  "answers (Json ts_Peer) (h_UpdatePeer en rq)"
  "answers (Json ts_ok) (h_DeletePeer en rq)"
  "answers (Json ts_Peer) (h_TogglePeer en rq)"
  "answers (Json (TObject [req ''config'' TString, req ''filename'' TString])) (h_PeerConfig en rq)"
  unfolding h_ListPeers_def h_CreatePeer_def h_UpdatePeer_def h_DeletePeer_def h_TogglePeer_def h_PeerConfig_def
  by (auto intro!: typing simp: req_def)

lemma map_handlers_typed [typing]:
  "answers (Json (TObject [req ''maps'' (TArray ts_ServiceMap)])) (h_ListMaps en)"
  "answers (Json ts_ServiceMap) (h_CreateMap en rq)"
  "answers (Json ts_ServiceMap) (h_UpdateMap en rq)"
  "answers (Json ts_ok) (h_DeleteMap en rq)"
  unfolding h_ListMaps_def h_CreateMap_def h_UpdateMap_def h_DeleteMap_def
  by (auto intro!: typing simp: req_def runtime_status_range list_all_typed list_views_typed)

lemma forward_handlers_typed [typing]:
  "answers (Json (TObject [req ''rules'' (TArray ts_PortForward), req ''hub_ip'' TString, req ''hub_port'' TNumber])) (h_ListPortForwards en)"
  "answers (Json ts_PortForward) (h_CreatePortForward en rq)"
  "answers (Json ts_PortForward) (h_UpdatePortForward en rq)"
  "answers (Json ts_ok) (h_DeletePortForward en rq)"
  unfolding h_ListPortForwards_def h_CreatePortForward_def h_UpdatePortForward_def h_DeletePortForward_def
  by (auto intro!: typing simp: req_def list_all_typed views_typed)

lemma settings_handlers_typed [typing]:
  "answers (Json ts_HubSettings) (h_GetSettings en)"
  "answers (Json (TObject [req ''ok'' TBoolean, opt ''restart_required'' TBoolean])) (h_UpdateSettings en rq)"
  "answers (Json ts_ok) (h_ChangePassword en rq cl)"
  "answers File (h_ExportDatabase en)"
  unfolding h_GetSettings_def h_UpdateSettings_def h_ChangePassword_def h_ExportDatabase_def
  by (auto intro!: typing simp: req_def opt_def runtime_status_range split: sum.split)
    (simp add: answers_def typed_answer_def reply_body_def)

lemma import_typed [typing]: "answers (Json ts_ok) (h_ImportDatabase en rq)"
  unfolding h_ImportDatabase_def
  by (intro typing) (auto intro!: typing split: sum.split prod.split)

lemma open_typed: "answers ex (h en rq) \<Longrightarrow> answers ex (through en rq (Open h))"
  by (simp add: through_def)

lemma protected_typed:
  assumes "\<And>cl. answers ex (h en rq cl)" shows "answers ex (through en rq (Protected h))"
  unfolding through_def access.case by (rule answers_call) (simp_all add: assms answers_error)

lemma routes_typed:
  "list_all2 (\<lambda>(mp, ex) (mp', acc). mp = mp' \<and> answers ex (through en rq acc)) api_types
     (filter (\<lambda>(mp, acc). mp \<noteq> (''GET'', ''/api/ws/status'')) RegisterRoutes)"
  unfolding api_types_def RegisterRoutes_def
  by (simp add: open_typed protected_typed typing)

lemma map_of_list_all2:
  assumes "list_all2 (\<lambda>(k, x) (k', y). k = k' \<and> R x y) xs ys" "map_of ys k = Some y"
  shows "\<exists>x. map_of xs k = Some x \<and> R x y"
  using assms by (induction rule: list_all2_induct) (auto split: if_splits)

lemma map_of_filter_key: "P k \<Longrightarrow> map_of (filter (\<lambda>(k, v). P k) xs) k = map_of xs k"
  by (induction xs) auto


text \<open>
  The client reads \<^verbatim>\<open>member_count\<close> of the listed groups, for instance to preselect the largest one;
  no group in the list has it.
\<close>

lemma listed_groups_untyped:
  assumes "groups \<noteq> []" shows "\<not> has_type (TArray ts_PeerGroup) (JArr (map ToGroupResponse groups))"
proof -
  have "\<not> has_type ts_PeerGroup (ToGroupResponse g)" for g by (simp add: ts_PeerGroup_def req_def ToGroupResponse_def)
  with assms show ?thesis by (cases groups) simp_all
qed


end
