(* ===== verification/Limiter_Props.thy ===== *)
theory Limiter_Props
  imports Limiter
begin

text \<open>
  The login limiter's properties: the table stays within its bound and its buckets within their
  capacity; an address gets through at most as often as its bucket's capacity plus what is refilled in
  the meantime, clean-up or not; and a refused client that waits as told is let through.
\<close>

section \<open>Configuration\<close>

definition cfg_ok :: "LoginRateLimitConfig \<Rightarrow> bool" where
  "cfg_ok c = (0 < lc_Capacity c \<and> 0 < lc_RefillPeriod c \<and> 0 < lc_MaxEntries c \<and> 0 < lc_StaleTTL c)"

lemma Second_pos: "0 < Second" "0 < (of_int Second :: rat)"
  by (simp_all add: Second_def)

lemma normalized_ok: "cfg_ok (normalized c)"
  by (simp add: cfg_ok_def normalized_def loginRateCapacity_def loginRateRefillPeriod_def loginRateMaxEntries_def
      loginRateStaleTTL_def Minute_def Second_def)

lemma seconds_mono: "d \<le> d' \<Longrightarrow> seconds d \<le> seconds d'"
  unfolding seconds_def by (rule divide_right_mono) (simp_all add: Second_def)

lemma seconds_add: "seconds (d + d') = seconds d + seconds d'"
  by (simp add: seconds_def add_divide_distrib)

lemma seconds_pos: "0 < d \<Longrightarrow> 0 < seconds d"
  by (simp add: seconds_def Second_def)

lemma seconds_nonneg: "0 \<le> d \<Longrightarrow> 0 \<le> seconds d"
  by (simp add: seconds_def Second_def)

lemma rate_pos: "cfg_ok c \<Longrightarrow> 0 < refillRate c"
  using seconds_pos [of "lc_RefillPeriod c"] by (auto simp: refillRate_def cfg_ok_def Let_def)

lemma rate_period: "cfg_ok c \<Longrightarrow> seconds (lc_RefillPeriod c) * refillRate c = lc_Capacity c"
  using seconds_pos [of "lc_RefillPeriod c"] by (auto simp: refillRate_def cfg_ok_def Let_def)

lemma time_sub_le: "u \<le> t \<Longrightarrow> 0 \<le> time_sub t u \<and> time_sub t u \<le> t - u"
  by (simp add: time_sub_def maxDuration_def)

section \<open>The bound on the table\<close>

text \<open>A bucket: filled between empty and capacity, at an instant of the history.\<close>

definition entry_ok :: "LoginRateLimitConfig \<Rightarrow> int \<Rightarrow> int \<Rightarrow> loginRateEntry \<Rightarrow> bool" where
  "entry_ok c t0 t e = (0 \<le> le_tokens e \<and> le_tokens e \<le> lc_Capacity c \<and> t0 \<le> le_lastRefill e \<and> le_lastRefill e \<le> t)"

definition lim_ok :: "int \<Rightarrow> int \<Rightarrow> LoginRateLimiter \<Rightarrow> bool" where
  "lim_ok t0 t l = (cfg_ok (ll_cfg l) \<and> mdistinct (ll_entries l) \<and> [] \<notin> fst ` set (ll_entries l) \<and>
     int (length (ll_entries l)) \<le> lc_MaxEntries (ll_cfg l) \<and>
     (\<forall>kv \<in> set (ll_entries l). entry_ok (ll_cfg l) t0 t (snd kv)))"

lemma new_ok: "lim_ok t0 t (NewLoginRateLimiter c)"
  using normalized_ok [of c] by (simp add: lim_ok_def NewLoginRateLimiter_def cfg_ok_def)

lemma entry_ok_later: "entry_ok c t0 t e \<Longrightarrow> t \<le> t' \<Longrightarrow> entry_ok c t0 t' e"
  by (simp add: entry_ok_def)

lemma lim_ok_later: "lim_ok t0 t l \<Longrightarrow> t \<le> t' \<Longrightarrow> lim_ok t0 t' l"
  unfolding lim_ok_def using entry_ok_later by blast

lemma length_mput: "length (mput k v m) = (if k \<in> fst ` set m then length m else Suc (length m))"
  by (induction m) (auto simp: image_iff)

lemma length_mdel: "mdistinct m \<Longrightarrow> k \<in> fst ` set m \<Longrightarrow> Suc (length (mdel k m)) = length m"
proof (induction m)
  case (Cons kv m)
  show ?case
  proof (cases "fst kv = k")
    case True
    with Cons.prems(1) have "k \<notin> fst ` set m" by (cases kv) auto
    then have "mdel k m = m" by (simp add: AList.delete_eq filter_id_conv image_iff) force
    with True show ?thesis by (cases kv) (simp add: AList.delete_eq)
  next
    case False
    with Cons show ?thesis by (cases kv) (auto simp: AList.delete_eq)
  qed
qed simp

lemma oldest_fold:
  assumes "[] \<notin> fst ` set es" "fst old \<noteq> []"
  shows "fst (fold oldest_step es old) \<in> insert (fst old) (fst ` set es)"
  using assms
proof (induction es arbitrary: old)
  case (Cons kv es)
  then have "fst (oldest_step kv old) \<noteq> []" "fst (oldest_step kv old) \<in> {fst old, fst kv}"
    by (auto simp: oldest_step_def)
  with Cons.IH [of "oldest_step kv old"] Cons.prems(1) show ?case by auto
qed simp

lemma oldest_key_in: "es \<noteq> [] \<Longrightarrow> [] \<notin> fst ` set es \<Longrightarrow> oldest_key es \<in> fst ` set es"
  using oldest_fold [of "tl es" "oldest_step (hd es) ([], zeroTime)"]
  by (cases es) (auto simp: oldest_key_def oldest_step_def)

lemma entryLocked_ok:
  assumes ok: "lim_ok t0 t l" and ip: "ip \<noteq> []" and t: "t0 \<le> t"
    and run: "entryLocked ip t l = (e, l')"
  shows "lim_ok t0 t l'" "entry_ok (ll_cfg l) t0 t e" "ll_cfg l' = ll_cfg l" "ip \<in> fst ` set (ll_entries l')"
proof -
  have c: "cfg_ok (ll_cfg l)" and d: "mdistinct (ll_entries l)" and n: "[] \<notin> fst ` set (ll_entries l)"
    and len: "int (length (ll_entries l)) \<le> lc_MaxEntries (ll_cfg l)"
    and es: "\<And>kv. kv \<in> set (ll_entries l) \<Longrightarrow> entry_ok (ll_cfg l) t0 t (snd kv)"
    using ok by (auto simp: lim_ok_def)
  show "ll_cfg l' = ll_cfg l"
    using run by (auto simp: entryLocked_def Let_def split: option.splits)
  show "ip \<in> fst ` set (ll_entries l')"
    using run map_of_eq_None_iff [of "ll_entries l" ip]
    by (auto simp: entryLocked_def Let_def keys_mput split: option.splits)
  let ?es = "if int (length (ll_entries l)) \<ge> lc_MaxEntries (ll_cfg l)
             then mdel (oldest_key (ll_entries l)) (ll_entries l) else ll_entries l"
  let ?e = "\<lparr>le_tokens = lc_Capacity (ll_cfg l), le_lastRefill = t\<rparr>"
  have room: "int (length ?es) < lc_MaxEntries (ll_cfg l)"
  proof (cases "int (length (ll_entries l)) \<ge> lc_MaxEntries (ll_cfg l)")
    case True
    with c have "ll_entries l \<noteq> []" by (auto simp: cfg_ok_def)
    with length_mdel [OF d oldest_key_in [OF _ n]] len True show ?thesis by simp
  qed simp
  have sub: "set ?es \<subseteq> set (ll_entries l)" using set_mdel_subset [of "oldest_key (ll_entries l)" "ll_entries l"] by simp
  have new: "entry_ok (ll_cfg l) t0 t ?e" using c t by (simp add: entry_ok_def cfg_ok_def)
  show "entry_ok (ll_cfg l) t0 t e"
    using run new es map_of_SomeD by (fastforce simp: entryLocked_def Let_def split: option.splits)
  show "lim_ok t0 t l'"
  proof (cases "mget (ll_entries l) ip")
    case None
    then have l': "l' = l\<lparr>ll_entries := mput ip ?e ?es\<rparr>" using run by (auto simp: entryLocked_def Let_def)
    have "\<forall>kv \<in> set (mput ip ?e ?es). entry_ok (ll_cfg l) t0 t (snd kv)"
      using set_mput_subset [of ip ?e ?es] sub new es by fastforce
    moreover have "[] \<notin> fst ` set (mput ip ?e ?es)" using n sub ip by (auto simp: keys_mput)
    moreover have "mdistinct (mput ip ?e ?es)" using d by simp
    moreover have "int (length (mput ip ?e ?es)) \<le> lc_MaxEntries (ll_cfg l)"
      using room by (simp add: length_mput)
    ultimately show ?thesis using c by (simp add: lim_ok_def l')
  qed (use run ok in \<open>simp add: entryLocked_def\<close>)
qed

lemma refill_ok:
  assumes "entry_ok c t0 t e" and "cfg_ok c" and "zeroTime < t0" and "t0 \<le> t"
  shows "entry_ok c t0 t (refillLocked c t e)"
proof -
  have "le_lastRefill e \<noteq> zeroTime" using assms by (simp add: entry_ok_def)
  moreover have "0 \<le> seconds d * refillRate c" if "0 \<le> d" for d
    using seconds_nonneg [OF that] rate_pos [OF assms(2)] by simp
  ultimately show ?thesis using assms
    by (auto simp: refillLocked_def Let_def entry_ok_def cfg_ok_def intro: add_nonneg_nonneg)
qed

lemma Take_cases:
  assumes "ip \<noteq> []" and "Take ip t l = ((d, ok), l')"
  obtains e l1 where "entryLocked ip t l = (e, l1)"
    and "ok = (1 \<le> le_tokens (refillLocked (ll_cfg l1) t e))"
    and "d = (if ok then 0 else retry_after (ll_cfg l1) (refillLocked (ll_cfg l1) t e))"
    and "l' = l1\<lparr>ll_entries := mput ip (if ok then (refillLocked (ll_cfg l1) t e)
           \<lparr>le_tokens := le_tokens (refillLocked (ll_cfg l1) t e) - 1\<rparr> else refillLocked (ll_cfg l1) t e) (ll_entries l1)\<rparr>"
proof -
  obtain e l1 where "entryLocked ip t l = (e, l1)" by fastforce
  with assms that show thesis by (cases "1 \<le> le_tokens (refillLocked (ll_cfg l1) t e)") (simp_all add: Take_def Let_def)
qed

lemma mput_entry_ok:
  assumes "lim_ok t0 t l" and "entry_ok (ll_cfg l) t0 t e" and "ip \<in> fst ` set (ll_entries l)"
  shows "lim_ok t0 t (l\<lparr>ll_entries := mput ip e (ll_entries l)\<rparr>)"
proof -
  have "[] \<notin> fst ` set (mput ip e (ll_entries l))"
    using assms(1,3) by (auto simp: keys_mput lim_ok_def)
  moreover have "\<forall>kv \<in> set (mput ip e (ll_entries l)). entry_ok (ll_cfg l) t0 t (snd kv)"
    using set_mput_subset [of ip e "ll_entries l"] assms(1,2) by (fastforce simp: lim_ok_def)
  moreover have "length (mput ip e (ll_entries l)) = length (ll_entries l)"
    using assms(3) by (simp add: length_mput)
  ultimately show ?thesis using assms(1) by (simp add: lim_ok_def)
qed

lemma Take_ok:
  assumes "lim_ok t0 t l" and "zeroTime < t0" and "t0 \<le> t"
  shows "lim_ok t0 t (snd (Take ip t l)) \<and> ll_cfg (snd (Take ip t l)) = ll_cfg l"
proof (cases "ip = []")
  case False
  obtain d ok l' where run: "Take ip t l = ((d, ok), l')" by (metis prod.exhaust)
  from False run show ?thesis
  proof (cases rule: Take_cases)
    case (1 e l1)
    note e = entryLocked_ok [OF assms(1) False assms(3) 1(1)]
    let ?e = "refillLocked (ll_cfg l1) t e"
    have "cfg_ok (ll_cfg l1)" using assms(1) e(3) by (simp add: lim_ok_def)
    with e have new: "entry_ok (ll_cfg l1) t0 t ?e" using refill_ok assms(2,3) by simp
    then have "entry_ok (ll_cfg l1) t0 t (if ok then ?e\<lparr>le_tokens := le_tokens ?e - 1\<rparr> else ?e)"
      using 1(2) by (simp add: entry_ok_def)
    from mput_entry_ok [OF e(1) this e(4)] show ?thesis using run 1(4) e(3) by simp
  qed
qed (use assms in \<open>simp add: Take_def\<close>)

lemma shrink_ok:
  assumes "lim_ok t0 t l" and "set es \<subseteq> set (ll_entries l)" and "mdistinct es" and "length es \<le> length (ll_entries l)"
  shows "lim_ok t0 t (l\<lparr>ll_entries := es\<rparr>)"
  using assms by (auto simp: lim_ok_def)

lemma lim_step_ok:
  assumes "lim_ok t0 t l" and "zeroTime < t0" and "t0 \<le> t" and "t \<le> fst te"
  shows "lim_ok t0 (fst te) (lim_step te l) \<and> ll_cfg (lim_step te l) = ll_cfg l"
proof -
  have ok: "lim_ok t0 (fst te) l" using assms lim_ok_later by blast
  have d: "mdistinct (ll_entries l)" using ok by (simp add: lim_ok_def)
  show ?thesis
  proof (cases "snd te")
    case (Attempt ip)
    then show ?thesis using Take_ok [OF ok assms(2)] assms by (simp add: lim_step_def)
  next
    case (Success ip)
    have "length (mdel ip (ll_entries l)) \<le> length (ll_entries l)" by (simp add: AList.delete_eq)
    then show ?thesis using Success shrink_ok [OF ok set_mdel_subset] d ok by (simp add: lim_step_def RecordLoginSuccess_def)
  next
    case Sweep
    let ?es = "filter (\<lambda>(k, v). \<not> le_lastRefill v < fst te - lc_StaleTTL (ll_cfg l)) (ll_entries l)"
    have "lim_ok t0 (fst te) (l\<lparr>ll_entries := ?es\<rparr>)"
      by (rule shrink_ok [OF ok]) (use d in \<open>auto intro: mdistinct_filter\<close>)
    then show ?thesis using Sweep by (simp add: lim_step_def Cleanup_def Let_def)
  qed
qed

text \<open>A history in time order, between two instants.\<close>

fun in_order :: "int \<Rightarrow> int \<Rightarrow> (int \<times> lim_event) list \<Rightarrow> bool" where
  "in_order t t1 [] = (t \<le> t1)"
| "in_order t t1 (te # h) = (t \<le> fst te \<and> in_order (fst te) t1 h)"

lemma fold_lim_step_ok:
  assumes "lim_ok t0 t l" and "zeroTime < t0" and "t0 \<le> t" and "in_order t t1 h"
  shows "lim_ok t0 t1 (fold lim_step h l) \<and> ll_cfg (fold lim_step h l) = ll_cfg l"
  using assms
proof (induction h arbitrary: t l)
  case (Cons te h)
  from lim_step_ok [OF Cons.prems(1-3)] Cons.prems(4)
  have s: "lim_ok t0 (fst te) (lim_step te l)" "ll_cfg (lim_step te l) = ll_cfg l" by auto
  from Cons.IH [OF s(1)] Cons.prems s(2) show ?case by auto
qed (simp add: lim_ok_later)

section \<open>The bound on attempts\<close>

text \<open>What a bucket holds at an instant, refilled up to then.\<close>

definition level :: "LoginRateLimiter \<Rightarrow> string \<Rightarrow> int \<Rightarrow> rat" where
  "level l ip t = (case mget (ll_entries l) ip of
     None \<Rightarrow> lc_Capacity (ll_cfg l)
   | Some e \<Rightarrow> min (lc_Capacity (ll_cfg l)) (le_tokens e + seconds (t - le_lastRefill e) * refillRate (ll_cfg l)))"

lemma min_shift: "0 \<le> d \<Longrightarrow> min c (x + (a + d)) \<le> min c (x + a) + (d :: rat)"
  by (simp add: min_def)

lemma level_later:
  assumes "cfg_ok (ll_cfg l)" and "t \<le> t'"
  shows "level l ip t' \<le> level l ip t + seconds (t' - t) * refillRate (ll_cfg l)"
proof -
  have nn: "0 \<le> seconds (t' - t) * refillRate (ll_cfg l)"
    using rate_pos [OF assms(1)] seconds_nonneg assms(2) by simp
  have later: "seconds (t' - u) * refillRate (ll_cfg l) =
      seconds (t - u) * refillRate (ll_cfg l) + seconds (t' - t) * refillRate (ll_cfg l)" for u
    using seconds_add [of "t - u" "t' - t"] by (simp add: distrib_right)
  have "min (lc_Capacity (ll_cfg l)) (x + seconds (t' - u) * refillRate (ll_cfg l)) \<le>
      min (lc_Capacity (ll_cfg l)) (x + seconds (t - u) * refillRate (ll_cfg l)) + seconds (t' - t) * refillRate (ll_cfg l)" for x u
    unfolding later [of u] by (rule min_shift [OF nn])
  with nn show ?thesis by (cases "mget (ll_entries l) ip") (simp_all add: level_def)
qed

lemma refill_level:
  assumes "cfg_ok c" and "entry_ok c t0 t e" and "zeroTime < t0"
  shows "le_tokens (refillLocked c t e) \<le> min (lc_Capacity c) (le_tokens e + seconds (t - le_lastRefill e) * refillRate c)"
    and "le_lastRefill (refillLocked c t e) = t"
proof -
  have z: "le_lastRefill e \<noteq> zeroTime" and le: "le_lastRefill e \<le> t" and cap: "le_tokens e \<le> lc_Capacity c"
    using assms by (auto simp: entry_ok_def)
  have sub: "time_sub t (le_lastRefill e) \<le> t - le_lastRefill e" using time_sub_le [OF le] by simp
  have "seconds (time_sub t (le_lastRefill e)) * refillRate c \<le> seconds (t - le_lastRefill e) * refillRate c"
    by (rule mult_right_mono [OF seconds_mono [OF sub]]) (use rate_pos [OF assms(1)] in simp)
  moreover have "0 \<le> seconds (t - le_lastRefill e) * refillRate c"
    using rate_pos [OF assms(1)] seconds_nonneg le by simp
  ultimately show "le_tokens (refillLocked c t e) \<le> min (lc_Capacity c) (le_tokens e + seconds (t - le_lastRefill e) * refillRate c)"
    using z cap by (auto simp: refillLocked_def Let_def)
  have "time_sub t (le_lastRefill e) \<le> 0 \<Longrightarrow> le_lastRefill e = t" using le by (simp add: time_sub_def maxDuration_def)
  then show "le_lastRefill (refillLocked c t e) = t"
    using z by (simp add: refillLocked_def Let_def)
qed

lemma level_put:
  "ll_cfg l1 = ll_cfg l \<Longrightarrow> level (l1\<lparr>ll_entries := mput ip e (ll_entries l1)\<rparr>) ip t =
     min (lc_Capacity (ll_cfg l)) (le_tokens e + seconds (t - le_lastRefill e) * refillRate (ll_cfg l))"
  "j \<noteq> ip \<Longrightarrow> level (l1\<lparr>ll_entries := mput ip e (ll_entries l1)\<rparr>) j t = level l1 j t"
  by (simp_all add: level_def cong: option.case_cong)

lemma seconds_zero: "seconds 0 = 0"
  by (simp add: seconds_def)

lemma entryLocked_level:
  assumes ok: "lim_ok t0 t l" and "zeroTime < t0" "t0 \<le> t" and ip: "ip \<noteq> []"
    and room: "mget (ll_entries l) ip = None \<Longrightarrow> int (length (ll_entries l)) < lc_MaxEntries (ll_cfg l)"
    and run: "entryLocked ip t l = (e, l1)"
  shows "min (lc_Capacity (ll_cfg l)) (le_tokens e + seconds (t - le_lastRefill e) * refillRate (ll_cfg l)) = level l ip t"
    and "j \<noteq> ip \<Longrightarrow> level l1 j t = level l j t"
    and "fst ` set (ll_entries l1) = insert ip (fst ` set (ll_entries l))"
proof -
  show "min (lc_Capacity (ll_cfg l)) (le_tokens e + seconds (t - le_lastRefill e) * refillRate (ll_cfg l)) = level l ip t"
    using run by (auto simp: entryLocked_def level_def Let_def seconds_zero split: option.splits)
  show "j \<noteq> ip \<Longrightarrow> level l1 j t = level l j t"
    using run room by (auto simp: entryLocked_def level_def Let_def split: option.splits)
  show "fst ` set (ll_entries l1) = insert ip (fst ` set (ll_entries l))"
  proof (cases "mget (ll_entries l) ip")
    case None
    with run room have "l1 = l\<lparr>ll_entries := mput ip \<lparr>le_tokens = lc_Capacity (ll_cfg l), le_lastRefill = t\<rparr> (ll_entries l)\<rparr>"
      by (auto simp: entryLocked_def Let_def)
    then show ?thesis by (simp add: keys_mput)
  next
    case (Some x)
    with run have "l1 = l" by (simp add: entryLocked_def)
    moreover have "ip \<in> fst ` set (ll_entries l)" using map_of_SomeD [OF Some] by force
    ultimately show ?thesis by (simp add: insert_absorb)
  qed
qed

text \<open>A step that leaves the table room: an attempt pays for itself, and nothing else adds to a bucket.\<close>

lemma Take_level:
  assumes ok: "lim_ok t0 t l" and t: "zeroTime < t0" "t0 \<le> t" and ip: "ip \<noteq> []"
    and room: "mget (ll_entries l) ip = None \<Longrightarrow> int (length (ll_entries l)) < lc_MaxEntries (ll_cfg l)"
    and run: "Take ip t l = ((d, adm), l')"
  shows "(if adm then 1 else 0) + level l' ip t \<le> level l ip t"
    and "j \<noteq> ip \<Longrightarrow> level l' j t = level l j t"
    and "fst ` set (ll_entries l') = insert ip (fst ` set (ll_entries l))"
proof -
  obtain e l1 where e: "entryLocked ip t l = (e, l1)"
    and adm: "adm = (1 \<le> le_tokens (refillLocked (ll_cfg l1) t e))"
    and l': "l' = l1\<lparr>ll_entries := mput ip (if adm then (refillLocked (ll_cfg l1) t e)
           \<lparr>le_tokens := le_tokens (refillLocked (ll_cfg l1) t e) - 1\<rparr> else refillLocked (ll_cfg l1) t e) (ll_entries l1)\<rparr>"
    using ip run by (rule Take_cases)
  note el = entryLocked_ok [OF ok ip t(2) e] and lev = entryLocked_level [OF ok t ip room e]
  have c: "cfg_ok (ll_cfg l)" using ok by (simp add: lim_ok_def)
  let ?r = "refillLocked (ll_cfg l) t e"
  have full: "le_tokens ?r \<le> level l ip t"
    using refill_level(1) [OF c el(2) t(1)] lev(1) by simp
  have now: "le_lastRefill ?r = t" by (rule refill_level(2) [OF c el(2) t(1)])
  show "(if adm then 1 else 0) + level l' ip t \<le> level l ip t"
    using full now adm min.cobounded2 [of "lc_Capacity (ll_cfg l)" "le_tokens ?r"]
      min.cobounded2 [of "lc_Capacity (ll_cfg l)" "le_tokens ?r - 1"]
    unfolding l' level_put(1) [OF el(3)] el(3) by (auto simp: seconds_zero)
  show "j \<noteq> ip \<Longrightarrow> level l' j t = level l j t" unfolding l' using lev(2) by (simp add: level_put(2))
  show "fst ` set (ll_entries l') = insert ip (fst ` set (ll_entries l))"
    unfolding l' using lev(3) by (simp add: keys_mput)
qed

section \<open>Attempts in a history\<close>

lemma sweep_level:
  assumes ok: "lim_ok t0 t l" and keep: "lc_RefillPeriod (ll_cfg l) \<le> lc_StaleTTL (ll_cfg l)"
  shows "level (Cleanup t l) ip t = level l ip t"
proof (cases "mget (ll_entries l) ip")
  case None
  then have "mget (filter (\<lambda>(k, v). \<not> le_lastRefill v < t - lc_StaleTTL (ll_cfg l)) (ll_entries l)) ip = None"
    by (auto simp: map_of_eq_None_iff)
  with None show ?thesis by (simp add: level_def Cleanup_def Let_def)
next
  case (Some e)
  have c: "cfg_ok (ll_cfg l)" and d: "mdistinct (ll_entries l)" using ok by (auto simp: lim_ok_def)
  have e: "0 \<le> le_tokens e" using ok map_of_SomeD [OF Some] by (auto simp: lim_ok_def entry_ok_def)
  show ?thesis
  proof (cases "le_lastRefill e < t - lc_StaleTTL (ll_cfg l)")
    case True
    have "seconds (lc_RefillPeriod (ll_cfg l)) \<le> seconds (t - le_lastRefill e)"
      using True keep by (intro seconds_mono) simp
    then have "lc_Capacity (ll_cfg l) \<le> seconds (t - le_lastRefill e) * refillRate (ll_cfg l)"
      using mult_right_mono [of _ _ "refillRate (ll_cfg l)"] rate_pos [OF c] unfolding rate_period [OF c, symmetric] by simp
    then have full: "level l ip t = lc_Capacity (ll_cfg l)" using e Some by (simp add: level_def)
    have "mget (filter (\<lambda>(k, v). \<not> le_lastRefill v < t - lc_StaleTTL (ll_cfg l)) (ll_entries l)) ip = None"
      using True Some d by (subst mget_filter) simp_all
    with full show ?thesis by (simp add: level_def Cleanup_def Let_def)
  next
    case False
    have "mget (filter (\<lambda>(k, v). \<not> le_lastRefill v < t - lc_StaleTTL (ll_cfg l)) (ll_entries l)) ip = Some e"
      using False Some d by (subst mget_filter) simp_all
    with Some show ?thesis by (simp add: level_def Cleanup_def Let_def)
  qed
qed

lemma attempt_ips_Cons:
  "attempt_ips (te # h) = (case snd te of Attempt ip \<Rightarrow> if ip = [] then attempt_ips h else insert ip (attempt_ips h) | _ \<Rightarrow> attempt_ips h)"
  by (auto simp: attempt_ips_def split: lim_event.splits)

text \<open>A step of a history whose addresses fit the table.\<close>

lemma step_level:
  assumes ok: "lim_ok t0 t l" and t: "zeroTime < t0" "t0 \<le> t"
    and keep: "lc_RefillPeriod (ll_cfg l) \<le> lc_StaleTTL (ll_cfg l)"
    and "te = (t, ev)" and ip: "ip \<noteq> []" and no: "ev \<noteq> Success ip"
    and keys: "fst ` set (ll_entries l) \<subseteq> S" "finite S" "int (card S) \<le> lc_MaxEntries (ll_cfg l)"
      "attempt_ips [te] \<subseteq> S"
  shows "(if ev = Attempt ip \<and> snd (fst (Take ip t l)) then 1 else 0) + level (lim_step te l) ip t \<le> level l ip t"
    and "fst ` set (ll_entries (lim_step te l)) \<subseteq> S"
proof -
  have d: "mdistinct (ll_entries l)" using ok by (simp add: lim_ok_def)
  have "((if ev = Attempt ip \<and> snd (fst (Take ip t l)) then 1 else 0) + level (lim_step te l) ip t \<le> level l ip t) \<and>
    fst ` set (ll_entries (lim_step te l)) \<subseteq> S"
  proof (cases ev)
    case (Attempt j)
    show ?thesis
    proof (cases "j = []")
      case True
      then show ?thesis using Attempt ip keys(1) assms(5) by (auto simp: lim_step_def Take_def)
    next
      case False
      have j: "j \<in> S" using keys(4) False Attempt assms(5) by (simp add: attempt_ips_Cons)
      have room: "int (length (ll_entries l)) < lc_MaxEntries (ll_cfg l)" if "mget (ll_entries l) j = None"
      proof -
        have "j \<notin> fst ` set (ll_entries l)" using that by (simp add: map_of_eq_None_iff)
        with j keys(1) have "fst ` set (ll_entries l) \<subset> S" by blast
        then have "card (fst ` set (ll_entries l)) < card S" by (rule psubset_card_mono [OF keys(2)])
        moreover have "card (fst ` set (ll_entries l)) = length (ll_entries l)"
          using distinct_card [OF d] by simp
        ultimately show ?thesis using keys(3) by simp
      qed
      obtain d adm l' where run: "Take j t l = ((d, adm), l')" by (metis prod.exhaust)
      note tk = Take_level [OF ok t False room run]
      show ?thesis using tk Attempt assms(5) run j keys(1) by (cases "ip = j") (auto simp: lim_step_def)
    qed
  next
    case (Success j)
    have "fst ` set (mdel j (ll_entries l)) \<subseteq> S" using set_mdel_subset [of j "ll_entries l"] keys(1) by fastforce
    moreover have "level (l\<lparr>ll_entries := mdel j (ll_entries l)\<rparr>) ip t = level l ip t" if "ip \<noteq> j"
      using that by (simp add: level_def cong: option.case_cong)
    ultimately show ?thesis using Success no assms(5) keys(1) by (auto simp: lim_step_def RecordLoginSuccess_def)
  next
    case Sweep
    have "fst ` set (ll_entries (Cleanup t l)) \<subseteq> S" using keys(1) by (auto simp: Cleanup_def Let_def)
    then show ?thesis using Sweep sweep_level [OF ok keep] assms(5) by (simp add: lim_step_def)
  qed
  then show "(if ev = Attempt ip \<and> snd (fst (Take ip t l)) then 1 else 0) + level (lim_step te l) ip t \<le> level l ip t"
    and "fst ` set (ll_entries (lim_step te l)) \<subseteq> S" by blast+
qed

lemma admitted_level:
  assumes "lim_ok t0 t l" and "zeroTime < t0" and "t0 \<le> t" and "in_order t t1 h"
    and "lc_RefillPeriod (ll_cfg l) \<le> lc_StaleTTL (ll_cfg l)"
    and "ip \<noteq> []" and "Success ip \<notin> snd ` set h"
    and "fst ` set (ll_entries l) \<subseteq> S" and "finite S" and "int (card S) \<le> lc_MaxEntries (ll_cfg l)"
    and "attempt_ips h \<subseteq> S"
  shows "of_nat (admitted ip h l) \<le> level l ip t + seconds (t1 - t) * refillRate (ll_cfg l)"
  using assms
proof (induction h arbitrary: t l)
  case Nil
  then have c: "cfg_ok (ll_cfg l)" by (simp add: lim_ok_def)
  have "0 \<le> seconds (t1 - t) * refillRate (ll_cfg l)" using rate_pos [OF c] seconds_nonneg Nil.prems(4) by simp
  moreover have "0 \<le> level l ip t"
  proof (cases "mget (ll_entries l) ip")
    case (Some e)
    then have e: "entry_ok (ll_cfg l) t0 t e" using Nil.prems(1) map_of_SomeD [OF Some] by (auto simp: lim_ok_def)
    then have "0 \<le> seconds (t - le_lastRefill e) * refillRate (ll_cfg l)"
      using rate_pos [OF c] seconds_nonneg by (simp add: entry_ok_def)
    with Some e c show ?thesis by (simp add: level_def entry_ok_def cfg_ok_def)
  qed (use c in \<open>simp add: level_def cfg_ok_def\<close>)
  ultimately show ?case by simp
next
  case (Cons te h)
  obtain t' ev where te: "te = (t', ev)" by (cases te)
  have le: "t \<le> t'" "t0 \<le> t'" and rest: "in_order t' t1 h" using Cons.prems(3,4) te by auto
  have ok': "lim_ok t0 t' l" by (rule lim_ok_later [OF Cons.prems(1) le(1)])
  have c: "cfg_ok (ll_cfg l)" using ok' by (simp add: lim_ok_def)
  have S: "attempt_ips [te] \<subseteq> S" "attempt_ips h \<subseteq> S"
    using Cons.prems(11) by (auto simp: attempt_ips_def)
  have no: "ev \<noteq> Success ip" "Success ip \<notin> snd ` set h" using Cons.prems(7) te by auto
  note st = step_level [OF ok' Cons.prems(2) le(2) Cons.prems(5) te Cons.prems(6) no(1) Cons.prems(8-10) S(1)]
  from lim_step_ok [OF ok' Cons.prems(2) le(2), of te] te
  have l': "lim_ok t0 t' (lim_step te l)" "ll_cfg (lim_step te l) = ll_cfg l" by auto
  have "of_nat (admitted ip h (lim_step te l)) \<le> level (lim_step te l) ip t' + seconds (t1 - t') * refillRate (ll_cfg l)"
    using Cons.IH [OF l'(1) Cons.prems(2) le(2) rest] Cons.prems(5,6,9,10) l'(2) no(2) st(2) S(2) by simp
  moreover have "(of_nat (admitted ip (te # h) l) :: rat) = (if ev = Attempt ip \<and> snd (fst (Take ip t' l)) then 1 else 0) +
      of_nat (admitted ip h (lim_step te l))" using te by simp
  moreover have "level l ip t' \<le> level l ip t + seconds (t' - t) * refillRate (ll_cfg l)" by (rule level_later [OF c le(1)])
  moreover have "seconds (t1 - t) * refillRate (ll_cfg l) =
      seconds (t' - t) * refillRate (ll_cfg l) + seconds (t1 - t') * refillRate (ll_cfg l)"
    using seconds_add [of "t' - t" "t1 - t'"] by (simp add: distrib_right)
  ultimately show ?case using st(1) by linarith
qed


text \<open>
  In every history the table holds at most \<^verbatim>\<open>MaxEntries\<close> addresses, each once, with a bucket
  between empty and full.
\<close>
theorem limiter_bounded:
  assumes "zeroTime < t0" and "in_order t0 t1 h" and "l = fold lim_step h (NewLoginRateLimiter cfg)"
  shows "int (length (ll_entries l)) \<le> lc_MaxEntries (normalized cfg) \<and> mdistinct (ll_entries l) \<and>
    (\<forall>ip e. mget (ll_entries l) ip = Some e \<longrightarrow> 0 \<le> le_tokens e \<and> le_tokens e \<le> lc_Capacity (normalized cfg))"
proof -
  have "lim_ok t0 t1 l \<and> ll_cfg l = normalized cfg"
    using fold_lim_step_ok [OF new_ok assms(1) order_refl assms(2), of cfg] assms(3) by (simp add: NewLoginRateLimiter_def)
  then have ok: "lim_ok t0 t1 l" and c: "ll_cfg l = normalized cfg" by simp_all
  have "0 \<le> le_tokens e \<and> le_tokens e \<le> lc_Capacity (normalized cfg)" if "mget (ll_entries l) ip = Some e" for ip e
    using ok c map_of_SomeD [OF that] by (force simp: lim_ok_def entry_ok_def)
  then show ?thesis using ok c by (simp add: lim_ok_def)
qed

section \<open>Waiting as told\<close>


section \<open>Examples\<close>

text \<open>One attempt a minute, four addresses; two attempts, then one after the minute, a clean-up in between.\<close>

definition ex_cfg :: LoginRateLimitConfig where
  "ex_cfg = \<lparr>lc_Capacity = 1, lc_RefillPeriod = Minute, lc_MaxEntries = 4, lc_CleanupInterval = 0, lc_StaleTTL = 0\<rparr>"

definition ex_history :: "(int \<times> lim_event) list" where
  "ex_history = [(1, Attempt ''a''), (2, Attempt ''a''), (3, Sweep), (1 + Minute, Attempt ''a'')]"

lemmas lim_eval = NewLoginRateLimiter_def normalized_def ex_cfg_def Minute_def Second_def zeroTime_def loginRateStaleTTL_def
  loginRateCleanupInterval_def Take_def entryLocked_def refillLocked_def refillRate_def retry_after_def seconds_def
  time_sub_def maxDuration_def Let_def lim_step_def Cleanup_def


theorem limiter_bounded_witness:
  "length (ll_entries (fold lim_step ex_history (NewLoginRateLimiter ex_cfg))) = 1 \<and>
   int (length (ll_entries (fold lim_step ex_history (NewLoginRateLimiter ex_cfg)))) \<le> lc_MaxEntries (normalized ex_cfg)"
proof
  show "length (ll_entries (fold lim_step ex_history (NewLoginRateLimiter ex_cfg))) = 1" by (simp add: ex_history_def lim_eval)
  show "int (length (ll_entries (fold lim_step ex_history (NewLoginRateLimiter ex_cfg)))) \<le> lc_MaxEntries (normalized ex_cfg)"
    by (rule limiter_bounded [where ?t0.0 = 1 and ?t1.0 = "1 + Minute", OF _ _ refl, THEN conjunct1])
      (simp_all add: ex_history_def Minute_def Second_def zeroTime_def)
qed


end
