(* ===== verification/Backup.thy ===== *)
theory Backup
  imports Act Db Domain_Rules
begin

text \<open>
  Database files (\<^verbatim>\<open>repo/backup.go\<close>, \<^verbatim>\<open>repo/store.go\<close>): validation of a file, export of a snapshot, and
  the import that swaps the live file.  The file system maps names to files.  A file is what the
  sources look at: its size, its first bytes, SQLite's integrity verdict, its tables and its rows.
  Every call may fail, as \<open>io_fail\<close> says for the number of the call; what SQLite and gorm make of a file
  when they open, migrate or vacuum it is a parameter.
\<close>

section \<open>Files and calls\<close>

record DbFile =
  df_size :: int
  df_head :: string
  df_quick :: string
  df_tables :: "string list"
  df_rows :: db

text \<open>
  \<open>io_open n f\<close>: the main file after the \<open>n\<close>th call opened and migrated it, also when the call fails then;
  \<open>io_vacuum n f\<close>: what \<^verbatim>\<open>VACUUM INTO\<close> writes; \<open>io_partial n f\<close>: what a failed copy leaves; \<open>io_temp n\<close>:
  the name \<^verbatim>\<open>CreateTemp\<close> finds.
\<close>

record io =
  io_fail :: "nat \<Rightarrow> err option"
  io_open :: "nat \<Rightarrow> DbFile option \<Rightarrow> DbFile"
  io_vacuum :: "nat \<Rightarrow> DbFile \<Rightarrow> DbFile"
  io_partial :: "nat \<Rightarrow> DbFile \<Rightarrow> DbFile"
  io_temp :: "nat \<Rightarrow> string"

record disk =
  dk_calls :: nat
  dk_files :: "string \<Rightarrow> DbFile option"
  dk_open :: bool

type_synonym 'a dio = "(disk, 'a) act"

definition empty_file :: DbFile where
  "empty_file = \<lparr>df_size = 0, df_head = [], df_quick = [], df_tables = [], df_rows = []\<rparr>"

definition sys :: "io \<Rightarrow> (nat \<Rightarrow> (string \<Rightarrow> DbFile option) \<Rightarrow> (err + 'a) \<times> (string \<Rightarrow> DbFile option)) \<Rightarrow> 'a dio" where
  "sys io f = (\<lambda>s. let n = dk_calls s; s1 = s\<lparr>dk_calls := Suc n\<rparr> in case io_fail io n of
       Some e \<Rightarrow> (Inl e, s1)
     | None \<Rightarrow> (case f n (dk_files s) of (r, fs) \<Rightarrow> (r, s1\<lparr>dk_files := fs\<rparr>)))"

text \<open>\<^verbatim>\<open>os.Stat\<close> and \<^verbatim>\<open>os.Remove\<close>; the result tells a missing file, the one error the sources treat apart.\<close>

definition os_Stat :: "io \<Rightarrow> string \<Rightarrow> DbFile option dio" where
  "os_Stat io p = sys io (\<lambda>_ fs. (Inr (fs p), fs))"

definition os_Remove :: "io \<Rightarrow> string \<Rightarrow> bool dio" where
  "os_Remove io p = sys io (\<lambda>_ fs. (Inr (fs p \<noteq> None), fs(p := None)))"

definition os_Rename :: "io \<Rightarrow> string \<Rightarrow> string \<Rightarrow> unit dio" where
  "os_Rename io p q = sys io (\<lambda>_ fs. case fs p of
       None \<Rightarrow> (Inl (Errorf ''no such file''), fs)
     | Some f \<Rightarrow> (Inr (), (fs(p := None))(q := Some f)))"

definition os_CreateTemp :: "io \<Rightarrow> string dio" where
  "os_CreateTemp io = sys io (\<lambda>n fs. (Inr (io_temp io n), fs(io_temp io n := Some empty_file)))"

text \<open>A call without effect on files: closing a handle, a query.\<close>

definition os_call :: "io \<Rightarrow> unit dio" where
  "os_call io = sys io (\<lambda>_ fs. (Inr (), fs))"

definition os_Open :: "io \<Rightarrow> string \<Rightarrow> DbFile dio" where
  "os_Open io p = sys io (\<lambda>_ fs. case fs p of None \<Rightarrow> (Inl (Errorf ''no such file''), fs) | Some f \<Rightarrow> (Inr f, fs))"

definition vacuum_into :: "io \<Rightarrow> string \<Rightarrow> string \<Rightarrow> unit dio" where
  "vacuum_into io src dst = sys io (\<lambda>n fs. case fs src of
       None \<Rightarrow> (Inl (Errorf ''no such table''), fs)
     | Some f \<Rightarrow> (Inr (), fs(dst := Some (io_vacuum io n f))))"

section \<open>Copying (\<^verbatim>\<open>copyFile\<close>)\<close>

text \<open>The three writing calls' errors are joined; whatever fails, the destination has been created.\<close>

definition write_out :: "io \<Rightarrow> string \<Rightarrow> DbFile \<Rightarrow> unit dio" where
  "write_out io dst f =
     andthen (attempt (sys io (\<lambda>n fs. (Inr (), fs(dst := Some f))))) (\<lambda>copied s.
       let s = (if is_ok copied then s else s\<lparr>dk_files := (dk_files s)(dst := Some (io_partial io (dk_calls s) f))\<rparr>) in
     andthen (attempt (os_call io)) (\<lambda>synced.
     andthen (attempt (os_call io)) (\<lambda>closed.
       let errs = concat (map (\<lambda>r. case r of Inl e \<Rightarrow> [e] | Inr _ \<Rightarrow> []) [copied, synced, closed]) in
       if errs = [] then ret () else fail (Join errs))) s)"

definition copyFile :: "io \<Rightarrow> string \<Rightarrow> string \<Rightarrow> unit dio" where
  "copyFile io src dst =
     andthen (os_Open io src) (\<lambda>f.
     andthen (sys io (\<lambda>_ fs. (Inr (), fs(dst := Some empty_file)))) (\<lambda>_.
     write_out io dst f))"

definition copyOptionalFile :: "io \<Rightarrow> string \<Rightarrow> string \<Rightarrow> unit dio" where
  "copyOptionalFile io src dst =
     andthen (attempt (os_Stat io src)) (\<lambda>r. if r = Inr None then ret () else copyFile io src dst)"

section \<open>Removing and moving\<close>

definition databaseSidecars :: "string list" where
  "databaseSidecars = [[], ''-wal'', ''-shm'']"

fun remove_each :: "io \<Rightarrow> string \<Rightarrow> string list \<Rightarrow> err list dio" where
  "remove_each io base [] = ret []"
| "remove_each io base (sfx # rest) =
     andthen (attempt (os_Remove io (base @ sfx))) (\<lambda>r.
     andthen (remove_each io base rest) (\<lambda>errs. ret (case r of Inl e \<Rightarrow> e # errs | Inr _ \<Rightarrow> errs)))"

definition removeDatabaseFiles :: "io \<Rightarrow> string \<Rightarrow> unit dio" where
  "removeDatabaseFiles io base =
     andthen (remove_each io base databaseSidecars) (\<lambda>errs. if errs = [] then ret () else fail (Join errs))"

definition moveOptional :: "io \<Rightarrow> string \<Rightarrow> string \<Rightarrow> unit dio" where
  "moveOptional io src dst =
     andthen (os_Stat io src) (\<lambda>f. if f = None then ret ()
       else andthen (attempt (os_Remove io dst)) (\<lambda>_. os_Rename io src dst))"

section \<open>Opening and closing\<close>

text \<open>\<^verbatim>\<open>openDB\<close>: open, migrate, and the handle is the store's; a failure leaves the handle as it was.\<close>

definition openDB :: "io \<Rightarrow> string \<Rightarrow> unit dio" where
  "openDB io p = (\<lambda>s. let n = dk_calls s;
       s1 = s\<lparr>dk_calls := Suc n, dk_files := (dk_files s)(p := Some (io_open io n (dk_files s p)))\<rparr> in
     case io_fail io n of Some e \<Rightarrow> (Inl e, s1) | None \<Rightarrow> (Inr (), s1\<lparr>dk_open := True\<rparr>))"

text \<open>The same for a database that is not the store's: the import source.\<close>

definition import_open :: "io \<Rightarrow> string \<Rightarrow> unit dio" where
  "import_open io p = (\<lambda>s. let n = dk_calls s;
       s1 = s\<lparr>dk_calls := Suc n, dk_files := (dk_files s)(p := Some (io_open io n (dk_files s p)))\<rparr> in
     case io_fail io n of Some e \<Rightarrow> (Inl e, s1) | None \<Rightarrow> (Inr (), s1))"

definition closeDB :: "io \<Rightarrow> unit dio" where
  "closeDB io = andthen (os_call io) (\<lambda>_ s. (Inr (), s\<lparr>dk_open := False\<rparr>))"

text \<open>\<^verbatim>\<open>isConfiguredDB\<close> on the store's handle.\<close>

definition rows_configured :: "db \<Rightarrow> bool" where
  "rows_configured rows = (t_admins rows \<noteq> [] \<and> t_settings rows \<noteq> [])"

definition isConfiguredDB :: "io \<Rightarrow> string \<Rightarrow> bool dio" where
  "isConfiguredDB io p = andthen (os_Open io p) (\<lambda>f. ret (rows_configured (df_rows f)))"

section \<open>Swapping the live file\<close>

fun move_each :: "io \<Rightarrow> string \<Rightarrow> string \<Rightarrow> string list \<Rightarrow> err list dio" where
  "move_each io src dst [] = ret []"
| "move_each io src dst (sfx # rest) =
     andthen (attempt (moveOptional io (src @ sfx) (dst @ sfx))) (\<lambda>r.
     andthen (move_each io src dst rest) (\<lambda>errs. ret (case r of Inl e \<Rightarrow> e # errs | Inr _ \<Rightarrow> errs)))"

definition errs_of :: "err + 'a \<Rightarrow> err list" where
  "errs_of r = (case r of Inl e \<Rightarrow> [e] | Inr _ \<Rightarrow> [])"

definition restoreDatabaseLocked :: "io \<Rightarrow> string \<Rightarrow> string \<Rightarrow> bool \<Rightarrow> unit dio" where
  "restoreDatabaseLocked io live backupBase moved =
     andthen (attempt (closeDB io)) (\<lambda>closed.
     andthen (if moved then andthen (attempt (removeDatabaseFiles io live)) (\<lambda>removed.
         andthen (move_each io backupBase live databaseSidecars) (\<lambda>errs. ret (errs_of removed @ errs)))
       else ret []) (\<lambda>moving.
     andthen (attempt (openDB io live)) (\<lambda>opened.
     let errs = errs_of closed @ moving @ map (Wrap ''reopen restored database: '') (errs_of opened) in
     if errs = [] then ret () else fail (Join errs))))"

text \<open>The backup loop: the error that stopped it, if any, and whether the main file had been moved.\<close>

fun backup_each :: "io \<Rightarrow> string \<Rightarrow> string \<Rightarrow> string list \<Rightarrow> bool \<Rightarrow> (err option \<times> bool) dio" where
  "backup_each io live backupBase [] moved = ret (None, moved)"
| "backup_each io live backupBase (sfx # rest) moved =
     andthen (attempt (moveOptional io (live @ sfx) (backupBase @ sfx))) (\<lambda>r. case r of
       Inl e \<Rightarrow> ret (Some e, moved)
     | Inr _ \<Rightarrow> backup_each io live backupBase rest (if sfx = [] then True else moved))"

text \<open>Give up with a cause, after restoring.\<close>

definition give_up :: "io \<Rightarrow> string \<Rightarrow> string \<Rightarrow> bool \<Rightarrow> err \<Rightarrow> unit dio" where
  "give_up io live backupBase moved cause =
     andthen (attempt (restoreDatabaseLocked io live backupBase moved)) (\<lambda>r. fail (Join (cause # errs_of r)))"

definition swapDatabaseLocked :: "io \<Rightarrow> string \<Rightarrow> string \<Rightarrow> unit dio" where
  "swapDatabaseLocked io live staged =
     (let backupBase = live @ ''.import-backup'' in
      andthen (attempt (removeDatabaseFiles io backupBase)) (\<lambda>r. case r of Inl e \<Rightarrow> fail (Wrap ''clear import backup: '' e) | Inr _ \<Rightarrow>
      andthen (attempt (closeDB io)) (\<lambda>r. case r of
        Inl e \<Rightarrow> andthen (attempt (openDB io live)) (\<lambda>reopen. fail (Join (Wrap ''close live database: '' e # errs_of reopen)))
      | Inr _ \<Rightarrow>
      andthen (backup_each io live backupBase databaseSidecars False) (\<lambda>(failed, moved). case failed of
        Some e \<Rightarrow> give_up io live backupBase moved (Wrap ''backup live database: '' e)
      | None \<Rightarrow>
      andthen (attempt (os_Rename io staged live)) (\<lambda>r. case r of
        Inl e \<Rightarrow> give_up io live backupBase moved (Wrap ''install imported database: '' e)
      | Inr _ \<Rightarrow>
      andthen (attempt (openDB io live)) (\<lambda>r. case r of
        Inl e \<Rightarrow> give_up io live backupBase True (Wrap ''open imported database: '' e)
      | Inr _ \<Rightarrow>
      andthen (attempt (isConfiguredDB io live)) (\<lambda>r. case r of
        Inl e \<Rightarrow> give_up io live backupBase True e
      | Inr configured \<Rightarrow>
        if \<not> configured then give_up io live backupBase True (Errorf ''imported database is not a configured WireHub hub'')
        else andthen (attempt (removeDatabaseFiles io backupBase)) (\<lambda>r. case r of
            Inl e \<Rightarrow> fail (Wrap ''remove import backup: '' e)
          | Inr _ \<Rightarrow> ret ()))))))))"

section \<open>Validation\<close>

definition sqliteHeader :: string where "sqliteHeader = ''SQLite format 3'' @ [CHR 0x00]"

definition wireHubTables :: "string list" where
  "wireHubTables = [''admins'', ''settings'', ''peer_groups'', ''group_links'', ''peers'', ''dns_records'',
     ''port_forwards'', ''service_relays'', ''relay_group_allows'']"

definition ValidateWireHubDatabase :: "io \<Rightarrow> string \<Rightarrow> unit dio" where
  "ValidateWireHubDatabase io p =
     andthen (attempt (os_Stat io p)) (\<lambda>st. case st of
       Inl e \<Rightarrow> fail (Wrap ''database file: '' e)
     | Inr None \<Rightarrow> fail (Wrap ''database file: '' (Errorf ''no such file''))
     | Inr (Some f) \<Rightarrow>
       if df_size f < 512 then fail (Errorf ''database file is too small'')
       else if df_size f > 128 * 2 ^ 20 then fail (Errorf ''database file exceeds 128MB limit'')
       else andthen (os_Open io p) (\<lambda>f.
         if length (df_head f) < length sqliteHeader then fail (Errorf ''read database header: unexpected EOF'')
         else if take (length sqliteHeader) (df_head f) \<noteq> sqliteHeader then fail (Errorf ''not a SQLite database file'')
         else andthen (attempt (os_call io)) (\<lambda>checked.
           if checked \<noteq> Inr () \<or> df_quick f \<noteq> ''ok'' then fail (Errorf (''SQLite quick_check failed: '' @ df_quick f))
           else (case find (\<lambda>t. t \<notin> set (df_tables f)) wireHubTables of
             Some t \<Rightarrow> fail (Errorf (''missing table '' @ go_quote t))
           | None \<Rightarrow>
             if t_admins (df_rows f) = [] then fail (Errorf ''database has no admin account'')
             else (case t_settings (df_rows f) of
               [] \<Rightarrow> fail (Errorf ''database has no hub settings'')
             | se # _ \<Rightarrow>
               if trim_space (se_Endpoint se) = [] then fail (Errorf ''hub endpoint is not configured in database'')
               else ret ())))))"

section \<open>Import\<close>

definition remove_quietly :: "io \<Rightarrow> string list \<Rightarrow> unit dio" where
  "remove_quietly io ps = for_each ps (\<lambda>p. andthen (attempt (os_Remove io p)) (\<lambda>_. ret ()))"

definition with_sidecars :: "string \<Rightarrow> string list" where
  "with_sidecars p = [p, p @ ''-wal'', p @ ''-shm'']"

definition cleanup_fail :: "io \<Rightarrow> string list \<Rightarrow> err \<Rightarrow> 'a dio" where
  "cleanup_fail io ps e = andthen (remove_quietly io ps) (\<lambda>_. fail e)"

text \<open>Run a step; when it fails, remove these files.\<close>

definition or_cleanup :: "io \<Rightarrow> string list \<Rightarrow> (err \<Rightarrow> err) \<Rightarrow> 'a dio \<Rightarrow> 'a dio" where
  "or_cleanup io ps wrap m = andthen (attempt m) (\<lambda>r. case r of Inl e \<Rightarrow> cleanup_fail io ps (wrap e) | Inr x \<Rightarrow> ret x)"

text \<open>
  The result is the staged file with the files its cleanup removes.  The import source is opened and
  migrated as a private copy, so the upload itself is only read.
\<close>

definition copy_source :: "io \<Rightarrow> string \<Rightarrow> string \<Rightarrow> unit dio" where
  "copy_source io srcPath sourcePath =
     andthen (or_cleanup io (with_sidecars sourcePath) (\<lambda>e. e) (copyFile io srcPath sourcePath)) (\<lambda>_.
     andthen (or_cleanup io (with_sidecars sourcePath) (\<lambda>e. e) (os_call io)) (\<lambda>_.
     andthen (or_cleanup io (with_sidecars sourcePath) (\<lambda>e. e) (copyOptionalFile io (srcPath @ ''-wal'') (sourcePath @ ''-wal''))) (\<lambda>_.
     or_cleanup io (with_sidecars sourcePath) (\<lambda>e. e) (copyOptionalFile io (srcPath @ ''-shm'') (sourcePath @ ''-shm'')))))"

definition build_final :: "io \<Rightarrow> string \<Rightarrow> string \<Rightarrow> string list \<Rightarrow> unit dio" where
  "build_final io sourcePath finalPath everything =
     andthen (or_cleanup io everything (Wrap ''open database: '') (import_open io sourcePath)) (\<lambda>_.
     andthen (or_cleanup io everything (Wrap ''snapshot import: '') (vacuum_into io sourcePath finalPath)) (\<lambda>_.
     andthen (or_cleanup io everything (\<lambda>e. e) (os_call io)) (\<lambda>_.
     or_cleanup io everything (\<lambda>e. e) (ValidateWireHubDatabase io finalPath))))"

definition prepareImportDatabase :: "io \<Rightarrow> string \<Rightarrow> (string \<times> string list) dio" where
  "prepareImportDatabase io srcPath =
     andthen (os_CreateTemp io) (\<lambda>sourcePath.
     andthen (copy_source io srcPath sourcePath) (\<lambda>_.
     andthen (or_cleanup io (with_sidecars sourcePath) (\<lambda>e. e) (os_CreateTemp io)) (\<lambda>finalPath.
     andthen (attempt (os_Remove io finalPath)) (\<lambda>_.
     let everything = with_sidecars sourcePath @ with_sidecars finalPath in
     andthen (build_final io sourcePath finalPath everything) (\<lambda>_. ret (finalPath, everything))))))"

definition ImportDatabase :: "io \<Rightarrow> string \<Rightarrow> string \<Rightarrow> unit dio" where
  "ImportDatabase io live srcPath =
     andthen (prepareImportDatabase io srcPath) (\<lambda>(staged, files).
     andthen (attempt (swapDatabaseLocked io live staged)) (\<lambda>r.
     andthen (remove_quietly io files) (\<lambda>_. lift_res r)))"

section \<open>Export\<close>

text \<open>The result is what was written to the response.\<close>

definition ExportDatabase :: "io \<Rightarrow> string \<Rightarrow> DbFile dio" where
  "ExportDatabase io live =
     andthen (attempt (os_CreateTemp io)) (\<lambda>r. case r of Inl e \<Rightarrow> fail (Wrap ''create snapshot: '' e) | Inr tmpPath \<Rightarrow>
     andthen (attempt (vacuum_into io live tmpPath)) (\<lambda>r. case r of
         Inl e \<Rightarrow> cleanup_fail io [tmpPath] (Wrap ''create SQLite snapshot: '' e)
       | Inr _ \<Rightarrow> andthen (attempt (os_Open io tmpPath)) (\<lambda>r. case r of
           Inl e \<Rightarrow> cleanup_fail io [tmpPath] (Wrap ''open snapshot: '' e)
         | Inr f \<Rightarrow> andthen (attempt (os_call io)) (\<lambda>copied. case copied of
             Inl e \<Rightarrow> cleanup_fail io [tmpPath] (Wrap ''copy database: '' e)
           | Inr _ \<Rightarrow> andthen (remove_quietly io [tmpPath]) (\<lambda>_. ret f)))))"

end
