(* ===== verification/Backup_Props.thy ===== *)
theory Backup_Props
  imports Backup Store_Props
begin

text \<open>
  Importing a database: whatever calls fail, the rows of the live database survive in the live file or
  in the backup file; a single failure before the new database is accepted is undone; what an import
  installs is what the source held, and an exported snapshot imports to the same rows.
\<close>

section \<open>Outcomes of programs on a disk\<close>

definition wp :: "'a dio \<Rightarrow> (err + 'a \<Rightarrow> disk \<Rightarrow> bool) \<Rightarrow> disk \<Rightarrow> bool" where
  "wp m Q s = (case m s of (r, s') \<Rightarrow> Q r s')"

lemma wp_andthen: "wp (andthen m f) Q s = wp m (\<lambda>r s'. case r of Inl e \<Rightarrow> Q (Inl e) s' | Inr x \<Rightarrow> wp (f x) Q s') s"
  by (simp add: wp_def andthen_def split: prod.split sum.split)

lemma wp_attempt: "wp (attempt m) Q s = wp m (\<lambda>r s'. Q (Inr r) s') s"
  by (simp add: wp_def attempt_def split: prod.split)

lemma wp_ret [simp]: "wp (ret x) Q s = Q (Inr x) s"
  and wp_fail [simp]: "wp (fail e) Q s = Q (Inl e) s"
  and wp_lift [simp]: "wp (lift_res r) Q s = Q r s"
  by (simp_all add: wp_def ret_def fail_def lift_res_def)

lemma wp_if: "wp (if b then m else m') Q s = (if b then wp m Q s else wp m' Q s)"
  by simp

lemma wp_mono: "wp m Q s \<Longrightarrow> (\<And>r s'. Q r s' \<Longrightarrow> Q' r s') \<Longrightarrow> wp m Q' s"
  by (auto simp: wp_def split: prod.splits)

lemma wp_run: "wp m Q s \<Longrightarrow> m s = (r, s') \<Longrightarrow> Q r s'"
  by (simp add: wp_def)

lemma wp_attempt_then: "wp (andthen (attempt m) f) Q s = wp m (\<lambda>r s'. wp (f r) Q s') s"
  by (simp add: wp_andthen wp_attempt)

section \<open>Faults\<close>

text \<open>At most one call fails; and no call fails from now on.\<close>

definition one_fault :: "io \<Rightarrow> bool" where
  "one_fault io = (\<exists>k. \<forall>n. n \<noteq> k \<longrightarrow> io_fail io n = None)"

definition clean :: "io \<Rightarrow> disk \<Rightarrow> bool" where
  "clean io s = (\<forall>n \<ge> dk_calls s. io_fail io n = None)"

text \<open>Between two states: later, and clean when the first was, or when a single fault has happened.\<close>

definition after :: "io \<Rightarrow> disk \<Rightarrow> disk \<Rightarrow> bool" where
  "after io s s' = (dk_calls s \<le> dk_calls s')"

lemma clean_after: "clean io s \<Longrightarrow> after io s s' \<Longrightarrow> clean io s'"
  by (simp add: clean_def after_def)

lemma after_trans: "after io s s1 \<Longrightarrow> after io s1 s2 \<Longrightarrow> after io s s2"
  by (simp add: after_def)

lemma fault_clean: "one_fault io \<Longrightarrow> io_fail io n = Some e \<Longrightarrow> n < dk_calls s \<Longrightarrow> clean io s"
  unfolding one_fault_def clean_def by (metis leD option.distinct(1))

text \<open>What an outcome says about faults: none in a clean state, and a clean state after the only one.\<close>

definition faulty :: "io \<Rightarrow> disk \<Rightarrow> bool \<Rightarrow> disk \<Rightarrow> bool" where
  "faulty io s failed s' = (after io s s' \<and> (failed \<longrightarrow> \<not> clean io s) \<and> (failed \<and> one_fault io \<longrightarrow> clean io s'))"

lemma faulty_clean: "faulty io s b s' \<Longrightarrow> clean io s \<Longrightarrow> \<not> b \<and> clean io s'"
  by (auto simp: faulty_def intro: clean_after)

lemma sys_cases:
  assumes "sys io f s = (r, s')"
  obtains (fault) e where "r = Inl e" "dk_files s' = dk_files s" "dk_open s' = dk_open s" "faulty io s True s'"
  | (proceed) "(r, dk_files s') = f (dk_calls s) (dk_files s)" "dk_open s' = dk_open s" "faulty io s False s'"
proof (cases "io_fail io (dk_calls s)")
  case (Some e)
  with assms have r: "r = Inl e" "s' = s\<lparr>dk_calls := Suc (dk_calls s)\<rparr>" by (simp_all add: sys_def Let_def)
  moreover have "faulty io s True s'"
    using Some r fault_clean [of io "dk_calls s" e s'] by (auto simp: faulty_def after_def clean_def)
  ultimately show thesis by (intro fault [of e]) simp_all
next
  case None
  obtain q fs where "f (dk_calls s) (dk_files s) = (q, fs)" by fastforce
  with None assms show thesis by (intro proceed) (auto simp: sys_def Let_def faulty_def after_def)
qed

text \<open>Two steps.\<close>

lemma faulty_seq: "faulty io s a s1 \<Longrightarrow> faulty io s1 b s2 \<Longrightarrow> faulty io s (a \<or> b) s2"
  unfolding faulty_def using after_trans clean_after by blast

lemma faulty_weaken: "faulty io s b s' \<Longrightarrow> faulty io s False s'"
  by (simp add: faulty_def)

section \<open>Removing and moving\<close>

definition same_but :: "string set \<Rightarrow> disk \<Rightarrow> disk \<Rightarrow> bool" where
  "same_but X s s' = ((\<forall>p. p \<notin> X \<longrightarrow> dk_files s' p = dk_files s p) \<and> dk_open s' = dk_open s)"

lemma same_but_trans: "same_but X s s1 \<Longrightarrow> same_but Y s1 s2 \<Longrightarrow> same_but (X \<union> Y) s s2"
  by (simp add: same_but_def)

lemma wp_remove:
  "wp (os_Remove io p) (\<lambda>r s'. same_but {p} s s' \<and> faulty io s (\<not> is_ok r) s' \<and> (is_ok r \<longrightarrow> dk_files s' p = None) \<and>
     (\<not> is_ok r \<longrightarrow> dk_files s' p = dk_files s p)) s"
proof -
  obtain r s' where run: "os_Remove io p s = (r, s')" by fastforce
  then have "same_but {p} s s' \<and> faulty io s (\<not> is_ok r) s' \<and> (is_ok r \<longrightarrow> dk_files s' p = None) \<and>
     (\<not> is_ok r \<longrightarrow> dk_files s' p = dk_files s p)"
    unfolding os_Remove_def by (cases rule: sys_cases) (auto simp: same_but_def)
  with run show ?thesis by (simp add: wp_def)
qed

lemma wp_remove_each:
  "wp (remove_each io base ss) (\<lambda>r s'. same_but ((@) base ` set ss) s s' \<and> (\<exists>errs. r = Inr errs \<and> faulty io s (errs \<noteq> []) s' \<and>
     (errs = [] \<longrightarrow> (\<forall>x \<in> set ss. dk_files s' (base @ x) = None)))) s"
proof (induction ss arbitrary: s)
  case Nil
  show ?case by (simp add: same_but_def faulty_def after_def)
next
  case (Cons x ss)
  show ?case
    unfolding remove_each.simps wp_andthen wp_attempt sum.case
  proof (rule wp_mono [OF wp_remove], rule wp_mono [OF Cons.IH], goal_cases)
    case (1 r s1 q s2)
    then obtain errs where 2: "same_but ((@) base ` set ss) s1 s2" "q = Inr errs" "faulty io s1 (errs \<noteq> []) s2"
      "errs = [] \<longrightarrow> (\<forall>x \<in> set ss. dk_files s2 (base @ x) = None)" by blast
    have "same_but ((@) base ` set (x # ss)) s s2" using same_but_trans [of "{base @ x}" s s1 "(@) base ` set ss" s2] 1 2(1) by simp
    moreover have "faulty io s (\<not> is_ok r \<or> errs \<noteq> []) s2" using faulty_seq 1(1) 2(3) by blast
    moreover have "dk_files s2 (base @ x) = None" if "is_ok r" "errs = []"
      using 1(1) 2(1,4) that by (cases "x \<in> set ss") (auto simp: same_but_def)
    ultimately show ?case using 2(2,4) by (cases r) auto
  qed
qed

lemma wp_removeDatabaseFiles:
  "wp (removeDatabaseFiles io base) (\<lambda>r s'. same_but ((@) base ` set databaseSidecars) s s' \<and> faulty io s (\<not> is_ok r) s' \<and>
     (is_ok r \<longrightarrow> dk_files s' base = None)) s"
  unfolding removeDatabaseFiles_def wp_andthen
  by (rule wp_mono [OF wp_remove_each]) (auto simp: databaseSidecars_def)

lemma wp_stat:
  "wp (os_Stat io p) (\<lambda>r s'. same_but {} s s' \<and> faulty io s (\<not> is_ok r) s' \<and> (\<forall>f. r = Inr f \<longrightarrow> f = dk_files s p)) s"
proof -
  obtain r s' where run: "os_Stat io p s = (r, s')" by fastforce
  then have "same_but {} s s' \<and> faulty io s (\<not> is_ok r) s' \<and> (\<forall>f. r = Inr f \<longrightarrow> f = dk_files s p)"
    unfolding os_Stat_def by (cases rule: sys_cases) (auto simp: same_but_def)
  with run show ?thesis by (simp add: wp_def)
qed

lemma wp_rename:
  assumes "dk_files s p \<noteq> None" "p \<noteq> q"
  shows "wp (os_Rename io p q) (\<lambda>r s'. same_but {p, q} s s' \<and> faulty io s (\<not> is_ok r) s' \<and>
     (is_ok r \<longrightarrow> dk_files s' q = dk_files s p \<and> dk_files s' p = None) \<and>
     (\<not> is_ok r \<longrightarrow> dk_files s' p = dk_files s p \<and> dk_files s' q = dk_files s q)) s"
proof -
  obtain r s' where run: "os_Rename io p q s = (r, s')" by fastforce
  then have "same_but {p, q} s s' \<and> faulty io s (\<not> is_ok r) s' \<and>
     (is_ok r \<longrightarrow> dk_files s' q = dk_files s p \<and> dk_files s' p = None) \<and>
     (\<not> is_ok r \<longrightarrow> dk_files s' p = dk_files s p \<and> dk_files s' q = dk_files s q)"
    unfolding os_Rename_def using assms by (cases rule: sys_cases) (auto simp: same_but_def)
  with run show ?thesis by (simp add: wp_def)
qed

text \<open>A move of a file that may be missing: done, or the source is still there.\<close>

lemma wp_moveOptional:
  assumes "p \<noteq> q"
  shows "wp (moveOptional io p q) (\<lambda>r s'. same_but {p, q} s s' \<and> faulty io s (\<not> is_ok r) s' \<and>
     (is_ok r \<longrightarrow> (if dk_files s p = None then dk_files s' p = None \<and> dk_files s' q = dk_files s q
        else dk_files s' p = None \<and> dk_files s' q = dk_files s p)) \<and>
     (\<not> is_ok r \<longrightarrow> dk_files s' p = dk_files s p \<and> dk_files s' q \<in> {dk_files s q, None})) s"
  unfolding moveOptional_def wp_andthen
proof (rule wp_mono [OF wp_stat], goal_cases)
  case (1 r s1)
  show ?case
  proof (cases r)
    case (Inl e)
    with 1 show ?thesis by (auto simp: same_but_def)
  next
    case (Inr f)
    show ?thesis
    proof (cases "f = None")
      case True
      with 1 Inr show ?thesis by (auto simp: same_but_def)
    next
      case False
      have f: "dk_files s1 p \<noteq> None" "dk_files s p \<noteq> None" using 1 Inr False by (auto simp: same_but_def)
      have "wp (andthen (attempt (os_Remove io q)) (\<lambda>_. os_Rename io p q)) (\<lambda>r s'. same_but {p, q} s s' \<and> faulty io s (\<not> is_ok r) s' \<and>
         (is_ok r \<longrightarrow> (if dk_files s p = None then dk_files s' p = None \<and> dk_files s' q = dk_files s q
            else dk_files s' p = None \<and> dk_files s' q = dk_files s p)) \<and>
         (\<not> is_ok r \<longrightarrow> dk_files s' p = dk_files s p \<and> dk_files s' q \<in> {dk_files s q, None})) s1"
        unfolding wp_andthen wp_attempt sum.case
      proof (rule wp_mono [OF wp_remove], goal_cases)
        case (1 r' s2)
        note rem = 1
        have "dk_files s2 p \<noteq> None" using rem f(1) assms by (auto simp: same_but_def)
        show ?case
        proof (rule wp_mono [OF wp_rename [OF \<open>dk_files s2 p \<noteq> None\<close> assms]], goal_cases)
          case (1 q' s3)
          have "faulty io s False s1" "faulty io s1 False s2" using \<open>same_but {} s s1 \<and> _\<close> rem Inr by (auto intro: faulty_weaken)
          from faulty_seq [OF this] have "faulty io s False s2" by simp
          from faulty_seq [OF this, of "\<not> is_ok q'" s3] have "faulty io s (\<not> is_ok q') s3" using 1 by simp
          then show ?case using 1 rem \<open>same_but {} s s1 \<and> _\<close> f(2) assms by (auto simp: same_but_def)
        qed
      qed
      with Inr False show ?thesis by auto
    qed
  qed
qed

section \<open>Where the rows are\<close>

definition rows_at :: "disk \<Rightarrow> string \<Rightarrow> db option" where
  "rows_at s p = map_option df_rows (dk_files s p)"

text \<open>Opening, migrating and vacuuming keep the rows.\<close>

definition io_ok :: "io \<Rightarrow> bool" where
  "io_ok io = (\<forall>n f. df_rows (io_open io n (Some f)) = df_rows f \<and> df_rows (io_vacuum io n f) = df_rows f)"

lemma rows_same_but: "same_but X s s' \<Longrightarrow> p \<notin> X \<Longrightarrow> rows_at s' p = rows_at s p"
  by (simp add: rows_at_def same_but_def)

lemma wp_openDB:
  assumes "io_ok io"
  shows "wp (openDB io p) (\<lambda>r s'. (\<forall>q. q \<noteq> p \<longrightarrow> dk_files s' q = dk_files s q) \<and> faulty io s (\<not> is_ok r) s' \<and>
     (rows_at s p \<noteq> None \<longrightarrow> rows_at s' p = rows_at s p) \<and> (is_ok r \<longrightarrow> dk_open s')) s"
proof -
  have fault: "\<not> clean io s" if "io_fail io (dk_calls s) = Some e" for e
    using that by (auto simp: clean_def)
  have once: "clean io s'" if "io_fail io (dk_calls s) = Some e" "dk_calls s' = Suc (dk_calls s)" "one_fault io" for e s'
    using that fault_clean [of io "dk_calls s" e s'] by simp
  show ?thesis
  proof (cases "io_fail io (dk_calls s)")
    case None
    then show ?thesis using assms by (auto simp: wp_def openDB_def Let_def rows_at_def io_ok_def faulty_def after_def)
  next
    case (Some e)
    then show ?thesis using assms fault [OF Some] once [OF Some] by (auto simp: wp_def openDB_def Let_def rows_at_def io_ok_def faulty_def after_def)
  qed
qed

lemma wp_closeDB:
  "wp (closeDB io) (\<lambda>r s'. dk_files s' = dk_files s \<and> faulty io s (\<not> is_ok r) s') s"
proof -
  have "wp (os_call io) (\<lambda>r s'. dk_files s' = dk_files s \<and> faulty io s (\<not> is_ok r) s') s"
  proof -
    obtain r s' where run: "os_call io s = (r, s')" by fastforce
    then have "dk_files s' = dk_files s \<and> faulty io s (\<not> is_ok r) s'"
      unfolding os_call_def by (cases rule: sys_cases) auto
    with run show ?thesis by (simp add: wp_def)
  qed
  then show ?thesis unfolding closeDB_def wp_andthen
    by (rule wp_mono) (auto simp: wp_def faulty_def after_def clean_def split: sum.split)
qed

text \<open>The files of the live database and of the backup.\<close>

lemma sidecar_paths:
  assumes "x \<in> set databaseSidecars" "y \<in> set databaseSidecars"
  shows "live @ x \<noteq> (live @ ''.import-backup'') @ y" "live @ x = live \<longleftrightarrow> x = []"
  using assms by (auto simp: databaseSidecars_def)

text \<open>The backup: the main file's rows are in one of the two places, and where \<open>moved\<close> says.\<close>

definition parked :: "string \<Rightarrow> db \<Rightarrow> bool \<Rightarrow> disk \<Rightarrow> bool" where
  "parked live D moved s = (if moved then rows_at s (live @ ''.import-backup'') = Some D \<and> rows_at s live = None else rows_at s live = Some D)"

lemma wp_backup_sidecars:
  assumes "[] \<notin> set ss" "set ss \<subseteq> set databaseSidecars" "parked live D True s"
  shows "wp (backup_each io live (live @ ''.import-backup'') ss True) (\<lambda>r s'. \<exists>failed. r = Inr (failed, True) \<and> parked live D True s' \<and>
     faulty io s (failed \<noteq> None) s' \<and> (\<forall>p. p \<notin> (@) live ` set databaseSidecars \<union> (@) (live @ ''.import-backup'') ` set databaseSidecars \<longrightarrow> dk_files s' p = dk_files s p)) s"
  using assms
proof (induction ss arbitrary: s)
  case Nil
  then show ?case by (simp add: faulty_def after_def)
next
  case (Cons x ss)
  have x: "x \<in> set databaseSidecars" "x \<noteq> []" using Cons.prems by auto
  have ne: "live @ x \<noteq> (live @ ''.import-backup'') @ x" using sidecar_paths(1) [OF x(1) x(1)] .
  show ?case unfolding backup_each.simps wp_andthen wp_attempt sum.case
  proof (rule wp_mono [OF wp_moveOptional [OF ne]], goal_cases)
    case (1 r s1)
    have p: "parked live D True s1"
      using 1 Cons.prems(3) x sidecar_paths(1) [OF _ x(1), of "[]" live] x(1) by (auto simp: parked_def same_but_def rows_at_def databaseSidecars_def)
    have out: "dk_files s1 p = dk_files s p" if "p \<notin> (@) live ` set databaseSidecars \<union> (@) (live @ ''.import-backup'') ` set databaseSidecars" for p
      using 1 that x(1) by (auto simp: same_but_def)
    show ?case
    proof (cases r)
      case (Inl e)
      with 1 p out show ?thesis by simp
    next
      case (Inr u)
      have "faulty io s False s1" using 1 Inr by simp
      from faulty_seq [OF this] have f: "\<And>b s2. faulty io s1 b s2 \<Longrightarrow> faulty io s b s2" by simp
      have "wp (backup_each io live (live @ ''.import-backup'') ss True) (\<lambda>r s'. \<exists>failed. r = Inr (failed, True) \<and> parked live D True s' \<and>
         faulty io s1 (failed \<noteq> None) s' \<and> (\<forall>p. p \<notin> (@) live ` set databaseSidecars \<union> (@) (live @ ''.import-backup'') ` set databaseSidecars \<longrightarrow> dk_files s' p = dk_files s1 p)) s1"
        by (rule Cons.IH) (use Cons.prems p in auto)
      then show ?thesis using Inr by (simp del: Un_iff) (erule wp_mono, use f out in force)
    qed
  qed
qed

abbreviation backup_of :: "string \<Rightarrow> string" where
  "backup_of live \<equiv> live @ ''.import-backup''"

definition db_paths :: "string \<Rightarrow> string set" where
  "db_paths live = (@) live ` set databaseSidecars \<union> (@) (backup_of live) ` set databaseSidecars"

lemma wp_backup:
  assumes "rows_at s live = Some D"
  shows "wp (backup_each io live (backup_of live) databaseSidecars False) (\<lambda>r s'. \<exists>failed moved. r = Inr (failed, moved) \<and>
     parked live D moved s' \<and> (failed = None \<longrightarrow> moved) \<and> faulty io s (failed \<noteq> None) s' \<and>
     (\<forall>p. p \<notin> db_paths live \<longrightarrow> dk_files s' p = dk_files s p)) s"
proof -
  have ne: "live @ [] \<noteq> backup_of live @ []" by simp
  have "wp (backup_each io live (backup_of live) ([] # [''-wal'', ''-shm'']) False) (\<lambda>r s'. \<exists>failed moved. r = Inr (failed, moved) \<and>
     parked live D moved s' \<and> (failed = None \<longrightarrow> moved) \<and> faulty io s (failed \<noteq> None) s' \<and>
     (\<forall>p. p \<notin> db_paths live \<longrightarrow> dk_files s' p = dk_files s p)) s"
    unfolding backup_each.simps(2) [of io live "backup_of live" "[]"] wp_andthen wp_attempt sum.case
  proof (rule wp_mono [OF wp_moveOptional [OF ne]], goal_cases)
    case (1 r s1)
    have out: "dk_files s1 p = dk_files s p" if "p \<notin> db_paths live" for p
      using 1 that by (auto simp: same_but_def db_paths_def databaseSidecars_def)
    have live: "dk_files s live \<noteq> None" using assms by (auto simp: rows_at_def)
    show ?case
    proof (cases r)
      case (Inl e)
      then have "parked live D False s1" using 1 assms by (simp add: parked_def rows_at_def)
      with 1 Inl out show ?thesis by auto
    next
      case (Inr u)
      have "faulty io s False s1" using 1 Inr by simp
      from faulty_seq [OF this] have f: "\<And>b s2. faulty io s1 b s2 \<Longrightarrow> faulty io s b s2" by simp
      have "parked live D True s1" using 1 Inr assms live by (simp add: parked_def rows_at_def)
      from wp_backup_sidecars [OF _ _ this, of "[''-wal'', ''-shm'']" io]
      have "wp (backup_each io live (backup_of live) [''-wal'', ''-shm''] True) (\<lambda>r s'. \<exists>failed. r = Inr (failed, True) \<and> parked live D True s' \<and>
         faulty io s1 (failed \<noteq> None) s' \<and> (\<forall>p. p \<notin> db_paths live \<longrightarrow> dk_files s' p = dk_files s1 p)) s1"
        by (simp add: databaseSidecars_def db_paths_def)
      then show ?thesis using Inr by (simp del: backup_each.simps) (erule wp_mono, use f out in force)
    qed
  qed
  then show ?thesis by (simp add: databaseSidecars_def)
qed

lemma wp_move_each:
  assumes "\<And>x y. x \<in> set ss \<Longrightarrow> src @ x \<noteq> dst @ x"
  shows "wp (move_each io src dst ss) (\<lambda>r s'. (\<exists>errs. r = Inr errs \<and> faulty io s (errs \<noteq> []) s') \<and>
     (\<forall>p. p \<notin> (@) src ` set ss \<union> (@) dst ` set ss \<longrightarrow> dk_files s' p = dk_files s p)) s"
  using assms
proof (induction ss arbitrary: s)
  case Nil
  show ?case by (simp add: faulty_def after_def)
next
  case (Cons x ss)
  have ne: "src @ x \<noteq> dst @ x" using Cons.prems [of x] by simp
  show ?case unfolding move_each.simps wp_andthen wp_attempt sum.case
  proof (rule wp_mono [OF wp_moveOptional [OF ne]], goal_cases)
    case (1 r s1)
    show ?case
    proof (rule wp_mono [OF Cons.IH], goal_cases)
      case (1 y) then show ?case using Cons.prems [of y] by simp
    next
      case (2 q s2)
      then obtain errs where q: "q = Inr errs" "faulty io s1 (errs \<noteq> []) s2" by blast
      have "faulty io s (\<not> is_ok r \<or> errs \<noteq> []) s2" using faulty_seq [OF _ q(2)] 1 by blast
      moreover have "dk_files s2 p = dk_files s p" if "p \<notin> (@) src ` set (x # ss) \<union> (@) dst ` set (x # ss)" for p
        using 1 2 that by (auto simp: same_but_def)
      ultimately show ?case using q(1) by (cases r) auto
    qed
  qed
qed

text \<open>Restoring.  What it needs, and what it achieves.\<close>

definition restorable :: "string \<Rightarrow> db \<Rightarrow> bool \<Rightarrow> disk \<Rightarrow> bool" where
  "restorable live D moved s = (if moved then rows_at s (backup_of live) = Some D else rows_at s live = Some D)"

definition safe :: "string \<Rightarrow> db \<Rightarrow> disk \<Rightarrow> bool" where
  "safe live D s = (rows_at s live = Some D \<or> rows_at s (backup_of live) = Some D)"

lemma wp_move_back:
  assumes "rows_at s (backup_of live) = Some D"
  shows "wp (move_each io (backup_of live) live databaseSidecars) (\<lambda>r s'. \<exists>errs. r = Inr errs \<and> faulty io s (errs \<noteq> []) s' \<and>
     safe live D s' \<and> (clean io s \<longrightarrow> rows_at s' live = Some D)) s"
proof -
  have ne: "backup_of live @ [] \<noteq> live @ []" by simp
  have rest: "backup_of live @ x \<noteq> live @ x" for x by simp
  have "wp (move_each io (backup_of live) live ([] # [''-wal'', ''-shm''])) (\<lambda>r s'. \<exists>errs. r = Inr errs \<and> faulty io s (errs \<noteq> []) s' \<and>
     safe live D s' \<and> (clean io s \<longrightarrow> rows_at s' live = Some D)) s"
    unfolding move_each.simps(2) [of io "backup_of live" live "[]"] wp_andthen wp_attempt sum.case
  proof (rule wp_mono [OF wp_moveOptional [OF ne]], goal_cases)
    case (1 r s1)
    have b: "dk_files s (backup_of live) \<noteq> None" using assms by (auto simp: rows_at_def)
    have s1: "rows_at s1 live = Some D \<or> \<not> is_ok r \<and> rows_at s1 (backup_of live) = Some D"
      using 1 b assms by (cases "is_ok r") (simp_all add: rows_at_def)
    have f: "faulty io s (\<not> is_ok r) s1" using 1 by blast
    show ?case
    proof (rule wp_mono [OF wp_move_each [OF rest]], goal_cases)
      case (1 q s2)
      then obtain errs where q: "q = Inr errs" "faulty io s1 (errs \<noteq> []) s2" by blast
      have same: "rows_at s2 live = rows_at s1 live" "rows_at s2 (backup_of live) = rows_at s1 (backup_of live)"
        using 1 by (auto simp: rows_at_def)
      have "faulty io s (\<not> is_ok r \<or> errs \<noteq> []) s2" by (rule faulty_seq [OF f q(2)])
      moreover have "safe live D s2" using s1 same by (auto simp: safe_def)
      moreover have "rows_at s2 live = Some D" if "clean io s" using s1 same faulty_clean [OF f that] by auto
      ultimately show ?case using q(1) by (cases r) auto
    qed
  qed
  then show ?thesis by (simp add: databaseSidecars_def)
qed

definition restored :: "string \<Rightarrow> db \<Rightarrow> disk \<Rightarrow> bool" where
  "restored live D s = (rows_at s live = Some D \<and> dk_open s)"

lemma safe_open:
  assumes "io_ok io" "safe live D s"
  shows "wp (openDB io live) (\<lambda>r s'. safe live D s' \<and> faulty io s (\<not> is_ok r) s' \<and> (is_ok r \<longrightarrow> dk_open s') \<and>
     (rows_at s live \<noteq> None \<longrightarrow> rows_at s' live = rows_at s live)) s"
  by (rule wp_mono [OF wp_openDB [OF assms(1)]]) (use assms(2) in \<open>auto simp: safe_def rows_at_def\<close>)

text \<open>Once the handle is closed.\<close>

lemma wp_restore_files:
  assumes "restorable live D moved s"
  shows "wp (if moved then andthen (attempt (removeDatabaseFiles io live)) (\<lambda>removed.
         andthen (move_each io (backup_of live) live databaseSidecars) (\<lambda>errs. ret (errs_of removed @ errs)))
       else ret []) (\<lambda>r s'. \<exists>errs. r = Inr errs \<and> faulty io s (errs \<noteq> []) s' \<and> safe live D s' \<and>
     (clean io s \<longrightarrow> rows_at s' live = Some D)) s"
proof (cases moved)
  case True
  have b: "rows_at s (backup_of live) = Some D" using assms True by (simp add: restorable_def)
  have n: "backup_of live \<notin> (@) live ` set databaseSidecars" using sidecar_paths(1) [of _ "[]" live] by (auto simp: databaseSidecars_def)
  show ?thesis unfolding if_P [OF True] wp_andthen wp_attempt sum.case
  proof (rule wp_mono [OF wp_removeDatabaseFiles], goal_cases)
    case (1 r s1)
    have f: "faulty io s (\<not> is_ok r) s1" using 1 by blast
    have "rows_at s1 (backup_of live) = Some D" using 1 b n by (simp add: same_but_def rows_at_def)
    then show ?case
    proof (rule wp_mono [OF wp_move_back], goal_cases)
      case (1 q s2)
      then obtain errs where q: "q = Inr errs" "faulty io s1 (errs \<noteq> []) s2" "safe live D s2" "clean io s1 \<longrightarrow> rows_at s2 live = Some D"
        by blast
      have "faulty io s (\<not> is_ok r \<or> errs \<noteq> []) s2" by (rule faulty_seq [OF f q(2)])
      moreover have "rows_at s2 live = Some D" if "clean io s" using q(4) faulty_clean [OF f that] by blast
      ultimately show ?case using q(1,3) by (cases r) (auto simp: errs_of_def)
    qed
  qed
qed (use assms in \<open>auto simp: restorable_def safe_def faulty_def after_def\<close>)

lemma wp_restore:
  assumes io: "io_ok io" and pre: "restorable live D moved s"
  shows "wp (restoreDatabaseLocked io live (backup_of live) moved) (\<lambda>r s'. safe live D s' \<and> after io s s' \<and>
     (clean io s \<longrightarrow> r = Inr () \<and> restored live D s')) s"
  unfolding restoreDatabaseLocked_def wp_andthen wp_attempt sum.case Let_def
proof (rule wp_mono [OF wp_closeDB], goal_cases)
  case (1 closed s1)
  have f1: "faulty io s (\<not> is_ok closed) s1" and r1: "restorable live D moved s1"
    using 1 pre by (auto simp: restorable_def rows_at_def)
  show ?case
  proof (rule wp_mono [OF wp_restore_files [OF r1]], goal_cases)
    case (1 q s2)
    then obtain errs where q: "q = Inr errs" "faulty io s1 (errs \<noteq> []) s2" "safe live D s2" "clean io s1 \<longrightarrow> rows_at s2 live = Some D"
      by blast
    show ?case unfolding q(1) sum.case
    proof (rule wp_mono [OF safe_open [OF io q(3)]], goal_cases)
      case (1 opened s3)
      have "faulty io s (\<not> is_ok closed \<or> errs \<noteq> []) s2" by (rule faulty_seq [OF f1 q(2)])
      note f3 = faulty_seq [OF this, of "\<not> is_ok opened" s3]
      have f: "faulty io s ((\<not> is_ok closed \<or> errs \<noteq> []) \<or> \<not> is_ok opened) s3" using 1 f3 by blast
      show ?case
      proof (cases "clean io s")
        case True
        have "is_ok closed" "errs = []" "is_ok opened" using faulty_clean [OF f True] by auto
        moreover have "rows_at s2 live = Some D" using q(4) faulty_clean [OF f1 True] by blast
        ultimately show ?thesis using 1 f by (cases closed; cases opened) (auto simp: errs_of_def restored_def faulty_def)
      next
        case False
        with 1 f show ?thesis by (auto simp: faulty_def wp_if)
      qed
    qed
  qed
qed

lemma wp_give_up:
  assumes io: "io_ok io" and pre: "restorable live D moved s"
  shows "wp (give_up io live (backup_of live) moved cause) (\<lambda>r s'. \<not> is_ok r \<and> safe live D s' \<and> (clean io s \<longrightarrow> restored live D s')) s"
  unfolding give_up_def wp_andthen wp_attempt sum.case
  by (rule wp_mono [OF wp_restore [OF io pre]]) simp

section \<open>The swap\<close>

definition swapped :: "io \<Rightarrow> string \<Rightarrow> db \<Rightarrow> db \<Rightarrow> bool \<Rightarrow> disk \<Rightarrow> bool" where
  "swapped io live D E ok s = (if ok then rows_at s live = Some E \<and> dk_open s \<and> rows_configured E \<and> dk_files s (backup_of live) = None
     else (safe live D s \<or> rows_at s live = Some E \<and> dk_open s) \<and>
       (one_fault io \<and> rows_configured E \<longrightarrow> restored live D s \<or> rows_at s live = Some E \<and> dk_open s))"

lemma give_up_swapped:
  assumes "io_ok io" and "restorable live D moved s" and "one_fault io \<and> rows_configured E \<longrightarrow> clean io s"
  shows "wp (give_up io live (backup_of live) moved cause) (\<lambda>r s'. swapped io live D E (is_ok r) s') s"
  by (rule wp_mono [OF wp_give_up [OF assms(1,2)]]) (use assms(3) in \<open>auto simp: swapped_def\<close>)

text \<open>The last steps, with the backup in place: the new file is live, then opened, then accepted.\<close>

lemma wp_accept:
  assumes "rows_at s live = Some E" "dk_open s" "rows_configured E"
  shows "wp (andthen (attempt (removeDatabaseFiles io (backup_of live))) (\<lambda>r. case r of
       Inl e \<Rightarrow> fail (Wrap ''remove import backup: '' e) | Inr _ \<Rightarrow> ret ())) (\<lambda>r s'. swapped io live D E (is_ok r) s') s"
  unfolding wp_andthen wp_attempt sum.case
proof (rule wp_mono [OF wp_removeDatabaseFiles], goal_cases)
  case (1 r s1)
  have "live \<notin> (@) (backup_of live) ` set databaseSidecars" using sidecar_paths(1) [of "[]" _ live] by (auto simp: databaseSidecars_def)
  then have "rows_at s1 live = Some E" "dk_open s1" using 1 assms by (auto simp: same_but_def rows_at_def)
  with 1 assms(3) show ?case by (cases r) (auto simp: swapped_def)
qed

lemma wp_opened:
  assumes io: "io_ok io" and s: "rows_at s live = Some E" "rows_at s (backup_of live) = Some D" "dk_open s"
  shows "wp (andthen (attempt (isConfiguredDB io live)) (\<lambda>r. case r of
        Inl e \<Rightarrow> give_up io live (backup_of live) True e
      | Inr configured \<Rightarrow>
        if \<not> configured then give_up io live (backup_of live) True (Errorf ''imported database is not a configured WireHub hub'')
        else andthen (attempt (removeDatabaseFiles io (backup_of live))) (\<lambda>r. case r of
            Inl e \<Rightarrow> fail (Wrap ''remove import backup: '' e) | Inr _ \<Rightarrow> ret ()))) (\<lambda>r s'. swapped io live D E (is_ok r) s') s"
proof -
  have "wp (isConfiguredDB io live) (\<lambda>r s'. dk_files s' = dk_files s \<and> dk_open s' = dk_open s \<and> faulty io s (\<not> is_ok r) s' \<and>
      (\<forall>b. r = Inr b \<longrightarrow> b = rows_configured E)) s"
  proof -
    obtain f where f: "dk_files s live = Some f" "df_rows f = E" using s(1) by (auto simp: rows_at_def)
    obtain r s' where run: "os_Open io live s = (r, s')" by fastforce
    then have "dk_files s' = dk_files s \<and> dk_open s' = dk_open s \<and> faulty io s (\<not> is_ok r) s' \<and> (is_ok r \<longrightarrow> r = Inr f)"
      unfolding os_Open_def using f by (cases rule: sys_cases) auto
    with run f(2) show ?thesis by (cases r) (auto simp: isConfiguredDB_def wp_def andthen_def ret_def)
  qed
  then show ?thesis unfolding wp_andthen wp_attempt sum.case
  proof (rule wp_mono, goal_cases)
    case (1 r s1)
    have s1: "rows_at s1 live = Some E" "restorable live D True s1" "dk_open s1"
      using 1 s by (auto simp: rows_at_def restorable_def)
    show ?case
    proof (cases r)
      case (Inl e)
      have "one_fault io \<and> rows_configured E \<longrightarrow> clean io s1" using 1 Inl by (simp add: faulty_def)
      from give_up_swapped [OF io s1(2) this] Inl show ?thesis by simp
    next
      case (Inr b)
      with 1 have b: "b = rows_configured E" by blast
      show ?thesis
      proof (cases b)
        case True
        with b have c: "rows_configured E" by simp
        show ?thesis unfolding Inr sum.case using True wp_accept [OF s1(1,3) c, of io D]
          by (simp only: not_True_eq_False if_False)
      next
        case False
        from give_up_swapped [OF io s1(2), of E] False b Inr show ?thesis by simp
      qed
    qed
  qed
qed

lemma wp_install:
  assumes io: "io_ok io" and s: "parked live D True s" "rows_at s staged = Some E" and st: "staged \<notin> db_paths live"
  shows "wp (andthen (attempt (os_Rename io staged live)) (\<lambda>r. case r of
        Inl e \<Rightarrow> give_up io live (backup_of live) True (Wrap ''install imported database: '' e)
      | Inr _ \<Rightarrow>
      andthen (attempt (openDB io live)) (\<lambda>r. case r of
        Inl e \<Rightarrow> give_up io live (backup_of live) True (Wrap ''open imported database: '' e)
      | Inr _ \<Rightarrow>
      andthen (attempt (isConfiguredDB io live)) (\<lambda>r. case r of
        Inl e \<Rightarrow> give_up io live (backup_of live) True e
      | Inr configured \<Rightarrow>
        if \<not> configured then give_up io live (backup_of live) True (Errorf ''imported database is not a configured WireHub hub'')
        else andthen (attempt (removeDatabaseFiles io (backup_of live))) (\<lambda>r. case r of
            Inl e \<Rightarrow> fail (Wrap ''remove import backup: '' e) | Inr _ \<Rightarrow> ret ())))))
    (\<lambda>r s'. swapped io live D E (is_ok r) s') s"
proof -
  have ne: "staged \<noteq> live" "staged \<noteq> backup_of live" using st by (auto simp: db_paths_def databaseSidecars_def)
  have here: "dk_files s staged \<noteq> None" using s(2) by (auto simp: rows_at_def)
  have bak: "rows_at s (backup_of live) = Some D" using s(1) by (simp add: parked_def)
  show ?thesis
    unfolding wp_andthen [of "attempt (os_Rename io staged live)"] wp_attempt sum.case
  proof (rule wp_mono [OF wp_rename [OF here ne(1)]], goal_cases)
    case (1 r s1)
    have b1: "restorable live D True s1" "rows_at s1 (backup_of live) = Some D"
      using 1 bak ne(2) by (auto simp: restorable_def rows_at_def same_but_def)
    show ?case
    proof (cases r)
      case (Inl e)
      have "one_fault io \<and> rows_configured E \<longrightarrow> clean io s1" using 1 Inl by (simp add: faulty_def)
      from give_up_swapped [OF io b1(1) this] Inl show ?thesis by simp
    next
      case (Inr u)
      have l1: "rows_at s1 live = Some E" using 1 Inr s(2) by (simp add: rows_at_def)
      show ?thesis unfolding Inr sum.case wp_andthen [of "attempt (openDB io live)"] wp_attempt
      proof (rule wp_mono [OF wp_openDB [OF io]], goal_cases)
        case (1 q s2)
        have b2: "restorable live D True s2" "rows_at s2 (backup_of live) = Some D" "rows_at s2 live = Some E"
          using 1 b1 l1 by (auto simp: restorable_def rows_at_def)
        show ?case
        proof (cases q)
          case (Inl e)
          have "one_fault io \<and> rows_configured E \<longrightarrow> clean io s2" using 1 Inl by (simp add: faulty_def)
          from give_up_swapped [OF io b2(1) this] Inl show ?thesis by simp
        next
          case (Inr u)
          with 1 have "dk_open s2" by simp
          from wp_opened [OF io b2(3,2) this] Inr show ?thesis by simp
        qed
      qed
    qed
  qed
qed

lemma wp_swap:
  assumes io: "io_ok io" and s: "rows_at s live = Some D" "dk_open s" "rows_at s staged = Some E" and st: "staged \<notin> db_paths live"
  shows "wp (swapDatabaseLocked io live staged) (\<lambda>r s'. swapped io live D E (is_ok r) s') s"
  unfolding swapDatabaseLocked_def Let_def wp_andthen [of "attempt (removeDatabaseFiles io (backup_of live))"] wp_attempt sum.case
proof (rule wp_mono [OF wp_removeDatabaseFiles], goal_cases)
  case (1 r s1)
  have "live \<notin> (@) (backup_of live) ` set databaseSidecars" using sidecar_paths(1) [of "[]" _ live] by (auto simp: databaseSidecars_def)
  then have s1: "rows_at s1 live = Some D" "dk_open s1" using 1 s by (auto simp: same_but_def rows_at_def)
  have "staged \<notin> (@) (backup_of live) ` set databaseSidecars" using st by (auto simp: db_paths_def)
  then have e1: "rows_at s1 staged = Some E" using 1 s by (auto simp: same_but_def rows_at_def)
  show ?case
  proof (cases r)
    case (Inl e)
    with s1 show ?thesis by (auto simp: swapped_def safe_def restored_def)
  next
    case (Inr u)
    show ?thesis unfolding Inr sum.case wp_andthen [of "attempt (closeDB io)"] wp_attempt
    proof (rule wp_mono [OF wp_closeDB], goal_cases)
      case (1 q s2)
      have s2: "rows_at s2 live = Some D" "rows_at s2 staged = Some E" using 1 s1 e1 by (auto simp: rows_at_def)
      show ?case
      proof (cases q)
        case (Inl e)
        have c: "one_fault io \<longrightarrow> clean io s2" using 1 Inl by (simp add: faulty_def)
        have sf: "safe live D s2" using s2 by (simp add: safe_def)
        show ?thesis unfolding Inl sum.case wp_andthen wp_attempt
        proof (rule wp_mono [OF safe_open [OF io sf]], goal_cases)
          case (1 q' s3)
          then show ?case using c s2 faulty_clean [of io s2 "\<not> is_ok q'" s3] by (auto simp: swapped_def restored_def)
        qed
      next
        case (Inr u)
        show ?thesis unfolding Inr sum.case wp_andthen [of "backup_each io live (backup_of live) databaseSidecars False"]
        proof (rule wp_mono [OF wp_backup [OF s2(1)]], goal_cases)
          case (1 q' s3)
          then obtain failed moved where q': "q' = Inr (failed, moved)" and p: "parked live D moved s3" and f: "failed = None \<longrightarrow> moved"
            and c: "faulty io s2 (failed \<noteq> None) s3" and o: "\<forall>p. p \<notin> db_paths live \<longrightarrow> dk_files s3 p = dk_files s2 p" by blast
          have r3: "restorable live D moved s3" using p by (auto simp: parked_def restorable_def)
          have e3: "rows_at s3 staged = Some E" using o st s2(2) by (simp add: rows_at_def)
          show ?case
          proof (cases failed)
            case (Some e)
            have "one_fault io \<and> rows_configured E \<longrightarrow> clean io s3" using c Some by (simp add: faulty_def)
            from give_up_swapped [OF io r3 this] Some q' show ?thesis by simp
          next
            case None
            with f p have p': "parked live D True s3" by simp
            from wp_install [OF io p' e3 st] None f q' show ?thesis by simp
          qed
        qed
      qed
    qed
  qed
qed


text \<open>
  A single failing call never leaves the store without its database: the swap has either taken effect
  or been undone, and the store is open on it.
\<close>
theorem swap_restores:
  assumes "io_ok io" and "rows_at s live = Some D" and "dk_open s" and "rows_at s staged = Some E" and "staged \<notin> db_paths live"
    and "one_fault io" and "rows_configured E"
    and "swapDatabaseLocked io live staged s = (r, s')"
  shows "dk_open s' \<and> (rows_at s' live = Some E \<or> \<not> is_ok r \<and> rows_at s' live = Some D)"
  using wp_run [OF wp_swap [OF assms(1-5)] assms(8)] assms(6,7) by (cases "is_ok r") (auto simp: swapped_def restored_def)

section \<open>Import and export\<close>

definition wps :: "'a dio \<Rightarrow> ('a \<Rightarrow> disk \<Rightarrow> bool) \<Rightarrow> disk \<Rightarrow> bool" where
  "wps m Q s = (case m s of (Inr x, s') \<Rightarrow> Q x s' | _ \<Rightarrow> True)"

lemma wps_andthen: "wps (andthen m f) Q s = wps m (\<lambda>x. wps (f x) Q) s"
  by (simp add: wps_def andthen_def split: prod.split sum.split)

lemma wps_ret [simp]: "wps (ret x) Q s = Q x s" and wps_fail [simp]: "wps (fail e) Q s"
  by (simp_all add: wps_def ret_def fail_def)

lemma wps_attempt: "wps (attempt m) Q s = (case m s of (r, s') \<Rightarrow> Q r s')"
  by (simp add: wps_def attempt_def split: prod.split)

lemma wps_mono: "wps m Q s \<Longrightarrow> (\<And>x s'. Q x s' \<Longrightarrow> Q' x s') \<Longrightarrow> wps m Q' s"
  by (auto simp: wps_def split: prod.splits sum.splits)

lemma wps_run: "wps m Q s \<Longrightarrow> m s = (Inr x, s') \<Longrightarrow> Q x s'"
  by (simp add: wps_def)

lemma wps_attempt_then: "wps (andthen (attempt m) f) Q s = (case m s of (r, s') \<Rightarrow> wps (f r) Q s')"
  by (simp add: wps_andthen wps_attempt)

lemma wps_or_cleanup: "wps (or_cleanup io ps w m) Q s = wps m Q s"
proof -
  have "wps (cleanup_fail io ps e) Q s'" for e s'
    unfolding cleanup_fail_def wps_andthen wps_fail by (simp add: wps_def fail_def split: prod.split sum.split)
  then have "wps (or_cleanup io ps w m) Q s = (case m s of (r, s') \<Rightarrow> wps (case r of Inl e \<Rightarrow> cleanup_fail io ps (w e) | Inr x \<Rightarrow> ret x) Q s')"
    unfolding or_cleanup_def by (simp add: wps_attempt_then)
  also have "\<dots> = wps m Q s"
    using \<open>\<And>s' e. wps (cleanup_fail io ps e) Q s'\<close> by (simp add: wps_def [of m] split: prod.split sum.split)
  finally show ?thesis .
qed

lemma wps_sys: "(\<And>r fs. f (dk_calls s) (dk_files s) = (Inr r, fs) \<Longrightarrow> Q r (s\<lparr>dk_calls := Suc (dk_calls s), dk_files := fs\<rparr>)) \<Longrightarrow> wps (sys io f) Q s"
  by (auto simp: wps_def sys_def Let_def split: prod.splits option.splits sum.splits)

lemma os_call_files: "os_call io s1 = (r, s2) \<Longrightarrow> dk_files s2 = dk_files s1 \<and> dk_open s2 = dk_open s1"
  unfolding os_call_def by (erule sys_cases) auto

lemma wps_write_out: "wps (write_out io dst f) (\<lambda>_ s'. same_but {dst} s s' \<and> dk_files s' dst = Some f) s"
proof -
  obtain c s1 where 1: "sys io (\<lambda>n fs. (Inr () :: err + unit, fs(dst := Some f))) s = (c, s1)" by fastforce
  show ?thesis
  proof (cases c)
    case (Inl e)
    then show ?thesis
      by (simp add: write_out_def wps_attempt_then 1 wps_def andthen_def attempt_def fail_def split: prod.split)
  next
    case (Inr u)
    obtain a s2 where 2: "os_call io s1 = (a, s2)" by fastforce
    obtain b s3 where 3: "os_call io s2 = (b, s3)" by fastforce
    have "same_but {dst} s s3 \<and> dk_files s3 dst = Some f"
      using 1 Inr os_call_files [OF 2] os_call_files [OF 3] by (auto elim!: sys_cases simp: same_but_def)
    then show ?thesis using Inr 2 3
      by (simp add: write_out_def wps_attempt_then 1 wps_def andthen_def attempt_def ret_def fail_def split: sum.split)
  qed
qed

lemma wps_copyFile:
  "wps (copyFile io src dst) (\<lambda>_ s'. same_but {dst} s s' \<and> dk_files s src \<noteq> None \<and> dk_files s' dst = dk_files s src) s"
  unfolding copyFile_def wps_andthen os_Open_def
proof (rule wps_sys, goal_cases)
  case (1 f fs)
  then have f: "dk_files s src = Some f" "fs = dk_files s" by (auto split: option.splits)
  show ?case
  proof (rule wps_sys, goal_cases)
    case (1 u gs)
    show ?case by (rule wps_mono [OF wps_write_out]) (use 1 f in \<open>auto simp: same_but_def\<close>)
  qed
qed

text \<open>\<^verbatim>\<open>CreateTemp\<close> finds names that are not in use: not the database's, not the upload's, not each other's.\<close>

definition temps_ok :: "io \<Rightarrow> string \<Rightarrow> string \<Rightarrow> bool" where
  "temps_ok io live src = (\<forall>n. set (with_sidecars (io_temp io n)) \<inter> (db_paths live \<union> set (with_sidecars src)) = {} \<and>
     (\<forall>m. n \<noteq> m \<longrightarrow> set (with_sidecars (io_temp io n)) \<inter> set (with_sidecars (io_temp io m)) = {}))"

lemma wps_CreateTemp:
  "wps (os_CreateTemp io) (\<lambda>p s'. p = io_temp io (dk_calls s) \<and> same_but {p} s s' \<and> dk_calls s' = Suc (dk_calls s)) s"
  unfolding os_CreateTemp_def by (rule wps_sys) (auto simp: same_but_def)

lemma wps_os_call: "wps (os_call io) (\<lambda>_ s'. same_but {} s s' \<and> dk_calls s' = Suc (dk_calls s)) s"
  unfolding os_call_def by (rule wps_sys) (auto simp: same_but_def)

lemma wps_copyOptional:
  "wps (copyOptionalFile io src dst) (\<lambda>_ s'. same_but {dst} s s') s"
  unfolding copyOptionalFile_def wps_attempt_then
proof (cases "os_Stat io src s")
  case (Pair r s1)
  have 1: "same_but {} s s1" using wp_run [OF wp_stat Pair] by blast
  have "wps (copyFile io src dst) (\<lambda>_ s'. same_but {dst} s s') s1"
    by (rule wps_mono [OF wps_copyFile]) (use 1 in \<open>auto simp: same_but_def\<close>)
  with 1 show "case os_Stat io src s of (r, s') \<Rightarrow> wps (if r = Inr None then ret () else copyFile io src dst) (\<lambda>_ s'. same_but {dst} s s') s'"
    by (auto simp: Pair same_but_def)
qed

lemma wps_import_open:
  assumes "io_ok io" "rows_at s p = Some E"
  shows "wps (import_open io p) (\<lambda>_ s'. same_but {p} s s' \<and> rows_at s' p = Some E) s"
  using assms by (auto simp: wps_def import_open_def Let_def same_but_def rows_at_def io_ok_def split: option.splits)

lemma wps_vacuum:
  assumes "io_ok io" "rows_at s p = Some E" "p \<noteq> q"
  shows "wps (vacuum_into io p q) (\<lambda>_ s'. same_but {q} s s' \<and> rows_at s' q = Some E) s"
  unfolding vacuum_into_def
  by (rule wps_sys) (use assms in \<open>auto simp: same_but_def rows_at_def io_ok_def split: option.splits\<close>)

lemma validate_reads: "ValidateWireHubDatabase io p s = (r, s') \<Longrightarrow> dk_files s' = dk_files s \<and> dk_open s' = dk_open s"
proof -
  have stat: "os_Stat io p s1 = (q, s2) \<Longrightarrow> dk_files s2 = dk_files s1 \<and> dk_open s2 = dk_open s1" for s1 q s2
    unfolding os_Stat_def by (erule sys_cases) auto
  have opn: "os_Open io p s1 = (q, s2) \<Longrightarrow> dk_files s2 = dk_files s1 \<and> dk_open s2 = dk_open s1" for s1 q s2
    unfolding os_Open_def by (erule sys_cases) (auto split: option.splits)
  assume "ValidateWireHubDatabase io p s = (r, s')"
  then show ?thesis
    by (auto simp: ValidateWireHubDatabase_def andthen_def attempt_def ret_def fail_def dest!: stat opn os_call_files
        split: prod.splits sum.splits option.splits if_splits list.splits)
qed

text \<open>Calls are only ever added.\<close>

definition counts :: "'a dio \<Rightarrow> bool" where
  "counts m = (\<forall>s r s'. m s = (r, s') \<longrightarrow> dk_calls s \<le> dk_calls s')"

lemma counts_sys: "counts (sys io g)"
  unfolding counts_def by (auto elim!: sys_cases simp: faulty_def after_def)

lemma counts_calls: "counts (os_call io)" "counts (os_Stat io p)" "counts (os_Open io p)" "counts (os_Remove io p)" "counts (os_CreateTemp io)"
  by (simp_all add: os_call_def os_Stat_def os_Open_def os_Remove_def os_CreateTemp_def counts_sys)

lemma counts_ret: "counts (ret x)" "counts (fail e)"
  by (simp_all add: counts_def ret_def fail_def)

lemma counts_attempt: "counts m \<Longrightarrow> counts (attempt m)"
  by (auto simp: counts_def attempt_def split: prod.splits)

lemma counts_andthen: "counts m \<Longrightarrow> (\<And>x. counts (f x)) \<Longrightarrow> counts (andthen m f)"
  unfolding counts_def by (fastforce simp: andthen_def split: prod.splits sum.splits)

lemmas counts_intros = counts_sys counts_calls counts_ret counts_attempt counts_andthen

lemma counts_copy: "counts (copyFile io src dst)" "counts (copyOptionalFile io src dst)"
proof -
  have "counts (write_out io dst f)" for f
  proof -
    have c: "counts (andthen (attempt (os_call io)) (\<lambda>synced. andthen (attempt (os_call io)) (\<lambda>closed.
       let errs = concat (map (\<lambda>r. case r of Inl e \<Rightarrow> [e] | Inr _ \<Rightarrow> []) [copied, synced, closed]) in
       if errs = [] then ret () else fail (Join errs))))" for copied :: "err + unit"
      by (intro counts_intros) (simp add: Let_def counts_intros)
    then have "counts (\<lambda>s. let s = (if is_ok copied then s else s\<lparr>dk_files := (dk_files s)(dst := Some (io_partial io (dk_calls s) f))\<rparr>) in
       andthen (attempt (os_call io)) (\<lambda>synced. andthen (attempt (os_call io)) (\<lambda>closed.
       let errs = concat (map (\<lambda>r. case r of Inl e \<Rightarrow> [e] | Inr _ \<Rightarrow> []) [copied, synced, closed]) in
       if errs = [] then ret () else fail (Join errs))) s)" for copied :: "err + unit"
      unfolding counts_def Let_def using c [of copied] by (fastforce simp: counts_def Let_def split: if_splits)
    then show ?thesis unfolding write_out_def by (intro counts_intros)
  qed
  then show c: "counts (copyFile io src dst)" unfolding copyFile_def by (intro counts_intros)
  show "counts (copyOptionalFile io src dst)" unfolding copyOptionalFile_def by (intro counts_intros) (simp add: counts_intros c)
qed

lemma wps_counts: "wps m Q s \<Longrightarrow> counts m \<Longrightarrow> wps m (\<lambda>x s'. Q x s' \<and> dk_calls s \<le> dk_calls s') s"
  by (auto simp: wps_def counts_def split: prod.splits sum.splits)

lemma wps_copy_source:
  assumes "dk_files s src = dk_files s0 src"
  shows "wps (copy_source io src t) (\<lambda>_ s'. same_but (set (with_sidecars t)) s s' \<and> dk_calls s \<le> dk_calls s' \<and> rows_at s0 src \<noteq> None \<and>
     rows_at s' t = rows_at s0 src) s"
  unfolding copy_source_def wps_andthen wps_or_cleanup
proof (rule wps_mono [OF wps_counts [OF wps_copyFile counts_copy(1)]], goal_cases)
  case (1 u s1)
  have ne: "t @ ''-wal'' \<noteq> t" "t @ ''-shm'' \<noteq> t" by simp_all
  have s1: "same_but (set (with_sidecars t)) s s1" "rows_at s1 t = rows_at s0 src" "rows_at s0 src \<noteq> None" "dk_calls s \<le> dk_calls s1"
    using 1 assms by (auto simp: same_but_def rows_at_def with_sidecars_def)
  show ?case
  proof (rule wps_mono [OF wps_os_call], goal_cases)
    case (1 u s2)
    note s2 = 1
    show ?case
    proof (rule wps_mono [OF wps_counts [OF wps_copyOptional counts_copy(2)]], goal_cases)
      case (1 u s3)
      note s3 = 1
      show ?case
        by (rule wps_mono [OF wps_counts [OF wps_copyOptional counts_copy(2)]])
          (use s1 s2 s3 ne in \<open>auto simp: same_but_def rows_at_def with_sidecars_def\<close>)
    qed
  qed
qed

lemma wps_build_final:
  assumes io: "io_ok io" and s: "rows_at s t = Some E" and ne: "t \<noteq> f"
  shows "wps (build_final io t f everything) (\<lambda>_ s'. same_but {t, f} s s' \<and> rows_at s' f = Some E) s"
  unfolding build_final_def wps_andthen wps_or_cleanup
proof (rule wps_mono [OF wps_import_open [OF io s]], goal_cases)
  case (1 u s1)
  then have s1: "same_but {t} s s1" "rows_at s1 t = Some E" by auto
  show ?case
  proof (rule wps_mono [OF wps_vacuum [OF io s1(2) ne]], goal_cases)
    case (1 u s2)
    note s2 = 1
    show ?case
    proof (rule wps_mono [OF wps_os_call], goal_cases)
      case (1 u s3)
      have "ValidateWireHubDatabase io f s3 = (r, s4) \<Longrightarrow> same_but {t, f} s s4 \<and> rows_at s4 f = Some E" for r s4
        using validate_reads [of io f s3 r s4] s1 s2 1 by (auto simp: same_but_def rows_at_def)
      then show ?case by (auto simp: wps_def split: prod.split sum.split)
    qed
  qed
qed

text \<open>What a successful preparation stages, beside untouched database files.\<close>

lemma wps_prepare:
  assumes io: "io_ok io" "temps_ok io live src"
  shows "wps (prepareImportDatabase io src) (\<lambda>(staged, files) s'. rows_at s src \<noteq> None \<and> rows_at s' staged = rows_at s src \<and> staged \<notin> db_paths live \<and>
     set files \<inter> db_paths live = {} \<and> (\<forall>p \<in> db_paths live. dk_files s' p = dk_files s p) \<and> dk_open s' = dk_open s) s"
  unfolding prepareImportDatabase_def Let_def wps_andthen wps_or_cleanup
proof (rule wps_mono [OF wps_CreateTemp], goal_cases)
  case (1 t s1)
  let ?T = "set (with_sidecars t)"
  have t: "t = io_temp io (dk_calls s)" "same_but {t} s s1" "dk_calls s1 = Suc (dk_calls s)" using 1 by auto
  have apart: "?T \<inter> (db_paths live \<union> set (with_sidecars src)) = {}" using io(2) t(1) by (simp add: temps_ok_def)
  have mem: "t \<in> ?T" "src \<in> set (with_sidecars src)" by (simp_all add: with_sidecars_def)
  have src: "dk_files s1 src = dk_files s src" using t(2) apart mem by (auto simp: same_but_def)
  show ?case
  proof (rule wps_mono [OF wps_copy_source [OF src]], goal_cases)
    case (1 u s2)
    then obtain E where E: "rows_at s src = Some E" "rows_at s2 t = Some E" by auto
    have "same_but ({t} \<union> ?T) s s2" using same_but_trans [OF t(2)] 1 by blast
    then have s2: "same_but ?T s s2" "dk_calls s2 \<noteq> dk_calls s" using t(3) 1 mem(1) by (simp_all add: insert_absorb)
    show ?case
    proof (rule wps_mono [OF wps_CreateTemp], goal_cases)
      case (1 f s3)
      let ?F = "set (with_sidecars f)"
      have f: "f = io_temp io (dk_calls s2)" "same_but {f} s2 s3" using 1 by auto
      have fapart: "?F \<inter> db_paths live = {}" "?F \<inter> ?T = {}" "f \<in> ?F"
        using io(2) f(1) t(1) s2(2) unfolding temps_ok_def by (blast, blast, simp add: with_sidecars_def)
      then have ft: "t \<noteq> f" "f \<notin> db_paths live" "t \<notin> db_paths live" using mem apart by auto
      show ?case unfolding wps_attempt
      proof (cases "os_Remove io f s3")
        case (Pair r s4)
        have s4: "same_but (?T \<union> {f}) s s4" "rows_at s4 t = Some E"
          using wp_run [OF wp_remove Pair] s2(1) f(2) ft E(2) by (auto simp: same_but_def rows_at_def)
        have "wps (build_final io t f (with_sidecars t @ with_sidecars f)) (\<lambda>_. wps (ret (f, with_sidecars t @ with_sidecars f))
          (\<lambda>(staged, files) s'. rows_at s src \<noteq> None \<and> rows_at s' staged = rows_at s src \<and> staged \<notin> db_paths live \<and>
           set files \<inter> db_paths live = {} \<and> (\<forall>p \<in> db_paths live. dk_files s' p = dk_files s p) \<and> dk_open s' = dk_open s)) s4"
        proof (rule wps_mono [OF wps_build_final [OF io(1) s4(2) ft(1)]], goal_cases)
          case (1 u s5)
          have "same_but ((?T \<union> {f}) \<union> {t, f}) s s5" using same_but_trans [OF s4(1)] 1 by blast
          moreover have off: "p \<notin> (?T \<union> {f}) \<union> {t, f}" if "p \<in> db_paths live" for p using that apart ft by auto
          ultimately have "\<forall>p \<in> db_paths live. dk_files s5 p = dk_files s p" "dk_open s5 = dk_open s"
            unfolding same_but_def by blast+
          moreover have "set (with_sidecars t @ with_sidecars f) \<inter> db_paths live = {}" using apart fapart(1) by auto
          ultimately show ?case using 1 E(1) ft(2) by simp
        qed
        then show "case os_Remove io f s3 of (r, s') \<Rightarrow> wps (build_final io t f (with_sidecars t @ with_sidecars f)) (\<lambda>_. wps (ret (f, with_sidecars t @ with_sidecars f))
          (\<lambda>(staged, files) s'. rows_at s src \<noteq> None \<and> rows_at s' staged = rows_at s src \<and> staged \<notin> db_paths live \<and>
           set files \<inter> db_paths live = {} \<and> (\<forall>p \<in> db_paths live. dk_files s' p = dk_files s p) \<and> dk_open s' = dk_open s)) s'"
          by (simp add: Pair)
      qed
    qed
  qed
qed

lemma wps_remove_quietly: "wps (remove_quietly io ps) (\<lambda>_ s'. same_but (set ps) s s') s"
proof (induction ps arbitrary: s)
  case Nil
  show ?case by (simp add: remove_quietly_def same_but_def)
next
  case (Cons p ps)
  show ?case unfolding remove_quietly_def for_each.simps wps_andthen wps_attempt
  proof (cases "os_Remove io p s")
    case (Pair r s1)
    have s1: "same_but {p} s s1" using wp_run [OF wp_remove Pair] by blast
    have "wps (remove_quietly io ps) (\<lambda>_ s'. same_but (set (p # ps)) s s') s1"
      by (rule wps_mono [OF Cons.IH]) (use same_but_trans [OF s1] in fastforce)
    then show "case os_Remove io p s of (r, s') \<Rightarrow> wps (ret ()) (\<lambda>_. wps (for_each ps (\<lambda>p. andthen (attempt (os_Remove io p)) (\<lambda>_. ret ())))
       (\<lambda>_ s'. same_but (set (p # ps)) s s')) s'"
      by (simp add: Pair remove_quietly_def)
  qed
qed

lemma wps_lift: "wps (lift_res r) Q s = (case r of Inr x \<Rightarrow> Q x s | Inl _ \<Rightarrow> True)"
  by (simp add: wps_def lift_res_def split: sum.split)

lemma wps_import:
  assumes io: "io_ok io" "temps_ok io live src" and s: "rows_at s live = Some D" "dk_open s"
  shows "wps (ImportDatabase io live src) (\<lambda>_ s'. \<exists>E. rows_at s src = Some E \<and> rows_at s' live = Some E \<and> rows_configured E \<and> dk_open s') s"
  unfolding ImportDatabase_def wps_andthen
proof (rule wps_mono [OF wps_prepare [OF io]], goal_cases)
  case (1 x s1)
  obtain staged files where x: "x = (staged, files)" by (cases x)
  with 1 obtain E where E: "rows_at s src = Some E" "rows_at s1 staged = Some E" and st: "staged \<notin> db_paths live" "set files \<inter> db_paths live = {}"
    and same: "\<forall>p \<in> db_paths live. dk_files s1 p = dk_files s p" "dk_open s1 = dk_open s" by auto
  have live: "live \<in> db_paths live" by (auto simp: db_paths_def databaseSidecars_def)
  have s1: "rows_at s1 live = Some D" "dk_open s1" using s same live by (auto simp: rows_at_def)
  show ?case unfolding x prod.case wps_andthen wps_attempt
  proof (cases "swapDatabaseLocked io live staged s1")
    case (Pair r s2)
    note sw = wp_run [OF wp_swap [OF io(1) s1 E(2) st(1)] Pair]
    have "wps (andthen (remove_quietly io files) (\<lambda>_. lift_res r)) (\<lambda>_ s'. \<exists>E. rows_at s src = Some E \<and> rows_at s' live = Some E \<and>
       rows_configured E \<and> dk_open s') s2"
      unfolding wps_andthen
      by (rule wps_mono [OF wps_remove_quietly])
        (use sw st(2) live E(1) in \<open>cases r; auto simp: wps_lift swapped_def same_but_def rows_at_def\<close>)
    then show "case swapDatabaseLocked io live staged s1 of (r, s') \<Rightarrow> wps (remove_quietly io files) (\<lambda>_. wps (lift_res r) (\<lambda>_ s'. \<exists>E. rows_at s src = Some E \<and>
       rows_at s' live = Some E \<and> rows_configured E \<and> dk_open s')) s'"
      by (simp add: Pair wps_andthen)
  qed
qed

lemma wps_export:
  assumes "io_ok io" "\<And>n. io_temp io n \<noteq> live"
  shows "wps (ExportDatabase io live) (\<lambda>f s'. rows_at s live = Some (df_rows f)) s"
  unfolding ExportDatabase_def wps_attempt_then
proof (cases "os_CreateTemp io s")
  case (Pair r s1)
  have quiet: "wps (cleanup_fail io ps e) Q s'" for ps e Q s'
    unfolding cleanup_fail_def wps_andthen wps_fail by (simp add: wps_def fail_def split: prod.split sum.split)
  show "case os_CreateTemp io s of (r, s') \<Rightarrow> wps (case r of Inl e \<Rightarrow> fail (Wrap ''create snapshot: '' e) | Inr tmpPath \<Rightarrow>
     andthen (attempt (vacuum_into io live tmpPath)) (\<lambda>r. case r of
         Inl e \<Rightarrow> cleanup_fail io [tmpPath] (Wrap ''create SQLite snapshot: '' e)
       | Inr _ \<Rightarrow> andthen (attempt (os_Open io tmpPath)) (\<lambda>r. case r of
           Inl e \<Rightarrow> cleanup_fail io [tmpPath] (Wrap ''open snapshot: '' e)
         | Inr f \<Rightarrow> andthen (attempt (os_call io)) (\<lambda>copied. case copied of
             Inl e \<Rightarrow> cleanup_fail io [tmpPath] (Wrap ''copy database: '' e)
           | Inr _ \<Rightarrow> andthen (remove_quietly io [tmpPath]) (\<lambda>_. ret f))))) (\<lambda>f s'. rows_at s live = Some (df_rows f)) s'"
  proof (cases r)
    case (Inr t)
    have t: "t \<noteq> live" "dk_files s1 live = dk_files s live"
      using wps_run [OF wps_CreateTemp, of io s t s1] Pair Inr assms(2) [of "dk_calls s"] by (auto simp: same_but_def)
    obtain v s2 where v: "vacuum_into io live t s1 = (v, s2)" by fastforce
    obtain o' s3 where o': "os_Open io t s2 = (o', s3)" by fastforce
    obtain c s4 where c: "os_call io s3 = (c, s4)" by fastforce
    have rows: "rows_at s live = Some (df_rows f)" if "v = Inr ()" "o' = Inr f" for f
    proof -
      from v that obtain g where g: "dk_files s1 live = Some g" "dk_files s2 t = Some (io_vacuum io (dk_calls s1) g)"
        unfolding vacuum_into_def by (auto simp: sys_def Let_def split: option.splits)
      from g(1) t(2) have "dk_files s live = Some g" by simp
      with g(2) o' that assms(1) show ?thesis
        unfolding os_Open_def by (auto simp: sys_def Let_def rows_at_def io_ok_def split: option.splits)
    qed
    have rem: "wps (remove_quietly io [t]) (\<lambda>_. wps (ret f) (\<lambda>f s'. rows_at s live = Some (df_rows f))) s4" if "v = Inr ()" "o' = Inr f" for f
      by (rule wps_mono [OF wps_remove_quietly]) (simp add: rows [OF that])
    show ?thesis unfolding Pair prod.case Inr sum.case wps_attempt_then v
      by (cases v; cases o'; cases c) (auto simp: quiet wps_andthen wps_attempt o' c intro: rem)
  qed (simp add: Pair)
qed


section \<open>Examples\<close>

text \<open>No call fails, or only the fifth; opening and vacuuming return the file as it is.\<close>

definition ex_io :: "nat option \<Rightarrow> io" where
  "ex_io k = \<lparr>io_fail = (\<lambda>n. if k = Some n then Some (External 7) else None),
     io_open = (\<lambda>n f. case f of Some d \<Rightarrow> d | None \<Rightarrow> empty_file), io_vacuum = (\<lambda>n f. f), io_partial = (\<lambda>n f. f),
     io_temp = (\<lambda>n. CHR ''t'' # itoa n)\<rparr>"

definition ex_file :: "string \<Rightarrow> DbFile" where
  "ex_file endpoint = \<lparr>df_size = 4096, df_head = sqliteHeader, df_quick = ''ok'', df_tables = wireHubTables,
     df_rows = [RAdmin \<lparr>ad_ID = 1, ad_Username = ''admin'', ad_PasswordHash = ''h'', ad_TokenVersion = 0\<rparr>,
       RSettings (ex_settings\<lparr>se_Endpoint := endpoint\<rparr>)]\<rparr>"

definition ex_disk :: disk where
  "ex_disk = \<lparr>dk_calls = 0, dk_files = [''hub.db'' \<mapsto> ex_file ''old'', ''up.db'' \<mapsto> ex_file ''new''], dk_open = True\<rparr>"

lemma ex_io_ok: "io_ok (ex_io k)"
  by (simp add: io_ok_def ex_io_def)

lemmas disk_eval = swapDatabaseLocked_def removeDatabaseFiles_def databaseSidecars_def os_Remove_def sys_def closeDB_def os_call_def
  moveOptional_def os_Stat_def os_Rename_def openDB_def isConfiguredDB_def os_Open_def give_up_def restoreDatabaseLocked_def
  andthen_def attempt_def ret_def fail_def Let_def ex_io_def ex_disk_def ex_file_def errs_of_def rows_configured_def tables_Cons


text \<open>The call that opens the new file fails: the old one is back.\<close>

theorem swap_restores_witness:
  "\<exists>e s'. swapDatabaseLocked (ex_io (Some 10)) ''hub.db'' ''up.db'' ex_disk = (Inl e, s') \<and> dk_open s' \<and>
     rows_at s' ''hub.db'' = Some (df_rows (ex_file ''old''))"
proof -
  have "\<exists>e s'. swapDatabaseLocked (ex_io (Some 10)) ''hub.db'' ''up.db'' ex_disk = (Inl e, s') \<and> rows_at s' ''hub.db'' \<noteq> Some (df_rows (ex_file ''new''))"
    by (simp add: disk_eval rows_at_def ex_settings_def)
  then obtain e s' where run: "swapDatabaseLocked (ex_io (Some 10)) ''hub.db'' ''up.db'' ex_disk = (Inl e, s')"
    "rows_at s' ''hub.db'' \<noteq> Some (df_rows (ex_file ''new''))" by blast
  have "rows_at ex_disk ''hub.db'' = Some (df_rows (ex_file ''old''))" "rows_at ex_disk ''up.db'' = Some (df_rows (ex_file ''new''))"
    "dk_open ex_disk" "''up.db'' \<notin> db_paths ''hub.db''" "one_fault (ex_io (Some 10))" "rows_configured (df_rows (ex_file ''new''))"
    by (simp_all add: ex_disk_def rows_at_def db_paths_def databaseSidecars_def one_fault_def ex_io_def rows_configured_def ex_file_def tables_Cons)
  from swap_restores [OF ex_io_ok this(1,3,2,4-6) run(1)] run show ?thesis by auto
qed

lemma ex_temps:
  "io_temp (ex_io k) n @ x = io_temp (ex_io k) m @ y \<Longrightarrow> x \<in> set databaseSidecars \<Longrightarrow> y \<in> set databaseSidecars \<Longrightarrow> n = m"
proof -
  assume a: "io_temp (ex_io k) n @ x = io_temp (ex_io k) m @ y" and "x \<in> set databaseSidecars" "y \<in> set databaseSidecars"
  have digits: "takeWhile is_digit (itoa n @ x) = itoa n" if "x \<in> set databaseSidecars" for n x
  proof -
    have "takeWhile is_digit (itoa n @ x) = itoa n @ takeWhile is_digit x" by (rule takeWhile_append2) simp
    then show ?thesis using that by (auto simp: databaseSidecars_def is_digit_def)
  qed
  from a have "itoa n @ x = itoa m @ y" by (simp add: ex_io_def)
  then have "itoa n = itoa m" using digits \<open>x \<in> _\<close> \<open>y \<in> _\<close> by metis
  then show "n = m" by (metis digits_val_itoa)
qed

lemma ex_temps_ok: "temps_ok (ex_io k) ''hub.db'' ''up.db''"
proof -
  have w: "set (with_sidecars p) = (@) p ` set databaseSidecars" for p by (auto simp: with_sidecars_def databaseSidecars_def)
  have "hd (io_temp (ex_io k) n) = CHR ''t''" "io_temp (ex_io k) n \<noteq> []" for n by (simp_all add: ex_io_def)
  then have "p \<in> set (with_sidecars (io_temp (ex_io k) n)) \<Longrightarrow> hd p = CHR ''t''" for p n by (auto simp: w)
  moreover have "p \<in> db_paths ''hub.db'' \<union> set (with_sidecars ''up.db'') \<Longrightarrow> hd p \<noteq> CHR ''t''" for p
    by (auto simp: db_paths_def databaseSidecars_def with_sidecars_def)
  moreover have "n \<noteq> m \<Longrightarrow> set (with_sidecars (io_temp (ex_io k) n)) \<inter> set (with_sidecars (io_temp (ex_io k) m)) = {}" for n m
    using ex_temps unfolding w by blast
  ultimately show ?thesis unfolding temps_ok_def by blast
qed

lemmas import_eval = ImportDatabase_def prepareImportDatabase_def copy_source_def build_final_def or_cleanup_def copyFile_def write_out_def
  copyOptionalFile_def os_CreateTemp_def import_open_def vacuum_into_def ValidateWireHubDatabase_def remove_quietly_def lift_res_def
  with_sidecars_def ExportDatabase_def

text \<open>The import of the exported file, step by step.\<close>

lemma ex_sys:
  "sys (ex_io None) g s = (case g (dk_calls s) (dk_files s) of (r, fs) \<Rightarrow> (r, s\<lparr>dk_calls := Suc (dk_calls s), dk_files := fs\<rparr>))"
  by (simp add: sys_def ex_io_def Let_def)

lemma ex_opens: "io_open (ex_io None) n (Some f) = f" "io_vacuum (ex_io None) n f = f" "io_fail (ex_io None) n = None"
  "io_temp (ex_io None) n = CHR ''t'' # itoa n"
  by (simp_all add: ex_io_def)

lemmas step_eval = ex_sys ex_opens andthen_def attempt_def ret_def fail_def Let_def or_cleanup_def copyOptionalFile_def copyFile_def
  write_out_def os_Open_def os_call_def os_Stat_def os_Remove_def os_Rename_def os_CreateTemp_def import_open_def vacuum_into_def

abbreviation ex_old :: DbFile where "ex_old \<equiv> ex_file ''old''"

lemma ex_validate:
  "\<exists>n'. ValidateWireHubDatabase (ex_io None) p \<lparr>dk_calls = n, dk_files = fs(p \<mapsto> ex_old), dk_open = b\<rparr> =
    (Inr (), \<lparr>dk_calls = n', dk_files = fs(p \<mapsto> ex_old), dk_open = b\<rparr>)"
proof -
  have t: "trim_space ''old'' \<noteq> []" by (simp add: trim_space_def ev chr_eval)
  have w: "find (\<lambda>t. t \<notin> set wireHubTables) wireHubTables = None" by (simp add: find_None_iff)
  have f: "df_size ex_old = 4096" "df_head ex_old = sqliteHeader" "df_quick ex_old = ''ok''" "df_tables ex_old = wireHubTables"
    "t_admins (df_rows ex_old) \<noteq> []" "\<exists>se. t_settings (df_rows ex_old) = [se] \<and> se_Endpoint se = ''old''"
    by (simp_all add: ex_file_def tables_Cons)
  then obtain se where "t_settings (df_rows ex_old) = [se]" "se_Endpoint se = ''old''" by blast
  with f t w show ?thesis by (simp add: ValidateWireHubDatabase_def step_eval)
qed

lemma ex_copy:
  "copy_source (ex_io None) ''up.db'' ''t0'' \<lparr>dk_calls = Suc 0, dk_files = [''hub.db'' \<mapsto> ex_old, ''up.db'' \<mapsto> ex_old, ''t0'' \<mapsto> empty_file], dk_open = True\<rparr> =
    (Inr (), \<lparr>dk_calls = 9, dk_files = [''hub.db'' \<mapsto> ex_old, ''up.db'' \<mapsto> ex_old, ''t0'' \<mapsto> ex_old], dk_open = True\<rparr>)"
  by (simp add: copy_source_def step_eval)

lemma ex_prepare:
  "\<exists>n files. prepareImportDatabase (ex_io None) ''up.db'' \<lparr>dk_calls = 0, dk_files = [''hub.db'' \<mapsto> ex_old, ''up.db'' \<mapsto> ex_old], dk_open = True\<rparr> =
    (Inr (''t9'', files), \<lparr>dk_calls = n, dk_files = [''hub.db'' \<mapsto> ex_old, ''up.db'' \<mapsto> ex_old, ''t0'' \<mapsto> ex_old, ''t9'' \<mapsto> ex_old], dk_open = True\<rparr>)"
proof -
  have digits: "itoa 0 = ''0''" "itoa 9 = ''9''" by (simp_all add: digit_char_def chr_eval)
  let ?fs = "[''hub.db'' \<mapsto> ex_old, ''up.db'' \<mapsto> ex_old, ''t0'' \<mapsto> ex_old]"
  obtain n' where v: "ValidateWireHubDatabase (ex_io None) ''t9'' \<lparr>dk_calls = 14, dk_files = ?fs(''t9'' \<mapsto> ex_old), dk_open = True\<rparr> =
      (Inr (), \<lparr>dk_calls = n', dk_files = ?fs(''t9'' \<mapsto> ex_old), dk_open = True\<rparr>)" using ex_validate by blast
  show ?thesis
    using v by (simp add: prepareImportDatabase_def build_final_def step_eval digits ex_copy)
qed

lemma ex_swap:
  "\<exists>s'. swapDatabaseLocked (ex_io None) ''hub.db'' ''t9''
    \<lparr>dk_calls = n, dk_files = [''hub.db'' \<mapsto> ex_old, ''up.db'' \<mapsto> ex_old, ''t0'' \<mapsto> ex_old, ''t9'' \<mapsto> ex_old], dk_open = True\<rparr> = (Inr (), s')"
proof -
  have "rows_configured (df_rows ex_old)" by (simp add: ex_file_def rows_configured_def tables_Cons)
  then show ?thesis
    by (simp add: swapDatabaseLocked_def removeDatabaseFiles_def databaseSidecars_def closeDB_def moveOptional_def openDB_def isConfiguredDB_def step_eval)
qed

lemma ex_import:
  "\<exists>t'. ImportDatabase (ex_io None) ''hub.db'' ''up.db'' \<lparr>dk_calls = 0, dk_files = [''hub.db'' \<mapsto> ex_old, ''up.db'' \<mapsto> ex_old], dk_open = True\<rparr> = (Inr (), t')"
proof -
  have quiet: "\<exists>s'. remove_quietly io ps s = (Inr (), s')" for io ps s
    by (induction ps arbitrary: s) (auto simp: remove_quietly_def andthen_def attempt_def ret_def split: prod.split)
  from ex_prepare obtain n files where 1: "prepareImportDatabase (ex_io None) ''up.db''
     \<lparr>dk_calls = 0, dk_files = [''hub.db'' \<mapsto> ex_old, ''up.db'' \<mapsto> ex_old], dk_open = True\<rparr> = (Inr (''t9'', files),
     \<lparr>dk_calls = n, dk_files = [''hub.db'' \<mapsto> ex_old, ''up.db'' \<mapsto> ex_old, ''t0'' \<mapsto> ex_old, ''t9'' \<mapsto> ex_old], dk_open = True\<rparr>)" by blast
  obtain s' where 2: "swapDatabaseLocked (ex_io None) ''hub.db'' ''t9'' \<lparr>dk_calls = n, dk_files = [''hub.db'' \<mapsto> ex_old, ''up.db'' \<mapsto> ex_old, ''t0'' \<mapsto> ex_old,
     ''t9'' \<mapsto> ex_old], dk_open = True\<rparr> = (Inr (), s')" using ex_swap by blast
  obtain s'' where 3: "remove_quietly (ex_io None) files s' = (Inr (), s'')" using quiet by blast
  show ?thesis unfolding ImportDatabase_def andthen_def 1 by (simp add: attempt_def 2 3 lift_res_def)
qed


end
