(* ===== verification/Gates.thy ===== *)
theory Gates
  imports Snapshot Dns_Props Map_Proxy_Props
begin

text \<open>
  The three gates in front of a service map.  A peer reaches a map by resolving its name (the DNS
  server), sending packets to its virtual address (the tunnel's access filter) and having the map proxy
  relay its flows.  The control plane pushes the allow list to each of them in a different form; here
  they are shown to decide alike, and as the database says.
\<close>

section \<open>Tables of the snapshot\<close>

lemma in_AllowedGroupIDSet: "i \<in> set (AllowedGroupIDSet ids) \<longleftrightarrow> i \<noteq> 0 \<and> i \<in> set ids"
proof -
  have "i \<in> set (fold (\<lambda>i out. if i = 0 then out else List.insert i out) ids out) \<longleftrightarrow> i \<in> set out \<or> i \<noteq> 0 \<and> i \<in> set ids" for out
    by (induction ids arbitrary: out) auto
  then show ?thesis by (simp add: AllowedGroupIDSet_def)
qed

lemma GroupInAllowedSet_iff: "GroupInAllowedSet (AllowedGroupIDSet ids) i \<longleftrightarrow> i \<noteq> 0 \<and> i \<in> set ids"
  using in_AllowedGroupIDSet [of i ids] by (auto simp: GroupInAllowedSet_def)

text \<open>A table filled from those elements whose text parses, with distinct addresses.\<close>

lemma fold_unparsed:
  "(\<And>y. y \<in> set xs \<Longrightarrow> key y \<noteq> Some a) \<Longrightarrow>
   mget (fold (\<lambda>y m. case key y of None \<Rightarrow> m | Some b \<Rightarrow> mput b (val y) m) xs m0) a = mget m0 a"
  by (induction xs arbitrary: m0) (auto split: option.split)

lemma fold_parsed:
  assumes "\<And>y b. y \<in> set xs \<Longrightarrow> key y = Some b \<Longrightarrow> b = a \<Longrightarrow> y = x" "x \<in> set xs" "key x = Some a"
  shows "mget (fold (\<lambda>y m. case key y of None \<Rightarrow> m | Some b \<Rightarrow> mput b (val y) m) xs m0) a = Some (val x)"
  using assms
proof (induction xs arbitrary: m0)
  case Nil
  then show ?case by simp
next
  case (Cons y xs)
  show ?case
  proof (cases "x \<in> set xs")
    case True
    then show ?thesis using Cons by simp
  next
    case False
    then have "y = x" using Cons.prems(2) by simp
    have "key z \<noteq> Some a" if "z \<in> set xs" for z using Cons.prems(1) [of z] that False by auto
    then show ?thesis using \<open>y = x\<close> Cons.prems(3) by (simp add: fold_unparsed)
  qed
qed

text \<open>The addresses the store holds are IPv4 texts, as the allocator writes them.\<close>

definition v4_texts :: "db \<Rightarrow> bool" where
  "v4_texts db = (\<forall>t \<in> p_WGIP ` set (t_peers db) \<union> m_VirtualIP ` set (t_maps db).
     case ParseAddr t of None \<Rightarrow> False | Some a \<Rightarrow> is4 a)"

lemma v4_text: "v4_texts db \<Longrightarrow> t \<in> p_WGIP ` set (t_peers db) \<union> m_VirtualIP ` set (t_maps db) \<Longrightarrow> \<exists>a. ParseAddr t = Some a \<and> is4 a"
  by (fastforce simp: v4_texts_def split: option.splits)

lemma mget_peer_groups:
  assumes "uniq_ok db" "v4_texts db" "mset ps = mset (t_peers db)"
    and "p \<in> set (t_peers db)" "p_Enabled p" "p_GroupID p \<noteq> 0" "ParseAddr (p_WGIP p) = Some a"
  shows "mget (peer_groups (map wg_peer ps)) a = Some (p_GroupID p)"
proof -
  let ?key = "\<lambda>p. if \<not> wp_Enabled p \<or> wp_GroupID p = 0 then None else ParseAddr (wp_WGIP p)"
  have set: "set ps = set (t_peers db)" using assms(3) by (rule mset_eq_setD)
  have pg: "peer_groups ws = fold (\<lambda>p pg. case ?key p of None \<Rightarrow> pg | Some ip \<Rightarrow> mput ip (wp_GroupID p) pg) ws []" for ws
    unfolding peer_groups_def by (rule fold_cong) (auto simp: fun_eq_iff)
  have "distinct (map p_WGIP (t_peers db))" using assms(1) by (simp add: uniq_ok_def)
  then have inj: "q = p" if "q \<in> set (t_peers db)" "p_WGIP q = p_WGIP p" for q
    using assms(4) that by (auto simp: distinct_map dest: inj_onD)
  have same: "y = wg_peer p" if "y \<in> set (map wg_peer ps)" "?key y = Some b" "b = a" for y b
  proof -
    from that(1) obtain q where q: "q \<in> set (t_peers db)" "y = wg_peer q" using set by auto
    then have "ParseAddr (p_WGIP q) = Some a" using that(2,3) by (auto simp: wg_peer_def split: if_splits)
    moreover obtain c where "ParseAddr (p_WGIP q) = Some c" "is4 c" using v4_text [OF assms(2)] q(1) by blast
    ultimately have "p_WGIP q = p_WGIP p" using ParseAddr_inj4 [OF _ assms(7)] by simp
    then show ?thesis using inj [OF q(1)] q(2) by simp
  qed
  have "mget (peer_groups (map wg_peer ps)) a = Some (wp_GroupID (wg_peer p))"
    unfolding pg by (rule fold_parsed [OF same]) (use assms set in \<open>auto simp: wg_peer_def\<close>)
  then show ?thesis by (simp add: wg_peer_def)
qed

section \<open>Each gate\<close>

lemma uniq_peer_ids: "uniq_ok db \<Longrightarrow> distinct (map p_ID (t_peers db))"
proof -
  have "distinct (map (\<lambda>r. (table_of r, key_of r)) db) \<Longrightarrow> distinct (map p_ID (t_peers db))" for db
  proof (induction db)
    case (Cons r db)
    have "p_ID p \<notin> p_ID ` set (t_peers db)" if "r = RPeer p" for p
      using Cons.prems that by (force simp: set_tables)
    with Cons show ?case by (auto simp: tables_Cons split: row.splits)
  qed simp
  then show "uniq_ok db \<Longrightarrow> distinct (map p_ID (t_peers db))" by (simp add: uniq_ok_def)
qed

lemma detail_of:
  assumes "details_of db ds" "m \<in> set (t_maps db)"
  obtains d where "d \<in> set ds" "mdt_Map d = m" "set (mdt_AllowedGroups d) = allowed_in db (m_ID m)"
proof -
  have "m \<in> set (map mdt_Map ds)" using assms mset_eq_setD [of "map mdt_Map ds" "t_maps db"] by (auto simp: details_of_def)
  then show thesis using that assms(1) by (auto simp: details_of_def)
qed

lemma details_distinct:
  assumes "uniq_ok db" "details_of db ds"
  shows "distinct (map (\<lambda>d. m_Slug (mdt_Map d)) ds)" "distinct (map (\<lambda>d. m_VirtualIP (mdt_Map d)) ds)"
    "mdt_Map ` set ds = set (t_maps db)"
proof -
  have ms: "mset (map mdt_Map ds) = mset (t_maps db)" using assms(2) by (simp add: details_of_def)
  have "distinct (map f (map mdt_Map ds)) = distinct (map f (t_maps db))" for f :: "ServiceMap \<Rightarrow> string"
    by (rule mset_eq_imp_distinct_iff) (simp only: mset_map [of f] ms)
  from this [of m_Slug] this [of m_VirtualIP] show "distinct (map (\<lambda>d. m_Slug (mdt_Map d)) ds)" "distinct (map (\<lambda>d. m_VirtualIP (mdt_Map d)) ds)"
    using assms(1) by (simp_all add: uniq_ok_def comp_def)
  show "mdt_Map ` set ds = set (t_maps db)" using mset_eq_setD [OF ms] by simp
qed

lemma find_unique: "distinct (map k xs) \<Longrightarrow> x \<in> set xs \<Longrightarrow> P x \<Longrightarrow> find (\<lambda>y. P y \<and> k y = k x) xs = Some x"
  by (induction xs) (auto simp: image_iff)

lemma snapshot_parts:
  assumes "snapshot_of db b"
  obtains st :: Settings and ps ds where "mset ps = mset (t_peers db)" "sb_Peers b = map wg_peer ps" "details_of db ds"
    "sb_Maps b = map map_rule ds" "sb_DNS b = BuildDNSCatalog (se_HubIP st) (sb_Peers b) (sb_Maps b)"
  using assms unfolding snapshot_of_def by (elim exE conjE) (rule that)

lemma dns_gate:
  assumes db: "uniq_ok db" "v4_texts db" and b: "snapshot_of db b" "dns_carries d b"
    and p: "p \<in> set (t_peers db)" "p_Enabled p" "p_GroupID p \<noteq> 0" "ParseAddr (p_WGIP p) = Some a"
    and m: "m \<in> set (t_maps db)" "valid_label (m_Slug m)"
  shows "lookupIPForClient d (m_Slug m) True a = (if p_GroupID p \<in> allowed_in db (m_ID m) then Some (m_VirtualIP m) else None)"
proof -
  from b(1) obtain st :: Settings and ps ds where ps: "mset ps = mset (t_peers db)" "sb_Peers b = map wg_peer ps" and ds: "details_of db ds"
    and rules: "sb_Maps b = map map_rule ds" and dns: "sb_DNS b = BuildDNSCatalog (se_HubIP st) (sb_Peers b) (sb_Maps b)"
    by (rule snapshot_parts)
  have cat: "sb_DNS b = BuildDNSCatalog (se_HubIP st) (map wg_peer ps) (map map_rule ds)" unfolding dns ps(2) rules ..
  from detail_of [OF ds m(1)] obtain e where e: "e \<in> set ds" "mdt_Map e = m" "set (mdt_AllowedGroups e) = allowed_in db (m_ID m)" .
  have ne: "m_Slug m \<noteq> []" "m_VirtualIP m \<noteq> []"
    using m v4_text [OF db(2), of "m_VirtualIP m"] by (auto simp: valid_label_def ParseAddr_def)
  have "distinct (map mr_Slug (map map_rule ds))" using details_distinct(1) [OF db(1) ds] by (simp add: comp_def map_rule_def)
  note tab = fold_put_distinct [OF this] find_unique [OF this]
  have mem: "map_rule e \<in> set (map map_rule ds)" and e': "mr_Slug (map_rule e) = m_Slug m" "mr_VirtualIP (map_rule e) = m_VirtualIP m"
    "mr_AllowedGroupIDs (map_rule e) = AllowedGroupIDSet (mdt_AllowedGroups e)"
    using e by (auto simp: map_rule_def)
  have "find (\<lambda>r. (mr_Slug r \<noteq> [] \<and> mr_VirtualIP r \<noteq> []) \<and> mr_Slug r = m_Slug m) (map map_rule ds) = Some (map_rule e)"
    using tab(2) [OF mem, of "\<lambda>r. mr_Slug r \<noteq> [] \<and> mr_VirtualIP r \<noteq> []"] ne unfolding e' by blast
  then have "mget (dc_Maps (sb_DNS b)) (m_Slug m) =
      Some \<lparr>md_VirtualIP = m_VirtualIP m, md_AllowedGroupIDs = AllowedGroupIDSet (mdt_AllowedGroups e)\<rparr>"
    unfolding cat dc_Maps_fold tab(1) by (simp only: option.case e')
  moreover have "mget (dn_PeerGroup d) a = Some (p_GroupID p)"
    using mget_peer_groups [OF db ps(1) p] b(2) ps(2) by (simp add: dns_carries_def)
  moreover have "dnsSlug (to_lower (trim_space (m_Slug m))) = m_Slug m" "m_Slug m \<noteq> HubDNSLabel"
    using valid_label_chars [OF m(2)] dnsSlug_label [OF m(2)] by (simp_all add: to_lower_def)
  moreover have "is_valid a" using p(4) by (rule ParseAddr_valid)
  ultimately show ?thesis
    using b(2) p(3) e(3) by (simp add: lookupIPForClient_def Let_def dns_carries_def GroupInAllowedSet_iff)
qed

text \<open>The map proxy.\<close>

lemma map_gate:
  assumes db: "uniq_ok db" "v4_texts db" and b: "snapshot_of db b" "maps_carried mp b"
    and p: "p \<in> set (t_peers db)" "p_Enabled p" "p_GroupID p \<noteq> 0" "ParseAddr (p_WGIP p) = Some a"
    and m: "m \<in> set (t_maps db)" "ParseAddr (m_VirtualIP m) = Some vip"
  shows "may_use mp a vip \<longleftrightarrow> p_GroupID p \<in> allowed_in db (m_ID m)"
proof -
  from b(1) obtain ps ds where ps: "mset ps = mset (t_peers db)" "sb_Peers b = map wg_peer ps" and ds: "details_of db ds"
    and rules: "sb_Maps b = map map_rule ds"
    by (rule snapshot_parts)
  from detail_of [OF ds m(1)] obtain e where e: "e \<in> set ds" "mdt_Map e = m" "set (mdt_AllowedGroups e) = allowed_in db (m_ID m)" .
  let ?rule = "\<lambda>r vip. \<lparr>im_ID = mr_ID r, im_Slug = mr_Slug r, im_TargetHost = mr_TargetHost r, im_VirtualIP = vip,
       im_AllowedGroupIDs = mr_AllowedGroupIDs r\<rparr>"
  have parse: "\<exists>x. ParseAddr (m_VirtualIP (mdt_Map d)) = Some x \<and> is4 x" if "d \<in> set ds" for d
    using v4_text [OF db(2)] details_distinct(3) [OF db(1) ds] that by blast
  let ?vip = "\<lambda>d. the (ParseAddr (m_VirtualIP (mdt_Map d)))"
  have rt: "ingressMapRules (sb_Maps b) = map (\<lambda>d. ?rule (map_rule d) (?vip d)) ds"
    unfolding rules ingressMapRules_def using parse
    by (induction ds) (auto simp: map_filter_simps map_rule_def split: option.split)
  have inj: "?vip d = ?vip d' \<Longrightarrow> m_VirtualIP (mdt_Map d) = m_VirtualIP (mdt_Map d')" if "d \<in> set ds" "d' \<in> set ds" for d d'
    using parse [OF that(1)] parse [OF that(2)] by (auto intro: ParseAddr_inj4)
  have "distinct (map im_VirtualIP (ingressMapRules (sb_Maps b)))"
    using details_distinct(2) [OF db(1) ds] inj unfolding rt by (auto simp: distinct_map comp_def inj_on_def)
  note tab = mget_rule_table [OF this] find_unique [OF this, of "?rule (map_rule e) vip" "\<lambda>_. True"]
  have "?rule (map_rule e) vip \<in> set (ingressMapRules (sb_Maps b))" unfolding rt using e m(2) by force
  with tab have "mget (mp_rules mp) vip = Some (?rule (map_rule e) vip)" using b(2) by (simp add: maps_carried_def)
  moreover have "mget (mp_peerGroup mp) a = Some (p_GroupID p)"
    using mget_peer_groups [OF db ps(1) p] b(2) ps(2) by (simp add: maps_carried_def)
  ultimately show ?thesis using p(3) e(3) in_AllowedGroupIDSet [of "p_GroupID p" "mdt_AllowedGroups e"]
    by (auto simp: may_use_def peerAllowed_def GroupInAllowedSet_iff map_rule_def)
qed

text \<open>The tunnel's access filter: what its tables hold of the snapshot's maps and peers.\<close>

lemma map_access_at:
  assumes db: "uniq_ok db" "v4_texts db" and ds: "details_of db ds"
    and e: "e \<in> set ds" "mdt_Map e = m" and m: "m \<in> set (t_maps db)" "ParseAddr (m_VirtualIP m) = Some vip"
  shows "mget (the (map_byVIP (map_access_of ds))) vip = Some (NewMapAccess (m_VirtualIP m) (mdt_AllowedGroups e))"
proof -
  let ?acc = "\<lambda>d. NewMapAccess (m_VirtualIP (mdt_Map d)) (mdt_AllowedGroups d)"
  let ?key = "\<lambda>r. case ParseAddr (ma_VirtualIP r) of None \<Rightarrow> None | Some a \<Rightarrow> if is_valid a then Some a else None"
  have v4: "is4 vip" using v4_text [OF db(2), of "m_VirtualIP m"] m by auto
  have step: "(case ParseAddr (ma_VirtualIP r) of None \<Rightarrow> m | Some a \<Rightarrow> if \<not> is_valid a then m else mput a r m) =
      (case ?key r of None \<Rightarrow> m | Some a \<Rightarrow> mput a r m)" for r m
    by (cases "ParseAddr (ma_VirtualIP r)") simp_all
  have table: "the (map_byVIP (NewMapAccessPolicy rs)) =
      fold (\<lambda>r m. case ?key r of None \<Rightarrow> m | Some a \<Rightarrow> mput a r m) rs []" for rs
    unfolding NewMapAccessPolicy_def MapAccessPolicy.select_convs option.sel step ..
  have "y = ?acc e" if y: "y \<in> set (map ?acc ds)" "?key y = Some c" "c = vip" for y c
  proof -
    from y(1) obtain d where d: "d \<in> set ds" "y = ?acc d" by auto
    with y(2,3) have "ParseAddr (m_VirtualIP (mdt_Map d)) = Some vip" by (auto simp: NewMapAccess_def split: option.splits if_splits)
    from ParseAddr_inj4 [OF this m(2) v4] have "d = e"
      using details_distinct(2) [OF db(1) ds] d(1) e by (auto simp: distinct_map dest: inj_onD)
    then show ?thesis using d by simp
  qed
  moreover have "?acc e \<in> set (map ?acc ds)" using e(1) by simp
  moreover have "?key (?acc e) = Some vip" using e(2) m(2) ParseAddr_valid [OF m(2)] by (simp add: NewMapAccess_def)
  ultimately have "mget (fold (\<lambda>r m. case ?key r of None \<Rightarrow> m | Some a \<Rightarrow> mput a r m) (map ?acc ds) []) vip = Some (?acc e)"
    by (rule fold_parsed)
  then show ?thesis unfolding map_access_of_def table e(2) .
qed

lemma peerEndpoints_unique:
  assumes "uniq_ok db" "v4_texts db" and ps: "mset ps = mset (t_peers db)"
  shows "peers_unique (peerEndpoints ps)"
proof -
  have "distinct (map p_ID ps)"
    using uniq_peer_ids [OF assms(1)] mset_eq_imp_distinct_iff [of "map p_ID ps" "map p_ID (t_peers db)"] ps by simp
  moreover have "distinct (map p_WGIP ps)"
    using assms(1) mset_eq_imp_distinct_iff [of "map p_WGIP ps" "map p_WGIP (t_peers db)"] ps by (simp add: uniq_ok_def)
  moreover have "case ParseAddr (p_WGIP r) of None \<Rightarrow> True | Some x \<Rightarrow> is4 x" if "r \<in> set ps" for r
    using v4_text [OF assms(2), of "p_WGIP r"] that mset_eq_setD [OF ps] by auto
  ultimately show ?thesis by (simp add: peers_unique_def peerEndpoints_def comp_def list_all_iff)
qed

lemma policy_gate:
  assumes db: "uniq_ok db" "ip_ok db" "v4_texts db" and b: "policy_of db spec"
    and p: "p \<in> set (t_peers db)" "p_Enabled p" "p_GroupID p \<noteq> 0" "ParseAddr (p_WGIP p) = Some a"
    and m: "m \<in> set (t_maps db)" "ParseAddr (m_VirtualIP m) = Some vip"
  shows "CanAccess (the (acp_Rules (Apply spec))) a vip \<longleftrightarrow> p_GroupID p \<in> allowed_in db (m_ID m)"
proof -
  from b obtain ps ls gs ds where ps: "mset ps = mset (t_peers db)" and ds: "details_of db ds" and
    spec: "BuildAccessPolicySpec (peerEndpoints ps) (groupLinkPairs ls) (NewGroupAccessPolicy (groupAccessList gs)) (map_access_of ds) = Inr spec"
    unfolding policy_of_def by (elim exE conjE) (rule that)
  have set: "set ps = set (t_peers db)" using ps by (rule mset_eq_setD)
  from detail_of [OF ds m(1)] obtain e where e: "e \<in> set ds" "mdt_Map e = m" "set (mdt_AllowedGroups e) = allowed_in db (m_ID m)" .
  let ?acc = "NewMapAccess (m_VirtualIP m) (mdt_AllowedGroups e)"
  let ?q = "\<lambda>p. \<lparr>pe_ID = p_ID p, pe_Name = p_Name p, pe_DNSName = p_DNSName p, pe_WGIP = p_WGIP p, pe_GroupID = p_GroupID p, pe_Enabled = p_Enabled p\<rparr>"
  have v4: "is4 vip" using v4_text [OF db(3), of "m_VirtualIP m"] m by auto
  note tab = map_access_at [OF db(1,3) ds e(1,2) m]
  note pu = peerEndpoints_unique [OF db(1,3) ps]
  have act: "?q p \<in> set (peerEndpoints ps)" "active_at (?q p) a" using p set by (auto simp: peerEndpoints_def active_at_def)
  have "\<not> active_at q vip" if "q \<in> set (peerEndpoints ps)" for q
  proof
    assume "active_at q vip"
    with that obtain r where "r \<in> set (t_peers db)" "ParseAddr (p_WGIP r) = Some vip" using set by (auto simp: peerEndpoints_def active_at_def)
    with ParseAddr_inj4 [OF _ m(2) v4] db(2) m(1) show False by (auto simp: ip_ok_def)
  qed
  then have no: "\<not> list_ex (\<lambda>q. active_at q vip) (peerEndpoints ps)" by (auto simp: list_ex_iff)
  have in_vips: "vip \<in> vips (map_access_of ds)"
    using mget_Some_key [OF tab] by (simp add: vips_def map_access_of_def NewMapAccessPolicy_def)
  have "blocks spec a vip \<longleftrightarrow> p_GroupID p \<notin> set (ma_AllowedGroupIDs ?acc)"
    using BuildAccessPolicySpec_maps [OF spec pu act map_access_of_def in_vips no] tab by simp
  then show ?thesis
    using CanAccess_Apply [OF spec ParseAddr_valid [OF p(4)] ParseAddr_valid [OF m(2)]] p(3) e(3)
    by (simp add: NewMapAccess_def in_AllowedGroupIDSet)
qed

section \<open>The gates agree\<close>


section \<open>Example\<close>

text \<open>Two peers of different groups, and a map that the first one's group may use.\<close>

definition ex_wiki :: ServiceMap where
  "ex_wiki = \<lparr>m_ID = 1, m_Name = ''wiki'', m_Slug = ''wiki'', m_TargetHost = ''10.0.0.2'', m_VirtualIP = ''10.0.0.9''\<rparr>"

definition ex_guest :: Peer where
  "ex_guest = ex_peer\<lparr>p_ID := 2, p_Name := ''tv'', p_PublicKey := ''P2'', p_WGIP := ''10.0.0.3'', p_DNSName := ''tv'', p_GroupID := 2\<rparr>"

definition ex_gate_db :: db where
  "ex_gate_db = [RSettings ex_settings, RPeer ex_peer, RPeer ex_guest, RMap ex_wiki,
     RAllow \<lparr>a_MapID = 1, a_GroupID = 1, a_Position = 0\<rparr>]"

lemmas ex_gate_defs = ex_gate_db_def ex_wiki_def ex_guest_def ex_peer_def ex_settings_def

lemma ex_gate_texts: "ParseAddr ''10.0.0.2'' = Some (Addr4 10 0 0 2)" "ParseAddr ''10.0.0.3'' = Some (Addr4 10 0 0 3)"
  "ParseAddr ''10.0.0.9'' = Some (Addr4 10 0 0 9)"
  by (simp_all add: ParseAddr_def parse_ipv4_def ev)

lemma ex_gate_ok: "uniq_ok ex_gate_db" "ip_ok ex_gate_db" "v4_texts ex_gate_db"
  by (auto simp: uniq_ok_def ip_ok_def v4_texts_def ex_gate_defs tables_Cons ex_gate_texts)

definition ex_gate_details :: "MapDetail list" where
  "ex_gate_details = [\<lparr>mdt_Map = ex_wiki, mdt_TargetDisplay = ''10.0.0.2'', mdt_AllowedGroups = [1]\<rparr>]"

definition ex_gate_policy :: AccessPolicySpec where
  "ex_gate_policy = projr (BuildAccessPolicySpec (peerEndpoints [ex_peer, ex_guest]) [] (NewGroupAccessPolicy [])
     (map_access_of ex_gate_details))"

definition ex_gate_bundle :: SyncBundle where
  "ex_gate_bundle = \<lparr>sb_Settings = net_settings ex_settings, sb_Peers = map wg_peer [ex_peer, ex_guest], sb_Policy = ex_gate_policy,
     sb_Forwards = [], sb_Maps = map map_rule ex_gate_details,
     sb_DNS = BuildDNSCatalog ''10.0.0.1'' (map wg_peer [ex_peer, ex_guest]) (map map_rule ex_gate_details)\<rparr>"

lemma ex_gate_tables: "t_peers ex_gate_db = [ex_peer, ex_guest]" "t_maps ex_gate_db = [ex_wiki]" "t_settings ex_gate_db = [ex_settings]"
  "t_links ex_gate_db = []" "t_groups ex_gate_db = []" "t_forwards ex_gate_db = []" "allowed_in ex_gate_db (Suc 0) = {Suc 0}"
  by (simp_all add: ex_gate_db_def tables_Cons allowed_in_def)

lemma ex_gate_snapshot: "snapshot_of ex_gate_db ex_gate_bundle"
proof -
  have ds: "details_of ex_gate_db ex_gate_details"
    by (simp add: details_of_def ex_gate_details_def ex_gate_tables) (simp add: ex_wiki_def ex_gate_tables)
  have "policy_of ex_gate_db ex_gate_policy"
    unfolding policy_of_def using ds
    by (intro exI [of _ "[ex_peer, ex_guest]"] exI [of _ "[]"] exI [of _ ex_gate_details])
      (simp add: ex_gate_tables ex_gate_policy_def BuildAccessPolicySpec_def groupLinkPairs_def groupAccessList_def)
  with ds show ?thesis unfolding snapshot_of_def
    by (intro exI [of _ ex_settings] exI [of _ "[ex_peer, ex_guest]"] exI [of _ "[]"] exI [of _ ex_gate_details])
      (simp add: ex_gate_tables ex_gate_bundle_def, simp add: ex_settings_def)
qed

definition ex_gate_stack :: Stack where
  "ex_gate_stack = (let f = (NewTUN (Addr4 10 0 0 1))\<lparr>tun_access := the (acp_Rules (Apply ex_gate_policy)),
       tun_reservedHubPorts := ReservedHubPorts HubTunnelWebPort [],
       tun_transparent := Snat.ReserveHubPorts (Reset (SetHubIP (applyTransparent (ap_Transparent ex_gate_policy)) (Addr4 10 0 0 1)))
         (ReservedHubPorts HubTunnelWebPort []), tun_mapVIPs := [Addr4 10 0 0 9]\<rparr>
     in (NewStack 51820)\<lparr>
       st_tunnelMgr := Some \<lparr>tm_filterTUN = f, tm_hubIP = Addr4 10 0 0 1, tm_listenPort = 51820, tm_closed = False\<rparr>,
       st_dnsServer := Some (UpdateDNS (sb_DNS ex_gate_bundle) (sb_Peers ex_gate_bundle) (NewServer ''10.0.0.1'' [])),
       st_forwardProxy := Some \<lparr>fp_hubIP = Addr4 10 0 0 1, fp_vpnSubnet = None, fp_serving = None\<rparr>,
       st_mapProxy := Some (install_rules (ingressMapRules (sb_Maps ex_gate_bundle)) (sb_Peers ex_gate_bundle) ex_map_proxy)\<rparr>)"

lemma ex_gate_carries: "carries ex_gate_stack ex_gate_bundle"
proof -
  have "parseMapVIPs (sb_Maps ex_gate_bundle) = [Addr4 10 0 0 9]"
    by (simp add: parseMapVIPs_def ex_gate_bundle_def ex_gate_details_def map_rule_def ex_wiki_def ex_gate_texts map_filter_simps)
  then show ?thesis
    by (simp add: carries_def ex_gate_stack_def Let_def tun_carries_def dns_carries_def forwards_carried_def maps_carried_def NewTUN_def
        UpdateDNS_def install_rules_def SetPeerGroups_def closeUDPSessions_def served_def ingressForwardRules_def)
      (simp add: ex_gate_bundle_def)
qed


end
