(* ===== verification/Loops.thy ===== *)
theory Loops
  imports Subnet Packet
begin

text \<open>
  How long the loops of the address allocator and of the Internet checksum run.
\<close>

section \<open>The allocator\<close>

text \<open>The search of \<^verbatim>\<open>nextFreeHostInSubnet\<close> with a count of the candidates it has looked at.\<close>

function free_host_count :: "ipnet \<Rightarrow> netip \<Rightarrow> string goset \<Rightarrow> nat \<Rightarrow> nat \<Rightarrow> nat \<Rightarrow> (err + string) \<times> nat" where
  "free_host_count ipNet base used i maxHosts seen =
     (if i < maxHosts then
        (let candidate = add_host base i in
         if \<not> net_contains ipNet candidate then (Inl ErrSubnetIPUnavailable, Suc seen)
         else if ip_string candidate \<notin> set used then (Inr (ip_string candidate), Suc seen)
         else free_host_count ipNet base used (Suc i) maxHosts (Suc seen))
      else (Inl ErrSubnetIPUnavailable, seen))"
  by pat_completeness auto
termination
  by (relation "measure (\<lambda>(_, _, _, i, m, _). m - i)") auto

declare free_host_count.simps [simp del]

lemma free_host_count_result: "fst (free_host_count n base used i m seen) = free_host_loop n base used i m"
  by (induction n base used i m seen rule: free_host_count.induct)
    (subst free_host_count.simps, subst free_host_loop.simps, auto simp: Let_def)

lemma free_host_count_length: "snd (free_host_count n base used i m seen) \<le> seen + (m - i)"
  by (induction n base used i m seen rule: free_host_count.induct) (subst free_host_count.simps, auto simp: Let_def)

text \<open>Every candidate but the last one is in use.\<close>

lemma free_host_count_used:
  assumes "inj_on (\<lambda>j. ip_string (add_host base j)) {i..<m}" "\<And>j. i \<le> j \<Longrightarrow> j < m \<Longrightarrow> net_contains n (add_host base j)"
  shows "snd (free_host_count n base used i m seen) \<le> seen + card (set used \<inter> (\<lambda>j. ip_string (add_host base j)) ` {i..<m}) + 1"
  using assms
proof (induction n base used i m seen rule: free_host_count.induct)
  case (1 n base used i m seen)
  let ?t = "\<lambda>j. ip_string (add_host base j)"
  show ?case
  proof (cases "i < m \<and> ?t i \<in> set used")
    case True
    have "inj_on ?t {Suc i..<m}" using 1(2) by (rule inj_on_subset) auto
    with 1 True have ih: "snd (free_host_count n base used (Suc i) m (Suc seen)) \<le> Suc seen + card (set used \<inter> ?t ` {Suc i..<m}) + 1"
      by simp
    have "{i..<m} = insert i {Suc i..<m}" using True by auto
    moreover have "?t i \<notin> ?t ` {Suc i..<m}" using 1(2) True by (auto dest: inj_onD)
    ultimately have "card (set used \<inter> ?t ` {i..<m}) = Suc (card (set used \<inter> ?t ` {Suc i..<m}))" using True by simp
    with ih True 1(3) show ?thesis by (subst free_host_count.simps) (simp add: Let_def)
  next
    case False
    then show ?thesis by (subst free_host_count.simps) (simp add: Let_def)
  qed
qed

text \<open>
  C40: the allocator's search ends after at most one candidate more than there are addresses in use,
  however large the subnet, and no later than the subnet's last host.
\<close>

theorem nextFreeHostInSubnet_steps:
  assumes "ParseCIDR subnet = Some (ip16, v4_net ip k)" "k \<le> 32" "length ip = 4"
  shows "\<exists>n \<le> min (card (set used) + 1) (2 ^ (32 - k) - 2).
    free_host_count (v4_net ip k) (net_ip (v4_net ip k)) used 2 (2 ^ (32 - k)) 0 = (nextFreeHostInSubnet subnet used, n)"
proof -
  let ?n = "v4_net ip k" and ?base = "net_ip (v4_net ip k)" and ?m = "2 ^ (32 - k) :: nat"
  let ?T = "(\<lambda>j. ip_string (add_host ?base j)) ` {2..<?m}" and ?out = "free_host_count (v4_net ip k) (net_ip (v4_net ip k)) used 2 (2 ^ (32 - k)) 0"
  have inside: "net_contains ?n (add_host ?base j)" if "j < ?m" for j
    using host_in_net(2) [OF assms(2,3) that] by (simp add: v4_net_def)
  then have "snd ?out \<le> card (set used \<inter> ?T) + 1"
    using free_host_count_used [OF host_strings_inj [OF assms(2,3)], of ?n used 0] by simp
  moreover have "card (set used \<inter> ?T) \<le> card (set used)" by (rule card_mono) auto
  ultimately have "snd ?out \<le> min (card (set used) + 1) (?m - 2)"
    using free_host_count_length [of ?n ?base used 2 ?m 0] by simp
  moreover have "fst ?out = nextFreeHostInSubnet subnet used"
    unfolding free_host_count_result nextFreeHostInSubnet_v4 [OF assms]
    using inside by (subst free_host_loop_find) (auto simp: free_hosts_def find_filter v4_net_def split: list.splits)
  ultimately show ?thesis by (metis prod.collapse)
qed

theorem nextFreeHostInSubnet_steps_witness:
  "\<exists>n \<le> 2. free_host_count (v4_net [10, 0, 0, 0] 24) (net_ip (v4_net [10, 0, 0, 0] 24)) [''10.0.0.2''] 2 256 0
     = (nextFreeHostInSubnet ''10.0.0.0/24'' [''10.0.0.2''], n)"
  using nextFreeHostInSubnet_steps [OF parse_slash24, of "[''10.0.0.2'']"] by auto

section \<open>The checksum\<close>

definition fold_round :: "u32 \<Rightarrow> u32" where
  "fold_round s = (s AND 0xffff) + drop_bit 16 s"

lemma unat_fold_round: "unat (fold_round s) = unat s mod 65536 + unat s div 65536"
proof (cases "drop_bit 16 s > 0")
  case True
  then show ?thesis by (simp add: fold_round_def fold_carry_less(2))
next
  case False
  then have "unat s < 65536" "drop_bit 16 s = 0" using hi16_pos [of s] by (auto simp: word_greater_zero_iff)
  moreover have "s AND 0xffff = take_bit 16 s" by (simp add: take_bit_eq_mask mask_eq_exp_minus_1)
  ultimately show ?thesis by (simp add: fold_round_def take_bit_eq_mod unat_mod)
qed

text \<open>The loop that folds the carries of a sum is two rounds, for a packet of any length.\<close>

lemma checksum_two_rounds: "ipChecksum b = NOT (ucast (fold_round (fold_round (ck_sum 0 b))))"
proof -
  have "fold_carry s = fold_round (fold_round s)" for s
  proof -
    let ?a = "fold_round s" and ?b = "fold_round (fold_round s)"
    have a: "unat ?a \<le> 131070"
      using unat_u32_bound [of s] unat_fold_round [of s] by (simp add: less_mult_imp_div_less) 
    have "unat ?b < 65536"
    proof (cases "unat ?a < 65536")
      case True
      then show ?thesis by (simp add: unat_fold_round [of ?a])
    next
      case False
      with a have "unat ?a div 65536 = 1" by linarith
      moreover have "unat ?a mod 65536 \<le> 65534" using a False by (simp add: mod_if [of "unat ?a"])
      ultimately show ?thesis by (simp only: unat_fold_round [of ?a])
    qed
    then have b: "fold_carry ?b = ?b" by (subst fold_carry.simps) (simp add: hi16_pos)
    have "fold_carry x = fold_carry (fold_round x)" for x
    proof (cases "drop_bit 16 x > 0")
      case True
      then show ?thesis by (subst fold_carry.simps) (simp add: fold_round_def)
    next
      case False
      then have "fold_round x = x" using unat_fold_round [of x] by (simp add: hi16_pos word_unat_eq_iff)
      then show ?thesis by simp
    qed
    then show ?thesis using b by metis
  qed
  then show ?thesis by (simp add: ipChecksum_def)
qed

end
