(* ===== verification/Startup.thy ===== *)
theory Startup
  imports Router
begin

text \<open>
  Starting the process: the command line flags and the JWT secret (\<^verbatim>\<open>config/config.go\<close>,
  \<^verbatim>\<open>config/jwt.go\<close>) and the wiring up to the moment the server listens (\<^verbatim>\<open>bootstrap/bootstrap.go\<close>).
  Outcomes of the file system, of the random source and of opening the database are arguments.
\<close>

section \<open>The JWT secret (\<^verbatim>\<open>config/jwt.go\<close>)\<close>

text \<open>\<^verbatim>\<open>base64.RawURLEncoding\<close>: the URL alphabet, without padding.\<close>

definition b64_raw_url :: "u8 list \<Rightarrow> string" where
  "b64_raw_url bytes = map (\<lambda>c. if c = CHR ''+'' then CHR ''-'' else if c = CHR ''/'' then CHR ''_'' else c)
     (filter (\<lambda>c. c \<noteq> CHR ''='') (b64_encode bytes))"

definition generateJWTSecret :: "err + u8 list \<Rightarrow> err + string" where
  "generateJWTSecret rnd = (case rnd of
     Inl e \<Rightarrow> Inl (Wrap ''generate jwt secret: '' e)
   | Inr buf \<Rightarrow> Inr (b64_raw_url buf))"

text \<open>
  The secret's file: its contents, or \<open>None\<close> when it cannot be read; \<open>wr\<close> is what \<^verbatim>\<open>WriteFile\<close> reports.
  The result comes with the contents that are in the file afterwards.
\<close>

definition loadOrCreateJWTSecret :: "err + u8 list \<Rightarrow> err option \<Rightarrow> string option \<Rightarrow> (err + string) \<times> string option" where
  "loadOrCreateJWTSecret rnd wr file =
     (if file \<noteq> None \<and> the file \<noteq> [] then (Inr (the file), file)
      else case generateJWTSecret rnd of
        Inl e \<Rightarrow> (Inl e, file)
      | Inr secret \<Rightarrow> (case wr of
          Some e \<Rightarrow> (Inl (Wrap ''write jwt secret: '' e), file)
        | None \<Rightarrow> (Inr secret, Some secret)))"

section \<open>Flags (\<^verbatim>\<open>config/config.go\<close>)\<close>

text \<open>
  \<^verbatim>\<open>filepath.Clean\<close> works on the elements between slashes: empty ones and dots vanish, a parent step
  takes back the element before it, and above the root it has nothing to take back.
\<close>

definition clean_step :: "bool \<Rightarrow> string \<Rightarrow> string list \<Rightarrow> string list" where
  "clean_step rooted e out =
     (if e = [] \<or> e = ''.'' then out
      else if e = ''..'' then
        (if out \<noteq> [] \<and> hd out \<noteq> ''..'' then tl out else if rooted then out else e # out)
      else e # out)"

definition filepath_Clean :: "string \<Rightarrow> string" where
  "filepath_Clean path =
     (let rooted = has_prefix path ''/'';
          out = join_with ''/'' (rev (fold (clean_step rooted) (split_on (CHR ''/'') path) []))
      in if rooted then ''/'' @ out else if out = [] then ''.'' else out)"

definition filepath_Join :: "string \<Rightarrow> string \<Rightarrow> string" where
  "filepath_Join a b = (if a = [] \<and> b = [] then [] else filepath_Clean (if a = [] then b else if b = [] then a else a @ ''/'' @ b))"

definition DefaultBind :: string where "DefaultBind = ''0.0.0.0''"
definition DefaultDataDir :: string where "DefaultDataDir = ''./data''"

record RuntimeConfig =
  rc_Bind :: string
  rc_Port :: int
  rc_DataDir :: string
  rc_ListenAddr :: string
  rc_DatabasePath :: string
  rc_JWTSecret :: string

text \<open>
  The flags as \<^verbatim>\<open>flag.Parse\<close> leaves them; \<open>mk\<close> is what \<^verbatim>\<open>MkdirAll\<close> reports for the data directory, \<open>secret\<close>
  what the secret's file at a path yields.
\<close>

definition ParseFlags :: "(string \<Rightarrow> err option) \<Rightarrow> (string \<Rightarrow> err + string) \<Rightarrow>
    int \<Rightarrow> string \<Rightarrow> string \<Rightarrow> err + RuntimeConfig" where
  "ParseFlags mk secret port bind dataDir =
     (if port \<le> 0 \<or> port > 65535 then Inl (Errorf ''port must be between 1 and 65535'')
      else let dataDirPath = (if dataDir = [] then DefaultDataDir else dataDir) in
      case mk dataDirPath of
        Some e \<Rightarrow> Inl (Wrap ''create data dir: '' e)
      | None \<Rightarrow> (case secret (filepath_Join dataDirPath ''.jwt_secret'') of
          Inl e \<Rightarrow> Inl e
        | Inr jwtSecret \<Rightarrow>
            let bindAddr = (if bind = [] then DefaultBind else bind) in
            Inr \<lparr>rc_Bind = bindAddr, rc_Port = port, rc_DataDir = dataDirPath,
              rc_ListenAddr = bindAddr @ '':'' @ itoa_int port, rc_DatabasePath = filepath_Join dataDirPath ''wirehub.db'',
              rc_JWTSecret = jwtSecret\<rparr>))"

section \<open>Wiring (\<^verbatim>\<open>bootstrap.go\<close>, \<^verbatim>\<open>service/app.go\<close>)\<close>

definition NewApp :: "st \<Rightarrow> 'rt App" where
  "NewApp st = \<lparr>app_store = st, app_setupToken = [], app_net = None, app_live = False, app_poller = None\<rparr>"

definition SetNetworkRuntime :: "'rt \<Rightarrow> 'rt App \<Rightarrow> 'rt App" where
  "SetNetworkRuntime rt a = a\<lparr>app_net := Some rt\<rparr>"

definition IsUnspecified :: "addr \<Rightarrow> bool" where
  "IsUnspecified addr = (addr = Addr4 0 0 0 0 \<or> addr = Addr6 (replicate 16 0) [])"

text \<open>Where the setup page is reached: a hub bound to every interface is reached locally.\<close>

definition setupURLHost :: "RuntimeConfig \<Rightarrow> string" where
  "setupURLHost cfg = (case ParseAddr (rc_Bind cfg) of
     Some addr \<Rightarrow> if IsUnspecified addr then ''localhost:'' @ itoa_int (rc_Port cfg) else rc_ListenAddr cfg
   | None \<Rightarrow> rc_ListenAddr cfg)"

text \<open>
  \<^verbatim>\<open>Run\<close> up to listening: \<open>opened\<close> is the store \<^verbatim>\<open>repo.New\<close> opened, \<open>rt\<close> the fresh runtime stack, \<open>mounted\<close>
  what mounting the web interface reports.  On an error the process ends.
\<close>

definition Run :: "'rt net_ops \<Rightarrow> sql \<Rightarrow> u8 list \<Rightarrow> err + st \<Rightarrow> 'rt \<Rightarrow> err option \<Rightarrow> err + 'rt Server" where
  "Run ops exec random opened rt mounted = (case opened of
     Inl e \<Rightarrow> Inl e
   | Inr st \<Rightarrow> (case store (IsConfigured exec) (NewApp st) of
       (Inl e, _) \<Rightarrow> Inl e
     | (Inr configured, app) \<Rightarrow>
         let apiSrv = Handlers.NewServer app [];
             apiSrv = (if configured then apiSrv else snd (RegenerateSetupToken random apiSrv));
             apiSrv = apiSrv\<lparr>sv_App := SetNetworkRuntime rt (sv_App apiSrv)\<rparr>
         in (case mounted of
              Some e \<Rightarrow> Inl e
            | None \<Rightarrow>
                if configured then
                  (case andthen (store (loadSyncBundle exec)) (net_Start ops exec) (sv_App apiSrv) of
                     (Inl e, _) \<Rightarrow> Inl e
                   | (Inr _, app) \<Rightarrow> Inr (apiSrv\<lparr>sv_App := app\<rparr>))
                else Inr apiSrv)))"

end
