(* ===== verification/Reads.thy ===== *)
theory Reads
  imports Service_Inv Router
begin

text \<open>
  The operations that only read: whatever statements fail, the database is afterwards what it was.  The
  rules follow the structure of a program, so each operation is shown to be one of them by unfolding it.
\<close>

definition reads :: "'a prog \<Rightarrow> bool" where
  "reads m = (\<forall>db0. hoare (Store_Inv.at db0) m (\<lambda>_. Store_Inv.at db0) (Store_Inv.at db0))"

named_theorems reads_intro "programs that only read"

lemma readsD: "reads m \<Longrightarrow> hoare (Store_Inv.at db0) m (\<lambda>_ db. Store_Inv.at db0 db \<and> True) (Store_Inv.at db0)"
  by (simp add: reads_def)

lemma reads_basic [reads_intro]: "reads (ret x)" "reads (fail e)" "reads (lift_res r)"
  by (auto simp: reads_def intro: hoare_ret hoare_fail hoare_lift)

lemma reads_andthen [reads_intro]: "reads m \<Longrightarrow> (\<And>x. reads (f x)) \<Longrightarrow> reads (andthen m f)"
  unfolding reads_def by (blast intro: hoare_andthen)

lemma reads_attempt [reads_intro]: "reads m \<Longrightarrow> reads (attempt m)"
  unfolding reads_def by (intro allI hoare_attempt) (auto elim: hoare_weaken)

lemma reads_if [reads_intro]: "reads m \<Longrightarrow> reads m' \<Longrightarrow> reads (if b then m else m')"
  by simp

lemma reads_cases [reads_intro]:
  "reads m \<Longrightarrow> (\<And>x. reads (f x)) \<Longrightarrow> reads (case v of None \<Rightarrow> m | Some x \<Rightarrow> f x)"
  "(\<And>x. reads (g x)) \<Longrightarrow> (\<And>y. reads (h y)) \<Longrightarrow> reads (case w of Inl x \<Rightarrow> g x | Inr y \<Rightarrow> h y)"
  "(\<And>x y. reads (k x y)) \<Longrightarrow> reads (case p of (x, y) \<Rightarrow> k x y)"
  by (auto split: option.split sum.split prod.split)

lemma reads_row [reads_intro]:
  "(\<And>x. reads (f1 x)) \<Longrightarrow> (\<And>x. reads (f2 x)) \<Longrightarrow> (\<And>x. reads (f3 x)) \<Longrightarrow> (\<And>x. reads (f4 x)) \<Longrightarrow> (\<And>x. reads (f5 x)) \<Longrightarrow>
   (\<And>x. reads (f6 x)) \<Longrightarrow> (\<And>x. reads (f7 x)) \<Longrightarrow> (\<And>x. reads (f8 x)) \<Longrightarrow> (\<And>x. reads (f9 x)) \<Longrightarrow>
   reads (case r of RAdmin x \<Rightarrow> f1 x | RSettings x \<Rightarrow> f2 x | RPeer x \<Rightarrow> f3 x | RGroup x \<Rightarrow> f4 x | RLink x \<Rightarrow> f5 x
     | RDNS x \<Rightarrow> f6 x | RForward x \<Rightarrow> f7 x | RMap x \<Rightarrow> f8 x | RAllow x \<Rightarrow> f9 x)"
  by (cases r) simp_all

lemma reads_dropped [reads_intro]: "reads m \<Longrightarrow> reads (or_err e m)" "reads l \<Longrightarrow> reads (or_empty l)"
  unfolding or_err_def or_empty_def by (auto intro!: reads_intro split: sum.split)

lemma reads_let [reads_intro]: "reads (f x) \<Longrightarrow> reads (let y = x in f y)"
  by simp

lemma reads_select: "sql_ok exec \<Longrightarrow> reads (run exec (Select t W))"
  unfolding reads_def by (intro allI hoare_run) auto

lemma reads_rows:
  assumes "sql_ok exec"
  shows "reads (find_rows exec t)" "reads (first_row exec t W)" "reads (count_rows exec t W)"
  unfolding find_rows_def first_row_def count_rows_def by (intro reads_intro reads_select [OF assms])+

lemma reads_first:
  assumes "sql_ok exec"
  shows "reads (first_admin exec P1)" "reads (first_settings exec)" "reads (first_peer exec P2)" "reads (first_group exec P3)"
  unfolding first_admin_def first_settings_def first_peer_def first_group_def
  by (intro reads_intro reads_rows [OF assms])+

lemma reads_lists:
  assumes "sql_ok exec"
  shows "reads (ListPeers exec)" "reads (ListGroups exec)" "reads (ListGroupLinks exec)" "reads (ListPortForwards exec)"
    "reads (ListServiceMaps exec)" "reads (CountPeersByGroup exec)" "reads (ListMapGroupIDs exec i)"
  unfolding ListPeers_def ListGroups_def ListGroupLinks_def ListPortForwards_def ListServiceMaps_def CountPeersByGroup_def
    ListMapGroupIDs_def
  by (intro reads_intro reads_rows [OF assms] reads_select [OF assms])+

lemma reads_map_details: "sql_ok exec \<Longrightarrow> reads (map_details exec ms)"
  by (induction ms) (auto intro!: reads_intro reads_lists)

lemma reads_store:
  assumes "sql_ok exec"
  shows "reads (GetSettings exec)" "reads (GetPeer exec i)" "reads (GetGroup exec i)" "reads (GetAdminByUsername exec u)"
    "reads (GetAdminByID exec i)" "reads (GetPrimaryAdmin exec)" "reads (ListMapDetails exec)" "reads (IsConfigured exec)"
  unfolding GetSettings_def GetPeer_def GetGroup_def GetAdminByUsername_def GetAdminByID_def GetPrimaryAdmin_def ListMapDetails_def
    IsConfigured_def
  by (intro reads_intro reads_first [OF assms] reads_rows [OF assms] reads_lists [OF assms] reads_map_details [OF assms])+

lemma reads_service:
  assumes "sql_ok exec"
  shows "reads (getGroupNameMap exec)" "reads (SetupStatus exec)" "reads (svc_ListGroups exec)" "reads (GroupGraph exec)"
    "reads (svc_ListMapDetails exec)" "reads (svc_ListPortForwards exec)" "reads (GetSettingsView exec)"
    "reads (ClientConfig exec i)" "reads (AuthenticateAdmin exec verify user password)"
    "reads (ValidateAdminSession exec i v)" "reads (VerifyAdminPassword exec verify user password)"
  unfolding getGroupNameMap_def SetupStatus_def svc_ListGroups_def GroupGraph_def svc_ListMapDetails_def svc_ListPortForwards_def
    GetSettingsView_def ClientConfig_def VerifyAdminPassword_def AuthenticateAdmin_def ValidateAdminSession_def
  by (intro reads_intro reads_store [OF assms] reads_lists [OF assms])+

lemma reads_api:
  assumes "sql_ok exec"
  shows "reads (svc_ListPeers exec)" "reads (buildMessage exec now)" "reads (auth_Login j secret exec verify now user password)"
    "reads (ParseToken j secret exec now tok)"
  unfolding svc_ListPeers_def buildMessage_def auth_Login_def ParseToken_def
  by (intro reads_intro reads_service [OF assms] reads_store [OF assms] reads_lists [OF assms])+

lemma reads_env:
  assumes "sql_ok (en_exec en)"
  shows "reads (BuildJSON en)" "reads (Middleware j secret (en_exec en) now header)"
  unfolding BuildJSON_def Middleware_def by (intro reads_intro reads_api [OF assms])+

end
