(* ===== verification/Net_View.thy ===== *)
theory Net_View
  imports Snapshot
begin

text \<open>
  What the data plane sees of the database.  Accounts, DNS rows, the counters of peers and the names and
  canvas positions of groups do not reach it, so the operations that change nothing else may leave out
  the reconciliation: a snapshot taken before them is still one of the database after them.
\<close>

section \<open>The part of the database that reaches the data plane\<close>

fun net_row :: "row \<Rightarrow> row option" where
  "net_row (RAdmin _) = None"
| "net_row (RDNS _) = None"
| "net_row (RPeer p) = Some (RPeer (p\<lparr>p_LastHandshake := 0, p_RxBytes := 0, p_TxBytes := 0\<rparr>))"
| "net_row (RGroup g) = Some (RGroup (g\<lparr>g_Name := [], g_PosX := 0, g_PosY := 0\<rparr>))"
| "net_row (RSettings x) = Some (RSettings x)"
| "net_row (RLink x) = Some (RLink x)"
| "net_row (RForward x) = Some (RForward x)"
| "net_row (RMap x) = Some (RMap x)"
| "net_row (RAllow x) = Some (RAllow x)"

definition net_view :: "db \<Rightarrow> db" where
  "net_view db = List.map_filter net_row db"

definition blank_peer :: "Peer \<Rightarrow> Peer" where
  "blank_peer p = p\<lparr>p_LastHandshake := 0, p_RxBytes := 0, p_TxBytes := 0\<rparr>"

definition blank_group :: "PeerGroup \<Rightarrow> PeerGroup" where
  "blank_group g = g\<lparr>g_Name := [], g_PosX := 0, g_PosY := 0\<rparr>"

lemma net_view_tables:
  "t_settings (net_view db) = t_settings db" "t_links (net_view db) = t_links db" "t_forwards (net_view db) = t_forwards db"
  "t_maps (net_view db) = t_maps db" "t_allows (net_view db) = t_allows db"
  "t_peers (net_view db) = map blank_peer (t_peers db)" "t_groups (net_view db) = map blank_group (t_groups db)"
  unfolding net_view_def table_defs
  by (induction db; simp add: map_filter_simps blank_peer_def blank_group_def split: row.split)+

lemma mset_map_preimage: "mset ys = mset (map f xs) \<Longrightarrow> \<exists>zs. mset zs = mset xs \<and> ys = map f zs"
proof (induction ys arbitrary: xs)
  case (Cons y ys)
  then have "y \<in> set (map f xs)" by (metis list.set_intros(1) mset_eq_setD)
  then obtain us x vs where xs: "xs = us @ x # vs" "y = f x" by (auto simp: image_iff dest: split_list)
  with Cons.prems have "mset ys = mset (map f (us @ vs))" by simp
  from Cons.IH [OF this] obtain zs where "mset zs = mset (us @ vs)" "ys = map f zs" by blast
  with xs show ?case by (intro exI [of _ "x # zs"]) simp
qed simp

lemma blank_seen: "peerEndpoints (map blank_peer ps) = peerEndpoints ps" "map wg_peer (map blank_peer ps) = map wg_peer ps"
  "groupAccessList (map blank_group gs) = groupAccessList gs"
  by (simp_all add: peerEndpoints_def groupAccessList_def wg_peer_def blank_peer_def blank_group_def)

lemma allowed_in_view: "allowed_in (net_view db) = allowed_in db"
  by (rule ext) (simp add: allowed_in_def net_view_tables)

lemma details_of_view: "details_of (net_view db) ds = details_of db ds"
  by (simp add: details_of_def net_view_tables allowed_in_view)

lemma policy_of_view: "policy_of (net_view db) spec = policy_of db spec"
proof
  assume "policy_of (net_view db) spec"
  then obtain ps ls gs ds where o: "mset ps = mset (map blank_peer (t_peers db))" "mset ls = mset (t_links db)"
    "mset gs = mset (map blank_group (t_groups db))" "details_of db ds"
    "BuildAccessPolicySpec (peerEndpoints ps) (groupLinkPairs ls) (NewGroupAccessPolicy (groupAccessList gs)) (map_access_of ds) = Inr spec"
    unfolding policy_of_def net_view_tables details_of_view by blast
  from mset_map_preimage [OF o(1)] mset_map_preimage [OF o(3)]
  obtain ps' gs' where "mset ps' = mset (t_peers db)" "ps = map blank_peer ps'" "mset gs' = mset (t_groups db)" "gs = map blank_group gs'"
    by blast
  with o(2,4,5) show "policy_of db spec" unfolding policy_of_def blank_seen by (metis blank_seen(1,3))
next
  assume "policy_of db spec"
  then obtain ps ls gs ds where o: "mset ps = mset (t_peers db)" "mset ls = mset (t_links db)" "mset gs = mset (t_groups db)" "details_of db ds"
    "BuildAccessPolicySpec (peerEndpoints ps) (groupLinkPairs ls) (NewGroupAccessPolicy (groupAccessList gs)) (map_access_of ds) = Inr spec"
    unfolding policy_of_def by blast
  then show "policy_of (net_view db) spec" unfolding policy_of_def net_view_tables details_of_view
    by (intro exI [of _ "map blank_peer ps"] exI [of _ ls] exI [of _ "map blank_group gs"] exI [of _ ds]) (simp add: blank_seen)
qed

lemma snapshot_of_view: "snapshot_of (net_view db) b = snapshot_of db b"
proof
  assume "snapshot_of (net_view db) b"
  then obtain st ps fs ds where o: "st \<in> set (t_settings db)" "sb_Settings b = net_settings st"
    "mset ps = mset (map blank_peer (t_peers db))" "sb_Peers b = map wg_peer ps" "mset fs = mset (t_forwards db)"
    "sb_Forwards b = map forward_rule fs" "details_of db ds" "sb_Maps b = map map_rule ds"
    "sb_DNS b = BuildDNSCatalog (se_HubIP st) (sb_Peers b) (sb_Maps b)" "policy_of db (sb_Policy b)"
    unfolding snapshot_of_def net_view_tables details_of_view policy_of_view by blast
  from mset_map_preimage [OF o(3)] obtain ps' where "mset ps' = mset (t_peers db)" "ps = map blank_peer ps'" by blast
  with o show "snapshot_of db b" unfolding snapshot_of_def by (metis blank_seen(2))
next
  assume "snapshot_of db b"
  then obtain st ps fs ds where o: "st \<in> set (t_settings db)" "sb_Settings b = net_settings st"
    "mset ps = mset (t_peers db)" "sb_Peers b = map wg_peer ps" "mset fs = mset (t_forwards db)"
    "sb_Forwards b = map forward_rule fs" "details_of db ds" "sb_Maps b = map map_rule ds"
    "sb_DNS b = BuildDNSCatalog (se_HubIP st) (sb_Peers b) (sb_Maps b)" "policy_of db (sb_Policy b)"
    unfolding snapshot_of_def by blast
  then show "snapshot_of (net_view db) b" unfolding snapshot_of_def net_view_tables details_of_view policy_of_view
    by (intro exI [of _ st] exI [of _ "map blank_peer ps"] exI [of _ fs] exI [of _ ds]) (simp add: blank_seen [simplified])
qed

lemma snapshot_unseen: "net_view db' = net_view db \<Longrightarrow> snapshot_of db b \<Longrightarrow> snapshot_of db' b"
  by (metis snapshot_of_view)

section \<open>Changes the data plane does not see\<close>

definition unseen :: "db \<Rightarrow> db \<Rightarrow> bool" where
  "unseen db0 db = (uniq_ok db \<and> net_view db = net_view db0)"

abbreviation unseen_by :: "'a prog \<Rightarrow> bool" where
  "unseen_by m \<equiv> \<forall>db0. hoare (unseen db0) m (\<lambda>_. unseen db0) (unseen db0)"

lemma unseen_from:
  assumes "\<And>db0. hoare (Store_Inv.at db0) m (\<lambda>_. unseen db0) (unseen db0)"
  shows "unseen_by m"
proof (rule allI, rule hoare_assume)
  fix db0 db1 assume u: "unseen db0 db1"
  then show "hoare (\<lambda>db. db = db1) m (\<lambda>_. unseen db0) (unseen db0)"
    by (intro hoare_weaken [OF assms [of db1]]) (auto simp: unseen_def)
qed

lemma net_view_rewrite:
  "(\<And>x. x \<in> set db \<Longrightarrow> net_row (f x) = net_row x) \<Longrightarrow> net_view (map f db) = net_view db"
  unfolding net_view_def by (induction db) (auto simp: map_filter_simps split: option.splits)

lemma update_unseen:
  assumes "sql_ok exec" "\<And>x. table_of x = t \<Longrightarrow> net_row (f x) = net_row x"
  shows "unseen_by (exec_stmt exec (Update t W f))"
proof (intro unseen_from hoare_stmt [OF assms(1)])
  fix db0 db db' rows assume db: "Store_Inv.at db0 db" and "uniq_ok db'" "sem (Update t W f) db db' rows"
  moreover have "net_view (map (\<lambda>x. if table_of x = t \<and> W x then f x else x) db0) = net_view db0"
    by (rule net_view_rewrite) (simp add: assms(2))
  ultimately show "unseen db0 db'" by (simp add: unseen_def)
qed (simp add: unseen_def)

lemma save_group_unseen:
  assumes "sql_ok exec" "h \<in> set (t_groups db0)" "g_ID g = g_ID h" "blank_group g = blank_group h"
  shows "hoare (Store_Inv.at db0) (exec_stmt exec (Save (RGroup g))) (\<lambda>_. unseen db0) (unseen db0)"
proof (rule hoare_stmt [OF assms(1)])
  fix db db' rows assume db: "Store_Inv.at db0 db" and u: "uniq_ok db'" and s: "sem (Save (RGroup g)) db db' rows"
  have mem: "RGroup h \<in> set db0" using assms(2) by (simp add: set_tables)
  have inj: "inj_on (\<lambda>r. (table_of r, key_of r)) (set db0)" using db by (auto simp: uniq_ok_def distinct_map)
  have "net_row (if table_of x = TGroup \<and> key_of x = (g_ID g, 0) then RGroup g else x) = net_row x" if "x \<in> set db0" for x
  proof -
    have "x = RGroup h" if "table_of x = TGroup" "key_of x = (g_ID g, 0)"
      by (rule inj_onD [OF inj _ \<open>x \<in> set db0\<close> mem]) (simp add: that assms(3))
    then show ?thesis using assms(4) by (auto simp: blank_group_def)
  qed
  then have "net_view (map (\<lambda>x. if table_of x = TGroup \<and> key_of x = (g_ID g, 0) then RGroup g else x) db0) = net_view db0"
    by (rule net_view_rewrite)
  moreover have "db' = map (\<lambda>x. if table_of x = TGroup \<and> key_of x = (g_ID g, 0) then RGroup g else x) db0"
    using saved [OF s, of "RGroup h"] mem db assms(3) by simp
  ultimately show "unseen db0 db'" using u by (simp add: unseen_def)
qed (auto simp: unseen_def)

lemma unseen_attempt: "unseen_by m \<Longrightarrow> unseen_by (attempt m)"
  by (intro allI hoare_attempt, erule allE, erule hoare_weaken) auto

lemma unseen_ignore: "unseen_by m \<Longrightarrow> unseen_by (ignore m)"
  unfolding ignore_def by (intro allI hoare_andthen [where R = "\<lambda>_. unseen _"] hoare_ret) (auto dest: unseen_attempt)

lemma unseen_for_each: "(\<And>x. x \<in> set xs \<Longrightarrow> unseen_by (f x)) \<Longrightarrow> unseen_by (for_each xs f)"
  by (auto intro: hoare_for_each)

section \<open>Operations\<close>

lemma UpdatePeerStats_unseen: "sql_ok exec \<Longrightarrow> unseen_by (UpdatePeerStats exec i hs rx tx)"
  unfolding UpdatePeerStats_def by (rule update_unseen) (auto split: row.splits)

lemma stats_update_unseen: "sql_ok exec \<Longrightarrow> unseen_by (for_each peers (stats_update exec stats))"
proof (rule unseen_for_each)
  fix p assume "sql_ok exec"
  then show "unseen_by (stats_update exec stats p)"
    unfolding stats_update_def
    using unseen_ignore [OF UpdatePeerStats_unseen] by (cases "mget stats (p_PublicKey p)") (auto intro: hoare_ret)
qed

lemma GetGroup_unseen:
  assumes "sql_ok exec" "\<And>g. g \<in> set (t_groups db0) \<Longrightarrow> g_ID g = i \<Longrightarrow> hoare (Store_Inv.at db0) (k g) (\<lambda>_. unseen db0) (unseen db0)"
  shows "hoare (Store_Inv.at db0) (andthen (GetGroup exec i) k) (\<lambda>_. unseen db0) (unseen db0)"
  by (rule hoare_read, rule hoare_weaken [OF GetGroup_at [OF assms(1)]]) (use assms(2) in \<open>auto simp: unseen_def\<close>)

lemma RenameGroup_unseen:
  assumes ok: "sql_ok exec"
  shows "hoare (Store_Inv.at db0) (RenameGroup exec i n) (\<lambda>_. unseen db0) (unseen db0)"
  unfolding RenameGroup_def Let_def
proof (rule hoare_if, rule hoare_fail, simp add: unseen_def, rule GetGroup_unseen [OF ok], rule hoare_if, rule hoare_ret, simp add: unseen_def,
    rule hoare_read, rule hoare_weaken [OF count_at [OF ok]])
  fix g assume "g \<in> set (t_groups db0)"
  from save_group_unseen [OF ok this, of "g\<lparr>g_Name := trim_space n\<rparr>"]
  have save: "hoare (Store_Inv.at db0) (exec_stmt exec (Save (RGroup (g\<lparr>g_Name := trim_space n\<rparr>)))) (\<lambda>_. unseen db0) (unseen db0)"
    by (simp add: blank_group_def)
  show "hoare (Store_Inv.at db0) (if count > 0 then fail (Errorf ''group name already exists'')
      else andthen (exec_stmt exec (Save (RGroup (g\<lparr>g_Name := trim_space n\<rparr>)))) (\<lambda>_. ret (g\<lparr>g_Name := trim_space n\<rparr>)))
     (\<lambda>_. unseen db0) (unseen db0)" for count
    by (rule hoare_if, rule hoare_fail, simp add: unseen_def, rule hoare_andthen [OF save], rule hoare_ret)
qed (auto simp: unseen_def)

lemma update_group_db_unseen:
  assumes ok: "sql_ok exec" and n: "\<not> needs_runtime inp"
  shows "unseen_by (update_group_db exec i inp)"
  unfolding update_group_db_def Let_def if_not_P [OF n]
proof (rule unseen_from, rule GetGroup_unseen [OF ok], rule hoare_andthen)
  fix db0 g
  show "hoare (Store_Inv.at db0) (case ug_Name inp of None \<Rightarrow> ret g | Some n \<Rightarrow> RenameGroup exec i n) (\<lambda>_. unseen db0) (unseen db0)"
    using RenameGroup_unseen [OF ok] by (auto simp: unseen_def split: option.split intro: hoare_ret)
qed (rule hoare_ret)

lemma layout_unseen:
  assumes ok: "sql_ok exec"
  shows "unseen_by (UpdateGroupLayout exec items)"
  unfolding UpdateGroupLayout_def
proof (rule unseen_for_each, rule unseen_from)
  fix item db0
  show "hoare (Store_Inv.at db0) (layout_item exec item) (\<lambda>_. unseen db0) (unseen db0)"
    unfolding layout_item_def
  proof (rule hoare_read, rule hoare_weaken [OF attempt_at [OF GetGroup_at [OF ok]]])
    fix r assume r: "case r of Inl _ \<Rightarrow> True | Inr g \<Rightarrow> g \<in> set (t_groups db0) \<and> g_ID g = ly_ID item"
    show "hoare (Store_Inv.at db0) (case r of Inl _ \<Rightarrow> ret ()
       | Inr g \<Rightarrow> ignore (Store.UpdateGroup exec (g\<lparr>g_PosX := ly_PosX item, g_PosY := ly_PosY item\<rparr>))) (\<lambda>_. unseen db0) (unseen db0)"
    proof (cases r)
      case (Inr g)
      with r save_group_unseen [OF ok, of g db0 "g\<lparr>g_PosX := ly_PosX item, g_PosY := ly_PosY item\<rparr>"]
      show ?thesis by (auto simp: Store.UpdateGroup_def blank_group_def intro: ignore_good)
    qed (auto simp: unseen_def intro: hoare_ret)
  qed (auto simp: unseen_def)
qed

lemma ChangeAdminPassword_unseen:
  assumes ok: "sql_ok exec"
  shows "unseen_by (ChangeAdminPassword exec bcrypt verify u cur new)"
  unfolding ChangeAdminPassword_def GetAdminByUsername_def
proof (rule unseen_from, rule hoare_read, rule hoare_weaken [OF first_typed_at(1) [OF ok]])
  fix db0 adm
  have w: "unseen_by (UpdateAdminPassword exec bcrypt (ad_ID adm) new)"
    unfolding UpdateAdminPassword_def
  proof
    fix db0
    show "hoare (unseen db0) (andthen (lift_res (HashPassword bcrypt new)) (\<lambda>hash. exec_stmt exec (Update TAdmin (on_admin (\<lambda>a. ad_ID a = ad_ID adm))
        (\<lambda>r. case r of RAdmin a \<Rightarrow> RAdmin (a\<lparr>ad_PasswordHash := hash, ad_TokenVersion := ad_TokenVersion a + 1\<rparr>) | x \<Rightarrow> x))))
      (\<lambda>_. unseen db0) (unseen db0)"
      by (rule hoare_lift_read, rule spec [OF update_unseen [OF ok]]) (auto split: row.splits)
  qed
  show "hoare (Store_Inv.at db0) (if \<not> verify (ad_PasswordHash adm) cur then fail ErrInvalidAdminPassword
      else UpdateAdminPassword exec bcrypt (ad_ID adm) new) (\<lambda>_. unseen db0) (unseen db0)"
    by (rule hoare_if, rule hoare_fail, simp add: unseen_def, rule hoare_weaken [OF spec [OF w]]) (auto simp: unseen_def)
qed (auto simp: unseen_def)

end
