(* ===== verification/System.thy ===== *)
theory System
  imports Router_Props Startup Reads Net_View
begin

text \<open>
  The served hub: the process from its start, through any requests, to any later state.  Each handler
  is taken apart into what it reads and the one operation by which it may change the hub; what such an
  operation leaves behind is shown once for every data plane that keeps its contract.
\<close>

section \<open>A data plane with DNS and statistics\<close>

locale polled_runtime = network_runtime +
  assumes dns_law: "ok s \<Longrightarrow> ok (op_SetDNSUpstream ops u s) \<and> live (op_SetDNSUpstream ops u s) = live s \<and>
      (carried s b \<longrightarrow> carried (op_SetDNSUpstream ops u s) b)"
    and stats_law: "ok s \<Longrightarrow> op_GetStats ops s = (q, s') \<Longrightarrow> s' = s"
begin

text \<open>
  \<open>sound\<close> holds in every state; \<open>current\<close> says that a data plane that is up carries a snapshot of the
  database as it is.
\<close>

definition sound :: "'a App \<Rightarrow> bool" where
  "sound a = (good (snd (app_store a)) \<and> app_ok a)"

definition current :: "'a App \<Rightarrow> bool" where
  "current a = (\<not> app_live a \<or> fresh (snd (app_store a)) a)"

definition same_db :: "'a App \<Rightarrow> 'a App \<Rightarrow> bool" where
  "same_db a a' = (snd (app_store a') = snd (app_store a))"

text \<open>
  Four kinds of operations: those that leave the database alone, those that keep a current hub current,
  those that end with a current hub, and those that keep a current hub current or fail after having
  changed the database.
\<close>

definition still :: "('a, 'b) svc \<Rightarrow> bool" where
  "still m = (\<forall>a r a'. sound a \<and> m a = (r, a') \<longrightarrow> sound a' \<and> (current a \<longrightarrow> current a') \<and> same_db a a')"

definition sustains :: "('a, 'b) svc \<Rightarrow> bool" where
  "sustains m = (\<forall>a r a'. sound a \<and> m a = (r, a') \<longrightarrow> sound a' \<and> (current a \<longrightarrow> current a'))"

definition settles :: "('a, 'b) svc \<Rightarrow> bool" where
  "settles m = (\<forall>a r a'. sound a \<and> m a = (r, a') \<longrightarrow> sound a' \<and> current a')"

definition takes :: "('a, 'b) svc \<Rightarrow> bool" where
  "takes m = (\<forall>a r a'. sound a \<and> m a = (r, a') \<longrightarrow> sound a' \<and>
     (current a \<longrightarrow> current a' \<or> \<not> is_ok r \<and> \<not> same_db a a'))"

lemma app_same: "app_net a' = app_net a \<Longrightarrow> app_live a' = app_live a \<Longrightarrow> app_ok a' = app_ok a \<and> fresh db a' = fresh db a"
  by (cases "app_net a") (simp_all add: app_ok_def fresh_def)

lemma stillD: "still m \<Longrightarrow> sound a \<Longrightarrow> m a = (r, a') \<Longrightarrow> sound a' \<and> (current a \<longrightarrow> current a') \<and> same_db a a'"
  and sustainsD: "sustains m \<Longrightarrow> sound a \<Longrightarrow> m a = (r, a') \<Longrightarrow> sound a' \<and> (current a \<longrightarrow> current a')"
  and settlesD: "settles n \<Longrightarrow> sound a \<Longrightarrow> n a = (r, a') \<Longrightarrow> sound a' \<and> current a'"
  and takesD: "takes k \<Longrightarrow> sound a \<Longrightarrow> k a = (q, a') \<Longrightarrow> sound a' \<and> (current a \<longrightarrow> current a' \<or> \<not> is_ok q \<and> \<not> same_db a a')"
  unfolding still_def sustains_def settles_def takes_def by blast+

lemma still_sustains: "still m \<Longrightarrow> sustains m"
  by (simp add: still_def sustains_def)

lemma settles_sustains: "settles m \<Longrightarrow> sustains m"
  by (simp add: settles_def sustains_def)

lemma sustains_takes: "sustains m \<Longrightarrow> takes m"
  by (auto simp: sustains_def takes_def)

lemma still_ret: "still (ret x)" "still (fail e)" "still (lift_res y)"
  by (simp_all add: still_def ret_def fail_def lift_res_def same_db_def)

lemma still_andthen:
  assumes "still m" "\<And>x. still (f x)"
  shows "still (andthen m f)"
  unfolding still_def
proof (intro allI impI, elim conjE)
  fix a r a' assume a: "sound a" "andthen m f a = (r, a')"
  from a(2) show "sound a' \<and> (current a \<longrightarrow> current a') \<and> same_db a a'"
  proof (cases rule: andthen_cases)
    case (err e)
    from stillD [OF assms(1) a(1) err(1)] show ?thesis .
  next
    case (ok x s)
    note 1 = stillD [OF assms(1) a(1) ok(1)]
    from stillD [OF assms(2) conjunct1 [OF 1] ok(2)] 1 show ?thesis by (simp add: same_db_def)
  qed
qed

lemma settles_andthen:
  assumes "settles m" "\<And>x. still (f x)"
  shows "settles (andthen m f)"
  unfolding settles_def
proof (intro allI impI, elim conjE)
  fix a r a' assume a: "sound a" "andthen m f a = (r, a')"
  from a(2) show "sound a' \<and> current a'"
  proof (cases rule: andthen_cases)
    case (err e)
    from settlesD [OF assms(1) a(1) err(1)] show ?thesis .
  next
    case (ok x s)
    note 1 = settlesD [OF assms(1) a(1) ok(1)]
    from stillD [OF assms(2) conjunct1 [OF 1] ok(2)] 1 show ?thesis by simp
  qed
qed

text \<open>Store operations.\<close>

lemma store_still:
  assumes "reads m"
  shows "still (store m)"
  unfolding still_def
proof (intro allI impI)
  fix a :: "'a App" and r a' assume a: "sound a \<and> store m a = (r, a')"
  then have "uniq_ok (snd (app_store a))" by (simp add: sound_def)
  from store_read [OF readsD [OF assms] this refl] a
  show "sound a' \<and> (current a \<longrightarrow> current a') \<and> same_db a a'"
    using app_same [of a' a] by (simp add: sound_def current_def same_db_def)
qed

lemma store_sound:
  assumes "hoare good p (\<lambda>_. good) good" "sound a" "store p a = (r, a')"
  shows "sound a' \<and> app_net a' = app_net a \<and> app_live a' = app_live a \<and> (same_db a a' \<longrightarrow> current a \<longrightarrow> current a')"
proof -
  obtain n db where d: "app_store a = (n, db)" by fastforce
  obtain q n' db' where m: "p (n, db) = (q, (n', db'))" by (metis prod_cases3)
  from assms(3) d m have a': "a' = a\<lparr>app_store := (n', db')\<rparr>" by (simp add: store_def)
  have "good db'" using good_outcome [OF assms(1) m] assms(2) d by (simp add: sound_def)
  moreover have same: "app_net a' = app_net a" "app_live a' = app_live a" "snd (app_store a') = db'" by (simp_all add: a')
  ultimately show ?thesis using assms(2) d app_same [OF same(1,2)]
    by (simp add: sound_def current_def same_db_def)
qed

lemma store_unseen:
  assumes "hoare good p (\<lambda>_. good) good" "unseen_by p"
  shows "sustains (store p)"
  unfolding sustains_def
proof (intro allI impI, elim conjE)
  fix a :: "'a App" and r a' assume a: "sound a" "store p a = (r, a')"
  note s = store_sound [OF assms(1) a]
  obtain n db where d: "app_store a = (n, db)" by fastforce
  obtain q n' db' where m: "p (n, db) = (q, (n', db'))" by (metis prod_cases3)
  have u: "unseen db db" using a(1) d by (simp add: sound_def unseen_def)
  have "unseen db db'" by (cases q) (use hoareD [OF spec [OF assms(2)] u] m in auto)
  then have v: "net_view db' = net_view db" by (simp add: unseen_def)
  have db': "snd (app_store a') = db'" using a(2) d m by (auto simp: store_def)
  have "fresh db' a'" if "fresh db a"
    using that s snapshot_unseen [OF v] unfolding fresh_def by auto
  with s db' d show "sound a' \<and> (current a \<longrightarrow> current a')" by (simp add: current_def)
qed

lemma takes_seq:
  assumes "hoare good p (\<lambda>_. good) good" "\<And>x. settles (k x)"
  shows "takes (andthen (store p) k)"
  unfolding takes_def
proof (intro allI impI)
  fix a r a' assume a: "sound a \<and> andthen (store p) k a = (r, a')"
  then have "andthen (store p) k a = (r, a')" by simp
  then show "sound a' \<and> (current a \<longrightarrow> current a' \<or> \<not> is_ok r \<and> \<not> same_db a a')"
  proof (cases rule: andthen_cases)
    case (err e)
    with store_sound [OF assms(1) _ err(1)] a show ?thesis by auto
  next
    case (ok x s)
    with store_sound [OF assms(1) _ ok(1)] a assms(2) [of x] show ?thesis by (auto simp: settles_def)
  qed
qed

section \<open>Reconciliation, start and stop\<close>

lemma reconcile_settles: "sql_ok exec \<Longrightarrow> settles (reconcileRuntime ops exec operation restart)"
  unfolding settles_def
proof (intro allI impI, elim conjE)
  fix a r a' assume ok: "sql_ok exec" and a: "sound a" "reconcileRuntime ops exec operation restart a = (r, a')"
  from a(1) have u: "uniq_ok (snd (app_store a))" "app_ok a" by (simp_all add: sound_def)
  from reconcile_outcome [OF ok refl u a(2)] a(1)
  show "sound a' \<and> current a'" by (cases r) (simp_all add: sound_def current_def)
qed

lemma reconciled: "sql_ok exec \<Longrightarrow> settles (andthen (reconcileRuntime ops exec operation restart) (\<lambda>_. ret x))"
  by (intro settles_andthen reconcile_settles still_ret)

lemma stopped:
  assumes "sound a" "stopAfterRuntimeFailure ops operation cause a = (r, a')"
  shows "sound a' \<and> current a'"
proof (cases "app_net a")
  case None
  with assms show ?thesis by (auto simp: stopAfterRuntimeFailure_def sound_def current_def app_ok_def)
next
  case (Some rt)
  obtain q a1 where s: "net_Stop ops a = (q, a1)" by fastforce
  from net_Stop_outcome [OF _ Some s] assms(1) obtain rt1 where 1: "q = Inr ()" "app_store a1 = app_store a" "app_net a1 = Some rt1"
    "ok rt1" "\<not> live rt1" by (auto simp: sound_def)
  with assms(2) Some s have "a' = onStopped a1"
    by (simp add: stopAfterRuntimeFailure_def andthen_def attempt_def hub_stopped_run fail_def)
  with 1 assms(1) show ?thesis by (simp add: sound_def current_def app_ok_def onStopped_simps)
qed

text \<open>Loading a snapshot and starting with it, as the setup and the import do.\<close>

lemma start_up:
  assumes "sql_ok exec" "sound a" "app_net a = Some rt"
    and "andthen (attempt (store (loadSyncBundle exec))) (\<lambda>r. case r of
         Inl err \<Rightarrow> stopAfterRuntimeFailure ops operation err
       | Inr bundle \<Rightarrow> andthen (attempt (net_Start ops exec bundle)) (\<lambda>r. case r of
           Inl err \<Rightarrow> stopAfterRuntimeFailure ops operation err
         | Inr _ \<Rightarrow> ret ())) a = (r, a')"
  shows "sound a' \<and> (\<not> app_live a \<longrightarrow> current a')"
proof -
  obtain q a1 where l: "store (loadSyncBundle exec) a = (q, a1)" by fastforce
  have u: "uniq_ok (snd (app_store a))" using assms(2) by (simp add: sound_def)
  from store_read [OF loadSyncBundle_at [OF assms(1)] u refl l]
  have a1: "snd (app_store a1) = snd (app_store a)" "app_net a1 = Some rt" "app_live a1 = app_live a"
    "case q of Inl _ \<Rightarrow> True | Inr b \<Rightarrow> snapshot_of (snd (app_store a)) b" using assms(3) by auto
  have s1: "sound a1" using assms(2,3) a1 by (simp add: sound_def app_ok_def)
  have rt: "ok rt" "app_live a = live rt" using assms(2,3) by (auto simp: sound_def app_ok_def)
  show ?thesis
  proof (cases q)
    case (Inl e)
    with assms(4) l have "stopAfterRuntimeFailure ops operation e a1 = (r, a')" by (simp add: andthen_def attempt_def)
    from stopped [OF s1 this] show ?thesis by simp
  next
    case (Inr b)
    obtain q2 a2 where st: "net_Start ops exec b a1 = (q2, a2)" by fastforce
    have out: "sound a2 \<and> (\<not> app_live a \<longrightarrow> is_ok q2 \<longrightarrow> current a2)"
    proof (cases "live rt")
      case True
      obtain x rt' where s: "op_Start ops b rt = (x, rt')" by fastforce
      from start_law [OF rt(1) s] True have "x = Inr False" "rt' = rt" by (auto split: sum.splits if_splits)
      with st a1(2) s have "a2 = a1" by (auto simp: net_Start_def andthen_def on_net_def ret_def)
      with s1 True rt show ?thesis by simp
    next
      case False
      from net_Start_outcome [OF assms(1) refl _ a1(2) rt(1) False _ _ st] a1 u Inr False rt(2)
      have "snd (app_store a2) = snd (app_store a1) \<and> (case q2 of Inr _ \<Rightarrow> fresh (snd (app_store a1)) a2 | Inl _ \<Rightarrow> app_ok a2 \<and> (\<exists>rt'. app_net a2 = Some rt') \<and> \<not> app_live a2)"
        by simp
      with s1 show ?thesis by (cases q2) (auto simp: sound_def current_def fresh_ok)
    qed
    show ?thesis
    proof (cases q2)
      case (Inl e)
      with assms(4) l Inr st have "stopAfterRuntimeFailure ops operation e a2 = (r, a')" by (simp add: andthen_def attempt_def)
      from stopped [OF _ this] out show ?thesis by simp
    next
      case (Inr v)
      with assms(4) l \<open>q = Inr b\<close> st have "a' = a2" by (simp add: andthen_def attempt_def ret_def)
      with out Inr show ?thesis by simp
    qed
  qed
qed

section \<open>The service's operations\<close>

lemma sustains_if: "(b \<Longrightarrow> sustains m) \<Longrightarrow> (\<not> b \<Longrightarrow> sustains m') \<Longrightarrow> sustains (if b then m else m')"
  by simp

lemma mutations_take:
  assumes ok: "sql_ok exec"
  shows "takes (createPeer ops exec ks now cp)" "takes (Service_Ops.DeletePeer ops exec i)" "takes (togglePeer ops exec i)"
    "takes (Service_Ops.CreateGroup ops exec cg)" "takes (Service_Ops.DeleteGroup ops exec i)" "takes (CreateGroupLink ops exec li)"
    "takes (Service_Ops.DeleteGroupLink ops exec li)" "takes (createServiceMap ops exec mi)" "takes (updateServiceMap ops exec i mi)"
    "takes (Service_Ops.DeleteServiceMap ops exec i)" "takes (Service_Ops.CreatePortForward ops exec pf)"
    "takes (Service_Ops.UpdatePortForward ops exec i pf)" "takes (Service_Ops.DeletePortForward ops exec i)"
  unfolding createPeer_def Service_Ops.DeletePeer_def togglePeer_def Service_Ops.CreateGroup_def Service_Ops.DeleteGroup_def
    CreateGroupLink_def Service_Ops.DeleteGroupLink_def createServiceMap_def updateServiceMap_def Service_Ops.DeleteServiceMap_def
    Service_Ops.CreatePortForward_def Service_Ops.UpdatePortForward_def Service_Ops.DeletePortForward_def case_prod_unfold
  by (rule takes_seq, (rule create_peer_db_good [OF ok] delete_peer_db_good [OF ok] toggle_peer_db_good [OF ok] CreateGroup_good [OF ok]
      DeleteGroup_good [OF ok] create_link_db_good [OF ok] DeleteGroupLink_good [OF ok] create_map_good [OF ok] update_map_good [OF ok]
      DeleteServiceMap_good [OF ok] CreatePortForward_good [OF ok] UpdatePortForward_good [OF ok] DeletePortForward_good [OF ok]),
      (rule reconciled [OF ok] reconcile_settles [OF ok]))+

lemma UpdateGroup_takes:
  assumes ok: "sql_ok exec"
  shows "takes (Service_Ops.UpdateGroup ops exec i inp)"
proof (cases "needs_runtime inp")
  case True
  then show ?thesis unfolding Service_Ops.UpdateGroup_def
    by (simp add: takes_seq [OF update_group_db_good [OF ok] reconciled [OF ok]])
next
  case False
  have r: "andthen (store p) (\<lambda>x. andthen (ret ()) (\<lambda>_. ret (f x))) a = (map_sum id f (fst (store p a)), snd (store p a))" for p :: "'x prog" and f :: "'x \<Rightarrow> 'y" and a
    by (simp add: andthen_def ret_def split: prod.split sum.split)
  note k = store_unseen [OF update_group_db_good [OF ok] update_group_db_unseen [OF ok False], of i]
  show ?thesis
  proof (rule sustains_takes, unfold sustains_def, intro allI impI, elim conjE)
    fix a r a' assume a: "sound a" "Service_Ops.UpdateGroup ops exec i inp a = (r, a')"
    then have "a' = snd (store (update_group_db exec i inp) a)"
      using False by (simp add: Service_Ops.UpdateGroup_def r)
    from sustainsD [OF k a(1)] this show "sound a' \<and> (current a \<longrightarrow> current a')" by (metis prod.collapse)
  qed
qed

lemma update_peer_db_unchanged:
  assumes ok: "sql_ok exec"
  shows "hoare (Store_Inv.at db0) (update_peer_db exec i inp) (\<lambda>v db. snd (snd v) \<or> db = db0) (\<lambda>_. True)"
proof -
  have t: "hoare P m (\<lambda>_ _. True) (\<lambda>_. True)" for P and m :: "'x prog"
    by (simp add: hoare_def)
  have changed: "hoare P (andthen m (\<lambda>_. andthen m' (\<lambda>_. ret (p, g, True)))) (\<lambda>v db. snd (snd v) \<or> db = db0) (\<lambda>_. True)"
    for P and m m' :: "unit prog" and p :: Peer and g :: string
    by (rule hoare_andthen [OF t], rule hoare_andthen [OF t], rule hoare_ret) simp
  have r: "reads (case up_GroupID inp of Some g \<Rightarrow> andthen (or_err ErrGroupNotFound (GetGroup exec g)) (\<lambda>grp. ret (g_Name grp))
       | None \<Rightarrow> andthen (attempt (GetGroup exec (p_GroupID peer))) (\<lambda>r. case r of Inl _ \<Rightarrow> ret [] | Inr grp \<Rightarrow> ret (g_Name grp)))" for peer
    by (cases "up_GroupID inp") (auto intro!: reads_intro reads_store [OF ok])
  have n: "reads (rename_peer exec i (up_Name inp) peer)" for peer
    unfolding rename_peer_def by (intro reads_intro reads_lists [OF ok])
  have rd: "hoare (Store_Inv.at db0) m (\<lambda>_ db. Store_Inv.at db0 db \<and> True) (\<lambda>_. True)" if "reads m" for m :: "'x prog"
    by (rule hoare_weaken [OF readsD [OF that]]) auto
  show ?thesis unfolding update_peer_db_def
    by (rule hoare_read [OF rd [OF reads_dropped(1) [OF reads_store(2) [OF ok]]]], rule hoare_read [OF rd [OF r]], rule hoare_read [OF rd [OF n]])
      (auto simp: Let_def split: prod.split intro!: hoare_ret changed)
qed

lemma updatePeerFields_takes:
  assumes ok: "sql_ok exec"
  shows "takes (updatePeerFields ops exec i inp)"
  unfolding takes_def
proof (intro allI impI, elim conjE)
  fix a r a' assume a: "sound a" "updatePeerFields ops exec i inp a = (r, a')"
  let ?p = "update_peer_db exec i inp"
  from a(2) [unfolded updatePeerFields_def]
  show "sound a' \<and> (current a \<longrightarrow> current a' \<or> \<not> is_ok r \<and> \<not> same_db a a')"
  proof (cases rule: andthen_cases)
    case (err e)
    with store_sound [OF update_peer_db_good [OF ok] a(1) err(1)] show ?thesis by auto
  next
    case (ok x a1)
    obtain peer g ch where x: "x = (peer, g, ch)" by (cases x)
    note 1 = store_sound [OF update_peer_db_good [OF assms] a(1) ok(1)]
    show ?thesis
    proof (cases ch)
      case True
      with ok(2) x have "andthen (reconcileRuntime ops exec ''peer update'' False) (\<lambda>_. ret (peerView peer g)) a1 = (r, a')" by simp
      from settlesD [OF reconciled [OF assms] _ this] 1 show ?thesis by simp
    next
      case False
      obtain n db where d: "app_store a = (n, db)" by fastforce
      obtain q n' db' where m: "?p (n, db) = (q, (n', db'))" by (metis prod_cases3)
      have q: "q = Inr x" "snd (app_store a1) = db'" using ok(1) d m by (auto simp: store_def)
      have "Store_Inv.at db db" using a(1) d by (simp add: sound_def)
      from hoareD(1) [OF update_peer_db_unchanged [OF assms] this] m q x False have "db' = db" by fastforce
      with q d have "same_db a a1" by (simp add: same_db_def)
      with 1 ok(2) x False show ?thesis by (auto simp: ret_def)
    qed
  qed
qed

lemma reads_good: "reads m \<Longrightarrow> hoare good m (\<lambda>_. good) good"
  by (rule goodI') (auto elim!: hoare_weaken [OF readsD])

lemma settings_take:
  assumes ok: "sql_ok exec"
  shows "takes (updateMutableSettings ops exec mtu iv ups)"
proof -
  have p: "hoare good (andthen (GetSettings exec) (\<lambda>old. andthen (UpdateMutableSettings exec mtu iv ups) (\<lambda>_.
       andthen (GetSettings exec) (\<lambda>settings. ret (se_MTU old, settings))))) (\<lambda>_. good) good"
    by (rule hoare_andthen [OF reads_good [OF reads_store(1) [OF ok]]], rule hoare_andthen [OF UpdateMutableSettings_good [OF ok]],
        rule reads_good, intro reads_intro reads_store(1) [OF ok])
  have dns: "still (setDNSUpstream ops u)" for u
    unfolding still_def
  proof (intro allI impI, elim conjE)
    fix a r a' assume a: "sound a" "setDNSUpstream ops u a = (r, a')"
    then have a': "a' = a\<lparr>app_net := map_option (op_SetDNSUpstream ops u) (app_net a)\<rparr>" by (simp add: setDNSUpstream_def)
    show "sound a' \<and> (current a \<longrightarrow> current a') \<and> same_db a a'"
      using a(1) dns_law by (cases "app_net a") (auto simp: a' sound_def current_def same_db_def app_ok_def fresh_def)
  qed
  have poller: "still (\<lambda>a. (Inr x, startStatusPoller iv' (stopStatusPoller a)))" for x :: 'x and iv'
    unfolding still_def
  proof (intro allI impI, elim conjE)
    fix a :: "'a App" and r :: "err + 'x" and a' assume a: "sound a" "(Inr x, startStatusPoller iv' (stopStatusPoller a)) = (r, a')"
    then have "app_net a' = app_net a" "app_live a' = app_live a" "app_store a' = app_store a"
      by (auto simp: startStatusPoller_def stopStatusPoller_def)
    with a(1) app_same [OF this(1,2)] show "sound a' \<and> (current a \<longrightarrow> current a') \<and> same_db a a'"
      by (simp add: sound_def current_def same_db_def)
  qed
  show ?thesis unfolding updateMutableSettings_def case_prod_unfold Let_def
    by (rule takes_seq [OF p], intro settles_andthen reconcile_settles [OF ok] still_andthen dns poller)
qed

text \<open>Setup and import only run on an unconfigured hub, where a current hub is down.\<close>

definition boots :: "('a, 'b) svc \<Rightarrow> bool" where
  "boots m = (\<forall>a r a'. sound a \<and> m a = (r, a') \<longrightarrow> sound a' \<and> (\<not> app_live a \<longrightarrow> current a'))"

lemma boots_store:
  assumes "hoare good p (\<lambda>_. good) good" "\<And>x. boots (k x)"
  shows "boots (andthen (store p) k)"
  unfolding boots_def
proof (intro allI impI, elim conjE)
  fix a r a' assume a: "sound a" "andthen (store p) k a = (r, a')"
  from a(2) show "sound a' \<and> (\<not> app_live a \<longrightarrow> current a')"
  proof (cases rule: andthen_cases)
    case (err e)
    from store_sound [OF assms(1) a(1) err(1)] show ?thesis by (simp add: current_def)
  next
    case (ok x a1)
    from store_sound [OF assms(1) a(1) ok(1)] ok(2) assms(2) [of x] show ?thesis by (auto simp: boots_def)
  qed
qed

lemma boots_lift: "(\<And>x. boots (k x)) \<Longrightarrow> boots (andthen (lift_res v) k)"
  by (cases v) (auto simp: boots_def andthen_def lift_res_def current_def)

lemma unconfigured_down: "sound a \<Longrightarrow> current a \<Longrightarrow> t_settings (snd (app_store a)) = [] \<Longrightarrow> \<not> app_live a"
  by (auto simp: current_def fresh_def snapshot_of_def)

lemma first_run:
  assumes ok: "sql_ok exec" and k: "boots k"
  shows "takes (andthen (store (IsConfigured exec)) (\<lambda>c a. if c then (Inl e1, a) else if t a then (Inl e2, a) else k a))"
  unfolding takes_def
proof (intro allI impI, elim conjE)
  fix a r a' assume a: "sound a" and run: "andthen (store (IsConfigured exec)) (\<lambda>c a. if c then (Inl e1, a) else if t a then (Inl e2, a) else k a) a = (r, a')"
  from run show "sound a' \<and> (current a \<longrightarrow> current a' \<or> \<not> is_ok r \<and> \<not> same_db a a')"
  proof (cases rule: andthen_cases)
    case (err e)
    from stillD [OF store_still [OF reads_store(8) [OF ok]] a err(1)] show ?thesis by simp
  next
    case (ok c a1)
    note 1 = stillD [OF store_still [OF reads_store(8) [OF \<open>sql_ok exec\<close>]] a ok(1)]
    have u: "uniq_ok (snd (app_store a))" using a by (simp add: sound_def)
    from store_read [OF IsConfigured_at [OF \<open>sql_ok exec\<close>] u refl ok(1)]
    have c: "c \<longleftrightarrow> t_admins (snd (app_store a)) \<noteq> [] \<and> t_settings (snd (app_store a)) \<noteq> []" "app_live a1 = app_live a" by simp_all
    show ?thesis
    proof (cases "c \<or> t a1")
      case True
      with 1 ok(2) show ?thesis by (auto split: if_splits)
    next
      case False
      with ok(2) have run: "k a1 = (r, a')" by simp
      have "t_settings (snd (app_store a)) = []" using False c a by (auto simp: sound_def ctl_inv_def conf_ok_def)
      with unconfigured_down [OF a] have "current a \<Longrightarrow> \<not> app_live a1" using c by simp
      with k 1 run show ?thesis by (auto simp: boots_def)
    qed
  qed
qed

lemma setup_takes:
  assumes ok: "sql_ok exec"
  shows "takes (svc_setup ops exec bcrypt ks inp token req)"
proof -
  have "boots (startNetworkAfterSetup ops exec)"
    unfolding boots_def
  proof (intro allI impI, elim conjE)
    fix a r a' assume a: "sound a" "startNetworkAfterSetup ops exec a = (r, a')"
    show "sound a' \<and> (\<not> app_live a \<longrightarrow> current a')"
    proof (cases "app_net a")
      case None
      with a(2) stopped [OF a(1)] show ?thesis by (auto simp: startNetworkAfterSetup_def)
    next
      case (Some rt)
      show ?thesis
        by (rule start_up [OF ok a(1) Some, where operation = "''setup''" and r = r]) (use a(2) in \<open>simp only: startNetworkAfterSetup_def Some option.distinct if_False\<close>)
    qed
  qed
  then show ?thesis unfolding svc_setup_def
    by (intro first_run [OF ok] boots_lift) (auto split: prod.split intro!: boots_store Setup_good [OF ok])
qed

lemma import_takes:
  assumes ok: "sql_ok exec" and imp: "hoare good imp (\<lambda>_. good) good"
  shows "takes (importDatabase ops exec imp token req)"
  unfolding importDatabase_def
proof (intro first_run [OF ok] boots_store [OF imp], unfold boots_def, intro allI impI, elim conjE)
  fix a r a' assume a: "sound a" and run: "(if app_net a = None then (Inr (), a)
       else andthen (attempt (store (loadSyncBundle exec))) (\<lambda>r. case r of
           Inl err \<Rightarrow> stopAfterRuntimeFailure ops ''database import'' err
         | Inr bundle \<Rightarrow> andthen (attempt (net_Start ops exec bundle)) (\<lambda>r. case r of
             Inl err \<Rightarrow> stopAfterRuntimeFailure ops ''database import'' err
           | Inr _ \<Rightarrow> ret ())) a) = (r, a')"
  show "sound a' \<and> (\<not> app_live a \<longrightarrow> current a')"
  proof (cases "app_net a")
    case None
    with a run show ?thesis by (auto simp: current_def)
  next
    case (Some rt)
    show ?thesis
      by (rule start_up [OF ok a Some, where operation = "''database import''" and r = r]) (use run in \<open>simp only: Some option.distinct if_False\<close>)
  qed
qed

lemma reset_takes:
  assumes ok: "sql_ok exec"
  shows "takes (ResetWithAdminPassword ops exec verify u pw tok)"
proof -
  have r: "settles (reset ops exec)"
    unfolding settles_def
  proof (intro allI impI, elim conjE)
    fix a r a' assume a: "sound a" and run: "reset ops exec a = (r, a')"
    show "sound a' \<and> current a'"
    proof (cases "app_net a")
      case None
      with a run show ?thesis by (auto simp: reset_def sound_def current_def app_ok_def)
    next
      case (Some rt)
      obtain q a1 where s: "net_Stop ops a = (q, a1)" by fastforce
      from net_Stop_outcome [OF _ Some s] a obtain rt1 where 1: "q = Inr ()" "app_store a1 = app_store a" "app_net a1 = Some rt1"
        "ok rt1" "\<not> live rt1" "\<not> app_live a1" by (auto simp: sound_def)
      with Some run s have st: "store (ResetAll exec) a1 = (r, a')" by (simp add: reset_def andthen_def)
      have "sound a1" using 1 a by (simp add: sound_def app_ok_def)
      from store_sound [OF ResetAll_good [OF ok] this st] 1(6) show ?thesis by (simp add: current_def)
    qed
  qed
  have t: "still (\<lambda>a. (Inr (), SetSetupToken tok a))"
    unfolding still_def
  proof (intro allI impI, elim conjE)
    fix a r a' assume a: "sound a" "(Inr (), SetSetupToken tok a) = (r :: err + unit, a')"
    then have "app_net a' = app_net a" "app_live a' = app_live a" "app_store a' = app_store a" by (auto simp: SetSetupToken_def)
    with a(1) app_same [OF this(1,2)] show "sound a' \<and> (current a \<longrightarrow> current a') \<and> same_db a a'"
      by (simp add: sound_def current_def same_db_def)
  qed
  show ?thesis unfolding ResetWithAdminPassword_def
    by (intro takes_seq reads_good reads_service(11) [OF ok] settles_andthen r t)
qed

text \<open>A tick of the status poller.\<close>

lemma poll_sustains:
  assumes ok: "sql_ok exec"
  shows "sustains (pollPeerStats ops exec)"
  unfolding sustains_def
proof (intro allI impI, elim conjE)
  fix a r a' assume a: "sound a" and run: "pollPeerStats ops exec a = (r, a')"
  obtain q a1 where g: "(if app_live a then on_net (op_GetStats ops) None a else (Inr None, a)) = (q, a1)" by fastforce
  have "a1 = a"
  proof (cases "app_net a")
    case None
    with g show ?thesis by (auto simp: on_net_def split: if_splits)
  next
    case (Some rt)
    obtain x rt' where x: "op_GetStats ops rt = (x, rt')" by fastforce
    have "ok rt" using a Some by (simp add: sound_def app_ok_def)
    from stats_law [OF this x] g Some x show ?thesis by (cases a) (auto simp: on_net_def split: if_splits)
  qed
  show "sound a' \<and> (current a \<longrightarrow> current a')"
  proof (cases "\<exists>stats. q = Inr (Some stats)")
    case False
    with run g \<open>a1 = a\<close> a show ?thesis by (auto simp: pollPeerStats_def split: sum.splits option.splits)
  next
    case True
    then obtain stats where q: "q = Inr (Some stats)" by blast
    obtain w a2 where l: "store (ListPeers exec) a = (w, a2)" by fastforce
    note 2 = stillD [OF store_still [OF reads_lists(1) [OF ok]] a l]
    show ?thesis
    proof (cases w)
      case (Inl e)
      with run g q l \<open>a1 = a\<close> 2 show ?thesis by (simp add: pollPeerStats_def)
    next
      case (Inr peers)
      obtain v a3 where f: "store (for_each peers (stats_update exec stats)) a2 = (v, a3)" by fastforce
      with run g q l Inr \<open>a1 = a\<close> have "a' = a3" by (auto simp: pollPeerStats_def andthen_def ret_def split: sum.splits)
      with sustainsD [OF store_unseen [OF stats_update_good [OF ok] stats_update_unseen [OF ok]] conjunct1 [OF 2] f] 2
      show ?thesis by blast
    qed
  qed
qed

section \<open>Handlers\<close>

text \<open>
  A handler is safe when a current hub is current afterwards, unless the request failed and yet changed
  the database; it is held when no outcome can do that; it refuses when it only answers with an error.
\<close>

definition held :: "'a handler \<Rightarrow> bool" where
  "held h = (\<forall>s q s'. sound (sv_App s) \<and> h s = (q, s') \<longrightarrow> sound (sv_App s') \<and> (current (sv_App s) \<longrightarrow> current (sv_App s')))"

definition safe :: "'a handler \<Rightarrow> bool" where
  "safe h = (\<forall>s q s'. sound (sv_App s) \<and> h s = (q, s') \<longrightarrow> sound (sv_App s') \<and>
     (current (sv_App s) \<longrightarrow> current (sv_App s') \<or> rs_status q \<ge> 400 \<and> \<not> same_db (sv_App s) (sv_App s')))"

definition refuses :: "'a handler \<Rightarrow> bool" where
  "refuses h = (\<forall>s. rs_status (fst (h s)) \<ge> 400 \<and> snd (h s) = s)"

named_theorems handler_intro "handlers taken apart"

lemma heldD: "held h \<Longrightarrow> sound (sv_App s) \<Longrightarrow> h s = (q, s') \<Longrightarrow> sound (sv_App s') \<and> (current (sv_App s) \<longrightarrow> current (sv_App s'))"
  and safeD: "safe k \<Longrightarrow> sound (sv_App s) \<Longrightarrow> k s = (q, s') \<Longrightarrow> sound (sv_App s') \<and>
     (current (sv_App s) \<longrightarrow> current (sv_App s') \<or> rs_status q \<ge> 400 \<and> \<not> same_db (sv_App s) (sv_App s'))"
  unfolding held_def safe_def by blast+

lemma held_safe: "held h \<Longrightarrow> safe h"
  by (auto simp: held_def safe_def)

lemma held_reply [handler_intro]: "held (reply_body n b)" "held (reply n j)" "held (reply_err n e)" "held (reply_msg n m)" "held (reply_ok n)"
  by (simp_all add: held_def reply_body_def reply_def reply_err_def reply_msg_def reply_ok_def)

lemma safe_reply [handler_intro]: "safe (reply_body n b)" "safe (reply n j)" "safe (reply_err n e)" "safe (reply_msg n m)" "safe (reply_ok n)"
  by (intro held_safe held_reply)+

lemma refuses_reply: "n \<ge> 400 \<Longrightarrow> refuses (reply_err n e)" "n \<ge> 400 \<Longrightarrow> refuses (reply_msg n m)"
  by (simp_all add: refuses_def reply_body_def reply_def reply_err_def reply_msg_def)

lemma held_call:
  assumes "sustains m" "\<And>r. held (k r)"
  shows "held (call m k)"
  unfolding held_def
proof (intro allI impI, elim conjE)
  fix s q s' assume s: "sound (sv_App s)" "call m k s = (q, s')"
  obtain r a where m: "m (sv_App s) = (r, a)" by fastforce
  note 1 = sustainsD [OF assms(1) s(1) m]
  have "k r (s\<lparr>sv_App := a\<rparr>) = (q, s')" using s(2) m by (simp add: call_def)
  from heldD [OF assms(2) _ this] 1 show "sound (sv_App s') \<and> (current (sv_App s) \<longrightarrow> current (sv_App s'))" by simp
qed

lemma safe_call:
  assumes "still m" "\<And>r. safe (k r)"
  shows "safe (call m k)"
  unfolding safe_def
proof (intro allI impI, elim conjE)
  fix s q s' assume s: "sound (sv_App s)" "call m k s = (q, s')"
  obtain r a where m: "m (sv_App s) = (r, a)" by fastforce
  note 1 = stillD [OF assms(1) s(1) m]
  have "k r (s\<lparr>sv_App := a\<rparr>) = (q, s')" using s(2) m by (simp add: call_def)
  from safeD [OF assms(2) _ this] 1
  show "sound (sv_App s') \<and> (current (sv_App s) \<longrightarrow> current (sv_App s') \<or> rs_status q \<ge> 400 \<and> \<not> same_db (sv_App s) (sv_App s'))"
    by (simp add: same_db_def)
qed

lemma safe_take:
  assumes "takes m" "\<And>e. refuses (k (Inl e))" "\<And>x. held (k (Inr x))"
  shows "safe (call m k)"
  unfolding safe_def
proof (intro allI impI, elim conjE)
  fix s q s' assume s: "sound (sv_App s)" "call m k s = (q, s')"
  obtain r a where m: "m (sv_App s) = (r, a)" by fastforce
  note 1 = takesD [OF assms(1) s(1) m]
  have k: "k r (s\<lparr>sv_App := a\<rparr>) = (q, s')" using s(2) m by (simp add: call_def)
  show "sound (sv_App s') \<and> (current (sv_App s) \<longrightarrow> current (sv_App s') \<or> rs_status q \<ge> 400 \<and> \<not> same_db (sv_App s) (sv_App s'))"
  proof (cases r)
    case (Inl e)
    with assms(2) [of e] k have "s' = s\<lparr>sv_App := a\<rparr>" "rs_status q \<ge> 400" unfolding refuses_def by (metis fst_conv snd_conv)+
    with 1 Inl show ?thesis by simp
  next
    case (Inr x)
    have "k (Inr x) (s\<lparr>sv_App := a\<rparr>) = (q, s')" using k Inr by simp
    from heldD [OF assms(3) _ this] 1 Inr show ?thesis by simp
  qed
qed

lemma safe_with [handler_intro]: "(\<And>x. safe (k x)) \<Longrightarrow> safe (with_body v k)" "(\<And>i. safe (l i)) \<Longrightarrow> safe (with_id rq l)"
  unfolding with_body_def with_id_def by (auto split: sum.split option.split intro: handler_intro)

lemma safe_if [handler_intro]: "safe h \<Longrightarrow> safe h' \<Longrightarrow> safe (if b then h else h')"
  by simp

lemma safe_sum [handler_intro]: "(\<And>x. safe (f x)) \<Longrightarrow> (\<And>y. safe (g y)) \<Longrightarrow> safe (case v of Inl x \<Rightarrow> f x | Inr y \<Rightarrow> g y)"
  by (simp split: sum.split)

lemma safe_limiter:
  assumes "safe h"
  shows "safe (\<lambda>s. h (s\<lparr>sv_loginLimiter := f s\<rparr>))"
  unfolding safe_def
proof (intro allI impI, elim conjE)
  fix s q s' assume "sound (sv_App s)" "h (s\<lparr>sv_loginLimiter := f s\<rparr>) = (q, s')"
  with safeD [OF assms, of "s\<lparr>sv_loginLimiter := f s\<rparr>" q s']
  show "sound (sv_App s') \<and> (current (sv_App s) \<longrightarrow> current (sv_App s') \<or> rs_status q \<ge> 400 \<and> \<not> same_db (sv_App s) (sv_App s'))"
    by simp
qed

lemma NotifyStatus_sound:
  assumes "sql_ok (en_exec en)" "sound (sv_App s)"
  shows "sound (sv_App (NotifyStatus en s)) \<and> (current (sv_App s) \<longrightarrow> current (sv_App (NotifyStatus en s)))"
  using stillD [OF store_still [OF reads_env(1) [OF assms(1)]] assms(2)] assms(2)
  by (auto simp: NotifyStatus_def split: option.split prod.split)

lemma held_notify: "sql_ok (en_exec en) \<Longrightarrow> held h \<Longrightarrow> held (notify_then en h)"
  unfolding held_def notify_then_def using NotifyStatus_sound by blast

text \<open>The environment a request is served in: this data plane, SQL as documented, imports of sound databases.\<close>

definition env_ok :: "'a Env \<Rightarrow> bool" where
  "env_ok en = (en_ops en = ops \<and> sql_ok (en_exec en) \<and> hoare good (en_import en) (\<lambda>_. good) good)"

lemma safe_store: "reads m \<Longrightarrow> (\<And>r. safe (k r)) \<Longrightarrow> safe (call (store m) k)"
  and held_store: "reads m \<Longrightarrow> (\<And>r. held (h r)) \<Longrightarrow> held (call (store m) h)"
  by (auto intro: safe_call held_call store_still still_sustains)

lemma safe_test: "safe h \<Longrightarrow> safe h' \<Longrightarrow> safe (\<lambda>s. if P s then h s else h' s)"
  unfolding safe_def by (intro allI impI, elim conjE, split if_split_asm) blast+

lemma safe_requireSetupToken:
  assumes "sql_ok (en_exec en)" "safe h"
  shows "safe (requireSetupToken en rq h)"
  unfolding requireSetupToken_def
proof (rule safe_store [OF reads_store(8) [OF assms(1)]])
  fix r :: "err + bool"
  show "safe (\<lambda>s. case r of Inl e \<Rightarrow> reply_err 500 e s
     | Inr configured \<Rightarrow> if configured then h s else if rq_setup_token rq \<noteq> GetSetupToken s then reply_msg 403 token_message s else h s)"
  proof (cases r)
    case (Inr configured)
    with assms(2) safe_test [OF safe_reply(4) assms(2)] show ?thesis by (cases configured) simp_all
  qed (simp add: safe_reply)
qed

lemma refuses_held: "refuses h \<Longrightarrow> held h"
  unfolding refuses_def held_def by (metis snd_conv)

lemma refuses_errors:
  "refuses (setup_error e)" "refuses (writePeerErr e)" "refuses (writeMapErr e)" "refuses (writeForwardErr e)"
  by (auto simp: setup_error_def writePeerErr_def writeMapErr_def writeForwardErr_def split: ForwardErrKind.split intro!: refuses_reply)

lemma refuses_if: "(b \<Longrightarrow> refuses h) \<Longrightarrow> (\<not> b \<Longrightarrow> refuses h') \<Longrightarrow> refuses (if b then h else h')"
  by simp

lemma runtime_status_400: "n \<ge> 400 \<Longrightarrow> runtime_status e n \<ge> 400"
  by (simp add: runtime_status_def)

lemma held_sum: "(\<And>x. held (f x)) \<Longrightarrow> (\<And>y. held (g y)) \<Longrightarrow> held (case v of Inl x \<Rightarrow> f x | Inr y \<Rightarrow> g y)"
  by (simp split: sum.split)

text \<open>Handlers that only read.\<close>

lemma safe_lists:
  assumes "env_ok en"
  shows "safe (h_SetupStatus en rq)" "safe (h_ListGroups en)" "safe (h_GroupGraph en)" "safe (h_ListPeers en)" "safe (h_PeerConfig en rq)"
    "safe (h_ListMaps en)" "safe (h_ListPortForwards en)" "safe (h_GetSettings en)" "safe (h_ExportDatabase en)"
proof -
  have ok: "sql_ok (en_exec en)" using assms by (simp add: env_ok_def)
  show "safe (h_SetupStatus en rq)"
    unfolding h_SetupStatus_def
    by (rule safe_requireSetupToken [OF ok], rule safe_store [OF reads_service(2) [OF ok]]) (auto split: sum.split intro: handler_intro)
  show "safe (h_ListGroups en)" "safe (h_GroupGraph en)" "safe (h_ListPeers en)" "safe (h_PeerConfig en rq)"
    "safe (h_ListMaps en)" "safe (h_ListPortForwards en)" "safe (h_GetSettings en)" "safe (h_ExportDatabase en)"
    unfolding h_ListGroups_def h_GroupGraph_def h_ListPeers_def h_PeerConfig_def h_ListMaps_def h_ListPortForwards_def h_GetSettings_def
      h_ExportDatabase_def
    by (intro handler_intro safe_store reads_service [OF ok] reads_api [OF ok])+
qed

text \<open>Handlers that call one operation of the service.\<close>

lemma safe_mutations:
  assumes "env_ok en"
  shows "safe (h_CreateGroup en rq)" "safe (h_UpdateGroup en rq)" "safe (h_DeleteGroup en rq)" "safe (h_CreateGroupLink en rq)"
    "safe (h_DeleteGroupLink en rq)" "safe (h_CreatePeer en rq)" "safe (h_UpdatePeer en rq)" "safe (h_DeletePeer en rq)"
    "safe (h_TogglePeer en rq)" "safe (h_CreateMap en rq)" "safe (h_UpdateMap en rq)" "safe (h_DeleteMap en rq)"
    "safe (h_CreatePortForward en rq)" "safe (h_UpdatePortForward en rq)" "safe (h_DeletePortForward en rq)" "safe (h_UpdateSettings en rq)"
proof -
  have e: "en_ops en = ops" and ok: "sql_ok (en_exec en)" using assms by (simp_all add: env_ok_def)
  show "safe (h_CreateGroup en rq)" "safe (h_UpdateGroup en rq)" "safe (h_DeleteGroup en rq)" "safe (h_CreateGroupLink en rq)"
    "safe (h_DeleteGroupLink en rq)" "safe (h_CreatePeer en rq)" "safe (h_UpdatePeer en rq)" "safe (h_DeletePeer en rq)"
    "safe (h_TogglePeer en rq)" "safe (h_CreateMap en rq)" "safe (h_UpdateMap en rq)" "safe (h_DeleteMap en rq)"
    "safe (h_CreatePortForward en rq)" "safe (h_UpdatePortForward en rq)" "safe (h_DeletePortForward en rq)" "safe (h_UpdateSettings en rq)"
    unfolding e h_CreateGroup_def h_UpdateGroup_def h_DeleteGroup_def h_CreateGroupLink_def h_DeleteGroupLink_def h_CreatePeer_def
      h_UpdatePeer_def h_DeletePeer_def h_TogglePeer_def h_CreateMap_def h_UpdateMap_def h_DeleteMap_def h_CreatePortForward_def
      h_UpdatePortForward_def h_DeletePortForward_def h_UpdateSettings_def
    by (auto intro!: handler_intro safe_take mutations_take [OF ok] UpdateGroup_takes [OF ok] updatePeerFields_takes [OF ok]
        settings_take [OF ok] refuses_reply refuses_errors refuses_held [OF refuses_errors(2)] refuses_held [OF refuses_errors(3)]
        refuses_held [OF refuses_errors(4)] runtime_status_400 refuses_if held_notify [OF ok] held_store held_sum
        reads_service [OF ok])
qed

text \<open>Setup, import, reset, accounts and the status socket.\<close>

lemma safe_setup:
  assumes "env_ok en"
  shows "safe (h_Setup en rq)"
proof -
  have e: "en_ops en = ops" and ok: "sql_ok (en_exec en)" using assms by (simp_all add: env_ok_def)
  have l: "held (call (login en u pw) (\<lambda>r. case r of Inl e \<Rightarrow> reply_err 500 e | Inr token \<Rightarrow> reply 200 (JObj [(''token'', JStr token)])))" for u pw
    unfolding login_def by (rule held_store [OF reads_api(3) [OF ok]]) (rule held_sum; rule held_reply)
  have bad: "safe (call (store (IsConfigured (en_exec en))) (\<lambda>r. if r = Inr True then reply_msg 409 ''already configured'' else reply_err 400 x))" for x
    by (rule safe_store [OF reads_store(8) [OF ok]]) (intro handler_intro)
  show ?thesis unfolding h_Setup_def e
  proof (rule safe_requireSetupToken [OF ok], rule safe_sum, rule bad, rule safe_take [OF setup_takes [OF ok]])
  qed (simp_all add: refuses_errors l)
qed

lemma safe_import:
  assumes "env_ok en"
  shows "safe (h_ImportDatabase en rq)"
proof -
  have e: "en_ops en = ops" and ok: "sql_ok (en_exec en)" and imp: "hoare good (en_import en) (\<lambda>_. good) good"
    using assms by (simp_all add: env_ok_def)
  have t: "safe (call (importDatabase ops (en_exec en) (en_import en) (rq_setup_token rq) True) (\<lambda>r. case r of
               Inl e \<Rightarrow> if e = ErrSetupTokenRequired then reply_msg 403 token_message
                 else if e = ErrImportWhenConfigured then reply_err 409 e
                 else reply_err 400 e
             | Inr _ \<Rightarrow> reply_ok 200))"
    by (rule safe_take [OF import_takes [OF ok imp]]) (auto intro!: refuses_if refuses_reply held_reply)
  show ?thesis unfolding h_ImportDatabase_def e
    by (rule safe_requireSetupToken [OF ok])
      (auto split: sum.split prod.split intro!: safe_store [OF reads_store(8) [OF ok]] handler_intro t)
qed

lemma safe_accounts:
  assumes "env_ok en"
  shows "safe (h_Reset en rq cl)" "safe (h_UpdateGroupLayout en rq)" "safe (h_ChangePassword en rq cl)"
proof -
  have e: "en_ops en = ops" and ok: "sql_ok (en_exec en)" using assms by (simp_all add: env_ok_def)
  have tok: "held (\<lambda>s. reply 200 j (setSetupToken t s))" for j t
    unfolding held_def
  proof (intro allI impI, elim conjE)
    fix s q s' assume s: "sound (sv_App s)" "reply 200 j (setSetupToken t s) = (q, s')"
    then have a: "sv_App s' = SetSetupToken t (sv_App s)" by (auto simp: reply_def reply_body_def setSetupToken_def)
    then have "app_net (sv_App s') = app_net (sv_App s)" "app_live (sv_App s') = app_live (sv_App s)" "app_store (sv_App s') = app_store (sv_App s)"
      by (simp_all add: SetSetupToken_def)
    with s(1) app_same [OF this(1,2)] show "sound (sv_App s') \<and> (current (sv_App s) \<longrightarrow> current (sv_App s'))"
      by (simp add: sound_def current_def)
  qed
  show "safe (h_Reset en rq cl)"
    unfolding h_Reset_def e Let_def
    by (rule safe_with, rule safe_take [OF reset_takes [OF ok]]) (auto intro!: refuses_if refuses_reply tok)
  show "safe (h_UpdateGroupLayout en rq)"
    unfolding h_UpdateGroupLayout_def
    by (rule safe_with, rule held_safe, rule held_call [OF store_unseen [OF layout_good [OF ok] layout_unseen [OF ok]]]) (rule held_reply)
  show "safe (h_ChangePassword en rq cl)"
    unfolding h_ChangePassword_def
    by (rule safe_with, rule held_safe, rule held_call [OF store_unseen [OF ChangeAdminPassword_good [OF ok] ChangeAdminPassword_unseen [OF ok]]])
      (auto split: sum.split intro: held_reply)
qed

lemma safe_login:
  assumes "env_ok en"
  shows "safe (h_Login en rq)"
proof -
  have ok: "sql_ok (en_exec en)" using assms by (simp add: env_ok_def)
  have opened: "held (\<lambda>s. reply 200 j (s\<lparr>sv_loginLimiter := f s\<rparr>))" for j f
    by (auto simp: held_def reply_def reply_body_def)
  have t: "safe (call (login en u pw) (\<lambda>r. case r of Inl e \<Rightarrow> reply_err 401 e
       | Inr token \<Rightarrow> (\<lambda>s. reply 200 (JObj [(''token'', JStr token)])
           (s\<lparr>sv_loginLimiter := map_option (RecordLoginSuccess (rq_ip rq)) (sv_loginLimiter s)\<rparr>))))" for u pw
    unfolding login_def by (rule held_safe, rule held_store [OF reads_api(3) [OF ok]]) (rule held_sum, rule held_reply, rule opened)
  have lim: "safe (rejectLogin en ip h)" if "safe h" for ip h
    unfolding safe_def
  proof (intro allI impI, elim conjE)
    fix s q s' assume s: "sound (sv_App s)" "rejectLogin en ip h s = (q, s')"
    then consider "h s = (q, s')" | l where "h (s\<lparr>sv_loginLimiter := l\<rparr>) = (q, s')" | l where "s' = s\<lparr>sv_loginLimiter := l\<rparr>"
      by (auto simp: rejectLogin_def split: option.splits prod.splits)
    then show "sound (sv_App s') \<and> (current (sv_App s) \<longrightarrow> current (sv_App s') \<or> rs_status q \<ge> 400 \<and> \<not> same_db (sv_App s) (sv_App s'))"
    proof cases
      case 1
      from safeD [OF that s(1) 1] show ?thesis .
    next
      case 2
      from safeD [OF that _ 2] s(1) show ?thesis by simp
    next
      case 3
      with s(1) show ?thesis by simp
    qed
  qed
  show ?thesis unfolding h_Login_def
    by (rule safe_store [OF reads_store(8) [OF ok]]) (auto split: sum.split intro!: handler_intro lim t)
qed

lemma safe_StatusWS:
  assumes "env_ok en"
  shows "safe (h_StatusWS en rq)"
proof -
  have ok: "sql_ok (en_exec en)" using assms by (simp add: env_ok_def)
  have ws: "sound (sv_App s) \<Longrightarrow> ws_Serve en h s = (q, s') \<Longrightarrow> sound (sv_App s') \<and> (current (sv_App s) \<longrightarrow> current (sv_App s'))" for h s q s'
    using stillD [OF store_still [OF reads_env(1) [OF ok]], of "sv_App s"]
    by (auto simp: ws_Serve_def reply_body_def split: sum.splits prod.splits)
  have "held (\<lambda>s. case r of Inl _ \<Rightarrow> reply_msg 401 ''invalid token'' s
       | Inr _ \<Rightarrow> (case sv_StatusWS s of None \<Rightarrow> reply_body 503 BNone s | Some h \<Rightarrow> ws_Serve en h s))" for r :: "err + Claims"
  proof (cases r)
    case (Inr c)
    have "held (\<lambda>s. case sv_StatusWS s of None \<Rightarrow> reply_body 503 BNone s | Some h \<Rightarrow> ws_Serve en h s)"
      unfolding held_def
    proof (intro allI impI, elim conjE)
      fix s q s' assume s: "sound (sv_App s)" "(case sv_StatusWS s of None \<Rightarrow> reply_body 503 BNone s | Some h \<Rightarrow> ws_Serve en h s) = (q, s')"
      show "sound (sv_App s') \<and> (current (sv_App s) \<longrightarrow> current (sv_App s'))"
        by (cases "sv_StatusWS s") (use s ws in \<open>auto simp: reply_body_def\<close>)
    qed
    with Inr show ?thesis by simp
  qed (simp add: held_reply)
  then show ?thesis unfolding h_StatusWS_def Let_def
    by (intro safe_if safe_reply held_safe held_store [OF reads_api(4) [OF ok]])
qed

section \<open>Requests\<close>

lemma safe_through:
  assumes "env_ok en" "(k, acc) \<in> set RegisterRoutes"
  shows "safe (through en rq acc)"
proof -
  have ok: "sql_ok (en_exec en)" using assms by (simp add: env_ok_def)
  have p: "safe (call (middleware en rq) (\<lambda>r. case r of Inl e \<Rightarrow> reply_err 401 e | Inr cl \<Rightarrow> h en rq cl))" if "\<And>cl. safe (h en rq cl)" for h
    unfolding middleware_def by (rule safe_store [OF reads_env(2) [OF ok]]) (rule safe_sum, rule safe_reply, rule that)
  note s = safe_lists [OF assms(1)] safe_mutations [OF assms(1)] safe_setup [OF assms(1)] safe_import [OF assms(1)]
    safe_accounts [OF assms(1)] safe_login [OF assms(1)] safe_StatusWS [OF assms(1)]
  from assms(2) show ?thesis
    by (auto simp: RegisterRoutes_def through_def intro!: s p)
qed

lemma serve_safe:
  assumes "env_ok en" "sound (sv_App s)" "serve en method pattern rq s = Some (q, s')"
  shows "sound (sv_App s') \<and> (current (sv_App s) \<longrightarrow> current (sv_App s') \<or> rs_status q \<ge> 400 \<and> \<not> same_db (sv_App s) (sv_App s'))"
proof -
  obtain acc where m: "map_of RegisterRoutes (method, pattern) = Some acc" and t: "through en rq acc s = (q, s')"
    using assms(3) by (auto simp: serve_def)
  from safeD [OF safe_through [OF assms(1) map_of_SomeD [OF m]] assms(2) t] show ?thesis .
qed

section \<open>The start of the process\<close>

lemma Run_current:
  assumes "sql_ok exec" "good (snd st)" "ok rt" "\<not> live rt" "Run ops exec random (Inr st) rt mounted = Inr s"
  shows "sound (sv_App s) \<and> current (sv_App s)"
proof -
  obtain q and app :: "'a App" where c: "store (IsConfigured exec) (NewApp st) = (q, app)" by fastforce
  have "uniq_ok (snd (app_store (NewApp st :: 'a App)))" using assms(2) by (simp add: NewApp_def)
  from store_read [OF IsConfigured_at [OF assms(1)] this refl c]
  have app: "snd (app_store app) = snd st" "\<not> app_live app" by (simp_all add: NewApp_def)
  from assms(5) c obtain configured where q: "q = Inr configured" and m: "mounted = None"
    by (auto simp: Run_def Let_def split: sum.splits option.splits)
  define srv where "srv = (let a = Handlers.NewServer app [] in if configured then a else snd (RegenerateSetupToken random a))"
  define a0 where "a0 = SetNetworkRuntime rt (sv_App srv)"
  have a0: "snd (app_store a0) = snd st" "app_net a0 = Some rt" "\<not> app_live a0"
    using app by (simp_all add: a0_def srv_def SetNetworkRuntime_def NewServer_def RegenerateSetupToken_def setSetupToken_def SetSetupToken_def Let_def)
  have s0: "sound a0" "\<not> app_live a0" using a0 assms(2-4) by (simp_all add: sound_def app_ok_def)
  show ?thesis
  proof (cases configured)
    case False
    with assms(5) c q m have "sv_App s = a0" by (auto simp: Run_def a0_def srv_def Let_def)
    with s0 show ?thesis by (simp add: current_def)
  next
    case True
    with assms(5) c q m obtain v where run: "andthen (store (loadSyncBundle exec)) (net_Start ops exec) a0 = (Inr v, sv_App s)"
      by (auto simp: Run_def a0_def srv_def Let_def split: prod.splits sum.splits)
    then show ?thesis
    proof (cases rule: andthen_cases)
      case (ok b a1)
      have "uniq_ok (snd (app_store a0))" using s0 by (simp add: sound_def)
      from store_read [OF loadSyncBundle_at [OF assms(1)] this refl ok(1)] a0 s0(2)
      have a1: "snd (app_store a1) = snd st" "app_net a1 = Some rt" "\<not> app_live a1" "snapshot_of (snd st) b" by simp_all
      from net_Start_outcome [OF assms(1) a1(1) [symmetric] _ a1(2) assms(3,4) a1(3,4) ok(2)] assms(2)
      show ?thesis by (auto simp: sound_def current_def dest: fresh_ok)
    qed simp
  qed
qed

end

section \<open>The served hub\<close>

lemma carries_upstream:
  assumes "stack_ok s"
  shows "stack_ok (snd (stack_SetDNSUpstream u (l, s))) \<and> Running (snd (stack_SetDNSUpstream u (l, s))) = Running s \<and>
    (carries s b \<longrightarrow> carries (snd (stack_SetDNSUpstream u (l, s))) b)"
  using assms by (auto simp: stack_SetDNSUpstream_def stack_ok_def parts_ok_def Running_def carries_def dns_carries_def SetUpstream_def
      split: option.splits)

interpretation served: polled_runtime "stack_ops net status" "\<lambda>(l, s). stack_ok s" "\<lambda>(l, s). Running s" "\<lambda>(l, s) b. carries s b"
  for net status
proof
  fix s :: rt and u b assume "case s of (l, s) \<Rightarrow> stack_ok s"
  then show "(case op_SetDNSUpstream (stack_ops net status) u s of (l, s) \<Rightarrow> stack_ok s) \<and>
      (case op_SetDNSUpstream (stack_ops net status) u s of (l, s) \<Rightarrow> Running s) = (case s of (l, s) \<Rightarrow> Running s) \<and>
      ((case s of (l, s) \<Rightarrow> \<lambda>b. carries s b) b \<longrightarrow> (case op_SetDNSUpstream (stack_ops net status) u s of (l, s) \<Rightarrow> \<lambda>b. carries s b) b)"
    using carries_upstream [of "snd s" u "fst s" b] by (cases s) (auto simp: stack_ops_def split: prod.splits)
next
  fix s s' :: rt and q :: "err + (string, PeerStats) gomap option"
  assume "op_GetStats (stack_ops net status) s = (q, s')"
  then show "s' = s" by (cases s) (auto simp: stack_ops_def stack_GetStats_def)
qed

text \<open>
  The states of the process: after its start on a database that satisfies the invariant, after a
  request, after a tick of the status poller, and after a single write of the poller, which may fall
  between two requests.  The flag holds as long as no request failed and yet changed the database.
\<close>

definition served_env :: "net \<Rightarrow> (calls \<Rightarrow> err + string) \<Rightarrow> rt Env \<Rightarrow> bool" where
  "served_env net status en = (en_ops en = stack_ops net status \<and> sql_ok (en_exec en) \<and> hoare good (en_import en) (\<lambda>_. good) good)"

inductive hub_run :: "net \<Rightarrow> (calls \<Rightarrow> err + string) \<Rightarrow> bool \<Rightarrow> rt Server \<Rightarrow> bool" for net status where
  boot: "sql_ok exec \<Longrightarrow> good (snd st) \<Longrightarrow> Run (stack_ops net status) exec random (Inr st) ([], NewStack port) mounted = Inr s \<Longrightarrow>
    hub_run net status True s"
| request: "hub_run net status clean s \<Longrightarrow> served_env net status en \<Longrightarrow> serve en method pattern rq s = Some (q, s') \<Longrightarrow>
    hub_run net status (clean \<and> (rs_status q < 400 \<or> db_of s' = db_of s)) s'"
| tick: "hub_run net status clean s \<Longrightarrow> sql_ok exec \<Longrightarrow> pollPeerStats (stack_ops net status) exec (sv_App s) = (r, a) \<Longrightarrow>
    hub_run net status clean (s\<lparr>sv_App := a\<rparr>)"
| poll_write: "hub_run net status clean s \<Longrightarrow> sql_ok exec \<Longrightarrow> store (UpdatePeerStats exec i hs rx tx) (sv_App s) = (w, a) \<Longrightarrow>
    hub_run net status clean (s\<lparr>sv_App := a\<rparr>)"

lemma hub_run_served:
  "hub_run net status clean s \<Longrightarrow> served.sound (sv_App s) \<and> (clean \<longrightarrow> served.current (sv_App s))"
proof (induction rule: hub_run.induct)
  case (boot exec st random port mounted s)
  have "\<not> Running (NewStack port)" by (simp add: Running_def NewStack_def)
  with served.Run_current [OF boot(1,2) _ _ boot(3)] show ?case by (simp add: NewStack_ok)
next
  case (request clean s en verb route rq q s')
  have e: "served.env_ok net status en" using request(2) by (simp add: served_env_def served.env_ok_def)
  from served.serve_safe [OF e _ request(3)] request(4) show ?case
    by (auto simp: served.same_db_def db_of_def)
next
  case (tick clean s exec r a)
  from served.sustainsD [OF served.poll_sustains [OF tick(2)] _ tick(3)] tick(4) show ?case by auto
next
  case (poll_write clean s exec i hs rx tx w a)
  from served.sustainsD [OF served.store_unseen [OF UpdatePeerStats_good [OF poll_write(2)] UpdatePeerStats_unseen [OF poll_write(2)]] _ poll_write(3)]
    poll_write(4) show ?case by auto
qed


section \<open>Example: a configured hub starts\<close>

definition ex_run_db :: db where
  "ex_run_db = [RAdmin ex_admin, RSettings (ex_settings\<lparr>se_HubIP := v4_string 10 0 0 1, se_DNSIP := v4_string 10 0 0 1,
     se_ServerPrivateKey := ex_key, se_ListenPort := 51820\<rparr>)]"

lemma ex_run_db_good: "good ex_run_db"
  by (simp add: ex_run_db_def uniq_ok_def inv_defs tables_Cons ex_settings_def v4_string_nonempty)

lemma ex_run_load: "\<exists>n. loadSyncBundle list_sql (k, ex_run_db) = (Inr ex_bundle, (n, ex_run_db))"
  by (simp add: loadSyncBundle_def GetSettings_def first_settings_def ListPeers_def ListGroupLinks_def ListGroups_def ListPortForwards_def
      ListMapDetails_def ListServiceMaps_def buildAccessPolicySpecFrom_def buildMapAccessPolicy_def db_eval ex_run_db_def ex_settings_def
      ex_bundle_def BuildAccessPolicySpec_def BuildTransparentSpec_def peerEndpoints_def groupLinkPairs_def net_settings_def
      BuildDNSCatalog_def UpstreamDNSResolvers_def)

lemma ex_run: "\<exists>s :: rt Server. Run (stack_ops fair_net (\<lambda>_. Inr [])) list_sql [] (Inr (0, ex_run_db)) ([], NewStack 51820) None = Inr s \<and> app_live (sv_App s)"
proof -
  let ?ops = "stack_ops fair_net (\<lambda>_. Inr [])"
  obtain n1 and app :: "rt App" where c: "store (IsConfigured list_sql) (NewApp (0, ex_run_db)) = (Inr True, app)" "app = (NewApp (0, ex_run_db))\<lparr>app_store := (n1, ex_run_db)\<rparr>"
    by (simp add: store_def NewApp_def IsConfigured_def db_eval ex_run_db_def)
  define a where "a = SetNetworkRuntime ([], NewStack 51820) (sv_App (Handlers.NewServer app []))"
  have a: "app_store a = (n1, ex_run_db)" "app_net a = Some ([], NewStack 51820)" "\<not> app_live a"
    by (simp_all add: a_def c(2) NewApp_def SetNetworkRuntime_def NewServer_def setSetupToken_def SetSetupToken_def)
  obtain n2 where "loadSyncBundle list_sql (n1, ex_run_db) = (Inr ex_bundle, (n2, ex_run_db))" using ex_run_load by blast
  then have l: "store (loadSyncBundle list_sql) a = (Inr ex_bundle, a\<lparr>app_store := (n2, ex_run_db)\<rparr>)" by (simp add: store_def a)
  let ?a = "a\<lparr>app_store := (n2, ex_run_db)\<rparr>"
  obtain l1 s1 where st: "start_locked fair_net ex_bundle ([], NewStack 51820) = (Inr (Some 1), (l1, s1))" using ex_start by auto
  from start_locked_outcome [OF NewStack_ok st] have v: "stack_ok s1" "carries s1 ex_bundle" "Running s1" "start_valid 1 s1"
    by (simp_all add: start_valid_def stack_ok_def Running_def)
  with st have op: "op_Start ?ops ex_bundle ([], NewStack 51820) = (Inr True, (l1, s1))"
    by (simp add: stack_ops_def stack_Start_def andthen_def)
  let ?b = "?a\<lparr>app_net := Some (l1, s1)\<rparr>"
  obtain r a' where o: "onStarted ?ops list_sql ?b = (r, a')" by fastforce
  have "snapshot_of ex_run_db ex_bundle"
    using hoareD(1) [OF loadSyncBundle_at [OF list_sql_ok, of ex_run_db]] \<open>loadSyncBundle list_sql (n1, ex_run_db) = _\<close> ex_run_db_good by blast
  with hub.onStarted_fresh [OF list_sql_ok _ _ _ _ _ _ o, of ex_run_db "(l1, s1)" ex_bundle] v ex_run_db_good
  have "r = Inr ()" "app_live a'" by (auto simp: hub.fresh_def)
  with o op a l have "andthen (store (loadSyncBundle list_sql)) (net_Start ?ops list_sql) a = (Inr (), a')"
    by (simp add: andthen_def net_Start_def on_net_def)
  with c have "Run ?ops list_sql [] (Inr (0, ex_run_db)) ([], NewStack 51820) None = Inr ((Handlers.NewServer app [])\<lparr>sv_App := a'\<rparr>)"
    by (simp add: Run_def a_def Let_def)
  with \<open>app_live a'\<close> show ?thesis by force
qed


end
