(* ===== verification/Event_Runs.thy ===== *)
theory Event_Runs
  imports Main
begin

text \<open>
  Goroutines that share state, as runs: a component has a state, events and a step, a partial function that is
  undefined where the event cannot happen; a run is a list of events.  The locale proves once that what
  holds at the start and is kept by every step holds after every run; each component interprets it with its
  own step and invariant, which may speak of the events so far.
\<close>

fun run_events :: "('e \<Rightarrow> 's \<Rightarrow> 's option) \<Rightarrow> 'e list \<Rightarrow> 's \<Rightarrow> 's option" where
  "run_events step [] s = Some s"
| "run_events step (e # es) s = (case step e s of None \<Rightarrow> None | Some s' \<Rightarrow> run_events step es s')"

lemma run_events_append:
  "run_events step (es @ fs) s = (case run_events step es s of None \<Rightarrow> None | Some s' \<Rightarrow> run_events step fs s')"
  by (induction es arbitrary: s) (auto split: option.splits)

lemma run_events_Cons: "step e s = Some s' \<Longrightarrow> run_events step (e # es) s = run_events step es s'"
  by simp

text \<open>A property of the state alone that every step keeps.\<close>

lemma run_events_keep:
  assumes "run_events step es s = Some s'" "P s" "\<And>e s s'. e \<in> set es \<Longrightarrow> step e s = Some s' \<Longrightarrow> P s \<Longrightarrow> P s'"
  shows "P s'"
  using assms
proof (induction es arbitrary: s)
  case (Cons e es)
  then obtain s1 where s1: "step e s = Some s1" "run_events step es s1 = Some s'" by (auto split: option.splits)
  show ?case
  proof (rule Cons.IH [OF s1(2)])
    show "P s1" using Cons.prems(3) [OF _ s1(1) Cons.prems(2)] by simp
    fix f t t' assume "f \<in> set es" "step f t = Some t'" "P t"
    then show "P t'" using Cons.prems(3) [of f t t'] by simp
  qed
qed simp

locale event_machine =
  fixes step :: "'e \<Rightarrow> 's \<Rightarrow> 's option"
    and start :: 's
    and inv :: "'e list \<Rightarrow> 's \<Rightarrow> bool"
  assumes starts: "inv [] start"
    and keeps: "inv es s \<Longrightarrow> step e s = Some s' \<Longrightarrow> inv (es @ [e]) s'"
begin

lemma continues: "run_events step fs s = Some s' \<Longrightarrow> inv es s \<Longrightarrow> inv (es @ fs) s'"
proof (induction fs arbitrary: s es)
  case (Cons f fs)
  then obtain s1 where s1: "step f s = Some s1" "run_events step fs s1 = Some s'" by (auto split: option.splits)
  from Cons.IH [OF s1(2) keeps [OF Cons.prems(2) s1(1)]] show ?case by simp
qed simp

lemma reached: "run_events step es start = Some s \<Longrightarrow> inv es s"
  using continues [OF _ starts] by simp

lemma reached_then: "run_events step es start = Some s \<Longrightarrow> run_events step fs s = Some s' \<Longrightarrow> inv (es @ fs) s'"
  by (rule continues [OF _ reached])

end

end
