(* ===== verification/Forward_Sessions.thy ===== *)
theory Forward_Sessions
  imports Ingress Event_Runs
begin

text \<open>
  Serving one UDP forward (\<^verbatim>\<open>serveUDP\<close> of \<^verbatim>\<open>vpn/ingress/forward.go\<close>): a loop that reads the listening socket,
  a goroutine per new client that dials the target and writes the first datagram, and a reader per backend
  that returns its answers.  They share \<^verbatim>\<open>sessions\<close> and \<^verbatim>\<open>pending\<close> under one mutex.  Each section under
  the mutex and each read, write or dial is one event; a run is a list of events in the order they happen.
\<close>

section \<open>State\<close>

text \<open>Clients are named by \<^verbatim>\<open>clientAddr.String()\<close>, backends by their number; times are nanoseconds.\<close>

definition ForwardSessionIdle :: int where "ForwardSessionIdle = 120000000000"

record udpForwardSession =
  uss_backend :: nat
  uss_lastActive :: int

text \<open>The goroutine of a new client: resolving and dialling, before and after its section under the mutex.\<close>

datatype dialer = Dialing string string | Dialled string string nat | FirstWrite string string nat

datatype udp_loop = AtTop | InRead | LoopWrite string string nat | LoopDone

text \<open>
  \<open>uf_open\<close>: the backends whose connection is open; \<open>uf_dialled\<close>: the client each backend was dialled for, in
  the order of the backends' numbers; \<open>uf_sent\<close> and \<open>uf_replies\<close>: what was written to backends, and to
  clients from a backend.
\<close>

record udp_forward =
  uf_ctx :: bool
  uf_loop :: udp_loop
  uf_sessions :: "(string, udpForwardSession) gomap"
  uf_pending :: "string goset"
  uf_dialers :: "dialer list"
  uf_readers :: "(string \<times> nat) list"
  uf_open :: "nat list"
  uf_dialled :: "string list"
  uf_sent :: "(nat \<times> string) list"
  uf_replies :: "(string \<times> nat \<times> string) list"

definition serveUDP :: udp_forward where
  "serveUDP = \<lparr>uf_ctx = False, uf_loop = AtTop, uf_sessions = [], uf_pending = [], uf_dialers = [], uf_readers = [],
     uf_open = [], uf_dialled = [], uf_sent = [], uf_replies = []\<rparr>"

section \<open>The read loop\<close>

definition close_backends :: "nat list \<Rightarrow> udp_forward \<Rightarrow> udp_forward" where
  "close_backends bs u = u\<lparr>uf_open := filter (\<lambda>b. b \<notin> set bs) (uf_open u)\<rparr>"

definition loop_top :: "udp_forward \<Rightarrow> udp_forward option" where
  "loop_top u = (if uf_loop u \<noteq> AtTop then None
     else if uf_ctx u then Some ((close_backends (map (uss_backend \<circ> snd) (uf_sessions u)) u)\<lparr>uf_loop := LoopDone\<rparr>)
     else Some (u\<lparr>uf_loop := InRead\<rparr>))"

definition session_idle :: "int \<Rightarrow> udpForwardSession \<Rightarrow> bool" where
  "session_idle now s \<longleftrightarrow> uss_lastActive s + ForwardSessionIdle < now"

definition read_timeout :: "int \<Rightarrow> udp_forward \<Rightarrow> udp_forward option" where
  "read_timeout now u = (if uf_loop u \<noteq> InRead then None
     else if uf_ctx u then Some (u\<lparr>uf_loop := LoopDone\<rparr>)
     else let expired = filter (\<lambda>(key, s). session_idle now s) (uf_sessions u) in
       Some ((close_backends (map (uss_backend \<circ> snd) expired) u)
         \<lparr>uf_sessions := filter (\<lambda>(key, s). \<not> session_idle now s) (uf_sessions u), uf_loop := AtTop\<rparr>))"

definition read_fails :: "udp_forward \<Rightarrow> udp_forward option" where
  "read_fails u = (if uf_loop u \<noteq> InRead then None else Some (u\<lparr>uf_loop := LoopDone\<rparr>))"

definition read_datagram :: "int \<Rightarrow> string \<Rightarrow> string \<Rightarrow> udp_forward \<Rightarrow> udp_forward option" where
  "read_datagram now key initial u = (if uf_loop u \<noteq> InRead then None
     else case mget (uf_sessions u) key of
       Some sess \<Rightarrow> Some (u\<lparr>uf_sessions := mput key (sess\<lparr>uss_lastActive := now\<rparr>) (uf_sessions u),
          uf_loop := LoopWrite key initial (uss_backend sess)\<rparr>)
     | None \<Rightarrow> if key \<in> set (uf_pending u) then Some (u\<lparr>uf_loop := AtTop\<rparr>)
         else Some (u\<lparr>uf_pending := List.insert key (uf_pending u), uf_dialers := uf_dialers u @ [Dialing key initial],
            uf_loop := AtTop\<rparr>))"

definition loop_write :: "bool \<Rightarrow> udp_forward \<Rightarrow> udp_forward option" where
  "loop_write broken u = (case uf_loop u of
       LoopWrite key initial b \<Rightarrow>
         if b \<in> set (uf_open u) \<and> \<not> broken then Some (u\<lparr>uf_sent := uf_sent u @ [(b, initial)], uf_loop := AtTop\<rparr>)
         else Some ((close_backends [b] u)\<lparr>uf_sessions := mdel key (uf_sessions u), uf_loop := AtTop\<rparr>)
     | _ \<Rightarrow> None)"

section \<open>The goroutine of a new client\<close>

text \<open>What the dial does: the first address of the target that connects.\<close>

definition udp_dial :: "(dial \<Rightarrow> bool) \<Rightarrow> HostNet \<Rightarrow> (string \<Rightarrow> err + addr list) \<Rightarrow> ForwardProxy \<Rightarrow> IngressForward \<Rightarrow> dial option" where
  "udp_dial connect host resolve m rule = (case resolve (if_TargetHost rule) of Inl _ \<Rightarrow> None
     | Inr addrs \<Rightarrow> dial_first connect host (fp_vpnSubnet m) ''udp'' (if_TargetPort rule) addrs)"

definition dial_ends :: "bool \<Rightarrow> string \<Rightarrow> string \<Rightarrow> udp_forward \<Rightarrow> udp_forward option" where
  "dial_ends connected key first u = (if Dialing key first \<notin> set (uf_dialers u) then None
     else if connected then
       let b = length (uf_dialled u) in
       Some (u\<lparr>uf_dialers := Dialled key first b # remove1 (Dialing key first) (uf_dialers u), uf_open := b # uf_open u,
         uf_dialled := uf_dialled u @ [key]\<rparr>)
     else Some (u\<lparr>uf_dialers := remove1 (Dialing key first) (uf_dialers u), uf_pending := removeAll key (uf_pending u)\<rparr>))"

definition register_session :: "int \<Rightarrow> string \<Rightarrow> string \<Rightarrow> nat \<Rightarrow> udp_forward \<Rightarrow> udp_forward option" where
  "register_session now key first b u = (if Dialled key first b \<notin> set (uf_dialers u) then None
     else let u' = u\<lparr>uf_dialers := remove1 (Dialled key first b) (uf_dialers u), uf_pending := removeAll key (uf_pending u)\<rparr> in
       if uf_ctx u then Some (close_backends [b] u')
       else Some (u'\<lparr>uf_sessions := mput key \<lparr>uss_backend = b, uss_lastActive = now\<rparr> (uf_sessions u'),
         uf_readers := (key, b) # uf_readers u', uf_dialers := FirstWrite key first b # uf_dialers u'\<rparr>))"

definition first_write :: "bool \<Rightarrow> string \<Rightarrow> string \<Rightarrow> nat \<Rightarrow> udp_forward \<Rightarrow> udp_forward option" where
  "first_write broken key first b u = (if FirstWrite key first b \<notin> set (uf_dialers u) then None
     else let u' = u\<lparr>uf_dialers := remove1 (FirstWrite key first b) (uf_dialers u)\<rparr> in
       if b \<in> set (uf_open u) \<and> \<not> broken then Some (u'\<lparr>uf_sent := uf_sent u @ [(b, first)]\<rparr>)
       else Some ((close_backends [b] u')\<lparr>uf_sessions := mdel key (uf_sessions u)\<rparr>))"

section \<open>The reader of a backend\<close>

definition reader_ends :: "string \<Rightarrow> nat \<Rightarrow> udp_forward \<Rightarrow> udp_forward option" where
  "reader_ends client b u = (if (client, b) \<notin> set (uf_readers u) then None
     else Some (close_backends [b] (u\<lparr>uf_readers := remove1 (client, b) (uf_readers u)\<rparr>)))"

text \<open>A datagram of the backend; writing it to the client fails when the listening socket is closed.\<close>

definition reader_reply :: "bool \<Rightarrow> string \<Rightarrow> nat \<Rightarrow> string \<Rightarrow> udp_forward \<Rightarrow> udp_forward option" where
  "reader_reply broken client b data u = (if (client, b) \<notin> set (uf_readers u) \<or> b \<notin> set (uf_open u) then None
     else if broken \<or> uf_loop u = LoopDone then reader_ends client b u
     else Some (u\<lparr>uf_replies := uf_replies u @ [(client, b, data)]\<rparr>))"

section \<open>Runs\<close>

datatype udp_event =
    Cancel | LoopTop | ReadTimeout int | ReadFails | Datagram int string string | LoopSend bool
  | DialEnds bool string string | Register int string string nat | FirstSend bool string string nat
  | ReaderEnds string nat | Reply bool string nat string

fun udp_step :: "udp_event \<Rightarrow> udp_forward \<Rightarrow> udp_forward option" where
  "udp_step Cancel u = Some (u\<lparr>uf_ctx := True\<rparr>)"
| "udp_step LoopTop u = loop_top u"
| "udp_step (ReadTimeout now) u = read_timeout now u"
| "udp_step ReadFails u = read_fails u"
| "udp_step (Datagram now key d) u = read_datagram now key d u"
| "udp_step (LoopSend broken) u = loop_write broken u"
| "udp_step (DialEnds connected key d) u = dial_ends connected key d u"
| "udp_step (Register now key d b) u = register_session now key d b u"
| "udp_step (FirstSend broken key d b) u = first_write broken key d b u"
| "udp_step (ReaderEnds key b) u = reader_ends key b u"
| "udp_step (Reply broken key b d) u = reader_reply broken key b d u"

abbreviation udp_exec :: "udp_event list \<Rightarrow> udp_forward \<Rightarrow> udp_forward option" where
  "udp_exec \<equiv> run_events udp_step"

fun received :: "udp_event list \<Rightarrow> (string \<times> string) set" where
  "received [] = {}"
| "received (Datagram now key d # es) = insert (key, d) (received es)"
| "received (e # es) = received es"

end
