(* ===== verification/Forward_Sessions_Props.thy ===== *)
theory Forward_Sessions_Props
  imports Forward_Sessions
begin

text \<open>
  What serving a UDP forward keeps: datagrams and answers stay with the client a backend was dialled for,
  a client has at most one session or dial, and every open backend has a goroutine that will close it.
\<close>

section \<open>The invariant\<close>

definition owns :: "udp_forward \<Rightarrow> nat \<Rightarrow> string \<Rightarrow> bool" where
  "owns u b c \<longleftrightarrow> b < length (uf_dialled u) \<and> uf_dialled u ! b = c"

fun reserved :: "dialer \<Rightarrow> string list" where
  "reserved (Dialing c d) = [c]"
| "reserved (Dialled c d b) = [c]"
| "reserved (FirstWrite c d b) = []"

fun reservations :: "dialer list \<Rightarrow> string list" where
  "reservations [] = []"
| "reservations (d # ds) = reserved d @ reservations ds"

fun dialer_ok :: "(string \<times> string) set \<Rightarrow> udp_forward \<Rightarrow> dialer \<Rightarrow> bool" where
  "dialer_ok R u (Dialing c d) = ((c, d) \<in> R)"
| "dialer_ok R u (Dialled c d b) = ((c, d) \<in> R \<and> owns u b c)"
| "dialer_ok R u (FirstWrite c d b) = ((c, d) \<in> R \<and> owns u b c)"

fun loop_ok :: "(string \<times> string) set \<Rightarrow> udp_forward \<Rightarrow> udp_loop \<Rightarrow> bool" where
  "loop_ok R u (LoopWrite c d b) = ((c, d) \<in> R \<and> owns u b c)"
| "loop_ok R u l = True"

text \<open>The backends that have a goroutine to close them: a reader, or the dial that has not registered it yet.\<close>

fun awaited :: "dialer list \<Rightarrow> nat list" where
  "awaited [] = []"
| "awaited (Dialled c d b # ds) = b # awaited ds"
| "awaited (d # ds) = awaited ds"

definition tended :: "udp_forward \<Rightarrow> nat set" where
  "tended u = snd ` set (uf_readers u) \<union> set (awaited (uf_dialers u))"

definition own_traffic :: "(string \<times> string) set \<Rightarrow> udp_forward \<Rightarrow> bool" where
  "own_traffic R u \<longleftrightarrow>
     (\<forall>(c, s) \<in> set (uf_sessions u). owns u (uss_backend s) c) \<and> (\<forall>(c, b) \<in> set (uf_readers u). owns u b c) \<and>
     (\<forall>d \<in> set (uf_dialers u). dialer_ok R u d) \<and> loop_ok R u (uf_loop u) \<and>
     (\<forall>(b, d) \<in> set (uf_sent u). \<exists>c. owns u b c \<and> (c, d) \<in> R) \<and> (\<forall>(c, b, d) \<in> set (uf_replies u). owns u b c)"

definition one_flow :: "udp_forward \<Rightarrow> bool" where
  "one_flow u \<longleftrightarrow> mdistinct (uf_sessions u) \<and> distinct (reservations (uf_dialers u)) \<and>
     set (reservations (uf_dialers u)) = set (uf_pending u) \<and> (\<forall>c \<in> set (uf_pending u). mget (uf_sessions u) c = None)"

definition udp_inv :: "(string \<times> string) set \<Rightarrow> udp_forward \<Rightarrow> bool" where
  "udp_inv R u \<longleftrightarrow> own_traffic R u \<and> one_flow u \<and> set (uf_open u) \<subseteq> tended u"

lemma serveUDP_inv: "udp_inv {} serveUDP"
  by (simp add: udp_inv_def own_traffic_def one_flow_def serveUDP_def)

section \<open>Every step keeps it\<close>

lemma owns_mono: "owns u b c \<Longrightarrow> uf_dialled u' = uf_dialled u @ cs \<Longrightarrow> owns u' b c"
  by (auto simp: owns_def nth_append)

lemma owns_cong: "uf_dialled u' = uf_dialled u \<Longrightarrow> owns u' b c = owns u b c"
  by (simp add: owns_def)

lemma dialer_mono: "dialer_ok R u d \<Longrightarrow> uf_dialled u' = uf_dialled u @ cs \<Longrightarrow> R \<subseteq> R' \<Longrightarrow> dialer_ok R' u' d"
  by (cases d) (auto intro: owns_mono)

lemma loop_mono: "loop_ok R u l \<Longrightarrow> uf_dialled u' = uf_dialled u @ cs \<Longrightarrow> R \<subseteq> R' \<Longrightarrow> loop_ok R' u' l"
  by (cases l) (auto intro: owns_mono)

text \<open>Traffic stays with its client when every part of the state is an old one or belongs to its client.\<close>

lemma own_traffic_step:
  assumes "own_traffic R u" "uf_dialled u' = uf_dialled u @ cs" "R \<subseteq> R'"
    "\<And>c s. (c, s) \<in> set (uf_sessions u') \<Longrightarrow> (\<exists>s0. (c, s0) \<in> set (uf_sessions u) \<and> uss_backend s0 = uss_backend s) \<or> owns u' (uss_backend s) c"
    "\<And>c b. (c, b) \<in> set (uf_readers u') \<Longrightarrow> (c, b) \<in> set (uf_readers u) \<or> owns u' b c"
    "\<And>d. d \<in> set (uf_dialers u') \<Longrightarrow> d \<in> set (uf_dialers u) \<or> dialer_ok R' u' d"
    "uf_loop u' = uf_loop u \<or> loop_ok R' u' (uf_loop u')"
    "\<And>b d. (b, d) \<in> set (uf_sent u') \<Longrightarrow> (b, d) \<in> set (uf_sent u) \<or> (\<exists>c. owns u' b c \<and> (c, d) \<in> R')"
    "\<And>c b d. (c, b, d) \<in> set (uf_replies u') \<Longrightarrow> (c, b, d) \<in> set (uf_replies u) \<or> owns u' b c"
  shows "own_traffic R' u'"
proof -
  note old = assms(1) [unfolded own_traffic_def]
  have "owns u' (uss_backend s) c" if "(c, s) \<in> set (uf_sessions u')" for c s
    using assms(4) [OF that] old owns_mono [OF _ assms(2)] by fastforce
  moreover have "owns u' b c" if "(c, b) \<in> set (uf_readers u')" for c b
    using assms(5) [OF that] old owns_mono [OF _ assms(2)] by fastforce
  moreover have "dialer_ok R' u' d" if "d \<in> set (uf_dialers u')" for d
    using assms(6) [OF that] old dialer_mono [OF _ assms(2,3)] by fastforce
  moreover have "loop_ok R' u' (uf_loop u')"
    using assms(7) old loop_mono [OF _ assms(2,3)] by auto
  moreover have "\<exists>c. owns u' b c \<and> (c, d) \<in> R'" if "(b, d) \<in> set (uf_sent u')" for b d
    using assms(8) [OF that]
  proof
    assume "(b, d) \<in> set (uf_sent u)"
    then obtain c where "owns u b c" "(c, d) \<in> R" using old by fastforce
    with owns_mono [OF _ assms(2)] assms(3) show ?thesis by blast
  qed
  moreover have "owns u' b c" if "(c, b, d) \<in> set (uf_replies u')" for c b d
    using assms(9) [OF that] old owns_mono [OF _ assms(2)] by fastforce
  ultimately show ?thesis unfolding own_traffic_def by fast
qed

lemma own_traffic_dialer: "own_traffic R u \<Longrightarrow> d \<in> set (uf_dialers u) \<Longrightarrow> dialer_ok R u d"
  by (simp add: own_traffic_def)

lemma own_traffic_session: "own_traffic R u \<Longrightarrow> mget (uf_sessions u) c = Some s \<Longrightarrow> owns u (uss_backend s) c"
  unfolding own_traffic_def by (fastforce dest: map_of_SomeD)

lemma own_traffic_reader: "own_traffic R u \<Longrightarrow> (c, b) \<in> set (uf_readers u) \<Longrightarrow> owns u b c"
  unfolding own_traffic_def by fast

lemma reservations_append [simp]: "reservations (xs @ ys) = reservations xs @ reservations ys"
  by (induction xs) auto

lemma remove_reserved:
  assumes "d \<in> set ds" "distinct (reservations ds)"
  shows "distinct (reservations (remove1 d ds))" "set (reservations (remove1 d ds)) = set (reservations ds) - set (reserved d)"
    "set (reserved d) \<subseteq> set (reservations ds)"
proof -
  obtain xs ys where ds: "ds = xs @ d # ys" "remove1 d ds = xs @ ys"
    using split_list_first [OF assms(1)] by (metis remove1_append remove1.simps(2))
  show "distinct (reservations (remove1 d ds))" using assms(2) unfolding ds(2) unfolding ds(1) by auto
  show "set (reservations (remove1 d ds)) = set (reservations ds) - set (reserved d)"
    using assms(2) unfolding ds(2) unfolding ds(1) by auto
  show "set (reserved d) \<subseteq> set (reservations ds)" unfolding ds(1) by auto
qed

text \<open>The traffic of a step that adds none, forgets sessions and ends goroutines.\<close>

lemma own_traffic_less:
  assumes "own_traffic R u" "uf_dialled u' = uf_dialled u" "R \<subseteq> R'" "set (uf_sessions u') \<subseteq> set (uf_sessions u)"
    "set (uf_readers u') \<subseteq> set (uf_readers u)" "set (uf_dialers u') \<subseteq> set (uf_dialers u)"
    "uf_loop u' = uf_loop u \<or> loop_ok R' u' (uf_loop u')" "uf_sent u' = uf_sent u" "uf_replies u' = uf_replies u"
  shows "own_traffic R' u'"
  by (rule own_traffic_step [OF assms(1), of u' "[]"]) (use assms in auto)

lemma own_datagram:
  assumes "own_traffic R u" "read_datagram now key d u = Some u'"
  shows "own_traffic (insert (key, d) R) u'"
proof (cases "mget (uf_sessions u) key")
  case None
  with assms(2) have "u' = u\<lparr>uf_loop := AtTop\<rparr> \<or> u' = u\<lparr>uf_pending := List.insert key (uf_pending u),
      uf_dialers := uf_dialers u @ [Dialing key d], uf_loop := AtTop\<rparr>"
    by (auto simp: read_datagram_def split: if_splits)
  then show ?thesis by (intro own_traffic_step [OF assms(1), of u' "[]"]) auto
next
  case (Some sess)
  with assms(2) have u': "u' = u\<lparr>uf_sessions := mput key (sess\<lparr>uss_lastActive := now\<rparr>) (uf_sessions u),
      uf_loop := LoopWrite key d (uss_backend sess)\<rparr>"
    by (auto simp: read_datagram_def split: if_splits)
  have "owns u (uss_backend sess) key" by (rule own_traffic_session [OF assms(1) Some])
  then have own: "owns u' (uss_backend sess) key" using owns_cong [of u' u] by (simp add: u')
  show ?thesis
  proof (rule own_traffic_step [OF assms(1), of u' "[]"])
    fix c s assume "(c, s) \<in> set (uf_sessions u')"
    then have "(c, s) = (key, sess\<lparr>uss_lastActive := now\<rparr>) \<or> (c, s) \<in> set (uf_sessions u)"
      using set_mput_subset by (fastforce simp: u')
    then show "(\<exists>s0. (c, s0) \<in> set (uf_sessions u) \<and> uss_backend s0 = uss_backend s) \<or> owns u' (uss_backend s) c"
      using own by auto
  qed (use own in \<open>auto simp: u'\<close>)
qed

lemma own_dial:
  assumes "own_traffic R u" "dial_ends connected key d u = Some u'"
  shows "own_traffic R u'"
proof -
  have mem: "Dialing key d \<in> set (uf_dialers u)" using assms(2) by (auto simp: dial_ends_def split: if_splits)
  with own_traffic_dialer [OF assms(1)] have R: "(key, d) \<in> R" by fastforce
  note sub = set_remove1_subset [of "Dialing key d" "uf_dialers u"]
  show ?thesis
  proof (cases connected)
    case True
    with assms(2) mem have u': "u' = u\<lparr>uf_dialers := Dialled key d (length (uf_dialled u)) # remove1 (Dialing key d) (uf_dialers u),
        uf_open := length (uf_dialled u) # uf_open u, uf_dialled := uf_dialled u @ [key]\<rparr>" by (simp add: dial_ends_def Let_def)
    show ?thesis by (rule own_traffic_step [OF assms(1), of u' "[key]"]) (use R sub in \<open>auto simp: u' owns_def\<close>)
  next
    case False
    with assms(2) mem sub show ?thesis by (intro own_traffic_less [OF assms(1)]) (auto simp: dial_ends_def)
  qed
qed

lemma own_register:
  assumes "own_traffic R u" "register_session now key d b u = Some u'"
  shows "own_traffic R u'"
proof -
  have mem: "Dialled key d b \<in> set (uf_dialers u)" using assms(2) by (auto simp: register_session_def split: if_splits)
  with own_traffic_dialer [OF assms(1)] have R: "(key, d) \<in> R" "owns u b key" by fastforce+
  note sub = set_remove1_subset [of "Dialled key d b" "uf_dialers u"]
  show ?thesis
  proof (cases "uf_ctx u")
    case True
    with assms(2) mem sub show ?thesis
      by (intro own_traffic_less [OF assms(1)]) (auto simp: register_session_def close_backends_def Let_def)
  next
    case False
    with assms(2) mem have u': "u' = u\<lparr>uf_pending := removeAll key (uf_pending u),
        uf_sessions := mput key \<lparr>uss_backend = b, uss_lastActive = now\<rparr> (uf_sessions u), uf_readers := (key, b) # uf_readers u,
        uf_dialers := FirstWrite key d b # remove1 (Dialled key d b) (uf_dialers u)\<rparr>" by (simp add: register_session_def Let_def)
    have own: "owns u' b key" using R(2) owns_cong [of u' u] by (simp add: u')
    show ?thesis
    proof (rule own_traffic_step [OF assms(1), of u' "[]"])
      fix c s assume "(c, s) \<in> set (uf_sessions u')"
      then have "(c, s) = (key, \<lparr>uss_backend = b, uss_lastActive = now\<rparr>) \<or> (c, s) \<in> set (uf_sessions u)"
        using set_mput_subset by (fastforce simp: u')
      then show "(\<exists>s0. (c, s0) \<in> set (uf_sessions u) \<and> uss_backend s0 = uss_backend s) \<or> owns u' (uss_backend s) c"
        using own by auto
    qed (use own R sub in \<open>auto simp: u'\<close>)
  qed
qed

text \<open>A write to a backend either adds the datagram to its traffic or ends the session.\<close>

lemma own_write:
  assumes "own_traffic R u" "(key, d) \<in> R" "owns u b key" "uf_dialled u' = uf_dialled u" "uf_readers u' = uf_readers u"
    "uf_replies u' = uf_replies u" "set (uf_dialers u') \<subseteq> set (uf_dialers u)" "uf_loop u' = uf_loop u \<or> uf_loop u' = AtTop"
    "uf_sent u' = uf_sent u @ [(b, d)] \<and> uf_sessions u' = uf_sessions u \<or> uf_sent u' = uf_sent u \<and> uf_sessions u' = mdel key (uf_sessions u)"
  shows "own_traffic R u'"
proof (rule own_traffic_step [OF assms(1), of u' "[]"])
  have own: "owns u' b key" using assms(3) owns_cong [OF assms(4)] by simp
  fix b' d' assume "(b', d') \<in> set (uf_sent u')"
  with assms(9) have "(b', d') = (b, d) \<or> (b', d') \<in> set (uf_sent u)" by auto
  with own assms(2) show "(b', d') \<in> set (uf_sent u) \<or> (\<exists>c. owns u' b' c \<and> (c, d') \<in> R)" by blast
next
  fix c s assume "(c, s) \<in> set (uf_sessions u')"
  with assms(9) set_mdel_subset [of key "uf_sessions u"] have "(c, s) \<in> set (uf_sessions u)" by auto
  then show "(\<exists>s0. (c, s0) \<in> set (uf_sessions u) \<and> uss_backend s0 = uss_backend s) \<or> owns u' (uss_backend s) c" by blast
qed (use assms(4-8) in auto)

lemma own_first_write:
  assumes "own_traffic R u" "first_write broken key d b u = Some u'"
  shows "own_traffic R u'"
proof -
  have mem: "FirstWrite key d b \<in> set (uf_dialers u)" using assms(2) by (auto simp: first_write_def split: if_splits)
  with own_traffic_dialer [OF assms(1)] have R: "(key, d) \<in> R" "owns u b key" by fastforce+
  note sub = set_remove1_subset [of "FirstWrite key d b" "uf_dialers u"]
  show ?thesis
  proof (cases "b \<in> set (uf_open u) \<and> \<not> broken")
    case True
    with mem assms(2) have "u' = u\<lparr>uf_dialers := remove1 (FirstWrite key d b) (uf_dialers u), uf_sent := uf_sent u @ [(b, d)]\<rparr>"
      by (simp add: first_write_def Let_def)
    then show ?thesis by (intro own_write [OF assms(1) R]) (simp_all add: sub)
  next
    case False
    with mem assms(2) have "u' = (close_backends [b] (u\<lparr>uf_dialers := remove1 (FirstWrite key d b) (uf_dialers u)\<rparr>))
        \<lparr>uf_sessions := mdel key (uf_sessions u)\<rparr>"
      by (simp add: first_write_def Let_def)
    then show ?thesis by (intro own_write [OF assms(1) R]) (simp_all add: sub close_backends_def)
  qed
qed

lemma own_loop_write:
  assumes "own_traffic R u" "loop_write broken u = Some u'"
  shows "own_traffic R u'"
proof -
  obtain key d b where loop: "uf_loop u = LoopWrite key d b" using assms(2) by (auto simp: loop_write_def split: udp_loop.splits)
  with assms(1) have R: "(key, d) \<in> R" "owns u b key" by (simp_all add: own_traffic_def)
  from loop assms(2) show ?thesis
    by (intro own_write [OF assms(1) R]; simp add: loop_write_def close_backends_def split: if_splits) auto
qed

lemma own_reader_ends:
  assumes "own_traffic R u" "reader_ends key b u = Some u'"
  shows "own_traffic R u'"
  using assms(2) set_remove1_subset [of "(key, b)" "uf_readers u"]
  by (intro own_traffic_less [OF assms(1)]) (auto simp: reader_ends_def close_backends_def split: if_splits)

lemma own_reply:
  assumes "own_traffic R u" "reader_reply broken key b d u = Some u'"
  shows "own_traffic R u'"
proof (cases "broken \<or> uf_loop u = LoopDone")
  case True
  with assms(2) have "reader_ends key b u = Some u'" by (simp add: reader_reply_def split: if_splits)
  then show ?thesis by (rule own_reader_ends [OF assms(1)])
next
  case False
  with assms(2) have u': "u' = u\<lparr>uf_replies := uf_replies u @ [(key, b, d)]\<rparr>" "(key, b) \<in> set (uf_readers u)"
    by (auto simp: reader_reply_def split: if_splits)
  then have "owns u' b key" using own_traffic_reader [OF assms(1) u'(2)] owns_cong [of u' u] by simp
  then show ?thesis by (intro own_traffic_step [OF assms(1), of u' "[]"]) (auto simp: u')
qed

lemma own_loop:
  assumes "own_traffic R u"
  shows "loop_top u = Some u' \<Longrightarrow> own_traffic R u'" "read_timeout now u = Some u' \<Longrightarrow> own_traffic R u'"
    "read_fails u = Some u' \<Longrightarrow> own_traffic R u'"
  by (rule own_traffic_less [OF assms]; auto simp: loop_top_def read_timeout_def read_fails_def close_backends_def Let_def split: if_splits)+

lemma own_traffic_more: "own_traffic R u \<Longrightarrow> R \<subseteq> R' \<Longrightarrow> own_traffic R' u"
  by (rule own_traffic_less) auto

lemma udp_step_own:
  assumes "own_traffic R u" "udp_step e u = Some u'"
  shows "own_traffic (R \<union> received [e]) u'"
proof (cases e)
  case (Datagram now key d)
  with assms(2) own_datagram [OF assms(1), of now key d u'] show ?thesis by simp
next
  case Cancel
  with assms show ?thesis by (intro own_traffic_less [OF assms(1)]) auto
next
  case LoopTop with assms(2) own_loop(1) [OF assms(1)] show ?thesis by simp
next
  case (ReadTimeout now) with assms(2) own_loop(2) [OF assms(1)] show ?thesis by simp
next
  case ReadFails with assms(2) own_loop(3) [OF assms(1)] show ?thesis by simp
next
  case LoopSend with assms(2) own_loop_write [OF assms(1)] show ?thesis by simp
next
  case DialEnds with assms(2) own_dial [OF assms(1)] show ?thesis by simp
next
  case Register with assms(2) own_register [OF assms(1)] show ?thesis by simp
next
  case FirstSend with assms(2) own_first_write [OF assms(1)] show ?thesis by simp
next
  case ReaderEnds with assms(2) own_reader_ends [OF assms(1)] show ?thesis by simp
next
  case Reply with assms(2) own_reply [OF assms(1)] show ?thesis by simp
qed


section \<open>One flow per client, and no backend untended\<close>

lemma one_flow_less:
  assumes "one_flow u" "uf_dialers u' = uf_dialers u" "uf_pending u' = uf_pending u" "mdistinct (uf_sessions u')"
    "\<And>c. mget (uf_sessions u) c = None \<Longrightarrow> mget (uf_sessions u') c = None"
  shows "one_flow u'"
  using assms by (simp add: one_flow_def)

text \<open>A step that takes a goroutine away, with the reservation it held.\<close>

lemma one_flow_release:
  assumes "one_flow u" "d \<in> set (uf_dialers u)"
  shows "mdistinct (uf_sessions u)" "distinct (reservations (remove1 d (uf_dialers u)))"
    "set (reservations (remove1 d (uf_dialers u))) = set (uf_pending u) - set (reserved d)"
    "set (reserved d) \<subseteq> set (uf_pending u)" "\<forall>c \<in> set (uf_pending u). mget (uf_sessions u) c = None"
proof -
  note u = assms(1) [unfolded one_flow_def]
  from u remove_reserved [OF assms(2)] show "mdistinct (uf_sessions u)" "distinct (reservations (remove1 d (uf_dialers u)))"
    "set (reservations (remove1 d (uf_dialers u))) = set (uf_pending u) - set (reserved d)"
    "set (reserved d) \<subseteq> set (uf_pending u)" "\<forall>c \<in> set (uf_pending u). mget (uf_sessions u) c = None" by argo+
qed

lemma one_flow_dial:
  assumes "one_flow u" "dial_ends connected key d u = Some u'"
  shows "one_flow u'"
proof -
  have mem: "Dialing key d \<in> set (uf_dialers u)" using assms(2) by (auto simp: dial_ends_def split: if_splits)
  note rel = one_flow_release [OF assms(1) mem, simplified]
  from assms(2) mem rel show ?thesis
    by (cases connected) (simp_all add: dial_ends_def one_flow_def Let_def, auto)
qed

lemma one_flow_register:
  assumes "one_flow u" "register_session now key d b u = Some u'"
  shows "one_flow u'"
proof -
  have mem: "Dialled key d b \<in> set (uf_dialers u)" using assms(2) by (auto simp: register_session_def split: if_splits)
  note rel = one_flow_release [OF assms(1) mem, simplified]
  from assms(2) mem rel show ?thesis
    by (cases "uf_ctx u") (simp_all add: register_session_def one_flow_def close_backends_def Let_def, auto)
qed

lemma one_flow_first_write:
  assumes "one_flow u" "first_write broken key d b u = Some u'"
  shows "one_flow u'"
proof -
  have mem: "FirstWrite key d b \<in> set (uf_dialers u)" using assms(2) by (auto simp: first_write_def split: if_splits)
  note rel = one_flow_release [OF assms(1) mem, simplified]
  from assms(2) mem rel show ?thesis
    by (cases "b \<in> set (uf_open u) \<and> \<not> broken") (auto simp: first_write_def one_flow_def close_backends_def Let_def)
qed

lemma one_flow_datagram:
  assumes "one_flow u" "read_datagram now key d u = Some u'"
  shows "one_flow u'"
proof (cases "mget (uf_sessions u) key")
  case None
  note u = assms(1) [unfolded one_flow_def]
  show ?thesis
  proof (cases "key \<in> set (uf_pending u)")
    case True
    with assms(2) None u show ?thesis by (auto simp: read_datagram_def one_flow_def split: if_splits)
  next
    case False
    with assms(2) None have u': "u' = u\<lparr>uf_pending := key # uf_pending u, uf_dialers := uf_dialers u @ [Dialing key d], uf_loop := AtTop\<rparr>"
      by (simp add: read_datagram_def split: if_splits)
    from u False None show ?thesis by (simp add: u' one_flow_def)
  qed
next
  case (Some sess)
  with assms(2) have u': "u' = u\<lparr>uf_sessions := mput key (sess\<lparr>uss_lastActive := now\<rparr>) (uf_sessions u),
      uf_loop := LoopWrite key d (uss_backend sess)\<rparr>"
    by (auto simp: read_datagram_def split: if_splits)
  with assms(1) Some show ?thesis by (intro one_flow_less [OF assms(1)]) (auto simp: one_flow_def)
qed

lemma mdistinct_sessions: "one_flow u \<Longrightarrow> mdistinct (uf_sessions u)"
  by (simp add: one_flow_def)

lemma one_flow_loop:
  assumes "one_flow u"
  shows "loop_top u = Some u' \<Longrightarrow> one_flow u'" "read_timeout now u = Some u' \<Longrightarrow> one_flow u'"
    "read_fails u = Some u' \<Longrightarrow> one_flow u'" "loop_write broken u = Some u' \<Longrightarrow> one_flow u'"
  by (rule one_flow_less [OF assms]; use mdistinct_sessions [OF assms] in \<open>auto simp: loop_top_def read_timeout_def read_fails_def
      loop_write_def close_backends_def mget_filter Let_def split: if_splits udp_loop.splits\<close>)+

lemma one_flow_reader_ends:
  assumes "one_flow u" "reader_ends key b u = Some u'"
  shows "one_flow u'"
  by (rule one_flow_less [OF assms(1)]; use mdistinct_sessions [OF assms(1)] assms(2) in \<open>auto simp: reader_ends_def close_backends_def split: if_splits\<close>)

lemma one_flow_reply:
  assumes "one_flow u" "reader_reply broken key b d u = Some u'"
  shows "one_flow u'"
proof (cases "broken \<or> uf_loop u = LoopDone")
  case True
  with assms(2) have "reader_ends key b u = Some u'" by (simp add: reader_reply_def split: if_splits)
  then show ?thesis by (rule one_flow_reader_ends [OF assms(1)])
next
  case False
  with assms(2) show ?thesis
    by (intro one_flow_less [OF assms(1)]) (use mdistinct_sessions [OF assms(1)] in \<open>auto simp: reader_reply_def split: if_splits\<close>)
qed

lemma one_flow_cancel: "one_flow u \<Longrightarrow> one_flow (u\<lparr>uf_ctx := True\<rparr>)"
  by (simp add: one_flow_def)

lemma udp_step_one_flow: "one_flow u \<Longrightarrow> udp_step e u = Some u' \<Longrightarrow> one_flow u'"
proof (cases e)
  case Cancel
  then show "one_flow u \<Longrightarrow> udp_step e u = Some u' \<Longrightarrow> one_flow u'" by (auto simp: one_flow_cancel)
qed (simp_all, (erule (1) one_flow_loop one_flow_dial one_flow_register one_flow_first_write one_flow_datagram one_flow_reader_ends one_flow_reply)+)


text \<open>An open backend keeps its goroutine: what ends the goroutine closes the backend, or hands it to a reader.\<close>

lemma awaited_remove: "set (awaited ds) \<subseteq> set (awaited [d]) \<union> set (awaited (remove1 d ds))"
proof (induction ds)
  case (Cons e ds)
  then show ?case by (cases e; cases d) auto
qed simp

lemma awaited_append [simp]: "awaited (xs @ ys) = awaited xs @ awaited ys"
  by (induction xs rule: awaited.induct) auto

lemma readers_remove: "snd ` set rs \<subseteq> insert b (snd ` set (remove1 (c, b) rs))"
  by (induction rs) auto

lemma tended_less: "set (uf_open u) \<subseteq> tended u \<Longrightarrow> set (uf_open u') \<subseteq> set (uf_open u) \<Longrightarrow> tended u \<subseteq> tended u' \<Longrightarrow>
    set (uf_open u') \<subseteq> tended u'"
  by blast

lemma tended_dial:
  assumes "set (uf_open u) \<subseteq> tended u" "dial_ends connected key d u = Some u'"
  shows "set (uf_open u') \<subseteq> tended u'"
  using assms awaited_remove [of "uf_dialers u" "Dialing key d"]
  by (auto simp: dial_ends_def tended_def Let_def split: if_splits; blast)

lemma tended_register:
  assumes "set (uf_open u) \<subseteq> tended u" "register_session now key d b u = Some u'"
  shows "set (uf_open u') \<subseteq> tended u'"
  using assms awaited_remove [of "uf_dialers u" "Dialled key d b"]
  by (auto simp: register_session_def close_backends_def tended_def Let_def split: if_splits; blast)

lemma tended_first_write:
  assumes "set (uf_open u) \<subseteq> tended u" "first_write broken key d b u = Some u'"
  shows "set (uf_open u') \<subseteq> tended u'"
  using assms awaited_remove [of "uf_dialers u" "FirstWrite key d b"]
  by (auto simp: first_write_def close_backends_def tended_def Let_def split: if_splits; blast)

lemma tended_reader_ends:
  assumes "set (uf_open u) \<subseteq> tended u" "reader_ends key b u = Some u'"
  shows "set (uf_open u') \<subseteq> tended u'"
  using assms readers_remove [of "uf_readers u" b key]
  by (auto simp: reader_ends_def close_backends_def tended_def split: if_splits; blast)

lemma tended_reply:
  assumes "set (uf_open u) \<subseteq> tended u" "reader_reply broken key b d u = Some u'"
  shows "set (uf_open u') \<subseteq> tended u'"
proof (cases "broken \<or> uf_loop u = LoopDone")
  case True
  with assms(2) have "reader_ends key b u = Some u'" by (simp add: reader_reply_def split: if_splits)
  then show ?thesis by (rule tended_reader_ends [OF assms(1)])
next
  case False
  with assms(2) show ?thesis by (intro tended_less [OF assms(1)]) (auto simp: reader_reply_def tended_def split: if_splits)
qed

lemma tended_loop:
  assumes "set (uf_open u) \<subseteq> tended u"
  shows "loop_top u = Some u' \<Longrightarrow> set (uf_open u') \<subseteq> tended u'" "read_timeout now u = Some u' \<Longrightarrow> set (uf_open u') \<subseteq> tended u'"
    "read_fails u = Some u' \<Longrightarrow> set (uf_open u') \<subseteq> tended u'" "loop_write broken u = Some u' \<Longrightarrow> set (uf_open u') \<subseteq> tended u'"
    "read_datagram now key d u = Some u' \<Longrightarrow> set (uf_open u') \<subseteq> tended u'"
  by (rule tended_less [OF assms]; auto simp: loop_top_def read_timeout_def read_fails_def loop_write_def read_datagram_def tended_def
      close_backends_def Let_def split: if_splits udp_loop.splits option.splits)+

lemma udp_step_tended: "set (uf_open u) \<subseteq> tended u \<Longrightarrow> udp_step e u = Some u' \<Longrightarrow> set (uf_open u') \<subseteq> tended u'"
proof (cases e)
  case Cancel
  then show "set (uf_open u) \<subseteq> tended u \<Longrightarrow> udp_step e u = Some u' \<Longrightarrow> set (uf_open u') \<subseteq> tended u'" by (auto simp: tended_def)
qed (simp_all, (erule (1) tended_loop tended_dial tended_register tended_first_write tended_reader_ends tended_reply)+)

section \<open>Every run\<close>

lemma received_append: "received (es @ fs) = received es \<union> received fs"
  by (induction es rule: received.induct) auto

interpretation forwarding: event_machine udp_step serveUDP "\<lambda>es. udp_inv (received es)"
proof unfold_locales
  fix es u e u' assume "udp_inv (received es) u" "udp_step e u = Some u'"
  then show "udp_inv (received (es @ [e])) u'"
    using udp_step_own udp_step_one_flow udp_step_tended unfolding udp_inv_def received_append by blast
qed (simp add: serveUDP_inv)

text \<open>
  C19: A backend exchanges datagrams with one client only: what is written to it came from the client it was
  dialled for, and what it answers is returned to that client.
\<close>

theorem udp_forward_isolated:
  assumes "udp_exec es serveUDP = Some u"
  shows "list_all (\<lambda>(b, d). \<exists>c. owns u b c \<and> (c, d) \<in> received es) (uf_sent u) \<and>
    list_all (\<lambda>(c, b, d). owns u b c) (uf_replies u)"
  using forwarding.reached [OF assms] by (auto simp: udp_inv_def own_traffic_def list_all_iff)

definition two_clients_run :: "udp_event list" where
  "two_clients_run = [LoopTop, Datagram 0 ''c'' ''x'', LoopTop, Datagram 1 ''d'' ''y'', DialEnds True ''d'' ''y'', Register 2 ''d'' ''y'' 0,
     DialEnds True ''c'' ''x'', Register 3 ''c'' ''x'' 1, FirstSend False ''c'' ''x'' 1, FirstSend False ''d'' ''y'' 0, Reply False ''c'' 1 ''z'']"

theorem udp_forward_isolated_witness:
  "\<exists>u. udp_exec two_clients_run serveUDP = Some u \<and> uf_sent u = [(1, ''x''), (0, ''y'')] \<and> uf_replies u = [(''c'', 1, ''z'')] \<and> owns u 1 ''c''"
proof -
  obtain u where u: "udp_exec two_clients_run serveUDP = Some u" "uf_sent u = [(1, ''x''), (0, ''y'')]" "uf_replies u = [(''c'', 1, ''z'')]"
    by (simp add: two_clients_run_def serveUDP_def loop_top_def read_datagram_def dial_ends_def register_session_def first_write_def
      reader_reply_def Let_def)
  from udp_forward_isolated [OF u(1)] u show ?thesis by (intro exI [of _ u]) simp
qed

text \<open>A client has at most one session and at most one dial in progress, never both.\<close>

theorem udp_forward_one_flow:
  assumes "udp_exec es serveUDP = Some u"
  shows "distinct (map fst (uf_sessions u)) \<and> distinct (reservations (uf_dialers u)) \<and>
    (\<forall>c. mget (uf_sessions u) c = None \<or> c \<notin> set (reservations (uf_dialers u)))"
  using forwarding.reached [OF assms] by (auto simp: udp_inv_def one_flow_def)


section \<open>The end of a forward\<close>

text \<open>The goroutines that run beside the loop.\<close>

definition goroutines :: "udp_forward \<Rightarrow> nat" where
  "goroutines u = length (uf_dialers u) + length (uf_readers u)"

lemma goroutine_ends:
  assumes "uf_ctx u" "uf_loop u = LoopDone" "goroutines u = Suc n"
  obtains e u' where "udp_step e u = Some u'" "uf_ctx u'" "uf_loop u' = LoopDone" "goroutines u' = n"
proof (cases "uf_dialers u")
  case (Cons d ds)
  note defs = dial_ends_def register_session_def first_write_def close_backends_def goroutines_def Let_def
  show ?thesis
  proof (cases d)
    case (Dialing c m)
    show ?thesis by (rule that [of "DialEnds False c m" "the (udp_step (DialEnds False c m) u)"]) (use assms Cons Dialing in \<open>auto simp: defs\<close>)
  next
    case (Dialled c m b)
    show ?thesis by (rule that [of "Register 0 c m b" "the (udp_step (Register 0 c m b) u)"]) (use assms Cons Dialled in \<open>auto simp: defs\<close>)
  next
    case (FirstWrite c m b)
    show ?thesis by (rule that [of "FirstSend True c m b" "the (udp_step (FirstSend True c m b) u)"]) (use assms Cons FirstWrite in \<open>auto simp: defs\<close>)
  qed
next
  case Nil
  with assms(3) obtain c b rs where rs: "uf_readers u = (c, b) # rs" by (cases "uf_readers u") (auto simp: goroutines_def)
  show ?thesis
    by (rule that [of "ReaderEnds c b" "the (udp_step (ReaderEnds c b) u)"]) (use assms Nil rs in \<open>auto simp: reader_ends_def close_backends_def goroutines_def\<close>)
qed

text \<open>
  Nothing leaks: an open backend always has a goroutine that closes it, and once the forward is stopped
  its goroutines can only end, one step each, after which every backend is closed and no reservation
  is left.
\<close>

theorem udp_forward_winds_down:
  assumes "udp_exec es serveUDP = Some u" "uf_ctx u" "uf_loop u = LoopDone"
  shows "set (uf_open u) \<subseteq> tended u \<and>
    (\<exists>fs u'. length fs = goroutines u \<and> udp_exec fs u = Some u' \<and> uf_dialers u' = [] \<and> uf_readers u' = [] \<and>
       uf_open u' = [] \<and> uf_pending u' = [])"
proof -
  have "\<exists>fs u'. length fs = goroutines u \<and> udp_exec fs u = Some u' \<and> goroutines u' = 0"
    using assms(2,3)
  proof (induction "goroutines u" arbitrary: u)
    case 0
    then show ?case by (intro exI [of _ "[]"]) auto
  next
    case (Suc n)
    obtain e u1 where e: "udp_step e u = Some u1" "uf_ctx u1" "uf_loop u1 = LoopDone" "goroutines u1 = n"
      using goroutine_ends [OF Suc.prems Suc.hyps(2) [symmetric]] by blast
    from Suc.hyps(1) [OF e(4) [symmetric] e(2,3)] obtain fs u' where
      "length fs = goroutines u1" "udp_exec fs u1 = Some u'" "goroutines u' = 0" by blast
    with e(1,4) Suc.hyps(2) show ?case by (intro exI [of _ "e # fs"] exI [of _ u']) simp
  qed
  then obtain fs u' where fs: "length fs = goroutines u" "udp_exec fs u = Some u'" "goroutines u' = 0" by blast
  have inv: "udp_inv (received (es @ fs)) u'" by (rule forwarding.reached_then [OF assms(1) fs(2)])
  from fs have "uf_dialers u' = []" "uf_readers u' = []" by (simp_all add: goroutines_def)
  moreover from this inv have "uf_open u' = []" "uf_pending u' = []" by (auto simp: udp_inv_def one_flow_def tended_def)
  ultimately show ?thesis using fs forwarding.reached [OF assms(1)] by (auto simp: udp_inv_def)
qed

section \<open>What the forward does not keep\<close>

text \<open>
  A stop that finds the loop in a read leaves the sessions' backends open; they close only when their
  readers next wake up.
\<close>

definition stopped_run :: "udp_event list" where
  "stopped_run = [LoopTop, Datagram 0 ''c'' ''x'', DialEnds True ''c'' ''x'', Register 0 ''c'' ''x'' 0, FirstSend False ''c'' ''x'' 0,
     LoopTop, Cancel, ReadTimeout 1]"

lemma stop_leaves_open:
  "\<exists>u. udp_exec stopped_run serveUDP = Some u \<and> uf_loop u = LoopDone \<and> uf_open u = [0] \<and> uf_readers u = [(''c'', 0)]"
  by (simp add: stopped_run_def serveUDP_def loop_top_def read_datagram_def read_timeout_def dial_ends_def register_session_def
      first_write_def Let_def)

text \<open>
  A first write that fails late removes whatever session the client has by then: the second backend
  stays open without one, and the client's next datagram dials a third.
\<close>

definition late_failure_run :: "udp_event list" where
  "late_failure_run = [LoopTop, Datagram 0 ''c'' ''x'', DialEnds True ''c'' ''x'', Register 0 ''c'' ''x'' 0,
     LoopTop, Datagram 1 ''c'' ''y'', LoopSend True, LoopTop, Datagram 2 ''c'' ''z'', DialEnds True ''c'' ''z'',
     Register 2 ''c'' ''z'' 1, FirstSend False ''c'' ''z'' 1, FirstSend True ''c'' ''x'' 0]"

lemma late_failure_orphans:
  "\<exists>u. udp_exec late_failure_run serveUDP = Some u \<and> uf_sessions u = [] \<and> uf_open u = [1] \<and> (''c'', 1) \<in> set (uf_readers u)"
  by (simp add: late_failure_run_def serveUDP_def loop_top_def loop_write_def read_datagram_def dial_ends_def register_session_def
      first_write_def close_backends_def Let_def)

text \<open>
  The reader's deadline is set by answers alone: a client that keeps sending to a target that answers
  nothing loses the datagram that finds its backend closed, however active the session is.
\<close>

definition silent_target_run :: "udp_event list" where
  "silent_target_run = [LoopTop, Datagram 0 ''c'' ''x'', DialEnds True ''c'' ''x'', Register 0 ''c'' ''x'' 0, FirstSend False ''c'' ''x'' 0,
     LoopTop, Datagram 119000000000 ''c'' ''y'', LoopSend False, ReaderEnds ''c'' 0, LoopTop, Datagram 120000000001 ''c'' ''z'', LoopSend False]"

lemma silent_target_loses:
  "\<exists>u. udp_exec silent_target_run serveUDP = Some u \<and> uf_sent u = [(0, ''x''), (0, ''y'')] \<and> uf_pending u = [] \<and> uf_sessions u = [] \<and>
     uf_loop u = AtTop"
  by (simp add: silent_target_run_def serveUDP_def loop_top_def loop_write_def read_datagram_def dial_ends_def register_session_def
      first_write_def reader_ends_def close_backends_def Let_def)

end
