(* ===== verification/Relay.thy ===== *)
theory Relay
  imports Map_Proxy Event_Runs
begin

text \<open>
  Relaying one TCP connection (\<^verbatim>\<open>proxyTCP\<close> of \<^verbatim>\<open>vpn/ingress/forward.go\<close> and \<^verbatim>\<open>servicemap.go\<close>).  After the
  dial three goroutines run: two copiers, one per direction, and the one that waits for the context or
  for the copiers.  Each step of one of them is one event; what the two far ends send, and which reads and
  writes break, are events as well, so a run is a list of events in the order they happen.
\<close>

section \<open>State\<close>

text \<open>
  The near end of a connection: whether we closed it, what arrived and was not read, whether the far end
  finished sending, and what was written.
\<close>

record conn =
  cn_open :: bool
  cn_in :: "string list"
  cn_eof :: bool
  cn_out :: "string list"

definition new_conn :: conn where
  "new_conn = \<lparr>cn_open = True, cn_in = [], cn_eof = False, cn_out = []\<rparr>"

text \<open>\<^verbatim>\<open>io.Copy\<close> between its reads and writes, then the send on \<^verbatim>\<open>done\<close>, then gone.\<close>

datatype copier = Reading | Writing string | Signalling | Ended

text \<open>In the \<^verbatim>\<open>select\<close>, in the receive after it, and returned with the deferred closes run.\<close>

datatype relay_main = Selecting | Draining | Returned

record relay =
  rl_ctx :: bool
  rl_client :: conn
  rl_remote :: conn
  rl_up :: copier
  rl_down :: copier
  rl_done :: nat
  rl_main :: relay_main

definition done_capacity :: nat where "done_capacity = 2"

text \<open>
  The part before the goroutines: resolve, then the first address that can be dialled.  \<open>None\<close>: the client
  is closed and nothing else happens.
\<close>

definition relay_start :: "conn \<Rightarrow> relay" where
  "relay_start client = \<lparr>rl_ctx = False, rl_client = client, rl_remote = new_conn, rl_up = Reading, rl_down = Reading,
     rl_done = 0, rl_main = Selecting\<rparr>"

definition fp_proxyTCP :: "(dial \<Rightarrow> bool) \<Rightarrow> HostNet \<Rightarrow> (string \<Rightarrow> err + addr list) \<Rightarrow> ForwardProxy \<Rightarrow> conn \<Rightarrow> string \<Rightarrow> int \<Rightarrow> (dial \<times> relay) option" where
  "fp_proxyTCP connect host resolve m client targetHost targetPort = (case resolve targetHost of Inl _ \<Rightarrow> None
     | Inr addrs \<Rightarrow> (case dial_first connect host (fp_vpnSubnet m) ''tcp'' targetPort addrs of None \<Rightarrow> None
        | Some d \<Rightarrow> Some (d, relay_start client)))"

definition mp_proxyTCP :: "(dial \<Rightarrow> bool) \<Rightarrow> HostNet \<Rightarrow> (string \<Rightarrow> err + addr list) \<Rightarrow> MapProxy \<Rightarrow> IngressMap \<Rightarrow> conn \<Rightarrow> int \<Rightarrow> (dial \<times> relay) option" where
  "mp_proxyTCP connect host resolve m rule client localPort = (case resolve (im_TargetHost rule) of Inl _ \<Rightarrow> None
     | Inr addrs \<Rightarrow> (case dial_first connect host (mp_vpnSubnet m) ''tcp'' localPort addrs of None \<Rightarrow> None
        | Some d \<Rightarrow> Some (d, relay_start client)))"

section \<open>Steps\<close>

text \<open>A read of a connection we closed fails at once; otherwise it waits for data, the end or a failure.\<close>

definition copy_read :: "bool \<Rightarrow> conn \<Rightarrow> (conn \<times> copier) option" where
  "copy_read broken src = (if \<not> cn_open src \<or> broken then Some (src, Signalling)
     else case cn_in src of d # ds \<Rightarrow> Some (src\<lparr>cn_in := ds\<rparr>, Writing d)
       | [] \<Rightarrow> if cn_eof src then Some (src, Signalling) else None)"

definition copy_write :: "bool \<Rightarrow> string \<Rightarrow> conn \<Rightarrow> conn \<times> copier" where
  "copy_write broken d dst = (if \<not> cn_open dst \<or> broken then (dst, Signalling)
     else (dst\<lparr>cn_out := cn_out dst @ [d]\<rparr>, Reading))"

definition relay_return :: "relay \<Rightarrow> relay" where
  "relay_return r = r\<lparr>rl_remote := (rl_remote r)\<lparr>cn_open := False\<rparr>, rl_client := (rl_client r)\<lparr>cn_open := False\<rparr>,
     rl_main := Returned\<rparr>"

definition main_ctx :: "relay \<Rightarrow> relay option" where
  "main_ctx r = (if rl_main r = Selecting \<and> rl_ctx r then Some (relay_return r) else None)"

definition main_done :: "relay \<Rightarrow> relay option" where
  "main_done r = (if rl_done r = 0 then None else (case rl_main r of
       Selecting \<Rightarrow> Some (r\<lparr>rl_done := rl_done r - 1, rl_remote := (rl_remote r)\<lparr>cn_open := False\<rparr>, rl_main := Draining\<rparr>)
     | Draining \<Rightarrow> Some (relay_return (r\<lparr>rl_done := rl_done r - 1\<rparr>))
     | Returned \<Rightarrow> None))"

datatype relay_event =
    ClientSends string | ClientEnds | RemoteSends string | RemoteEnds | CtxDone
  | UpRead bool | UpWrite bool | UpSignal
  | DownRead bool | DownWrite bool | DownSignal
  | MainCtx | MainDone

fun relay_step :: "relay_event \<Rightarrow> relay \<Rightarrow> relay option" where
  "relay_step (ClientSends d) r = (let c = rl_client r in
     if cn_eof c then None else Some (r\<lparr>rl_client := c\<lparr>cn_in := cn_in c @ [d]\<rparr>\<rparr>))"
| "relay_step ClientEnds r = Some (r\<lparr>rl_client := (rl_client r)\<lparr>cn_eof := True\<rparr>\<rparr>)"
| "relay_step (RemoteSends d) r = (let c = rl_remote r in
     if cn_eof c then None else Some (r\<lparr>rl_remote := c\<lparr>cn_in := cn_in c @ [d]\<rparr>\<rparr>))"
| "relay_step RemoteEnds r = Some (r\<lparr>rl_remote := (rl_remote r)\<lparr>cn_eof := True\<rparr>\<rparr>)"
| "relay_step CtxDone r = Some (r\<lparr>rl_ctx := True\<rparr>)"
| "relay_step (UpRead broken) r = (if rl_up r \<noteq> Reading then None
     else case copy_read broken (rl_client r) of None \<Rightarrow> None
       | Some (c, p) \<Rightarrow> Some (r\<lparr>rl_client := c, rl_up := p\<rparr>))"
| "relay_step (UpWrite broken) r = (case rl_up r of Writing d \<Rightarrow>
       (case copy_write broken d (rl_remote r) of (c, p) \<Rightarrow> Some (r\<lparr>rl_remote := c, rl_up := p\<rparr>))
     | _ \<Rightarrow> None)"
| "relay_step UpSignal r = (if rl_up r = Signalling \<and> rl_done r < done_capacity
     then Some (r\<lparr>rl_done := rl_done r + 1, rl_up := Ended\<rparr>) else None)"
| "relay_step (DownRead broken) r = (if rl_down r \<noteq> Reading then None
     else case copy_read broken (rl_remote r) of None \<Rightarrow> None
       | Some (c, p) \<Rightarrow> Some (r\<lparr>rl_remote := c, rl_down := p\<rparr>))"
| "relay_step (DownWrite broken) r = (case rl_down r of Writing d \<Rightarrow>
       (case copy_write broken d (rl_client r) of (c, p) \<Rightarrow> Some (r\<lparr>rl_client := c, rl_down := p\<rparr>))
     | _ \<Rightarrow> None)"
| "relay_step DownSignal r = (if rl_down r = Signalling \<and> rl_done r < done_capacity
     then Some (r\<lparr>rl_done := rl_done r + 1, rl_down := Ended\<rparr>) else None)"
| "relay_step MainCtx r = main_ctx r"
| "relay_step MainDone r = main_done r"

abbreviation relay_exec :: "relay_event list \<Rightarrow> relay \<Rightarrow> relay option" where
  "relay_exec \<equiv> run_events relay_step"

section \<open>What the far ends sent\<close>

fun client_data :: "relay_event list \<Rightarrow> string list" where
  "client_data [] = []"
| "client_data (ClientSends d # es) = d # client_data es"
| "client_data (e # es) = client_data es"

fun remote_data :: "relay_event list \<Rightarrow> string list" where
  "remote_data [] = []"
| "remote_data (RemoteSends d # es) = d # remote_data es"
| "remote_data (e # es) = remote_data es"

section \<open>The invariant\<close>

text \<open>Everything a far end sent is, in order, written to the other, in the copier's hand, or unread.\<close>

fun pipe_ok :: "string list \<Rightarrow> conn \<Rightarrow> copier \<Rightarrow> conn \<Rightarrow> bool" where
  "pipe_ok sent src Reading dst = (sent = cn_out dst @ cn_in src)"
| "pipe_ok sent src (Writing d) dst = (sent = cn_out dst @ d # cn_in src)"
| "pipe_ok sent src p dst = prefix (cn_out dst) sent"

definition ended :: "copier \<Rightarrow> nat" where "ended p = (if p = Ended then 1 else 0)"

text \<open>The signals are those of the copiers that ended and that the waiting goroutine did not take.\<close>

fun main_ok :: "relay \<Rightarrow> relay_main \<Rightarrow> bool" where
  "main_ok r Selecting = (rl_done r = ended (rl_up r) + ended (rl_down r) \<and> cn_open (rl_client r) \<and> cn_open (rl_remote r))"
| "main_ok r Draining = (rl_done r + 1 = ended (rl_up r) + ended (rl_down r) \<and> cn_open (rl_client r) \<and> \<not> cn_open (rl_remote r))"
| "main_ok r Returned = (rl_done r \<le> ended (rl_up r) + ended (rl_down r) \<and> \<not> cn_open (rl_client r) \<and> \<not> cn_open (rl_remote r))"

definition relay_inv :: "string list \<Rightarrow> string list \<Rightarrow> relay \<Rightarrow> bool" where
  "relay_inv cs rs r \<longleftrightarrow> pipe_ok cs (rl_client r) (rl_up r) (rl_remote r) \<and> pipe_ok rs (rl_remote r) (rl_down r) (rl_client r) \<and>
     main_ok r (rl_main r)"

lemma relay_start_inv: "relay_inv [] [] (relay_start new_conn)"
  by (simp add: relay_inv_def relay_start_def new_conn_def ended_def)

text \<open>The pipe looks only at the queue it reads and the one it writes.\<close>

lemma pipe_cong [simp]:
  "pipe_ok s (a\<lparr>cn_open := v\<rparr>) p b = pipe_ok s a p b" "pipe_ok s a p (b\<lparr>cn_open := v\<rparr>) = pipe_ok s a p b"
  "pipe_ok s (a\<lparr>cn_eof := v\<rparr>) p b = pipe_ok s a p b" "pipe_ok s a p (b\<lparr>cn_eof := v\<rparr>) = pipe_ok s a p b"
  "pipe_ok s (a\<lparr>cn_out := o'\<rparr>) p b = pipe_ok s a p b" "pipe_ok s a p (b\<lparr>cn_in := q\<rparr>) = pipe_ok s a p b"
  by (cases p; simp)+

lemma pipe_arrives: "pipe_ok s a p b \<Longrightarrow> pipe_ok (s @ [d]) (a\<lparr>cn_in := cn_in a @ [d]\<rparr>) p b"
  by (cases p) (auto simp: prefix_def)

lemma pipe_stops: "pipe_ok s a p b \<Longrightarrow> prefix (cn_out b) s"
  by (cases p) auto

lemma copy_read_pipe: "copy_read broken a = Some (a', p) \<Longrightarrow> pipe_ok s a Reading b \<Longrightarrow>
    pipe_ok s a' p b \<and> p \<noteq> Ended \<and> cn_open a' = cn_open a \<and> (\<forall>t q c. pipe_ok t c q a' = pipe_ok t c q a)"
  by (auto simp: copy_read_def split: if_splits list.splits)

lemma copy_write_pipe: "copy_write broken d b = (b', p) \<Longrightarrow> pipe_ok s a (Writing d) b \<Longrightarrow>
    pipe_ok s a p b' \<and> p \<noteq> Ended \<and> cn_open b' = cn_open b \<and> (\<forall>t q c. pipe_ok t b' q c = pipe_ok t b q c)"
  by (auto simp: copy_write_def split: if_splits)

lemma ended_simps [simp]: "ended Reading = 0" "ended (Writing d) = 0" "ended Signalling = 0" "ended Ended = 1"
  by (simp_all add: ended_def)

lemma ended_no: "p \<noteq> Ended \<Longrightarrow> ended p = 0"
  by (simp add: ended_def)

text \<open>A step of a copier that does not signal leaves the signals and the waiting goroutine as they are.\<close>

lemma main_cong:
  assumes "rl_done r' = rl_done r" "cn_open (rl_client r') = cn_open (rl_client r)" "cn_open (rl_remote r') = cn_open (rl_remote r)"
    "ended (rl_up r') = ended (rl_up r)" "ended (rl_down r') = ended (rl_down r)"
  shows "main_ok r' m = main_ok r m"
  using assms by (cases m) auto

lemma relay_step_inv:
  assumes "relay_inv cs rs r" "relay_step e r = Some r'"
  shows "relay_inv (cs @ client_data [e]) (rs @ remote_data [e]) r'"
proof -
  from assms(1) have inv: "pipe_ok cs (rl_client r) (rl_up r) (rl_remote r)" "pipe_ok rs (rl_remote r) (rl_down r) (rl_client r)"
    "main_ok r (rl_main r)" by (simp_all add: relay_inv_def)
  show ?thesis
  proof (cases e)
    case (ClientSends d)
    with assms(2) inv pipe_arrives [OF inv(1)] main_cong [of r' r "rl_main r"] show ?thesis
      by (auto simp: relay_inv_def Let_def split: if_splits)
  next
    case (RemoteSends d)
    with assms(2) inv pipe_arrives [OF inv(2)] main_cong [of r' r "rl_main r"] show ?thesis
      by (auto simp: relay_inv_def Let_def split: if_splits)
  next
    case (UpRead broken)
    with assms(2) obtain c p where up: "rl_up r = Reading" "copy_read broken (rl_client r) = Some (c, p)"
      "r' = r\<lparr>rl_client := c, rl_up := p\<rparr>" by (auto split: if_splits option.splits)
    with copy_read_pipe [OF up(2)] inv UpRead main_cong [of r' r "rl_main r"] show ?thesis
      by (simp add: relay_inv_def ended_no)
  next
    case (DownRead broken)
    with assms(2) obtain c p where down: "rl_down r = Reading" "copy_read broken (rl_remote r) = Some (c, p)"
      "r' = r\<lparr>rl_remote := c, rl_down := p\<rparr>" by (auto split: if_splits option.splits)
    with copy_read_pipe [OF down(2)] inv DownRead main_cong [of r' r "rl_main r"] show ?thesis
      by (simp add: relay_inv_def ended_no)
  next
    case (UpWrite broken)
    with assms(2) obtain d c p where up: "rl_up r = Writing d" "copy_write broken d (rl_remote r) = (c, p)"
      "r' = r\<lparr>rl_remote := c, rl_up := p\<rparr>" by (auto split: copier.splits prod.splits)
    with copy_write_pipe [OF up(2)] inv UpWrite main_cong [of r' r "rl_main r"] show ?thesis
      by (simp add: relay_inv_def ended_no)
  next
    case (DownWrite broken)
    with assms(2) obtain d c p where down: "rl_down r = Writing d" "copy_write broken d (rl_client r) = (c, p)"
      "r' = r\<lparr>rl_client := c, rl_down := p\<rparr>" by (auto split: copier.splits prod.splits)
    with copy_write_pipe [OF down(2)] inv DownWrite main_cong [of r' r "rl_main r"] show ?thesis
      by (simp add: relay_inv_def ended_no)
  next
    case UpSignal
    with assms(2) inv pipe_stops [OF inv(1)] show ?thesis
      by (cases "rl_main r") (auto simp: relay_inv_def split: if_splits)
  next
    case DownSignal
    with assms(2) inv pipe_stops [OF inv(2)] show ?thesis
      by (cases "rl_main r") (auto simp: relay_inv_def split: if_splits)
  next
    case MainDone
    with assms(2) inv show ?thesis
      by (cases "rl_main r") (auto simp: relay_inv_def main_done_def relay_return_def split: if_splits)
  next
    case MainCtx
    with assms(2) inv show ?thesis by (auto simp: relay_inv_def main_ctx_def relay_return_def split: if_splits)
  qed (use assms(2) inv main_cong [of r' r "rl_main r"] in \<open>auto simp: relay_inv_def\<close>)
qed

lemma data_append: "client_data (es @ fs) = client_data es @ client_data fs" "remote_data (es @ fs) = remote_data es @ remote_data fs"
  by (induction es rule: client_data.induct) auto

interpretation relaying: event_machine relay_step "relay_start new_conn" "\<lambda>es. relay_inv (client_data es) (remote_data es)"
proof unfold_locales
  fix es r e r' assume "relay_inv (client_data es) (remote_data es) r" "relay_step e r = Some r'"
  from relay_step_inv [OF this] show "relay_inv (client_data (es @ [e])) (remote_data (es @ [e])) r'" by (simp only: data_append)
qed (simp add: relay_start_inv)

section \<open>What the relay promises\<close>

text \<open>
  Each far end receives, in order and without additions, an initial part of what the other sent; all of
  it when the copier is back at a read with nothing left to read.
\<close>

theorem relay_faithful:
  assumes "relay_exec es (relay_start new_conn) = Some r"
  shows "prefix (cn_out (rl_remote r)) (client_data es)" "prefix (cn_out (rl_client r)) (remote_data es)"
    "rl_up r = Reading \<Longrightarrow> cn_in (rl_client r) = [] \<Longrightarrow> cn_out (rl_remote r) = client_data es"
    "rl_down r = Reading \<Longrightarrow> cn_in (rl_remote r) = [] \<Longrightarrow> cn_out (rl_client r) = remote_data es"
  using relaying.reached [OF assms] pipe_stops by (auto simp: relay_inv_def)

text \<open>A copier never waits for room in \<^verbatim>\<open>done\<close>: each signals once and the buffer holds both.\<close>

lemma signals_fit:
  assumes "relay_exec es (relay_start new_conn) = Some r"
  shows "rl_up r = Signalling \<Longrightarrow> rl_done r < done_capacity" "rl_down r = Signalling \<Longrightarrow> rl_done r < done_capacity"
  using relaying.reached [OF assms] by (cases "rl_main r"; auto simp: relay_inv_def done_capacity_def ended_def split: if_splits)+

text \<open>The steps a copier has left once both connections are closed.\<close>

fun copier_work :: "copier \<Rightarrow> nat" where
  "copier_work Ended = 0"
| "copier_work Signalling = 1"
| "copier_work p = 2"

definition relay_work :: "relay \<Rightarrow> nat" where
  "relay_work r = copier_work (rl_up r) + copier_work (rl_down r)"

definition copier_events :: "relay_event set" where
  "copier_events = {UpRead False, UpWrite False, UpSignal, DownRead False, DownWrite False, DownSignal}"

lemma work_done: "relay_work r = 0 \<longleftrightarrow> rl_up r = Ended \<and> rl_down r = Ended"
  by (cases "rl_up r"; cases "rl_down r"; simp add: relay_work_def)

lemma copier_advances:
  assumes "relay_exec es (relay_start new_conn) = Some r" "rl_main r = Returned" "relay_work r \<noteq> 0"
  obtains e r' where "e \<in> copier_events" "relay_step e r = Some r'" "relay_work r' + 1 = relay_work r" "rl_main r' = Returned"
proof -
  have closed: "\<not> cn_open (rl_client r)" "\<not> cn_open (rl_remote r)"
    using relaying.reached [OF assms(1)] assms(2) by (simp_all add: relay_inv_def)
  note steps = copy_read_def copy_write_def relay_work_def copier_events_def closed assms(2)
  note fit = signals_fit [OF assms(1)]
  show ?thesis
  proof (cases "rl_up r = Ended")
    case False
    then consider "rl_up r = Reading" | d where "rl_up r = Writing d" | "rl_up r = Signalling" by (cases "rl_up r") auto
    then show ?thesis
    proof cases
      case 1 then show ?thesis by (intro that [of "UpRead False"]) (auto simp: steps)
    next
      case 2 then show ?thesis by (intro that [of "UpWrite False"]) (auto simp: steps)
    next
      case 3 then show ?thesis using fit by (intro that [of UpSignal]) (auto simp: steps)
    qed
  next
    case True
    with assms(3) consider "rl_down r = Reading" | d where "rl_down r = Writing d" | "rl_down r = Signalling"
      by (cases "rl_down r") (auto simp: relay_work_def)
    then show ?thesis
    proof cases
      case 1 then show ?thesis by (intro that [of "DownRead False"]) (auto simp: steps)
    next
      case 2 then show ?thesis by (intro that [of "DownWrite False"]) (auto simp: steps)
    next
      case 3 then show ?thesis using fit by (intro that [of DownSignal]) (auto simp: steps)
    qed
  qed
qed


definition stopped_relay :: "relay_event list" where
  "stopped_relay = [ClientSends ''GET'', UpRead False, CtxDone, MainCtx]"


text \<open>While neither direction has ended, cancelling the context (a stop, or new rules) ends the relay at once.\<close>

theorem relay_cancelled:
  assumes "rl_main r = Selecting" "rl_ctx r"
  shows "\<exists>r'. relay_step MainCtx r = Some r' \<and> rl_main r' = Returned \<and> \<not> cn_open (rl_client r') \<and> \<not> cn_open (rl_remote r')"
  using assms by (simp add: main_ctx_def relay_return_def)

section \<open>Where the two directions get in each other's way\<close>

text \<open>
  The goroutine that took the first signal waits for the second copier and no longer for the context.
  When the remote end finished first, that copier reads the client, whose connection stays open until it
  returns: a client that waits for the end of its answer never sees it.
\<close>

definition held_run :: "relay_event list" where
  "held_run = [ClientSends ''GET'', UpRead False, UpWrite False, RemoteSends ''page'', RemoteEnds, DownRead False, DownWrite False,
     DownRead False, DownSignal, MainDone, CtxDone]"

definition from_client :: "relay_event \<Rightarrow> bool" where
  "from_client e = (case e of ClientSends _ \<Rightarrow> True | ClientEnds \<Rightarrow> True | _ \<Rightarrow> False)"

definition far_end :: "relay_event \<Rightarrow> bool" where
  "far_end e = (case e of RemoteSends _ \<Rightarrow> True | RemoteEnds \<Rightarrow> True | CtxDone \<Rightarrow> True | _ \<Rightarrow> False)"

lemma relay_held:
  "\<exists>r. relay_exec held_run (relay_start new_conn) = Some r \<and> rl_ctx r \<and> cn_out (rl_client r) = [''page''] \<and> cn_eof (rl_remote r) \<and>
     cn_open (rl_client r) \<and> rl_main r = Draining \<and>
     (\<forall>e r'. relay_step e r = Some r' \<longrightarrow> from_client e \<or> far_end e \<or> e = UpRead True)"
proof -
  obtain r where r: "relay_exec held_run (relay_start new_conn) = Some r" "rl_ctx r" "cn_out (rl_client r) = [''page'']" "cn_eof (rl_remote r)"
      "cn_open (rl_client r)" "cn_in (rl_client r) = []" "\<not> cn_eof (rl_client r)" "rl_main r = Draining" "rl_up r = Reading" "rl_down r = Ended" "rl_done r = 0"
    by (simp add: held_run_def relay_start_def new_conn_def Let_def copy_read_def copy_write_def done_capacity_def main_done_def)
  have "from_client e \<or> far_end e \<or> e = UpRead True" if "relay_step e r = Some r'" for e r'
    using that r by (cases e) (auto simp: from_client_def far_end_def copy_read_def main_ctx_def main_done_def split: if_splits)
  with r show ?thesis by blast
qed

text \<open>
  A client that ends its own direction first ends both: the remote connection is closed under the copier
  that reads the answer.
\<close>

definition half_closed_run :: "relay_event list" where
  "half_closed_run = [ClientSends ''query'', UpRead False, UpWrite False, ClientEnds, UpRead False, UpSignal, MainDone, RemoteSends ''answer'',
     DownRead False, DownSignal, MainDone]"

lemma relay_half_closed:
  "\<exists>r. relay_exec half_closed_run (relay_start new_conn) = Some r \<and> cn_out (rl_remote r) = [''query''] \<and> cn_out (rl_client r) = [] \<and>
     rl_main r = Returned"
  by (simp add: half_closed_run_def relay_start_def new_conn_def Let_def copy_read_def copy_write_def done_capacity_def main_done_def relay_return_def)


section \<open>Accepting connections\<close>

text \<open>
  \<^verbatim>\<open>serveTCP\<close>: the accept loop, and the goroutine that closes the listener when the context is cancelled.
\<close>

record tcp_serving =
  tv_ctx :: bool
  tv_listening :: bool
  tv_looping :: bool
  tv_accepted :: nat

definition serveTCP :: tcp_serving where
  "serveTCP = \<lparr>tv_ctx = False, tv_listening = True, tv_looping = True, tv_accepted = 0\<rparr>"

datatype accept_event = StopServing | CloseListener | Accept | AcceptFails

fun accept_step :: "accept_event \<Rightarrow> tcp_serving \<Rightarrow> tcp_serving option" where
  "accept_step StopServing s = Some (s\<lparr>tv_ctx := True\<rparr>)"
| "accept_step CloseListener s = (if tv_ctx s then Some (s\<lparr>tv_listening := False\<rparr>) else None)"
| "accept_step Accept s = (if tv_looping s \<and> tv_listening s then Some (s\<lparr>tv_accepted := tv_accepted s + 1\<rparr>) else None)"
| "accept_step AcceptFails s = (if tv_looping s then Some (s\<lparr>tv_looping := False, tv_listening := False\<rparr>) else None)"

abbreviation accept_exec :: "accept_event list \<Rightarrow> tcp_serving \<Rightarrow> tcp_serving option" where
  "accept_exec \<equiv> run_events accept_step"

interpretation accepting: event_machine accept_step serveTCP "\<lambda>_ s. tv_looping s \<or> \<not> tv_listening s"
proof unfold_locales
  fix s e s' assume "tv_looping s \<or> \<not> tv_listening s" "accept_step e s = Some s'"
  then show "tv_looping s' \<or> \<not> tv_listening s'" by (cases e) (auto split: if_splits)
qed (simp add: serveTCP_def)

text \<open>A loop that has ended left no listener open, and a cancelled one ends within two steps.\<close>

theorem serveTCP_ends:
  assumes "accept_exec es serveTCP = Some s"
  shows "(tv_looping s \<or> \<not> tv_listening s) \<and>
    (tv_ctx s \<longrightarrow> (\<exists>fs s'. length fs \<le> 2 \<and> accept_exec fs s = Some s' \<and> \<not> tv_looping s' \<and> \<not> tv_listening s'))"
proof -
  have inv: "tv_looping s \<or> \<not> tv_listening s" by (rule accepting.reached [OF assms])
  have "\<exists>fs s'. length fs \<le> 2 \<and> accept_exec fs s = Some s' \<and> \<not> tv_looping s' \<and> \<not> tv_listening s'" if "tv_ctx s"
  proof (cases "tv_looping s")
    case True
    with that show ?thesis by (intro exI [of _ "[CloseListener, AcceptFails]"]) simp
  next
    case False
    with inv show ?thesis by (intro exI [of _ "[]"]) simp
  qed
  with inv show ?thesis by blast
qed

end
