(* ===== verification/Map_Pumps.thy ===== *)
theory Map_Pumps
  imports Relay
begin

text \<open>
  One UDP session of a service map once it is registered (\<^verbatim>\<open>servicemap.go\<close>): the pump from the client to the
  backend, the pump back, and the close by new rules or a stop.  A run is a list of events in the order
  they happen; the deadline of a read passing is a read that breaks.
\<close>

section \<open>State and steps\<close>

datatype pump = PTop | PRead | PWrite string | PEnded

text \<open>\<open>ps_registered\<close>: the session is in \<^verbatim>\<open>udpSessions\<close> under its key.\<close>

record pumped =
  ps_ctx :: bool
  ps_registered :: bool
  ps_client :: conn
  ps_backend :: conn
  ps_up :: pump
  ps_down :: pump
  ps_lastActive :: int

definition new_pumped :: "int \<Rightarrow> pumped" where
  "new_pumped now = \<lparr>ps_ctx = False, ps_registered = True, ps_client = new_conn, ps_backend = new_conn, ps_up = PTop, ps_down = PTop,
     ps_lastActive = now\<rparr>"

text \<open>One turn of a pump's loop; \<open>None\<close> when it waits.\<close>

definition pump_read :: "bool \<Rightarrow> conn \<Rightarrow> (conn \<times> pump) option" where
  "pump_read broken src = (if \<not> cn_open src \<or> broken then Some (src, PEnded)
     else case cn_in src of [] \<Rightarrow> None | d # ds \<Rightarrow> Some (src\<lparr>cn_in := ds\<rparr>, PWrite d))"

definition pump_write :: "bool \<Rightarrow> string \<Rightarrow> conn \<Rightarrow> conn \<times> pump" where
  "pump_write broken d dst = (if \<not> cn_open dst \<or> broken then (dst, PEnded) else (dst\<lparr>cn_out := cn_out dst @ [d]\<rparr>, PTop))"

definition mapUDPClientToBackend :: "int \<Rightarrow> bool \<Rightarrow> pumped \<Rightarrow> pumped option" where
  "mapUDPClientToBackend now broken p = (case ps_up p of
       PTop \<Rightarrow> Some (p\<lparr>ps_up := if ps_ctx p then PEnded else PRead\<rparr>)
     | PRead \<Rightarrow> (case pump_read broken (ps_client p) of None \<Rightarrow> None
          | Some (c, q) \<Rightarrow> Some (p\<lparr>ps_client := c, ps_up := q\<rparr>))
     | PWrite d \<Rightarrow> (case pump_write broken d (ps_backend p) of (c, q) \<Rightarrow>
          Some (p\<lparr>ps_backend := c, ps_up := q, ps_lastActive := (if q = PTop then now else ps_lastActive p)\<rparr>))
     | PEnded \<Rightarrow> None)"

text \<open>The deferred function of the pump back: it closes both connections and removes its own session.\<close>

definition session_over :: "pumped \<Rightarrow> pumped" where
  "session_over p = p\<lparr>ps_backend := (ps_backend p)\<lparr>cn_open := False\<rparr>, ps_client := (ps_client p)\<lparr>cn_open := False\<rparr>,
     ps_registered := False, ps_down := PEnded\<rparr>"

definition mapUDPBackendToClient :: "int \<Rightarrow> bool \<Rightarrow> pumped \<Rightarrow> pumped option" where
  "mapUDPBackendToClient now broken p = (case ps_down p of
       PTop \<Rightarrow> Some (if ps_ctx p then session_over p else p\<lparr>ps_down := PRead\<rparr>)
     | PRead \<Rightarrow> (case pump_read broken (ps_backend p) of None \<Rightarrow> None
          | Some (c, q) \<Rightarrow> Some (if q = PEnded then session_over p else p\<lparr>ps_backend := c, ps_down := q\<rparr>))
     | PWrite d \<Rightarrow> (case pump_write broken d (ps_client p) of (c, q) \<Rightarrow>
          Some (if q = PEnded then session_over p else p\<lparr>ps_client := c, ps_down := q, ps_lastActive := now\<rparr>))
     | PEnded \<Rightarrow> None)"

text \<open>New rules or a stop: the context is cancelled, both connections are closed, all sessions forgotten.\<close>

definition session_closed :: "pumped \<Rightarrow> pumped" where
  "session_closed p = p\<lparr>ps_ctx := True, ps_backend := (ps_backend p)\<lparr>cn_open := False\<rparr>, ps_client := (ps_client p)\<lparr>cn_open := False\<rparr>,
     ps_registered := False\<rparr>"

datatype pump_event = FromClient string | FromBackend string | PumpUp int bool | PumpDown int bool | RulesReplaced

fun pump_step :: "pump_event \<Rightarrow> pumped \<Rightarrow> pumped option" where
  "pump_step (FromClient d) p = Some (p\<lparr>ps_client := (ps_client p)\<lparr>cn_in := cn_in (ps_client p) @ [d]\<rparr>\<rparr>)"
| "pump_step (FromBackend d) p = Some (p\<lparr>ps_backend := (ps_backend p)\<lparr>cn_in := cn_in (ps_backend p) @ [d]\<rparr>\<rparr>)"
| "pump_step (PumpUp now broken) p = mapUDPClientToBackend now broken p"
| "pump_step (PumpDown now broken) p = mapUDPBackendToClient now broken p"
| "pump_step RulesReplaced p = Some (session_closed p)"

abbreviation pump_exec :: "pump_event list \<Rightarrow> pumped \<Rightarrow> pumped option" where
  "pump_exec \<equiv> run_events pump_step"

section \<open>The invariant\<close>

text \<open>
  The connections are closed together, no later than the session is forgotten or its context cancelled;
  the pump back ends only with both closed, so the other pump ends after it.
\<close>

definition pump_inv :: "pumped \<Rightarrow> bool" where
  "pump_inv p \<longleftrightarrow> cn_open (ps_client p) = cn_open (ps_backend p) \<and> ps_registered p = cn_open (ps_client p) \<and>
     (ps_down p = PEnded \<longrightarrow> \<not> cn_open (ps_client p)) \<and> (ps_ctx p \<longrightarrow> \<not> cn_open (ps_client p))"

lemma pump_step_inv: "pump_inv p \<Longrightarrow> pump_step e p = Some p' \<Longrightarrow> pump_inv p'"
  by (cases e) (auto simp: pump_inv_def mapUDPClientToBackend_def mapUDPBackendToClient_def pump_read_def pump_write_def session_over_def
      session_closed_def split: pump.splits if_splits list.splits option.splits prod.splits)

interpretation pumping: event_machine pump_step "new_pumped now" "\<lambda>_. pump_inv" for now
proof unfold_locales
  show "pump_inv (new_pumped now)" by (simp add: pump_inv_def new_pumped_def new_conn_def)
qed (rule pump_step_inv)

text \<open>A session in the table has both connections open and a pump back that will close them.\<close>

theorem registered_is_live:
  assumes "pump_exec es (new_pumped now) = Some p"
  shows "ps_registered p = (cn_open (ps_client p) \<and> cn_open (ps_backend p))" "ps_registered p \<Longrightarrow> ps_down p \<noteq> PEnded"
  using pumping.reached [OF assms] by (auto simp: pump_inv_def)

text \<open>Replacing the rules ends both pumps: each has at most one turn left, in which its read or write fails.\<close>

lemma closed_pumps_end:
  assumes "\<not> cn_open (ps_client p)" "\<not> cn_open (ps_backend p)" "ps_ctx p"
  shows "ps_up p = PEnded \<or> (\<exists>p'. pump_step (PumpUp now False) p = Some p' \<and> ps_up p' = PEnded)"
    "ps_down p = PEnded \<or> (\<exists>p'. pump_step (PumpDown now False) p = Some p' \<and> ps_down p' = PEnded)"
  using assms by (cases "ps_up p"; cases "ps_down p"; simp add: mapUDPClientToBackend_def mapUDPBackendToClient_def pump_read_def
      pump_write_def session_over_def)+

lemma ctx_keep: "pump_step e p = Some p' \<Longrightarrow> ps_ctx p \<Longrightarrow> ps_ctx p'"
  by (cases e) (auto simp: mapUDPClientToBackend_def mapUDPBackendToClient_def pump_read_def pump_write_def session_over_def
      session_closed_def split: pump.splits if_splits list.splits option.splits prod.splits)

lemma ctx_keep_exec: "pump_exec es p = Some p' \<Longrightarrow> ps_ctx p \<Longrightarrow> ps_ctx p'"
  by (erule run_events_keep) (auto intro: ctx_keep)

lemma ctx_after_replaced: "pump_exec es p = Some p' \<Longrightarrow> RulesReplaced \<in> set es \<Longrightarrow> ps_ctx p'"
proof (induction es arbitrary: p)
  case (Cons e es)
  then obtain p1 where p1: "pump_step e p = Some p1" "pump_exec es p1 = Some p'" by (auto split: option.splits)
  show ?case
  proof (cases "e = RulesReplaced")
    case True
    with p1(1) have "ps_ctx p1" by (auto simp: session_closed_def)
    with p1(2) show ?thesis by (rule ctx_keep_exec)
  next
    case False
    with Cons.IH [OF p1(2)] Cons.prems(2) show ?thesis by simp
  qed
qed simp

theorem rules_replaced_end:
  assumes "pump_exec es (new_pumped now) = Some p" "RulesReplaced \<in> set es"
  shows "\<not> ps_registered p \<and> (ps_up p = PEnded \<or> (\<exists>p'. pump_step (PumpUp later False) p = Some p' \<and> ps_up p' = PEnded)) \<and>
    (ps_down p = PEnded \<or> (\<exists>p'. pump_step (PumpDown later False) p = Some p' \<and> ps_down p' = PEnded))"
proof -
  have "ps_ctx p" using ctx_after_replaced [OF assms] .
  with pumping.reached [OF assms(1)] have "\<not> cn_open (ps_client p)" "\<not> cn_open (ps_backend p)" "ps_ctx p" "\<not> ps_registered p"
    by (auto simp: pump_inv_def)
  with closed_pumps_end show ?thesis by blast
qed

section \<open>A session that no longer hears its client\<close>

text \<open>
  The pump from the client ends when the client sends nothing for the idle time, and closes nothing.  While
  the backend keeps sending, the session stays registered, and what the client sends later stays in the
  connection's queue.
\<close>

lemma up_ended_silent:
  "pump_exec es p = Some p' \<Longrightarrow> ps_up p = PEnded \<Longrightarrow> ps_up p' = PEnded \<and> cn_out (ps_backend p') = cn_out (ps_backend p)"
proof (induction es arbitrary: p)
  case (Cons e es)
  then obtain p1 where p1: "pump_step e p = Some p1" "pump_exec es p1 = Some p'" by (auto split: option.splits)
  have "ps_up p1 = PEnded \<and> cn_out (ps_backend p1) = cn_out (ps_backend p)"
    using p1(1) Cons.prems(2) by (cases e) (auto simp: mapUDPClientToBackend_def mapUDPBackendToClient_def pump_read_def pump_write_def
      session_over_def session_closed_def split: pump.splits if_splits list.splits option.splits prod.splits)
  with Cons.IH [OF p1(2)] show ?case by simp
qed simp

definition deaf_run :: "pump_event list" where
  "deaf_run = [FromClient ''subscribe'', PumpUp 0 False, PumpUp 0 False, PumpUp 0 False, PumpUp 0 False,
     PumpDown 0 False, FromBackend ''item'', PumpDown 100 False, PumpDown 100 False, PumpUp 120 True, FromClient ''unsubscribe'',
     PumpDown 100 False, FromBackend ''item'', PumpDown 150 False, PumpDown 150 False]"

lemma session_deaf:
  "\<exists>p. pump_exec deaf_run (new_pumped 0) = Some p \<and> ps_registered p \<and> cn_in (ps_client p) = [''unsubscribe''] \<and>
     (\<forall>es p'. pump_exec es p = Some p' \<longrightarrow> cn_out (ps_backend p') = [''subscribe''])"
proof -
  obtain p where p: "pump_exec deaf_run (new_pumped 0) = Some p" "ps_registered p" "cn_in (ps_client p) = [''unsubscribe'']"
      "ps_up p = PEnded" "cn_out (ps_backend p) = [''subscribe'']"
    by (simp add: deaf_run_def new_pumped_def new_conn_def mapUDPClientToBackend_def mapUDPBackendToClient_def pump_read_def pump_write_def)
  with up_ended_silent [of _ p] show ?thesis by (intro exI [of _ p]) auto
qed

end
