(* ===== verification/Poller.thy ===== *)
theory Poller
  imports Prelude Event_Runs
begin

text \<open>
  The goroutine that polls the peers' counters (\<^verbatim>\<open>startStatusPoller\<close> and \<^verbatim>\<open>stopStatusPoller\<close> of \<^verbatim>\<open>service/hub.go\<close>),
  with any number of concurrent callers.  A section under \<^verbatim>\<open>statusMu\<close>, a wait on a channel and a step of a
  poller is one event.  What a poll does is in theory \<open>Service_Base\<close>; here it begins and ends.
\<close>

section \<open>State\<close>

text \<open>
  A poller, its stop channel and its done channel share a number.  A poller waits in its \<^verbatim>\<open>select\<close>, polls, or
  has left the loop; then it closes its done channel, and last takes the lock to clear \<^verbatim>\<open>statusDone\<close>.
\<close>

datatype poller = NotStarted | Waiting | Polling | Leaving | Clearing | Gone

text \<open>
  A caller: in neither function, about to lock, or waiting for the done channel of a poller (a wait on a nil
  channel never ends).
\<close>

datatype caller = Outside | StartLocks int | StartWaits int nat | StopLocks | StopWaits "nat option"

text \<open>\<open>pl_panic\<close>: a channel was closed twice, a nil channel was closed, or a ticker got no positive period.\<close>

record poller_state =
  pl_running :: bool
  pl_stop :: "nat option"
  pl_done :: "nat option"
  pl_poller :: "nat \<Rightarrow> poller"
  pl_ticker :: "nat \<Rightarrow> int"
  pl_stopped :: "nat list"
  pl_finished :: "nat list"
  pl_next :: nat
  pl_caller :: "nat \<Rightarrow> caller"
  pl_panic :: bool

definition no_poller :: poller_state where
  "no_poller = \<lparr>pl_running = False, pl_stop = None, pl_done = None, pl_poller = (\<lambda>_. NotStarted), pl_ticker = (\<lambda>_. 1),
     pl_stopped = [], pl_finished = [], pl_next = 0, pl_caller = (\<lambda>_. Outside), pl_panic = False\<rparr>"

section \<open>The callers\<close>

definition set_caller :: "nat \<Rightarrow> caller \<Rightarrow> poller_state \<Rightarrow> poller_state" where
  "set_caller t c s = s\<lparr>pl_caller := (pl_caller s)(t := c)\<rparr>"

definition set_poller :: "nat \<Rightarrow> poller \<Rightarrow> poller_state \<Rightarrow> poller_state" where
  "set_poller p ph s = s\<lparr>pl_poller := (pl_poller s)(p := ph)\<rparr>"

definition ticker_period :: "int \<Rightarrow> int" where
  "ticker_period intervalSec = (if intervalSec \<le> 0 then 1 else intervalSec)"

definition new_poller :: "int \<Rightarrow> poller_state \<Rightarrow> poller_state" where
  "new_poller intervalSec s = (let p = pl_next s in
     set_poller p Waiting (s\<lparr>pl_running := True, pl_stop := Some p, pl_done := Some p, pl_ticker := (pl_ticker s)(p := ticker_period intervalSec),
       pl_panic := (pl_panic s \<or> ticker_period intervalSec \<le> 0), pl_next := p + 1\<rparr>))"

definition start_locked_poller :: "nat \<Rightarrow> int \<Rightarrow> poller_state \<Rightarrow> poller_state" where
  "start_locked_poller t intervalSec s =
     (if pl_running s then set_caller t Outside s
      else case pl_done s of Some oldDone \<Rightarrow> set_caller t (StartWaits intervalSec oldDone) s
        | None \<Rightarrow> set_caller t Outside (new_poller intervalSec s))"

definition close_stop :: "nat option \<Rightarrow> poller_state \<Rightarrow> poller_state" where
  "close_stop ch s = (case ch of None \<Rightarrow> s\<lparr>pl_panic := True\<rparr>
     | Some p \<Rightarrow> if p \<in> set (pl_stopped s) then s\<lparr>pl_panic := True\<rparr> else s\<lparr>pl_stopped := p # pl_stopped s\<rparr>)"

definition stop_locked_poller :: "nat \<Rightarrow> poller_state \<Rightarrow> poller_state" where
  "stop_locked_poller t s =
     (if \<not> pl_running s then
        (case pl_done s of None \<Rightarrow> set_caller t Outside s | Some p \<Rightarrow> set_caller t (StopWaits (Some p)) s)
      else set_caller t (StopWaits (pl_done s)) ((close_stop (pl_stop s) s)\<lparr>pl_stop := None, pl_running := False\<rparr>))"

section \<open>The poller\<close>

definition close_done :: "nat \<Rightarrow> poller_state \<Rightarrow> poller_state" where
  "close_done p s = set_poller p Clearing (if p \<in> set (pl_finished s) then s\<lparr>pl_panic := True\<rparr> else s\<lparr>pl_finished := p # pl_finished s\<rparr>)"

definition clear_done :: "nat \<Rightarrow> poller_state \<Rightarrow> poller_state" where
  "clear_done p s = set_poller p Gone (if pl_done s = Some p then s\<lparr>pl_done := None\<rparr> else s)"

datatype poller_event =
    CallStart nat int | CallStop nat | StartLocked nat | StartWoken nat | StopLocked nat | StopWoken nat
  | Tick nat | PollEnds nat | SeesStop nat | ClosesDone nat | ClearsDone nat

fun poller_step :: "poller_event \<Rightarrow> poller_state \<Rightarrow> poller_state option" where
  "poller_step (CallStart t iv) s = (if pl_caller s t = Outside then Some (set_caller t (StartLocks iv) s) else None)"
| "poller_step (CallStop t) s = (if pl_caller s t = Outside then Some (set_caller t StopLocks s) else None)"
| "poller_step (StartLocked t) s = (case pl_caller s t of StartLocks iv \<Rightarrow> Some (start_locked_poller t iv s) | _ \<Rightarrow> None)"
| "poller_step (StartWoken t) s = (case pl_caller s t of
       StartWaits iv p \<Rightarrow> if p \<in> set (pl_finished s) then Some (set_caller t (StartLocks iv) s) else None | _ \<Rightarrow> None)"
| "poller_step (StopLocked t) s = (if pl_caller s t = StopLocks then Some (stop_locked_poller t s) else None)"
| "poller_step (StopWoken t) s = (case pl_caller s t of
       StopWaits (Some p) \<Rightarrow> if p \<in> set (pl_finished s) then Some (set_caller t Outside s) else None | _ \<Rightarrow> None)"
| "poller_step (Tick p) s = (if pl_poller s p = Waiting then Some (set_poller p Polling s) else None)"
| "poller_step (PollEnds p) s = (if pl_poller s p = Polling then Some (set_poller p Waiting s) else None)"
| "poller_step (SeesStop p) s = (if pl_poller s p = Waiting \<and> p \<in> set (pl_stopped s) then Some (set_poller p Leaving s) else None)"
| "poller_step (ClosesDone p) s = (if pl_poller s p = Leaving then Some (close_done p s) else None)"
| "poller_step (ClearsDone p) s = (if pl_poller s p = Clearing then Some (clear_done p s) else None)"

abbreviation poller_exec :: "poller_event list \<Rightarrow> poller_state \<Rightarrow> poller_state option" where
  "poller_exec \<equiv> run_events poller_step"

section \<open>The invariant\<close>

text \<open>
  At most one poller has not cleared yet, and \<^verbatim>\<open>statusDone\<close> is its channel; it runs until its stop channel is
  closed, and its done channel is closed exactly when it has left.
\<close>

fun phase_ok :: "bool \<Rightarrow> bool \<Rightarrow> bool \<Rightarrow> poller \<Rightarrow> bool" where
  "phase_ok running stopped finished NotStarted = (\<not> stopped \<and> \<not> finished \<and> \<not> running)"
| "phase_ok running stopped finished Waiting = (\<not> finished \<and> running = (\<not> stopped))"
| "phase_ok running stopped finished Polling = (\<not> finished \<and> running = (\<not> stopped))"
| "phase_ok running stopped finished Leaving = (\<not> finished \<and> stopped \<and> \<not> running)"
| "phase_ok running stopped finished Clearing = (finished \<and> stopped \<and> \<not> running)"
| "phase_ok running stopped finished Gone = (finished \<and> stopped \<and> \<not> running)"

definition poller_ok :: "poller_state \<Rightarrow> nat \<Rightarrow> bool" where
  "poller_ok s p \<longleftrightarrow> phase_ok (pl_running s \<and> pl_done s = Some p) (p \<in> set (pl_stopped s)) (p \<in> set (pl_finished s)) (pl_poller s p) \<and>
     (pl_poller s p = NotStarted) = (pl_next s \<le> p) \<and> (pl_poller s p \<notin> {NotStarted, Gone}) = (pl_done s = Some p) \<and>
     0 < pl_ticker s p \<and> (pl_done s = Some p \<longrightarrow> p + 1 = pl_next s)"

fun caller_ok :: "poller_state \<Rightarrow> caller \<Rightarrow> bool" where
  "caller_ok s (StartWaits iv p) = (p \<in> set (pl_stopped s))"
| "caller_ok s (StopWaits d) = (case d of None \<Rightarrow> False | Some p \<Rightarrow> p \<in> set (pl_stopped s))"
| "caller_ok s c = True"

definition poller_inv :: "poller_state \<Rightarrow> bool" where
  "poller_inv s \<longleftrightarrow> \<not> pl_panic s \<and> (\<forall>p. poller_ok s p) \<and> (\<forall>t. caller_ok s (pl_caller s t)) \<and>
     pl_stop s = (if pl_running s then pl_done s else None) \<and> (pl_running s \<longrightarrow> pl_done s \<noteq> None)"

lemma no_poller_inv: "poller_inv no_poller"
  by (simp add: poller_inv_def no_poller_def poller_ok_def)

section \<open>Every step keeps it\<close>

lemma caller_mono: "caller_ok s c \<Longrightarrow> set (pl_stopped s) \<subseteq> set (pl_stopped s') \<Longrightarrow> caller_ok s' c"
  by (cases c) (auto split: option.splits)

lemma inv_set_caller:
  assumes "poller_inv s" "caller_ok s c"
  shows "poller_inv (set_caller t c s)"
proof -
  have "caller_ok (set_caller t c s) c' = caller_ok s c'" for c' by (cases c') (auto simp: set_caller_def split: option.splits)
  with assms show ?thesis by (auto simp: poller_inv_def poller_ok_def set_caller_def)
qed

text \<open>A poller that \<^verbatim>\<open>statusDone\<close> does not name is over or not started, so a new one can take its place.\<close>

lemma inv_new_poller:
  assumes "poller_inv s" "\<not> pl_running s" "pl_done s = None"
  shows "poller_inv (new_poller iv s)"
proof -
  have new: "pl_poller s (pl_next s) = NotStarted" using assms(1) by (auto simp: poller_inv_def poller_ok_def)
  have "poller_ok (new_poller iv s) p" for p
  proof (cases "p = pl_next s")
    case True
    have "poller_ok s (pl_next s)" using assms(1) by (simp add: poller_inv_def)
    with True new show ?thesis by (simp add: poller_ok_def new_poller_def set_poller_def ticker_period_def Let_def)
  next
    case False
    have "poller_ok s p" using assms(1) by (simp add: poller_inv_def)
    with False assms(2,3) show ?thesis
      by (cases "pl_poller s p") (auto simp: poller_ok_def new_poller_def set_poller_def Let_def)
  qed
  moreover have "caller_ok (new_poller iv s) (pl_caller s t)" for t
    by (rule caller_mono [of s]) (use assms(1) in \<open>auto simp: poller_inv_def new_poller_def set_poller_def Let_def\<close>)
  ultimately show ?thesis
    using assms(1) by (auto simp: poller_inv_def new_poller_def set_poller_def ticker_period_def Let_def)
qed

lemma inv_start:
  assumes "poller_inv s"
  shows "poller_inv (start_locked_poller t iv s)"
proof -
  have "p \<in> set (pl_stopped s)" if "pl_done s = Some p" "\<not> pl_running s" for p
  proof -
    have "poller_ok s p" using assms by (simp add: poller_inv_def)
    with that show ?thesis by (cases "pl_poller s p") (auto simp: poller_ok_def)
  qed
  with assms show ?thesis
    by (auto simp: start_locked_poller_def inv_set_caller inv_new_poller split: option.split)
qed

lemma inv_stop:
  assumes "poller_inv s"
  shows "poller_inv (stop_locked_poller t s)"
proof (cases "pl_running s")
  case False
  have "p \<in> set (pl_stopped s)" if "pl_done s = Some p" for p
  proof -
    have "poller_ok s p" using assms by (simp add: poller_inv_def)
    with that False show ?thesis by (cases "pl_poller s p") (auto simp: poller_ok_def)
  qed
  with assms False show ?thesis by (auto simp: stop_locked_poller_def inv_set_caller split: option.split)
next
  case True
  with assms obtain p where p: "pl_done s = Some p" "pl_stop s = Some p" by (auto simp: poller_inv_def)
  have ok: "poller_ok s q" for q using assms by (simp add: poller_inv_def)
  have out: "p \<notin> set (pl_stopped s)" using ok [of p] p True by (cases "pl_poller s p") (auto simp: poller_ok_def)
  let ?s = "s\<lparr>pl_stopped := p # pl_stopped s, pl_stop := None, pl_running := False\<rparr>"
  have "poller_ok ?s q" for q
    using ok [of q] p True by (cases "pl_poller s q"; cases "q = p") (auto simp: poller_ok_def)
  moreover have "caller_ok ?s (pl_caller s u)" for u
    by (rule caller_mono [of s]) (use assms in \<open>auto simp: poller_inv_def\<close>)
  ultimately have "poller_inv ?s" using assms by (auto simp: poller_inv_def)
  then have "poller_inv (set_caller t (StopWaits (Some p)) ?s)" by (rule inv_set_caller) simp
  with True p out show ?thesis by (simp add: stop_locked_poller_def close_stop_def)
qed

text \<open>A step of one poller leaves the others as they are.\<close>

lemma inv_poller_step:
  assumes "poller_inv s" "\<And>q. q \<noteq> p \<Longrightarrow> poller_ok s' q = poller_ok s q" "poller_ok s' p" "pl_panic s' = pl_panic s"
    "pl_caller s' = pl_caller s" "pl_stopped s' = pl_stopped s" "pl_stop s' = (if pl_running s' then pl_done s' else None)"
    "pl_running s' \<longrightarrow> pl_done s' \<noteq> None"
  shows "poller_inv s'"
proof -
  have "caller_ok s' (pl_caller s t)" for t
    by (rule caller_mono [of s]) (use assms(1,6) in \<open>auto simp: poller_inv_def\<close>)
  moreover have "poller_ok s' q" for q using assms(1-3) by (cases "q = p") (auto simp: poller_inv_def)
  ultimately show ?thesis using assms by (auto simp: poller_inv_def)
qed

lemma inv_poller_moves:
  assumes "poller_inv s"
  shows "pl_poller s p = Waiting \<Longrightarrow> poller_inv (set_poller p Polling s)"
    "pl_poller s p = Polling \<Longrightarrow> poller_inv (set_poller p Waiting s)"
    "pl_poller s p = Waiting \<Longrightarrow> p \<in> set (pl_stopped s) \<Longrightarrow> poller_inv (set_poller p Leaving s)"
    "pl_poller s p = Leaving \<Longrightarrow> poller_inv (close_done p s)"
    "pl_poller s p = Clearing \<Longrightarrow> poller_inv (clear_done p s)"
proof -
  have ok: "poller_ok s p" using assms by (simp add: poller_inv_def)
  note defs = poller_ok_def set_poller_def close_done_def clear_done_def
  have top: "pl_stop s = (if pl_running s then pl_done s else None)" "pl_running s \<longrightarrow> pl_done s \<noteq> None"
    using assms by (auto simp: poller_inv_def)
  show "pl_poller s p = Waiting \<Longrightarrow> poller_inv (set_poller p Polling s)"
    by (rule inv_poller_step [OF assms, of p]) (use ok top in \<open>auto simp: defs\<close>)
  show "pl_poller s p = Polling \<Longrightarrow> poller_inv (set_poller p Waiting s)"
    by (rule inv_poller_step [OF assms, of p]) (use ok top in \<open>auto simp: defs\<close>)
  show "pl_poller s p = Waiting \<Longrightarrow> p \<in> set (pl_stopped s) \<Longrightarrow> poller_inv (set_poller p Leaving s)"
    by (rule inv_poller_step [OF assms, of p]) (use ok top in \<open>auto simp: defs\<close>)
  show "pl_poller s p = Leaving \<Longrightarrow> poller_inv (close_done p s)"
    by (rule inv_poller_step [OF assms, of p]) (use ok top in \<open>auto simp: defs\<close>)
  show "pl_poller s p = Clearing \<Longrightarrow> poller_inv (clear_done p s)"
    by (rule inv_poller_step [OF assms, of p]) (use ok top in \<open>auto simp: defs\<close>)
qed

lemma poller_step_inv: "poller_inv s \<Longrightarrow> poller_step e s = Some s' \<Longrightarrow> poller_inv s'"
  by (cases e) (auto simp: inv_set_caller inv_start inv_stop inv_poller_moves split: if_splits caller.splits option.splits)

interpretation polling: event_machine poller_step no_poller "\<lambda>_. poller_inv"
  by unfold_locales (auto simp: no_poller_inv intro: poller_step_inv)

section \<open>What start and stop promise\<close>

definition polls :: "poller_state \<Rightarrow> nat \<Rightarrow> bool" where
  "polls s p \<longleftrightarrow> pl_poller s p \<in> {Waiting, Polling, Leaving}"

lemma reached_ok: "poller_exec es no_poller = Some s \<Longrightarrow> poller_ok s p"
  using polling.reached by (simp add: poller_inv_def)

text \<open>
  However starts and stops overlap: no channel is closed twice, no ticker has a period that panics, no wait is
  on a nil channel, and there is at most one poller, so polls never overlap.
\<close>

theorem one_poller:
  assumes "poller_exec es no_poller = Some s"
  shows "\<not> pl_panic s \<and> (\<forall>p. 0 < pl_ticker s p) \<and> (\<forall>t. pl_caller s t \<noteq> StopWaits None) \<and> (\<forall>p q. polls s p \<and> polls s q \<longrightarrow> p = q)"
proof -
  note inv = polling.reached [OF assms, unfolded poller_inv_def]
  have d: "pl_done s = Some p" if "polls s p" for p
    using reached_ok [OF assms, of p] that by (auto simp: polls_def poller_ok_def)
  have "p = q" if "polls s p" "polls s q" for p q using d [OF that(1)] d [OF that(2)] by simp
  moreover have "pl_caller s t \<noteq> StopWaits None" for t using inv by (metis caller_ok.simps(2) option.simps(4))
  ultimately show ?thesis using inv by (auto simp: poller_ok_def)
qed

lemma gone_step: "poller_step e s = Some s' \<Longrightarrow> pl_poller s p \<in> {Clearing, Gone} \<Longrightarrow> p < pl_next s \<Longrightarrow>
    pl_poller s' p \<in> {Clearing, Gone} \<and> p < pl_next s'"
  by (cases e) (auto simp: set_caller_def set_poller_def start_locked_poller_def new_poller_def stop_locked_poller_def close_stop_def
      close_done_def clear_done_def Let_def split: if_splits caller.splits option.splits)

lemma gone_exec: "poller_exec es s = Some s' \<Longrightarrow> pl_poller s p \<in> {Clearing, Gone} \<Longrightarrow> p < pl_next s \<Longrightarrow>
    pl_poller s' p \<in> {Clearing, Gone}"
proof (induction es arbitrary: s)
  case (Cons e es)
  then show ?case using gone_step [of e s _ p] by (auto split: option.splits)
qed simp

text \<open>
  C32: A stop that returns from its wait leaves the poller it stopped behind for good: that one never polls
  again, and one that polls now was started later.
\<close>

theorem stop_ends_polling:
  assumes "poller_exec es no_poller = Some s" "pl_caller s t = StopWaits (Some p)" "poller_step (StopWoken t) s = Some s1"
    "poller_exec fs s1 = Some s2"
  shows "\<not> polls s2 p \<and> (\<forall>q. \<not> polls s1 q \<or> p < q)"
proof -
  note ok = reached_ok [OF assms(1)]
  from assms(2,3) have p: "p \<in> set (pl_finished s)" and s1: "s1 = set_caller t Outside s" by (auto split: if_splits)
  have gone: "pl_poller s p \<in> {Clearing, Gone}" "p < pl_next s"
    using p ok [of p] by (cases "pl_poller s p"; auto simp: poller_ok_def)+
  then have "pl_poller s2 p \<in> {Clearing, Gone}"
    using gone_exec [OF assms(4), of p] by (simp add: s1 set_caller_def)
  moreover have "p < q" if "polls s1 q" for q
  proof -
    have "p \<noteq> q" "pl_next s = q + 1" using ok [of q] gone that by (auto simp: polls_def poller_ok_def s1 set_caller_def)
    with gone(2) show ?thesis by simp
  qed
  ultimately show ?thesis by (auto simp: polls_def)
qed

definition stop_run :: "poller_event list" where
  "stop_run = [CallStart 0 5, StartLocked 0, Tick 0, CallStop 1, StopLocked 1, PollEnds 0, SeesStop 0, ClosesDone 0]"

theorem stop_ends_polling_witness:
  "\<exists>s s1 s2. poller_exec stop_run no_poller = Some s \<and> poller_step (StopWoken 1) s = Some s1 \<and>
     poller_exec [ClearsDone 0, CallStart 2 3, StartLocked 2, Tick 1] s1 = Some s2 \<and> pl_poller s2 1 = Polling \<and> \<not> polls s2 0"
proof -
  note defs = set_caller_def set_poller_def start_locked_poller_def new_poller_def stop_locked_poller_def close_stop_def close_done_def
    clear_done_def ticker_period_def Let_def no_poller_def stop_run_def
  obtain s s1 s2 where s: "poller_exec stop_run no_poller = Some s" "pl_caller s 1 = StopWaits (Some 0)"
      "poller_step (StopWoken 1) s = Some s1" "poller_exec [ClearsDone 0, CallStart 2 3, StartLocked 2, Tick 1] s1 = Some s2"
      "pl_poller s2 1 = Polling"
    by (simp add: defs)
  from stop_ends_polling [OF s(1-4)] s show ?thesis by blast
qed

text \<open>
  The wait ends: the poller it waits for was told to stop, and in at most three steps of its own (the end of
  its poll, the receive, the close) it lets the caller go.
\<close>

theorem stop_wait_ends:
  assumes "poller_exec es no_poller = Some s" "pl_caller s t = StopWaits (Some p)"
  shows "\<exists>fs s'. length fs \<le> 3 \<and> set fs \<subseteq> {PollEnds p, SeesStop p, ClosesDone p} \<and> poller_exec fs s = Some s' \<and>
    poller_step (StopWoken t) s' \<noteq> None"
proof -
  have "caller_ok s (pl_caller s t)" using polling.reached [OF assms(1)] by (simp add: poller_inv_def)
  with assms(2) have stopped: "p \<in> set (pl_stopped s)" by simp
  note ok = reached_ok [OF assms(1), of p, unfolded poller_ok_def]
  note defs = set_poller_def close_done_def
  consider "pl_poller s p = Waiting" | "pl_poller s p = Polling" | "pl_poller s p = Leaving" | "p \<in> set (pl_finished s)"
    using ok stopped by (cases "pl_poller s p") auto
  then show ?thesis
  proof cases
    case 1 with ok stopped assms(2) show ?thesis by (intro exI [of _ "[SeesStop p, ClosesDone p]"]) (simp add: defs)
  next
    case 2 with ok stopped assms(2) show ?thesis by (intro exI [of _ "[PollEnds p, SeesStop p, ClosesDone p]"]) (simp add: defs)
  next
    case 3 with ok stopped assms(2) show ?thesis by (intro exI [of _ "[ClosesDone p]"]) (simp add: defs)
  next
    case 4 with assms(2) show ?thesis by (intro exI [of _ "[]"]) simp
  qed
qed

end
