(* ===== verification/Request_Log.thy ===== *)
theory Request_Log
  imports Keys
begin

text \<open>
  The request logs (\<^verbatim>\<open>bootstrap/bootstrap.go\<close>): setup tokens and session tokens travel in query strings, and the
  formatter of the access log and the writer of panic reports replace them.  The query codec is that of
  Go's \<^verbatim>\<open>net/url\<close>; a string is its bytes.
\<close>

section \<open>Query strings (\<^verbatim>\<open>net/url\<close>)\<close>

fun query_unescape :: "string \<Rightarrow> string option" where
  "query_unescape [] = Some []"
| "query_unescape (c # s) = (if c = CHR ''%'' then
       (case s of a # b # t \<Rightarrow> (case (hex_val a, hex_val b) of
            (Some i, Some j) \<Rightarrow> map_option ((#) (char_of (i * 16 + j))) (query_unescape t)
          | _ \<Rightarrow> None)
        | _ \<Rightarrow> None)
     else map_option ((#) (if c = CHR ''+'' then CHR '' '' else c)) (query_unescape s))"

definition unreserved :: "char \<Rightarrow> bool" where
  "unreserved c \<longleftrightarrow> is_lower c \<or> is_upper c \<or> is_digit c \<or> c \<in> set ''-_.~''"

definition upper_hex :: "nat \<Rightarrow> char" where
  "upper_hex n = ''0123456789ABCDEF'' ! n"

definition escape_char :: "char \<Rightarrow> string" where
  "escape_char c = (if unreserved c then [c] else if c = CHR '' '' then ''+''
     else [CHR ''%'', upper_hex (of_char c div 16), upper_hex (of_char c mod 16)])"

definition query_escape :: "string \<Rightarrow> string" where
  "query_escape s = concat (map escape_char s)"

type_synonym query_values = "(string, string list) gomap"

definition values_of :: "query_values \<Rightarrow> string \<Rightarrow> string list" where
  "values_of m k = (case mget m k of None \<Rightarrow> [] | Some vs \<Rightarrow> vs)"

definition pair_of :: "string \<Rightarrow> (string \<times> string) option" where
  "pair_of part = (if part = [] \<or> CHR '';'' \<in> set part then None
     else let (k, v) = (case cut_at (CHR ''='') part of None \<Rightarrow> (part, []) | Some kv \<Rightarrow> kv) in
       (case (query_unescape k, query_unescape v) of (Some k', Some v') \<Rightarrow> Some (k', v') | _ \<Rightarrow> None))"

definition add_pair :: "string \<Rightarrow> query_values \<Rightarrow> query_values" where
  "add_pair part m = (case pair_of part of None \<Rightarrow> m | Some (k, v) \<Rightarrow> mput k (values_of m k @ [v]) m)"

definition ParseQuery :: "string \<Rightarrow> query_values" where
  "ParseQuery query = fold add_pair (split_on (CHR ''&'') query) []"

definition Encode :: "query_values \<Rightarrow> string" where
  "Encode m = join_with ''&'' (concat (map (\<lambda>k. map (\<lambda>v. query_escape k @ ''='' @ query_escape v) (values_of m k)) (sort (map fst m))))"

section \<open>Redaction\<close>

definition secret_keys :: "string list" where
  "secret_keys = [''setup_token'', ''token'']"

definition redact_key :: "string \<Rightarrow> query_values \<Rightarrow> query_values" where
  "redact_key key m = (if mget m key \<noteq> None then mput key [''REDACTED''] m else m)"

definition redact :: "query_values \<Rightarrow> query_values" where
  "redact m = fold redact_key secret_keys m"

section \<open>The access log\<close>

text \<open>What gin gives the formatter; times and latency as they print.\<close>

record LogParams =
  lp_TimeStamp :: string
  lp_StatusCode :: int
  lp_Latency :: string
  lp_ClientIP :: string
  lp_Method :: string
  lp_Path :: string
  lp_RawQuery :: string
  lp_ErrorMessage :: string

record LogColors =
  lc_status :: string
  lc_method :: string
  lc_reset :: string
  lc_latency :: string

definition no_colors :: LogColors where
  "no_colors = \<lparr>lc_status = [], lc_method = [], lc_reset = [], lc_latency = []\<rparr>"

definition pad_left :: "nat \<Rightarrow> string \<Rightarrow> string" where
  "pad_left n s = replicate (n - length s) (CHR '' '') @ s"

definition pad_right :: "nat \<Rightarrow> string \<Rightarrow> string" where
  "pad_right n s = s @ replicate (n - length s) (CHR '' '')"

definition logged_path :: "string \<Rightarrow> string \<Rightarrow> string" where
  "logged_path path query = (let raw = ParseQuery query in
     if raw = [] then path
     else let encoded = Encode (redact raw) in if encoded = [] then path else path @ ''?'' @ encoded)"

definition accessLogFormatter :: "LogColors option \<Rightarrow> LogParams \<Rightarrow> string" where
  "accessLogFormatter color param =
     (let c = (case color of None \<Rightarrow> no_colors | Some x \<Rightarrow> x) in
      ''[GIN] '' @ lp_TimeStamp param @ '' |'' @ lc_status c @ '' '' @ pad_left 3 (itoa_int (lp_StatusCode param)) @ '' '' @ lc_reset c @
      ''|'' @ lc_latency c @ '' '' @ pad_left 8 (lp_Latency param) @ '' '' @ lc_reset c @ ''| '' @ pad_left 15 (lp_ClientIP param) @
      '' |'' @ lc_method c @ '' '' @ pad_right 7 (lp_Method param) @ '' '' @ lc_reset c @ '' '' @
      go_quote (logged_path (lp_Path param) (lp_RawQuery param)) @ [NL] @ lp_ErrorMessage param)"

section \<open>Panic reports\<close>

text \<open>
  A parsed request target: what \<^verbatim>\<open>RequestURI\<close> prints before the question mark, the query as sent, and whether
  the target ended with a bare question mark.  \<open>parse\<close> is \<^verbatim>\<open>url.ParseRequestURI\<close>.
\<close>

record RequestURL =
  ru_Path :: string
  ru_RawQuery :: string
  ru_ForceQuery :: bool

definition RequestURI :: "RequestURL \<Rightarrow> string" where
  "RequestURI u = ru_Path u @ (if ru_ForceQuery u \<or> ru_RawQuery u \<noteq> [] then ''?'' @ ru_RawQuery u else [])"

definition redactRequestTarget :: "(string \<Rightarrow> RequestURL option) \<Rightarrow> string \<Rightarrow> string" where
  "redactRequestTarget parse target = (case parse target of None \<Rightarrow> target
     | Some u \<Rightarrow> if ru_RawQuery u = [] then target
         else RequestURI (u\<lparr>ru_RawQuery := Encode (redact (ParseQuery (ru_RawQuery u)))\<rparr>))"

definition split_n3 :: "string \<Rightarrow> string list" where
  "split_n3 line = (case cut_at (CHR '' '') line of None \<Rightarrow> [line]
     | Some (a, rest) \<Rightarrow> (case cut_at (CHR '' '') rest of None \<Rightarrow> [a, rest] | Some (b, c) \<Rightarrow> [a, b, c]))"

definition redact_line :: "(string \<Rightarrow> RequestURL option) \<Rightarrow> string \<Rightarrow> string" where
  "redact_line parse line = (case split_n3 line of
       [a, target, proto] \<Rightarrow> if has_prefix proto ''HTTP/'' then join_with '' '' [a, redactRequestTarget parse target, proto] else line
     | _ \<Rightarrow> line)"

definition recoveryLogWriter_Write :: "(string \<Rightarrow> RequestURL option) \<Rightarrow> string \<Rightarrow> string" where
  "recoveryLogWriter_Write parse p = join_with [NL] (map (redact_line parse) (split_on NL p))"

end
