(* ===== verification/Request_Log_Props.thy ===== *)
theory Request_Log_Props
  imports Request_Log
begin

text \<open>
  What the request logs show: never the value of a secret parameter, and every other parameter so that it
  reads back.
\<close>

section \<open>The query codec\<close>

lemma hex_val_upper: "n < 16 \<Longrightarrow> hex_val (upper_hex n) = Some n"
proof -
  have "list_all (\<lambda>n. hex_val (upper_hex n) = Some n) [0..<16]"
    by (simp add: hex_val_def upper_hex_def upt_rec is_digit_def digit_val_def)
  then show "n < 16 \<Longrightarrow> hex_val (upper_hex n) = Some n" by (simp add: list_all_iff)
qed

lemma upper_hex_plain: "n < 16 \<Longrightarrow> upper_hex n \<noteq> CHR ''&'' \<and> upper_hex n \<noteq> CHR '';'' \<and> upper_hex n \<noteq> CHR ''=''"
proof -
  have "list_all (\<lambda>n. upper_hex n \<noteq> CHR ''&'' \<and> upper_hex n \<noteq> CHR '';'' \<and> upper_hex n \<noteq> CHR ''='') [0..<16]"
    by (simp add: upper_hex_def upt_rec)
  then show "n < 16 \<Longrightarrow> upper_hex n \<noteq> CHR ''&'' \<and> upper_hex n \<noteq> CHR '';'' \<and> upper_hex n \<noteq> CHR ''=''" by (simp add: list_all_iff)
qed

lemma unreserved_plain: "unreserved c \<Longrightarrow> c \<noteq> CHR ''%'' \<and> c \<noteq> CHR ''+'' \<and> c \<noteq> CHR ''&'' \<and> c \<noteq> CHR '';'' \<and> c \<noteq> CHR ''=''"
  by (auto simp: unreserved_def is_lower_def is_upper_def is_digit_def)

lemma unescape_char: "query_unescape (escape_char c @ s) = map_option ((#) c) (query_unescape s)"
proof -
  have lt: "(of_char c :: nat) div 16 < 16" "(of_char c :: nat) mod 16 < 16" using of_char_lt_256 [of c] by (simp_all add: less_mult_imp_div_less)
  have "(of_char c :: nat) div 16 * 16 + of_char c mod 16 = of_char c" by simp
  then have "char_of ((of_char c :: nat) div 16 * 16 + of_char c mod 16) = c" by (simp only: char_of_char)
  with lt show ?thesis using unreserved_plain [of c] by (auto simp: escape_char_def hex_val_upper)
qed

lemma unescape_escape [simp]: "query_unescape (query_escape s) = Some s"
  by (induction s) (simp_all add: query_escape_def unescape_char)

lemma escape_plain: "c \<in> {CHR ''&'', CHR '';'', CHR ''=''} \<Longrightarrow> c \<notin> set (query_escape s)"
proof -
  have "x \<noteq> CHR ''&'' \<and> x \<noteq> CHR '';'' \<and> x \<noteq> CHR ''=''" if "x \<in> set (escape_char d)" for x d
  proof -
    have lt: "(of_char d :: nat) div 16 < 16" "(of_char d :: nat) mod 16 < 16" using of_char_lt_256 [of d] by (simp_all add: less_mult_imp_div_less)
    from that upper_hex_plain [OF lt(1)] upper_hex_plain [OF lt(2)] unreserved_plain [of d] show ?thesis
      by (auto simp: escape_char_def split: if_splits)
  qed
  then show "c \<in> {CHR ''&'', CHR '';'', CHR ''=''} \<Longrightarrow> c \<notin> set (query_escape s)" by (auto simp: query_escape_def)
qed

lemma pair_of_escaped: "pair_of (query_escape k @ ''='' @ query_escape v) = Some (k, v)"
  using escape_plain [of "CHR '';''"] escape_plain [of "CHR ''=''"] by (simp add: pair_of_def)

section \<open>Secrets\<close>

text \<open>Two sets of values that differ at most in the values of the secret keys they both have.\<close>

definition alike :: "query_values \<Rightarrow> query_values \<Rightarrow> bool" where
  "alike m n \<longleftrightarrow> map fst m = map fst n \<and> (\<forall>k. k \<in> set secret_keys \<or> mget m k = mget n k)"

lemma alike_refl [simp]: "alike m m"
  by (simp add: alike_def)

lemma same_keys: "map fst m = map fst n \<Longrightarrow> (mget m k = None) = (mget n k = None)"
  by (metis map_of_eq_None_iff set_map)

lemma keys_put: "map fst m = map fst n \<Longrightarrow> map fst (mput k v m) = map fst (mput k w n)"
  by (simp add: update_keys)

lemma alike_put: "alike m n \<Longrightarrow> alike (mput k v m) (mput k v n)"
  using keys_put by (auto simp: alike_def)

lemma alike_put_secret: "alike m n \<Longrightarrow> k \<in> set secret_keys \<Longrightarrow> alike (mput k v m) (mput k w n)"
  using keys_put by (auto simp: alike_def)

lemma alike_add: "alike m n \<Longrightarrow> alike (add_pair part m) (add_pair part n)"
proof (cases "pair_of part")
  case (Some kv)
  obtain k v where kv: "kv = (k, v)" by (cases kv)
  assume "alike m n"
  then show ?thesis
    using alike_put_secret [of m n k] alike_put [of m n k] Some kv
    by (cases "k \<in> set secret_keys") (auto simp: add_pair_def alike_def values_of_def)
qed (simp add: add_pair_def)

lemma alike_fold: "alike m n \<Longrightarrow> alike (fold add_pair ps m) (fold add_pair ps n)"
  by (induction ps arbitrary: m n) (auto simp: alike_add)

lemma redact_get: "mget (redact m) k = (if k \<in> set secret_keys \<and> mget m k \<noteq> None then Some [''REDACTED''] else mget m k)"
  by (simp add: redact_def secret_keys_def redact_key_def)

lemma redact_key_keys: "map fst (redact_key s m) = map fst m"
  by (cases "mget m s") (auto simp: redact_key_def update_keys dest: mget_Some_key)

lemma redact_keys: "map fst (redact m) = map fst m"
  by (simp add: redact_def secret_keys_def redact_key_keys)

lemma redact_alike:
  assumes "alike m n"
  shows "map fst (redact m) = map fst (redact n)" "mget (redact m) k = mget (redact n) k"
proof -
  have keys: "map fst m = map fst n" using assms by (simp add: alike_def)
  then show "map fst (redact m) = map fst (redact n)" by (simp add: redact_keys)
  show "mget (redact m) k = mget (redact n) k"
  proof (cases "k \<in> set secret_keys")
    case True
    with same_keys [OF keys, of k] show ?thesis by (simp add: redact_get)
  next
    case False
    with assms have "mget m k = mget n k" by (auto simp: alike_def)
    with False show ?thesis by (simp add: redact_get)
  qed
qed

lemma Encode_cong: "map fst m = map fst n \<Longrightarrow> (\<And>k. mget m k = mget n k) \<Longrightarrow> Encode m = Encode n"
  by (simp add: Encode_def values_of_def)

lemma alike_logged: "alike m n \<Longrightarrow> Encode (redact m) = Encode (redact n)"
  by (intro Encode_cong) (simp_all add: redact_alike)


section \<open>What is logged\<close>

definition ex_log :: LogParams where
  "ex_log = \<lparr>lp_TimeStamp = ''2025/01/02 - 03:04:05'', lp_StatusCode = 101, lp_Latency = ''1.5ms'', lp_ClientIP = ''192.0.2.7'',
     lp_Method = ''GET'', lp_Path = ''/s'', lp_RawQuery = [], lp_ErrorMessage = []\<rparr>"

text \<open>A parser that splits at the question mark, as the real one does for such targets.\<close>

definition ex_parse :: "string \<Rightarrow> RequestURL option" where
  "ex_parse t = (case cut_at (CHR ''?'') t of None \<Rightarrow> None
     | Some (p, q) \<Rightarrow> Some \<lparr>ru_Path = p, ru_RawQuery = q, ru_ForceQuery = False\<rparr>)"

text \<open>A query made of the given parameters.\<close>

definition query_of :: "string list \<Rightarrow> string" where
  "query_of parts = join_with ''&'' parts"

lemma ParseQuery_parts: "parts \<noteq> [] \<Longrightarrow> \<forall>x \<in> set parts. CHR ''&'' \<notin> set x \<Longrightarrow> ParseQuery (query_of parts) = fold add_pair parts []"
  by (simp add: ParseQuery_def query_of_def split_join)

lemma secret_parts:
  assumes "\<forall>x \<in> set (before @ after). CHR ''&'' \<notin> set x" "CHR ''&'' \<notin> set x" "CHR ''&'' \<notin> set y"
    "pair_of x = Some (key, secret)" "pair_of y = Some (key, other)" "key \<in> set secret_keys"
  shows "alike (ParseQuery (query_of (before @ x # after))) (ParseQuery (query_of (before @ y # after)))"
proof -
  let ?m = "fold add_pair before []"
  have "alike (add_pair x ?m) (add_pair y ?m)"
    using alike_put_secret [OF alike_refl assms(6)] assms(4,5) by (simp add: add_pair_def)
  then show ?thesis using assms by (simp add: ParseQuery_parts alike_fold)
qed

lemma pair_not_empty: "pair_of x = Some kv \<Longrightarrow> ParseQuery (query_of (before @ x # after)) \<noteq> [] \<or> (\<exists>p \<in> set (before @ x # after). CHR ''&'' \<in> set p)"
proof (rule disjCI)
  assume x: "pair_of x = Some kv" and "\<not> (\<exists>p \<in> set (before @ x # after). CHR ''&'' \<in> set p)"
  then have q: "ParseQuery (query_of (before @ x # after)) = fold add_pair after (add_pair x (fold add_pair before []))"
    by (subst ParseQuery_parts) auto
  have "add_pair x m \<noteq> []" for m using x by (cases kv) (simp add: add_pair_def)
  moreover have "fold add_pair ps m \<noteq> []" if "m \<noteq> []" for ps m
    using that by (induction ps arbitrary: m) (auto simp: add_pair_def split: option.splits)
  ultimately show "ParseQuery (query_of (before @ x # after)) \<noteq> []" by (simp add: q)
qed



section \<open>Every other parameter reads back\<close>

definition encoded_pair :: "string \<Rightarrow> string \<Rightarrow> string" where
  "encoded_pair k v = query_escape k @ ''='' @ query_escape v"

lemma encoded_no_amp: "CHR ''&'' \<notin> set (encoded_pair k v)"
  using escape_plain [of "CHR ''&''"] by (simp add: encoded_pair_def)

lemma values_add: "values_of (add_pair (encoded_pair k v) m) j = (if j = k then values_of m k @ [v] else values_of m j)"
proof -
  have "pair_of (encoded_pair k v) = Some (k, v)" unfolding encoded_pair_def by (rule pair_of_escaped)
  then show ?thesis by (simp add: add_pair_def values_of_def)
qed

lemma values_add_all: "values_of (fold add_pair (map (encoded_pair k) vs) m) j = (if j = k then values_of m k @ vs else values_of m j)"
  by (induction vs arbitrary: m) (auto simp: values_add)

lemma values_add_keys: "distinct ks \<Longrightarrow>
    values_of (fold add_pair (concat (map (\<lambda>k. map (encoded_pair k) (values_of n k)) ks)) m) j =
      values_of m j @ (if j \<in> set ks then values_of n j else [])"
  by (induction ks arbitrary: m) (auto simp: values_add_all)

lemma Encode_reads_back:
  assumes "mdistinct m"
  shows "values_of (ParseQuery (Encode m)) k = values_of m k"
proof -
  let ?ps = "concat (map (\<lambda>k. map (encoded_pair k) (values_of m k)) (sort (map fst m)))"
  have enc: "Encode m = query_of ?ps" by (simp add: Encode_def query_of_def encoded_pair_def [abs_def])
  have d: "distinct (sort (map fst m))" using assms by simp
  have "values_of (fold add_pair ?ps []) k = values_of [] k @ (if k \<in> set (sort (map fst m)) then values_of m k else [])"
    by (rule values_add_keys [OF d])
  then have vals: "values_of (fold add_pair ?ps []) k = values_of m k" by (auto simp: values_of_def split: option.splits dest: mget_Some_key)
  show ?thesis
  proof (cases "?ps = []")
    case True
    have "ParseQuery (query_of []) = []" by (simp add: query_of_def ParseQuery_def add_pair_def pair_of_def)
    with vals show ?thesis unfolding enc True by simp
  next
    case False
    have "ParseQuery (query_of ?ps) = fold add_pair ?ps []"
      by (rule ParseQuery_parts [OF False]) (auto simp: encoded_no_amp)
    with vals show ?thesis by (simp add: enc)
  qed
qed

lemma ParseQuery_distinct: "mdistinct (ParseQuery q)"
proof -
  have "mdistinct (fold add_pair ps m)" if "mdistinct m" for ps m
    using that by (induction ps arbitrary: m) (auto simp: add_pair_def split: option.splits)
  then show ?thesis by (simp add: ParseQuery_def)
qed

theorem logged_query_reads_back:
  "values_of (ParseQuery (Encode (redact (ParseQuery query)))) k =
     (if k \<in> set secret_keys \<and> mget (ParseQuery query) k \<noteq> None then [''REDACTED''] else values_of (ParseQuery query) k)"
proof -
  have "mdistinct (redact (ParseQuery query))" by (simp add: redact_keys ParseQuery_distinct)
  from Encode_reads_back [OF this] show ?thesis by (simp only: values_of_def redact_get) (simp split: option.split)
qed

end
