(* ===== verification/Web_Static.thy ===== *)
theory Web_Static
  imports Go_Strings
begin

text \<open>
  The embedded web interface (\<^verbatim>\<open>static/static.go\<close>): which file answers a path no API route took, its type and
  caching, and the middleware around it.  The embedded file system is a function from names to entries;
  gin's file server under \<^verbatim>\<open>/assets\<close> is an argument.
\<close>

section \<open>Files\<close>

datatype fs_entry = File string | Directory

type_synonym web_fs = "string \<Rightarrow> fs_entry option"

text \<open>\<^verbatim>\<open>fs.ValidPath\<close>: a dot, or elements between slashes none of which is empty, a dot or a parent step.\<close>

definition ValidPath :: "string \<Rightarrow> bool" where
  "ValidPath name \<longleftrightarrow> name = ''.'' \<or> list_all (\<lambda>e. e \<noteq> [] \<and> e \<noteq> ''.'' \<and> e \<noteq> ''..'') (split_on (CHR ''/'') name)"

definition fs_Stat :: "web_fs \<Rightarrow> string \<Rightarrow> bool" where
  "fs_Stat fs name \<longleftrightarrow> ValidPath name \<and> fs name \<noteq> None"

definition fs_ReadFile :: "web_fs \<Rightarrow> string \<Rightarrow> string option" where
  "fs_ReadFile fs name = (if ValidPath name then (case fs name of Some (File content) \<Rightarrow> Some content | _ \<Rightarrow> None) else None)"

text \<open>\<^verbatim>\<open>filepath.Ext\<close>: from the last dot of the last element.\<close>

definition filepath_Ext :: "string \<Rightarrow> string" where
  "filepath_Ext path = (let r = takeWhile (\<lambda>c. c \<noteq> CHR ''/'') (rev path) in
     if CHR ''.'' \<in> set r then CHR ''.'' # rev (takeWhile (\<lambda>c. c \<noteq> CHR ''.'') r) else [])"

definition asset_extensions :: "string list" where
  "asset_extensions = [''.png'', ''.jpg'', ''.jpeg'', ''.gif'', ''.webp'', ''.ico'', ''.svg'', ''.woff'', ''.woff2'', ''.ttf'', ''.map'']"

definition isLikelyAssetPath :: "string \<Rightarrow> bool" where
  "isLikelyAssetPath path \<longleftrightarrow> to_lower (filepath_Ext path) \<in> set asset_extensions"

text \<open>\<open>mime\<close> is \<^verbatim>\<open>mime.TypeByExtension\<close>.\<close>

definition assetContentType :: "(string \<Rightarrow> string) \<Rightarrow> string \<Rightarrow> string" where
  "assetContentType mime name = (let ext = to_lower (filepath_Ext name) in
     if ext = ''.js'' \<or> ext = ''.mjs'' then ''text/javascript; charset=utf-8''
     else if ext = ''.css'' then ''text/css; charset=utf-8''
     else if ext = ''.svg'' then ''image/svg+xml''
     else if ext = ''.json'' then ''application/json; charset=utf-8''
     else if ext = ''.wasm'' then ''application/wasm''
     else let ctype = mime (filepath_Ext name) in if ctype = [] then ''application/octet-stream'' else ctype)"

section \<open>Answers\<close>

record web_answer =
  wa_status :: nat
  wa_headers :: "(string, string) gomap"
  wa_type :: string
  wa_body :: string

definition status_only :: "nat \<Rightarrow> web_answer" where
  "status_only n = \<lparr>wa_status = n, wa_headers = [], wa_type = [], wa_body = []\<rparr>"

definition no_cache :: string where "no_cache = ''no-cache, no-store, must-revalidate''"

definition serveIndexHTML :: "web_fs \<Rightarrow> web_answer" where
  "serveIndexHTML fs = (case fs_ReadFile fs ''index.html'' of None \<Rightarrow> status_only 404
     | Some data \<Rightarrow> \<lparr>wa_status = 200, wa_headers = [(''Cache-Control'', no_cache)], wa_type = ''text/html; charset=utf-8'', wa_body = data\<rparr>)"

definition serveFile :: "(string \<Rightarrow> string) \<Rightarrow> web_fs \<Rightarrow> string \<Rightarrow> web_answer" where
  "serveFile mime fs name = (case fs_ReadFile fs name of None \<Rightarrow> status_only 404
     | Some data \<Rightarrow> \<lparr>wa_status = 200, wa_headers = [], wa_type = assetContentType mime name, wa_body = data\<rparr>)"

definition api_not_found :: web_answer where
  "api_not_found = \<lparr>wa_status = 404, wa_headers = [], wa_type = ''application/json; charset=utf-8'',
     wa_body = [CHR ''{''] @ go_quote ''error'' @ '':'' @ go_quote ''not found'' @ ''}''\<rparr>"

definition no_route :: "(string \<Rightarrow> string) \<Rightarrow> web_fs \<Rightarrow> string \<Rightarrow> web_answer" where
  "no_route mime fs path =
     (if has_prefix path ''/api'' then api_not_found
      else if has_prefix path ''/assets'' then status_only 404
      else if isLikelyAssetPath path then status_only 404
      else let clean = trim_prefix path ''/'' in
        if clean \<noteq> [] \<and> fs_Stat fs clean then serveFile mime fs clean else serveIndexHTML fs)"

text \<open>
  The named icons are routes of their own, as far as the build has them, and so is the root; \<open>assets\<close> is what
  gin's file server answers.
\<close>

definition icon_routes :: "web_fs \<Rightarrow> string list" where
  "icon_routes fs = filter (fs_Stat fs) [''favicon.svg'', ''icons.svg'']"

definition mounted :: "(string \<Rightarrow> web_answer) \<Rightarrow> (string \<Rightarrow> string) \<Rightarrow> web_fs \<Rightarrow> string \<Rightarrow> string \<Rightarrow> web_answer" where
  "mounted assets mime fs meth path =
     (if (meth = ''GET'' \<or> meth = ''HEAD'') \<and> has_prefix path ''/assets/'' then assets path
      else if meth = ''GET'' \<and> path = ''/'' then serveIndexHTML fs
      else if meth = ''GET'' \<and> trim_prefix path ''/'' \<in> set (icon_routes fs) \<and> has_prefix path ''/''
        then serveFile mime fs (trim_prefix path ''/'')
      else no_route mime fs path)"

section \<open>Middleware\<close>

definition with_headers :: "(string \<times> string) list \<Rightarrow> web_answer \<Rightarrow> web_answer" where
  "with_headers hs a = a\<lparr>wa_headers := fold (\<lambda>(k, v) m. mput k v m) (wa_headers a) hs\<rparr>"

definition noCacheAssetsMiddleware :: "string \<Rightarrow> web_answer \<Rightarrow> web_answer" where
  "noCacheAssetsMiddleware path a = (if has_prefix path ''/assets/'' then with_headers [(''Cache-Control'', no_cache)] a else a)"

definition corsMiddleware :: "string \<Rightarrow> string \<Rightarrow> web_answer \<Rightarrow> web_answer" where
  "corsMiddleware origin meth a =
     (let cors = (if origin \<noteq> [] then [(''Access-Control-Allow-Origin'', origin), (''Vary'', ''Origin''),
            (''Access-Control-Allow-Credentials'', ''true'')] else []) in
      if meth = ''OPTIONS'' then
        (status_only 204)\<lparr>wa_headers := cors @ [(''Access-Control-Allow-Methods'', ''GET, POST, PUT, DELETE, OPTIONS''),
          (''Access-Control-Allow-Headers'', ''Authorization, Content-Type'')]\<rparr>
      else with_headers cors a)"

definition serve_web :: "(string \<Rightarrow> web_answer) \<Rightarrow> (string \<Rightarrow> string) \<Rightarrow> web_fs \<Rightarrow> string \<Rightarrow> string \<Rightarrow> string \<Rightarrow> web_answer" where
  "serve_web assets mime fs origin meth path = corsMiddleware origin meth (noCacheAssetsMiddleware path (mounted assets mime fs meth path))"

section \<open>What a path is answered with\<close>

text \<open>A body is a file of the build under exactly the path's name, the index, or one of the fixed answers.\<close>

lemma body_with_headers [simp]: "wa_body (with_headers hs a) = wa_body a" "wa_status (with_headers hs a) = wa_status a"
    "wa_type (with_headers hs a) = wa_type a"
  by (simp_all add: with_headers_def)

definition built :: "web_fs \<Rightarrow> string \<Rightarrow> web_answer \<Rightarrow> bool" where
  "built fs path a \<longleftrightarrow> wa_status a \<noteq> 200 \<or>
     (\<exists>name. ValidPath name \<and> fs name = Some (File (wa_body a)) \<and> (name = ''index.html'' \<or> name = trim_prefix path ''/''))"

lemma ReadFile_Some: "fs_ReadFile fs name = Some data \<longleftrightarrow> ValidPath name \<and> fs name = Some (File data)"
  by (auto simp: fs_ReadFile_def split: option.splits fs_entry.splits)

lemma built_index: "built fs path (serveIndexHTML fs)"
  by (auto simp: serveIndexHTML_def built_def status_only_def ReadFile_Some split: option.split)

lemma built_file: "name = trim_prefix path ''/'' \<Longrightarrow> built fs path (serveFile mime fs name)"
  by (auto simp: serveFile_def built_def status_only_def ReadFile_Some split: option.split)

lemma built_status: "n \<noteq> 200 \<Longrightarrow> built fs path (status_only n)"
  by (simp add: built_def status_only_def)

lemma built_no_route: "built fs path (no_route mime fs path)"
proof -
  have "built fs path api_not_found" by (simp add: built_def api_not_found_def)
  then show ?thesis unfolding no_route_def Let_def by (simp add: built_index built_file built_status)
qed

lemma built_mounted: "built fs path (assets path) \<Longrightarrow> built fs path (mounted assets mime fs meth path)"
  unfolding mounted_def by (simp add: built_index built_file built_no_route)

theorem served_from_build:
  assumes "built fs path (assets path)"
  shows "built fs path (serve_web assets mime fs origin meth path)"
proof (cases "meth = ''OPTIONS''")
  case True
  then show ?thesis by (simp add: serve_web_def corsMiddleware_def built_def status_only_def Let_def)
next
  case False
  then have "wa_status (serve_web assets mime fs origin meth path) = wa_status (mounted assets mime fs meth path)"
    "wa_body (serve_web assets mime fs origin meth path) = wa_body (mounted assets mime fs meth path)"
    by (simp_all add: serve_web_def corsMiddleware_def noCacheAssetsMiddleware_def Let_def)
  with built_mounted [of fs path assets, OF assms, of mime meth] show ?thesis unfolding built_def by simp
qed

text \<open>An unknown API path or a missing picture or font is never answered with the index.\<close>

theorem misses_stay_misses:
  assumes "has_prefix path ''/api'' \<or> isLikelyAssetPath path" "\<not> has_prefix path ''/assets/''" "fs ''favicon.svg'' = None" "fs ''icons.svg'' = None"
  shows "wa_status (serve_web assets mime fs origin meth path) \<noteq> 200"
proof -
  have "path \<noteq> ''/''" using assms(1) by (auto simp: has_prefix_iff isLikelyAssetPath_def filepath_Ext_def asset_extensions_def to_lower_def)
  moreover have "icon_routes fs = []" using assms(3,4) by (simp add: icon_routes_def fs_Stat_def)
  moreover have "wa_status (no_route mime fs path) = 404"
    using assms(1) unfolding no_route_def by (auto simp: status_only_def api_not_found_def)
  ultimately have "wa_status (mounted assets mime fs meth path) = 404" using assms(2) by (simp add: mounted_def)
  then show ?thesis by (simp add: serve_web_def corsMiddleware_def noCacheAssetsMiddleware_def status_only_def Let_def)
qed

end
