(* ===== verification/Dns_Server.thy ===== *)
theory Dns_Server
  imports Prelude Event_Runs
begin

text \<open>
  The life of the DNS server's goroutine (\<^verbatim>\<open>serveNetstack\<close>, \<^verbatim>\<open>waitOrStop\<close> and \<^verbatim>\<open>Stop\<close> of \<^verbatim>\<open>vpn/dns/server.go\<close>):
  serve a socket, and when that fails wait, listen again and serve, until told to stop.  What it answers is
  in theory \<open>Dns\<close>.  Of \<^verbatim>\<open>miekg/dns\<close> the model uses that serving returns an error at once without a socket,
  and that a shutdown ends a server that was activated and is refused by one that was not.
\<close>

section \<open>State\<close>

text \<open>
  Where the goroutine is, with the socket it holds: about to publish a server in \<^verbatim>\<open>s.server\<close>, about to activate
  it, serving, done serving, waiting a second, listening again, waiting two seconds after a failed listen.
\<close>

datatype serve_phase =
    Publish "nat option" | Activate nat "nat option" | Serve nat nat | Served "nat option"
  | Pause | Listen | PauseAgain | Over | Panicked

record dns_serving =
  ds_stopped :: bool
  ds_server :: "nat option"
  ds_phase :: serve_phase
  ds_sockets :: "nat list"
  ds_next :: nat

text \<open>After \<^verbatim>\<open>StartOnNetstack\<close> has listened: socket 0 is open and the goroutine at its top.\<close>

definition StartOnNetstack :: dns_serving where
  "StartOnNetstack = \<lparr>ds_stopped = False, ds_server = None, ds_phase = Publish (Some 0), ds_sockets = [0], ds_next = 1\<rparr>"

section \<open>Steps\<close>

datatype dns_event = Publishes | Activates | ServeBreaks | ClosesSocket | Passes | SeesStop | Listens bool | Stop

text \<open>\<^verbatim>\<open>Stop\<close>: close the channel (once), then shut down the published server, if it serves.\<close>

definition dns_server_stop :: "dns_serving \<Rightarrow> dns_serving" where
  "dns_server_stop s = (let s' = s\<lparr>ds_stopped := True\<rparr> in
     case (ds_server s, ds_phase s) of
       (Some n, Serve m c) \<Rightarrow> if m = n then s'\<lparr>ds_phase := Served (Some c)\<rparr> else s'
     | _ \<Rightarrow> s')"

text \<open>\<^verbatim>\<open>waitOrStop\<close> returns whether the loop goes on; both outcomes are possible once the channel is closed and the time is up.\<close>

definition waitOrStop :: "dns_event \<Rightarrow> dns_serving \<Rightarrow> bool option" where
  "waitOrStop e s = (case e of Passes \<Rightarrow> Some True | SeesStop \<Rightarrow> if ds_stopped s then Some False else None | _ \<Rightarrow> None)"

definition serveNetstack :: "dns_event \<Rightarrow> dns_serving \<Rightarrow> dns_serving option" where
  "serveNetstack e s = (case ds_phase s of
       Publish conn \<Rightarrow> if e = Publishes
         then Some (s\<lparr>ds_server := Some (ds_next s), ds_next := ds_next s + 1, ds_phase := Activate (ds_next s) conn\<rparr>) else None
     | Activate n conn \<Rightarrow> if e = Activates
         then Some (s\<lparr>ds_phase := (case conn of None \<Rightarrow> Served None | Some c \<Rightarrow> Serve n c)\<rparr>) else None
     | Serve n c \<Rightarrow> if e = ServeBreaks then Some (s\<lparr>ds_phase := Served (Some c)\<rparr>) else None
     | Served conn \<Rightarrow> if e = ClosesSocket
         then Some (case conn of None \<Rightarrow> s\<lparr>ds_phase := Panicked\<rparr>
           | Some c \<Rightarrow> s\<lparr>ds_sockets := removeAll c (ds_sockets s), ds_phase := Pause\<rparr>) else None
     | Pause \<Rightarrow> map_option (\<lambda>on. s\<lparr>ds_phase := if on then Listen else Over\<rparr>) (waitOrStop e s)
     | Listen \<Rightarrow> (case e of
           Listens True \<Rightarrow> Some (s\<lparr>ds_sockets := ds_next s # ds_sockets s, ds_next := ds_next s + 1, ds_phase := Publish (Some (ds_next s))\<rparr>)
         | Listens False \<Rightarrow> Some (s\<lparr>ds_phase := PauseAgain\<rparr>)
         | _ \<Rightarrow> None)
     | PauseAgain \<Rightarrow> map_option (\<lambda>on. s\<lparr>ds_phase := if on then Publish None else Over\<rparr>) (waitOrStop e s)
     | Over \<Rightarrow> None
     | Panicked \<Rightarrow> None)"

definition dns_step :: "dns_event \<Rightarrow> dns_serving \<Rightarrow> dns_serving option" where
  "dns_step e s = (if e = Stop then Some (dns_server_stop s) else serveNetstack e s)"

abbreviation dns_exec :: "dns_event list \<Rightarrow> dns_serving \<Rightarrow> dns_serving option" where
  "dns_exec \<equiv> run_events dns_step"

section \<open>Sockets\<close>

text \<open>The goroutine holds the one open socket there is, and none while it pauses.\<close>

fun held_sockets :: "serve_phase \<Rightarrow> nat list" where
  "held_sockets (Publish conn) = (case conn of None \<Rightarrow> [] | Some c \<Rightarrow> [c])"
| "held_sockets (Activate n conn) = (case conn of None \<Rightarrow> [] | Some c \<Rightarrow> [c])"
| "held_sockets (Serve n c) = [c]"
| "held_sockets (Served conn) = (case conn of None \<Rightarrow> [] | Some c \<Rightarrow> [c])"
| "held_sockets p = []"

fun serves_published :: "dns_serving \<Rightarrow> serve_phase \<Rightarrow> bool" where
  "serves_published s (Activate n conn) = (ds_server s = Some n)"
| "serves_published s (Serve n c) = (ds_server s = Some n)"
| "serves_published s p = True"

definition dns_inv :: "dns_serving \<Rightarrow> bool" where
  "dns_inv s \<longleftrightarrow> ds_sockets s = held_sockets (ds_phase s) \<and> serves_published s (ds_phase s)"

lemma dns_step_inv: "dns_inv s \<Longrightarrow> dns_step e s = Some s' \<Longrightarrow> dns_inv s'"
  by (cases "ds_phase s"; cases e) (auto simp: dns_inv_def dns_step_def dns_server_stop_def serveNetstack_def waitOrStop_def Let_def
      split: if_splits option.splits bool.splits)

interpretation dns_goroutine: event_machine dns_step StartOnNetstack "\<lambda>_. dns_inv"
proof unfold_locales
  show "dns_inv StartOnNetstack" by (simp add: dns_inv_def StartOnNetstack_def)
qed (rule dns_step_inv)

text \<open>At most one socket is open, and when the goroutine is over none is.\<close>

theorem dns_one_socket:
  assumes "dns_exec es StartOnNetstack = Some s"
  shows "length (ds_sockets s) \<le> 1 \<and> (ds_phase s = Over \<longrightarrow> ds_sockets s = [])"
proof -
  have "length (held_sockets p) \<le> 1" for p by (cases p) (auto split: option.split)
  with dns_goroutine.reached [OF assms] show ?thesis by (auto simp: dns_inv_def)
qed

section \<open>Stopping\<close>

text \<open>A stop that finds the server at work ends it: it closes its socket and its goroutine in two steps.\<close>

theorem dns_stop_serving:
  assumes "dns_exec es StartOnNetstack = Some s" "ds_phase s = Serve n c"
  shows "\<exists>s'. dns_exec [Stop, ClosesSocket, SeesStop] s = Some s' \<and> ds_phase s' = Over \<and> ds_sockets s' = []"
  using dns_goroutine.reached [OF assms(1)] assms(2)
  by (simp add: dns_inv_def dns_step_def dns_server_stop_def serveNetstack_def waitOrStop_def Let_def)

text \<open>
  A stop that comes before the server is activated is lost: the goroutine goes on to serve, holds its
  socket, and looks at the channel only when serving fails.
\<close>

lemma dns_stop_lost:
  "\<exists>s. dns_exec [Stop, Publishes, Activates] StartOnNetstack = Some s \<and> ds_stopped s \<and> ds_sockets s = [0] \<and>
     (\<forall>e s'. dns_step e s = Some s' \<longrightarrow> e = Stop \<or> e = ServeBreaks)"
  by (auto simp: StartOnNetstack_def dns_step_def dns_server_stop_def serveNetstack_def Let_def split: if_splits)

text \<open>
  A failed listen leaves no socket, and the loop goes on all the same: the server without one returns at
  once, and closing it is a nil pointer dereference, which ends the process.
\<close>

definition relisten_run :: "dns_event list" where
  "relisten_run = [Publishes, Activates, ServeBreaks, ClosesSocket, Passes, Listens False, Passes, Publishes, Activates, ClosesSocket]"

lemma dns_relisten_panics: "\<exists>s. dns_exec relisten_run StartOnNetstack = Some s \<and> ds_phase s = Panicked"
  by (simp add: relisten_run_def StartOnNetstack_def dns_step_def serveNetstack_def waitOrStop_def)

text \<open>That is the only way to panic: as long as listening works, the goroutine has a socket whenever it closes one.\<close>

fun has_socket :: "serve_phase \<Rightarrow> bool" where
  "has_socket (Publish conn) = (conn \<noteq> None)"
| "has_socket (Activate n conn) = (conn \<noteq> None)"
| "has_socket (Served conn) = (conn \<noteq> None)"
| "has_socket PauseAgain = False"
| "has_socket Panicked = False"
| "has_socket p = True"

lemma has_socket_step: "dns_step e s = Some s' \<Longrightarrow> e \<noteq> Listens False \<Longrightarrow> has_socket (ds_phase s) \<Longrightarrow> has_socket (ds_phase s')"
  by (cases "ds_phase s"; cases e) (auto simp: dns_step_def dns_server_stop_def serveNetstack_def waitOrStop_def Let_def
      split: if_splits option.splits bool.splits)

theorem dns_no_panic:
  assumes "dns_exec es StartOnNetstack = Some s" "Listens False \<notin> set es"
  shows "ds_phase s \<noteq> Panicked"
proof -
  have "has_socket (ds_phase s)"
  proof (rule run_events_keep [OF assms(1)])
    fix e s1 s2 assume "e \<in> set es" "dns_step e s1 = Some s2" "has_socket (ds_phase s1)"
    with assms(2) show "has_socket (ds_phase s2)" by (auto intro: has_socket_step)
  qed (simp add: StartOnNetstack_def)
  then show ?thesis by auto
qed

end
