(* ===== verification/Migrations.thy ===== *)
theory Migrations
  imports Store
begin

text \<open>
  Bringing an old database up to date (\<^verbatim>\<open>migrateMapAllowedGroupPositionsDB\<close> of \<^verbatim>\<open>repo/maps.go\<close>): allow lists of maps
  that were stored before they had an order get the order in which their rows were inserted.  The column
  is taken to be there already, with zeros; \<open>rowid\<close> is SQLite's insertion number of an allow row.
\<close>

section \<open>The code\<close>

type_synonym allow_order = "nat \<times> nat \<Rightarrow> nat"

definition allow_key :: "MapGroupAllow \<Rightarrow> nat \<times> nat" where
  "allow_key a = (a_MapID a, a_GroupID a)"

definition allows_by_rowid :: "allow_order \<Rightarrow> row list \<Rightarrow> MapGroupAllow list" where
  "allows_by_rowid rowid rows = sort_key a_MapID (sort_key (rowid \<circ> allow_key) (t_allows rows))"

fun set_position :: "int \<Rightarrow> row \<Rightarrow> row" where
  "set_position i (RAllow a) = RAllow (a\<lparr>a_Position := i\<rparr>)"
| "set_position i r = r"

definition update_position :: "sql \<Rightarrow> nat \<Rightarrow> nat \<Rightarrow> int \<Rightarrow> unit prog" where
  "update_position exec mapID groupID i =
     exec_stmt exec (Update TAllow (on_allow (\<lambda>a. a_MapID a = mapID \<and> a_GroupID a = groupID)) (set_position i))"

definition flush_positions :: "sql \<Rightarrow> nat \<Rightarrow> (nat \<times> int) list \<Rightarrow> unit prog" where
  "flush_positions exec current positions =
     (if current = 0 \<or> length positions < 2 then ret ()
      else if \<forall>(g, p) \<in> set positions. p = 0
        then for_each (enumerate 0 (map fst positions)) (\<lambda>(i, g). update_position exec current g (int i))
      else ret ())"

fun backfill :: "sql \<Rightarrow> nat \<Rightarrow> (nat \<times> int) list \<Rightarrow> MapGroupAllow list \<Rightarrow> unit prog" where
  "backfill exec current positions [] = flush_positions exec current positions"
| "backfill exec current positions (a # as) =
     (if current \<noteq> a_MapID a
      then andthen (flush_positions exec current positions) (\<lambda>_. backfill exec (a_MapID a) [(a_GroupID a, a_Position a)] as)
      else backfill exec current (positions @ [(a_GroupID a, a_Position a)]) as)"

definition migrateMapAllowedGroupPositionsDB :: "sql \<Rightarrow> allow_order \<Rightarrow> unit prog" where
  "migrateMapAllowedGroupPositionsDB exec rowid =
     andthen (find_rows exec TAllow) (\<lambda>rows. transaction (backfill exec 0 [] (allows_by_rowid rowid rows)))"

section \<open>What it does\<close>

text \<open>The allow rows of a map in the order of their insertion, and whether they were stored without an order.\<close>

definition old_allows :: "allow_order \<Rightarrow> db \<Rightarrow> nat \<Rightarrow> MapGroupAllow list" where
  "old_allows rowid db m = filter (\<lambda>a. a_MapID a = m) (sort_key (rowid \<circ> allow_key) (t_allows db))"

definition legacy :: "allow_order \<Rightarrow> db \<Rightarrow> nat \<Rightarrow> bool" where
  "legacy rowid db m \<longleftrightarrow> m \<noteq> 0 \<and> 2 \<le> length (old_allows rowid db m) \<and> (\<forall>a \<in> set (old_allows rowid db m). a_Position a = 0)"

fun rank :: "nat list \<Rightarrow> nat \<Rightarrow> nat" where
  "rank [] g = 0"
| "rank (h # gs) g = (if h = g then 0 else Suc (rank gs g))"

definition new_position :: "allow_order \<Rightarrow> db \<Rightarrow> MapGroupAllow \<Rightarrow> int" where
  "new_position rowid db a = (if legacy rowid db (a_MapID a)
     then int (rank (map a_GroupID (old_allows rowid db (a_MapID a))) (a_GroupID a)) else a_Position a)"

fun migrated_row :: "allow_order \<Rightarrow> db \<Rightarrow> (nat \<Rightarrow> bool) \<Rightarrow> row \<Rightarrow> row" where
  "migrated_row rowid db M (RAllow a) = (if M (a_MapID a) then RAllow (a\<lparr>a_Position := new_position rowid db a\<rparr>) else RAllow a)"
| "migrated_row rowid db M r = r"

definition migrated :: "allow_order \<Rightarrow> db \<Rightarrow> (nat \<Rightarrow> bool) \<Rightarrow> db" where
  "migrated rowid db M = map (migrated_row rowid db M) db"

section \<open>One statement, one map\<close>

definition exactly :: "unit prog \<Rightarrow> db \<Rightarrow> db \<Rightarrow> bool" where
  "exactly m db db' \<longleftrightarrow> (uniq_ok db \<longrightarrow> hoare (\<lambda>d. d = db) m (\<lambda>_ d. d = db' \<and> uniq_ok d) (\<lambda>_. True))"

lemma exactly_ret: "exactly (ret ()) db db"
  by (auto simp: exactly_def intro: hoare_ret)

lemma exactly_andthen:
  assumes "exactly m db db1" "uniq_ok db1 \<Longrightarrow> exactly k db1 db2"
  shows "exactly (andthen m (\<lambda>_. k)) db db2"
  unfolding exactly_def
proof
  assume "uniq_ok db"
  show "hoare (\<lambda>d. d = db) (andthen m (\<lambda>_. k)) (\<lambda>_ d. d = db2 \<and> uniq_ok d) (\<lambda>_. True)"
  proof (rule hoare_andthen)
    show "hoare (\<lambda>d. d = db) m (\<lambda>_ d. d = db1 \<and> uniq_ok d) (\<lambda>_. True)"
      using assms(1) \<open>uniq_ok db\<close> by (simp add: exactly_def)
    show "hoare (\<lambda>d. d = db1 \<and> uniq_ok d) k (\<lambda>_ d. d = db2 \<and> uniq_ok d) (\<lambda>_. True)"
    proof (cases "uniq_ok db1")
      case True
      with assms(2) show ?thesis by (auto simp: exactly_def hoare_def)
    next
      case False
      then show ?thesis by (auto simp: hoare_def)
    qed
  qed
qed

fun position_row :: "nat \<Rightarrow> nat \<Rightarrow> int \<Rightarrow> row \<Rightarrow> row" where
  "position_row m g i (RAllow a) = (if a_MapID a = m \<and> a_GroupID a = g then RAllow (a\<lparr>a_Position := i\<rparr>) else RAllow a)"
| "position_row m g i r = r"

lemma exactly_update:
  assumes "sql_ok exec"
  shows "exactly (update_position exec m g i) db (map (position_row m g i) db)"
proof -
  have row: "(if table_of x = TAllow \<and> on_allow (\<lambda>a. a_MapID a = m \<and> a_GroupID a = g) x then set_position i x else x) = position_row m g i x"
    for x by (cases x) auto
  have "hoare (\<lambda>d. d = db) (run exec (Update TAllow (on_allow (\<lambda>a. a_MapID a = m \<and> a_GroupID a = g)) (set_position i)))
      (\<lambda>_ d. d = map (position_row m g i) db \<and> uniq_ok d) (\<lambda>_. True)" if "uniq_ok db"
    by (rule hoare_run [OF assms]) (use that in \<open>auto simp: row\<close>)
  then show ?thesis
    unfolding exactly_def update_position_def exec_stmt_def by (auto intro: hoare_andthen hoare_ret)
qed

text \<open>Numbering the groups of a map one by one.\<close>

fun number_row :: "nat \<Rightarrow> nat \<Rightarrow> nat list \<Rightarrow> row \<Rightarrow> row" where
  "number_row m k gs (RAllow a) = (if a_MapID a = m \<and> a_GroupID a \<in> set gs
     then RAllow (a\<lparr>a_Position := int (k + rank gs (a_GroupID a))\<rparr>) else RAllow a)"
| "number_row m k gs r = r"

lemma number_row_Nil: "number_row m k [] x = x"
  by (cases x) auto

lemma number_row_Cons: "g \<notin> set gs \<Longrightarrow> number_row m (Suc k) gs (position_row m g (int k) x) = number_row m k (g # gs) x"
  by (cases x) auto

lemma exactly_numbers:
  assumes "sql_ok exec" "distinct gs"
  shows "exactly (for_each (enumerate k gs) (\<lambda>(i, g). update_position exec m g (int i))) db (map (number_row m k gs) db)"
  using assms(2)
proof (induction gs arbitrary: k db)
  case Nil
  then show ?case by (simp add: exactly_ret number_row_Nil)
next
  case (Cons g gs)
  have "exactly (for_each (enumerate (Suc k) gs) (\<lambda>(i, g). update_position exec m g (int i))) (map (position_row m g (int k)) db)
      (map (number_row m (Suc k) gs) (map (position_row m g (int k)) db))"
    by (rule Cons.IH) (use Cons.prems in simp)
  then have "exactly (andthen (update_position exec m g (int k)) (\<lambda>_. for_each (enumerate (Suc k) gs) (\<lambda>(i, g). update_position exec m g (int i))))
      db (map (number_row m (Suc k) gs) (map (position_row m g (int k)) db))"
    by (intro exactly_andthen [OF exactly_update [OF assms(1)]])
  moreover have "map (number_row m (Suc k) gs) (map (position_row m g (int k)) db) = map (number_row m k (g # gs)) db"
    using Cons.prems by (simp add: number_row_Cons del: number_row.simps)
  ultimately show ?case by (simp only: enumerate_simps for_each.simps prod.case)
qed

section \<open>All maps\<close>

lemma in_allows: "a \<in> set (t_allows db) \<longleftrightarrow> RAllow a \<in> set db"
  by (auto simp: t_allows_def map_filter_def split: row.splits intro: image_eqI [where x = "RAllow a"])

lemma in_old_allows: "a \<in> set (old_allows rowid db m) \<longleftrightarrow> RAllow a \<in> set db \<and> a_MapID a = m"
  by (simp add: old_allows_def in_allows)

lemma allow_keys_distinct: "uniq_ok db \<Longrightarrow> distinct (map allow_key (t_allows db))"
proof -
  have "distinct (map (\<lambda>r. (table_of r, key_of r)) db) \<Longrightarrow> distinct (map allow_key (t_allows db))"
  proof (induction db)
    case (Cons r db)
    then show ?case
    proof (cases r)
      case (RAllow a)
      have "allow_key a \<notin> allow_key ` set (t_allows db)"
      proof
        assume "allow_key a \<in> allow_key ` set (t_allows db)"
        then obtain b where "RAllow b \<in> set db" "allow_key a = allow_key b" by (auto simp: in_allows)
        then have "(table_of r, key_of r) \<in> (\<lambda>r. (table_of r, key_of r)) ` set db"
          using RAllow by (auto simp: allow_key_def intro!: image_eqI [where x = "RAllow b"])
        with Cons.prems show False by simp
      qed
      with Cons RAllow show ?thesis by (simp add: t_allows_def map_filter_simps)
    qed (use Cons in \<open>simp_all add: t_allows_def map_filter_simps\<close>)
  qed (simp add: t_allows_def map_filter_simps)
  then show "uniq_ok db \<Longrightarrow> distinct (map allow_key (t_allows db))" by (simp add: uniq_ok_def)
qed

lemma old_groups_distinct:
  assumes "uniq_ok db"
  shows "distinct (map a_GroupID (old_allows rowid db m))"
proof -
  have d: "distinct (t_allows db)" "inj_on allow_key (set (t_allows db))" using allow_keys_distinct [OF assms] by (auto simp: distinct_map)
  have "inj_on a_GroupID (set (old_allows rowid db m))"
    using d(2) by (auto simp: inj_on_def old_allows_def allow_key_def)
  with d(1) show ?thesis by (simp add: distinct_map old_allows_def)
qed

lemma migrated_cong: "(\<And>a. RAllow a \<in> set db \<Longrightarrow> M (a_MapID a) = M' (a_MapID a)) \<Longrightarrow> migrated rowid db M = migrated rowid db M'"
proof -
  assume "\<And>a. RAllow a \<in> set db \<Longrightarrow> M (a_MapID a) = M' (a_MapID a)"
  then have "migrated_row rowid db M x = migrated_row rowid db M' x" if "x \<in> set db" for x using that by (cases x) auto
  then show ?thesis by (simp add: migrated_def)
qed

lemma new_position_same: "\<not> legacy rowid db (a_MapID a) \<Longrightarrow> a\<lparr>a_Position := new_position rowid db a\<rparr> = a"
  by (simp add: new_position_def)

abbreviation allow_pairs :: "MapGroupAllow list \<Rightarrow> (nat \<times> int) list" where
  "allow_pairs as \<equiv> map (\<lambda>a. (a_GroupID a, a_Position a)) as"

lemma exactly_flush:
  assumes "sql_ok exec" "uniq_ok db0" "\<not> M m"
  shows "exactly (flush_positions exec m (allow_pairs (old_allows rowid db0 m))) (migrated rowid db0 M)
     (migrated rowid db0 (\<lambda>x. M x \<or> x = m))"
proof (cases "legacy rowid db0 m")
  case False
  have "migrated_row rowid db0 M x = migrated_row rowid db0 (\<lambda>x. M x \<or> x = m) x" for x
  proof (cases x)
    case (RAllow a)
    with False new_position_same [of rowid db0 a] show ?thesis by auto
  qed auto
  then have "migrated rowid db0 M = migrated rowid db0 (\<lambda>x. M x \<or> x = m)" by (simp add: migrated_def)
  moreover have "flush_positions exec m (allow_pairs (old_allows rowid db0 m)) = ret ()"
    using False by (auto simp: flush_positions_def legacy_def)
  ultimately show ?thesis by (simp add: exactly_ret)
next
  case True
  let ?gs = "map a_GroupID (old_allows rowid db0 m)"
  have "flush_positions exec m (allow_pairs (old_allows rowid db0 m)) =
      for_each (enumerate 0 ?gs) (\<lambda>(i, g). update_position exec m g (int i))"
    using True by (auto simp: flush_positions_def legacy_def comp_def)
  moreover have "number_row m 0 ?gs (migrated_row rowid db0 M x) = migrated_row rowid db0 (\<lambda>x. M x \<or> x = m) x" if "x \<in> set db0" for x
  proof (cases x)
    case (RAllow a)
    show ?thesis
    proof (cases "a_MapID a = m")
      case here: True
      with that RAllow have "a_GroupID a \<in> set ?gs" by (auto simp: in_old_allows)
      with here RAllow True assms(3) show ?thesis by (simp add: new_position_def)
    qed (simp add: RAllow)
  qed auto
  then have "map (number_row m 0 ?gs) (migrated rowid db0 M) = migrated rowid db0 (\<lambda>x. M x \<or> x = m)" by (simp add: migrated_def)
  moreover note exactly_numbers [OF assms(1) old_groups_distinct [OF assms(2), of rowid m], of 0 m "migrated rowid db0 M"]
  ultimately show ?thesis by simp
qed

lemma exactly_backfill:
  assumes "sql_ok exec" "uniq_ok db0"
  shows "sorted (c # map a_MapID as) \<Longrightarrow> allow_pairs (old_allows rowid db0 c) = ps @ allow_pairs (filter (\<lambda>a. a_MapID a = c) as) \<Longrightarrow>
    (\<And>m. c < m \<Longrightarrow> old_allows rowid db0 m = filter (\<lambda>a. a_MapID a = m) as) \<Longrightarrow>
    exactly (backfill exec c ps as) (migrated rowid db0 (\<lambda>m. m < c)) (migrated rowid db0 (\<lambda>_. True))"
proof (induction as arbitrary: c ps)
  case Nil
  have "migrated rowid db0 (\<lambda>x. x < c \<or> x = c) = migrated rowid db0 (\<lambda>_. True)"
  proof (rule migrated_cong)
    fix a assume "RAllow a \<in> set db0"
    then have "a \<in> set (old_allows rowid db0 (a_MapID a))" by (simp add: in_old_allows)
    with Nil(3) [of "a_MapID a"] show "(a_MapID a < c \<or> a_MapID a = c) = True" by (cases "c < a_MapID a") auto
  qed
  with exactly_flush [OF assms, of "\<lambda>m. m < c" c rowid] Nil show ?case by simp
next
  case (Cons a as)
  show ?case
  proof (cases "c = a_MapID a")
    case True
    have "exactly (backfill exec c (ps @ [(a_GroupID a, a_Position a)]) as) (migrated rowid db0 (\<lambda>m. m < c)) (migrated rowid db0 (\<lambda>_. True))"
    proof (rule Cons.IH)
      show "sorted (c # map a_MapID as)" using Cons.prems(1) by auto
      show "allow_pairs (old_allows rowid db0 c) = (ps @ [(a_GroupID a, a_Position a)]) @ allow_pairs (filter (\<lambda>a. a_MapID a = c) as)"
        using Cons.prems(2) True by simp
      show "\<And>m. c < m \<Longrightarrow> old_allows rowid db0 m = filter (\<lambda>a. a_MapID a = m) as" using Cons.prems(3) True by auto
    qed
    with True show ?thesis by simp
  next
    case False
    with Cons.prems(1) have lt: "c < a_MapID a" and above: "\<forall>b \<in> set as. a_MapID a \<le> a_MapID b" by auto
    then have none: "filter (\<lambda>b. a_MapID b = m) (a # as) = []" if "m < a_MapID a" for m
      using that by (auto simp: filter_empty_conv)
    have "allow_pairs (old_allows rowid db0 c) = ps" using Cons.prems(2) none [OF lt] by simp
    with exactly_flush [OF assms, of "\<lambda>m. m < c" c rowid]
    have fl: "exactly (flush_positions exec c ps) (migrated rowid db0 (\<lambda>m. m < c)) (migrated rowid db0 (\<lambda>x. x < c \<or> x = c))" by simp
    have eq: "migrated rowid db0 (\<lambda>x. x < c \<or> x = c) = migrated rowid db0 (\<lambda>m. m < a_MapID a)"
    proof (rule migrated_cong)
      fix b assume "RAllow b \<in> set db0"
      then have "b \<in> set (old_allows rowid db0 (a_MapID b))" by (simp add: in_old_allows)
      then have "\<not> (c < a_MapID b \<and> a_MapID b < a_MapID a)"
        using Cons.prems(3) [of "a_MapID b"] none [of "a_MapID b"] by (auto simp del: filter.simps)
      with lt show "(a_MapID b < c \<or> a_MapID b = c) = (a_MapID b < a_MapID a)" by linarith
    qed
    have "exactly (backfill exec (a_MapID a) [(a_GroupID a, a_Position a)] as) (migrated rowid db0 (\<lambda>m. m < a_MapID a)) (migrated rowid db0 (\<lambda>_. True))"
    proof (rule Cons.IH)
      show "sorted (a_MapID a # map a_MapID as)" using Cons.prems(1) by auto
      show "allow_pairs (old_allows rowid db0 (a_MapID a)) = [(a_GroupID a, a_Position a)] @ allow_pairs (filter (\<lambda>b. a_MapID b = a_MapID a) as)"
        using Cons.prems(3) [OF lt] by simp
      show "\<And>m. a_MapID a < m \<Longrightarrow> old_allows rowid db0 m = filter (\<lambda>a. a_MapID a = m) as" using Cons.prems(3) lt by auto
    qed
    with exactly_andthen [OF fl] eq False show ?thesis by simp
  qed
qed


section \<open>The migration\<close>

text \<open>The statement returns the rows in any order; sorting by insertion number settles it.\<close>

lemma by_rowid:
  assumes "inj rowid" "uniq_ok db" "mset rows = mset (filter (\<lambda>r. table_of r = TAllow) db)"
  shows "sort_key (rowid \<circ> allow_key) (t_allows rows) = sort_key (rowid \<circ> allow_key) (t_allows db)"
proof -
  have "t_allows (filter (\<lambda>r. table_of r = TAllow) db) = t_allows db"
    by (induction db) (auto simp: t_allows_def map_filter_simps split: row.splits)
  moreover have "mset (t_allows xs) = image_mset (\<lambda>r. case r of RAllow a \<Rightarrow> a) (filter_mset (\<lambda>r. table_of r = TAllow) (mset xs))" for xs
    by (induction xs) (auto simp: t_allows_def map_filter_simps split: row.splits)
  ultimately have m: "mset (t_allows rows) = mset (t_allows db)" using assms(3) by (metis mset_filter)
  have "inj_on allow_key (set (t_allows db))" using allow_keys_distinct [OF assms(2)] by (simp add: distinct_map)
  then have inj: "inj_on (rowid \<circ> allow_key) (set (t_allows rows))"
    using assms(1) mset_eq_setD [OF m] by (simp add: comp_inj_on inj_on_subset [of rowid UNIV])
  show ?thesis by (rule sort_key_inj_key_eq [OF _ inj]) (simp_all add: m)
qed

theorem migration_outcome:
  assumes "sql_ok exec" "inj rowid" "uniq_ok db"
    "migrateMapAllowedGroupPositionsDB exec rowid (n, db) = (r, (n', db'))"
  shows "case r of Inl _ \<Rightarrow> db' = db | Inr _ \<Rightarrow> uniq_ok db' \<and> db' = migrated rowid db (\<lambda>_. True)"
proof -
  have "hoare (\<lambda>d. d = db) (migrateMapAllowedGroupPositionsDB exec rowid)
      (\<lambda>_ d. uniq_ok d \<and> d = migrated rowid db (\<lambda>_. True)) (\<lambda>d. d = db)"
    unfolding migrateMapAllowedGroupPositionsDB_def find_rows_def
  proof (rule hoare_andthen)
    show "hoare (\<lambda>d. d = db) (run exec (Select TAllow (\<lambda>_. True)))
        (\<lambda>rows d. d = db \<and> mset rows = mset (filter (\<lambda>r. table_of r = TAllow) db)) (\<lambda>d. d = db)"
      by (rule hoare_run [OF assms(1)]) (use assms(3) in auto)
    fix rows
    show "hoare (\<lambda>d. d = db \<and> mset rows = mset (filter (\<lambda>r. table_of r = TAllow) db))
        (transaction (backfill exec 0 [] (allows_by_rowid rowid rows)))
        (\<lambda>_ d. uniq_ok d \<and> d = migrated rowid db (\<lambda>_. True)) (\<lambda>d. d = db)"
    proof (rule hoare_transaction)
      fix d assume d: "d = db \<and> mset rows = mset (filter (\<lambda>r. table_of r = TAllow) db)"
      let ?as = "allows_by_rowid rowid rows"
      have old: "old_allows rowid db m = filter (\<lambda>a. a_MapID a = m) ?as" for m
        using by_rowid [OF assms(2,3)] d by (simp add: old_allows_def allows_by_rowid_def sort_key_stable)
      have "exactly (backfill exec 0 [] ?as) (migrated rowid db (\<lambda>m. m < 0)) (migrated rowid db (\<lambda>_. True))"
        by (rule exactly_backfill [OF assms(1,3)]) (simp_all add: old allows_by_rowid_def)
      moreover have "migrated rowid db (\<lambda>m. m < 0) = db"
      proof -
        have "migrated_row rowid db (\<lambda>m. m < 0) x = x" for x by (cases x) auto
        then show ?thesis unfolding migrated_def by (intro map_idI)
      qed
      ultimately show "hoare (\<lambda>db. db = d) (backfill exec 0 [] ?as) (\<lambda>_ d. uniq_ok d \<and> d = migrated rowid db (\<lambda>_. True)) (\<lambda>_. True)"
        using assms(3) d by (auto simp: exactly_def hoare_def)
    qed simp
  qed
  from hoareD [OF this refl] assms(4) show ?thesis by (cases r) auto
qed

text \<open>
  What the lists read like afterwards: a map without an order has the order in which its groups were added, and
  any other is left as it was.
\<close>

lemma t_allows_migrated: "t_allows (migrated rowid db M) = map (\<lambda>a. if M (a_MapID a) then a\<lparr>a_Position := new_position rowid db a\<rparr> else a) (t_allows db)"
proof -
  have "t_allows (map (migrated_row rowid db M) xs) = map (\<lambda>a. if M (a_MapID a) then a\<lparr>a_Position := new_position rowid db a\<rparr> else a) (t_allows xs)" for xs
    by (induction xs) (auto simp: t_allows_def map_filter_simps split: row.splits)
  then show ?thesis by (simp add: migrated_def)
qed

lemma rank_nth: "distinct gs \<Longrightarrow> i < length gs \<Longrightarrow> rank gs (gs ! i) = i"
  by (induction gs arbitrary: i) (auto simp: nth_Cons split: nat.splits)

definition list_groups :: "db \<Rightarrow> nat \<Rightarrow> nat list" where
  "list_groups db m = map a_GroupID (sort_key a_Position (sort_key a_GroupID (filter (\<lambda>a. a_MapID a = m) (t_allows db))))"

theorem migrated_order:
  assumes "uniq_ok db" "legacy rowid db m"
  shows "list_groups (migrated rowid db (\<lambda>_. True)) m = map a_GroupID (old_allows rowid db m)"
proof -
  let ?old = "old_allows rowid db m" and ?f = "\<lambda>a. a\<lparr>a_Position := new_position rowid db a\<rparr>"
  let ?new = "filter (\<lambda>a. a_MapID a = m) (t_allows (migrated rowid db (\<lambda>_. True)))"
  have pos: "map (a_Position \<circ> ?f) ?old = map int [0..<length ?old]"
  proof (rule nth_equalityI)
    fix i assume i: "i < length (map (a_Position \<circ> ?f) ?old)"
    then have "a_MapID (?old ! i) = m" using in_old_allows [of "?old ! i" rowid db m] by simp
    moreover have "rank (map a_GroupID ?old) (a_GroupID (?old ! i)) = i"
      using rank_nth [OF old_groups_distinct [OF assms(1), of rowid m], of i] i by simp
    ultimately show "map (a_Position \<circ> ?f) ?old ! i = map int [0..<length ?old] ! i"
      using i assms(2) by (simp add: new_position_def)
  qed simp
  have "mset ?new = mset (map ?f ?old)"
    by (simp add: t_allows_migrated old_allows_def filter_map comp_def)
  moreover have sorted: "sorted (map a_Position (map ?f ?old))" using pos by (simp add: comp_def sorted_map)
  moreover have "inj_on a_Position (set ?new)"
  proof -
    have "distinct (map a_Position (map ?f ?old))" using pos by (simp add: comp_def distinct_map)
    then have "inj_on a_Position (set (map ?f ?old))" by (simp only: distinct_map)
    then show ?thesis using mset_eq_setD [OF calculation(1)] by simp
  qed
  ultimately have "sort_key a_Position (sort_key a_GroupID ?new) = map ?f ?old"
    by (intro sort_key_inj_key_eq) simp_all
  then show ?thesis by (simp add: list_groups_def comp_def)
qed

theorem migrated_others:
  assumes "\<not> legacy rowid db m"
  shows "list_groups (migrated rowid db (\<lambda>_. True)) m = list_groups db m"
proof -
  have "filter (\<lambda>a. a_MapID a = m) (t_allows (migrated rowid db (\<lambda>_. True))) = filter (\<lambda>a. a_MapID a = m) (t_allows db)"
    unfolding t_allows_migrated filter_map comp_def
    by (rule map_idI [THEN trans]) (use assms new_position_same in auto)
  then show ?thesis by (simp add: list_groups_def)
qed

end
