(* ===== verification/Spec2Isabelle.thy ===== *)
theory Spec2Isabelle
  imports Policy_Apply Service_Reach Map_Proxy_Props Reconcile Api_Types Limiter_Props Backup_Props Gates Loops System
    Forward_Sessions_Props Map_Pumps Poller Request_Log_Props Web_Static Dns_Server Migrations
begin

text \<open>
  \<^bold>\<open>WireHub, a model of its Go code.\<close>

  WireHub is a WireGuard hub in one process.  Administrators use an HTTP API; the hub keeps peers,
  groups, links between groups, service maps (virtual addresses that stand for a host in a peer's
  network), port forwards and its settings in an SQLite database, and runs a user-space data plane:
  a WireGuard device with a TUN that filters packets between peers, a relay with source NAT, a DNS
  server, a proxy for service maps and a proxy for port forwards.

  \<^bold>\<open>How the parts interact.\<close>  A request passes the routes and their guards (\<^verbatim>\<open>api/http/router.go\<close>,
  \<^verbatim>\<open>auth\<close>), a handler (\<^verbatim>\<open>handlers\<close>) and an operation of the service (\<^verbatim>\<open>service\<close>), which checks it, runs
  transactions of the store (\<^verbatim>\<open>repo\<close>) and then reconciles: it loads a snapshot of the whole database and
  hands it to the runtime stack (\<^verbatim>\<open>vpn/runtime\<close>), which pushes it to the tunnel (\<^verbatim>\<open>vpn/tunnel\<close>), the
  filter (\<^verbatim>\<open>vpn/policy\<close>, \<^verbatim>\<open>vpn/tun\<close>), the relay (\<^verbatim>\<open>vpn/snat\<close>), the DNS server (\<^verbatim>\<open>vpn/dns\<close>) and the proxies
  (\<^verbatim>\<open>vpn/ingress\<close>).  The theories are in this order, callees first.

  \<^bold>\<open>Theories and the code they model.\<close>

  \<^item> \<^verbatim>\<open>Prelude\<close>, \<^verbatim>\<open>Act\<close>, \<^verbatim>\<open>Net\<close>: Go's vocabulary.  Error results are sums \<^verbatim>\<open>err + 'a\<close>; a function with effects
    and an error result is an action, a function from the state to a result and the next state; Go maps
    are association lists; machine integers are words.  \<^verbatim>\<open>Net\<close> holds the calls into the WireGuard device
    and the network stack, whose outcome is the argument \<^verbatim>\<open>net\<close>.
  \<^item> \<^verbatim>\<open>Go_Strings\<close>, \<^verbatim>\<open>Netip\<close>: the functions of Go's \<^verbatim>\<open>strings\<close>, \<^verbatim>\<open>strconv\<close> and \<^verbatim>\<open>net/netip\<close> that the code
    uses: trimming, splitting, number parsing; IPv4 and IPv6 addresses and prefixes.
  \<^item> \<^verbatim>\<open>Subnet\<close>, \<^verbatim>\<open>Loops\<close>: \<^verbatim>\<open>config/subnet.go\<close> and the allocator of \<^verbatim>\<open>repo/ip_alloc.go\<close>.
    \<^verbatim>\<open>Config_Rules\<close>, \<^verbatim>\<open>Domain_Rules\<close>: the rest of \<^verbatim>\<open>config\<close> and \<^verbatim>\<open>domain/{peer,hub,forward,map,client}\<close>,
    every validation and normalisation.
  \<^item> \<^verbatim>\<open>Policy\<close>, \<^verbatim>\<open>Policy_Apply\<close>: \<^verbatim>\<open>domain/policy\<close> and \<^verbatim>\<open>vpn/policy/apply.go\<close>.
    \<^verbatim>\<open>Sync_Bundle\<close>: \<^verbatim>\<open>domain/runtime\<close>, the snapshot.
  \<^item> \<^verbatim>\<open>Packet\<close>, \<^verbatim>\<open>Snat\<close>: \<^verbatim>\<open>vpn/snat\<close>, packets as byte lists, checksums on words, the relay table and its port
    pool.  \<^verbatim>\<open>Tun\<close>: \<^verbatim>\<open>vpn/tun\<close>, the access rules, the flow memory and the two directions of the device.
  \<^item> \<^verbatim>\<open>Dns\<close>, \<^verbatim>\<open>Dns_Props\<close>: what \<^verbatim>\<open>vpn/dns\<close> answers; \<^verbatim>\<open>Dns_Server\<close>: the goroutine that serves it.  \<^verbatim>\<open>Ingress\<close>,
    \<^verbatim>\<open>Ingress_Props\<close>: the forward proxy of \<^verbatim>\<open>vpn/ingress\<close>; \<^verbatim>\<open>Relay\<close>: the relay of one TCP connection, for forwards and
    maps; \<^verbatim>\<open>Forward_Sessions\<close>, \<^verbatim>\<open>Forward_Sessions_Props\<close>: the sessions of a UDP forward.  \<^verbatim>\<open>Map_Proxy\<close>, \<^verbatim>\<open>Map_Proxy_Props\<close>:
    its map proxy, a step relation that interleaves handlers, dials, timeouts and rule changes; \<^verbatim>\<open>Map_Pumps\<close>: the
    two pumps of one of its UDP sessions.  \<^verbatim>\<open>Event_Runs\<close>: runs of goroutines that share state, as lists of events.
  \<^item> \<^verbatim>\<open>Keys\<close>, \<^verbatim>\<open>Tunnel\<close>, \<^verbatim>\<open>Tunnel_Props\<close>: \<^verbatim>\<open>vpn/tunnel\<close>.  \<^verbatim>\<open>Stack\<close>, \<^verbatim>\<open>Stack_Props\<close>: \<^verbatim>\<open>vpn/runtime\<close>, the start, the
    stop and the synchronisation of all parts, also when starts and stops overlap.
  \<^item> \<^verbatim>\<open>Db\<close>, \<^verbatim>\<open>Store\<close>, \<^verbatim>\<open>Store_Tables\<close>, \<^verbatim>\<open>Store_Inv\<close>, \<^verbatim>\<open>Store_Reads\<close>, \<^verbatim>\<open>Store_Props\<close>: \<^verbatim>\<open>repo\<close>.  The database is a list
    of rows, each of its table; an operation is a sequence of statements with their errors, and a transaction
    is undone when its body fails.  \<^verbatim>\<open>Backup\<close>, \<^verbatim>\<open>Backup_Props\<close>: \<^verbatim>\<open>repo/backup.go\<close> on a file system whose calls may
    fail at any point.
  \<^item> \<^verbatim>\<open>Migrations\<close>: the migration of old allow lists in \<^verbatim>\<open>repo/maps.go\<close>.
  \<^item> \<^verbatim>\<open>Service_Base\<close>, \<^verbatim>\<open>Service_Ops\<close>, \<^verbatim>\<open>Service_Inv\<close>, \<^verbatim>\<open>Service_Reach\<close>: \<^verbatim>\<open>service\<close>; \<^verbatim>\<open>Poller\<close>: its status poller with
    concurrent starts and stops.  \<^verbatim>\<open>Snapshot\<close>, \<^verbatim>\<open>Net_View\<close>, \<^verbatim>\<open>Reconcile\<close>: the service on top of the runtime stack, and what
    the data plane sees of the database.  \<^verbatim>\<open>Gates\<close>: the DNS server, the filter and the map proxy side by side.
  \<^item> \<^verbatim>\<open>Dto\<close>, \<^verbatim>\<open>Auth\<close>, \<^verbatim>\<open>Limiter\<close>, \<^verbatim>\<open>Limiter_Props\<close>, \<^verbatim>\<open>Ws_Hub\<close>, \<^verbatim>\<open>Handlers\<close>, \<^verbatim>\<open>Router\<close>, \<^verbatim>\<open>Router_Props\<close>, \<^verbatim>\<open>Api_Types\<close>: \<^verbatim>\<open>api\<close>.

  \<^item> \<^verbatim>\<open>Startup\<close>: \<^verbatim>\<open>config/config.go\<close>, \<^verbatim>\<open>config/jwt.go\<close> and the wiring of \<^verbatim>\<open>bootstrap/bootstrap.go\<close>; \<^verbatim>\<open>Request_Log\<close>,
    \<^verbatim>\<open>Request_Log_Props\<close>: its access log and panic reports.  \<^verbatim>\<open>Web_Static\<close>: \<^verbatim>\<open>static/static.go\<close>.  \<^verbatim>\<open>Reads\<close>: the programs
    that only read.  \<^verbatim>\<open>System\<close>: the whole served hub, from the start of the process over every request and every
    write of the poller.

  \<^bold>\<open>What the lemmas show.\<close>
  Access: the filter lets exactly the pairs through that groups and links allow, and in later states
  only such traffic and its answers (\<^verbatim>\<open>Policy_Apply\<close>); the relay table relays exactly the pairs the policy
  wants relayed; DNS, filter and map proxy agree with the database on who may use a map (\<^verbatim>\<open>Gates\<close>).
  Consistency: every operation of the service keeps the database's invariant, on failure too
  (\<^verbatim>\<open>Service_Reach\<close>); after a successful request a running hub carries a snapshot of exactly the database
  (\<^verbatim>\<open>Reconcile\<close>); a failed reconciliation leaves the hub down; a start loads every part or nothing
  (\<^verbatim>\<open>Stack_Props\<close>); all of it together over the life of the process (\<^verbatim>\<open>System\<close>); polls of the status never
  overlap, and a stop waits for the last one (\<^verbatim>\<open>Poller\<close>).
  Data plane: rewriting packets keeps them well formed and checksums right, replies find their client,
  ports are never shared (\<^verbatim>\<open>Packet\<close>, \<^verbatim>\<open>Snat\<close>); applying forwards is all or nothing (\<^verbatim>\<open>Ingress_Props\<close>); live flows
  of the map proxy are allowed flows (\<^verbatim>\<open>Map_Proxy_Props\<close>); a relay changes nothing it copies and leaves no
  goroutine (\<^verbatim>\<open>Relay\<close>), a UDP backend serves one client (\<^verbatim>\<open>Forward_Sessions_Props\<close>); DNS hides what a client may not use (\<^verbatim>\<open>Dns_Props\<close>).
  Store: the contract of each operation on every branch (\<^verbatim>\<open>Store_Props\<close>); an import never loses the rows
  (\<^verbatim>\<open>Backup_Props\<close>), a migrated allow list keeps its order (\<^verbatim>\<open>Migrations\<close>).
  API: unauthenticated requests have no effect, a login's token works as long as it should
  (\<^verbatim>\<open>Router_Props\<close>), answers have the types the web client declares (\<^verbatim>\<open>Api_Types\<close>), the number of login attempts
  is bounded (\<^verbatim>\<open>Limiter_Props\<close>), the status hub never sends on a closed channel (\<^verbatim>\<open>Ws_Hub\<close>), the logs hide
  tokens (\<^verbatim>\<open>Request_Log_Props\<close>).

  \<^bold>\<open>Interfaces.\<close>  \<^verbatim>\<open>acl\<close> and \<^verbatim>\<open>flow_memory\<close> (\<^verbatim>\<open>Tun\<close>) are what the filter needs of its rules and of its memory,
  \<^verbatim>\<open>address_pool\<close> (\<^verbatim>\<open>Subnet\<close>) what the store needs of the allocator, \<^verbatim>\<open>network_runtime\<close> (\<^verbatim>\<open>Reconcile\<close>) what the
  service needs of the data plane, \<^verbatim>\<open>polled_runtime\<close> (\<^verbatim>\<open>System\<close>) that with the poller's writes, and \<^verbatim>\<open>event_machine\<close>
  (\<^verbatim>\<open>Event_Runs\<close>) what a component of goroutines promises of its steps.  Each is interpreted on the model's own definitions.

  \<^bold>\<open>Bounds and termination.\<close>  All loops end.  The only fuel is that of the IPv6 parser, eight rounds: a round
  adds a group and an address has eight.  The port pool draws at most 256 times, as its code does, and
  then reports that it is exhausted; the allocator's loop and the folding of carries have termination
  proofs, and \<^verbatim>\<open>Loops\<close> says how many rounds they take.  Integers that the code keeps in a fixed
  width and on which it computes (addresses, ports, checksums, packet lengths) are words; identifiers
  and counters are unbounded, as no bound is reached by counting up one row at a time.

  \<^bold>\<open>Parameters.\<close>  Code outside the repository is an argument: the SQL engine (a statement of an executor
  may fail or do what SQL documents; \<^verbatim>\<open>Store_Props\<close> has an instance), the WireGuard device and the network
  stack (calls fail or succeed), the JWT and the password hash functions (\<^verbatim>\<open>env\<close> of \<^verbatim>\<open>Handlers\<close>), request
  decoding by gin, message parsing by miekg/dns, curve multiplication, random bytes, the clock, the
  file system's outcomes.

  \<^bold>\<open>Not modelled, and why.\<close>  Signals, shutdown and the plain log lines of \<^verbatim>\<open>bootstrap\<close>: I/O.  The file server under
  \<^verbatim>\<open>/assets\<close> and the router belong to gin.  \<^verbatim>\<open>vpn/netstack/stack.go\<close> and \<^verbatim>\<open>vpn/tunnel/tun_once.go\<close> adapt third-party
  packages and decide nothing.  The schema steps of migrations (adding and dropping columns and tables) belong
  to GORM; their data steps are modelled.  \<^verbatim>\<open>internal/integration\<close> holds helpers of tests.  The React client is
  not Go; its declared types are used in \<^verbatim>\<open>Api_Types\<close>.
  Locks are modelled by their effect, operations under a lock being one step, except where the code
  releases them in between: there (\<^verbatim>\<open>Map_Proxy\<close>, \<^verbatim>\<open>Stack\<close>, \<^verbatim>\<open>Ws_Hub\<close> and the theories on \<^verbatim>\<open>Event_Runs\<close>) the steps interleave.  The limiter's
  \<^verbatim>\<open>float64\<close> amounts are exact rationals and canvas coordinates are integers, so rounding is not modelled.
  A nil slice and an empty one are the same list except where an answer shows the difference as JSON.
  A database file is its size, its first bytes, SQLite's integrity verdict, its table names and its
  rows; its -wal and -shm files are copied, moved and removed as files, and what their pages would add
  to the rows is not modelled.
\<close>

end
